(* ===== verification/Prelude.thy ===== *)
theory Prelude
  imports Complex_Main "HOL-Library.List_Lexorder" "HOL-Library.Char_ord" "HOL-Library.Sublist"
begin

text \<open>
  What every component of the development shares: the named collections of facts, Python's
  operations on text that the source uses (decimal formatting, \<open>int()\<close>, \<open>strip\<close>, \<open>split\<close>,
  \<open>repr\<close> of a string), SQLite's \<open>ORDER BY \<dots> DESC\<close> over a list of rows, and lists updated
  by a predicate the way an \<open>UPDATE \<dots> WHERE\<close> updates a table.

  Text is \<^typ>\<open>string\<close>, a list of characters; the order on it is the lexicographic one
  (theories \<open>List_Lexorder\<close> and \<open>Char_ord\<close>), which is Python's order on \<open>str\<close> and SQLite's
  BINARY collation.
\<close>

named_theorems wp_simps \<open>weakest preconditions of the statements of the model\<close>
named_theorems keeps_intros \<open>state predicates an action keeps\<close>
named_theorems db_simps \<open>the tables after a query or an update\<close>

section \<open>Text\<close>

definition newline :: string where
  "newline = [CHR 0x0A]"

definition squote :: char where
  "squote = CHR 0x27"

definition digit_char :: "nat \<Rightarrow> char" where
  "digit_char d = char_of (48 + d)"

fun str_nat :: "nat \<Rightarrow> string" where
  "str_nat n = (if n < 10 then [digit_char n] else str_nat (n div 10) @ [digit_char (n mod 10)])"

declare str_nat.simps [simp del]

definition str_int :: "int \<Rightarrow> string" where
  "str_int i = (if i < 0 then ''-'' @ str_nat (nat (- i)) else str_nat (nat i))"

definition is_digit :: "char \<Rightarrow> bool" where
  "is_digit c \<longleftrightarrow> 48 \<le> (of_char c :: nat) \<and> (of_char c :: nat) \<le> 57"

definition digit_value :: "char \<Rightarrow> nat" where
  "digit_value c = of_char c - 48"

definition digits_value :: "string \<Rightarrow> nat" where
  "digits_value s = foldl (\<lambda>a c. 10 * a + digit_value c) 0 s"

definition is_space :: "char \<Rightarrow> bool" where
  "is_space c \<longleftrightarrow> (let n = (of_char c :: nat) in n = 32 \<or> (9 \<le> n \<and> n \<le> 13) \<or> (28 \<le> n \<and> n \<le> 31) \<or>
     n = 133 \<or> n = 160)"

definition lstrip :: "string \<Rightarrow> string" where
  "lstrip s = dropWhile is_space s"

definition rstrip :: "string \<Rightarrow> string" where
  "rstrip s = rev (dropWhile is_space (rev s))"

definition strip :: "string \<Rightarrow> string" where
  "strip s = rstrip (lstrip s)"

text \<open>Digits with single underscores between them, as \<open>int()\<close> reads them.\<close>

fun underscored_digits :: "string \<Rightarrow> bool" where
  "underscored_digits [] = False"
| "underscored_digits [c] = is_digit c"
| "underscored_digits (c # d # s) =
     (is_digit c \<and> (if d = CHR ''_'' then underscored_digits s else underscored_digits (d # s)))"

text \<open>\<open>int(text)\<close>: surrounding white space, one sign, decimal digits; None is its ValueError.\<close>

definition py_int :: "string \<Rightarrow> int option" where
  "py_int text =
     (let s = strip text;
          (neg, body) = (case s of [] \<Rightarrow> (False, [])
                         | c # cs \<Rightarrow> if c = CHR ''-'' then (True, cs)
                                     else if c = CHR ''+'' then (False, cs) else (False, s))
      in if underscored_digits body
         then let v = int (digits_value (filter (\<lambda>c. c \<noteq> CHR ''_'') body))
              in Some (if neg then - v else v)
         else None)"

definition removeprefix :: "string \<Rightarrow> string \<Rightarrow> string" where
  "removeprefix p s = (if prefix p s then drop (length p) s else s)"

definition ascii_lower_char :: "char \<Rightarrow> char" where
  "ascii_lower_char c =
     (let n = (of_char c :: nat) in if 65 \<le> n \<and> n \<le> 90 then char_of (n + 32) else c)"

definition ascii_upper_char :: "char \<Rightarrow> char" where
  "ascii_upper_char c =
     (let n = (of_char c :: nat) in if 97 \<le> n \<and> n \<le> 122 then char_of (n - 32) else c)"

definition lower :: "string \<Rightarrow> string" where
  "lower s = map ascii_lower_char s"

definition upper :: "string \<Rightarrow> string" where
  "upper s = map ascii_upper_char s"

text \<open>\<open>sep.join(xs)\<close> and \<open>text.split(c)\<close> for a one-character separator.\<close>

fun join :: "string \<Rightarrow> string list \<Rightarrow> string" where
  "join sep [] = []"
| "join sep [x] = x"
| "join sep (x # y # ys) = x @ sep @ join sep (y # ys)"

fun split_on :: "char \<Rightarrow> string \<Rightarrow> string list" where
  "split_on c [] = [[]]"
| "split_on c (x # xs) =
     (if x = c then [] # split_on c xs
      else case split_on c xs of [] \<Rightarrow> [[x]] | w # ws \<Rightarrow> (x # w) # ws)"

text \<open>\<open>text.splitlines()\<close> and \<open>text.split()\<close>.\<close>

definition is_line_end :: "char \<Rightarrow> bool" where
  "is_line_end c \<longleftrightarrow> (let n = (of_char c :: nat) in (10 \<le> n \<and> n \<le> 13) \<or> (28 \<le> n \<and> n \<le> 30) \<or> n = 133)"

fun splitlines :: "string \<Rightarrow> string list" where
  "splitlines [] = []"
| "splitlines [c] = (if is_line_end c then [[]] else [[c]])"
| "splitlines (c # d # s) =
     (if is_line_end c
      then [] # (if c = CHR 0x0D \<and> d = CHR 0x0A then splitlines s else splitlines (d # s))
      else case splitlines (d # s) of [] \<Rightarrow> [[c]] | l # ls \<Rightarrow> (c # l) # ls)"

fun words :: "string \<Rightarrow> string list" where
  "words [] = []"
| "words [c] = (if is_space c then [] else [[c]])"
| "words (c # d # s) =
     (if is_space c then words (d # s)
      else if is_space d then [c] # words s
      else case words (d # s) of [] \<Rightarrow> [[c]] | w # ws \<Rightarrow> (c # w) # ws)"

text \<open>\<open>text.partition(c)\<close>: what stands before the first \<open>c\<close>, whether there is one, what stands
  after it; \<open>rpartition\<close> splits at the last one and returns everything as the tail without it.\<close>

definition partition_at :: "char \<Rightarrow> string \<Rightarrow> string \<times> bool \<times> string" where
  "partition_at c s =
     (let h = takeWhile (\<lambda>x. x \<noteq> c) s
      in if c \<in> set s then (h, True, drop (Suc (length h)) s) else (s, False, []))"

definition rpartition_at :: "char \<Rightarrow> string \<Rightarrow> string \<times> bool \<times> string" where
  "rpartition_at c s =
     (let t = rev (takeWhile (\<lambda>x. x \<noteq> c) (rev s))
      in if c \<in> set s then (take (length s - Suc (length t)) s, True, t) else ([], False, s))"

definition hex_digit :: "nat \<Rightarrow> char" where
  "hex_digit n = (if n < 10 then digit_char n else char_of (87 + n))"

definition repr_char :: "char \<Rightarrow> char \<Rightarrow> string" where
  "repr_char quote c =
     (let n = (of_char c :: nat)
      in if c = quote \<or> c = CHR 0x5C then [CHR 0x5C, c]
         else if n = 9 then [CHR 0x5C, CHR ''t'']
         else if n = 10 then [CHR 0x5C, CHR ''n'']
         else if n = 13 then [CHR 0x5C, CHR ''r'']
         else if n < 32 \<or> n = 127 then [CHR 0x5C, CHR ''x'', hex_digit (n div 16), hex_digit (n mod 16)]
         else [c])"

definition py_repr :: "string \<Rightarrow> string" where
  "py_repr s =
     (let q = (if squote \<in> set s \<and> CHR 0x22 \<notin> set s then CHR 0x22 else squote)
      in [q] @ concat (map (repr_char q) s) @ [q])"

definition py_repr_list :: "string list \<Rightarrow> string" where
  "py_repr_list xs = ''['' @ join '', '' (map py_repr xs) @ '']''"

section \<open>Decimal text round trips\<close>

lemma digit_char_is_digit: "d < 10 \<Longrightarrow> is_digit (digit_char d)"
  by (simp add: is_digit_def digit_char_def)

lemma digit_value_char [simp]: "d < 10 \<Longrightarrow> digit_value (digit_char d) = d"
  by (simp add: digit_value_def digit_char_def)

lemma str_nat_nonempty [simp]: "str_nat n \<noteq> []"
  by (subst str_nat.simps) simp

lemma str_nat_digits: "c \<in> set (str_nat n) \<Longrightarrow> is_digit c"
proof (induction n rule: str_nat.induct)
  case (1 n)
  show ?case
  proof (cases "n < 10")
    case True
    with "1.prems" show ?thesis by (simp add: str_nat.simps [of n] digit_char_is_digit)
  next
    case False
    with "1" show ?thesis
      by (auto simp: str_nat.simps [of n] intro: digit_char_is_digit)
  qed
qed

lemma digits_value_append [simp]:
  "digits_value (s @ [c]) = 10 * digits_value s + digit_value c"
  by (simp add: digits_value_def)

lemma digits_value_str_nat [simp]: "digits_value (str_nat n) = n"
proof (induction n rule: str_nat.induct)
  case (1 n)
  show ?case
  proof (cases "n < 10")
    case True
    then show ?thesis by (simp add: str_nat.simps [of n] digits_value_def)
  next
    case False
    with "1" have "digits_value (str_nat (n div 10)) = n div 10" by simp
    with False show ?thesis by (simp add: str_nat.simps [of n])
  qed
qed

lemma str_nat_inject [simp]: "str_nat m = str_nat n \<longleftrightarrow> m = n"
  by (metis digits_value_str_nat)

lemma digit_not_space: "is_digit c \<Longrightarrow> \<not> is_space c"
  by (auto simp: is_digit_def is_space_def Let_def)

lemma dropWhile_space_digits: "(\<And>c. c \<in> set s \<Longrightarrow> is_digit c) \<Longrightarrow> dropWhile is_space s = s"
  by (cases s) (auto simp: digit_not_space)

lemma strip_digits: "(\<And>c. c \<in> set s \<Longrightarrow> is_digit c) \<Longrightarrow> strip s = s"
proof -
  assume d: "\<And>c. c \<in> set s \<Longrightarrow> is_digit c"
  have "dropWhile is_space s = s" by (rule dropWhile_space_digits) (rule d)
  moreover have "dropWhile is_space (rev s) = rev s"
    by (rule dropWhile_space_digits) (simp add: d)
  ultimately show "strip s = s" by (simp add: strip_def lstrip_def rstrip_def)
qed

lemma underscored_all_digits:
  "s \<noteq> [] \<Longrightarrow> (\<And>c. c \<in> set s \<Longrightarrow> is_digit c) \<Longrightarrow> underscored_digits s"
proof (induction s rule: underscored_digits.induct)
  case (3 c d s)
  have "is_digit d" using "3.prems" by simp
  then have "d \<noteq> CHR ''_''" by (auto simp: is_digit_def)
  moreover have "underscored_digits (d # s)" using \<open>d \<noteq> CHR ''_''\<close> "3" by simp
  ultimately show ?case using "3.prems" by simp
qed simp_all

lemma py_int_str_nat [simp]: "py_int (str_nat n) = Some (int n)"
proof -
  have digits: "\<And>c. c \<in> set (str_nat n) \<Longrightarrow> is_digit c" by (rule str_nat_digits)
  obtain c cs where s: "str_nat n = c # cs" by (cases "str_nat n") simp_all
  have "is_digit c" using digits s by simp
  then have c: "c \<noteq> CHR ''-''" "c \<noteq> CHR ''+''" by (auto simp: is_digit_def)
  have f: "filter (\<lambda>c. c \<noteq> CHR ''_'') (str_nat n) = str_nat n"
    using digits [of "CHR ''_''"] by (auto simp: filter_id_conv is_digit_def)
  have u: "underscored_digits (str_nat n)" by (rule underscored_all_digits) (simp_all add: digits)
  have st: "strip (str_nat n) = str_nat n" by (rule strip_digits) (rule digits)
  have v: "digits_value (c # cs) = n" using s by (metis digits_value_str_nat)
  show ?thesis
    using c f u v st unfolding s by (simp add: py_int_def Let_def del: filter.simps)
qed

lemma removeprefix_append [simp]: "removeprefix p (p @ s) = s"
  by (simp add: removeprefix_def)

section \<open>Tables as lists of rows\<close>

text \<open>\<open>ORDER BY key DESC\<close>: rows with equal keys keep their order in the table.\<close>

definition order_desc :: "('a \<Rightarrow> 'k::linorder) \<Rightarrow> 'a list \<Rightarrow> 'a list" where
  "order_desc key rows = rev (sort_key key (rev rows))"

definition update_where :: "('a \<Rightarrow> bool) \<Rightarrow> ('a \<Rightarrow> 'a) \<Rightarrow> 'a list \<Rightarrow> 'a list" where
  "update_where P f rows = map (\<lambda>r. if P r then f r else r) rows"

definition max_of :: "int list \<Rightarrow> int option" where
  "max_of xs = (case xs of [] \<Rightarrow> None | x # ys \<Rightarrow> Some (foldl max x ys))"

definition first_row :: "'a list \<Rightarrow> 'a option" where
  "first_row rows = (case rows of [] \<Rightarrow> None | r # _ \<Rightarrow> Some r)"

lemma set_order_desc [simp]: "set (order_desc key rows) = set rows"
  by (simp add: order_desc_def)

lemma length_order_desc [simp]: "length (order_desc key rows) = length rows"
  by (simp add: order_desc_def)

lemma distinct_order_desc [simp]: "distinct (order_desc key rows) = distinct rows"
  by (simp add: order_desc_def)

lemma order_desc_sorted:
  "sorted_wrt (\<lambda>a b. key b \<le> key a) (order_desc key rows)"
proof -
  have "sorted_wrt (\<lambda>a b. key a \<le> key b) (sort_key key (rev rows))"
    by (metis sorted_map sorted_sort_key)
  then show ?thesis by (simp add: order_desc_def sorted_wrt_rev)
qed

lemma first_order_desc_greatest:
  assumes "first_row (order_desc key rows) = Some r"
  shows "r \<in> set rows" and "\<And>q. q \<in> set rows \<Longrightarrow> key q \<le> key r"
proof -
  from assms obtain rs where o: "order_desc key rows = r # rs"
    by (auto simp: first_row_def split: list.splits)
  have s: "set rows = set (r # rs)" using o by (metis set_order_desc)
  show "r \<in> set rows" using s by simp
  show "\<And>q. q \<in> set rows \<Longrightarrow> key q \<le> key r"
    using order_desc_sorted [of key rows] o s by auto
qed

lemma first_row_None [simp]: "first_row rows = None \<longleftrightarrow> rows = []"
  by (auto simp: first_row_def split: list.splits)

lemma order_desc_Nil [simp]: "order_desc key [] = []"
  by (simp add: order_desc_def)

lemma order_desc_eq_Nil [simp]: "order_desc key rows = [] \<longleftrightarrow> rows = []"
  by (metis length_0_conv length_order_desc)

lemma update_where_Nil [simp]: "update_where P f [] = []"
  by (simp add: update_where_def)

lemma length_update_where [simp]: "length (update_where P f rows) = length rows"
  by (simp add: update_where_def)

lemma update_where_key:
  "(\<And>r. key (f r) = key r) \<Longrightarrow> map key (update_where P f rows) = map key rows"
  by (induction rows) (auto simp: update_where_def)

lemma update_where_none: "(\<And>r. r \<in> set rows \<Longrightarrow> \<not> P r) \<Longrightarrow> update_where P f rows = rows"
  by (induction rows) (auto simp: update_where_def)

lemma foldl_max_ge: "(x::int) \<le> foldl max x xs \<and> (\<forall>y\<in>set xs. y \<le> foldl max x xs)"
  by (induction xs arbitrary: x) (auto simp: max.coboundedI1, metis max.cobounded1 order_trans, metis max.cobounded2 order_trans)

lemma max_of_ge: "max_of xs = Some m \<Longrightarrow> x \<in> set xs \<Longrightarrow> x \<le> m"
  using foldl_max_ge by (auto simp: max_of_def split: list.splits)

lemma max_of_None [simp]: "max_of xs = None \<longleftrightarrow> xs = []"
  by (auto simp: max_of_def split: list.splits)

end
