(* ===== verification/Errors.thy ===== *)
theory Errors
  imports Prelude
begin

text \<open>
  The exceptions of the program (src/src/mshkn/errors.py and Python's own), the statements the
  other components are written in, and the mapping of domain errors to HTTP responses
  (src/src/mshkn/api/errors.py).

  A statement of the source that may raise and may change state is an action: it takes the state
  and returns either the exception or the value, with the state it leaves behind. Every raise,
  early failure and \<open>finally\<close> of the source is therefore a value of the model. The weakest
  precondition \<open>wp\<close> of an action turns a claim about it into a claim about its parts, and \<open>keeps\<close>
  is the invariant form of the same thing.
\<close>

section \<open>Structured details and exceptions\<close>

text \<open>JSON values: request bodies, error details, stored documents. Objects keep their key order.\<close>

datatype json =
    JNull
  | JBool bool
  | JInt int
  | JStr string
  | JArr "json list"
  | JObj "(string \<times> json) list"

datatype err_class =
    NotFound
  | Forbidden
  | Conflict
  | BadRequest
  | InvalidInput
  | PayloadTooLarge
  | LimitExceeded
  | TransformError
  | HostError
  | ShellError
  | ConfigError

text \<open>
  \<open>MshknError\<close> carries the class, the message and the optional detail of a domain error;
  \<open>PyError\<close> is any other \<^verbatim>\<open>Exception\<close> (its type name and its text); \<open>Interrupt\<close> is a
  \<^verbatim>\<open>BaseException\<close> that is not an \<^verbatim>\<open>Exception\<close>: a cancellation, above all.
\<close>

datatype exc =
    MshknError err_class string "json option"
  | PyError string string
  | Interrupt string

definition cancelled_error :: exc where
  "cancelled_error = Interrupt ''CancelledError''"

fun class_name :: "err_class \<Rightarrow> string" where
  "class_name NotFound = ''NotFound''"
| "class_name Forbidden = ''Forbidden''"
| "class_name Conflict = ''Conflict''"
| "class_name BadRequest = ''BadRequest''"
| "class_name InvalidInput = ''InvalidInput''"
| "class_name PayloadTooLarge = ''PayloadTooLarge''"
| "class_name LimitExceeded = ''LimitExceeded''"
| "class_name TransformError = ''TransformError''"
| "class_name HostError = ''HostError''"
| "class_name ShellError = ''ShellError''"
| "class_name ConfigError = ''ConfigError''"

text \<open>\<open>type(exc).__name__\<close> and \<open>str(exc)\<close>.\<close>

fun exc_name :: "exc \<Rightarrow> string" where
  "exc_name (MshknError c _ _) = class_name c"
| "exc_name (PyError n _) = n"
| "exc_name (Interrupt n) = n"

fun exc_str :: "exc \<Rightarrow> string" where
  "exc_str (MshknError _ m _) = m"
| "exc_str (PyError _ m) = m"
| "exc_str (Interrupt _) = []"

definition describe_exc :: "exc \<Rightarrow> string" where
  "describe_exc e = exc_name e @ '': '' @ exc_str e"

text \<open>The \<open>isinstance\<close> tests of the source; ShellError is a subclass of HostError.\<close>

fun is_exception :: "exc \<Rightarrow> bool" where
  "is_exception (Interrupt _) = False"
| "is_exception _ = True"

fun is_mshkn_error :: "exc \<Rightarrow> bool" where
  "is_mshkn_error (MshknError _ _ _) = True"
| "is_mshkn_error _ = False"

fun is_host_class :: "err_class \<Rightarrow> bool" where
  "is_host_class HostError = True"
| "is_host_class ShellError = True"
| "is_host_class _ = False"

fun is_host_error :: "exc \<Rightarrow> bool" where
  "is_host_error (MshknError c _ _) = is_host_class c"
| "is_host_error _ = False"

fun is_class :: "err_class \<Rightarrow> exc \<Rightarrow> bool" where
  "is_class c (MshknError d _ _) = (c = d \<or> (c = HostError \<and> d = ShellError))"
| "is_class c _ = False"

section \<open>Domain errors as HTTP responses\<close>

record http_response =
  hr_status :: int
  hr_detail :: json

definition status_by_type :: "(err_class \<times> int) list" where
  "status_by_type =
     [(NotFound, 404), (Forbidden, 403), (Conflict, 409), (BadRequest, 400), (InvalidInput, 422),
      (PayloadTooLarge, 413), (LimitExceeded, 429), (TransformError, 502), (HostError, 502)]"

fun lookup_status :: "(err_class \<times> int) list \<Rightarrow> exc \<Rightarrow> int" where
  "lookup_status [] e = 500"
| "lookup_status ((c, s) # rest) e = (if is_class c e then s else lookup_status rest e)"

definition status_for :: "exc \<Rightarrow> int" where
  "status_for e = lookup_status status_by_type e"

fun exc_detail :: "exc \<Rightarrow> json option" where
  "exc_detail (MshknError _ _ d) = d"
| "exc_detail _ = None"

definition handle_domain_error :: "exc \<Rightarrow> http_response" where
  "handle_domain_error e =
     (let status = status_for e
      in if is_host_error e
         then \<lparr>hr_status = status, hr_detail = JStr ''host operation failed''\<rparr>
         else if status = 500
         then \<lparr>hr_status = 500, hr_detail = JStr ''internal error''\<rparr>
         else \<lparr>hr_status = status,
               hr_detail = (case exc_detail e of Some d \<Rightarrow> d | None \<Rightarrow> JStr (exc_str e))\<rparr>)"

text \<open>Whatever a host operation put into its error, the response to the client is the same.\<close>

lemma host_error_opaque:
  "is_host_class c \<Longrightarrow>
   handle_domain_error (MshknError c m d) =
     \<lparr>hr_status = 502, hr_detail = JStr ''host operation failed''\<rparr>"
  by (cases c) (simp_all add: handle_domain_error_def status_for_def status_by_type_def)

lemma status_for_cases:
  "status_for (MshknError c m d) =
     (case c of NotFound \<Rightarrow> 404 | Forbidden \<Rightarrow> 403 | Conflict \<Rightarrow> 409 | BadRequest \<Rightarrow> 400
      | InvalidInput \<Rightarrow> 422 | PayloadTooLarge \<Rightarrow> 413 | LimitExceeded \<Rightarrow> 429
      | TransformError \<Rightarrow> 502 | HostError \<Rightarrow> 502 | ShellError \<Rightarrow> 502 | ConfigError \<Rightarrow> 500)"
  by (cases c) (simp_all add: status_for_def status_by_type_def)

section \<open>Actions\<close>

type_synonym ('w, 'a) act = "'w \<Rightarrow> (exc + 'a) \<times> 'w"

definition ret :: "'a \<Rightarrow> ('w, 'a) act" where
  "ret a = (\<lambda>w. (Inr a, w))"

definition raise :: "exc \<Rightarrow> ('w, 'a) act" where
  "raise e = (\<lambda>w. (Inl e, w))"

definition bindE :: "('w, 'a) act \<Rightarrow> ('a \<Rightarrow> ('w, 'b) act) \<Rightarrow> ('w, 'b) act" where
  "bindE m f = (\<lambda>w. case m w of (Inl e, w') \<Rightarrow> (Inl e, w') | (Inr a, w') \<Rightarrow> f a w')"

definition seqE :: "('w, 'a) act \<Rightarrow> ('w, 'b) act \<Rightarrow> ('w, 'b) act" where
  "seqE m n = bindE m (\<lambda>_. n)"

definition reads :: "('w \<Rightarrow> 'a) \<Rightarrow> ('w, 'a) act" where
  "reads g = (\<lambda>w. (Inr (g w), w))"

definition writes :: "('w \<Rightarrow> 'w) \<Rightarrow> ('w, unit) act" where
  "writes u = (\<lambda>w. (Inr (), u w))"

text \<open>The outcome of an action as a value: \<open>try\<close> with every \<open>except\<close> still to come.\<close>

definition tryE :: "('w, 'a) act \<Rightarrow> ('w, exc + 'a) act" where
  "tryE m = (\<lambda>w. case m w of (r, w') \<Rightarrow> (Inr r, w'))"

definition from_result :: "exc + 'a \<Rightarrow> ('w, 'a) act" where
  "from_result r = (case r of Inl e \<Rightarrow> raise e | Inr a \<Rightarrow> ret a)"

definition catchE :: "('w, 'a) act \<Rightarrow> (exc \<Rightarrow> ('w, 'a) act) \<Rightarrow> ('w, 'a) act" where
  "catchE m h = bindE (tryE m) (\<lambda>r. case r of Inl e \<Rightarrow> h e | Inr a \<Rightarrow> ret a)"

text \<open>\<open>try: m finally: f\<close>; an exception of \<open>f\<close> replaces the outcome of \<open>m\<close>.\<close>

definition finallyE :: "('w, 'a) act \<Rightarrow> ('w, 'b) act \<Rightarrow> ('w, 'a) act" where
  "finallyE m f = bindE (tryE m) (\<lambda>r. seqE f (from_result r))"

definition whenE :: "bool \<Rightarrow> ('w, unit) act \<Rightarrow> ('w, unit) act" where
  "whenE b m = (if b then m else ret ())"

fun for_each :: "'x list \<Rightarrow> ('x \<Rightarrow> ('w, unit) act) \<Rightarrow> ('w, unit) act" where
  "for_each [] f = ret ()"
| "for_each (x # xs) f = seqE (f x) (for_each xs f)"

fun map_each :: "'x list \<Rightarrow> ('x \<Rightarrow> ('w, 'y) act) \<Rightarrow> ('w, 'y list) act" where
  "map_each [] f = ret []"
| "map_each (x # xs) f = bindE (f x) (\<lambda>y. bindE (map_each xs f) (\<lambda>ys. ret (y # ys)))"

definition run_state :: "('w, 'a) act \<Rightarrow> 'w \<Rightarrow> 'w" where
  "run_state m w = snd (m w)"

definition outcome :: "('w, 'a) act \<Rightarrow> 'w \<Rightarrow> exc + 'a" where
  "outcome m w = fst (m w)"

definition raise_domain :: "err_class \<Rightarrow> string \<Rightarrow> ('w, 'a) act" where
  "raise_domain c m = raise (MshknError c m None)"

section \<open>Weakest preconditions\<close>

definition wp :: "('w, 'a) act \<Rightarrow> ('a \<Rightarrow> 'w \<Rightarrow> bool) \<Rightarrow> (exc \<Rightarrow> 'w \<Rightarrow> bool) \<Rightarrow> 'w \<Rightarrow> bool" where
  "wp m Q R w = (case m w of (Inl e, w') \<Rightarrow> R e w' | (Inr a, w') \<Rightarrow> Q a w')"

lemma wp_ret [wp_simps]: "wp (ret a) Q R = Q a"
  by (simp add: wp_def ret_def fun_eq_iff)

lemma wp_raise [wp_simps]: "wp (raise e) Q R = R e"
  by (simp add: wp_def raise_def fun_eq_iff)

lemma wp_raise_domain [wp_simps]: "wp (raise_domain c m) Q R = R (MshknError c m None)"
  by (simp add: raise_domain_def wp_raise)

lemma wp_bindE [wp_simps]: "wp (bindE m f) Q R = wp m (\<lambda>a. wp (f a) Q R) R"
  by (auto simp: wp_def bindE_def fun_eq_iff split: prod.splits sum.splits)

lemma wp_seqE [wp_simps]: "wp (seqE m n) Q R = wp m (\<lambda>_. wp n Q R) R"
  by (simp add: seqE_def wp_bindE)

lemma wp_reads [wp_simps]: "wp (reads g) Q R = (\<lambda>w. Q (g w) w)"
  by (simp add: wp_def reads_def fun_eq_iff)

lemma wp_writes [wp_simps]: "wp (writes u) Q R = (\<lambda>w. Q () (u w))"
  by (simp add: wp_def writes_def fun_eq_iff)

lemma wp_tryE [wp_simps]:
  "wp (tryE m) Q R = wp m (\<lambda>a. Q (Inr a)) (\<lambda>e. Q (Inl e))"
  by (auto simp: wp_def tryE_def fun_eq_iff split: prod.splits sum.splits)

lemma wp_from_result [wp_simps]:
  "wp (from_result r) Q R = (case r of Inl e \<Rightarrow> R e | Inr a \<Rightarrow> Q a)"
  by (cases r) (simp_all add: from_result_def wp_ret wp_raise)

lemma wp_catchE [wp_simps]: "wp (catchE m h) Q R = wp m Q (\<lambda>e. wp (h e) Q R)"
  by (simp add: catchE_def wp_bindE wp_tryE wp_ret)

lemma wp_finallyE [wp_simps]:
  "wp (finallyE m f) Q R = wp m (\<lambda>a. wp f (\<lambda>_. Q a) R) (\<lambda>e. wp f (\<lambda>_. R e) R)"
  by (simp add: finallyE_def wp_bindE wp_tryE wp_seqE wp_from_result)

lemma wp_whenE [wp_simps]: "wp (whenE b m) Q R = (if b then wp m Q R else Q ())"
  by (simp add: whenE_def wp_ret)

lemma wp_if [wp_simps]: "wp (if b then m else n) Q R = (if b then wp m Q R else wp n Q R)"
  by simp

lemma wp_mono:
  "wp m Q R w \<Longrightarrow> (\<And>a w'. Q a w' \<Longrightarrow> Q' a w') \<Longrightarrow> (\<And>e w'. R e w' \<Longrightarrow> R' e w') \<Longrightarrow> wp m Q' R' w"
  by (auto simp: wp_def split: prod.splits sum.splits)

lemma wp_conj: "wp m Q R w \<Longrightarrow> wp m Q' R' w \<Longrightarrow> wp m (\<lambda>a w'. Q a w' \<and> Q' a w') (\<lambda>e w'. R e w' \<and> R' e w') w"
  by (auto simp: wp_def split: prod.splits sum.splits)

lemma wp_outcome:
  "wp m Q R w \<longleftrightarrow>
   (case outcome m w of Inl e \<Rightarrow> R e (run_state m w) | Inr a \<Rightarrow> Q a (run_state m w))"
  by (auto simp: wp_def outcome_def run_state_def split: prod.splits sum.splits)

lemma wp_top: "wp m (\<lambda>_ _. True) (\<lambda>_ _. True) w"
  by (auto simp: wp_def split: prod.splits sum.splits)

section \<open>State predicates an action keeps\<close>

definition keeps :: "('w \<Rightarrow> bool) \<Rightarrow> ('w, 'a) act \<Rightarrow> bool" where
  "keeps I m \<longleftrightarrow> (\<forall>w. I w \<longrightarrow> I (snd (m w)))"

lemma keepsD: "keeps I m \<Longrightarrow> I w \<Longrightarrow> I (run_state m w)"
  by (simp add: keeps_def run_state_def)

lemma keeps_wp: "keeps I m \<Longrightarrow> I w \<Longrightarrow> wp m (\<lambda>_. I) (\<lambda>_. I) w"
  by (auto simp: keeps_def wp_def split: prod.splits sum.splits dest!: spec [of _ w])

lemma keepsI_wp: "(\<And>w. I w \<Longrightarrow> wp m (\<lambda>_. I) (\<lambda>_. I) w) \<Longrightarrow> keeps I m"
  unfolding keeps_def
proof (intro allI impI)
  fix w
  assume h: "\<And>w. I w \<Longrightarrow> wp m (\<lambda>_. I) (\<lambda>_. I) w" and "I w"
  then have "wp m (\<lambda>_. I) (\<lambda>_. I) w" by blast
  then show "I (snd (m w))" by (cases "m w") (auto simp: wp_def split: sum.splits)
qed

lemma keeps_ret [keeps_intros]: "keeps I (ret a)"
  by (simp add: keeps_def ret_def)

lemma keeps_raise [keeps_intros]: "keeps I (raise e)"
  by (simp add: keeps_def raise_def)

lemma keeps_raise_domain [keeps_intros]: "keeps I (raise_domain c m)"
  by (simp add: raise_domain_def keeps_raise)

lemma keeps_bindE [keeps_intros]: "keeps I m \<Longrightarrow> (\<And>a. keeps I (f a)) \<Longrightarrow> keeps I (bindE m f)"
  by (fastforce simp: keeps_def bindE_def split: prod.splits sum.splits)

lemma keeps_seqE [keeps_intros]: "keeps I m \<Longrightarrow> keeps I n \<Longrightarrow> keeps I (seqE m n)"
  by (simp add: seqE_def keeps_bindE)

lemma keeps_reads [keeps_intros]: "keeps I (reads g)"
  by (simp add: keeps_def reads_def)

lemma keeps_writes: "(\<And>w. I w \<Longrightarrow> I (u w)) \<Longrightarrow> keeps I (writes u)"
  by (simp add: keeps_def writes_def)

lemma keeps_tryE [keeps_intros]: "keeps I m \<Longrightarrow> keeps I (tryE m)"
  by (auto simp: keeps_def tryE_def split: prod.splits)

lemma keeps_from_result [keeps_intros]: "keeps I (from_result r)"
  by (cases r) (simp_all add: from_result_def keeps_ret keeps_raise)

lemma keeps_catchE [keeps_intros]: "keeps I m \<Longrightarrow> (\<And>e. keeps I (h e)) \<Longrightarrow> keeps I (catchE m h)"
  unfolding catchE_def
  by (intro keeps_bindE keeps_tryE) (auto split: sum.splits intro: keeps_ret)

lemma keeps_finallyE [keeps_intros]: "keeps I m \<Longrightarrow> keeps I f \<Longrightarrow> keeps I (finallyE m f)"
  unfolding finallyE_def by (intro keeps_bindE keeps_tryE keeps_seqE keeps_from_result)

lemma keeps_whenE [keeps_intros]: "keeps I m \<Longrightarrow> keeps I (whenE b m)"
  by (simp add: whenE_def keeps_ret)

lemma keeps_if [keeps_intros]: "keeps I m \<Longrightarrow> keeps I n \<Longrightarrow> keeps I (if b then m else n)"
  by simp

lemma keeps_for_each [keeps_intros]: "(\<And>x. keeps I (f x)) \<Longrightarrow> keeps I (for_each xs f)"
  by (induction xs) (simp_all add: keeps_ret keeps_seqE)

lemma keeps_map_each [keeps_intros]: "(\<And>x. keeps I (f x)) \<Longrightarrow> keeps I (map_each xs f)"
  by (induction xs) (simp_all add: keeps_ret keeps_bindE)

lemma keeps_option [keeps_intros]:
  "keeps I m \<Longrightarrow> (\<And>x. keeps I (f x)) \<Longrightarrow> keeps I (case v of None \<Rightarrow> m | Some x \<Rightarrow> f x)"
  by (cases v) simp_all

lemma keeps_sum [keeps_intros]:
  "(\<And>x. keeps I (f x)) \<Longrightarrow> (\<And>y. keeps I (g y)) \<Longrightarrow> keeps I (case v of Inl x \<Rightarrow> f x | Inr y \<Rightarrow> g y)"
  by (cases v) simp_all

lemma keeps_prod [keeps_intros]: "(\<And>x y. keeps I (f x y)) \<Longrightarrow> keeps I (case v of (x, y) \<Rightarrow> f x y)"
  by (cases v) simp

lemma keeps_conj: "keeps I m \<Longrightarrow> keeps J m \<Longrightarrow> keeps (\<lambda>w. I w \<and> J w) m"
  by (simp add: keeps_def)

lemma for_each_wp:
  assumes step: "\<And>x w. x \<in> set xs \<Longrightarrow> I w \<Longrightarrow> wp (f x) (\<lambda>_. I) R w" and start: "I w"
  shows "wp (for_each xs f) (\<lambda>_. I) R w"
  using assms
proof (induction xs arbitrary: w)
  case Nil
  then show ?case by (simp add: wp_ret)
next
  case (Cons x xs)
  have "wp (f x) (\<lambda>_. I) R w" using Cons.prems by simp
  then show ?case
    unfolding for_each.simps wp_seqE
    by (rule wp_mono) (use Cons in auto)
qed

text \<open>A step that keeps an invariant, under which the rest and every early exit are proved.\<close>

lemma wp_bind_keeps:
  assumes "keeps I m" and "I w" and "\<And>a w. I w \<Longrightarrow> wp (f a) Q R w" and "\<And>e w. I w \<Longrightarrow> R e w"
  shows "wp (bindE m f) Q R w"
  unfolding wp_bindE by (rule wp_mono [OF keeps_wp [OF assms(1,2)]]) (use assms(3,4) in auto)

lemma wp_seq_keeps:
  assumes "keeps I m" and "I w" and "\<And>w. I w \<Longrightarrow> wp n Q R w" and "\<And>e w. I w \<Longrightarrow> R e w"
  shows "wp (seqE m n) Q R w"
  unfolding seqE_def by (rule wp_bind_keeps [OF assms(1,2)]) (use assms(3,4) in auto)

section \<open>Local variables, suppression and gather\<close>

text \<open>A block with assignable local variables \<^typ>\<open>'l\<close>: what it assigned before an exception is
  still assigned in its handlers.\<close>

definition lifted :: "('w, 'a) act \<Rightarrow> ('w \<times> 'l, 'a) act" where
  "lifted m = (\<lambda>(w, l). case m w of (r, w') \<Rightarrow> (r, (w', l)))"

definition assign :: "('l \<Rightarrow> 'l) \<Rightarrow> ('w \<times> 'l, unit) act" where
  "assign f = writes (\<lambda>(w, l). (w, f l))"

definition local :: "('w \<times> 'l, 'l) act" where
  "local = reads snd"

definition with_locals :: "'l \<Rightarrow> ('w \<times> 'l, 'a) act \<Rightarrow> ('w, 'a) act" where
  "with_locals l m = (\<lambda>w. case m (w, l) of (r, (w', l')) \<Rightarrow> (r, w'))"

text \<open>\<open>except Exception: pass\<close>, and an exception handler for \<open>Exception\<close> only.\<close>

definition catch_exception :: "('w, 'a) act \<Rightarrow> (exc \<Rightarrow> ('w, 'a) act) \<Rightarrow> ('w, 'a) act" where
  "catch_exception m h = catchE m (\<lambda>e. if is_exception e then h e else raise e)"

definition suppress :: "('w, unit) act \<Rightarrow> ('w, unit) act" where
  "suppress m = catch_exception m (\<lambda>_. ret ())"

text \<open>\<open>asyncio.gather(m, n)\<close> with both run to their end; the first exception is raised.\<close>

definition gather2 :: "('w, unit) act \<Rightarrow> ('w, unit) act \<Rightarrow> ('w, unit) act" where
  "gather2 m n = bindE (tryE m) (\<lambda>r. bindE (tryE n) (\<lambda>r'.
     seqE (from_result r) (from_result r')))"

lemma wp_lifted [wp_simps]:
  "wp (lifted m) Q R = (\<lambda>(w, l). wp m (\<lambda>a w'. Q a (w', l)) (\<lambda>e w'. R e (w', l)) w)"
  by (auto simp: wp_def lifted_def fun_eq_iff split: prod.splits sum.splits)

lemma wp_assign [wp_simps]: "wp (assign f) Q R = (\<lambda>(w, l). Q () (w, f l))"
  by (auto simp: assign_def wp_writes fun_eq_iff)

lemma wp_local [wp_simps]: "wp local Q R = (\<lambda>(w, l). Q l (w, l))"
  by (auto simp: local_def wp_reads fun_eq_iff)

lemma wp_with_locals [wp_simps]:
  "wp (with_locals l m) Q R = (\<lambda>w. wp m (\<lambda>a (w', l'). Q a w') (\<lambda>e (w', l'). R e w') (w, l))"
  by (auto simp: wp_def with_locals_def fun_eq_iff split: prod.splits sum.splits)

lemma wp_catch_exception [wp_simps]:
  "wp (catch_exception m h) Q R = wp m Q (\<lambda>e. if is_exception e then wp (h e) Q R else R e)"
  by (simp add: catch_exception_def wp_catchE wp_raise wp_if cong: if_cong)

lemma wp_suppress [wp_simps]:
  "wp (suppress m) Q R = wp m Q (\<lambda>e. if is_exception e then Q () else R e)"
  by (simp add: suppress_def wp_catch_exception wp_ret cong: if_cong)

lemma wp_gather2 [wp_simps]:
  "wp (gather2 m n) Q R =
     wp m (\<lambda>_. wp n (\<lambda>_. Q ()) R) (\<lambda>e. wp n (\<lambda>_. R e) (\<lambda>_. R e))"
  by (simp add: gather2_def wp_bindE wp_tryE wp_seqE wp_from_result)

lemma keeps_lifted [keeps_intros]: "keeps I m \<Longrightarrow> keeps (\<lambda>(w, l). I w) (lifted m)"
  by (auto simp: keeps_def lifted_def split: prod.splits)

lemma keeps_assign [keeps_intros]: "keeps (\<lambda>(w, l). I w) (assign f)"
  by (auto simp: keeps_def assign_def writes_def)

lemma keeps_local [keeps_intros]: "keeps I local"
  by (simp add: local_def keeps_reads)

lemma keeps_with_locals [keeps_intros]:
  assumes "keeps (\<lambda>(w, l). I w) m"
  shows "keeps I (with_locals l m)"
  unfolding keeps_def
proof (intro allI impI)
  fix w assume i: "I w"
  obtain r p where "m (w, l) = (r, p)" by (cases "m (w, l)")
  moreover obtain w' l' where "p = (w', l')" by (cases p)
  ultimately have m: "m (w, l) = (r, (w', l'))" by simp
  have "(case (w, l) of (w, l) \<Rightarrow> I w) \<longrightarrow> (case snd (m (w, l)) of (w, l) \<Rightarrow> I w)"
    using assms unfolding keeps_def by (rule spec)
  with i m show "I (snd (with_locals l m w))" by (simp add: with_locals_def)
qed

lemma keeps_catch_exception [keeps_intros]:
  "keeps I m \<Longrightarrow> (\<And>e. keeps I (h e)) \<Longrightarrow> keeps I (catch_exception m h)"
  unfolding catch_exception_def by (intro keeps_catchE keeps_if keeps_raise)

lemma keeps_suppress [keeps_intros]: "keeps I m \<Longrightarrow> keeps I (suppress m)"
  unfolding suppress_def by (intro keeps_catch_exception keeps_ret)

lemma keeps_gather2 [keeps_intros]: "keeps I m \<Longrightarrow> keeps I n \<Longrightarrow> keeps I (gather2 m n)"
  unfolding gather2_def by (intro keeps_bindE keeps_tryE keeps_seqE keeps_from_result)

section \<open>Values an action returns\<close>

definition returns :: "('a \<Rightarrow> bool) \<Rightarrow> ('w, 'a) act \<Rightarrow> bool" where
  "returns P m \<longleftrightarrow> (\<forall>w a w'. m w = (Inr a, w') \<longrightarrow> P a)"

lemma returns_bind: "(\<And>a. returns P (f a)) \<Longrightarrow> returns P (bindE m f)"
  unfolding returns_def by (fastforce simp: bindE_def split: prod.splits sum.splits)

lemma returns_seq: "returns P n \<Longrightarrow> returns P (seqE m n)"
  unfolding seqE_def by (rule returns_bind)

lemma returns_ret: "P a \<Longrightarrow> returns P (ret a)"
  by (simp add: returns_def ret_def)

lemma returns_raise: "returns P (raise e)"
  by (simp add: returns_def raise_def)

lemma returns_catch: "returns P m \<Longrightarrow> (\<And>e. returns P (h e)) \<Longrightarrow> returns P (catchE m h)"
  unfolding returns_def catchE_def bindE_def tryE_def ret_def by (auto split: prod.splits sum.splits)

lemma returns_locals: "returns P m \<Longrightarrow> returns P (with_locals l m)"
  unfolding returns_def with_locals_def by (auto split: prod.splits) blast

lemma returns_wp: "returns P m \<Longrightarrow> wp m Q R w \<Longrightarrow> wp m (\<lambda>a w. P a \<and> Q a w) R w"
  by (auto simp: returns_def wp_def split: prod.splits sum.splits)

lemma returns_outcome: "returns P m \<Longrightarrow> outcome m w = Inr a \<Longrightarrow> P a"
  unfolding returns_def outcome_def by (metis prod.collapse)

lemma returns_bind_of: "returns P m \<Longrightarrow> (\<And>a. P a \<Longrightarrow> returns Q (f a)) \<Longrightarrow> returns Q (bindE m f)"
  unfolding returns_def bindE_def by (fastforce split: prod.splits sum.splits)

section \<open>Properties\<close>

text \<open>The HTTP response to a domain error is fixed by its class, and what a host operation or an
  unmapped error put into its message or detail never reaches the client.\<close>

lemma domain_error_responses:
  "hr_status (handle_domain_error (MshknError c m d)) =
     (case c of NotFound \<Rightarrow> 404 | Forbidden \<Rightarrow> 403 | Conflict \<Rightarrow> 409 | BadRequest \<Rightarrow> 400
      | InvalidInput \<Rightarrow> 422 | PayloadTooLarge \<Rightarrow> 413 | LimitExceeded \<Rightarrow> 429
      | TransformError \<Rightarrow> 502 | HostError \<Rightarrow> 502 | ShellError \<Rightarrow> 502 | ConfigError \<Rightarrow> 500) \<and>
   (c \<in> {HostError, ShellError, ConfigError} \<longrightarrow>
      handle_domain_error (MshknError c m d) = handle_domain_error (MshknError c m' d'))"
  by (cases c) (simp_all add: handle_domain_error_def Let_def status_for_cases)

lemma domain_error_responses_witness:
  "handle_domain_error (MshknError HostError ''ip link del tap3'' None) =
   handle_domain_error (MshknError HostError [] (Some (JInt 1)))"
  using domain_error_responses [of HostError "''ip link del tap3''" None "[]" "Some (JInt 1)"] by simp

end
