(* ===== verification/Net.thy ===== *)
theory Net
  imports Errors "HOL-Library.Word"
begin

text \<open>
  What the source uses of Python's \<^verbatim>\<open>ipaddress\<close> and \<^verbatim>\<open>urllib.parse.urlsplit\<close>: the text of
  an address read into 32 or 128 bits, the membership of an address in a network, and a URL
  split into scheme, host, port and path. Both follow the standard library's own algorithms, the
  ValueErrors included (None). Text is ASCII: the NFKC check of the network location, which only
  non-ASCII characters can fail, is left out.
\<close>

section \<open>Addresses\<close>

datatype address = V4 "32 word" | V6 "128 word"

definition hex_value :: "char \<Rightarrow> nat option" where
  "hex_value c =
     (let n = (of_char c :: nat)
      in if 48 \<le> n \<and> n \<le> 57 then Some (n - 48)
         else if 97 \<le> n \<and> n \<le> 102 then Some (n - 87)
         else if 65 \<le> n \<and> n \<le> 70 then Some (n - 55) else None)"

definition parse_octet :: "string \<Rightarrow> nat option" where
  "parse_octet s =
     (if s = [] \<or> \<not> list_all is_digit s \<or> length s > 3 then None
      else if s \<noteq> ''0'' \<and> hd s = CHR ''0'' then None
      else if digits_value s > 255 then None else Some (digits_value s))"

definition parse_ipv4 :: "string \<Rightarrow> nat option" where
  "parse_ipv4 s =
     (case map parse_octet (split_on CHR ''.'' s) of
        [Some a, Some b, Some c, Some d] \<Rightarrow> Some (((a * 256 + b) * 256 + c) * 256 + d)
      | _ \<Rightarrow> None)"

fun hextet_value :: "nat \<Rightarrow> string \<Rightarrow> nat option" where
  "hextet_value a [] = Some a"
| "hextet_value a (c # cs) =
     (case hex_value c of None \<Rightarrow> None | Some d \<Rightarrow> hextet_value (16 * a + d) cs)"

definition parse_hextet :: "string \<Rightarrow> nat option" where
  "parse_hextet s = (if s = [] \<or> length s > 4 then None else hextet_value 0 s)"

text \<open>The hextets folded into the high end of an integer; None when one of them is no hextet.\<close>

fun shift_in :: "nat \<Rightarrow> string list \<Rightarrow> nat option" where
  "shift_in a [] = Some a"
| "shift_in a (p # ps) =
     (case parse_hextet p of None \<Rightarrow> None | Some h \<Rightarrow> shift_in (a * 65536 + h) ps)"

definition inner_empties :: "string list \<Rightarrow> nat list" where
  "inner_empties parts = filter (\<lambda>i. parts ! i = []) [1..<length parts - 1]"

definition hextet_text :: "nat \<Rightarrow> string" where
  "hextet_text n =
     dropWhile (\<lambda>c. c = CHR ''0'')
       [hex_digit (n div 4096 mod 16), hex_digit (n div 256 mod 16), hex_digit (n div 16 mod 16)]
     @ [hex_digit (n mod 16)]"

text \<open>The last part as a dotted quad becomes two hextets.\<close>

definition expand_ipv4_suffix :: "string list \<Rightarrow> string list option" where
  "expand_ipv4_suffix parts =
     (if CHR ''.'' \<in> set (last parts)
      then (case parse_ipv4 (last parts) of
              None \<Rightarrow> None
            | Some n \<Rightarrow> Some (butlast parts @ [hextet_text (n div 65536), hextet_text (n mod 65536)]))
      else Some parts)"

definition assemble_ipv6 :: "string list \<Rightarrow> nat option" where
  "assemble_ipv6 parts =
     (if length parts > 9 then None
      else case inner_empties parts of
        [] \<Rightarrow> if length parts \<noteq> 8 \<or> hd parts = [] \<or> last parts = [] then None
              else shift_in 0 parts
      | [skip] \<Rightarrow>
          (let hi = (if hd parts = [] then skip - 1 else skip);
               lo0 = length parts - skip - 1;
               lo = (if last parts = [] then lo0 - 1 else lo0)
           in if (hd parts = [] \<and> hi \<noteq> 0) \<or> (last parts = [] \<and> lo \<noteq> 0) then None
              else if hi + lo \<ge> 8 then None
              else case shift_in 0 (take hi parts) of
                     None \<Rightarrow> None
                   | Some h \<Rightarrow> shift_in (h * 65536 ^ (8 - (hi + lo))) (drop (length parts - lo) parts))
      | _ \<Rightarrow> None)"

definition parse_ipv6 :: "string \<Rightarrow> nat option" where
  "parse_ipv6 s =
     (let (addr, has_scope, scope) = partition_at CHR ''%'' s
      in if has_scope \<and> (scope = [] \<or> CHR ''%'' \<in> set scope) then None
         else if addr = [] \<or> length addr > 45 then None
         else let parts = split_on CHR '':'' addr
              in if length parts < 3 then None
                 else case expand_ipv4_suffix parts of
                        None \<Rightarrow> None | Some ps \<Rightarrow> assemble_ipv6 ps)"

definition ip_address :: "string \<Rightarrow> address option" where
  "ip_address s =
     (case parse_ipv4 s of
        Some n \<Rightarrow> Some (V4 (of_nat n))
      | None \<Rightarrow> (case parse_ipv6 s of Some n \<Rightarrow> Some (V6 (of_nat n)) | None \<Rightarrow> None))"

definition ipv4_mapped :: "128 word \<Rightarrow> 32 word option" where
  "ipv4_mapped a = (if drop_bit 32 a = 0xFFFF then Some (ucast a) else None)"

section \<open>Networks\<close>

datatype network = Net4 "32 word" nat | Net6 "128 word" nat

fun address_in :: "address \<Rightarrow> network \<Rightarrow> bool" where
  "address_in (V4 a) (Net4 n p) = (drop_bit (32 - p) a = drop_bit (32 - p) n)"
| "address_in (V6 a) (Net6 n p) = (drop_bit (128 - p) a = drop_bit (128 - p) n)"
| "address_in _ _ = False"

text \<open>A network of prefix length \<open>p\<close> is the block of addresses that share the leading bits.\<close>

lemma address_in_v4:
  "address_in (V4 a) (Net4 n p) \<longleftrightarrow> unat a div 2 ^ (32 - p) = unat n div 2 ^ (32 - p)"
  unfolding address_in.simps word_unat_eq_iff unat_drop_bit_eq by (simp add: drop_bit_eq_div)

lemma address_in_v6:
  "address_in (V6 a) (Net6 n p) \<longleftrightarrow> unat a div 2 ^ (128 - p) = unat n div 2 ^ (128 - p)"
  unfolding address_in.simps word_unat_eq_iff unat_drop_bit_eq by (simp add: drop_bit_eq_div)

definition octet_text :: "nat \<Rightarrow> nat \<Rightarrow> string" where
  "octet_text n k = str_nat (n div 256 ^ k mod 256)"

definition v4_text :: "32 word \<Rightarrow> string" where
  "v4_text a = join ''.'' (map (octet_text (unat a)) [3, 2, 1, 0])"

definition hextets :: "128 word \<Rightarrow> nat list" where
  "hextets a = map (\<lambda>k. unat a div 65536 ^ k mod 65536) [7, 6, 5, 4, 3, 2, 1, 0]"

text \<open>The first longest run of at least two zero hextets is written \<open>::\<close>.\<close>

definition zero_run :: "nat list \<Rightarrow> nat \<Rightarrow> nat" where
  "zero_run hs i = length (takeWhile (\<lambda>h. h = 0) (drop i hs))"

definition best_run :: "nat list \<Rightarrow> nat" where
  "best_run hs = foldl (\<lambda>b i. if zero_run hs i > zero_run hs b then i else b) 0 [1..<length hs]"

definition v6_text :: "128 word \<Rightarrow> string" where
  "v6_text a =
     (let hs = hextets a; b = best_run hs; n = zero_run hs b;
          txt = (\<lambda>xs. join '':'' (map hextet_text xs))
      in if n > 1 then txt (take b hs) @ ''::'' @ txt (drop (b + n) hs) else txt hs)"

fun address_text :: "address \<Rightarrow> string" where
  "address_text (V4 a) = v4_text a"
| "address_text (V6 a) = v6_text a"

fun network_text :: "network \<Rightarrow> string" where
  "network_text (Net4 n p) = v4_text n @ ''/'' @ str_nat p"
| "network_text (Net6 n p) = v6_text n @ ''/'' @ str_nat p"

section \<open>URLs\<close>

record split_url =
  su_scheme :: string
  su_netloc :: string
  su_path :: string

definition is_c0_or_space :: "char \<Rightarrow> bool" where
  "is_c0_or_space c \<longleftrightarrow> (of_char c :: nat) \<le> 32"

definition is_ascii_alpha :: "char \<Rightarrow> bool" where
  "is_ascii_alpha c \<longleftrightarrow>
     (let n = (of_char c :: nat) in (65 \<le> n \<and> n \<le> 90) \<or> (97 \<le> n \<and> n \<le> 122))"

definition is_scheme_char :: "char \<Rightarrow> bool" where
  "is_scheme_char c \<longleftrightarrow> is_ascii_alpha c \<or> is_digit c \<or> c \<in> {CHR ''+'', CHR ''-'', CHR ''.''}"

definition clean_url :: "string \<Rightarrow> string" where
  "clean_url url =
     filter (\<lambda>c. c \<notin> {CHR 0x09, CHR 0x0A, CHR 0x0D}) (dropWhile is_c0_or_space url)"

definition split_scheme :: "string \<Rightarrow> string \<times> string" where
  "split_scheme url =
     (let (h, found, rest) = partition_at CHR '':'' url
      in if found \<and> h \<noteq> [] \<and> is_ascii_alpha (hd url) \<and> list_all is_scheme_char h
         then (lower h, rest) else ([], url))"

definition split_netloc :: "string \<Rightarrow> string \<times> string" where
  "split_netloc rest =
     (if prefix ''//'' rest
      then (let body = drop 2 rest;
                stop = (\<lambda>c. c \<in> {CHR ''/'', CHR ''?'', CHR ''#''})
            in (takeWhile (\<lambda>c. \<not> stop c) body, dropWhile (\<lambda>c. \<not> stop c) body))
      else ([], rest))"

definition hostinfo_of :: "string \<Rightarrow> string" where
  "hostinfo_of netloc = snd (snd (rpartition_at CHR ''@'' netloc))"

definition bracketed_host_ok :: "string \<Rightarrow> bool" where
  "bracketed_host_ok h =
     (if prefix ''v'' h
      then (let (v, dot, tail) = partition_at CHR ''.'' (tl h)
            in dot \<and> v \<noteq> [] \<and> tail \<noteq> [] \<and> list_all (\<lambda>c. hex_value c \<noteq> None) v)
      else (case ip_address h of Some (V6 _) \<Rightarrow> True | _ \<Rightarrow> False))"

definition netloc_ok :: "string \<Rightarrow> bool" where
  "netloc_ok netloc =
     (let open_br = CHR ''['' \<in> set netloc; close_br = CHR '']'' \<in> set netloc
      in if open_br \<noteq> close_br then False
         else if \<not> open_br then True
         else let hp = hostinfo_of netloc;
                  (pre, have_open, bracketed) = partition_at CHR ''['' hp
              in if have_open
                 then (let (h, _, port) = partition_at CHR '']'' bracketed
                       in pre = [] \<and> (port = [] \<or> hd port = CHR '':'') \<and> bracketed_host_ok h)
                 else bracketed_host_ok (fst (partition_at CHR '':'' hp)))"

definition urlsplit :: "string \<Rightarrow> split_url option" where
  "urlsplit raw =
     (let (scheme, rest) = split_scheme (clean_url raw);
          (netloc, tail) = split_netloc rest
      in if \<not> netloc_ok netloc then None
         else let path = takeWhile (\<lambda>c. c \<noteq> CHR ''?'' \<and> c \<noteq> CHR ''#'') tail
              in Some \<lparr>su_scheme = scheme, su_netloc = netloc, su_path = path\<rparr>)"

definition hostinfo :: "split_url \<Rightarrow> string \<times> string option" where
  "hostinfo u =
     (let hp = hostinfo_of (su_netloc u);
          (pre, have_open, bracketed) = partition_at CHR ''['' hp;
          (h, port) = (if have_open
                       then (let (h, _, t) = partition_at CHR '']'' bracketed
                             in (h, snd (snd (let (a, f, b) = partition_at CHR '':'' t in (a, f, if f then b else [])))))
                       else (let (h, f, p) = partition_at CHR '':'' hp in (h, if f then p else [])))
      in (h, if port = [] then None else Some port))"

definition hostname_of :: "split_url \<Rightarrow> string option" where
  "hostname_of u =
     (let h = fst (hostinfo u)
      in if h = [] then None
         else let (name, percent, zone) = partition_at CHR ''%'' h
              in Some (lower name @ (if percent then ''%'' @ zone else [])))"

text \<open>\<open>parts.port\<close>: None is its ValueError, \<open>Some None\<close> is no port given.\<close>

definition port_of :: "split_url \<Rightarrow> int option option" where
  "port_of u =
     (case snd (hostinfo u) of
        None \<Rightarrow> Some None
      | Some p \<Rightarrow> if list_all is_digit p \<and> digits_value p \<le> 65535
                  then Some (Some (int (digits_value p))) else None)"

end
