(* ===== verification/Models.thy ===== *)
theory Models
  imports Net
begin

text \<open>
  The data of the program (src/src/mshkn/models.py): the status enums, the rows of every table as
  records, the scope document of a scoped key with its parser and its checks, and the retry
  policy of a relay job. A dataclass is a record whose fields carry the class's prefix (several
  classes share a field name); an Optional field is an \<^typ>\<open>'a option\<close>; a StrEnum is a datatype
  with its text.
\<close>

section \<open>Status enums\<close>

datatype computer_status = Creating | Running | Destroying | Destroyed

fun computer_status_text :: "computer_status \<Rightarrow> string" where
  "computer_status_text Creating = ''creating''"
| "computer_status_text Running = ''running''"
| "computer_status_text Destroying = ''destroying''"
| "computer_status_text Destroyed = ''destroyed''"

datatype recipe_status = RPending | RBuilding | RExporting | RInjecting | RReady | RFailed

fun recipe_status_text :: "recipe_status \<Rightarrow> string" where
  "recipe_status_text RPending = ''pending''"
| "recipe_status_text RBuilding = ''building''"
| "recipe_status_text RExporting = ''exporting''"
| "recipe_status_text RInjecting = ''injecting''"
| "recipe_status_text RReady = ''ready''"
| "recipe_status_text RFailed = ''failed''"

datatype checkpoint_trigger = TriggerApi | TriggerSelfDestruct | TriggerIdle

fun trigger_text :: "checkpoint_trigger \<Rightarrow> string" where
  "trigger_text TriggerApi = ''api''"
| "trigger_text TriggerSelfDestruct = ''self_destruct''"
| "trigger_text TriggerIdle = ''idle''"

datatype ingress_log_status = LogAccepted | LogCompleted | LogFailed

datatype relay_status = RelayQueued | RelayInProgress | RelayCompleted | RelayFailed

datatype delivery_status = DeliveryPending | DeliveryDelivered | DeliveryFailed

datatype exclusive_mode = ErrorOnConflict | DeferOnConflict

section \<open>Device names\<close>

definition computer_volume_name :: "string \<Rightarrow> string" where
  "computer_volume_name computer_id = ''mshkn-'' @ computer_id"

definition checkpoint_volume_name :: "string \<Rightarrow> string" where
  "checkpoint_volume_name checkpoint_id = ''mshkn-ckpt-'' @ checkpoint_id"

definition recipe_volume_name :: "string \<Rightarrow> string" where
  "recipe_volume_name recipe_id = ''mshkn-recipe-'' @ recipe_id"

section \<open>Accounts, scopes and principals\<close>

record account =
  a_id :: string
  a_api_key :: string
  a_vm_limit :: int
  a_created_at :: string

record relay_delivery =
  rd_label :: string
  rd_exec :: string

datatype create_from = AnyRecipe | FromRecipes "string list"

record scopes =
  sc_recipes_create :: bool
  sc_recipes_read :: bool
  sc_create_from :: create_from
  sc_labels :: "string list"
  sc_relay_targets :: "string list"
  sc_relay_deliver :: "relay_delivery option"

definition bare :: string where
  "bare = ''bare''"

text \<open>\<open>_target_parts\<close>: scheme, host and effective port, and the path.\<close>

definition relay_scheme_port :: "string \<Rightarrow> int option" where
  "relay_scheme_port scheme =
     (if scheme = ''http'' then Some 80 else if scheme = ''https'' then Some 443 else None)"

definition target_parts :: "string \<Rightarrow> ((string \<times> string \<times> int) \<times> string) option" where
  "target_parts url =
     (case urlsplit url of
        None \<Rightarrow> None
      | Some parts \<Rightarrow>
          (case port_of parts of
             None \<Rightarrow> None
           | Some port \<Rightarrow>
               (case (relay_scheme_port (su_scheme parts), hostname_of parts) of
                  (Some default_port, Some host) \<Rightarrow>
                    let effective = (case port of Some p \<Rightarrow> if p = 0 then default_port else p
                                     | None \<Rightarrow> default_port)
                    in Some ((su_scheme parts, host, effective), su_path parts)
                | _ \<Rightarrow> None)))"

definition may_create_from :: "scopes \<Rightarrow> string option \<Rightarrow> bool" where
  "may_create_from sc recipe_id =
     (case sc_create_from sc of
        AnyRecipe \<Rightarrow> recipe_id \<noteq> None
      | FromRecipes rs \<Rightarrow> (case recipe_id of None \<Rightarrow> bare | Some r \<Rightarrow> r) \<in> set rs)"

text \<open>An absent label and an empty one are never covered.\<close>

definition covers_label :: "scopes \<Rightarrow> string option \<Rightarrow> bool" where
  "covers_label sc label =
     (case label of
        None \<Rightarrow> False
      | Some l \<Rightarrow> l \<noteq> [] \<and> list_ex (\<lambda>p. prefix p l) (sc_labels sc))"

definition has_relay :: "scopes \<Rightarrow> bool" where
  "has_relay sc \<longleftrightarrow> sc_relay_targets sc \<noteq> [] \<and> sc_relay_deliver sc \<noteq> None"

definition may_relay_to :: "scopes \<Rightarrow> string \<Rightarrow> bool" where
  "may_relay_to sc target =
     (case target_parts target of
        None \<Rightarrow> False
      | Some (origin, path) \<Rightarrow>
          list_ex (\<lambda>p. case target_parts p of
                         None \<Rightarrow> False
                       | Some (o', path') \<Rightarrow> o' = origin \<and> prefix path' path)
            (sc_relay_targets sc))"

definition scopes_to_document :: "scopes \<Rightarrow> json" where
  "scopes_to_document sc =
     (let recipes = (if sc_recipes_create sc then [(''create'', JBool True)] else [])
                    @ (if sc_recipes_read sc then [(''read'', JBool True)] else [])
      in JObj
       ((if recipes \<noteq> [] then [(''recipes'', JObj recipes)] else [])
        @ (case sc_create_from sc of
             AnyRecipe \<Rightarrow> [(''computers'', JObj [(''create_from'', JStr ''*'')])]
           | FromRecipes rs \<Rightarrow>
               if rs \<noteq> [] then [(''computers'', JObj [(''create_from'', JArr (map JStr rs))])] else [])
        @ (if sc_labels sc \<noteq> [] then [(''labels'', JArr (map JStr (sc_labels sc)))] else [])
        @ (case sc_relay_deliver sc of
             None \<Rightarrow> []
           | Some d \<Rightarrow>
               if has_relay sc
               then [(''relay'', JObj [(''targets'', JArr (map JStr (sc_relay_targets sc))),
                                       (''deliver'', JObj [(''label'', JStr (rd_label d)),
                                                           (''exec'', JStr (rd_exec d))])])]
               else [])))"

section \<open>Parsing a scope document\<close>

definition reject :: "string \<Rightarrow> exc + 'a" where
  "reject message = Inl (MshknError InvalidInput (''Invalid scopes: '' @ message) None)"

definition unknown_keys :: "(string \<times> json) list \<Rightarrow> string list \<Rightarrow> string list" where
  "unknown_keys obj allowed = sort (filter (\<lambda>k. k \<notin> set allowed) (remdups (map fst obj)))"

definition section_of ::
  "(string \<times> json) list \<Rightarrow> string \<Rightarrow> string list \<Rightarrow> exc + (string \<times> json) list" where
  "section_of document name allowed =
     (case (case map_of document name of None \<Rightarrow> JObj [] | Some v \<Rightarrow> v) of
        JObj s \<Rightarrow>
          (let unknown = unknown_keys s allowed
           in if unknown \<noteq> [] then reject (''unknown '' @ name @ '' fields '' @ py_repr_list unknown)
              else Inr s)
      | _ \<Rightarrow> reject (name @ '' must be an object''))"

definition flag_of :: "(string \<times> json) list \<Rightarrow> string \<Rightarrow> string \<Rightarrow> exc + bool" where
  "flag_of s name wh =
     (case map_of s name of
        None \<Rightarrow> Inr False
      | Some (JBool b) \<Rightarrow> Inr b
      | Some _ \<Rightarrow> reject (wh @ ''.'' @ name @ '' must be a boolean''))"

fun json_strings :: "json list \<Rightarrow> string list option" where
  "json_strings [] = Some []"
| "json_strings (JStr s # vs) = map_option (Cons s) (json_strings vs)"
| "json_strings (_ # vs) = None"

definition strings_of :: "json option \<Rightarrow> string \<Rightarrow> exc + string list" where
  "strings_of value wh =
     (case value of
        Some (JArr vs) \<Rightarrow>
          (case json_strings vs of
             Some ss \<Rightarrow> Inr ss
           | None \<Rightarrow> reject (wh @ '' must be a list of strings''))
      | _ \<Rightarrow> reject (wh @ '' must be a list of strings''))"

definition bind_sum :: "'e + 'a \<Rightarrow> ('a \<Rightarrow> 'e + 'b) \<Rightarrow> 'e + 'b" where
  "bind_sum r f = (case r of Inl e \<Rightarrow> Inl e | Inr a \<Rightarrow> f a)"

lemma bind_sum_simps [simp]:
  "bind_sum (Inl e) f = Inl e" "bind_sum (Inr a) f = f a"
  by (simp_all add: bind_sum_def)

definition parse_deliver :: "json option \<Rightarrow> exc + relay_delivery" where
  "parse_deliver deliver =
     (case deliver of
        Some (JObj d) \<Rightarrow>
          if set (map fst d) = {''label'', ''exec''}
          then (case (map_of d ''label'', map_of d ''exec'') of
                  (Some (JStr l), Some (JStr c)) \<Rightarrow>
                    if l = [] \<or> c = []
                    then reject ''relay.deliver.label and relay.deliver.exec must be non-empty strings''
                    else Inr \<lparr>rd_label = l, rd_exec = c\<rparr>
                | _ \<Rightarrow> reject ''relay.deliver.label and relay.deliver.exec must be non-empty strings'')
          else reject ''relay.deliver must be an object with label and exec''
      | _ \<Rightarrow> reject ''relay.deliver must be an object with label and exec'')"

definition parse_relay ::
  "(string \<times> json) list \<Rightarrow> exc + (string list \<times> relay_delivery option)" where
  "parse_relay document =
     (if map_of document ''relay'' = None then Inr ([], None)
      else bind_sum (section_of document ''relay'' [''targets'', ''deliver'']) (\<lambda>relay.
           bind_sum (strings_of (map_of relay ''targets'') ''relay.targets'') (\<lambda>targets.
           if targets = [] \<or> [] \<in> set targets
           then reject ''relay.targets must be a non-empty list of non-empty prefixes''
           else if list_ex (\<lambda>t. target_parts t = None) targets
           then reject ''relay.targets must be absolute http or https URLs with a host''
           else bind_sum (parse_deliver (map_of relay ''deliver'')) (\<lambda>d. Inr (targets, Some d)))))"

definition parse_scopes :: "json \<Rightarrow> exc + scopes" where
  "parse_scopes document =
     (case document of
        JObj doc \<Rightarrow>
          (let unknown = unknown_keys doc [''recipes'', ''computers'', ''labels'', ''relay'']
           in if unknown \<noteq> [] then reject (''unknown fields '' @ py_repr_list unknown)
           else
             bind_sum (section_of doc ''recipes'' [''create'', ''read'']) (\<lambda>recipes.
             bind_sum (section_of doc ''computers'' [''create_from'']) (\<lambda>computers.
             let raw_from = (case map_of computers ''create_from'' of None \<Rightarrow> JArr [] | Some v \<Rightarrow> v) in
             bind_sum (if raw_from = JStr ''*'' then Inr AnyRecipe
                       else bind_sum (strings_of (Some raw_from) ''computers.create_from'')
                              (\<lambda>rs. Inr (FromRecipes rs))) (\<lambda>create_from.
             bind_sum (strings_of (Some (case map_of doc ''labels'' of None \<Rightarrow> JArr [] | Some v \<Rightarrow> v))
                         ''labels'') (\<lambda>labels.
             if [] \<in> set labels then reject ''labels must not contain an empty prefix''
             else bind_sum (parse_relay doc) (\<lambda>(relay_targets, relay_deliver).
             bind_sum (flag_of recipes ''create'' ''recipes'') (\<lambda>create.
             bind_sum (flag_of recipes ''read'' ''recipes'') (\<lambda>read.
             Inr \<lparr>sc_recipes_create = create, sc_recipes_read = read, sc_create_from = create_from,
                  sc_labels = labels, sc_relay_targets = relay_targets,
                  sc_relay_deliver = relay_deliver\<rparr>))))))))
      | _ \<Rightarrow> reject ''must be an object'')"

section \<open>Rows\<close>

record api_key =
  k_id :: string
  k_account_id :: string
  k_secret :: string
  k_scopes :: scopes
  k_label :: "string option"
  k_created_at :: string

record principal =
  p_account :: account
  p_key :: "api_key option"

definition principal_scopes :: "principal \<Rightarrow> scopes option" where
  "principal_scopes p = map_option k_scopes (p_key p)"

record recipe =
  r_id :: string
  r_account_id :: string
  r_dockerfile :: string
  r_content_hash :: string
  r_status :: recipe_status
  r_build_log :: "string option"
  r_base_volume_id :: "int option"
  r_template_vmstate :: "string option"
  r_template_memory :: "string option"
  r_created_at :: string
  r_built_at :: "string option"

record computer =
  c_id :: string
  c_account_id :: string
  c_thin_volume_id :: int
  c_tap_device :: string
  c_vm_ip :: string
  c_socket_path :: string
  c_firecracker_pid :: "int option"
  c_status :: computer_status
  c_created_at :: string
  c_last_exec_at :: "string option"
  c_source_checkpoint_id :: "string option"
  c_recipe_id :: "string option"
  c_api_key_id :: "string option"

text \<open>\<open>Computer.slot\<close>: the number after \<open>tap\<close>; \<open>int()\<close> raises ValueError on anything else.\<close>

definition computer_slot :: "computer \<Rightarrow> int option" where
  "computer_slot c = py_int (removeprefix ''tap'' (c_tap_device c))"

record checkpoint =
  ck_id :: string
  ck_account_id :: string
  ck_parent_id :: "string option"
  ck_computer_id :: "string option"
  ck_thin_volume_id :: "int option"
  ck_r2_prefix :: string
  ck_disk_delta_size_bytes :: "int option"
  ck_memory_size_bytes :: "int option"
  ck_label :: "string option"
  ck_pinned :: bool
  ck_created_at :: string
  ck_recipe_id :: "string option"

record deferred_request =
  d_id :: string
  d_label :: string
  d_account_id :: string
  d_request_payload :: json
  d_created_at :: string

record exec_spec =
  es_command :: "string option"
  es_self_destruct :: bool
  es_callback_url :: "string option"
  es_label :: "string option"
  es_meta_exec :: "string option"

record ephemeral_result =
  er_computer_id :: string
  er_exec_exit_code :: "int option"
  er_exec_exit_signal :: "string option"
  er_exec_stdout :: "string option"
  er_exec_stderr :: "string option"
  er_created_checkpoint_id :: "string option"

record exec_log =
  el_computer_id :: string
  el_account_id :: string
  el_source_checkpoint_id :: "string option"
  el_created_checkpoint_id :: "string option"
  el_label :: "string option"
  el_command :: string
  el_exit_code :: int
  el_exit_signal :: "string option"
  el_stdout :: string
  el_stderr :: string
  el_stdout_truncated :: bool
  el_stderr_truncated :: bool
  el_created_at :: string

record alert =
  al_level :: string
  al_source :: string
  al_message :: string
  al_value :: rat
  al_threshold :: rat
  al_timestamp :: string

record ingress_rule =
  ir_internal_id :: string
  ir_id :: string
  ir_account_id :: string
  ir_name :: string
  ir_starlark_source :: string
  ir_response_mode :: string
  ir_max_body_bytes :: int
  ir_rate_limit_rpm :: int
  ir_enabled :: bool
  ir_created_at :: string
  ir_updated_at :: string

record ingress_log =
  il_id :: string
  il_rule_internal_id :: string
  il_status :: ingress_log_status
  il_starlark_result :: "json option"
  il_error_message :: "string option"
  il_created_at :: string
  il_computer_id :: "string option"

record retry_policy =
  rp_attempts :: int
  rp_initial_delay_ms :: int
  rp_max_delay_ms :: int

text \<open>\<open>RetryPolicy.delay\<close> in milliseconds (the source divides by 1000 to get seconds).\<close>

definition retry_delay_ms :: "retry_policy \<Rightarrow> nat \<Rightarrow> int" where
  "retry_delay_ms p attempt = min (rp_initial_delay_ms p * 2 ^ attempt) (rp_max_delay_ms p)"

record relay_job =
  rj_id :: string
  rj_account_id :: string
  rj_api_key_id :: "string option"
  rj_status :: relay_status
  rj_target :: string
  rj_method :: string
  rj_forward_headers :: "(string \<times> string) list option"
  rj_body :: json
  rj_retry :: retry_policy
  rj_timeout_seconds :: int
  rj_deliver :: "relay_delivery option"
  rj_attempts :: int
  rj_error :: "string option"
  rj_response_status :: "int option"
  rj_response_headers :: "(string \<times> string) list option"
  rj_response_body :: json
  rj_delivery_status :: "delivery_status option"
  rj_delivery_attempts :: int
  rj_delivery_computer_id :: "string option"
  rj_delivery_deferred_id :: "string option"
  rj_delivery_error :: "string option"
  rj_created_at :: string
  rj_updated_at :: string

end
