(* ===== verification/Scopes.thy ===== *)
theory Scopes
  imports Models
begin

text \<open>
  What a scoped key may do (src/src/mshkn/api/scopes.py), over the scope document of
  src/src/mshkn/models.py: the route checks, which raise \<open>Forbidden\<close>, \<open>InvalidInput\<close> or
  \<open>NotFound\<close>, and what is proved of them: the account key passes every check, a scoped key only
  what its document grants, and a document written by \<open>to_document\<close> is read back as the same
  scopes.
\<close>

section \<open>The route checks\<close>

definition check :: "bool \<Rightarrow> err_class \<Rightarrow> string \<Rightarrow> exc + unit" where
  "check ok c message = (if ok then Inr () else Inl (MshknError c message None))"

definition opt_repr :: "string option \<Rightarrow> string" where
  "opt_repr l = (case l of None \<Rightarrow> ''None'' | Some s \<Rightarrow> py_repr s)"

definition require_account_key :: "principal \<Rightarrow> exc + unit" where
  "require_account_key p = check (p_key p = None) Forbidden ''This route requires the account key''"

definition require_recipes_create :: "principal \<Rightarrow> exc + unit" where
  "require_recipes_create p =
     (case principal_scopes p of
        None \<Rightarrow> Inr ()
      | Some sc \<Rightarrow> check (sc_recipes_create sc) Forbidden
                     ''Scope recipes.create is not granted to this key'')"

definition require_recipes_read :: "principal \<Rightarrow> exc + unit" where
  "require_recipes_read p =
     (case principal_scopes p of
        None \<Rightarrow> Inr ()
      | Some sc \<Rightarrow> check (sc_recipes_read sc) Forbidden
                     ''Scope recipes.read is not granted to this key'')"

definition require_create_from :: "principal \<Rightarrow> string option \<Rightarrow> exc + unit" where
  "require_create_from p recipe_id =
     (case principal_scopes p of
        None \<Rightarrow> Inr ()
      | Some sc \<Rightarrow> check (may_create_from sc recipe_id) Forbidden
                     (''Scope computers.create_from does not allow ''
                      @ (case recipe_id of None \<Rightarrow> ''bare'' | Some r \<Rightarrow> r)))"

definition require_label :: "principal \<Rightarrow> string option \<Rightarrow> exc + unit" where
  "require_label p label =
     (case (label, principal_scopes p) of
        (Some l, Some sc) \<Rightarrow>
          check (covers_label sc (Some l)) Forbidden (''Scope labels does not cover '' @ py_repr l)
      | _ \<Rightarrow> Inr ())"

definition require_checkpoint_label :: "principal \<Rightarrow> checkpoint \<Rightarrow> exc + unit" where
  "require_checkpoint_label p ckpt =
     (case principal_scopes p of
        None \<Rightarrow> Inr ()
      | Some sc \<Rightarrow> check (covers_label sc (ck_label ckpt)) Forbidden
                     (''Scope labels does not cover checkpoint '' @ ck_id ckpt @ '' (label ''
                      @ opt_repr (ck_label ckpt) @ '')''))"

definition require_computer_owner :: "principal \<Rightarrow> computer \<Rightarrow> exc + unit" where
  "require_computer_owner p c =
     (case p_key p of
        None \<Rightarrow> Inr ()
      | Some k \<Rightarrow> check (c_api_key_id c = Some (k_id k)) Forbidden
                    (''Scope computers: '' @ c_id c @ '' was not created by this key''))"

definition visible_checkpoints :: "principal \<Rightarrow> checkpoint list \<Rightarrow> checkpoint list" where
  "visible_checkpoints p ckpts =
     (case principal_scopes p of
        None \<Rightarrow> ckpts
      | Some sc \<Rightarrow> filter (\<lambda>c. covers_label sc (ck_label c)) ckpts)"

definition key_id :: "principal \<Rightarrow> string option" where
  "key_id p = map_option k_id (p_key p)"

definition require_relay :: "principal \<Rightarrow> string \<Rightarrow> bool \<Rightarrow> exc + unit" where
  "require_relay p target deliver_in_body =
     (case principal_scopes p of
        None \<Rightarrow> Inr ()
      | Some sc \<Rightarrow>
          if \<not> has_relay sc
          then Inl (MshknError Forbidden ''Scope relay is not granted to this key'' None)
          else if \<not> may_relay_to sc target
          then Inl (MshknError Forbidden (''Scope relay.targets does not allow '' @ target) None)
          else if deliver_in_body
          then Inl (MshknError InvalidInput
                      (''deliver is pinned by this key'' @ [squote] @ ''s scope and may not be given'') None)
          else Inr ())"

definition require_relay_job_owner :: "principal \<Rightarrow> relay_job \<Rightarrow> exc + unit" where
  "require_relay_job_owner p job =
     (case p_key p of
        None \<Rightarrow> Inr ()
      | Some k \<Rightarrow> check (rj_api_key_id job = Some (k_id k)) NotFound ''Relay job not found'')"

lemma check_ok [simp]: "check ok c m = Inr () \<longleftrightarrow> ok"
  by (simp add: check_def)

lemma principal_scopes_None [simp]: "principal_scopes p = None \<longleftrightarrow> p_key p = None"
  by (simp add: principal_scopes_def)

lemmas route_checks =
  require_account_key_def require_recipes_create_def require_recipes_read_def
  require_create_from_def require_label_def require_checkpoint_label_def
  require_computer_owner_def require_relay_def require_relay_job_owner_def

section \<open>Labels and recipes\<close>

lemma covers_label_iff:
  "covers_label sc label \<longleftrightarrow>
   (\<exists>l p. label = Some l \<and> l \<noteq> [] \<and> p \<in> set (sc_labels sc) \<and> prefix p l)"
  by (cases label) (auto simp: covers_label_def list_ex_iff)

lemma covers_label_append:
  "covers_label sc (Some l) \<Longrightarrow> covers_label sc (Some (l @ rest))"
  by (auto simp: covers_label_iff)

lemma visible_iff:
  "c \<in> set (visible_checkpoints p ckpts) \<longleftrightarrow>
   c \<in> set ckpts \<and> require_checkpoint_label p c = Inr ()"
  by (cases "p_key p")
     (auto simp: visible_checkpoints_def require_checkpoint_label_def principal_scopes_def)

section \<open>The relay targets of a scope\<close>

lemma may_relay_to_iff:
  "may_relay_to sc target \<longleftrightarrow>
   (\<exists>origin path p path'. target_parts target = Some (origin, path) \<and> p \<in> set (sc_relay_targets sc) \<and>
      target_parts p = Some (origin, path') \<and> prefix path' path)"
  by (fastforce simp: may_relay_to_def list_ex_iff split: option.splits prod.splits)

section \<open>The scope document, there and back\<close>

definition wf_scopes :: "scopes \<Rightarrow> bool" where
  "wf_scopes sc \<longleftrightarrow>
     [] \<notin> set (sc_labels sc) \<and>
     (case sc_relay_deliver sc of
        None \<Rightarrow> sc_relay_targets sc = []
      | Some d \<Rightarrow> sc_relay_targets sc \<noteq> [] \<and> [] \<notin> set (sc_relay_targets sc) \<and>
                  (\<forall>t\<in>set (sc_relay_targets sc). target_parts t \<noteq> None) \<and>
                  rd_label d \<noteq> [] \<and> rd_exec d \<noteq> [])"

lemma json_strings_map [simp]: "json_strings (map JStr ss) = Some ss"
  by (induction ss) simp_all

lemma strings_of_map [simp]: "strings_of (Some (JArr (map JStr ss))) w = Inr ss"
  by (simp add: strings_of_def)

lemma strings_of_Nil [simp]: "strings_of (Some (JArr [])) w = Inr []"
  by (simp add: strings_of_def)

lemma reject_not_Inr [simp]: "reject m \<noteq> Inr x"
  by (simp add: reject_def)

lemma bind_sum_Inr: "bind_sum r f = Inr b \<longleftrightarrow> (\<exists>a. r = Inr a \<and> f a = Inr b)"
  by (cases r) simp_all

lemma if_Inr: "(if c then reject m else r) = Inr b \<longleftrightarrow> \<not> c \<and> r = Inr b"
  by simp

lemma parse_deliver_wf:
  assumes "parse_deliver v = Inr d"
  shows "rd_label d \<noteq> [] \<and> rd_exec d \<noteq> []"
proof -
  from assms obtain o' where v: "v = Some (JObj o')"
    by (auto simp: parse_deliver_def split: option.splits json.splits)
  with assms obtain l c where "map_of o' ''label'' = Some (JStr l)" "map_of o' ''exec'' = Some (JStr c)"
    "l \<noteq> []" "c \<noteq> []" "d = \<lparr>rd_label = l, rd_exec = c\<rparr>"
    by (auto simp: parse_deliver_def split: if_splits option.splits json.splits)
  then show ?thesis by simp
qed

definition relay_scope_ok :: "string list \<Rightarrow> relay_delivery option \<Rightarrow> bool" where
  "relay_scope_ok targets deliver =
     (case deliver of
        None \<Rightarrow> targets = []
      | Some d \<Rightarrow> targets \<noteq> [] \<and> [] \<notin> set targets \<and> (\<forall>t\<in>set targets. target_parts t \<noteq> None) \<and>
                  rd_label d \<noteq> [] \<and> rd_exec d \<noteq> [])"

lemma wf_scopes_relay:
  "wf_scopes sc \<longleftrightarrow> [] \<notin> set (sc_labels sc) \<and> relay_scope_ok (sc_relay_targets sc) (sc_relay_deliver sc)"
  by (simp add: wf_scopes_def relay_scope_ok_def)

lemma parse_relay_wf:
  assumes "parse_relay doc = Inr (targets, d)"
  shows "relay_scope_ok targets d"
proof (cases "map_of doc ''relay''")
  case None
  with assms show ?thesis by (simp add: parse_relay_def relay_scope_ok_def)
next
  case (Some r)
  with assms obtain dl where "targets \<noteq> []" "[] \<notin> set targets"
    "\<not> list_ex (\<lambda>t. target_parts t = None) targets" "d = Some dl" "\<exists>v. parse_deliver v = Inr dl"
    by (auto simp: parse_relay_def bind_sum_Inr if_Inr)
  then show ?thesis using parse_deliver_wf by (auto simp: relay_scope_ok_def list_ex_iff)
qed

lemma parse_scopes_wf:
  assumes "parse_scopes document = Inr sc"
  shows "wf_scopes sc"
proof -
  from assms obtain doc where "document = JObj doc"
    by (cases document) (auto simp: parse_scopes_def)
  with assms obtain rt rd where "parse_relay doc = Inr (rt, rd)" "[] \<notin> set (sc_labels sc)"
    "sc_relay_targets sc = rt" "sc_relay_deliver sc = rd"
    by (auto simp: parse_scopes_def bind_sum_Inr if_Inr Let_def)
  then show ?thesis using parse_relay_wf by (auto simp: wf_scopes_relay)
qed

lemma unknown_keys_subset: "set (map fst obj) \<subseteq> set allowed \<Longrightarrow> unknown_keys obj allowed = []"
proof -
  assume "set (map fst obj) \<subseteq> set allowed"
  then have "filter (\<lambda>k. k \<notin> set allowed) (remdups (map fst obj)) = []"
    by (auto simp: filter_empty_conv)
  then show ?thesis unfolding unknown_keys_def by simp
qed

lemma document_recipes:
  assumes "scopes_to_document sc = JObj doc"
  shows "\<exists>rs. section_of doc ''recipes'' [''create'', ''read''] = Inr rs \<and>
         flag_of rs ''create'' ''recipes'' = Inr (sc_recipes_create sc) \<and>
         flag_of rs ''read'' ''recipes'' = Inr (sc_recipes_read sc)"
  using assms
  by (cases "sc_recipes_create sc"; cases "sc_recipes_read sc"; cases "sc_create_from sc";
      cases "sc_relay_deliver sc"; cases "has_relay sc"; cases "sc_labels sc = []")
     (auto simp: scopes_to_document_def section_of_def flag_of_def unknown_keys_def Let_def split: if_splits)

lemma document_from:
  assumes "scopes_to_document sc = JObj doc"
  shows "\<exists>cs. section_of doc ''computers'' [''create_from''] = Inr cs \<and>
         (case map_of cs ''create_from'' of None \<Rightarrow> JArr [] | Some v \<Rightarrow> v) =
           (case sc_create_from sc of AnyRecipe \<Rightarrow> JStr ''*'' | FromRecipes rs \<Rightarrow> JArr (map JStr rs))"
  using assms
  by (cases "sc_recipes_create sc"; cases "sc_recipes_read sc"; cases "sc_create_from sc";
      cases "sc_relay_deliver sc"; cases "has_relay sc"; cases "sc_labels sc = []")
     (auto simp: scopes_to_document_def section_of_def unknown_keys_def Let_def split: if_splits)

lemma document_labels:
  assumes "scopes_to_document sc = JObj doc"
  shows "(case map_of doc ''labels'' of None \<Rightarrow> JArr [] | Some v \<Rightarrow> v) = JArr (map JStr (sc_labels sc))"
  using assms
  by (cases "sc_recipes_create sc"; cases "sc_recipes_read sc"; cases "sc_create_from sc";
      cases "sc_relay_deliver sc"; cases "has_relay sc")
     (auto simp: scopes_to_document_def Let_def split: if_splits)

lemma document_relay:
  assumes "scopes_to_document sc = JObj doc" and "wf_scopes sc"
  shows "parse_relay doc = Inr (sc_relay_targets sc, sc_relay_deliver sc)"
proof (cases "sc_relay_deliver sc")
  case None
  then have "map_of doc ''relay'' = None"
    using assms(1) by (cases "sc_create_from sc") (auto simp: scopes_to_document_def Let_def split: if_splits)
  with None assms(2) show ?thesis by (simp add: parse_relay_def wf_scopes_def)
next
  case (Some d)
  with assms(2) have h: "has_relay sc" by (auto simp: has_relay_def wf_scopes_def)
  have m: "map_of doc ''relay'' = Some (JObj [(''targets'', JArr (map JStr (sc_relay_targets sc))),
             (''deliver'', JObj [(''label'', JStr (rd_label d)), (''exec'', JStr (rd_exec d))])])"
    using assms(1) Some h by (cases "sc_create_from sc") (auto simp: scopes_to_document_def Let_def)
  have v: "\<not> list_ex (\<lambda>t. target_parts t = None) (sc_relay_targets sc)"
    using assms(2) Some by (auto simp: wf_scopes_def list_ex_iff)
  show ?thesis
    using assms(2) Some v
    by (simp add: parse_relay_def section_of_def m unknown_keys_def parse_deliver_def wf_scopes_def)
qed

lemma document_keys:
  assumes "scopes_to_document sc = JObj doc"
  shows "unknown_keys doc [''recipes'', ''computers'', ''labels'', ''relay''] = []"
  using assms
  by (cases "sc_create_from sc"; cases "sc_relay_deliver sc")
     (auto simp: scopes_to_document_def Let_def intro!: unknown_keys_subset split: if_splits)

lemma parse_to_document:
  assumes "wf_scopes sc"
  shows "parse_scopes (scopes_to_document sc) = Inr sc"
proof -
  obtain doc where doc: "scopes_to_document sc = JObj doc"
    by (simp add: scopes_to_document_def Let_def)
  obtain rs where rs: "section_of doc ''recipes'' [''create'', ''read''] = Inr rs"
    "flag_of rs ''create'' ''recipes'' = Inr (sc_recipes_create sc)"
    "flag_of rs ''read'' ''recipes'' = Inr (sc_recipes_read sc)"
    using document_recipes [OF doc] by auto
  obtain cs where cs: "section_of doc ''computers'' [''create_from''] = Inr cs"
    "(case map_of cs ''create_from'' of None \<Rightarrow> JArr [] | Some v \<Rightarrow> v) =
       (case sc_create_from sc of AnyRecipe \<Rightarrow> JStr ''*'' | FromRecipes rs \<Rightarrow> JArr (map JStr rs))"
    using document_from [OF doc] by auto
  have labels: "[] \<notin> set (sc_labels sc)" using assms by (simp add: wf_scopes_def)
  show ?thesis
    unfolding doc parse_scopes_def
    using labels
    by (simp add: document_keys [OF doc] rs cs document_labels [OF doc] document_relay [OF doc assms]
             split: create_from.splits)
qed

section \<open>Properties\<close>

text \<open>A scope document survives storage: whatever the parser accepted, writing it out and
  parsing it again gives the same scopes.\<close>

lemma scopes_round_trip:
  assumes "parse_scopes document = Inr sc"
  shows "parse_scopes (scopes_to_document sc) = Inr sc"
  by (rule parse_to_document) (rule parse_scopes_wf [OF assms])

lemma scopes_round_trip_witness:
  "parse_scopes (scopes_to_document
     \<lparr>sc_recipes_create = False, sc_recipes_read = False, sc_create_from = FromRecipes [], sc_labels = [''a''],
      sc_relay_targets = [], sc_relay_deliver = None\<rparr>) =
   Inr \<lparr>sc_recipes_create = False, sc_recipes_read = False, sc_create_from = FromRecipes [], sc_labels = [''a''],
        sc_relay_targets = [], sc_relay_deliver = None\<rparr>"
proof -
  have "parse_scopes (JObj [(''labels'', JArr [JStr ''a''])]) =
      Inr \<lparr>sc_recipes_create = False, sc_recipes_read = False, sc_create_from = FromRecipes [], sc_labels = [''a''],
        sc_relay_targets = [], sc_relay_deliver = None\<rparr>"
    by code_simp
  from scopes_round_trip [OF this] show ?thesis .
qed

text \<open>A checkpoint listing shows a scoped key exactly the checkpoints its label prefixes cover,
  the ones it may also use; and an unlabelled checkpoint is covered by no scope. The account key
  sees every one.\<close>

lemma visible_checkpoints_exact:
  "set (visible_checkpoints p ckpts) = {c \<in> set ckpts. require_checkpoint_label p c = Inr ()} \<and>
   (require_checkpoint_label p c = Inr () \<longleftrightarrow>
      (case p_key p of
         None \<Rightarrow> True
       | Some k \<Rightarrow> (\<exists>l q. ck_label c = Some l \<and> l \<noteq> [] \<and> q \<in> set (sc_labels (k_scopes k)) \<and> prefix q l)))"
proof
  show "set (visible_checkpoints p ckpts) = {c \<in> set ckpts. require_checkpoint_label p c = Inr ()}"
    by (rule set_eqI) (simp add: visible_iff)
  show "require_checkpoint_label p c = Inr () \<longleftrightarrow>
      (case p_key p of
         None \<Rightarrow> True
       | Some k \<Rightarrow> (\<exists>l q. ck_label c = Some l \<and> l \<noteq> [] \<and> q \<in> set (sc_labels (k_scopes k)) \<and> prefix q l))"
    by (cases "p_key p") (simp_all add: require_checkpoint_label_def principal_scopes_def covers_label_iff)
qed

text \<open>A scoped key may submit a relay job exactly when its scope grants the relay, the body does
  not name a delivery of its own, and the target has the origin of one of its target prefixes
  (scheme, host and effective port equal) and a path that prefix's path starts; an account key
  always may.\<close>

lemma relay_scope_exact:
  "require_relay p target deliver_in_body = Inr () \<longleftrightarrow>
   (case p_key p of
      None \<Rightarrow> True
    | Some k \<Rightarrow> has_relay (k_scopes k) \<and> \<not> deliver_in_body \<and>
        (\<exists>origin path q path'. target_parts target = Some (origin, path) \<and>
           q \<in> set (sc_relay_targets (k_scopes k)) \<and> target_parts q = Some (origin, path') \<and> prefix path' path))"
  unfolding may_relay_to_iff [symmetric]
  by (cases "p_key p") (simp_all add: require_relay_def principal_scopes_def)

text \<open>The path prefix of a relay target is compared as text: a path that climbs out of the
  prefix with dot segments is covered by it.\<close>

lemma relay_prefix_is_textual:
  "may_relay_to \<lparr>sc_recipes_create = False, sc_recipes_read = False, sc_create_from = FromRecipes [],
                 sc_labels = [], sc_relay_targets = [''https://api.example.com/v1/''],
                 sc_relay_deliver = Some \<lparr>rd_label = ''l'', rd_exec = ''e''\<rparr>\<rparr>
     ''https://api.example.com/v1/../admin'' \<and>
   \<not> may_relay_to \<lparr>sc_recipes_create = False, sc_recipes_read = False, sc_create_from = FromRecipes [],
                 sc_labels = [], sc_relay_targets = [''https://api.example.com/v1/''],
                 sc_relay_deliver = Some \<lparr>rd_label = ''l'', rd_exec = ''e''\<rparr>\<rparr>
     ''https://api.example.com.evil.net/v1/''"
  by code_simp

end
