(* ===== verification/Allocator.thy ===== *)
theory Allocator
  imports Models
begin

text \<open>
  Slot and volume-id allocation (src/src/mshkn/services/allocator.py). The allocator's state is
  the first slot never handed out, the slots handed back, and the next volume id. Slot 254 is
  the staging slot and is never handed out; slots end at 255; volume ids only grow.

  A slot stands for a tap device and an address, so two computers on one slot would share them.
  What the other components rely on is stated as the locale \<open>slot_pool\<close>: acquiring hands out a
  slot nobody holds, releasing gives back exactly the slot named and nothing else. Its lemmas
  are about any history of acquires and releases.

  \<open>set.pop()\<close> returns an element of its choice; the model takes the choice as the function \<open>pop\<close>.
\<close>

definition staging_slot :: int where
  "staging_slot = 254"

definition first_volume_id :: int where
  "first_volume_id = 100"

definition last_slot :: int where
  "last_slot = 255"

record allocator =
  sa_next_slot :: int
  sa_free_slots :: "int set"
  sa_next_volume_id :: int

definition new_allocator :: allocator where
  "new_allocator = \<lparr>sa_next_slot = 1, sa_free_slots = {}, sa_next_volume_id = first_volume_id\<rparr>"

section \<open>The operations\<close>

text \<open>\<open>initialize\<close>, given what its queries returned: slot and volume of every computer that is
  not destroyed, and the highest volume of the checkpoints, the recipes and the pool.\<close>

definition initialize ::
  "computer list \<Rightarrow> int option list \<Rightarrow> (allocator, unit) act" where
  "initialize computers candidates =
     (let base = (if computers = [] then first_volume_id - 1
                  else max (first_volume_id - 1) (Max (set (map c_thin_volume_id computers))));
          slots = map computer_slot computers;
          max_vol = foldl (\<lambda>m c. case c of None \<Rightarrow> m | Some v \<Rightarrow> max m v) base candidates
      in if None \<in> set slots then raise (PyError ''ValueError'' ''invalid literal for int()'')
         else if computers = []
         then writes (\<lambda>a. \<lparr>sa_next_slot = 1, sa_free_slots = {}, sa_next_volume_id = max_vol + 1\<rparr>)
         else let active = set (map the slots);
                  next_slot = min (Max active + 1) (last_slot + 1)
              in writes (\<lambda>a. \<lparr>sa_next_slot = next_slot,
                              sa_free_slots = set (filter (\<lambda>s. s \<notin> active) [1..next_slot - 1]) - {staging_slot},
                              sa_next_volume_id = max_vol + 1\<rparr>))"

definition take_slot :: "(int set \<Rightarrow> int) \<Rightarrow> (allocator, int) act" where
  "take_slot pop =
     seqE (writes (\<lambda>a. a\<lparr>sa_free_slots := sa_free_slots a - {staging_slot}\<rparr>))
     (bindE (reads (\<lambda>a. a)) (\<lambda>a.
        if sa_free_slots a \<noteq> {}
        then let s = pop (sa_free_slots a)
             in seqE (writes (\<lambda>a. a\<lparr>sa_free_slots := sa_free_slots a - {s}\<rparr>)) (ret s)
        else let slot = (if sa_next_slot a = staging_slot then staging_slot + 1 else sa_next_slot a)
             in if slot > last_slot then raise_domain LimitExceeded ''No free VM slots''
                else seqE (writes (\<lambda>a. a\<lparr>sa_next_slot := slot + 1\<rparr>)) (ret slot)))"

definition take_volume_id :: "(allocator, int) act" where
  "take_volume_id =
     bindE (reads sa_next_volume_id) (\<lambda>v.
     seqE (writes (\<lambda>a. a\<lparr>sa_next_volume_id := sa_next_volume_id a + 1\<rparr>)) (ret v))"

definition acquire :: "(int set \<Rightarrow> int) \<Rightarrow> (allocator, int \<times> int) act" where
  "acquire pop =
     bindE (take_slot pop) (\<lambda>s. bindE take_volume_id (\<lambda>v. ret (s, v)))"

definition acquire_volume_id :: "(allocator, int) act" where
  "acquire_volume_id = take_volume_id"

definition release_slot :: "int \<Rightarrow> (allocator, unit) act" where
  "release_slot slot =
     (if slot = staging_slot then ret ()
      else bindE (reads (\<lambda>a. a)) (\<lambda>a.
        if slot \<in> sa_free_slots a \<or> \<not> (1 \<le> slot \<and> slot < sa_next_slot a) then ret ()
        else writes (\<lambda>a. a\<lparr>sa_free_slots := insert slot (sa_free_slots a)\<rparr>)))"

section \<open>The slots in use\<close>

definition held :: "allocator \<Rightarrow> int set" where
  "held a = {1..<sa_next_slot a} - sa_free_slots a - {staging_slot}"

definition all_slots :: "int set" where
  "all_slots = {1..last_slot} - {staging_slot}"

definition alloc_inv :: "allocator \<Rightarrow> bool" where
  "alloc_inv a \<longleftrightarrow>
     sa_free_slots a \<subseteq> {1..<sa_next_slot a} - {staging_slot} \<and>
     1 \<le> sa_next_slot a \<and> sa_next_slot a \<le> last_slot + 1"

definition pop_ok :: "(int set \<Rightarrow> int) \<Rightarrow> bool" where
  "pop_ok pop \<longleftrightarrow> (\<forall>F. finite F \<longrightarrow> F \<noteq> {} \<longrightarrow> pop F \<in> F)"

lemma pop_ok_Min: "pop_ok Min"
  by (simp add: pop_ok_def)

lemma alloc_inv_finite: "alloc_inv a \<Longrightarrow> finite (sa_free_slots a)"
  unfolding alloc_inv_def by (meson finite_Diff finite_atLeastLessThan_int finite_subset)

lemma alloc_inv_new [simp]: "alloc_inv new_allocator"
  by (simp add: alloc_inv_def new_allocator_def last_slot_def)

lemma held_new [simp]: "held new_allocator = {}"
  by (simp add: held_def new_allocator_def)

lemma held_finite [simp]: "finite (held a)"
  by (simp add: held_def)

lemma held_in_range: "alloc_inv a \<Longrightarrow> held a \<subseteq> all_slots"
  by (auto simp: held_def alloc_inv_def all_slots_def)

lemma no_staging: "alloc_inv a \<Longrightarrow> sa_free_slots a - {staging_slot} = sa_free_slots a"
  by (auto simp: alloc_inv_def)

lemma take_slot_run:
  assumes "alloc_inv a"
  shows "take_slot pop a =
     (if sa_free_slots a \<noteq> {}
      then (Inr (pop (sa_free_slots a)), a\<lparr>sa_free_slots := sa_free_slots a - {pop (sa_free_slots a)}\<rparr>)
      else let slot = (if sa_next_slot a = staging_slot then staging_slot + 1 else sa_next_slot a)
           in if slot > last_slot then (Inl (MshknError LimitExceeded ''No free VM slots'' None), a)
              else (Inr slot, a\<lparr>sa_next_slot := slot + 1\<rparr>))"
proof -
  have "a\<lparr>sa_free_slots := sa_free_slots a - {staging_slot}\<rparr> = a"
    unfolding no_staging [OF assms] by simp
  moreover have "sa_free_slots a \<subseteq> {staging_slot} \<longleftrightarrow> sa_free_slots a = {}"
    using assms by (auto simp: alloc_inv_def)
  ultimately show ?thesis
    by (simp add: take_slot_def seqE_def bindE_def reads_def writes_def ret_def raise_domain_def
        raise_def Let_def)
qed

lemma held_pop:
  assumes "alloc_inv a" and "s \<in> sa_free_slots a"
  shows "s \<in> all_slots" and "s \<notin> held a"
    and "held (a\<lparr>sa_free_slots := sa_free_slots a - {s}\<rparr>) = insert s (held a)"
    and "alloc_inv (a\<lparr>sa_free_slots := sa_free_slots a - {s}\<rparr>)"
proof -
  have s: "1 \<le> s" "s < sa_next_slot a" "s \<noteq> staging_slot" "sa_next_slot a \<le> last_slot + 1"
    using assms by (auto simp: alloc_inv_def)
  then show "s \<in> all_slots" by (simp add: all_slots_def)
  show "s \<notin> held a" using assms(2) by (simp add: held_def)
  show "held (a\<lparr>sa_free_slots := sa_free_slots a - {s}\<rparr>) = insert s (held a)"
    using s by (auto simp: held_def)
  show "alloc_inv (a\<lparr>sa_free_slots := sa_free_slots a - {s}\<rparr>)"
    using assms(1) by (auto simp: alloc_inv_def)
qed

lemma held_next:
  assumes inv: "alloc_inv a" and free: "sa_free_slots a = {}"
    and slot: "slot = (if sa_next_slot a = staging_slot then staging_slot + 1 else sa_next_slot a)"
  shows "slot > last_slot \<Longrightarrow> held a = all_slots"
    and "slot \<le> last_slot \<Longrightarrow> slot \<in> all_slots \<and> slot \<notin> held a"
    and "slot \<le> last_slot \<Longrightarrow> held (a\<lparr>sa_next_slot := slot + 1\<rparr>) = insert slot (held a)"
    and "slot \<le> last_slot \<Longrightarrow> alloc_inv (a\<lparr>sa_next_slot := slot + 1\<rparr>)"
proof -
  have n: "1 \<le> sa_next_slot a" "sa_next_slot a \<le> last_slot + 1" using inv by (auto simp: alloc_inv_def)
  have st: "staging_slot = 254" "last_slot = 255" by (simp_all add: staging_slot_def last_slot_def)
  have h: "held a = {1..<sa_next_slot a} - {staging_slot}" using free by (simp add: held_def)
  have h': "held (a\<lparr>sa_next_slot := slot + 1\<rparr>) = {1..<slot + 1} - {staging_slot}"
    using free by (simp add: held_def)
  have cases: "sa_next_slot a = 254 \<and> slot = 255 \<or> sa_next_slot a \<noteq> 254 \<and> slot = sa_next_slot a"
    using slot st by simp
  show "slot > last_slot \<Longrightarrow> held a = all_slots"
    using cases n st unfolding h all_slots_def by fastforce
  show "slot \<le> last_slot \<Longrightarrow> slot \<in> all_slots \<and> slot \<notin> held a"
    using cases n st unfolding h all_slots_def by fastforce
  show "slot \<le> last_slot \<Longrightarrow> held (a\<lparr>sa_next_slot := slot + 1\<rparr>) = insert slot (held a)"
    using cases n st unfolding h h' by (elim disjE conjE) (auto simp: set_eq_iff)
  show "slot \<le> last_slot \<Longrightarrow> alloc_inv (a\<lparr>sa_next_slot := slot + 1\<rparr>)"
    using cases n free st by (auto simp: alloc_inv_def)
qed

lemma take_slot_wp:
  assumes inv: "alloc_inv a" and pop: "pop_ok pop"
  shows "wp (take_slot pop)
           (\<lambda>s a'. s \<in> all_slots \<and> s \<notin> held a \<and> held a' = insert s (held a) \<and> alloc_inv a' \<and>
                   sa_next_volume_id a' = sa_next_volume_id a)
           (\<lambda>e a'. e = MshknError LimitExceeded ''No free VM slots'' None \<and> held a = all_slots \<and>
                   held a' = held a \<and> alloc_inv a' \<and> sa_next_volume_id a' = sa_next_volume_id a) a"
proof (cases "sa_free_slots a = {}")
  case True
  define slot where "slot = (if sa_next_slot a = staging_slot then staging_slot + 1 else sa_next_slot a)"
  have run: "take_slot pop a =
      (if slot > last_slot then (Inl (MshknError LimitExceeded ''No free VM slots'' None), a)
       else (Inr slot, a\<lparr>sa_next_slot := slot + 1\<rparr>))"
    using take_slot_run [OF inv, of pop] True by (simp add: slot_def Let_def)
  show ?thesis
    using held_next [OF inv True slot_def] inv by (simp add: wp_def run)
next
  case False
  then have p: "pop (sa_free_slots a) \<in> sa_free_slots a"
    using pop alloc_inv_finite [OF inv] by (simp add: pop_ok_def)
  show ?thesis
    using held_pop [OF inv p] False by (simp add: wp_def take_slot_run [OF inv])
qed

lemma take_volume_id_wp:
  "wp take_volume_id
     (\<lambda>v a'. v = sa_next_volume_id a \<and> a' = a\<lparr>sa_next_volume_id := sa_next_volume_id a + 1\<rparr>) R a"
  by (simp add: take_volume_id_def wp_simps)

lemma held_volume [simp]: "held (a\<lparr>sa_next_volume_id := v\<rparr>) = held a"
  by (simp add: held_def)

lemma alloc_inv_volume [simp]: "alloc_inv (a\<lparr>sa_next_volume_id := v\<rparr>) = alloc_inv a"
  by (simp add: alloc_inv_def)

lemma acquire_wp:
  assumes inv: "alloc_inv a" and pop: "pop_ok pop"
  shows "wp (acquire pop)
           (\<lambda>(s, v) a'. s \<in> all_slots \<and> s \<notin> held a \<and> held a' = insert s (held a) \<and> alloc_inv a' \<and>
                   v = sa_next_volume_id a \<and> sa_next_volume_id a' = sa_next_volume_id a + 1)
           (\<lambda>e a'. e = MshknError LimitExceeded ''No free VM slots'' None \<and> held a = all_slots \<and>
                   held a' = held a \<and> alloc_inv a' \<and> sa_next_volume_id a' = sa_next_volume_id a) a"
  unfolding acquire_def wp_bindE
  by (rule wp_mono [OF take_slot_wp [OF inv pop]]) (simp_all add: take_volume_id_def wp_simps)

lemma release_slot_run:
  assumes inv: "alloc_inv a"
  shows "\<exists>a'. release_slot s a = (Inr (), a') \<and> held a' = held a - {s} \<and> alloc_inv a' \<and>
        sa_next_volume_id a' = sa_next_volume_id a"
proof (cases "s = staging_slot \<or> s \<in> sa_free_slots a \<or> \<not> (1 \<le> s \<and> s < sa_next_slot a)")
  case True
  then have "release_slot s a = (Inr (), a)"
    by (auto simp: release_slot_def bindE_def reads_def ret_def)
  moreover have "held a - {s} = held a" using True by (auto simp: held_def)
  ultimately show ?thesis using inv by simp
next
  case False
  let ?a = "a\<lparr>sa_free_slots := insert s (sa_free_slots a)\<rparr>"
  have "release_slot s a = (Inr (), ?a)"
    using False by (simp add: release_slot_def bindE_def reads_def writes_def)
  moreover have "held ?a = held a - {s}" by (auto simp: held_def)
  moreover have "alloc_inv ?a" using False inv by (simp add: alloc_inv_def)
  ultimately show ?thesis by simp
qed

lemma release_slot_wp:
  "alloc_inv a \<Longrightarrow>
   wp (release_slot s)
     (\<lambda>_ a'. held a' = held a - {s} \<and> alloc_inv a' \<and> sa_next_volume_id a' = sa_next_volume_id a) R a"
  by (drule release_slot_run [of a s]) (elim exE conjE, simp add: wp_def)

lemma release_not_held_same: "s \<notin> held a \<Longrightarrow> run_state (release_slot s) a = a"
  unfolding held_def release_slot_def bindE_def reads_def writes_def ret_def run_state_def
  by (cases "s = staging_slot"; cases "s \<in> sa_free_slots a"; cases "1 \<le> s \<and> s < sa_next_slot a") simp_all

section \<open>The contract of a slot pool\<close>

datatype pool_op = Acquire | Release int

locale slot_pool =
  fixes inv :: "'p \<Rightarrow> bool"
    and taken :: "'p \<Rightarrow> int set"
    and acq :: "'p \<Rightarrow> (exc + int) \<times> 'p"
    and rel :: "int \<Rightarrow> 'p \<Rightarrow> 'p"
  assumes acq_ok: "inv p \<Longrightarrow> acq p = (Inr s, p') \<Longrightarrow> s \<notin> taken p \<and> taken p' = insert s (taken p) \<and> inv p'"
    and acq_full: "inv p \<Longrightarrow> acq p = (Inl e, p') \<Longrightarrow> taken p' = taken p \<and> inv p'"
    and rel_ok: "inv p \<Longrightarrow> taken (rel s p) = taken p - {s} \<and> inv (rel s p)"
begin

text \<open>The slots a history hands out that are still out at its end, newest first.\<close>

fun history :: "pool_op list \<Rightarrow> 'p \<Rightarrow> int list \<Rightarrow> 'p \<times> int list" where
  "history [] p out = (p, out)"
| "history (Acquire # ops) p out =
     (case acq p of (Inl e, p') \<Rightarrow> history ops p' out | (Inr s, p') \<Rightarrow> history ops p' (s # out))"
| "history (Release s # ops) p out = history ops (rel s p) (filter (\<lambda>x. x \<noteq> s) out)"

lemma history_distinct:
  "inv p \<Longrightarrow> distinct out \<Longrightarrow> set out \<subseteq> taken p \<Longrightarrow>
   distinct (snd (history ops p out)) \<and> set (snd (history ops p out)) \<subseteq> taken (fst (history ops p out))"
proof (induction ops p out rule: history.induct)
  case (2 ops p out)
  show ?case
  proof (cases "acq p")
    case (Pair r p')
    show ?thesis
    proof (cases r)
      case (Inl e)
      then have "taken p' = taken p \<and> inv p'" using acq_full [of p e p'] "2.prems" Pair by simp
      then show ?thesis using "2.IH"(1) [OF Pair [symmetric] Inl] "2.prems" Pair Inl by simp
    next
      case (Inr s)
      then have "s \<notin> taken p \<and> taken p' = insert s (taken p) \<and> inv p'"
        using acq_ok [of p s p'] "2.prems" Pair by simp
      then show ?thesis using "2.IH"(2) [OF Pair [symmetric] Inr] "2.prems" Pair Inr by auto
    qed
  qed
next
  case (3 s ops p out)
  then show ?case using rel_ok [of p s] by auto
qed simp

lemma history_inv: "inv p \<Longrightarrow> inv (fst (history ops p out))"
proof (induction ops p out rule: history.induct)
  case (2 ops p out)
  show ?case
  proof (cases "acq p")
    case (Pair r p')
    show ?thesis
    proof (cases r)
      case (Inl e)
      then have "inv p'" using acq_full [of p e p'] "2.prems" Pair by simp
      then show ?thesis using "2.IH"(1) [OF Pair [symmetric] Inl] Pair Inl by simp
    next
      case (Inr s)
      then have "inv p'" using acq_ok [of p s p'] "2.prems" Pair by simp
      then show ?thesis using "2.IH"(2) [OF Pair [symmetric] Inr] Pair Inr by simp
    qed
  qed
next
  case (3 s ops p out)
  then have "inv (rel s p)" using rel_ok [of p s] by simp
  then show ?case using "3.IH" by simp
qed simp

end

definition take_result :: "(int set \<Rightarrow> int) \<Rightarrow> allocator \<Rightarrow> (exc + int) \<times> allocator" where
  "take_result pop a = (case acquire pop a of (Inl e, a') \<Rightarrow> (Inl e, a') | (Inr (s, v), a') \<Rightarrow> (Inr s, a'))"

interpretation pool: slot_pool alloc_inv held "take_result Min" "\<lambda>s. run_state (release_slot s)"
proof
  fix p s p'
  assume inv: "alloc_inv p" and r: "take_result Min p = (Inr s, p')"
  then obtain v where "acquire Min p = (Inr (s, v), p')"
    by (auto simp: take_result_def split: prod.splits sum.splits)
  then show "s \<notin> held p \<and> held p' = insert s (held p) \<and> alloc_inv p'"
    using acquire_wp [OF inv pop_ok_Min] by (simp add: wp_def)
next
  fix p e p'
  assume inv: "alloc_inv p" and r: "take_result Min p = (Inl e, p')"
  then have "acquire Min p = (Inl e, p')"
    by (auto simp: take_result_def split: prod.splits sum.splits)
  then show "held p' = held p \<and> alloc_inv p'"
    using acquire_wp [OF inv pop_ok_Min] by (simp add: wp_def)
next
  fix p s
  assume "alloc_inv p"
  then obtain a' where "release_slot s p = (Inr (), a')" "held a' = held p - {s}" "alloc_inv a'"
    using release_slot_run by blast
  then show "held (run_state (release_slot s) p) = held p - {s} \<and> alloc_inv (run_state (release_slot s) p)"
    by (simp add: run_state_def)
qed

section \<open>Start-up\<close>

lemma foldl_candidates_ge:
  "base \<le> foldl (\<lambda>m c. case c of None \<Rightarrow> m | Some (v::int) \<Rightarrow> max m v) base cs \<and>
   (\<forall>v. Some v \<in> set cs \<longrightarrow> v \<le> foldl (\<lambda>m c. case c of None \<Rightarrow> m | Some v \<Rightarrow> max m v) base cs)"
proof (induction cs arbitrary: base)
  case (Cons c cs)
  let ?b = "case c of None \<Rightarrow> base | Some v \<Rightarrow> max base v"
  have "base \<le> ?b" "\<And>v. c = Some v \<Longrightarrow> v \<le> ?b" by (auto split: option.splits)
  with Cons.IH [of ?b] show ?case by fastforce
qed simp

lemma initialize_wp:
  assumes slots: "\<And>c. c \<in> set computers \<Longrightarrow> \<exists>s. computer_slot c = Some s \<and> s \<in> all_slots"
  shows "wp (initialize computers candidates)
           (\<lambda>_ a. alloc_inv a \<and> {s. \<exists>c\<in>set computers. computer_slot c = Some s} = held a \<and>
                  (\<forall>c\<in>set computers. c_thin_volume_id c < sa_next_volume_id a) \<and>
                  (\<forall>v. Some v \<in> set candidates \<longrightarrow> v < sa_next_volume_id a) \<and>
                  first_volume_id \<le> sa_next_volume_id a) R a0"
proof -
  let ?base = "if computers = [] then first_volume_id - 1
                  else max (first_volume_id - 1) (Max (set (map c_thin_volume_id computers)))"
  let ?active = "set (map the (map computer_slot computers))"
  let ?m = "foldl (\<lambda>m c. case c of None \<Rightarrow> m | Some v \<Rightarrow> max m v) ?base candidates"
  have none: "None \<notin> set (map computer_slot computers)" using slots by force
  have act: "?active = {s. \<exists>c\<in>set computers. computer_slot c = Some s}"
    using slots by (force simp: image_iff)
  have rng: "?active \<subseteq> all_slots" unfolding act using slots by force
  have vols: "c_thin_volume_id c \<le> ?base" if "c \<in> set computers" for c
    using that by (auto intro!: max.coboundedI2 Max_ge)
  have fb: "first_volume_id - 1 \<le> ?base" by simp
  have m: "?base \<le> ?m" "\<And>v. Some v \<in> set candidates \<Longrightarrow> v \<le> ?m"
    using foldl_candidates_ge [of ?base candidates] by blast+
  show ?thesis
  proof (cases "computers = []")
    case True
    then show ?thesis
      using m fb
      by (simp add: initialize_def wp_simps alloc_inv_def held_def last_slot_def Let_def zless_add1_eq)
  next
    case False
    then have ne: "?active \<noteq> {}" by simp
    have "Max ?active \<in> all_slots" using rng ne by (meson List.finite_set Max_in subsetD)
    then have mx: "min (Max ?active + 1) (last_slot + 1) = Max ?active + 1" "1 \<le> Max ?active"
      "Max ?active \<le> last_slot"
      by (auto simp: all_slots_def)
    have le: "s \<in> ?active \<Longrightarrow> 1 \<le> s \<and> s \<le> Max ?active \<and> s \<noteq> staging_slot" for s
      using rng by (auto simp: all_slots_def)
    let ?a = "\<lparr>sa_next_slot = Max ?active + 1,
               sa_free_slots = set (filter (\<lambda>s. s \<notin> ?active) [1..Max ?active + 1 - 1]) - {staging_slot},
               sa_next_volume_id = ?m + 1\<rparr>"
    have run: "initialize computers candidates a0 = (Inr (), ?a)"
      unfolding initialize_def Let_def mx(1) using none False by (simp add: writes_def)
    have h: "held ?a = ?active"
      using le by (auto simp: held_def)
    have i: "alloc_inv ?a"
      using mx by (auto simp: alloc_inv_def)
    have v: "\<forall>c\<in>set computers. c_thin_volume_id c < sa_next_volume_id ?a"
      using vols m(1) by fastforce
    show ?thesis
      unfolding wp_def run using h i v act m fb by auto
  qed
qed

section \<open>Properties\<close>

definition outstanding :: "pool_op list \<Rightarrow> allocator \<Rightarrow> allocator \<times> int list" where
  "outstanding ops a = pool.history ops a []"


text \<open>Acquiring succeeds exactly when some slot is free. With every one of the 254 slots held it
  raises LimitExceeded; otherwise it hands out a slot nobody holds, together with a volume id no
  earlier acquire returned.\<close>

lemma acquire_exact:
  assumes "alloc_inv a" and "pop_ok pop"
  shows "case outcome (acquire pop) a of
           Inl e \<Rightarrow> e = MshknError LimitExceeded ''No free VM slots'' None \<and> held a = all_slots \<and> card (held a) = 254
         | Inr (s, v) \<Rightarrow> s \<in> all_slots \<and> s \<notin> held a \<and> held (run_state (acquire pop) a) = insert s (held a) \<and>
                         v = sa_next_volume_id a \<and> v < sa_next_volume_id (run_state (acquire pop) a)"
proof -
  have c: "card all_slots = 254" by (simp add: all_slots_def last_slot_def staging_slot_def)
  from acquire_wp [OF assms] c show ?thesis
    by (auto simp: wp_outcome split: sum.splits prod.splits)
qed

lemma acquire_exact_witness:
  "case outcome (acquire Min) new_allocator of
     Inl e \<Rightarrow> e = MshknError LimitExceeded ''No free VM slots'' None \<and> held new_allocator = all_slots \<and>
             card (held new_allocator) = 254
   | Inr (s, v) \<Rightarrow> s \<in> all_slots \<and> s \<notin> held new_allocator \<and>
       held (run_state (acquire Min) new_allocator) = insert s (held new_allocator) \<and>
       v = sa_next_volume_id new_allocator \<and> v < sa_next_volume_id (run_state (acquire Min) new_allocator)"
  by (rule acquire_exact [OF alloc_inv_new pop_ok_Min])

text \<open>After a restart the allocator agrees with the database and the pool: the held slots are
  exactly the slots of the computers that are not destroyed, and the next volume id is above the
  volume of every such computer, of every checkpoint and recipe, and of the pool.\<close>

lemma initialize_rebuilds:
  assumes "\<And>c. c \<in> set computers \<Longrightarrow> \<exists>s. computer_slot c = Some s \<and> s \<in> all_slots"
  shows "held (run_state (initialize computers candidates) a) = {s. \<exists>c\<in>set computers. computer_slot c = Some s} \<and>
         (\<forall>c\<in>set computers. c_thin_volume_id c < sa_next_volume_id (run_state (initialize computers candidates) a)) \<and>
         (\<forall>v. Some v \<in> set candidates \<longrightarrow> v < sa_next_volume_id (run_state (initialize computers candidates) a)) \<and>
         alloc_inv (run_state (initialize computers candidates) a)"
proof -
  obtain r a' where run: "initialize computers candidates a = (r, a')" by (cases "initialize computers candidates a")
  have "wp (initialize computers candidates) (\<lambda>_ a. alloc_inv a \<and> {s. \<exists>c\<in>set computers. computer_slot c = Some s} = held a \<and>
                  (\<forall>c\<in>set computers. c_thin_volume_id c < sa_next_volume_id a) \<and>
                  (\<forall>v. Some v \<in> set candidates \<longrightarrow> v < sa_next_volume_id a) \<and>
                  first_volume_id \<le> sa_next_volume_id a) (\<lambda>_ _. False) a"
    by (rule initialize_wp) (rule assms)
  then show ?thesis by (auto simp: wp_def run run_state_def split: sum.splits)
qed

definition slot_row :: "string \<Rightarrow> int \<Rightarrow> computer" where
  "slot_row tap v =
     \<lparr>c_id = tap, c_account_id = ''acct-1'', c_thin_volume_id = v, c_tap_device = tap, c_vm_ip = [],
      c_socket_path = [], c_firecracker_pid = None, c_status = Running, c_created_at = ''0'',
      c_last_exec_at = None, c_source_checkpoint_id = None, c_recipe_id = None, c_api_key_id = None\<rparr>"

lemma initialize_rebuilds_witness:
  "held (run_state (initialize [slot_row ''tap2'' 130] [Some 140, None]) new_allocator) =
     {s. \<exists>c\<in>set [slot_row ''tap2'' 130]. computer_slot c = Some s} \<and>
   140 < sa_next_volume_id (run_state (initialize [slot_row ''tap2'' 130] [Some 140, None]) new_allocator)"
proof -
  have "computer_slot (slot_row ''tap2'' 130) = Some 2" by code_simp
  then have "\<exists>s. computer_slot c = Some s \<and> s \<in> all_slots" if "c \<in> set [slot_row ''tap2'' 130]" for c
    using that by (simp add: all_slots_def staging_slot_def last_slot_def)
  note i = initialize_rebuilds [of "[slot_row ''tap2'' 130]" "[Some 140, None]" new_allocator, OF this]
  from i have "\<forall>v. Some v \<in> set [Some 140, None] \<longrightarrow>
      v < sa_next_volume_id (run_state (initialize [slot_row ''tap2'' 130] [Some 140, None]) new_allocator)"
    by blast
  then have "140 < sa_next_volume_id (run_state (initialize [slot_row ''tap2'' 130] [Some 140, None]) new_allocator)"
    by simp
  with i show ?thesis by blast
qed

end
