(* ===== verification/Host.thy ===== *)
theory Host
  imports Models
begin

text \<open>
  The host boundary (src/src/mshkn/host/__init__.py): five protocols, each a record of functions
  over a state \<^typ>\<open>'h\<close> of the machine. A protocol method is an action on that state, so it may
  raise and may leave any state behind; every theorem about a service that names no law of the
  host holds whatever the machine does. Production gives these records the Firecracker-backed
  implementations, the tests the in-memory fakes (theory \<open>FakeHost\<close>).

  Beside the five protocols the services use their interpreter's own services: fresh
  uuid4 hex digits and url-safe tokens, the UTC clock in microseconds, the local file system, the
  free space of a file system, the use of a disk (used, total), and subprocesses: the shell runner, \<open>docker build\<close> and ssh-keygen. They are the
  record \<^verbatim>\<open>os\<close>. A file system is the list of its nodes by path; a
  path is the list of its components below the root.
\<close>

section \<open>Resources\<close>

text \<open>src/src/mshkn/resources.py; its parser is theory \<open>Resources\<close>.\<close>

record resources =
  mem_mib :: int
  vcpus :: int

definition default_resources :: resources where
  "default_resources = \<lparr>mem_mib = 256, vcpus = 2\<rparr>"

definition is_default :: "resources \<Rightarrow> bool" where
  "is_default r \<longleftrightarrow> r = default_resources"

section \<open>Files\<close>

type_synonym path = "string list"

datatype node = NFile string | NDir | NLink string

type_synonym fs = "(path \<times> node) list"

definition fs_lookup :: "fs \<Rightarrow> path \<Rightarrow> node option" where
  "fs_lookup f p = map_of f p"

definition fs_put :: "fs \<Rightarrow> path \<Rightarrow> node \<Rightarrow> fs" where
  "fs_put f p n = (p, n) # filter (\<lambda>(q, _). q \<noteq> p) f"

text \<open>\<open>shutil.rmtree(p, ignore_errors=True)\<close>: the node at \<open>p\<close> and everything below it.\<close>

definition fs_rmtree :: "fs \<Rightarrow> path \<Rightarrow> fs" where
  "fs_rmtree f p = filter (\<lambda>(q, _). \<not> prefix p q) f"

definition fs_exists :: "fs \<Rightarrow> path \<Rightarrow> bool" where
  "fs_exists f p \<longleftrightarrow> fs_lookup f p \<noteq> None"

definition fs_is_dir :: "fs \<Rightarrow> path \<Rightarrow> bool" where
  "fs_is_dir f p \<longleftrightarrow> fs_lookup f p = Some NDir"

text \<open>\<open>sorted(p.iterdir())\<close>: the names directly below \<open>p\<close>.\<close>

definition fs_children :: "fs \<Rightarrow> path \<Rightarrow> string list" where
  "fs_children f p =
     sort (remdups (map last (filter (\<lambda>q. q \<noteq> [] \<and> butlast q = p) (map fst f))))"

fun fs_mkdirs :: "fs \<Rightarrow> path \<Rightarrow> string list \<Rightarrow> fs" where
  "fs_mkdirs f base [] = f"
| "fs_mkdirs f base (x # xs) =
     (let p = base @ [x] in fs_mkdirs (if fs_exists f p then f else fs_put f p NDir) p xs)"

text \<open>\<open>src.rename(dst)\<close> of a directory: everything below \<open>src\<close> moves below \<open>dst\<close>.\<close>

definition fs_rename :: "fs \<Rightarrow> path \<Rightarrow> path \<Rightarrow> fs" where
  "fs_rename f src dst =
     map (\<lambda>(q, n). (if prefix src q then dst @ drop (length src) q else q, n)) f"

lemma fs_lookup_put [simp]: "fs_lookup (fs_put f p n) q = (if q = p then Some n else fs_lookup f q)"
proof -
  have "map_of (filter (\<lambda>(q, _). q \<noteq> p) f) q = (if q = p then None else map_of f q)"
    by (induction f) auto
  then show ?thesis by (simp add: fs_lookup_def fs_put_def)
qed

lemma fs_lookup_rmtree [simp]:
  "fs_lookup (fs_rmtree f p) q = (if prefix p q then None else fs_lookup f q)"
  by (induction f) (auto simp: fs_lookup_def fs_rmtree_def)

section \<open>The protocols\<close>

record running_vm =
  vm_pid :: int
  vm_socket_path :: string
  vm_slot :: int
  vm_ip :: string
  vm_tap_device :: string

record snapshot_files =
  sf_vmstate :: path
  sf_memory :: path

record exec_result =
  x_exit_code :: int
  x_stdout :: string
  x_stderr :: string
  x_exit_signal :: "string option"

record vm_metrics =
  m_ram_usage_mb :: int
  m_ram_total_mb :: int
  m_disk_usage_mb :: int
  m_disk_total_mb :: int
  m_processes :: "json list"

record pool_usage =
  pu_data_used_ratio :: rat
  pu_metadata_used_ratio :: rat

type_synonym output_line = "string \<times> string"

record 'h hypervisor =
  hv_boot :: "int \<Rightarrow> int \<Rightarrow> string \<Rightarrow> resources \<Rightarrow> ('h, running_vm) act"
  hv_restore :: "int \<Rightarrow> int \<Rightarrow> string \<Rightarrow> snapshot_files \<Rightarrow> ('h, running_vm) act"
  hv_snapshot :: "string \<Rightarrow> path \<Rightarrow> ('h, snapshot_files) act"
  hv_build_template :: "int \<Rightarrow> path \<Rightarrow> ('h, snapshot_files) act"
  hv_kill :: "int \<Rightarrow> string \<Rightarrow> ('h, unit) act"
  hv_is_alive :: "int \<Rightarrow> 'h \<Rightarrow> bool"
  hv_teardown_slot :: "int \<Rightarrow> ('h, unit) act"

text \<open>\<open>mounted\<close> is a context manager: entering it yields the mount point, leaving it unmounts.\<close>

record 'h block_store =
  bs_snap :: "int \<Rightarrow> int \<Rightarrow> ('h, unit) act"
  bs_activate :: "int \<Rightarrow> string \<Rightarrow> ('h, unit) act"
  bs_deactivate :: "string \<Rightarrow> ('h, unit) act"
  bs_remove :: "int \<Rightarrow> string \<Rightarrow> ('h, unit) act"
  bs_mkfs :: "string \<Rightarrow> ('h, unit) act"
  bs_mount :: "string \<Rightarrow> bool \<Rightarrow> ('h, path) act"
  bs_unmount :: "string \<Rightarrow> ('h, unit) act"
  bs_max_volume_id :: "('h, int option) act"
  bs_usage :: "('h, pool_usage) act"

record 'h guest =
  gu_exec :: "string \<Rightarrow> string \<Rightarrow> int \<Rightarrow> ('h, exec_result) act"
  gu_stream :: "string \<Rightarrow> string \<Rightarrow> int \<Rightarrow> ('h, output_line list) act"
  gu_exec_bg :: "string \<Rightarrow> string \<Rightarrow> ('h, int) act"
  gu_upload :: "string \<Rightarrow> string \<Rightarrow> string \<Rightarrow> ('h, unit) act"
  gu_download :: "string \<Rightarrow> string \<Rightarrow> ('h, string) act"
  gu_metrics :: "string \<Rightarrow> int \<Rightarrow> ('h, vm_metrics) act"
  gu_warm :: "string \<Rightarrow> ('h, unit) act"
  gu_evict :: "string \<Rightarrow> ('h, unit) act"

record 'h object_store =
  ob_upload_dir :: "path \<Rightarrow> string \<Rightarrow> ('h, unit) act"
  ob_download_dir :: "string \<Rightarrow> path \<Rightarrow> ('h, unit) act"
  ob_delete_prefix :: "string \<Rightarrow> ('h, unit) act"

record 'h proxy =
  pr_ensure_terminal_route :: "('h, unit) act"
  pr_add_route :: "string \<Rightarrow> string \<Rightarrow> ('h, unit) act"
  pr_remove_route :: "string \<Rightarrow> ('h, unit) act"
  pr_list_route_ids :: "('h, string list) act"

record 'h os =
  os_uuid :: "'h \<Rightarrow> string \<times> 'h"
  os_now :: "'h \<Rightarrow> int \<times> 'h"
  os_token :: "int \<Rightarrow> 'h \<Rightarrow> string \<times> 'h"
  os_fs :: "'h \<Rightarrow> fs"
  os_set_fs :: "fs \<Rightarrow> 'h \<Rightarrow> 'h"
  os_free_bytes :: "path \<Rightarrow> 'h \<Rightarrow> int"
  os_disk_usage :: "path \<Rightarrow> ('h, int \<times> int) act"
  os_run :: "string \<Rightarrow> bool \<Rightarrow> ('h, string) act"
  os_build_image :: "string \<Rightarrow> ('h, string) act"
  os_keygen :: "string \<Rightarrow> path \<Rightarrow> (fs, unit) act"

record 'h host =
  h_hypervisor :: "'h hypervisor"
  h_blocks :: "'h block_store"
  h_guest :: "'h guest"
  h_objects :: "'h object_store"
  h_proxy :: "'h proxy"
  h_os :: "'h os"

end
