(* ===== verification/Clock.thy ===== *)
theory Clock
  imports Prelude
begin

text \<open>
  Moments of UTC and their ISO 8601 text, as \<open>datetime.isoformat()\<close> of Python's standard library
  writes it and \<open>datetime.fromisoformat()\<close> reads it. A moment is the number of microseconds since
  0001-01-01T00:00:00, the first moment a \<open>datetime\<close> holds; \<open>last_moment\<close> is where year 9999 ends.

  The program keeps every time as this text and compares texts, in Python and in SQL. The point of
  the theory is \<open>iso_text_less\<close>: the order of the texts is the order of the moments, although the
  fraction is left out when it is zero.
\<close>

section \<open>The calendar\<close>

definition leap :: "nat \<Rightarrow> bool" where
  "leap y \<longleftrightarrow> y mod 4 = 0 \<and> (y mod 100 \<noteq> 0 \<or> y mod 400 = 0)"

definition days_before_year :: "nat \<Rightarrow> nat" where
  "days_before_year y = (let k = y - 1 in 365 * k + k div 4 - k div 100 + k div 400)"

text \<open>The year a day number falls in, searched upwards from a year that begins before it.\<close>

lemma days_before_year_ge: "365 * y \<le> days_before_year (Suc y)"
proof -
  have "y div 100 \<le> y div 4" by (rule div_le_mono2) simp_all
  then show ?thesis by (simp add: days_before_year_def Let_def)
qed

function year_from :: "nat \<Rightarrow> nat \<Rightarrow> nat" where
  "year_from y n = (if n < days_before_year (Suc y) then y else year_from (Suc y) n)"
  by pat_completeness auto
termination
proof (relation "measure (\<lambda>(y, n). Suc n - y)")
  fix y n assume "\<not> n < days_before_year (Suc y)"
  then have "y \<le> n" using days_before_year_ge [of y] by linarith
  then show "((Suc y, n), (y, n)) \<in> measure (\<lambda>(y, n). Suc n - y)" by simp
qed simp

declare year_from.simps [simp del]

definition year_of :: "nat \<Rightarrow> nat" where
  "year_of n = year_from (Suc (n div 366)) n"

definition month_length :: "bool \<Rightarrow> nat \<Rightarrow> nat" where
  "month_length lp m = (if m = 2 then (if lp then 29 else 28) else if m \<in> {4, 6, 9, 11} then 30 else 31)"

text \<open>Month and day of the month, counted from 0, of a day of the year.\<close>

fun month_walk :: "bool \<Rightarrow> nat list \<Rightarrow> nat \<Rightarrow> nat \<times> nat" where
  "month_walk lp [] d = (12, d)"
| "month_walk lp (m # ms) d =
     (if d < month_length lp m then (m, d) else month_walk lp ms (d - month_length lp m))"

definition ymd :: "nat \<Rightarrow> nat \<times> nat \<times> nat" where
  "ymd n = (let y = year_of n; (m, d) = month_walk (leap y) [1..<13] (n - days_before_year y) in (y, m, d + 1))"

section \<open>Text\<close>

fun pad :: "nat \<Rightarrow> nat \<Rightarrow> string" where
  "pad 0 n = []"
| "pad (Suc w) n = pad w (n div 10) @ [digit_char (n mod 10)]"

definition date_text :: "nat \<Rightarrow> string" where
  "date_text n = (case ymd n of (y, m, d) \<Rightarrow> pad 4 y @ ''-'' @ pad 2 m @ ''-'' @ pad 2 d)"

definition time_text :: "nat \<Rightarrow> string" where
  "time_text s = pad 2 (s div 3600) @ '':'' @ pad 2 (s div 60 mod 60) @ '':'' @ pad 2 (s mod 60)"

definition fraction_text :: "nat \<Rightarrow> string" where
  "fraction_text us = (if us = 0 then [] else ''.'' @ pad 6 us)"

definition micros_per_day :: int where
  "micros_per_day = 86400000000"

definition last_moment :: int where
  "last_moment = 3652059 * micros_per_day"

text \<open>No \<open>datetime\<close> is outside the bounds; the text there is empty.\<close>

definition iso_text :: "int \<Rightarrow> string" where
  "iso_text t =
     (if 0 \<le> t \<and> t < last_moment
      then date_text (nat (t div micros_per_day)) @ ''T'' @ time_text (nat (t mod micros_per_day div 1000000)) @
           fraction_text (nat (t mod 1000000)) @ ''+00:00''
      else [])"

text \<open>\<open>t - timedelta(seconds=s)\<close>; None is the OverflowError of a date before year 1.\<close>

definition seconds_before :: "int \<Rightarrow> int \<Rightarrow> int option" where
  "seconds_before t s = (let r = t - s * 1000000 in if 0 \<le> r \<and> r < last_moment then Some r else None)"

text \<open>\<open>fromisoformat\<close> of a text laid out as \<open>isoformat\<close> lays it out: the moment its own clock
  shows and its distance from UTC, if it names one. Python reads other layouts of ISO 8601 too; no
  column of the program's tables holds one.\<close>

definition read_field :: "nat \<Rightarrow> string \<Rightarrow> (nat \<times> string) option" where
  "read_field w s =
     (let f = take w s in if length f = w \<and> list_all is_digit f then Some (digits_value f, drop w s) else None)"

definition read_char :: "char \<Rightarrow> string \<Rightarrow> string option" where
  "read_char c s = (case s of [] \<Rightarrow> None | x # r \<Rightarrow> if x = c then Some r else None)"

definition read_date :: "string \<Rightarrow> (nat \<times> string) option" where
  "read_date s =
     Option.bind (read_field 4 s) (\<lambda>(y, s). Option.bind (read_char (CHR ''-'') s) (\<lambda>s.
     Option.bind (read_field 2 s) (\<lambda>(m, s). Option.bind (read_char (CHR ''-'') s) (\<lambda>s.
     Option.bind (read_field 2 s) (\<lambda>(d, s).
     if 1 \<le> y \<and> 1 \<le> m \<and> m \<le> 12 \<and> 1 \<le> d \<and> d \<le> month_length (leap y) m
     then Some (days_before_year y + sum_list (map (month_length (leap y)) [1..<m]) + (d - 1), s)
     else None)))))"

definition read_hour_minute :: "string \<Rightarrow> (nat \<times> string) option" where
  "read_hour_minute s =
     Option.bind (read_field 2 s) (\<lambda>(h, s). Option.bind (read_char (CHR '':'') s) (\<lambda>s.
     Option.bind (read_field 2 s) (\<lambda>(m, s). if h < 24 \<and> m < 60 then Some (60 * h + m, s) else None)))"

definition read_time :: "string \<Rightarrow> (nat \<times> string) option" where
  "read_time s =
     Option.bind (read_hour_minute s) (\<lambda>(m, s). Option.bind (read_char (CHR '':'') s) (\<lambda>s.
     Option.bind (read_field 2 s) (\<lambda>(x, s). if x < 60 then Some (60 * m + x, s) else None)))"

definition read_fraction :: "string \<Rightarrow> (nat \<times> string) option" where
  "read_fraction s = (case read_char (CHR ''.'') s of None \<Rightarrow> Some (0, s) | Some r \<Rightarrow> read_field 6 r)"

definition read_offset :: "string \<Rightarrow> int option option" where
  "read_offset s =
     (if s = [] then Some None
      else case (read_char (CHR ''+'') s, read_char (CHR ''-'') s) of
        (Some r, _) \<Rightarrow> (case read_hour_minute r of Some (m, []) \<Rightarrow> Some (Some (int m)) | _ \<Rightarrow> None)
      | (_, Some r) \<Rightarrow> (case read_hour_minute r of Some (m, []) \<Rightarrow> Some (Some (- int m)) | _ \<Rightarrow> None)
      | _ \<Rightarrow> None)"

definition from_iso :: "string \<Rightarrow> (int \<times> int option) option" where
  "from_iso s =
     Option.bind (read_date s) (\<lambda>(n, s). Option.bind (read_char (CHR ''T'') s) (\<lambda>s.
     Option.bind (read_time s) (\<lambda>(x, s). Option.bind (read_fraction s) (\<lambda>(u, s).
     Option.bind (read_offset s) (\<lambda>off.
     Some (int n * micros_per_day + int x * 1000000 + int u, off))))))"

text \<open>The moment of UTC a text names; a naive one is taken as UTC (\<open>replace(tzinfo=UTC)\<close>).\<close>

definition moment_of :: "string \<Rightarrow> int option" where
  "moment_of s =
     map_option (\<lambda>(t, off). case off of None \<Rightarrow> t | Some m \<Rightarrow> t - m * 60000000) (from_iso s)"

section \<open>The order of fixed-width text\<close>

lemma append_less:
  fixes a b c d :: "'x::linorder list"
  assumes "length a = length b"
  shows "a @ c < b @ d \<longleftrightarrow> a < b \<or> (a = b \<and> c < d)"
  using assms by (induction a b rule: list_induct2) auto

lemma length_pad [simp]: "length (pad w n) = w"
  by (induction w arbitrary: n) simp_all

lemma digit_char_less: "m < 10 \<Longrightarrow> n < 10 \<Longrightarrow> digit_char m < digit_char n \<longleftrightarrow> m < n"
  by (simp add: digit_char_def less_char_def)

lemma pad_less: "m < n \<Longrightarrow> n < 10 ^ w \<Longrightarrow> pad w m < pad w n"
proof (induction w arbitrary: m n)
  case (Suc w)
  have n: "n div 10 < 10 ^ w" using Suc.prems(2) by (simp add: div_less_iff_less_mult)
  have le: "m div 10 \<le> n div 10" using Suc.prems(1) by (simp add: div_le_mono)
  show ?case
  proof (cases "m div 10 = n div 10")
    case True
    then have "m mod 10 < n mod 10" using Suc.prems(1) by (metis div_mult_mod_eq nat_add_left_cancel_less)
    then show ?thesis using True by (simp add: append_less digit_char_less)
  next
    case False
    then have "pad w (m div 10) < pad w (n div 10)" using le n by (intro Suc.IH) simp_all
    then show ?thesis by (simp add: append_less)
  qed
qed simp

section \<open>The order of dates\<close>

lemma days_before_year_Suc: "days_before_year (Suc (Suc k)) = days_before_year (Suc k) + (if leap (Suc k) then 366 else 365)"
proof -
  have m: "Suc k mod 400 = 0 \<Longrightarrow> Suc k mod 100 = 0" "Suc k mod 100 = 0 \<Longrightarrow> Suc k mod 4 = 0"
    by (auto simp: mod_eq_0_iff_dvd intro: dvd_trans [of 100 400] dvd_trans [of 4 100])
  have le: "k div 100 \<le> k div 4" by (rule div_le_mono2) simp_all
  then obtain p where p: "k div 4 = k div 100 + p" using le_Suc_ex by blast
  show ?thesis
    using m by (auto simp: days_before_year_def Let_def leap_def div_Suc [of k] p)
qed

lemma days_before_year_mono: "0 < x \<Longrightarrow> x \<le> y \<Longrightarrow> days_before_year x \<le> days_before_year y"
proof (induction y)
  case (Suc y)
  show ?case
  proof (cases "x = Suc y")
    case False
    then have "days_before_year x \<le> days_before_year y" using Suc by simp
    moreover obtain k where "y = Suc k" using False Suc.prems by (cases y) auto
    ultimately show ?thesis using days_before_year_Suc [of k] by simp
  qed simp
qed simp

lemma year_from_bounds:
  "days_before_year y \<le> n \<Longrightarrow>
   days_before_year (year_from y n) \<le> n \<and> n < days_before_year (Suc (year_from y n)) \<and> y \<le> year_from y n"
proof (induction y n rule: year_from.induct)
  case (1 y n)
  show ?case
  proof (cases "n < days_before_year (Suc y)")
    case True
    then show ?thesis using "1.prems" by (simp add: year_from.simps [of y])
  next
    case False
    then show ?thesis using "1.IH" by (simp add: year_from.simps [of y])
  qed
qed

lemma year_of_bounds:
  "0 < year_of n" "days_before_year (year_of n) \<le> n" "n < days_before_year (Suc (year_of n))"
proof -
  let ?k = "n div 366"
  have gen: "365 * k + a - b + c \<le> n" if "a \<le> k" "c \<le> b" "b \<le> a" "366 * k \<le> n" for a b c k :: nat
    using that by linarith
  have "days_before_year (Suc ?k) \<le> n"
    unfolding days_before_year_def Let_def diff_Suc_1
    by (rule gen) (simp_all add: div_le_mono2)
  from year_from_bounds [OF this]
  show "0 < year_of n" "days_before_year (year_of n) \<le> n" "n < days_before_year (Suc (year_of n))"
    by (simp_all add: year_of_def)
qed

lemma year_of_mono: "m \<le> n \<Longrightarrow> year_of m \<le> year_of n"
proof (rule ccontr)
  assume "m \<le> n" "\<not> year_of m \<le> year_of n"
  then have "days_before_year (Suc (year_of n)) \<le> days_before_year (year_of m)"
    by (intro days_before_year_mono) simp_all
  then show False using year_of_bounds [of n] year_of_bounds [of m] \<open>m \<le> n\<close> by linarith
qed

definition total_days :: "bool \<Rightarrow> nat list \<Rightarrow> nat" where
  "total_days lp ms = sum_list (map (month_length lp) ms)"

lemma month_length_le: "month_length lp m \<le> 31"
  by (simp add: month_length_def)

lemma month_walk_in:
  "d < total_days lp ms \<Longrightarrow> fst (month_walk lp ms d) \<in> set ms \<and> snd (month_walk lp ms d) < 31"
proof (induction ms arbitrary: d)
  case (Cons m ms)
  then show ?case using month_length_le [of lp m] by (auto simp: total_days_def)
qed (simp add: total_days_def)

lemma month_walk_mono:
  assumes "sorted_wrt (<) ms" and "d < e" and "e < total_days lp ms"
  shows "fst (month_walk lp ms d) < fst (month_walk lp ms e) \<or>
         (fst (month_walk lp ms d) = fst (month_walk lp ms e) \<and> snd (month_walk lp ms d) < snd (month_walk lp ms e))"
  using assms
proof (induction ms arbitrary: d e)
  case (Cons m ms)
  show ?case
  proof (cases "e < month_length lp m")
    case True
    then show ?thesis using Cons.prems by simp
  next
    case False
    then have e: "e - month_length lp m < total_days lp ms" using Cons.prems by (simp add: total_days_def)
    show ?thesis
    proof (cases "d < month_length lp m")
      case True
      then show ?thesis using False Cons.prems(1) month_walk_in [OF e] by simp
    next
      case d: False
      then show ?thesis using False Cons.IH [of "d - month_length lp m" "e - month_length lp m"] Cons.prems e by simp
    qed
  qed
qed (simp add: total_days_def)

lemma year_days: "total_days lp [1..<13] = (if lp then 366 else 365)"
  by (cases lp) (simp_all add: total_days_def month_length_def upt_rec)

lemma date_text_less:
  assumes "m < n" and "n < days_before_year 10000"
  shows "date_text m < date_text n"
proof -
  let ?ms = "[1..<13] :: nat list"
  have y: "year_of n < 10 ^ 4"
  proof (rule ccontr)
    assume "\<not> year_of n < 10 ^ 4"
    then have "days_before_year 10000 \<le> days_before_year (year_of n)" by (intro days_before_year_mono) simp_all
    then show False using year_of_bounds(2) [of n] assms(2) by linarith
  qed
  have le: "year_of m \<le> year_of n" using assms(1) by (intro year_of_mono) simp
  have inyear: "k - days_before_year (year_of k) < total_days (leap (year_of k)) ?ms" for k
  proof -
    obtain j where "year_of k = Suc j" using year_of_bounds(1) [of k] by (cases "year_of k") auto
    then show ?thesis
      using year_of_bounds(2,3) [of k] days_before_year_Suc [of j] unfolding year_days by auto
  qed
  obtain a b where ab: "month_walk (leap (year_of m)) ?ms (m - days_before_year (year_of m)) = (a, b)" by fastforce
  obtain c d where cd: "month_walk (leap (year_of n)) ?ms (n - days_before_year (year_of n)) = (c, d)" by fastforce
  have cd2: "c < 13" "d < 31" using month_walk_in [OF inyear [of n]] cd by simp_all
  have txt_eq: "date_text m = pad 4 (year_of m) @ ''-'' @ pad 2 a @ ''-'' @ pad 2 (b + 1)"
    "date_text n = pad 4 (year_of n) @ ''-'' @ pad 2 c @ ''-'' @ pad 2 (d + 1)"
    using ab cd by (simp_all add: date_text_def ymd_def)
  consider "year_of m < year_of n" | "year_of m = year_of n" using le by linarith
  then show ?thesis
  proof cases
    case 1
    then have "pad 4 (year_of m) < pad 4 (year_of n)" using y by (rule pad_less)
    then show ?thesis unfolding txt_eq by (subst append_less) simp_all
  next
    case 2
    have "m - days_before_year (year_of n) < n - days_before_year (year_of n)"
      using assms(1) year_of_bounds(2) [of m] 2 by (simp add: diff_less_mono)
    then have "a < c \<or> (a = c \<and> b < d)"
      using month_walk_mono [OF _ _ inyear [of n], of "m - days_before_year (year_of n)"] ab cd 2 by simp
    then have "pad 2 a < pad 2 c \<or> (a = c \<and> pad 2 (b + 1) < pad 2 (d + 1))"
      using cd2 by (auto intro!: pad_less)
    then show ?thesis unfolding txt_eq using 2 by (auto simp: append_less)
  qed
qed


section \<open>The order of the texts is the order of the moments\<close>

lemma length_date_text [simp]: "length (date_text n) = 10"
  by (simp add: date_text_def ymd_def Let_def split: prod.splits)

lemma length_time_text [simp]: "length (time_text n) = 8"
  by (simp add: time_text_def)

lemma time_text_less: "m < n \<Longrightarrow> n < 86400 \<Longrightarrow> time_text m < time_text n"
proof -
  assume less: "m < n" and n: "n < 86400"
  have d: "k div 3600 = k div 60 div 60" for k :: nat by (simp add: div_mult2_eq [symmetric])
  have q: "m div 60 \<le> n div 60" using less by (simp add: div_le_mono)
  consider "m div 60 = n div 60" "m mod 60 < n mod 60" | "m div 60 < n div 60"
    using q less by (metis div_mult_mod_eq le_neq_implies_less nat_add_left_cancel_less)
  then show ?thesis
  proof cases
    case 1
    then have "pad 2 (m mod 60) < pad 2 (n mod 60)" by (intro pad_less) simp_all
    then show ?thesis using 1 by (simp add: time_text_def d append_less)
  next
    case 2
    have h: "m div 60 div 60 \<le> n div 60 div 60" using q by (simp add: div_le_mono)
    have n24: "n div 60 div 60 < 10 ^ 2" using n by (simp add: div_less_iff_less_mult)
    show ?thesis
    proof (cases "m div 60 div 60 = n div 60 div 60")
      case True
      then have "m div 60 mod 60 < n div 60 mod 60" using 2 by (metis div_mult_mod_eq nat_add_left_cancel_less)
      then have "pad 2 (m div 60 mod 60) < pad 2 (n div 60 mod 60)" by (intro pad_less) simp_all
      then show ?thesis using True by (simp add: time_text_def d append_less)
    next
      case False
      then have "pad 2 (m div 60 div 60) < pad 2 (n div 60 div 60)" using h n24 by (intro pad_less) simp_all
      then show ?thesis by (simp add: time_text_def d append_less)
    qed
  qed
qed

lemma fraction_text_less:
  assumes "m < n" and "n < 1000000"
  shows "fraction_text m @ ''+00:00'' < fraction_text n @ ''+00:00''"
proof -
  have "pad 6 m < pad 6 n" using assms by (intro pad_less) simp_all
  then show ?thesis using assms by (simp add: fraction_text_def append_less less_char_def)
qed

text \<open>The same over natural numbers.\<close>

definition day_micros :: nat where
  "day_micros = 86400000000"

lemma micros_per_day_nat: "micros_per_day = int day_micros"
  by (simp add: micros_per_day_def day_micros_def)

lemma last_moment_nat: "last_moment = int (days_before_year 10000) * int day_micros"
  by (simp add: last_moment_def micros_per_day_nat days_before_year_def)

lemma iso_text_nat:
  "0 \<le> t \<Longrightarrow> t < last_moment \<Longrightarrow> iso_text t = date_text (nat t div day_micros) @ ''T'' @ time_text (nat t mod day_micros div 1000000) @
     fraction_text (nat t mod 1000000) @ ''+00:00''"
proof -
  assume "0 \<le> t" "t < last_moment"
  moreover have "0 \<le> t mod int day_micros" by (simp add: day_micros_def)
  ultimately show ?thesis by (simp add: iso_text_def micros_per_day_nat nat_div_distrib nat_mod_distrib)
qed

lemma iso_text_mono:
  assumes "0 \<le> s" and "s < t" and "t < last_moment"
  shows "iso_text s < iso_text t"
proof -
  let ?m = "nat s" and ?n = "nat t" and ?D = day_micros
  note iso = iso_text_nat [OF assms(1) less_trans [OF assms(2,3)]]
    iso_text_nat [OF order_trans [OF assms(1) less_imp_le [OF assms(2)]] assms(3)]
  have less: "?m < ?n" using assms by simp
  have D: "?D = 86400 * 1000000" "0 < ?D" by (simp_all add: day_micros_def)
  have n: "?n < days_before_year 10000 * ?D" using assms by (simp add: last_moment_nat nat_less_iff)
  have q: "?m div ?D \<le> ?n div ?D" using less by (intro div_le_mono less_imp_le)
  show ?thesis
  proof (cases "?m div ?D = ?n div ?D")
    case False
    have "date_text (?m div ?D) < date_text (?n div ?D)"
    proof (rule date_text_less)
      show "?m div ?D < ?n div ?D" using False q by (rule le_neq_implies_less [rotated])
      show "?n div ?D < days_before_year 10000" using n D(2) by (simp only: div_less_iff_less_mult)
    qed
    then show ?thesis by (simp add: iso append_less)
  next
    case True
    let ?x = "?m mod ?D" and ?y = "?n mod ?D"
    have xy: "?x < ?y" using less True by (metis div_mult_mod_eq nat_add_left_cancel_less)
    have frac: "k mod 1000000 = k mod ?D mod 1000000" for k :: nat unfolding D(1) by (simp add: mod_mod_cancel)
    have sec: "?y div 1000000 < 86400" using D by (simp add: div_less_iff_less_mult)
    show ?thesis
    proof (cases "?x div 1000000 = ?y div 1000000")
      case eq: True
      then have "?x mod 1000000 < ?y mod 1000000" using xy by (metis div_mult_mod_eq nat_add_left_cancel_less)
      then have "fraction_text (?m mod 1000000) @ ''+00:00'' < fraction_text (?n mod 1000000) @ ''+00:00''"
        unfolding frac [of ?m] frac [of ?n] by (intro fraction_text_less) simp_all
      then show ?thesis using True eq by (simp add: iso append_less)
    next
      case neq: False
      then have "?x div 1000000 < ?y div 1000000" using xy by (simp add: div_le_mono le_neq_implies_less)
      then have "time_text (?x div 1000000) < time_text (?y div 1000000)" using sec by (rule time_text_less)
      then show ?thesis using True by (simp add: iso append_less)
    qed
  qed
qed

lemma iso_text_less:
  assumes "0 \<le> s" "s < last_moment" and "0 \<le> t" "t < last_moment"
  shows "iso_text s < iso_text t \<longleftrightarrow> s < t"
  using iso_text_mono [of s t] iso_text_mono [of t s] assms
  by (metis linorder_less_linear order_less_asym)


section \<open>Reading a moment back\<close>

lemma digits_pad: "list_all is_digit (pad w n)"
  by (induction w arbitrary: n) (simp_all add: digit_char_is_digit)

lemma value_pad: "n < 10 ^ w \<Longrightarrow> digits_value (pad w n) = n"
proof (induction w arbitrary: n)
  case (Suc w)
  then have "n div 10 < 10 ^ w" by (simp add: div_less_iff_less_mult)
  then show ?case using Suc.IH by simp
qed (simp add: digits_value_def)

lemma read_field_pad [simp]: "n < 10 ^ w \<Longrightarrow> read_field w (pad w n @ s) = Some (n, s)"
  by (simp add: read_field_def digits_pad value_pad)

lemma read_char_Cons [simp]: "read_char c (x # s) = (if x = c then Some s else None)"
  by (simp add: read_char_def)

lemma month_walk_split:
  assumes "d < total_days lp [k..<13]" and "month_walk lp [k..<13] d = (m, r)"
  shows "k \<le> m \<and> m < 13 \<and> d = total_days lp [k..<m] + r \<and> r < month_length lp m"
  using assms
proof (induction "13 - k" arbitrary: k d)
  case (Suc x)
  have k: "k < 13" using Suc.hyps(2) by linarith
  have u: "[k..<13] = k # [Suc k..<13]" using k by (simp add: upt_rec)
  show ?case
  proof (cases "d < month_length lp k")
    case True
    then show ?thesis using Suc.prems k by (simp add: u total_days_def)
  next
    case False
    have "Suc k \<le> m \<and> m < 13 \<and> d - month_length lp k = total_days lp [Suc k..<m] + r \<and> r < month_length lp m"
    proof (rule Suc.hyps(1))
      show "x = 13 - Suc k" using Suc.hyps(2) by linarith
      show "d - month_length lp k < total_days lp [Suc k..<13]"
        using Suc.prems(1) False by (simp add: u total_days_def)
      show "month_walk lp [Suc k..<13] (d - month_length lp k) = (m, r)" using Suc.prems(2) False by (simp add: u)
    qed
    moreover have "k < m \<Longrightarrow> [k..<m] = k # [Suc k..<m]" by (simp add: upt_rec)
    ultimately show ?thesis using False by (auto simp: total_days_def)
  qed
qed (simp add: total_days_def)

lemma year_of_less: "n < days_before_year 10000 \<Longrightarrow> year_of n < 10000"
proof (rule ccontr)
  assume n: "n < days_before_year 10000" and "\<not> year_of n < 10000"
  then have "days_before_year 10000 \<le> days_before_year (year_of n)" by (intro days_before_year_mono) simp_all
  then show False using year_of_bounds(2) [of n] n by linarith
qed

lemma day_in_year: "k - days_before_year (year_of k) < total_days (leap (year_of k)) [1..<13]"
proof -
  obtain j where "year_of k = Suc j" using year_of_bounds(1) [of k] by (cases "year_of k") auto
  then show ?thesis
    using year_of_bounds(2,3) [of k] days_before_year_Suc [of j] unfolding year_days by auto
qed

lemma read_date_text:
  assumes "n < days_before_year 10000"
  shows "read_date (date_text n @ s) = Some (n, s)"
proof -
  let ?y = "year_of n"
  obtain m r where mr: "month_walk (leap ?y) [1..<13] (n - days_before_year ?y) = (m, r)" by fastforce
  have w: "1 \<le> m" "m < 13" "n - days_before_year ?y = total_days (leap ?y) [1..<m] + r" "r < month_length (leap ?y) m"
    using month_walk_split [OF day_in_year mr] by simp_all
  have t: "date_text n = pad 4 ?y @ ''-'' @ pad 2 m @ ''-'' @ pad 2 (r + 1)"
    using mr by (simp add: date_text_def ymd_def)
  have b: "?y < 10 ^ 4" "m < 10 ^ 2" "r + 1 < 10 ^ 2"
    using year_of_less [OF assms] w(2,4) month_length_le [of "leap ?y" m] by simp_all
  have "n = days_before_year ?y + sum_list (map (month_length (leap ?y)) [1..<m]) + r"
    using w(3) year_of_bounds(2) [of n] by (simp add: total_days_def)
  then show ?thesis
    using year_of_bounds(1) [of n] w b unfolding t read_date_def append_assoc
    by (simp add: Suc_le_eq)
qed

lemma read_time_text:
  assumes "x < 86400"
  shows "read_time (time_text x @ s) = Some (x, s)"
proof -
  have h: "x div 3600 < 24" using assms by (simp add: div_less_iff_less_mult)
  have "x div 60 = 60 * (x div 3600) + x div 60 mod 60" by (simp add: div_mult2_eq [of x 60 60, simplified])
  then have "x = 60 * (60 * (x div 3600) + x div 60 mod 60) + x mod 60" by simp
  then show ?thesis
    using h by (simp add: read_time_def read_hour_minute_def time_text_def)
qed

lemma read_fraction_text:
  "u < 1000000 \<Longrightarrow> read_fraction (fraction_text u @ ''+00:00'') = Some (u, ''+00:00'')"
  by (simp add: read_fraction_def fraction_text_def)

lemma read_utc: "read_offset ''+00:00'' = Some (Some 0)"
  by code_simp

lemma moment_of_iso_text:
  assumes "0 \<le> t" "t < last_moment"
  shows "moment_of (iso_text t) = Some t"
proof -
  let ?n = "nat t" and ?D = day_micros
  have D: "?D = 86400 * 1000000" by (simp add: day_micros_def)
  have "?n < days_before_year 10000 * ?D" using assms by (simp add: last_moment_nat nat_less_iff)
  then have d: "?n div ?D < days_before_year 10000" by (simp add: D div_less_iff_less_mult)
  have x: "?n mod ?D div 1000000 < 86400" by (simp add: D div_less_iff_less_mult)
  have "?n mod 1000000 = ?n mod ?D mod 1000000" unfolding D by (simp add: mod_mod_cancel)
  then have "?n = ?n div ?D * ?D + (?n mod ?D div 1000000 * 1000000 + ?n mod 1000000)" by simp
  then have "int ?n = int (?n div ?D * ?D + (?n mod ?D div 1000000 * 1000000 + ?n mod 1000000))" by (rule arg_cong)
  then have "t = int (?n div ?D) * int ?D + int (?n mod ?D div 1000000) * 1000000 + int (?n mod 1000000)"
    unfolding int_nat_eq of_nat_add of_nat_mult of_nat_numeral using assms(1) by simp
  then show ?thesis
    by (simp add: moment_of_def from_iso_def iso_text_nat [OF assms] micros_per_day_nat read_date_text [OF d] read_time_text [OF x]
        read_fraction_text read_utc)
qed


text \<open>A time as the program writes it.\<close>

definition stamped :: "string \<Rightarrow> bool" where
  "stamped s \<longleftrightarrow> (case moment_of s of None \<Rightarrow> False | Some t \<Rightarrow> 0 \<le> t \<and> t < last_moment \<and> s = iso_text t)"

lemma stamped_iso_text: "0 \<le> t \<Longrightarrow> t < last_moment \<Longrightarrow> stamped (iso_text t)"
  by (simp add: stamped_def moment_of_iso_text)

lemma stamped_less:
  "stamped s \<Longrightarrow> 0 \<le> t \<Longrightarrow> t < last_moment \<Longrightarrow> s < iso_text t \<longleftrightarrow> the (moment_of s) < t"
  by (auto simp: stamped_def iso_text_less split: option.splits)

end
