(* ===== verification/World.thy ===== *)
theory World
  imports Scopes Allocator Host Clock
begin

text \<open>
  The state of the process and of its database. A table is the list of its rows in insertion
  order; beside the tables the state holds what the services keep in memory: the slot allocator,
  the set of busy computers, the background tasks, the metric increments, the alerts and the
  reaper's failure counter; and the machine's state \<^typ>\<open>'h\<close>, which only host operations change.

  One statement of SQL is one step (the connection is in autocommit, src/src/mshkn/db/__init__.py).
  JSON columns hold the JSON value itself. An INSERT whose primary key is taken raises the
  driver's IntegrityError and changes nothing.
\<close>

section \<open>Configuration\<close>

text \<open>The fields of src/src/mshkn/config.py the services read.\<close>

record config =
  cf_checkpoint_local_dir :: path
  cf_checkpoint_staging_dir :: path
  cf_idle_timeout_seconds :: int
  cf_checkpoint_retention_count :: int
  cf_exec_log_retention_seconds :: int
  cf_relay_timeout_seconds :: int
  cf_relay_body_bytes :: int
  cf_ssh_key_path :: path

section \<open>Background tasks\<close>

text \<open>
  src/src/mshkn/runtime.py, \<open>BackgroundTasks\<close>. A coroutine handed to \<open>spawn\<close> is named by what it
  will run. The registry keeps every outstanding task under a number (its identity) and the
  number of the task each key was last spawned with.
\<close>

datatype task =
    TPersistAndUpload string string bool
  | TClearStaging path
  | TDrainDeferred account string
  | TCallback string json
  | TRecipeBuild string string string int
  | TRelayRun relay_job
  | TIngressAction account string json
  | TReaper

record background =
  bg_tasks :: "(nat \<times> string \<times> task) list"
  bg_keyed :: "(string \<times> nat) list"
  bg_next :: nat

definition no_tasks :: background where
  "no_tasks = \<lparr>bg_tasks = [], bg_keyed = [], bg_next = 0\<rparr>"

definition bg_spawn :: "task \<Rightarrow> string \<Rightarrow> string option \<Rightarrow> background \<Rightarrow> background" where
  "bg_spawn t name key b =
     \<lparr>bg_tasks = bg_tasks b @ [(bg_next b, name, t)],
      bg_keyed = (case key of None \<Rightarrow> bg_keyed b
                  | Some k \<Rightarrow> (k, bg_next b) # filter (\<lambda>(k', _). k' \<noteq> k) (bg_keyed b)),
      bg_next = Suc (bg_next b)\<rparr>"

text \<open>\<open>_on_done\<close>: the key is dropped only while it still names this task.\<close>

definition bg_done :: "nat \<Rightarrow> string option \<Rightarrow> background \<Rightarrow> background" where
  "bg_done n key b =
     b\<lparr>bg_tasks := filter (\<lambda>(m, _). m \<noteq> n) (bg_tasks b),
       bg_keyed := (case key of None \<Rightarrow> bg_keyed b
                    | Some k \<Rightarrow> if map_of (bg_keyed b) k = Some n
                                then filter (\<lambda>(k', _). k' \<noteq> k) (bg_keyed b) else bg_keyed b)\<rparr>"

text \<open>\<open>cancel\<close>: the task registered under the key is taken out and has finished afterwards.\<close>

definition bg_cancel :: "string \<Rightarrow> background \<Rightarrow> background" where
  "bg_cancel key b =
     (case map_of (bg_keyed b) key of
        None \<Rightarrow> b
      | Some n \<Rightarrow> b\<lparr>bg_tasks := filter (\<lambda>(m, _). m \<noteq> n) (bg_tasks b),
                    bg_keyed := filter (\<lambda>(k', _). k' \<noteq> key) (bg_keyed b)\<rparr>)"

section \<open>The state\<close>

record 'h world =
  w_host :: 'h
  w_accounts :: "account list"
  w_api_keys :: "api_key list"
  w_computers :: "computer list"
  w_checkpoints :: "checkpoint list"
  w_deferred :: "deferred_request list"
  w_exec_logs :: "exec_log list"
  w_recipes :: "recipe list"
  w_bare_template :: "(string \<times> string) option"
  w_ingress_rules :: "ingress_rule list"
  w_ingress_logs :: "ingress_log list"
  w_relay_jobs :: "relay_job list"
  w_alloc :: allocator
  w_busy :: "string set"
  w_tasks :: background
  w_gauge :: int
  w_metrics :: "(string \<times> string) list"
  w_alerts :: "alert list"
  w_reaper_failures :: nat
  w_last_failure :: "string option"

type_synonym ('h, 'a) st = "('h world, 'a) act"

text \<open>
  The network as the services see it: the HTTP client they are given (a POST of a JSON body, a
  streamed request), the name resolver and the sleep between attempts, each of which may raise. A
  streamed response is its status, its headers and the chunks of its body in order, and the
  exception that ends the body if it is not the end of it. Bytes are characters.
\<close>

record http_request =
  hq_method :: string
  hq_url :: string
  hq_headers :: "(string \<times> string) list"
  hq_content :: "string option"
  hq_timeout_seconds :: int

record http_stream =
  hs_status :: int
  hs_headers :: "(string \<times> string) list"
  hs_chunks :: "string list"
  hs_end :: "exc option"

record 'h web =
  wb_post :: "string \<Rightarrow> json \<Rightarrow> ('h, int) act"
  wb_stream :: "http_request \<Rightarrow> ('h, http_stream) act"
  wb_resolve :: "string \<Rightarrow> ('h, string list) act"
  wb_sleep :: "int \<Rightarrow> ('h, unit) act"

text \<open>
  Functions of libraries of which nothing is assumed: the digests of \<^verbatim>\<open>hashlib\<close> (hex text of text),
  \<open>json.loads\<close> (None is its JSONDecodeError) and \<open>json.dumps\<close>, \<open>bytes.decode(errors="replace")\<close>,
  and the Starlark interpreter (a package): running a source, which gives its global names, and
  evaluating an expression after it.
\<close>

record libraries =
  lib_loads :: "string \<Rightarrow> json option"
  lib_dumps :: "json \<Rightarrow> string"
  lib_decode :: "string \<Rightarrow> string"
  lib_starlark_exec :: "string \<Rightarrow> exc + string list"
  lib_starlark_eval :: "string \<Rightarrow> string \<Rightarrow> exc + json"

text \<open>What every service is built with: the configuration, the host, the network, the libraries and
  the element \<open>set.pop\<close> takes.\<close>

record 'h env =
  e_config :: config
  e_host :: "'h host"
  e_web :: "'h web"
  e_lib :: libraries
  e_pop :: "int set \<Rightarrow> int"
  e_sha256 :: "string \<Rightarrow> string"
  e_md5 :: "string \<Rightarrow> string"

section \<open>Steps on the parts of the state\<close>

definition hostop :: "('h, 'a) act \<Rightarrow> ('h, 'a) st" where
  "hostop f = (\<lambda>w. case f (w_host w) of (r, h) \<Rightarrow> (r, w\<lparr>w_host := h\<rparr>))"

definition allocop :: "(allocator, 'a) act \<Rightarrow> ('h, 'a) st" where
  "allocop f = (\<lambda>w. case f (w_alloc w) of (r, a) \<Rightarrow> (r, w\<lparr>w_alloc := a\<rparr>))"

definition uuid4_hex :: "'h env \<Rightarrow> ('h, string) st" where
  "uuid4_hex E = hostop (\<lambda>h. case os_uuid (h_os (e_host E)) h of (s, h') \<Rightarrow> (Inr s, h'))"

text \<open>\<open>datetime.now(UTC)\<close> and its \<open>isoformat()\<close>; \<open>secrets.token_urlsafe(n)\<close>.\<close>

definition utc_moment :: "'h env \<Rightarrow> ('h, int) st" where
  "utc_moment E = hostop (\<lambda>h. case os_now (h_os (e_host E)) h of (t, h') \<Rightarrow> (Inr t, h'))"

definition utcnow :: "'h env \<Rightarrow> ('h, string) st" where
  "utcnow E = hostop (\<lambda>h. case os_now (h_os (e_host E)) h of (t, h') \<Rightarrow> (Inr (iso_text t), h'))"

definition token_urlsafe :: "'h env \<Rightarrow> int \<Rightarrow> ('h, string) st" where
  "token_urlsafe E n = hostop (\<lambda>h. case os_token (h_os (e_host E)) n h of (s, h') \<Rightarrow> (Inr s, h'))"

definition read_fs :: "'h env \<Rightarrow> ('h, fs) st" where
  "read_fs E = reads (\<lambda>w. os_fs (h_os (e_host E)) (w_host w))"

definition change_fs :: "'h env \<Rightarrow> (fs \<Rightarrow> fs) \<Rightarrow> ('h, unit) st" where
  "change_fs E g =
     writes (\<lambda>w. w\<lparr>w_host := os_set_fs (h_os (e_host E)) (g (os_fs (h_os (e_host E)) (w_host w))) (w_host w)\<rparr>)"

definition rmtree :: "'h env \<Rightarrow> path \<Rightarrow> ('h, unit) st" where
  "rmtree E p = change_fs E (\<lambda>f. fs_rmtree f p)"

definition fsop :: "'h env \<Rightarrow> (fs, 'a) act \<Rightarrow> ('h, 'a) st" where
  "fsop E m = (\<lambda>w. case m (os_fs (h_os (e_host E)) (w_host w)) of
                 (r, f) \<Rightarrow> (r, w\<lparr>w_host := os_set_fs (h_os (e_host E)) f (w_host w)\<rparr>))"

definition spawn :: "task \<Rightarrow> string \<Rightarrow> string option \<Rightarrow> ('h, unit) st" where
  "spawn t name key = writes (\<lambda>w. w\<lparr>w_tasks := bg_spawn t name key (w_tasks w)\<rparr>)"

definition cancel_task :: "string \<Rightarrow> ('h, unit) st" where
  "cancel_task key = writes (\<lambda>w. w\<lparr>w_tasks := bg_cancel key (w_tasks w)\<rparr>)"

definition inc_metric :: "string \<Rightarrow> string \<Rightarrow> ('h, unit) st" where
  "inc_metric name label = writes (\<lambda>w. w\<lparr>w_metrics := w_metrics w @ [(name, label)]\<rparr>)"

text \<open>\<open>timed\<close> of src/src/mshkn/observability/metrics.py: an exception is counted by kind and raised
  on; an interruption is not counted. Durations are not modelled.\<close>

definition error_kind :: "exc \<Rightarrow> string option" where
  "error_kind e =
     (if is_host_error e then Some ''host''
      else if is_mshkn_error e then Some ''domain''
      else if is_exception e then Some ''unexpected'' else None)"

definition timed :: "string \<Rightarrow> ('h, 'a) st \<Rightarrow> ('h, 'a) st" where
  "timed op m =
     catchE m (\<lambda>e. seqE (case error_kind e of
                            None \<Rightarrow> ret ()
                          | Some k \<Rightarrow> inc_metric ''mshkn_operation_errors_total'' (op @ '','' @ k))
                        (raise e))"

lemma wp_hostop [wp_simps]:
  "wp (hostop f) Q R = (\<lambda>w. wp f (\<lambda>a h. Q a (w\<lparr>w_host := h\<rparr>)) (\<lambda>e h. R e (w\<lparr>w_host := h\<rparr>)) (w_host w))"
  by (auto simp: wp_def hostop_def fun_eq_iff split: prod.splits sum.splits)

lemma wp_allocop [wp_simps]:
  "wp (allocop f) Q R =
     (\<lambda>w. wp f (\<lambda>a h. Q a (w\<lparr>w_alloc := h\<rparr>)) (\<lambda>e h. R e (w\<lparr>w_alloc := h\<rparr>)) (w_alloc w))"
  by (auto simp: wp_def allocop_def fun_eq_iff split: prod.splits sum.splits)

lemma wp_fsop [wp_simps]:
  "wp (fsop E m) Q R =
     (\<lambda>w. wp m (\<lambda>a f. Q a (w\<lparr>w_host := os_set_fs (h_os (e_host E)) f (w_host w)\<rparr>))
             (\<lambda>e f. R e (w\<lparr>w_host := os_set_fs (h_os (e_host E)) f (w_host w)\<rparr>))
             (os_fs (h_os (e_host E)) (w_host w)))"
  by (auto simp: wp_def fsop_def fun_eq_iff split: prod.splits sum.splits)

text \<open>A host operation of which nothing is known: any value, any exception, any machine state.\<close>

lemma wp_any: "(\<And>a h. Q a h) \<Longrightarrow> (\<And>e h. R e h) \<Longrightarrow> wp f Q R w"
  by (auto simp: wp_def split: prod.splits sum.splits)

lemma keeps_hostop: "(\<And>w h. I w \<Longrightarrow> I (w\<lparr>w_host := h\<rparr>)) \<Longrightarrow> keeps I (hostop f)"
  by (auto simp: keeps_def hostop_def split: prod.splits)

lemma wp_timed [wp_simps]:
  "wp (timed op m) Q R =
     wp m Q (\<lambda>e w. R e (case error_kind e of None \<Rightarrow> w
       | Some k \<Rightarrow> w\<lparr>w_metrics := w_metrics w @ [(''mshkn_operation_errors_total'', op @ '','' @ k)]\<rparr>))"
proof -
  have "wp (seqE (case error_kind e of None \<Rightarrow> ret ()
             | Some k \<Rightarrow> inc_metric ''mshkn_operation_errors_total'' (op @ '','' @ k)) (raise e)) Q R =
        (\<lambda>w. R e (case error_kind e of None \<Rightarrow> w
       | Some k \<Rightarrow> w\<lparr>w_metrics := w_metrics w @ [(''mshkn_operation_errors_total'', op @ '','' @ k)]\<rparr>))" for e
    by (cases "error_kind e") (simp_all add: wp_simps inc_metric_def)
  then show ?thesis by (simp add: timed_def wp_catchE)
qed

lemma returns_timed: "returns P m \<Longrightarrow> returns P (timed op m)"
  unfolding timed_def by (intro returns_catch returns_seq returns_raise)

end
