(* ===== verification/Db.thy ===== *)
theory Db
  imports World
begin

text \<open>
  The query functions of src/src/mshkn/db, one group per table. \<open>ORDER BY created_at DESC\<close> is
  \<^const>\<open>order_desc\<close> on the ISO text of the column; rows with equal times keep insertion order.
  The reads are functions of the state, the writes are actions; the section at the end collects
  what the services' proofs use of them.
\<close>

definition integrity_error :: exc where
  "integrity_error = PyError ''IntegrityError'' ''UNIQUE constraint failed''"

text \<open>\<open>INSERT INTO t\<close>, with the table's keys as the list of functions that must stay unique.\<close>

definition insert_row ::
  "('r \<Rightarrow> 'r \<Rightarrow> bool) \<Rightarrow> ('h world \<Rightarrow> 'r list) \<Rightarrow> (('r list \<Rightarrow> 'r list) \<Rightarrow> 'h world \<Rightarrow> 'h world) \<Rightarrow>
   'r \<Rightarrow> ('h, unit) st" where
  "insert_row clash get upd r =
     (\<lambda>w. if list_ex (clash r) (get w) then (Inl integrity_error, w)
          else (Inr (), upd (\<lambda>rows. rows @ [r]) w))"

lemma wp_insert_row [wp_simps]:
  "wp (insert_row clash get upd r) Q R =
     (\<lambda>w. if list_ex (clash r) (get w) then R integrity_error w else Q () (upd (\<lambda>rows. rows @ [r]) w))"
  by (simp add: wp_def insert_row_def fun_eq_iff)

definition find_row :: "('r \<Rightarrow> bool) \<Rightarrow> 'r list \<Rightarrow> 'r option" where
  "find_row P rows = find P rows"

section \<open>accounts and api_keys\<close>

definition insert_account :: "account \<Rightarrow> ('h, unit) st" where
  "insert_account a =
     insert_row (\<lambda>r s. a_id r = a_id s \<or> a_api_key r = a_api_key s) w_accounts w_accounts_update a"

definition get_account_by_id :: "string \<Rightarrow> 'h world \<Rightarrow> account option" where
  "get_account_by_id i w = find (\<lambda>a. a_id a = i) (w_accounts w)"

definition get_account_by_key :: "string \<Rightarrow> 'h world \<Rightarrow> account option" where
  "get_account_by_key k w = find (\<lambda>a. a_api_key a = k) (w_accounts w)"

definition list_accounts :: "'h world \<Rightarrow> account list" where
  "list_accounts w = sort_key a_id (w_accounts w)"

definition insert_api_key :: "api_key \<Rightarrow> ('h, unit) st" where
  "insert_api_key k =
     insert_row (\<lambda>r s. k_id r = k_id s \<or> k_secret r = k_secret s) w_api_keys w_api_keys_update k"

definition get_api_key :: "string \<Rightarrow> 'h world \<Rightarrow> api_key option" where
  "get_api_key i w = find (\<lambda>k. k_id k = i) (w_api_keys w)"

definition get_api_key_by_secret :: "string \<Rightarrow> 'h world \<Rightarrow> api_key option" where
  "get_api_key_by_secret s w = find (\<lambda>k. k_secret k = s) (w_api_keys w)"

definition list_api_keys_by_account :: "string \<Rightarrow> 'h world \<Rightarrow> api_key list" where
  "list_api_keys_by_account a w =
     sort_key k_created_at (sort_key k_id (filter (\<lambda>k. k_account_id k = a) (w_api_keys w)))"

definition delete_api_key :: "string \<Rightarrow> ('h, unit) st" where
  "delete_api_key i = writes (w_api_keys_update (filter (\<lambda>k. k_id k \<noteq> i)))"

section \<open>computers\<close>

definition insert_computer :: "computer \<Rightarrow> ('h, unit) st" where
  "insert_computer c = insert_row (\<lambda>r s. c_id r = c_id s) w_computers w_computers_update c"

definition get_computer :: "string \<Rightarrow> 'h world \<Rightarrow> computer option" where
  "get_computer i w = find (\<lambda>c. c_id c = i) (w_computers w)"

definition list_all_computers :: "'h world \<Rightarrow> computer list" where
  "list_all_computers w = filter (\<lambda>c. c_status c \<noteq> Destroyed) (w_computers w)"

definition count_active_computers :: "'h world \<Rightarrow> int" where
  "count_active_computers w = int (length (filter (\<lambda>c. c_status c \<noteq> Destroyed) (w_computers w)))"

definition count_active_computers_by_account :: "string \<Rightarrow> 'h world \<Rightarrow> int" where
  "count_active_computers_by_account a w =
     int (length (filter (\<lambda>c. c_account_id c = a \<and> c_status c \<noteq> Destroyed) (w_computers w)))"

definition update_computer_status :: "string \<Rightarrow> computer_status \<Rightarrow> ('h, unit) st" where
  "update_computer_status i s =
     writes (w_computers_update (update_where (\<lambda>c. c_id c = i) (c_status_update (\<lambda>_. s))))"

text \<open>The number of rows changed is what says who won.\<close>

definition claim_teardown :: "string \<Rightarrow> ('h, bool) st" where
  "claim_teardown i =
     (let hit = (\<lambda>c. c_id c = i \<and> c_status c = Running) in
      bindE (reads (\<lambda>w. length (filter hit (w_computers w)))) (\<lambda>rowcount.
      seqE (writes (w_computers_update (update_where hit (c_status_update (\<lambda>_. Destroying)))))
           (ret (rowcount = 1))))"

definition update_last_exec_at :: "string \<Rightarrow> string \<Rightarrow> ('h, unit) st" where
  "update_last_exec_at i t =
     writes (w_computers_update (update_where (\<lambda>c. c_id c = i) (c_last_exec_at_update (\<lambda>_. Some t))))"

definition get_active_computer_for_label :: "string \<Rightarrow> string \<Rightarrow> 'h world \<Rightarrow> computer option" where
  "get_active_computer_for_label account_id label w =
     find (\<lambda>c. c_account_id c = account_id \<and> c_status c = Running \<and>
               list_ex (\<lambda>ck. c_source_checkpoint_id c = Some (ck_id ck) \<and> ck_label ck = Some label)
                 (w_checkpoints w))
       (w_computers w)"

section \<open>checkpoints\<close>

definition insert_checkpoint :: "checkpoint \<Rightarrow> ('h, unit) st" where
  "insert_checkpoint c = insert_row (\<lambda>r s. ck_id r = ck_id s) w_checkpoints w_checkpoints_update c"

definition get_checkpoint :: "string \<Rightarrow> 'h world \<Rightarrow> checkpoint option" where
  "get_checkpoint i w = find (\<lambda>c. ck_id c = i) (w_checkpoints w)"

definition list_checkpoints_by_account :: "string \<Rightarrow> string option \<Rightarrow> 'h world \<Rightarrow> checkpoint list" where
  "list_checkpoints_by_account account_id label w =
     order_desc ck_created_at
       (filter (\<lambda>c. ck_account_id c = account_id \<and>
                    (case label of None \<Rightarrow> True | Some l \<Rightarrow> ck_label c = Some l)) (w_checkpoints w))"

definition get_latest_checkpoint_for_computer :: "string \<Rightarrow> 'h world \<Rightarrow> checkpoint option" where
  "get_latest_checkpoint_for_computer computer_id w =
     first_row (order_desc ck_created_at
       (filter (\<lambda>c. ck_computer_id c = Some computer_id) (w_checkpoints w)))"

definition get_max_checkpoint_volume_id :: "'h world \<Rightarrow> int option" where
  "get_max_checkpoint_volume_id w = max_of (List.map_filter ck_thin_volume_id (w_checkpoints w))"

definition delete_checkpoint :: "string \<Rightarrow> ('h, unit) st" where
  "delete_checkpoint i = writes (w_checkpoints_update (filter (\<lambda>c. ck_id c \<noteq> i)))"

text \<open>Row 1 of the window partitioned by label, newest first.\<close>

definition newest_of_label :: "checkpoint list \<Rightarrow> string option \<Rightarrow> checkpoint option" where
  "newest_of_label rows label = first_row (order_desc ck_created_at (filter (\<lambda>c. ck_label c = label) rows))"

definition list_prunable_checkpoints :: "string \<Rightarrow> int \<Rightarrow> 'h world \<Rightarrow> checkpoint list" where
  "list_prunable_checkpoints account_id keep_count w =
     (let rows = filter (\<lambda>c. ck_account_id c = account_id) (w_checkpoints w);
          candidates = order_desc ck_created_at
            (filter (\<lambda>c. \<not> ck_pinned c \<and> (ck_label c = None \<or> newest_of_label rows (ck_label c) \<noteq> Some c)) rows)
      in rev (drop (nat keep_count) candidates))"

definition list_account_ids_with_checkpoints :: "'h world \<Rightarrow> string list" where
  "list_account_ids_with_checkpoints w = remdups (map ck_account_id (w_checkpoints w))"

section \<open>deferred_queue\<close>

definition insert_deferred :: "string \<Rightarrow> string \<Rightarrow> string \<Rightarrow> json \<Rightarrow> string \<Rightarrow> ('h, unit) st" where
  "insert_deferred i label account_id payload created_at =
     insert_row (\<lambda>r s. d_id r = d_id s) w_deferred w_deferred_update
       \<lparr>d_id = i, d_label = label, d_account_id = account_id, d_request_payload = payload,
        d_created_at = created_at\<rparr>"

definition claim_deferred_by_label :: "string \<Rightarrow> ('h, deferred_request list) st" where
  "claim_deferred_by_label label =
     bindE (reads (\<lambda>w. filter (\<lambda>d. d_label d = label) (w_deferred w))) (\<lambda>items.
     seqE (writes (w_deferred_update (filter (\<lambda>d. d_label d \<noteq> label))))
          (ret (sort_key d_created_at (sort_key d_id items))))"

section \<open>exec_log\<close>

definition insert_exec_log :: "exec_log \<Rightarrow> ('h, unit) st" where
  "insert_exec_log l = insert_row (\<lambda>r s. el_computer_id r = el_computer_id s) w_exec_logs w_exec_logs_update l"

definition set_exec_log_checkpoint :: "string \<Rightarrow> string \<Rightarrow> ('h, unit) st" where
  "set_exec_log_checkpoint computer_id checkpoint_id =
     writes (w_exec_logs_update (update_where (\<lambda>l. el_computer_id l = computer_id)
       (el_created_checkpoint_id_update (\<lambda>_. Some checkpoint_id))))"

definition get_exec_log :: "string \<Rightarrow> 'h world \<Rightarrow> exec_log option" where
  "get_exec_log computer_id w = find (\<lambda>l. el_computer_id l = computer_id) (w_exec_logs w)"

definition delete_exec_logs_before :: "string \<Rightarrow> ('h, int) st" where
  "delete_exec_logs_before cutoff =
     bindE (reads (\<lambda>w. int (length (filter (\<lambda>l. el_created_at l < cutoff) (w_exec_logs w))))) (\<lambda>n.
     seqE (writes (w_exec_logs_update (filter (\<lambda>l. \<not> el_created_at l < cutoff)))) (ret n))"

section \<open>recipes\<close>

definition insert_recipe :: "recipe \<Rightarrow> ('h, unit) st" where
  "insert_recipe r =
     insert_row (\<lambda>r s. r_id r = r_id s \<or>
                   (r_account_id r = r_account_id s \<and> r_content_hash r = r_content_hash s \<and>
                    r_status r \<noteq> RFailed \<and> r_status s \<noteq> RFailed))
       w_recipes w_recipes_update r"

definition get_recipe :: "string \<Rightarrow> 'h world \<Rightarrow> recipe option" where
  "get_recipe i w = find (\<lambda>r. r_id r = i) (w_recipes w)"

definition get_recipe_by_content_hash :: "string \<Rightarrow> string \<Rightarrow> 'h world \<Rightarrow> recipe option" where
  "get_recipe_by_content_hash account_id h w =
     find (\<lambda>r. r_account_id r = account_id \<and> r_content_hash r = h \<and> r_status r \<noteq> RFailed) (w_recipes w)"

definition list_recipes_by_account :: "string \<Rightarrow> 'h world \<Rightarrow> recipe list" where
  "list_recipes_by_account account_id w =
     order_desc r_created_at (filter (\<lambda>r. r_account_id r = account_id) (w_recipes w))"

definition update_recipe_status :: "string \<Rightarrow> recipe_status \<Rightarrow> ('h, unit) st" where
  "update_recipe_status i s =
     writes (w_recipes_update (update_where (\<lambda>r. r_id r = i) (r_status_update (\<lambda>_. s))))"

definition update_recipe_build_result ::
  "string \<Rightarrow> recipe_status \<Rightarrow> string option \<Rightarrow> int option \<Rightarrow> string option \<Rightarrow> ('h, unit) st" where
  "update_recipe_build_result i s build_log base_volume_id built_at =
     writes (w_recipes_update (update_where (\<lambda>r. r_id r = i)
       (\<lambda>r. r\<lparr>r_status := s, r_build_log := build_log, r_base_volume_id := base_volume_id,
             r_built_at := built_at\<rparr>)))"

definition update_recipe_template :: "string \<Rightarrow> string \<Rightarrow> string \<Rightarrow> ('h, unit) st" where
  "update_recipe_template i vmstate memory =
     writes (w_recipes_update (update_where (\<lambda>r. r_id r = i)
       (\<lambda>r. r\<lparr>r_template_vmstate := Some vmstate, r_template_memory := Some memory\<rparr>)))"

definition delete_recipe :: "string \<Rightarrow> ('h, unit) st" where
  "delete_recipe i = writes (w_recipes_update (filter (\<lambda>r. r_id r \<noteq> i)))"

definition delete_failed_recipes_by_hash :: "string \<Rightarrow> string \<Rightarrow> ('h, unit) st" where
  "delete_failed_recipes_by_hash account_id h =
     writes (w_recipes_update (filter (\<lambda>r. \<not> (r_account_id r = account_id \<and> r_content_hash r = h \<and>
                                              r_status r = RFailed))))"

definition get_max_recipe_volume_id :: "'h world \<Rightarrow> int option" where
  "get_max_recipe_volume_id w = max_of (List.map_filter r_base_volume_id (w_recipes w))"

definition count_recipe_references :: "string \<Rightarrow> 'h world \<Rightarrow> int" where
  "count_recipe_references i w =
     int (length (filter (\<lambda>c. c_recipe_id c = Some i \<and> c_status c \<noteq> Destroyed) (w_computers w))) +
     int (length (filter (\<lambda>c. ck_recipe_id c = Some i) (w_checkpoints w)))"

section \<open>snapshot_templates\<close>

definition get_bare_template :: "'h world \<Rightarrow> (string \<times> string) option" where
  "get_bare_template w = w_bare_template w"

definition cache_bare_template :: "string \<Rightarrow> string \<Rightarrow> ('h, unit) st" where
  "cache_bare_template vmstate memory = writes (w_bare_template_update (\<lambda>_. Some (vmstate, memory)))"

definition clear_bare_template :: "('h, unit) st" where
  "clear_bare_template = writes (w_bare_template_update (\<lambda>_. None))"

section \<open>ingress_rules and ingress_log\<close>

definition insert_ingress_rule :: "ingress_rule \<Rightarrow> ('h, unit) st" where
  "insert_ingress_rule r =
     insert_row (\<lambda>r s. ir_internal_id r = ir_internal_id s \<or> ir_id r = ir_id s)
       w_ingress_rules w_ingress_rules_update r"

definition get_ingress_rule_by_id :: "string \<Rightarrow> 'h world \<Rightarrow> ingress_rule option" where
  "get_ingress_rule_by_id i w = find (\<lambda>r. ir_id r = i) (w_ingress_rules w)"

definition list_ingress_rules_by_account :: "string \<Rightarrow> 'h world \<Rightarrow> ingress_rule list" where
  "list_ingress_rules_by_account a w =
     sort_key ir_created_at (filter (\<lambda>r. ir_account_id r = a) (w_ingress_rules w))"

definition update_ingress_rule :: "ingress_rule \<Rightarrow> ('h, unit) st" where
  "update_ingress_rule u =
     writes (w_ingress_rules_update (update_where (\<lambda>r. ir_internal_id r = ir_internal_id u)
       (\<lambda>r. r\<lparr>ir_name := ir_name u, ir_starlark_source := ir_starlark_source u,
             ir_response_mode := ir_response_mode u, ir_max_body_bytes := ir_max_body_bytes u,
             ir_rate_limit_rpm := ir_rate_limit_rpm u, ir_enabled := ir_enabled u,
             ir_updated_at := ir_updated_at u\<rparr>)))"

text \<open>\<open>datetime('now')\<close> is SQLite's own clock, the argument \<open>now\<close>.\<close>

definition rotate_ingress_rule_id :: "string \<Rightarrow> string \<Rightarrow> string \<Rightarrow> ('h, unit) st" where
  "rotate_ingress_rule_id now internal_id new_id =
     writes (w_ingress_rules_update (update_where (\<lambda>r. ir_internal_id r = internal_id)
       (\<lambda>r. r\<lparr>ir_id := new_id, ir_updated_at := now\<rparr>)))"

definition delete_ingress_rule :: "string \<Rightarrow> ('h, unit) st" where
  "delete_ingress_rule i =
     seqE (writes (\<lambda>w. w_ingress_logs_update
             (filter (\<lambda>l. il_rule_internal_id l \<notin>
                ir_internal_id ` set (filter (\<lambda>r. ir_id r = i) (w_ingress_rules w)))) w))
          (writes (w_ingress_rules_update (filter (\<lambda>r. ir_id r \<noteq> i))))"

definition insert_ingress_log :: "ingress_log \<Rightarrow> ('h, unit) st" where
  "insert_ingress_log l = insert_row (\<lambda>r s. il_id r = il_id s) w_ingress_logs w_ingress_logs_update l"

definition update_ingress_log ::
  "string \<Rightarrow> ingress_log_status \<Rightarrow> string option \<Rightarrow> string option \<Rightarrow> ('h, unit) st" where
  "update_ingress_log i s error_message computer_id =
     writes (w_ingress_logs_update (update_where (\<lambda>l. il_id l = i)
       (\<lambda>l. l\<lparr>il_status := s, il_error_message := error_message, il_computer_id := computer_id\<rparr>)))"

definition list_ingress_logs :: "string \<Rightarrow> 'h world \<Rightarrow> ingress_log list" where
  "list_ingress_logs rule_internal_id w =
     take 100 (order_desc il_created_at
       (filter (\<lambda>l. il_rule_internal_id l = rule_internal_id) (w_ingress_logs w)))"

section \<open>relay_jobs\<close>

definition insert_relay_job :: "relay_job \<Rightarrow> ('h, unit) st" where
  "insert_relay_job j = insert_row (\<lambda>r s. rj_id r = rj_id s) w_relay_jobs w_relay_jobs_update j"

text \<open>Every column is written from the dataclass.\<close>

definition update_relay_job :: "relay_job \<Rightarrow> ('h, unit) st" where
  "update_relay_job j = writes (w_relay_jobs_update (update_where (\<lambda>r. rj_id r = rj_id j) (\<lambda>_. j)))"

definition get_relay_job :: "string \<Rightarrow> 'h world \<Rightarrow> relay_job option" where
  "get_relay_job i w = find (\<lambda>j. rj_id j = i) (w_relay_jobs w)"

definition list_relay_jobs_by_status :: "relay_status list \<Rightarrow> 'h world \<Rightarrow> relay_job list" where
  "list_relay_jobs_by_status statuses w =
     sort_key rj_created_at (sort_key rj_id (filter (\<lambda>j. rj_status j \<in> set statuses) (w_relay_jobs w)))"

definition delete_relay_jobs_before :: "string \<Rightarrow> ('h, int) st" where
  "delete_relay_jobs_before cutoff =
     (let gone = (\<lambda>j. rj_created_at j < cutoff \<and> rj_status j \<in> {RelayCompleted, RelayFailed}) in
      bindE (reads (\<lambda>w. int (length (filter gone (w_relay_jobs w))))) (\<lambda>n.
      seqE (writes (w_relay_jobs_update (filter (\<lambda>j. \<not> gone j)))) (ret n)))"

section \<open>Facts about the tables\<close>

lemma find_first_key:
  "distinct (map key rows) \<Longrightarrow> r \<in> set rows \<Longrightarrow> find (\<lambda>x. key x = key r) rows = Some r"
  by (induction rows) force+

lemma find_SomeD: "find P rows = Some r \<Longrightarrow> r \<in> set rows \<and> P r"
  by (induction rows) (auto split: if_splits)

lemma find_NoneD: "find P rows = None \<Longrightarrow> r \<in> set rows \<Longrightarrow> \<not> P r"
  by (simp add: find_None_iff)

lemma get_computer_SomeD: "get_computer i w = Some c \<Longrightarrow> c \<in> set (w_computers w) \<and> c_id c = i"
  by (auto simp: get_computer_def dest: find_SomeD)

lemma get_checkpoint_SomeD: "get_checkpoint i w = Some c \<Longrightarrow> c \<in> set (w_checkpoints w) \<and> ck_id c = i"
  by (auto simp: get_checkpoint_def dest: find_SomeD)

text \<open>No checkpoint retention may delete is pinned, or the newest one of its label.\<close>

lemma prunable_candidate:
  assumes "c \<in> set (list_prunable_checkpoints account keep w)"
  shows "c \<in> set (w_checkpoints w) \<and> ck_account_id c = account \<and> \<not> ck_pinned c \<and>
         (ck_label c = None \<or>
          newest_of_label (filter (\<lambda>c. ck_account_id c = account) (w_checkpoints w)) (ck_label c) \<noteq> Some c)"
proof -
  have sub: "set (rev (drop n xs)) \<subseteq> set xs" for n and xs :: "checkpoint list"
    by (simp add: set_drop_subset)
  from assms sub show ?thesis
    unfolding list_prunable_checkpoints_def Let_def by fastforce
qed

lemma newest_of_label_some:
  assumes "c \<in> set rows" and "ck_label c = Some l"
  shows "\<exists>n. newest_of_label rows (Some l) = Some n \<and> n \<in> set rows \<and> ck_label n = Some l \<and>
             ck_created_at c \<le> ck_created_at n"
proof -
  let ?f = "filter (\<lambda>c. ck_label c = Some l) rows"
  have "?f \<noteq> []" using assms by (auto simp: filter_empty_conv)
  then obtain n where n: "newest_of_label rows (Some l) = Some n"
    unfolding newest_of_label_def by (metis not_Some_eq first_row_None order_desc_eq_Nil)
  then have "n \<in> set ?f" and "\<And>q. q \<in> set ?f \<Longrightarrow> ck_created_at q \<le> ck_created_at n"
    using first_order_desc_greatest [of ck_created_at ?f n] by (simp_all add: newest_of_label_def)
  with n assms show ?thesis by auto
qed

text \<open>A claim changes at most the one row, and only a running one.\<close>

lemma claim_teardown_wp [wp_simps]:
  "wp (claim_teardown i) Q R =
     (\<lambda>w. Q (length (filter (\<lambda>c. c_id c = i \<and> c_status c = Running) (w_computers w)) = 1)
        (w_computers_update (update_where (\<lambda>c. c_id c = i \<and> c_status c = Running)
                               (c_status_update (\<lambda>_. Destroying))) w))"
  by (simp add: claim_teardown_def Let_def wp_simps)

lemma update_computer_status_wp [wp_simps]:
  "wp (update_computer_status i s) Q R =
     (\<lambda>w. Q () (w_computers_update (update_where (\<lambda>c. c_id c = i) (c_status_update (\<lambda>_. s))) w))"
  by (simp add: update_computer_status_def wp_simps)

lemma status_after_update:
  assumes "c \<in> set (update_where (\<lambda>c. c_id c = i) (c_status_update (\<lambda>_. s)) rows)" and "c_id c = i"
  shows "c_status c = s"
proof -
  from assms(1) have "c \<in> (\<lambda>r. if c_id r = i then c_status_update (\<lambda>_. s) r else r) ` set rows"
    by (simp only: update_where_def list.set_map)
  then obtain r where "c = (if c_id r = i then c_status_update (\<lambda>_. s) r else r)" by (rule imageE)
  with assms(2) show ?thesis by (cases "c_id r = i") simp_all
qed

lemma ids_after_status [simp]:
  "map c_id (update_where P (c_status_update f) rows) = map c_id rows"
  by (rule update_where_key) simp

section \<open>A table with a primary key\<close>

text \<open>
  What the services rely on of a table: a field of the state, read and replaced independently of
  the others, and a key on which two rows always clash. Every table of the schema gives this
  interface below.
\<close>

locale keyed_table =
  fixes key :: "'r \<Rightarrow> 'k"
    and clash :: "'r \<Rightarrow> 'r \<Rightarrow> bool"
    and get :: "'w \<Rightarrow> 'r list"
    and upd :: "('r list \<Rightarrow> 'r list) \<Rightarrow> 'w \<Rightarrow> 'w"
  assumes get_upd: "get (upd f w) = f (get w)"
    and clash_key: "key r = key s \<Longrightarrow> clash r s"
begin

definition keyed :: "'w \<Rightarrow> bool" where
  "keyed w \<longleftrightarrow> distinct (map key (get w))"

definition row :: "'k \<Rightarrow> 'w \<Rightarrow> 'r option" where
  "row k w = find (\<lambda>r. key r = k) (get w)"

lemma insert_keeps: "keyed w \<Longrightarrow> \<not> list_ex (clash r) (get w) \<Longrightarrow> keyed (upd (\<lambda>rows. rows @ [r]) w)"
  by (auto simp: keyed_def get_upd list_ex_iff dest: clash_key)

lemma row_after_insert:
  assumes "keyed w" and "\<not> list_ex (clash r) (get w)"
  shows "row (key r) (upd (\<lambda>rows. rows @ [r]) w) = Some r"
proof -
  have "distinct (map key (get w @ [r]))"
    using insert_keeps [OF assms] by (simp add: keyed_def get_upd)
  then show ?thesis
    unfolding row_def get_upd by (rule find_first_key) simp
qed

lemma row_iff: "keyed w \<Longrightarrow> row k w = Some r \<longleftrightarrow> r \<in> set (get w) \<and> key r = k"
  unfolding row_def keyed_def by (auto dest: find_SomeD intro: find_first_key)

lemma update_keeps: "(\<And>r. key (g r) = key r) \<Longrightarrow> keyed (upd (update_where P g) w) = keyed w"
  by (simp add: keyed_def get_upd update_where_key)

lemma delete_keeps: "keyed w \<Longrightarrow> keyed (upd (filter P) w)"
  by (simp add: keyed_def get_upd distinct_map_filter)

lemma row_after_delete: "row k (upd (filter (\<lambda>r. key r \<noteq> k)) w) = None"
  by (auto simp: row_def get_upd find_None_iff)

lemma find_update:
  assumes "\<And>r. key (g r) = key r"
  shows "find (\<lambda>r. key r = k) (update_where P g rows) =
           map_option (\<lambda>r. if P r then g r else r) (find (\<lambda>r. key r = k) rows)"
  using assms by (induction rows) (simp_all add: update_where_def)

lemma row_after_update:
  assumes "\<And>r. key (g r) = key r"
  shows "row k (upd (update_where P g) w) = map_option (\<lambda>r. if P r then g r else r) (row k w)"
  unfolding row_def get_upd by (rule find_update) (rule assms)

end

interpretation computers: keyed_table c_id "\<lambda>r s. c_id r = c_id s" w_computers w_computers_update
  by unfold_locales simp_all

interpretation checkpoints: keyed_table ck_id "\<lambda>r s. ck_id r = ck_id s" w_checkpoints w_checkpoints_update
  by unfold_locales simp_all

interpretation recipes: keyed_table r_id
  "\<lambda>r s. r_id r = r_id s \<or> (r_account_id r = r_account_id s \<and> r_content_hash r = r_content_hash s \<and>
           r_status r \<noteq> RFailed \<and> r_status s \<noteq> RFailed)"
  w_recipes w_recipes_update
  by unfold_locales simp_all

interpretation relay_jobs: keyed_table rj_id "\<lambda>r s. rj_id r = rj_id s" w_relay_jobs w_relay_jobs_update
  by unfold_locales simp_all

interpretation exec_logs: keyed_table el_computer_id "\<lambda>r s. el_computer_id r = el_computer_id s"
  w_exec_logs w_exec_logs_update
  by unfold_locales simp_all

interpretation ingress_rules: keyed_table ir_internal_id
  "\<lambda>r s. ir_internal_id r = ir_internal_id s \<or> ir_id r = ir_id s" w_ingress_rules w_ingress_rules_update
  by unfold_locales simp_all

interpretation ingress_logs: keyed_table il_id "\<lambda>r s. il_id r = il_id s" w_ingress_logs w_ingress_logs_update
  by unfold_locales simp_all

interpretation api_keys: keyed_table k_id "\<lambda>r s. k_id r = k_id s \<or> k_secret r = k_secret s"
  w_api_keys w_api_keys_update
  by unfold_locales simp_all

interpretation accounts: keyed_table a_id "\<lambda>r s. a_id r = a_id s \<or> a_api_key r = a_api_key s"
  w_accounts w_accounts_update
  by unfold_locales simp_all

section \<open>What an action on another part of the state leaves alone\<close>

text \<open>The tables without the machine's state: what no host operation can change.\<close>

definition ignores_host :: "('h world \<Rightarrow> bool) \<Rightarrow> bool" where
  "ignores_host I \<longleftrightarrow> (\<forall>w h. I w \<longrightarrow> I (w\<lparr>w_host := h\<rparr>))"

lemma keeps_host_steps:
  assumes "ignores_host I"
  shows "keeps I (hostop f)" and "keeps I (fsop E m)" and "keeps I (uuid4_hex E)" and "keeps I (utcnow E)"
    and "keeps I (read_fs E)" and "keeps I (change_fs E g)" and "keeps I (rmtree E p)"
proof -
  have h: "I w \<Longrightarrow> I (w\<lparr>w_host := h\<rparr>)" for w h using assms by (simp add: ignores_host_def)
  show 1: "keeps I (hostop f)" for f :: "('a, 'x) act" by (rule keeps_hostop) (rule h)
  show "keeps I (uuid4_hex E)" "keeps I (utcnow E)" unfolding uuid4_hex_def utcnow_def by (rule 1)+
  show "keeps I (fsop E m)" by (auto simp: keeps_def fsop_def h split: prod.splits)
  show "keeps I (read_fs E)" by (simp add: read_fs_def keeps_reads)
  show "keeps I (change_fs E g)" for g by (simp add: change_fs_def keeps_writes h)
  then show "keeps I (rmtree E p)" by (simp add: rmtree_def)
qed

end
