(* ===== verification/Files.thy ===== *)
theory Files
  imports Host
begin

text \<open>
  The parts of \<^verbatim>\<open>pathlib\<close> the services use on a tree that may hold symbolic links: a path is
  resolved component by component, a link's target replacing it, an absolute target starting over
  at the root of the machine that runs the code (not of the mounted tree). Forty links are the
  kernel's limit. An operation is an action on the file system and raises OSError's subclasses as
  Python's does.
\<close>

definition link_parts :: "string \<Rightarrow> string list" where
  "link_parts t = split_on (CHR ''/'') t"

definition is_absolute :: "string \<Rightarrow> bool" where
  "is_absolute t \<longleftrightarrow> (case t of [] \<Rightarrow> False | c # _ \<Rightarrow> c = CHR ''/'')"

function walk :: "nat \<Rightarrow> fs \<Rightarrow> path \<Rightarrow> path \<Rightarrow> path option" where
  "walk n f here [] = Some here"
| "walk n f here (x # xs) =
     (if x = [] \<or> x = ''.'' then walk n f here xs
      else if x = ''..'' then walk n f (butlast here) xs
      else (case fs_lookup f (here @ [x]) of
              Some (NLink t) \<Rightarrow>
                (if n = 0 then None
                 else walk (n - 1) f (if is_absolute t then [] else here) (link_parts t @ xs))
            | _ \<Rightarrow> walk n f (here @ [x]) xs))"
  by pat_completeness auto
termination
  by (relation "measures [\<lambda>(n, f, here, todo). n, \<lambda>(n, f, here, todo). length todo]") auto

definition max_links :: nat where
  "max_links = 40"

definition fs_resolve :: "fs \<Rightarrow> path \<Rightarrow> path option" where
  "fs_resolve f p = walk max_links f [] p"

text \<open>A path to a node itself, its last component not followed.\<close>

definition fs_resolve_parent :: "fs \<Rightarrow> path \<Rightarrow> path option" where
  "fs_resolve_parent f p =
     (if p = [] then Some [] else map_option (\<lambda>d. d @ [last p]) (fs_resolve f (butlast p)))"

definition node_at :: "fs \<Rightarrow> path \<Rightarrow> node option" where
  "node_at f p = (if p = [] then Some NDir else fs_lookup f p)"

definition followed :: "fs \<Rightarrow> path \<Rightarrow> node option" where
  "followed f p = Option.bind (fs_resolve f p) (node_at f)"

definition unfollowed :: "fs \<Rightarrow> path \<Rightarrow> node option" where
  "unfollowed f p = Option.bind (fs_resolve_parent f p) (node_at f)"

definition path_exists :: "fs \<Rightarrow> path \<Rightarrow> bool" where
  "path_exists f p \<longleftrightarrow> followed f p \<noteq> None"

definition path_is_dir :: "fs \<Rightarrow> path \<Rightarrow> bool" where
  "path_is_dir f p \<longleftrightarrow> followed f p = Some NDir"

definition path_is_symlink :: "fs \<Rightarrow> path \<Rightarrow> bool" where
  "path_is_symlink f p \<longleftrightarrow> (case unfollowed f p of Some (NLink _) \<Rightarrow> True | _ \<Rightarrow> False)"

section \<open>Operations\<close>

definition os_error :: "string \<Rightarrow> path \<Rightarrow> exc" where
  "os_error name p = PyError name (''/'' @ join ''/'' p)"

text \<open>Where a write to \<open>p\<close> lands: the resolved path, whose parent has to be a directory.\<close>

definition write_target :: "fs \<Rightarrow> path \<Rightarrow> exc + path" where
  "write_target f p =
     (case fs_resolve f p of
        None \<Rightarrow> Inl (os_error ''OSError'' p)
      | Some q \<Rightarrow>
          if q = [] \<or> fs_lookup f q = Some NDir then Inl (os_error ''IsADirectoryError'' p)
          else if node_at f (butlast q) \<noteq> Some NDir then Inl (os_error ''FileNotFoundError'' p)
          else Inr q)"

definition write_text :: "path \<Rightarrow> string \<Rightarrow> (fs, unit) act" where
  "write_text p text =
     bindE (reads (\<lambda>f. write_target f p)) (\<lambda>t.
     bindE (from_result t) (\<lambda>q. writes (\<lambda>f. fs_put f q (NFile text))))"

definition touch :: "path \<Rightarrow> (fs, unit) act" where
  "touch p =
     bindE (reads (\<lambda>f. path_exists f p)) (\<lambda>b. whenE (\<not> b) (write_text p []))"

definition read_text :: "path \<Rightarrow> (fs, string) act" where
  "read_text p =
     bindE (reads (\<lambda>f. followed f p)) (\<lambda>n.
     case n of
       Some (NFile t) \<Rightarrow> ret t
     | Some NDir \<Rightarrow> raise (os_error ''IsADirectoryError'' p)
     | _ \<Rightarrow> raise (os_error ''FileNotFoundError'' p))"

text \<open>\<open>mkdir(parents=True, exist_ok=True)\<close>: each missing ancestor is made where it resolves to.\<close>

definition make_one_dir :: "path \<Rightarrow> (fs, unit) act" where
  "make_one_dir p =
     bindE (reads (\<lambda>f. (followed f p, fs_resolve_parent f p, unfollowed f p))) (\<lambda>(n, q, here).
     case n of
       Some NDir \<Rightarrow> ret ()
     | Some _ \<Rightarrow> raise (os_error ''FileExistsError'' p)
     | None \<Rightarrow>
         (case q of
            None \<Rightarrow> raise (os_error ''OSError'' p)
          | Some d \<Rightarrow>
              if here \<noteq> None then raise (os_error ''FileExistsError'' p)
              else writes (\<lambda>f. fs_put f d NDir)))"

definition mkdirs :: "path \<Rightarrow> (fs, unit) act" where
  "mkdirs p = for_each (map (\<lambda>n. take (Suc n) p) [0..<length p]) make_one_dir"

definition unlink :: "path \<Rightarrow> (fs, unit) act" where
  "unlink p =
     bindE (reads (\<lambda>f. (unfollowed f p, fs_resolve_parent f p))) (\<lambda>(n, q).
     case (n, q) of
       (Some NDir, _) \<Rightarrow> raise (os_error ''IsADirectoryError'' p)
     | (Some _, Some d) \<Rightarrow> writes (filter (\<lambda>(r, _). r \<noteq> d))
     | _ \<Rightarrow> raise (os_error ''FileNotFoundError'' p))"

definition symlink_to :: "path \<Rightarrow> string \<Rightarrow> (fs, unit) act" where
  "symlink_to p target =
     bindE (reads (\<lambda>f. (unfollowed f p, fs_resolve_parent f p))) (\<lambda>(n, q).
     case (n, q) of
       (None, Some d) \<Rightarrow>
         bindE (reads (\<lambda>f. node_at f (butlast d) = Some NDir)) (\<lambda>ok.
         if ok then writes (\<lambda>f. fs_put f d (NLink target))
         else raise (os_error ''FileNotFoundError'' p))
     | _ \<Rightarrow> raise (os_error ''FileExistsError'' p))"

text \<open>\<open>shutil.rmtree(p)\<close> of a directory that is not a link.\<close>

definition remove_tree :: "path \<Rightarrow> (fs, unit) act" where
  "remove_tree p =
     bindE (reads (\<lambda>f. fs_resolve_parent f p)) (\<lambda>q.
     case q of
       None \<Rightarrow> raise (os_error ''OSError'' p)
     | Some d \<Rightarrow> writes (\<lambda>f. fs_rmtree f d))"

definition list_dir :: "path \<Rightarrow> (fs, path list) act" where
  "list_dir p =
     bindE (reads (\<lambda>f. (f, fs_resolve f p))) (\<lambda>(f, q).
     ret (case q of None \<Rightarrow> [] | Some d \<Rightarrow> map (\<lambda>n. p @ [n]) (fs_children f d)))"

section \<open>Paths without links\<close>

definition is_link :: "fs \<Rightarrow> path \<Rightarrow> bool" where
  "is_link f p \<longleftrightarrow> (case fs_lookup f p of Some (NLink _) \<Rightarrow> True | _ \<Rightarrow> False)"

definition plain :: "string \<Rightarrow> bool" where
  "plain x \<longleftrightarrow> x \<noteq> [] \<and> x \<noteq> ''.'' \<and> x \<noteq> ''..'' \<and> CHR ''/'' \<notin> set x"

lemma walk_plain:
  "list_all plain todo \<Longrightarrow> (\<And>n. 0 < n \<Longrightarrow> n \<le> length todo \<Longrightarrow> \<not> is_link f (here @ take n todo)) \<Longrightarrow>
   walk k f here todo = Some (here @ todo)"
proof (induction todo arbitrary: here)
  case (Cons x xs)
  have nl: "\<not> is_link f (here @ [x])" using Cons.prems(2) [of 1] by simp
  have rest: "walk k f (here @ [x]) xs = Some ((here @ [x]) @ xs)"
  proof (rule Cons.IH)
    show "list_all plain xs" using Cons.prems(1) by simp
    show "\<not> is_link f ((here @ [x]) @ take n xs)" if "0 < n" "n \<le> length xs" for n
      using Cons.prems(2) [of "Suc n"] that by simp
  qed
  show ?case
    using nl rest Cons.prems(1) by (auto simp: plain_def is_link_def split: option.splits node.splits)
qed simp

lemma fs_lookup_filter:
  "fs_lookup (filter (\<lambda>(r, _). P r) f) q = (if P q then fs_lookup f q else None)"
  by (induction f) (auto simp: fs_lookup_def)

lemma take_mp_not_below: "q \<noteq> [] \<Longrightarrow> take n mp \<noteq> mp @ q"
  by (metis append_eq_conv_conj append_self_conv append_take_drop_id length_append length_take min.cobounded2
      not_add_less1 order_le_less prefixI prefix_length_prefix same_prefix_nil take_is_prefix)

end
