(* ===== verification/Rootfs.thy ===== *)
theory Rootfs
  imports Files
begin

text \<open>
  \<open>_post_process_rootfs\<close> of src/src/mshkn/services/recipes.py: the configuration Firecracker needs,
  forced into an exported root file system. It runs on the host, on the mounted volume at \<open>mp\<close>,
  and it is an action on the host's file system. File modes are not modelled; ssh-keygen is the
  parameter \<open>keygen\<close> (an action on the file system), the public key's path the parameter \<open>pub\<close>.
\<close>

definition lines_text :: "string list \<Rightarrow> string" where
  "lines_text ls = concat (map (\<lambda>l. l @ newline) ls)"

definition masked_units :: "string list" where
  "masked_units =
     [''apt-daily.timer'', ''apt-daily-upgrade.timer'', ''dpkg-db-backup.timer'',
      ''e2scrub_all.timer'', ''fstrim.timer'', ''motd-news.timer'']"

section \<open>sshd_config\<close>

text \<open>\<open>needle in text\<close>.\<close>

definition occurs :: "string \<Rightarrow> string \<Rightarrow> bool" where
  "occurs needle text \<longleftrightarrow> sublist needle text"

text \<open>What \<open>#?<directive>\s+\S+\<close> leaves after a match at the head of the text.\<close>

definition directive_match :: "string \<Rightarrow> string \<Rightarrow> string option" where
  "directive_match d text =
     (let s = (if text \<noteq> [] \<and> hd text = CHR ''#'' then tl text else text);
          rest = drop (length d) s;
          tok = dropWhile is_space rest
      in if prefix d s \<and> rest \<noteq> [] \<and> is_space (hd rest) \<and> tok \<noteq> []
         then Some (dropWhile (\<lambda>c. \<not> is_space c) tok) else None)"

lemma length_dropWhile_lt: "xs \<noteq> [] \<Longrightarrow> P (hd xs) \<Longrightarrow> length (dropWhile P xs) < length xs"
  by (cases xs) (auto simp: le_imp_less_Suc length_dropWhile_le)

lemma directive_match_shorter:
  assumes "directive_match d text = Some rest"
  shows "length rest < length text"
proof -
  define s where "s = (if text \<noteq> [] \<and> hd text = CHR ''#'' then tl text else text)"
  define r where "r = drop (length d) s"
  from assms have r: "r \<noteq> []" "is_space (hd r)" "rest = dropWhile (\<lambda>c. \<not> is_space c) (dropWhile is_space r)"
    by (auto simp: directive_match_def Let_def s_def [symmetric] r_def [symmetric] split: if_splits)
  have "length rest \<le> length (dropWhile is_space r)" by (simp add: r(3) length_dropWhile_le)
  also have "\<dots> < length r" using r(1,2) by (rule length_dropWhile_lt)
  also have "\<dots> \<le> length s" by (simp add: r_def)
  also have "\<dots> \<le> length text" by (simp add: s_def)
  finally show ?thesis .
qed

function sub_directive :: "string \<Rightarrow> string \<Rightarrow> string \<Rightarrow> string" where
  "sub_directive d new [] = []"
| "sub_directive d new (c # cs) =
     (case directive_match d (c # cs) of
        Some rest \<Rightarrow> new @ sub_directive d new rest
      | None \<Rightarrow> c # sub_directive d new cs)"
  by pat_completeness auto
termination
  by (relation "measure (\<lambda>(d, new, text). length text)") (auto dest: directive_match_shorter)

definition fix_sshd :: "string \<Rightarrow> string" where
  "fix_sshd cfg0 =
     (let cfg1 = (if \<not> occurs ''PermitRootLogin'' cfg0
                  then cfg0 @ newline @ ''PermitRootLogin yes'' @ newline
                  else sub_directive ''PermitRootLogin'' ''PermitRootLogin yes'' cfg0);
          cfg2 = (if \<not> occurs ''PubkeyAuthentication'' cfg1
                  then cfg1 @ ''PubkeyAuthentication yes'' @ newline
                  else sub_directive ''PubkeyAuthentication'' ''PubkeyAuthentication yes'' cfg1)
      in if \<not> occurs ''UsePAM'' cfg2 then cfg2 @ ''UsePAM no'' @ newline
         else sub_directive ''UsePAM'' ''UsePAM no'' cfg2)"

section \<open>The files\<close>

definition environment_text :: string where
  \<open>environment_text = lines_text [''PATH="/usr/local/sbin:/usr/local/bin:/usr/sbin:/usr/bin:/sbin:/bin"'']\<close>

definition resolv_conf_text :: string where
  "resolv_conf_text = lines_text [''nameserver 8.8.8.8'', ''nameserver 1.1.1.1'']"

definition hosts_text :: string where
  "hosts_text = lines_text [''127.0.0.1 localhost'', ''127.0.1.1 mshkn'']"

definition fcnet_script_text :: string where
  \<open>fcnet_script_text = lines_text
     [''#!/bin/bash'',
      ''# Wait up to 1s for any non-loopback interface to appear.'',
      ''for i in $(seq 1 200); do'',
      ''    if [ "$(ls /sys/class/net | grep -v lo | wc -l)" -gt 0 ]; then'',
      ''        break'',
      ''    fi'',
      ''    sleep 0.005'',
      ''done'',
      ''for dev in $(ls /sys/class/net | grep -v lo); do'',
      ''    mac_ip=$(ip link show dev "$dev" | grep link/ether | grep -oP "(?<=06:00:)[0-9a-f:]{11}")'',
      ''    if [ -n "$mac_ip" ]; then'',
      ''        ip=$(printf "%d.%d.%d.%d" $(echo "0x${mac_ip}" | sed "s/:/ 0x/g"))'',
      ''        ip addr add "$ip/30" dev "$dev"'',
      ''        ip link set "$dev" up'',
      ''        gw=$(echo "$ip" | awk -F. '' @ [squote] @ ''{printf "%d.%d.%d.%d", $1, $2, $3, $4-1}'' @ [squote] @ '')'',
      ''        ip route add default via "$gw"'',
      ''    fi'',
      ''done'']\<close>

definition fcnet_unit_text :: string where
  "fcnet_unit_text = lines_text
     [''[Unit]'', ''Description=Firecracker network setup'', ''DefaultDependencies=no'',
      ''Before=network.target network-pre.target'', ''Wants=ssh.service'', [],
      ''[Service]'', ''Type=oneshot'', ''ExecStart=/usr/local/bin/fcnet-setup.sh'', ''RemainAfterExit=true'']"

definition vsock_unit_text :: string where
  "vsock_unit_text = lines_text
     [''[Unit]'', ''Description=mshkn vsock shell listener'', ''After=fcnet.service'', [],
      ''[Service]'',
      ''ExecStart=/usr/bin/socat -t 0 VSOCK-LISTEN:52,reuseaddr,fork EXEC:/bin/sh,pipes,stderr'',
      ''Restart=always'', ''RestartSec=1'', [],
      ''[Install]'', ''WantedBy=multi-user.target'']"

definition remove_if :: "(fs \<Rightarrow> bool) \<Rightarrow> path \<Rightarrow> (fs, unit) act" where
  "remove_if cond p = bindE (reads cond) (\<lambda>b. whenE b (unlink p))"

definition link_unless :: "path \<Rightarrow> string \<Rightarrow> (fs, unit) act" where
  "link_unless p target = bindE (reads (\<lambda>f. path_exists f p)) (\<lambda>b. whenE (\<not> b) (symlink_to p target))"

definition ssh_host_keys :: "(string \<Rightarrow> path \<Rightarrow> (fs, unit) act) \<Rightarrow> path \<Rightarrow> (fs, unit) act" where
  "ssh_host_keys keygen mp =
     (let etc_ssh = mp @ [''etc'', ''ssh''] in
      seqE (mkdirs etc_ssh)
      (for_each [''rsa'', ''ecdsa'', ''ed25519''] (\<lambda>key_type.
         let host_key = etc_ssh @ [''ssh_host_'' @ key_type @ ''_key''] in
         bindE (reads (\<lambda>f. path_exists f host_key)) (\<lambda>b. whenE (\<not> b) (keygen key_type host_key)))))"

definition authorize_key :: "path \<Rightarrow> path \<Rightarrow> (fs, unit) act" where
  "authorize_key pub mp =
     (let root_ssh = mp @ [''root'', ''.ssh'']; authorized_keys = root_ssh @ [''authorized_keys''] in
      seqE (mkdirs root_ssh)
      (bindE (reads (\<lambda>f. path_exists f pub)) (\<lambda>b.
       if b then bindE (read_text pub) (write_text authorized_keys) else touch authorized_keys)))"

definition write_sshd_config :: "path \<Rightarrow> (fs, unit) act" where
  "write_sshd_config mp =
     (let p = mp @ [''etc'', ''ssh'', ''sshd_config''] in
      bindE (reads (\<lambda>f. path_exists f p)) (\<lambda>b.
      bindE (if b then read_text p else ret []) (\<lambda>cfg. write_text p (fix_sshd cfg))))"

definition empty_motd :: "path \<Rightarrow> (fs, unit) act" where
  "empty_motd mp =
     (let motd_dir = mp @ [''etc'', ''update-motd.d''] in
      bindE (reads (\<lambda>f. path_is_dir f motd_dir)) (\<lambda>b.
      whenE b (bindE (list_dir motd_dir) (\<lambda>entries.
        for_each entries (\<lambda>entry.
          bindE (reads (\<lambda>f. path_is_dir f entry \<and> \<not> path_is_symlink f entry)) (\<lambda>d.
          if d then remove_tree entry else unlink entry))))))"

definition mask_units :: "path \<Rightarrow> (fs, unit) act" where
  "mask_units mp =
     (let units_dir = mp @ [''etc'', ''systemd'', ''system''] in
      seqE (mkdirs units_dir)
      (for_each masked_units (\<lambda>unit.
         let mask = units_dir @ [unit] in
         seqE (remove_if (\<lambda>f. path_is_symlink f mask \<or> path_exists f mask) mask)
              (symlink_to mask ''/dev/null''))))"

definition init_link :: "path \<Rightarrow> (fs, unit) act" where
  "init_link mp =
     (let init = mp @ [''sbin'', ''init''] in
      seqE (mkdirs (mp @ [''sbin'']))
      (seqE (remove_if (\<lambda>f. path_is_symlink f init) init)
            (link_unless init ''/lib/systemd/systemd'')))"

definition etc_files :: "path \<Rightarrow> (fs, unit) act" where
  "etc_files mp =
     (let etc = mp @ [''etc'']; dockerenv = mp @ [''.dockerenv''] in
      seqE (mkdirs etc)
      (seqE (write_text (etc @ [''environment'']) environment_text)
      (seqE (write_text (etc @ [''resolv.conf'']) resolv_conf_text)
      (seqE (write_text (etc @ [''hostname'']) (lines_text [''mshkn'']))
      (seqE (write_text (etc @ [''hosts'']) hosts_text)
            (remove_if (\<lambda>f. path_exists f dockerenv) dockerenv))))))"

definition fcnet_files :: "path \<Rightarrow> (fs, unit) act" where
  "fcnet_files mp =
     (let bin = mp @ [''usr'', ''local'', ''bin''];
          system = mp @ [''etc'', ''systemd'', ''system''];
          wants = system @ [''sysinit.target.wants''];
          fcnet_link = wants @ [''fcnet.service''] in
      seqE (mkdirs bin)
      (seqE (write_text (bin @ [''fcnet-setup.sh'']) fcnet_script_text)
      (seqE (mkdirs system)
      (seqE (write_text (system @ [''fcnet.service'']) fcnet_unit_text)
      (seqE (mkdirs wants)
      (seqE (remove_if (\<lambda>f. path_is_symlink f fcnet_link) fcnet_link)
            (link_unless fcnet_link ''/etc/systemd/system/fcnet.service'')))))))"

definition vsock_files :: "path \<Rightarrow> (fs, unit) act" where
  "vsock_files mp =
     (let system = mp @ [''etc'', ''systemd'', ''system''];
          wants = system @ [''multi-user.target.wants''];
          vsock_link = wants @ [''mshkn-vsock.service''] in
      seqE (write_text (system @ [''mshkn-vsock.service'']) vsock_unit_text)
      (seqE (mkdirs wants)
      (seqE (remove_if (\<lambda>f. path_is_symlink f vsock_link \<or> path_exists f vsock_link) vsock_link)
            (symlink_to vsock_link ''/etc/systemd/system/mshkn-vsock.service''))))"

definition post_process_rootfs ::
  "(string \<Rightarrow> path \<Rightarrow> (fs, unit) act) \<Rightarrow> path \<Rightarrow> path \<Rightarrow> (fs, unit) act" where
  "post_process_rootfs keygen pub mp =
     seqE (ssh_host_keys keygen mp)
     (seqE (authorize_key pub mp)
     (seqE (write_sshd_config mp)
     (seqE (empty_motd mp)
     (seqE (mask_units mp)
     (seqE (init_link mp)
     (seqE (etc_files mp)
     (seqE (fcnet_files mp)
           (vsock_files mp))))))))"

section \<open>Confinement\<close>

text \<open>
  The paths below the mount point the function makes directories at or writes text to. A link at
  or above one of them is followed, and an absolute link leads out of the volume; without such a
  link nothing outside the mount point changes. The links the function itself makes are at other
  paths.
\<close>

definition written_paths :: "path list" where
  "written_paths =
     [[''etc'', ''ssh'', ''ssh_host_rsa_key''], [''etc'', ''ssh'', ''ssh_host_ecdsa_key''],
      [''etc'', ''ssh'', ''ssh_host_ed25519_key''], [''root'', ''.ssh'', ''authorized_keys''],
      [''etc'', ''ssh'', ''sshd_config''], [''etc'', ''update-motd.d''], [''sbin''],
      [''etc'', ''environment''], [''etc'', ''resolv.conf''], [''etc'', ''hostname''], [''etc'', ''hosts''],
      [''usr'', ''local'', ''bin'', ''fcnet-setup.sh''], [''etc'', ''systemd'', ''system'', ''fcnet.service''],
      [''etc'', ''systemd'', ''system'', ''mshkn-vsock.service''],
      [''etc'', ''systemd'', ''system'', ''sysinit.target.wants''],
      [''etc'', ''systemd'', ''system'', ''multi-user.target.wants'']]"

definition guarded :: "path \<Rightarrow> bool" where
  "guarded q \<longleftrightarrow> list_ex (prefix q) written_paths"

definition mount_ok :: "fs \<Rightarrow> path \<Rightarrow> bool" where
  "mount_ok f mp \<longleftrightarrow>
     list_all plain mp \<and> list_all (\<lambda>n. fs_lookup f (take (Suc n) mp) = Some NDir) [0..<length mp]"

definition no_guarded_link :: "fs \<Rightarrow> path \<Rightarrow> bool" where
  "no_guarded_link f mp \<longleftrightarrow>
     list_all (\<lambda>p. list_all (\<lambda>n. \<not> is_link f (mp @ take n p)) [0..<Suc (length p)]) written_paths"

text \<open>What ssh-keygen does to a path that is not a link: the key and its public half.\<close>

definition pub_of :: "path \<Rightarrow> path" where
  "pub_of p = butlast p @ [last p @ ''.pub'']"

definition keygen_local :: "(string \<Rightarrow> path \<Rightarrow> (fs, unit) act) \<Rightarrow> bool" where
  "keygen_local keygen \<longleftrightarrow>
     (\<forall>kt p f q. fs_resolve f p = Some p \<longrightarrow>
        (q \<noteq> p \<and> q \<noteq> pub_of p \<longrightarrow> fs_lookup (run_state (keygen kt p) f) q = fs_lookup f q) \<and>
        (is_link (run_state (keygen kt p) f) q \<longrightarrow> is_link f q))"

lemma guarded_prefix: "guarded q \<Longrightarrow> prefix q' q \<Longrightarrow> guarded q'"
  by (auto simp: guarded_def list_ex_iff dest: prefix_order.trans)

lemma guarded_plain: "guarded q \<Longrightarrow> list_all plain q"
proof -
  have "list_all (list_all plain) written_paths" by code_simp
  then show "guarded q \<Longrightarrow> list_all plain q"
    by (auto simp: guarded_def list_ex_iff list_all_iff dest: set_mono_prefix)
qed

text \<open>The state during a run that started from \<open>f0\<close>.\<close>

definition confined :: "fs \<Rightarrow> path \<Rightarrow> fs \<Rightarrow> bool" where
  "confined f0 mp f \<longleftrightarrow>
     list_all plain mp \<and> (\<forall>n<length mp. fs_lookup f (take (Suc n) mp) = Some NDir) \<and>
     (\<forall>q. guarded q \<longrightarrow> \<not> is_link f (mp @ q)) \<and>
     (\<forall>q. \<not> prefix mp q \<longrightarrow> fs_lookup f q = fs_lookup f0 q)"

lemma confined_start:
  assumes "mount_ok f mp" and "no_guarded_link f mp"
  shows "confined f mp f"
proof -
  have "\<not> is_link f (mp @ q)" if g: "guarded q" for q
  proof -
    from g obtain p where p: "p \<in> set written_paths" "prefix q p" by (auto simp: guarded_def list_ex_iff)
    then have "q = take (length q) p" "length q < Suc (length p)"
      by (auto simp: prefix_def)
    with p(1) assms(2) show ?thesis
      unfolding no_guarded_link_def list_all_iff by (metis atLeastLessThan_upt lessThan_atLeast0 lessThan_iff)
  qed
  then show ?thesis
    using assms(1) by (auto simp: confined_def mount_ok_def list_all_iff)
qed

lemma confined_resolve:
  assumes c: "confined f0 mp f" and g: "guarded q"
  shows "fs_resolve f (mp @ q) = Some (mp @ q)"
proof -
  have "walk max_links f [] (mp @ q) = Some ([] @ mp @ q)"
  proof (rule walk_plain)
    show "list_all plain (mp @ q)" using c guarded_plain [OF g] by (simp add: confined_def)
    fix n assume n: "0 < n" "n \<le> length (mp @ q)"
    show "\<not> is_link f ([] @ take n (mp @ q))"
    proof (cases "n \<le> length mp")
      case True
      then obtain m where m: "n = Suc m" "m < length mp" using n by (cases n) auto
      then have "fs_lookup f (take n mp) = Some NDir" using c by (simp add: confined_def)
      with True show ?thesis by (simp add: is_link_def)
    next
      case False
      have "guarded (take (n - length mp) q)" using g by (rule guarded_prefix) (rule take_is_prefix)
      with c False show ?thesis by (simp add: confined_def)
    qed
  qed
  then show ?thesis by (simp add: fs_resolve_def)
qed

lemma confined_put:
  assumes "confined f0 mp f" and "q \<noteq> []" and "guarded q \<Longrightarrow> \<forall>t. n \<noteq> NLink t"
  shows "confined f0 mp (fs_put f (mp @ q) n)"
  using assms take_mp_not_below [OF assms(2)]
  by (auto simp: confined_def is_link_def split: node.splits)

lemma confined_remove:
  assumes "confined f0 mp f" and "q \<noteq> []"
  shows "confined f0 mp (filter (\<lambda>(r, _). r \<noteq> mp @ q) f)"
  using assms take_mp_not_below [OF assms(2)]
  by (auto simp: confined_def is_link_def fs_lookup_filter)

lemma keeps_bind_reads:
  "(\<And>w. I w \<Longrightarrow> wp (f (g w)) (\<lambda>_. I) (\<lambda>_. I) w) \<Longrightarrow> keeps I (bindE (reads g) f)"
  by (rule keepsI_wp) (simp add: wp_simps)

lemma write_text_confined:
  assumes g: "guarded q" and ne: "q \<noteq> []"
  shows "keeps (confined f0 mp) (write_text (mp @ q) t)"
proof (rule keepsI_wp)
  fix f assume c: "confined f0 mp f"
  have "write_target f (mp @ q) = Inl e \<or> write_target f (mp @ q) = Inr (mp @ q)"
    if "write_target f (mp @ q) = Inl e \<or> (\<exists>r. write_target f (mp @ q) = Inr r)" for e
    using that confined_resolve [OF c g] by (auto simp: write_target_def split: if_splits)
  then consider e where "write_target f (mp @ q) = Inl e" | "write_target f (mp @ q) = Inr (mp @ q)"
    by (cases "write_target f (mp @ q)") blast+
  then show "wp (write_text (mp @ q) t) (\<lambda>_. confined f0 mp) (\<lambda>_. confined f0 mp) f"
    by cases (simp_all add: write_text_def wp_simps c confined_put [OF c ne])
qed

lemma touch_confined: "guarded q \<Longrightarrow> q \<noteq> [] \<Longrightarrow> keeps (confined f0 mp) (touch (mp @ q))"
  unfolding touch_def by (intro keeps_intros write_text_confined)

lemma resolve_parent_confined:
  assumes "confined f0 mp f" and "guarded (butlast q)" and "q \<noteq> []"
  shows "fs_resolve_parent f (mp @ q) = Some (mp @ q)"
  using confined_resolve [OF assms(1,2)] assms(3) by (simp add: fs_resolve_parent_def butlast_append)

lemma make_one_dir_confined:
  assumes g: "guarded q" and ne: "q \<noteq> []"
  shows "keeps (confined f0 mp) (make_one_dir (mp @ q))"
proof (rule keepsI_wp)
  fix f assume c: "confined f0 mp f"
  have b: "guarded (butlast q)" using g by (rule guarded_prefix) (simp add: prefixeq_butlast)
  show "wp (make_one_dir (mp @ q)) (\<lambda>_. confined f0 mp) (\<lambda>_. confined f0 mp) f"
    using c resolve_parent_confined [OF c b ne] confined_put [OF c ne, of NDir]
    by (auto simp: make_one_dir_def wp_simps split: option.splits node.splits)
qed

lemma make_mount_dir_confined: "n < length mp \<Longrightarrow> keeps (confined f0 mp) (make_one_dir (take (Suc n) mp))"
proof (rule keepsI_wp)
  fix f assume n: "n < length mp" and c: "confined f0 mp f"
  have "fs_resolve f (take (Suc n) mp) = Some (take (Suc n) mp)"
  proof -
    have "walk max_links f [] (take (Suc n) mp) = Some ([] @ take (Suc n) mp)"
    proof (rule walk_plain)
      show "list_all plain (take (Suc n) mp)"
        using c by (auto simp: confined_def list_all_iff dest: in_set_takeD)
      fix k assume "0 < k" "k \<le> length (take (Suc n) mp)"
      then obtain j where j: "k = Suc j" "j < length mp" "k \<le> Suc n" using n by (cases k) auto
      then have "fs_lookup f (take k mp) = Some NDir" using c by (simp add: confined_def)
      with j show "\<not> is_link f ([] @ take k (take (Suc n) mp))" by (simp add: is_link_def min_absorb1)
    qed
    then show ?thesis by (simp add: fs_resolve_def)
  qed
  then have "followed f (take (Suc n) mp) = Some NDir"
    using c n by (simp add: followed_def node_at_def confined_def)
  then show "wp (make_one_dir (take (Suc n) mp)) (\<lambda>_. confined f0 mp) (\<lambda>_. confined f0 mp) f"
    using c by (simp add: make_one_dir_def wp_simps)
qed

lemma keeps_for_each_in:
  "(\<And>x. x \<in> set xs \<Longrightarrow> keeps I (f x)) \<Longrightarrow> keeps I (for_each xs f)"
  by (induction xs) (simp_all add: keeps_ret keeps_seqE)

lemma mkdirs_confined:
  assumes g: "guarded q"
  shows "keeps (confined f0 mp) (mkdirs (mp @ q))"
  unfolding mkdirs_def
proof (rule keeps_for_each_in)
  fix d assume "d \<in> set (map (\<lambda>n. take (Suc n) (mp @ q)) [0..<length (mp @ q)])"
  then obtain n where n: "n < length (mp @ q)" "d = take (Suc n) (mp @ q)" by auto
  show "keeps (confined f0 mp) (make_one_dir d)"
  proof (cases "n < length mp")
    case True
    then show ?thesis using n(2) make_mount_dir_confined [OF True] by simp
  next
    case False
    then have d: "d = mp @ take (Suc n - length mp) q" "take (Suc n - length mp) q \<noteq> []"
      using n by (auto simp: Suc_diff_le)
    have "guarded (take (Suc n - length mp) q)" using g by (rule guarded_prefix) (rule take_is_prefix)
    then show ?thesis unfolding d(1) using d(2) by (rule make_one_dir_confined)
  qed
qed

lemma unlink_confined:
  assumes "guarded (butlast q)" and "q \<noteq> []"
  shows "keeps (confined f0 mp) (unlink (mp @ q))"
proof (rule keepsI_wp)
  fix f assume c: "confined f0 mp f"
  show "wp (unlink (mp @ q)) (\<lambda>_. confined f0 mp) (\<lambda>_. confined f0 mp) f"
    using c resolve_parent_confined [OF c assms] confined_remove [OF c assms(2)]
    by (auto simp: unlink_def wp_simps split: option.splits node.splits)
qed

lemma symlink_confined:
  assumes "guarded (butlast q)" and "q \<noteq> []" and "\<not> guarded q"
  shows "keeps (confined f0 mp) (symlink_to (mp @ q) t)"
proof (rule keepsI_wp)
  fix f assume c: "confined f0 mp f"
  show "wp (symlink_to (mp @ q) t) (\<lambda>_. confined f0 mp) (\<lambda>_. confined f0 mp) f"
    using c resolve_parent_confined [OF c assms(1,2)] confined_put [OF c assms(2), of "NLink t"] assms(3)
    by (auto simp: symlink_to_def wp_simps split: option.splits node.splits)
qed

lemma remove_tree_confined:
  assumes "guarded (butlast q)" and "q \<noteq> []"
  shows "keeps (confined f0 mp) (remove_tree (mp @ q))"
proof (rule keepsI_wp)
  fix f assume c: "confined f0 mp f"
  have "\<not> prefix (mp @ q) (take n mp)" for n
    using assms(2) by (metis append_Nil2 append_take_drop_id prefix_def prefix_length_le same_prefix_nil
        take_is_prefix prefix_order.trans)
  then have "confined f0 mp (fs_rmtree f (mp @ q))"
    using c by (auto simp: confined_def is_link_def dest: append_prefixD)
  then show "wp (remove_tree (mp @ q)) (\<lambda>_. confined f0 mp) (\<lambda>_. confined f0 mp) f"
    using resolve_parent_confined [OF c assms] by (simp add: remove_tree_def wp_simps)
qed

lemma remove_if_confined:
  "guarded (butlast q) \<Longrightarrow> q \<noteq> [] \<Longrightarrow> keeps (confined f0 mp) (remove_if cond (mp @ q))"
  unfolding remove_if_def by (intro keeps_intros unlink_confined)

lemma link_unless_confined:
  "guarded (butlast q) \<Longrightarrow> q \<noteq> [] \<Longrightarrow> \<not> guarded q \<Longrightarrow> keeps (confined f0 mp) (link_unless (mp @ q) t)"
  unfolding link_unless_def by (intro keeps_intros symlink_confined)

lemma keygen_confined:
  assumes k: "keygen_local keygen" and g: "guarded q" and ne: "q \<noteq> []"
  shows "keeps (confined f0 mp) (keygen kt (mp @ q))"
  unfolding keeps_def
proof (intro allI impI)
  fix f assume c: "confined f0 mp f"
  let ?f = "run_state (keygen kt (mp @ q)) f"
  have same: "r \<noteq> mp @ q \<Longrightarrow> r \<noteq> pub_of (mp @ q) \<Longrightarrow> fs_lookup ?f r = fs_lookup f r"
    and links: "is_link ?f r \<Longrightarrow> is_link f r" for r
    using k confined_resolve [OF c g] by (simp_all add: keygen_local_def)
  have pub: "pub_of (mp @ q) = mp @ pub_of q" using ne by (simp add: pub_of_def butlast_append)
  have "pub_of q \<noteq> []" by (simp add: pub_of_def)
  then have "confined f0 mp ?f"
    using c same links take_mp_not_below ne unfolding pub confined_def
    by (metis prefixI)
  then show "confined f0 mp (snd (keygen kt (mp @ q) f))" by (simp add: run_state_def)
qed

lemma guarded_facts:
  "guarded [''etc'', ''ssh'']" "guarded [''etc'', ''ssh'', ''sshd_config'']" "guarded [''root'', ''.ssh'']"
  "guarded [''root'', ''.ssh'', ''authorized_keys'']" "guarded [''etc'', ''update-motd.d'']"
  "guarded [''etc'', ''systemd'', ''system'']" "guarded [''sbin'']" "guarded [''etc'']" "guarded []"
  "guarded [''usr'', ''local'', ''bin'']"
  "list_all (\<lambda>k. guarded [''etc'', ''ssh'', ''ssh_host_'' @ k @ ''_key'']) [''rsa'', ''ecdsa'', ''ed25519'']"
  "list_all (\<lambda>n. guarded [''etc'', n]) [''environment'', ''resolv.conf'', ''hostname'', ''hosts'']"
  "guarded [''usr'', ''local'', ''bin'', ''fcnet-setup.sh'']"
  "list_all (\<lambda>n. guarded [''etc'', ''systemd'', ''system'', n])
     [''fcnet.service'', ''mshkn-vsock.service'', ''sysinit.target.wants'', ''multi-user.target.wants'']"
  "list_all (\<lambda>u. \<not> guarded [''etc'', ''systemd'', ''system'', u]) masked_units"
  "\<not> guarded [''sbin'', ''init'']"
  "\<not> guarded [''etc'', ''systemd'', ''system'', ''sysinit.target.wants'', ''fcnet.service'']"
  "\<not> guarded [''etc'', ''systemd'', ''system'', ''multi-user.target.wants'', ''mshkn-vsock.service'']"
  by code_simp+

lemma ssh_host_keys_confined:
  assumes "keygen_local keygen"
  shows "keeps (confined f0 mp) (ssh_host_keys keygen mp)"
  unfolding ssh_host_keys_def Let_def
proof (rule keeps_seqE)
  show "keeps (confined f0 mp) (mkdirs (mp @ [''etc'', ''ssh'']))"
    by (rule mkdirs_confined) (rule guarded_facts)
  show "keeps (confined f0 mp) (for_each [''rsa'', ''ecdsa'', ''ed25519''] (\<lambda>key_type.
      bindE (reads (\<lambda>f. path_exists f ((mp @ [''etc'', ''ssh'']) @ [''ssh_host_'' @ key_type @ ''_key'']))) (\<lambda>b.
      whenE (\<not> b) (keygen key_type ((mp @ [''etc'', ''ssh'']) @ [''ssh_host_'' @ key_type @ ''_key''])))))"
  proof (rule keeps_for_each_in)
    fix k assume "k \<in> set [''rsa'', ''ecdsa'', ''ed25519'']"
    then have g: "guarded [''etc'', ''ssh'', ''ssh_host_'' @ k @ ''_key'']"
      using guarded_facts(11) by (auto simp only: list_all_iff)
    show "keeps (confined f0 mp) (bindE (reads (\<lambda>f. path_exists f ((mp @ [''etc'', ''ssh'']) @ [''ssh_host_'' @ k @ ''_key'']))) (\<lambda>b.
      whenE (\<not> b) (keygen k ((mp @ [''etc'', ''ssh'']) @ [''ssh_host_'' @ k @ ''_key'']))))"
      using keygen_confined [OF assms g] by (intro keeps_intros) simp
  qed
qed

lemma authorize_key_confined: "keeps (confined f0 mp) (authorize_key pub mp)"
proof -
  have r: "keeps (confined f0 mp) (read_text pub)"
    by (rule keepsI_wp) (auto simp: read_text_def wp_simps split: option.splits node.splits)
  have w: "keeps (confined f0 mp) (write_text ((mp @ [''root'', ''.ssh'']) @ [''authorized_keys'']) t)"
    "keeps (confined f0 mp) (touch ((mp @ [''root'', ''.ssh'']) @ [''authorized_keys'']))" for t
    using write_text_confined [OF guarded_facts(4)] touch_confined [OF guarded_facts(4)] by simp_all
  show ?thesis
    unfolding authorize_key_def Let_def
    by (intro keeps_intros mkdirs_confined guarded_facts r w)
qed

lemma write_sshd_config_confined: "keeps (confined f0 mp) (write_sshd_config mp)"
proof -
  have r: "keeps (confined f0 mp) (read_text p)" for p
    by (rule keepsI_wp) (auto simp: read_text_def wp_simps split: option.splits node.splits)
  show ?thesis
    unfolding write_sshd_config_def Let_def
    by (intro keeps_intros write_text_confined guarded_facts r) simp
qed

lemma empty_motd_confined: "keeps (confined f0 mp) (empty_motd mp)"
proof -
  let ?d = "[''etc'', ''update-motd.d'']"
  have e: "keeps (confined f0 mp) (for_each (map (\<lambda>n. (mp @ ?d) @ [n]) ns) (\<lambda>entry.
          bindE (reads (\<lambda>f. path_is_dir f entry \<and> \<not> path_is_symlink f entry)) (\<lambda>d.
          if d then remove_tree entry else unlink entry)))" for ns
  proof (rule keeps_for_each_in)
    fix x assume "x \<in> set (map (\<lambda>n. (mp @ ?d) @ [n]) ns)"
    then obtain n where x: "x = mp @ (?d @ [n])" by auto
    have "guarded (butlast (?d @ [n]))" using guarded_facts(5) by simp
    then show "keeps (confined f0 mp) (bindE (reads (\<lambda>f. path_is_dir f x \<and> \<not> path_is_symlink f x)) (\<lambda>d.
          if d then remove_tree x else unlink x))"
      unfolding x by (intro keeps_intros remove_tree_confined unlink_confined) simp_all
  qed
  have l: "keeps (confined f0 mp) (bindE (list_dir (mp @ ?d)) (\<lambda>entries. for_each entries (\<lambda>entry.
          bindE (reads (\<lambda>f. path_is_dir f entry \<and> \<not> path_is_symlink f entry)) (\<lambda>d.
          if d then remove_tree entry else unlink entry))))"
  proof (rule keepsI_wp)
    fix f assume c: "confined f0 mp f"
    show "wp (bindE (list_dir (mp @ ?d)) (\<lambda>entries. for_each entries (\<lambda>entry.
          bindE (reads (\<lambda>f. path_is_dir f entry \<and> \<not> path_is_symlink f entry)) (\<lambda>d.
          if d then remove_tree entry else unlink entry)))) (\<lambda>_. confined f0 mp) (\<lambda>_. confined f0 mp) f"
      unfolding list_dir_def wp_bindE wp_reads prod.case wp_ret
        confined_resolve [OF c guarded_facts(5)] option.case
      by (rule keeps_wp [OF e c])
  qed
  show ?thesis
    unfolding empty_motd_def Let_def by (intro keeps_intros l)
qed

lemma mask_units_confined: "keeps (confined f0 mp) (mask_units mp)"
  unfolding mask_units_def Let_def
proof (rule keeps_seqE)
  show "keeps (confined f0 mp) (mkdirs (mp @ [''etc'', ''systemd'', ''system'']))"
    by (rule mkdirs_confined) (rule guarded_facts)
  let ?m = "\<lambda>u. (mp @ [''etc'', ''systemd'', ''system'']) @ [u]"
  show "keeps (confined f0 mp) (for_each masked_units (\<lambda>u.
      seqE (remove_if (\<lambda>f. path_is_symlink f (?m u) \<or> path_exists f (?m u)) (?m u)) (symlink_to (?m u) ''/dev/null'')))"
  proof (rule keeps_for_each_in)
    fix u assume "u \<in> set masked_units"
    then have ng: "\<not> guarded [''etc'', ''systemd'', ''system'', u]"
      using guarded_facts(15) unfolding list_all_iff by blast
    have b: "guarded (butlast [''etc'', ''systemd'', ''system'', u])" using guarded_facts(6) by simp
    show "keeps (confined f0 mp)
      (seqE (remove_if (\<lambda>f. path_is_symlink f (?m u) \<or> path_exists f (?m u)) (?m u)) (symlink_to (?m u) ''/dev/null''))"
      using remove_if_confined [OF b] symlink_confined [OF b _ ng] by (intro keeps_intros) simp_all
  qed
qed

lemma init_link_confined: "keeps (confined f0 mp) (init_link mp)"
proof -
  have b: "guarded (butlast [''sbin'', ''init''])" using guarded_facts(7) by simp
  show ?thesis
    unfolding init_link_def Let_def
    by (intro keeps_intros mkdirs_confined remove_if_confined link_unless_confined guarded_facts b) simp_all
qed

lemma etc_files_confined: "keeps (confined f0 mp) (etc_files mp)"
proof -
  have w: "keeps (confined f0 mp) (write_text ((mp @ [''etc'']) @ [n]) t)"
    if "n \<in> {''environment'', ''resolv.conf'', ''hostname'', ''hosts''}" for n t
  proof -
    have "guarded [''etc'', n]" using guarded_facts(12) that by (auto simp only: list_all_iff list.set)
    then show ?thesis using write_text_confined [of "[''etc'', n]"] by simp
  qed
  have b: "guarded (butlast [''.dockerenv''])" using guarded_facts(9) by simp
  show ?thesis
    unfolding etc_files_def Let_def
    by (intro keeps_intros mkdirs_confined remove_if_confined guarded_facts b w) simp_all
qed

lemma system_confined:
  assumes "n \<in> {''fcnet.service'', ''mshkn-vsock.service'', ''sysinit.target.wants'', ''multi-user.target.wants''}"
  shows "keeps (confined f0 mp) (write_text ((mp @ [''etc'', ''systemd'', ''system'']) @ [n]) t)"
    and "keeps (confined f0 mp) (mkdirs ((mp @ [''etc'', ''systemd'', ''system'']) @ [n]))"
    and "guarded [''etc'', ''systemd'', ''system'', n]"
proof -
  show g: "guarded [''etc'', ''systemd'', ''system'', n]"
    using guarded_facts(14) assms by (auto simp only: list_all_iff list.set)
  show "keeps (confined f0 mp) (write_text ((mp @ [''etc'', ''systemd'', ''system'']) @ [n]) t)"
    using write_text_confined [OF g] by simp
  show "keeps (confined f0 mp) (mkdirs ((mp @ [''etc'', ''systemd'', ''system'']) @ [n]))"
    using mkdirs_confined [OF g] by simp
qed

lemma fcnet_files_confined: "keeps (confined f0 mp) (fcnet_files mp)"
proof -
  let ?l = "[''etc'', ''systemd'', ''system'', ''sysinit.target.wants'', ''fcnet.service'']"
  have b: "guarded (butlast ?l)" using system_confined(3) [of "''sysinit.target.wants''"] by simp
  have l: "keeps (confined f0 mp) (remove_if c (((mp @ [''etc'', ''systemd'', ''system'']) @ [''sysinit.target.wants'']) @ [''fcnet.service'']))"
    "keeps (confined f0 mp) (link_unless (((mp @ [''etc'', ''systemd'', ''system'']) @ [''sysinit.target.wants'']) @ [''fcnet.service'']) t)" for c t
    using remove_if_confined [OF b] link_unless_confined [OF b _ guarded_facts(17)] by simp_all
  have s: "keeps (confined f0 mp) (write_text ((mp @ [''usr'', ''local'', ''bin'']) @ [''fcnet-setup.sh'']) t)" for t
    using write_text_confined [OF guarded_facts(13)] by simp
  show ?thesis
    unfolding fcnet_files_def Let_def
    by (intro keeps_intros mkdirs_confined guarded_facts system_confined l s) simp_all
qed

lemma vsock_files_confined: "keeps (confined f0 mp) (vsock_files mp)"
proof -
  let ?l = "[''etc'', ''systemd'', ''system'', ''multi-user.target.wants'', ''mshkn-vsock.service'']"
  have b: "guarded (butlast ?l)" using system_confined(3) [of "''multi-user.target.wants''"] by simp
  have l: "keeps (confined f0 mp) (remove_if c (((mp @ [''etc'', ''systemd'', ''system'']) @ [''multi-user.target.wants'']) @ [''mshkn-vsock.service'']))"
    "keeps (confined f0 mp) (symlink_to (((mp @ [''etc'', ''systemd'', ''system'']) @ [''multi-user.target.wants'']) @ [''mshkn-vsock.service'']) t)" for c t
    using remove_if_confined [OF b] symlink_confined [OF b _ guarded_facts(18)] by simp_all
  show ?thesis
    unfolding vsock_files_def Let_def
    by (intro keeps_intros system_confined l) simp_all
qed

lemma post_process_keeps:
  assumes "keygen_local keygen"
  shows "keeps (confined f0 mp) (post_process_rootfs keygen pub mp)"
  unfolding post_process_rootfs_def
  by (intro keeps_seqE ssh_host_keys_confined authorize_key_confined write_sshd_config_confined
      empty_motd_confined mask_units_confined init_link_confined etc_files_confined
      fcnet_files_confined vsock_files_confined assms)

text \<open>A link at one of those paths is followed to the host's own tree.\<close>

definition no_keygen :: "string \<Rightarrow> path \<Rightarrow> (fs, unit) act" where
  "no_keygen kt p = ret ()"

definition linked_rootfs :: fs where
  "linked_rootfs =
     [([''mnt''], NDir), ([''mnt'', ''etc''], NDir), ([''mnt'', ''etc'', ''environment''], NLink ''/opt/db''),
      ([''opt''], NDir), ([''opt'', ''db''], NFile ''accounts'')]"

lemma no_keygen_local: "keygen_local no_keygen"
  by (simp add: keygen_local_def no_keygen_def ret_def run_state_def)

section \<open>Properties\<close>

text \<open>Post-processing an exported root file system leaves every path outside the mount point as
  it was, whatever the tree holds, provided the mount point is a real directory, no symbolic link
  stands at or above a path the function writes, and ssh-keygen writes only the key it was asked for.\<close>

lemma post_process_confined:
  assumes "mount_ok f mp" and "no_guarded_link f mp" and "keygen_local keygen" and "\<not> prefix mp q"
  shows "fs_lookup (run_state (post_process_rootfs keygen pub mp) f) q = fs_lookup f q"
proof -
  have "confined f mp (run_state (post_process_rootfs keygen pub mp) f)"
    by (rule keepsD [OF post_process_keeps [OF assms(3)]]) (rule confined_start [OF assms(1,2)])
  then show ?thesis using assms(4) by (simp add: confined_def)
qed

definition plain_rootfs :: fs where
  "plain_rootfs =
     [([''mnt''], NDir), ([''mnt'', ''etc''], NDir), ([''mnt'', ''etc'', ''hosts''], NFile []),
      ([''mnt'', ''lib''], NLink ''/usr/lib''), ([''opt''], NDir), ([''opt'', ''db''], NFile ''accounts'')]"

lemma post_process_confined_witness:
  "fs_lookup (run_state (post_process_rootfs no_keygen [''key.pub''] [''mnt'']) plain_rootfs) [''opt'', ''db''] =
     Some (NFile ''accounts'')"
proof -
  have "mount_ok plain_rootfs [''mnt'']" "no_guarded_link plain_rootfs [''mnt'']"
    "\<not> prefix [''mnt''] [''opt'', ''db'']" "fs_lookup plain_rootfs [''opt'', ''db''] = Some (NFile ''accounts'')"
    by code_simp+
  then show ?thesis
    using post_process_confined [of plain_rootfs "[''mnt'']" no_keygen "[''opt'', ''db'']" "[''key.pub'']"]
      no_keygen_local by simp
qed

text \<open>Without that provision it does not hold: a recipe whose image makes \<open>/etc/environment\<close> an
  absolute link has the host file the link names overwritten, by the step that writes the files of
  \<open>/etc\<close> into the mounted volume.\<close>

lemma post_process_follows_links:
  "fs_lookup linked_rootfs [''opt'', ''db''] = Some (NFile ''accounts'') \<and>
   fs_lookup (run_state (write_text [''mnt'', ''etc'', ''environment''] environment_text) linked_rootfs)
     [''opt'', ''db''] = Some (NFile environment_text) \<and>
   fs_lookup (run_state (etc_files [''mnt'']) linked_rootfs) [''opt'', ''db''] = Some (NFile environment_text)"
  by code_simp

end
