(* ===== verification/FakeHost.thy ===== *)
theory FakeHost
  imports World
begin

text \<open>
  The in-memory host of src/src/mshkn/host/fake.py, the machine the flow tests run on, with the
  slot addresses of src/src/mshkn/host/network.py. It is the concrete host of the witnesses, and
  the instance on which the laws some theorems ask of a host are discharged. Its clock and its
  uuids are counters; every file is in the one file system.
\<close>

section \<open>Addresses of a slot\<close>

definition slot_to_ip :: "int \<Rightarrow> string \<times> string" where
  "slot_to_ip slot = (''172.16.'' @ str_int slot @ ''.1'', ''172.16.'' @ str_int slot @ ''.2'')"

definition slot_to_tap :: "int \<Rightarrow> string" where
  "slot_to_tap slot = ''tap'' @ str_int slot"

definition hex_digit_upper :: "nat \<Rightarrow> char" where
  "hex_digit_upper d = ''0123456789ABCDEF'' ! d"

definition slot_to_mac :: "int \<Rightarrow> string" where
  "slot_to_mac slot =
     ''06:00:AC:10:'' @ [hex_digit_upper (nat slot div 16), hex_digit_upper (nat slot mod 16)] @ '':02''"

section \<open>State\<close>

datatype block_call =
    CallSnap int int
  | CallRemove int string
  | CallMkfs string
  | CallMounted string bool

record fake =
  fk_fail :: "(string \<times> string) set"
  fk_volumes :: "(int \<times> int option) list"
  fk_active :: "(string \<times> int) list"
  fk_mounts :: "(string \<times> path) list"
  fk_volume_dirs :: "(int \<times> path) list"
  fk_block_calls :: "block_call list"
  fk_usage :: pool_usage
  fk_next_pid :: int
  fk_alive :: "(int \<times> running_vm) list"
  fk_booted :: "(int \<times> resources) list"
  fk_restored :: "(int \<times> snapshot_files) list"
  fk_snapshots :: "(string \<times> path) list"
  fk_torn_down :: "int list"
  fk_killed :: "(int \<times> string) list"
  fk_script :: "(string \<times> exec_result) list"
  fk_script_sequence :: "(string \<times> exec_result list) list"
  fk_stream_script :: "(string \<times> output_line list) list"
  fk_commands :: "(string \<times> string) list"
  fk_files :: "((string \<times> string) \<times> string) list"
  fk_warmed :: "string list"
  fk_evicted :: "string list"
  fk_stream_timeouts :: "int list"
  fk_bg_pid :: int
  fk_prefixes :: "(string \<times> (string \<times> string) list) list"
  fk_routes :: "(string \<times> string) list"
  fk_terminal_routes :: int
  fk_uuids :: int
  fk_clock :: int
  fk_fs :: fs
  fk_free :: int

definition fake_root :: path where
  "fake_root = [''tmp'', ''fake-blocks'']"

definition new_fake :: fake where
  "new_fake =
     \<lparr>fk_fail = {}, fk_volumes = [(0, None)], fk_active = [], fk_mounts = [], fk_volume_dirs = [],
      fk_block_calls = [], fk_usage = \<lparr>pu_data_used_ratio = 1/10, pu_metadata_used_ratio = 1/20\<rparr>,
      fk_next_pid = 1000, fk_alive = [], fk_booted = [], fk_restored = [], fk_snapshots = [],
      fk_torn_down = [], fk_killed = [], fk_script = [], fk_script_sequence = [],
      fk_stream_script = [], fk_commands = [], fk_files = [], fk_warmed = [], fk_evicted = [],
      fk_stream_timeouts = [], fk_bg_pid = 4000, fk_prefixes = [], fk_routes = [],
      fk_terminal_routes = 0, fk_uuids = 0, fk_clock = 0, fk_fs = [(fake_root, NDir)], fk_free = 0\<rparr>"

definition fail_next :: "string \<Rightarrow> string \<Rightarrow> fake \<Rightarrow> fake" where
  "fail_next cls method h = h\<lparr>fk_fail := insert (cls, method) (fk_fail h)\<rparr>"

definition maybe_fail :: "string \<Rightarrow> string \<Rightarrow> (fake, unit) act" where
  "maybe_fail cls method =
     bindE (reads (\<lambda>h. (cls, method) \<in> fk_fail h)) (\<lambda>b.
     whenE b (seqE (writes (\<lambda>h. h\<lparr>fk_fail := fk_fail h - {(cls, method)}\<rparr>))
       (raise_domain HostError (''fake '' @ cls @ ''.'' @ method @ '' failed on request''))))"

text \<open>A dict: the key's entry replaced, or gone.\<close>

definition dict_set :: "'k \<Rightarrow> 'v \<Rightarrow> ('k \<times> 'v) list \<Rightarrow> ('k \<times> 'v) list" where
  "dict_set k v d = (if k \<in> fst ` set d then map (\<lambda>(k', v'). (k', if k' = k then v else v')) d else d @ [(k, v)])"

definition dict_pop :: "'k \<Rightarrow> ('k \<times> 'v) list \<Rightarrow> ('k \<times> 'v) list" where
  "dict_pop k d = filter (\<lambda>(k', _). k' \<noteq> k) d"

lemma map_of_map_value:
  "map_of (map (\<lambda>(k, v). (k, f k v)) d) x = map_option (f x) (map_of d x)"
  by (induction d) (simp_all add: case_prod_beta)

lemma map_of_dict_set [simp]: "map_of (dict_set k v d) x = (if x = k then Some v else map_of d x)"
proof (cases "k \<in> fst ` set d")
  case True
  then obtain u where "map_of d k = Some u" by (metis map_of_eq_None_iff option.exhaust)
  with True show ?thesis
    by (simp add: dict_set_def map_of_map_value [where f = "\<lambda>y z. if y = k then v else z"] option.map_ident)
next
  case False
  then have "map_of d k = None" by (simp add: map_of_eq_None_iff)
  with False show ?thesis by (auto simp: dict_set_def map_add_def split: option.splits)
qed

lemma map_of_dict_pop [simp]: "map_of (dict_pop k d) k' = (if k' = k then None else map_of d k')"
  by (induction d) (auto simp: dict_pop_def)

lemma keys_dict_pop [simp]: "fst ` set (dict_pop k d) = fst ` set d - {k}"
  by (auto simp: dict_pop_def image_iff)

section \<open>FakeBlockStore\<close>

definition dir_for_volume :: "int \<Rightarrow> (fake, path) act" where
  "dir_for_volume volume_id =
     bindE (reads (\<lambda>h. map_of (fk_volume_dirs h) volume_id)) (\<lambda>known.
     case known of
       Some p \<Rightarrow> ret p
     | None \<Rightarrow>
         (let p = fake_root @ [''vol-'' @ str_int volume_id] in
          seqE (writes (\<lambda>h. h\<lparr>fk_fs := fs_mkdirs (fk_fs h) [] p,
                            fk_volume_dirs := dict_set volume_id p (fk_volume_dirs h)\<rparr>))
               (ret p)))"

text \<open>\<open>shutil.copytree(src, dst, symlinks=True, dirs_exist_ok=True)\<close>.\<close>

definition fs_copytree :: "fs \<Rightarrow> path \<Rightarrow> path \<Rightarrow> fs" where
  "fs_copytree f src dst =
     foldr (\<lambda>(q, n) g. if prefix src q \<and> q \<noteq> src then fs_put g (dst @ drop (length src) q) n else g) f f"

definition fake_snap :: "int \<Rightarrow> int \<Rightarrow> (fake, unit) act" where
  "fake_snap source_volume_id new_volume_id =
     seqE (maybe_fail ''FakeBlockStore'' ''snap'')
     (bindE (reads fk_volumes) (\<lambda>volumes.
      if map_of volumes source_volume_id = None
      then raise_domain HostError
             (''fake snap: source volume '' @ str_int source_volume_id @ '' does not exist'')
      else if map_of volumes new_volume_id \<noteq> None
      then raise_domain HostError (''fake snap: volume '' @ str_int new_volume_id @ '' already exists'')
      else
        seqE (writes (\<lambda>h. h\<lparr>fk_block_calls := fk_block_calls h @ [CallSnap source_volume_id new_volume_id],
                          fk_volumes := dict_set new_volume_id (Some source_volume_id) (fk_volumes h)\<rparr>))
        (bindE (reads (\<lambda>h. map_of (fk_volume_dirs h) source_volume_id)) (\<lambda>source_dir.
         case source_dir of
           None \<Rightarrow> ret ()
         | Some src \<Rightarrow>
             bindE (dir_for_volume new_volume_id) (\<lambda>dst.
             writes (\<lambda>h. h\<lparr>fk_fs := fs_copytree (fk_fs h) src dst\<rparr>))))))"

definition fake_activate :: "int \<Rightarrow> string \<Rightarrow> (fake, unit) act" where
  "fake_activate volume_id name =
     seqE (maybe_fail ''FakeBlockStore'' ''activate'')
     (bindE (reads (\<lambda>h. h)) (\<lambda>h.
      if map_of (fk_volumes h) volume_id = None
      then raise_domain HostError (''fake activate: volume '' @ str_int volume_id @ '' does not exist'')
      else if map_of (fk_active h) name \<noteq> None
      then raise_domain HostError (''fake activate: device '' @ name @ '' already exists'')
      else
        seqE (writes (\<lambda>h. h\<lparr>fk_active := dict_set name volume_id (fk_active h)\<rparr>))
        (bindE (dir_for_volume volume_id) (\<lambda>d.
         writes (\<lambda>h. h\<lparr>fk_mounts := dict_set name d (fk_mounts h)\<rparr>)))))"

definition fake_deactivate :: "string \<Rightarrow> (fake, unit) act" where
  "fake_deactivate name =
     bindE (reads (\<lambda>h. map_of (fk_active h) name)) (\<lambda>v.
     if v = None then raise_domain HostError (''fake deactivate: device '' @ name @ '' is not active'')
     else writes (\<lambda>h. h\<lparr>fk_active := dict_pop name (fk_active h),
                       fk_mounts := dict_pop name (fk_mounts h)\<rparr>))"

text \<open>Best-effort: a failing remove leaves the volume behind and does not raise.\<close>

definition fake_remove :: "int \<Rightarrow> string \<Rightarrow> (fake, unit) act" where
  "fake_remove volume_id name =
     seqE (writes (\<lambda>h. h\<lparr>fk_block_calls := fk_block_calls h @ [CallRemove volume_id name]\<rparr>))
     (bindE (reads (\<lambda>h. (''FakeBlockStore'', ''remove'') \<in> fk_fail h)) (\<lambda>failing.
      if failing
      then writes (\<lambda>h. h\<lparr>fk_fail := fk_fail h - {(''FakeBlockStore'', ''remove'')}\<rparr>)
      else writes (\<lambda>h. h\<lparr>fk_active := dict_pop name (fk_active h),
                        fk_volumes := dict_pop volume_id (fk_volumes h),
                        fk_mounts := dict_pop name (fk_mounts h),
                        fk_fs := (case map_of (fk_volume_dirs h) volume_id of
                                    None \<Rightarrow> fk_fs h | Some d \<Rightarrow> fs_rmtree (fk_fs h) d),
                        fk_volume_dirs := dict_pop volume_id (fk_volume_dirs h)\<rparr>)))"

definition fake_mkfs :: "string \<Rightarrow> (fake, unit) act" where
  "fake_mkfs name = writes (\<lambda>h. h\<lparr>fk_block_calls := fk_block_calls h @ [CallMkfs name]\<rparr>)"

definition fake_mount :: "string \<Rightarrow> bool \<Rightarrow> (fake, path) act" where
  "fake_mount name readonly =
     bindE (reads (\<lambda>h. map_of (fk_active h) name)) (\<lambda>v.
     if v = None then raise_domain HostError (''fake mounted: device '' @ name @ '' is not active'')
     else seqE (writes (\<lambda>h. h\<lparr>fk_block_calls := fk_block_calls h @ [CallMounted name readonly]\<rparr>))
       (bindE (reads (\<lambda>h. map_of (fk_mounts h) name)) (\<lambda>m.
        case m of Some p \<Rightarrow> ret p | None \<Rightarrow> raise (PyError ''KeyError'' name))))"

definition fake_max_volume_id :: "(fake, int option) act" where
  "fake_max_volume_id = reads (\<lambda>h. max_of (filter (\<lambda>v. v \<noteq> 0) (map fst (fk_volumes h))))"

definition fake_blocks :: "fake block_store" where
  "fake_blocks =
     \<lparr>bs_snap = fake_snap, bs_activate = fake_activate, bs_deactivate = fake_deactivate,
      bs_remove = fake_remove, bs_mkfs = fake_mkfs, bs_mount = fake_mount,
      bs_unmount = (\<lambda>_. ret ()), bs_max_volume_id = fake_max_volume_id,
      bs_usage = reads fk_usage\<rparr>"

section \<open>FakeHypervisor\<close>

definition fake_vm :: "int \<Rightarrow> string \<Rightarrow> (fake, running_vm) act" where
  "fake_vm slot disk_name =
     bindE (reads fk_next_pid) (\<lambda>pid.
     let vm = \<lparr>vm_pid = pid, vm_socket_path = ''/tmp/fake-'' @ disk_name @ ''.socket'', vm_slot = slot,
               vm_ip = snd (slot_to_ip slot), vm_tap_device = slot_to_tap slot\<rparr> in
     seqE (writes (\<lambda>h. h\<lparr>fk_next_pid := pid + 1, fk_alive := dict_set pid vm (fk_alive h)\<rparr>)) (ret vm))"

definition fake_boot :: "int \<Rightarrow> int \<Rightarrow> string \<Rightarrow> resources \<Rightarrow> (fake, running_vm) act" where
  "fake_boot slot disk_volume_id disk_name res =
     seqE (maybe_fail ''FakeHypervisor'' ''boot'')
     (seqE (writes (\<lambda>h. h\<lparr>fk_booted := fk_booted h @ [(disk_volume_id, res)]\<rparr>)) (fake_vm slot disk_name))"

definition fake_restore :: "int \<Rightarrow> int \<Rightarrow> string \<Rightarrow> snapshot_files \<Rightarrow> (fake, running_vm) act" where
  "fake_restore slot disk_volume_id disk_name snapshot =
     seqE (maybe_fail ''FakeHypervisor'' ''restore'')
     (seqE (writes (\<lambda>h. h\<lparr>fk_restored := fk_restored h @ [(disk_volume_id, snapshot)]\<rparr>))
           (fake_vm slot disk_name))"

definition fake_snapshot :: "string \<Rightarrow> path \<Rightarrow> (fake, snapshot_files) act" where
  "fake_snapshot socket_path dest_dir =
     (let files = \<lparr>sf_vmstate = dest_dir @ [''vmstate''], sf_memory = dest_dir @ [''memory'']\<rparr> in
      seqE (maybe_fail ''FakeHypervisor'' ''snapshot'')
      (seqE (writes (\<lambda>h. h\<lparr>fk_fs := fs_put (fs_put (fs_mkdirs (fk_fs h) [] dest_dir)
                                      (sf_vmstate files) (NFile ''fake-vmstate''))
                                      (sf_memory files) (NFile ''fake-memory''),
                         fk_snapshots := fk_snapshots h @ [(socket_path, dest_dir)]\<rparr>))
            (ret files)))"

definition fake_build_template :: "int \<Rightarrow> path \<Rightarrow> (fake, snapshot_files) act" where
  "fake_build_template disk_volume_id dest_dir =
     seqE (maybe_fail ''FakeHypervisor'' ''build_template'')
          (fake_snapshot (''/tmp/fake-template-'' @ str_int disk_volume_id @ ''.socket'') dest_dir)"

definition fake_kill :: "int \<Rightarrow> string \<Rightarrow> (fake, unit) act" where
  "fake_kill pid socket_path =
     writes (\<lambda>h. h\<lparr>fk_killed := fk_killed h @ [(pid, socket_path)], fk_alive := dict_pop pid (fk_alive h)\<rparr>)"

definition fake_hypervisor :: "fake hypervisor" where
  "fake_hypervisor =
     \<lparr>hv_boot = fake_boot, hv_restore = fake_restore, hv_snapshot = fake_snapshot,
      hv_build_template = fake_build_template, hv_kill = fake_kill,
      hv_is_alive = (\<lambda>pid h. map_of (fk_alive h) pid \<noteq> None),
      hv_teardown_slot = (\<lambda>slot. writes (\<lambda>h. h\<lparr>fk_torn_down := fk_torn_down h @ [slot]\<rparr>))\<rparr>"

section \<open>FakeGuest\<close>

definition default_exec :: exec_result where
  "default_exec = \<lparr>x_exit_code = 0, x_stdout = [], x_stderr = [], x_exit_signal = None\<rparr>"

definition default_metrics :: vm_metrics where
  "default_metrics =
     \<lparr>m_ram_usage_mb = 64, m_ram_total_mb = 230, m_disk_usage_mb = 200, m_disk_total_mb = 7800,
      m_processes = [JObj [(''pid'', JInt 1), (''command'', JStr ''systemd'')]]\<rparr>"

text \<open>A scripted sequence answers with its next result; the last one stands for every later run.\<close>

definition fake_exec :: "string \<Rightarrow> string \<Rightarrow> int \<Rightarrow> (fake, exec_result) act" where
  "fake_exec ip command timeout =
     seqE (maybe_fail ''FakeGuest'' ''exec'')
     (seqE (writes (\<lambda>h. h\<lparr>fk_commands := fk_commands h @ [(ip, command)]\<rparr>))
     (bindE (reads (\<lambda>h. h)) (\<lambda>h.
      case map_of (fk_script_sequence h) command of
        Some (r # r' # rs) \<Rightarrow>
          seqE (writes (\<lambda>h. h\<lparr>fk_script_sequence := dict_set command (r' # rs) (fk_script_sequence h)\<rparr>)) (ret r)
      | Some [r] \<Rightarrow> ret r
      | _ \<Rightarrow> ret (case map_of (fk_script h) command of Some r \<Rightarrow> r | None \<Rightarrow> default_exec))))"

definition fake_stream :: "string \<Rightarrow> string \<Rightarrow> int \<Rightarrow> (fake, output_line list) act" where
  "fake_stream ip command timeout =
     seqE (maybe_fail ''FakeGuest'' ''stream'')
     (seqE (writes (\<lambda>h. h\<lparr>fk_stream_timeouts := fk_stream_timeouts h @ [timeout],
                        fk_commands := fk_commands h @ [(ip, command)]\<rparr>))
     (bindE (reads (\<lambda>h. case map_of (fk_stream_script h) command of None \<Rightarrow> [] | Some l \<Rightarrow> l)) (\<lambda>items.
      ret (if items = [] \<or> fst (last items) \<noteq> ''exit'' then items @ [(''exit'', ''0'')] else items))))"

definition fake_exec_bg :: "string \<Rightarrow> string \<Rightarrow> (fake, int) act" where
  "fake_exec_bg ip command =
     seqE (maybe_fail ''FakeGuest'' ''exec_bg'')
     (bindE (reads fk_bg_pid) (\<lambda>pid.
      seqE (writes (\<lambda>h. h\<lparr>fk_commands := fk_commands h @ [(ip, command)], fk_bg_pid := pid + 1\<rparr>)) (ret pid)))"

definition fake_upload :: "string \<Rightarrow> string \<Rightarrow> string \<Rightarrow> (fake, unit) act" where
  "fake_upload ip remote_path data =
     seqE (maybe_fail ''FakeGuest'' ''upload'')
          (writes (\<lambda>h. h\<lparr>fk_files := dict_set (ip, remote_path) data (fk_files h)\<rparr>))"

definition fake_download :: "string \<Rightarrow> string \<Rightarrow> (fake, string) act" where
  "fake_download ip remote_path =
     seqE (maybe_fail ''FakeGuest'' ''download'')
     (bindE (reads (\<lambda>h. map_of (fk_files h) (ip, remote_path))) (\<lambda>d.
      case d of Some data \<Rightarrow> ret data
      | None \<Rightarrow> raise (PyError ''FileNotFoundError'' (''File not found: '' @ remote_path))))"

definition fake_guest :: "fake guest" where
  "fake_guest =
     \<lparr>gu_exec = fake_exec, gu_stream = fake_stream, gu_exec_bg = fake_exec_bg, gu_upload = fake_upload,
      gu_download = fake_download,
      gu_metrics = (\<lambda>_ _. seqE (maybe_fail ''FakeGuest'' ''metrics'') (ret default_metrics)),
      gu_warm = (\<lambda>ip. writes (\<lambda>h. h\<lparr>fk_warmed := fk_warmed h @ [ip]\<rparr>)),
      gu_evict = (\<lambda>ip. writes (\<lambda>h. h\<lparr>fk_evicted := fk_evicted h @ [ip]\<rparr>))\<rparr>"

section \<open>FakeObjectStore and FakeProxy\<close>

definition files_in :: "fs \<Rightarrow> path \<Rightarrow> (string \<times> string) list" where
  "files_in f d =
     List.map_filter (\<lambda>n. case fs_lookup f (d @ [n]) of Some (NFile c) \<Rightarrow> Some (n, c) | _ \<Rightarrow> None)
       (fs_children f d)"

definition fake_upload_dir :: "path \<Rightarrow> string \<Rightarrow> (fake, unit) act" where
  "fake_upload_dir local_dir pre =
     seqE (maybe_fail ''FakeObjectStore'' ''upload_dir'')
          (writes (\<lambda>h. h\<lparr>fk_prefixes := dict_set pre (files_in (fk_fs h) local_dir) (fk_prefixes h)\<rparr>))"

definition fake_download_dir :: "string \<Rightarrow> path \<Rightarrow> (fake, unit) act" where
  "fake_download_dir pre local_dir =
     seqE (maybe_fail ''FakeObjectStore'' ''download_dir'')
     (writes (\<lambda>h. h\<lparr>fk_fs := foldl (\<lambda>f (n, c). fs_put f (local_dir @ [n]) (NFile c))
                        (fs_mkdirs (fk_fs h) [] local_dir)
                        (case map_of (fk_prefixes h) pre of None \<Rightarrow> [] | Some l \<Rightarrow> l)\<rparr>))"

definition fake_delete_prefix :: "string \<Rightarrow> (fake, unit) act" where
  "fake_delete_prefix pre = writes (\<lambda>h. h\<lparr>fk_prefixes := dict_pop pre (fk_prefixes h)\<rparr>)"

definition fake_objects :: "fake object_store" where
  "fake_objects =
     \<lparr>ob_upload_dir = fake_upload_dir, ob_download_dir = fake_download_dir,
      ob_delete_prefix = fake_delete_prefix\<rparr>"

definition fake_add_route :: "string \<Rightarrow> string \<Rightarrow> (fake, unit) act" where
  "fake_add_route computer_id ip =
     seqE (maybe_fail ''FakeProxy'' ''add_route'')
          (writes (\<lambda>h. h\<lparr>fk_routes := dict_set computer_id ip (fk_routes h)\<rparr>))"

definition fake_remove_route :: "string \<Rightarrow> (fake, unit) act" where
  "fake_remove_route computer_id = writes (\<lambda>h. h\<lparr>fk_routes := dict_pop computer_id (fk_routes h)\<rparr>)"

definition fake_proxy :: "fake proxy" where
  "fake_proxy =
     \<lparr>pr_ensure_terminal_route =
        seqE (maybe_fail ''FakeProxy'' ''ensure_terminal_route'')
             (writes (\<lambda>h. h\<lparr>fk_terminal_routes := fk_terminal_routes h + 1\<rparr>)),
      pr_add_route = fake_add_route, pr_remove_route = fake_remove_route,
      pr_list_route_ids = reads (\<lambda>h. map (\<lambda>(c, _). ''route-'' @ c) (fk_routes h))\<rparr>"

section \<open>The interpreter's own services and the whole host\<close>

text \<open>A counter in twelve decimal digits stands for the fresh hex digits of uuid4 and for a token; the
  clock is a counter of microseconds.\<close>

definition counter_text :: "int \<Rightarrow> string" where
  "counter_text n = (let s = str_int n in replicate (12 - length s) (CHR ''0'') @ s)"

definition fake_os :: "fake os" where
  "fake_os =
     \<lparr>os_uuid = (\<lambda>h. (counter_text (fk_uuids h), h\<lparr>fk_uuids := fk_uuids h + 1\<rparr>)),
      os_now = (\<lambda>h. (fk_clock h, h\<lparr>fk_clock := fk_clock h + 1\<rparr>)),
      os_token = (\<lambda>_ h. (counter_text (fk_uuids h), h\<lparr>fk_uuids := fk_uuids h + 1\<rparr>)),
      os_fs = fk_fs, os_set_fs = (\<lambda>f h. h\<lparr>fk_fs := f\<rparr>), os_free_bytes = (\<lambda>_. fk_free),
      os_disk_usage = (\<lambda>_. ret (50, 100)),
      os_run = (\<lambda>_ _. ret []), os_build_image = (\<lambda>_. ret ''built''),
      os_keygen = (\<lambda>_ p. writes (\<lambda>f. fs_put f p (NFile ''key'')))\<rparr>"

definition fake_host :: "fake host" where
  "fake_host =
     \<lparr>h_hypervisor = fake_hypervisor, h_blocks = fake_blocks, h_guest = fake_guest,
      h_objects = fake_objects, h_proxy = fake_proxy, h_os = fake_os\<rparr>"

definition fake_config :: config where
  "fake_config =
     \<lparr>cf_checkpoint_local_dir = [''ckpt''], cf_checkpoint_staging_dir = [''staging''],
      cf_idle_timeout_seconds = 1800, cf_checkpoint_retention_count = 30,
      cf_exec_log_retention_seconds = 604800, cf_relay_timeout_seconds = 120,
      cf_relay_body_bytes = 1048576, cf_ssh_key_path = [''root'', ''.ssh'', ''id_ed25519'']\<rparr>"

text \<open>A network on which every name resolves to a public address and every request is answered.\<close>

definition fake_web :: "fake web" where
  "fake_web =
     \<lparr>wb_post = (\<lambda>_ _. ret 200),
      wb_stream = (\<lambda>_. ret \<lparr>hs_status = 200, hs_headers = [], hs_chunks = [''ok''], hs_end = None\<rparr>),
      wb_resolve = (\<lambda>_. ret [''93.184.216.34'']), wb_sleep = (\<lambda>_. ret ())\<rparr>"

definition fake_libraries :: libraries where
  "fake_libraries =
     \<lparr>lib_loads = (\<lambda>_. None), lib_dumps = (\<lambda>_. []), lib_decode = (\<lambda>s. s),
      lib_starlark_exec = (\<lambda>_. Inr [''transform'']), lib_starlark_eval = (\<lambda>_ _. Inr JNull)\<rparr>"

definition fake_env :: "fake env" where
  "fake_env = \<lparr>e_config = fake_config, e_host = fake_host, e_web = fake_web, e_lib = fake_libraries, e_pop = Min, e_sha256 = (\<lambda>s. s), e_md5 = (\<lambda>s. s)\<rparr>"

definition new_world :: "fake world" where
  "new_world =
     \<lparr>w_host = new_fake, w_accounts = [], w_api_keys = [], w_computers = [], w_checkpoints = [],
      w_deferred = [], w_exec_logs = [], w_recipes = [], w_bare_template = None,
      w_ingress_rules = [], w_ingress_logs = [], w_relay_jobs = [], w_alloc = new_allocator,
      w_busy = {}, w_tasks = no_tasks, w_gauge = 0, w_metrics = [], w_alerts = [],
      w_reaper_failures = 0, w_last_failure = None\<rparr>"

end
