(* ===== verification/Recipes.thy ===== *)
theory Recipes
  imports Db Rootfs FakeHost
begin

text \<open>
  Recipes (src/src/mshkn/services/recipes.py): the Dockerfile checks, the CRUD operations, the
  template snapshot of a recipe or of the bare base, and the build pipeline (docker build, export,
  injection into a thin volume). The background task a create spawns is the value
  \<^const>\<open>TRecipeBuild\<close> on the registry; theory \<open>Runtime\<close> says what running it does. The per-account
  build lock and the per-key template lock order concurrent callers; one caller is modelled.
\<close>

section \<open>Dockerfiles\<close>

definition backslash :: char where
  "backslash = CHR 0x5C"

text \<open>\<open>_join_line_continuations\<close>: the loop's variables are the lines so far and the buffer.\<close>

fun join_loop :: "string list \<Rightarrow> string list \<Rightarrow> string \<Rightarrow> string list" where
  "join_loop [] lines buffer = (if buffer \<noteq> [] then lines @ [buffer] else lines)"
| "join_loop (raw # rest) lines buffer =
     (let stripped = strip raw;
          joined = (if buffer \<noteq> [] then strip (buffer @ '' '' @ stripped) else stripped)
      in if joined \<noteq> [] \<and> last joined = backslash
         then join_loop rest lines (rstrip (butlast joined))
         else join_loop rest (lines @ [joined]) [])"

definition join_line_continuations :: "string \<Rightarrow> string list" where
  "join_line_continuations dockerfile = join_loop (splitlines dockerfile) [] []"

text \<open>\<open>_FROM_RE\<close>: the first token after FROM that is not a flag followed by another token.\<close>

fun skip_flags :: "string list \<Rightarrow> string option" where
  "skip_flags [] = None"
| "skip_flags [t] = Some t"
| "skip_flags (t # t' # ts) =
     (if prefix ''--'' t \<and> length t > 2 then skip_flags (t' # ts) else Some t)"

definition from_image :: "string \<Rightarrow> string option" where
  "from_image line =
     (if length line > 4 \<and> upper (take 4 line) = ''FROM'' \<and> is_space (line ! 4)
      then skip_flags (words (drop 4 line)) else None)"

definition dockerfile_base_image :: "string \<Rightarrow> string option" where
  "dockerfile_base_image dockerfile =
     foldl (\<lambda>image line.
        if line = [] \<or> prefix ''#'' line then image
        else case from_image line of Some i \<Rightarrow> Some i | None \<Rightarrow> image)
       None (join_line_continuations dockerfile)"

definition image_name :: "string \<Rightarrow> string" where
  "image_name reference =
     (let name = hd (split_on (CHR ''@'') reference);
          (h, sep, t) = rpartition_at (CHR '':'') name
      in if sep \<and> CHR ''/'' \<notin> set t then h else name)"

definition base_image :: string where
  "base_image = ''mshkn-base''"

definition recipe_image_tag :: "string \<Rightarrow> string" where
  "recipe_image_tag recipe_id = ''mshkn-recipe-img-'' @ recipe_id"

definition build_task_name :: "string \<Rightarrow> string" where
  "build_task_name recipe_id = ''recipe_build:'' @ recipe_id"

section \<open>CRUD\<close>

definition new_recipe :: "string \<Rightarrow> string \<Rightarrow> string \<Rightarrow> string \<Rightarrow> string \<Rightarrow> recipe" where
  "new_recipe i account_id dockerfile content_hash created_at =
     \<lparr>r_id = i, r_account_id = account_id, r_dockerfile = dockerfile, r_content_hash = content_hash,
      r_status = RPending, r_build_log = None, r_base_volume_id = None, r_template_vmstate = None,
      r_template_memory = None, r_created_at = created_at, r_built_at = None\<rparr>"

definition create_recipe :: "'h env \<Rightarrow> account \<Rightarrow> string \<Rightarrow> ('h, recipe \<times> bool) st" where
  "create_recipe E account dockerfile =
     (case dockerfile_base_image dockerfile of
        None \<Rightarrow> raise_domain InvalidInput ''Dockerfile has no FROM instruction''
      | Some base \<Rightarrow>
          if image_name base \<noteq> base_image
          then raise_domain InvalidInput
                 (''recipes must be built FROM '' @ base_image @ '' (the final stage is FROM '' @ base @ '')'')
          else
            (let content_hash = e_sha256 E dockerfile in
             bindE (reads (get_recipe_by_content_hash (a_id account) content_hash)) (\<lambda>existing.
             case existing of
               Some r \<Rightarrow> ret (r, False)
             | None \<Rightarrow>
                 seqE (delete_failed_recipes_by_hash (a_id account) content_hash)
                 (bindE (uuid4_hex E) (\<lambda>hex.
                  bindE (utcnow E) (\<lambda>now.
                  let r = new_recipe (''rcp-'' @ take 12 hex) (a_id account) dockerfile content_hash now in
                  seqE (insert_recipe r)
                  (bindE (allocop acquire_volume_id) (\<lambda>volume_id.
                   seqE (spawn (TRecipeBuild (r_id r) dockerfile content_hash volume_id)
                           (build_task_name (r_id r)) (Some (build_task_name (r_id r))))
                        (ret (r, True)))))))))) "

definition get_owned_recipe :: "account \<Rightarrow> string \<Rightarrow> ('h, recipe) st" where
  "get_owned_recipe account recipe_id =
     bindE (reads (get_recipe recipe_id)) (\<lambda>r.
     case r of
       None \<Rightarrow> raise_domain NotFound ''Recipe not found''
     | Some r \<Rightarrow> if r_account_id r \<noteq> a_id account then raise_domain NotFound ''Recipe not found'' else ret r)"

definition list_recipes :: "account \<Rightarrow> 'h world \<Rightarrow> recipe list" where
  "list_recipes account w = list_recipes_by_account (a_id account) w"

definition shell_run :: "'h env \<Rightarrow> string \<Rightarrow> bool \<Rightarrow> ('h, string) st" where
  "shell_run E cmd must = hostop (os_run (h_os (e_host E)) cmd must)"

definition blocks_of :: "'h env \<Rightarrow> 'h block_store" where
  "blocks_of E = h_blocks (e_host E)"

definition delete_owned_recipe :: "'h env \<Rightarrow> account \<Rightarrow> string \<Rightarrow> ('h, unit) st" where
  "delete_owned_recipe E account recipe_id =
     bindE (get_owned_recipe account recipe_id) (\<lambda>r.
     bindE (reads (count_recipe_references recipe_id)) (\<lambda>refs.
     if refs > 0
     then raise_domain Conflict (''Recipe is referenced by '' @ str_int refs @ '' computer(s)/checkpoint(s)'')
     else
       seqE (case r_base_volume_id r of
               Some v \<Rightarrow> hostop (bs_remove (blocks_of E) v (recipe_volume_name (r_id r)))
             | None \<Rightarrow> ret ())
       (seqE (delete_recipe recipe_id)
             (suppress (bindE (shell_run E (''docker rmi -f '' @ recipe_image_tag recipe_id) False)
                              (\<lambda>_. ret ()))))))"

definition resolve :: "string \<Rightarrow> ('h, recipe) st" where
  "resolve recipe_id =
     bindE (reads (get_recipe recipe_id)) (\<lambda>r.
     case r of
       None \<Rightarrow> raise_domain NotFound (''Recipe '' @ recipe_id @ '' not found'')
     | Some r \<Rightarrow>
         if r_status r \<noteq> RReady
         then raise_domain Conflict
                (''Recipe '' @ recipe_id @ '' is not ready (status='' @ recipe_status_text (r_status r) @ '')'')
         else if r_base_volume_id r = None
         then raise_domain Conflict (''Recipe '' @ recipe_id @ '' has no base volume'')
         else ret r)"

section \<open>Templates\<close>

definition path_text :: "path \<Rightarrow> string" where
  "path_text p = ''/'' @ join ''/'' p"

definition text_path :: "string \<Rightarrow> path" where
  "text_path t = filter (\<lambda>x. x \<noteq> []) (split_on (CHR ''/'') t)"

definition files_of_texts :: "string \<Rightarrow> string \<Rightarrow> snapshot_files" where
  "files_of_texts vmstate memory = \<lparr>sf_vmstate = text_path vmstate, sf_memory = text_path memory\<rparr>"

definition cached_template :: "recipe option \<Rightarrow> 'h world \<Rightarrow> snapshot_files option" where
  "cached_template r w =
     (case r of
        Some r \<Rightarrow>
          (case get_recipe (r_id r) w of
             None \<Rightarrow> None
           | Some fresh \<Rightarrow>
               (case (r_template_vmstate fresh, r_template_memory fresh) of
                  (Some v, Some m) \<Rightarrow> if v \<noteq> [] \<and> m \<noteq> [] then Some (files_of_texts v m) else None
                | _ \<Rightarrow> None))
      | None \<Rightarrow> map_option (\<lambda>(v, m). files_of_texts v m) (get_bare_template w))"

definition ensure_template :: "'h env \<Rightarrow> recipe option \<Rightarrow> ('h, snapshot_files option) st" where
  "ensure_template E r =
     (let key = (case r of Some r \<Rightarrow> r_id r | None \<Rightarrow> ''bare'');
          dest_dir = cf_checkpoint_local_dir (e_config E) @ [''templates'', key] in
      bindE (reads (cached_template r)) (\<lambda>cached.
      case cached of
        Some files \<Rightarrow> ret (Some files)
      | None \<Rightarrow>
          bindE (case r of
                   None \<Rightarrow> ret 0
                 | Some r \<Rightarrow>
                     (case r_base_volume_id r of
                        None \<Rightarrow> raise_domain Conflict (''Recipe '' @ r_id r @ '' has no base volume'')
                      | Some v \<Rightarrow> ret v)) (\<lambda>source_volume_id.
          bindE (catch_exception
                   (bindE (hostop (hv_build_template (h_hypervisor (e_host E)) source_volume_id dest_dir))
                          (\<lambda>files. ret (Some files)))
                   (\<lambda>_. ret None)) (\<lambda>built.
          case built of
            None \<Rightarrow> ret None
          | Some files \<Rightarrow>
              seqE (case r of
                      Some r \<Rightarrow> update_recipe_template (r_id r) (path_text (sf_vmstate files)) (path_text (sf_memory files))
                    | None \<Rightarrow> cache_bare_template (path_text (sf_vmstate files)) (path_text (sf_memory files)))
                   (ret (Some files))))))"

section \<open>The build pipeline\<close>

text \<open>\<open>export_image\<close>: the container is removed even when the export fails.\<close>

definition export_image :: "'h env \<Rightarrow> string \<Rightarrow> string \<Rightarrow> path \<Rightarrow> ('h, unit) st" where
  "export_image E image_tag container_name tar_path =
     finallyE
       (bindE (shell_run E (''docker create --name '' @ container_name @ '' '' @ image_tag) True) (\<lambda>_.
        bindE (shell_run E (''docker export -o '' @ path_text tar_path @ '' '' @ container_name) True) (\<lambda>_. ret ())))
       (suppress (bindE (shell_run E (''docker rm '' @ container_name) False) (\<lambda>_. ret ())))"

text \<open>\<open>Path.with_suffix('.pub')\<close>.\<close>

definition with_pub_suffix :: "path \<Rightarrow> path" where
  "with_pub_suffix p =
     (let (h, sep, t) = rpartition_at (CHR ''.'') (last p);
          stem = (if sep \<and> h \<noteq> [] \<and> t \<noteq> [] then h else last p)
      in butlast p @ [stem @ ''.pub''])"

definition pub_key_path :: "'h env \<Rightarrow> path" where
  "pub_key_path E = with_pub_suffix (cf_ssh_key_path (e_config E))"

definition inject_tar :: "'h env \<Rightarrow> string \<Rightarrow> path \<Rightarrow> ('h, unit) st" where
  "inject_tar E volume_name tar_path =
     seqE (hostop (bs_mkfs (blocks_of E) volume_name))
     (bindE (hostop (bs_mount (blocks_of E) volume_name False)) (\<lambda>mount_point.
      finallyE
        (bindE (shell_run E (''tar xf '' @ path_text tar_path @ '' -C '' @ path_text mount_point) True) (\<lambda>_.
         fsop E (post_process_rootfs (os_keygen (h_os (e_host E))) (pub_key_path E) mount_point)))
        (hostop (bs_unmount (blocks_of E) volume_name))))"

text \<open>The two variables the handlers read: is the device active, and the log so far.\<close>

record build_locals =
  bl_device_active :: bool
  bl_log_lines :: "string list"

definition build_dir_of :: "string \<Rightarrow> path" where
  "build_dir_of content_hash = [''tmp'', ''mshkn-build-'' @ content_hash]"

definition prepare_build_dir :: "'h env \<Rightarrow> path \<Rightarrow> string \<Rightarrow> ('h, unit) st" where
  "prepare_build_dir E build_dir dockerfile =
     fsop E
       (seqE (mkdirs build_dir)
       (seqE (write_text (build_dir @ [''Dockerfile'']) dockerfile)
       (bindE (reads (\<lambda>f. path_exists f (pub_key_path E))) (\<lambda>b.
        if b then bindE (read_text (pub_key_path E)) (write_text (build_dir @ [''mshkn_key.pub'']))
        else write_text (build_dir @ [''mshkn_key.pub'']) []))))"

definition log_text :: "string list \<Rightarrow> string" where
  "log_text ls = join newline ls"

definition build_steps ::
  "'h env \<Rightarrow> string \<Rightarrow> string \<Rightarrow> string \<Rightarrow> int \<Rightarrow> ('h world \<times> build_locals, unit) act" where
  "build_steps E recipe_id dockerfile content_hash volume_id =
     (let build_dir = build_dir_of content_hash;
          tar_path = build_dir @ [''rootfs.tar''];
          volume_name = recipe_volume_name recipe_id;
          image_tag = recipe_image_tag recipe_id;
          build_cmd = ''docker build --memory=4g --cpuset-cpus=0-1 -t '' @ image_tag @ '' '' @ path_text build_dir in
      seqE (lifted (update_recipe_status recipe_id RBuilding))
      (seqE (lifted (prepare_build_dir E build_dir dockerfile))
      (bindE (lifted (hostop (os_build_image (h_os (e_host E)) build_cmd))) (\<lambda>output.
       seqE (assign (bl_log_lines_update (\<lambda>l. l @ [output])))
      (seqE (lifted (update_recipe_status recipe_id RExporting))
      (seqE (lifted (export_image E image_tag (''tmp-'' @ recipe_id) tar_path))
      (seqE (lifted (update_recipe_status recipe_id RInjecting))
      (seqE (lifted (hostop (bs_snap (blocks_of E) 0 volume_id)))
      (seqE (lifted (hostop (bs_activate (blocks_of E) volume_id volume_name)))
      (seqE (assign (bl_device_active_update (\<lambda>_. True)))
      (seqE (lifted (inject_tar E volume_name tar_path))
      (seqE (lifted (hostop (bs_deactivate (blocks_of E) volume_name)))
      (seqE (assign (bl_device_active_update (\<lambda>_. False)))
      (bindE local (\<lambda>l.
       bindE (lifted (utcnow E)) (\<lambda>now.
       lifted (update_recipe_build_result recipe_id RReady (Some (log_text (bl_log_lines l)))
                 (Some volume_id) (Some now))))))))))))))))))"

definition build_failed :: "'h env \<Rightarrow> string \<Rightarrow> exc \<Rightarrow> ('h world \<times> build_locals, unit) act" where
  "build_failed E recipe_id e =
     seqE (assign (bl_log_lines_update (\<lambda>l. l @ [newline @ ''--- BUILD FAILED ---'' @ newline @ exc_str e])))
     (bindE local (\<lambda>l.
      seqE (lifted (update_recipe_build_result recipe_id RFailed (Some (log_text (bl_log_lines l))) None None))
           (lifted (suppress (bindE (shell_run E (''docker rmi -f '' @ recipe_image_tag recipe_id) False)
                                    (\<lambda>_. ret ()))))))"

definition build_cleanup :: "'h env \<Rightarrow> string \<Rightarrow> string \<Rightarrow> ('h world \<times> build_locals, unit) act" where
  "build_cleanup E recipe_id content_hash =
     bindE local (\<lambda>l.
     seqE (whenE (bl_device_active l)
             (lifted (suppress (hostop (bs_deactivate (blocks_of E) (recipe_volume_name recipe_id))))))
          (lifted (rmtree E (build_dir_of content_hash))))"

definition build :: "'h env \<Rightarrow> string \<Rightarrow> string \<Rightarrow> string \<Rightarrow> int \<Rightarrow> ('h, unit) st" where
  "build E recipe_id dockerfile content_hash volume_id =
     with_locals \<lparr>bl_device_active = False, bl_log_lines = []\<rparr>
       (finallyE
          (catch_exception (build_steps E recipe_id dockerfile content_hash volume_id) (build_failed E recipe_id))
          (build_cleanup E recipe_id content_hash))"

section \<open>Lemmas\<close>

lemma get_recipe_row: "get_recipe i w = recipes.row i w"
  by (simp add: get_recipe_def recipes.row_def)

definition has_recipe :: "string \<Rightarrow> 'h world \<Rightarrow> bool" where
  "has_recipe i w \<longleftrightarrow> get_recipe i w \<noteq> None"

lemma ignores_has_recipe: "ignores_host (has_recipe i)"
  by (simp add: ignores_host_def has_recipe_def get_recipe_def)

lemma has_recipe_update:
  "(\<And>r. r_id (g r) = r_id r) \<Longrightarrow> has_recipe i w \<Longrightarrow> has_recipe i (w_recipes_update (update_where P g) w)"
  by (simp add: has_recipe_def get_recipe_row recipes.row_after_update)

lemma has_recipe_writes:
  "keeps (has_recipe i) (update_recipe_status j s)"
  "keeps (has_recipe i) (update_recipe_build_result j s l v b)"
  unfolding update_recipe_status_def update_recipe_build_result_def
  by (rule keeps_writes, rule has_recipe_update, simp, assumption)+

lemmas has_recipe_keeps =
  keeps_intros keeps_host_steps [OF ignores_has_recipe] has_recipe_writes

lemma keeps_shell: "ignores_host I \<Longrightarrow> keeps I (shell_run E c b)"
  by (simp add: shell_run_def keeps_host_steps)

text \<open>A build has settled: the row is ready with the volume, or failed without one.\<close>

definition settled :: "string \<Rightarrow> int \<Rightarrow> 'h world \<Rightarrow> bool" where
  "settled i v w \<longleftrightarrow>
     (\<exists>r. get_recipe i w = Some r \<and> r_build_log r \<noteq> None \<and>
          (r_status r = RReady \<and> r_base_volume_id r = Some v \<and> r_built_at r \<noteq> None \<or>
           r_status r = RFailed \<and> r_base_volume_id r = None))"

lemma ignores_settled: "ignores_host (settled i v)"
  by (simp add: ignores_host_def settled_def get_recipe_def)

lemma build_result_settles:
  assumes "has_recipe i w" and "s = RReady \<and> vol = Some v \<and> b \<noteq> None \<or> s = RFailed \<and> vol = None"
  shows "wp (update_recipe_build_result i s (Some l) vol b) (\<lambda>_. settled i v) R w"
proof -
  obtain r where "get_recipe i w = Some r" "r_id r = i"
    using assms(1) by (auto simp: has_recipe_def get_recipe_def dest: find_SomeD)
  then show ?thesis
    using assms(2)
    by (auto simp: update_recipe_build_result_def wp_simps settled_def get_recipe_row recipes.row_after_update)
qed

lemma build_steps_wp:
  assumes "has_recipe i w"
  shows "wp (build_steps E i dockerfile h v) (\<lambda>_ (w, l). settled i v w) (\<lambda>_ (w, l). has_recipe i w) (w, l)"
proof -
  let ?I = "\<lambda>(w, l::build_locals). has_recipe i w"
  have j: "keeps ?I (lifted m)" if "keeps (has_recipe i) m" for m :: "('a, 'x) st"
    by (rule keeps_lifted) (rule that)
  have inject: "keeps (has_recipe i) (inject_tar E a b)" for a b
    unfolding inject_tar_def
    by (intro has_recipe_keeps keeps_shell ignores_has_recipe)
  have export: "keeps (has_recipe i) (export_image E a b c)" for a b c
    unfolding export_image_def by (intro has_recipe_keeps keeps_shell ignores_has_recipe)
  have prep: "keeps (has_recipe i) (prepare_build_dir E a b)" for a b
    unfolding prepare_build_dir_def by (intro has_recipe_keeps)
  note k = keeps_host_steps [OF ignores_has_recipe] has_recipe_writes inject export prep
  show ?thesis
    unfolding build_steps_def Let_def
    by ((rule wp_seq_keeps [where I = ?I] wp_bind_keeps [where I = ?I],
         (rule keeps_assign keeps_local | (rule j, rule k)), (assumption | simp add: assms))+)
       (auto simp: wp_lifted intro!: build_result_settles)
qed

lemma build_failed_wp:
  assumes "has_recipe i w"
  shows "wp (build_failed E i e) (\<lambda>_ (w, l). settled i v w) (\<lambda>e _. \<not> is_exception e) (w, l)"
proof -
  have s: "wp (shell_run E c False) (\<lambda>_. settled i v)
      (\<lambda>e. if is_exception e then settled i v else (\<lambda>_. \<not> is_exception e)) w" if "settled i v w" for c w
    by (rule wp_mono [OF keeps_wp [OF keeps_shell [OF ignores_settled] that]]) auto
  show ?thesis
    using assms
    by (auto simp: build_failed_def wp_simps intro!: wp_mono [OF build_result_settles [where v = v]] s)
qed

lemma build_cleanup_wp:
  assumes P: "ignores_host P" and "P w"
  shows "wp (build_cleanup E i h) (\<lambda>_ (w, l). P w) (\<lambda>e _. \<not> is_exception e) (w, l)"
proof -
  have d: "wp (hostop m) (\<lambda>_. P) (\<lambda>e. if is_exception e then P else (\<lambda>_. \<not> is_exception e)) w"
    if "P w" for m :: "('a, unit) act" and w
    by (rule wp_mono [OF keeps_wp [OF keeps_host_steps(1) [OF P] that]]) auto
  have r: "wp (rmtree E p) (\<lambda>_. P) (\<lambda>e _. \<not> is_exception e) w" if "P w" for p w
    using that P by (simp add: rmtree_def change_fs_def wp_simps ignores_host_def)
  show ?thesis
    using assms(2) by (auto simp: build_cleanup_def wp_local wp_bindE wp_seqE wp_whenE wp_lifted wp_suppress
        intro!: wp_mono [OF d] r)
qed

text \<open>Only an interruption escapes a build; without one its row has settled.\<close>

lemma build_wp:
  assumes "has_recipe i w"
  shows "wp (build E i dockerfile h v) (\<lambda>_. settled i v) (\<lambda>e _. \<not> is_exception e) w"
proof -
  let ?C = "\<lambda>P. wp (build_cleanup E i h) (\<lambda>_ (w, l). P w) (\<lambda>e _. \<not> is_exception e)"
  have c1: "?C (settled i v) (w, l)" if "settled i v w" for w l
    by (rule build_cleanup_wp [OF ignores_settled that])
  have c2: "?C (\<lambda>_. True) (w, l)" for w l
    by (rule build_cleanup_wp) (simp_all add: ignores_host_def)
  have c3: "wp (build_cleanup E i h) (\<lambda>_ _. \<not> is_exception e) (\<lambda>e _. \<not> is_exception e) (w, l)"
    if "\<not> is_exception e" for e w l
    by (rule wp_mono [OF c2]) (use that in auto)
  show ?thesis
    unfolding build_def wp_with_locals wp_finallyE wp_catch_exception split_def
  proof (rule wp_mono [OF build_steps_wp [OF assms]])
    fix a :: unit and p :: "'a world \<times> build_locals"
    assume "case p of (w, l) \<Rightarrow> settled i v w"
    then show "wp (build_cleanup E i h) (\<lambda>_ p. settled i v (fst p)) (\<lambda>e _. \<not> is_exception e) p"
      using c1 by (cases p) (simp add: split_def)
  next
    fix e and p :: "'a world \<times> build_locals"
    assume "case p of (w, l) \<Rightarrow> has_recipe i w"
    then obtain w' l where p: "p = (w', l)" "has_recipe i w'" by (cases p) simp
    have f: "wp (build_failed E i e)
        (\<lambda>_. wp (build_cleanup E i h) (\<lambda>_ p. settled i v (fst p)) (\<lambda>e _. \<not> is_exception e))
        (\<lambda>e. wp (build_cleanup E i h) (\<lambda>_ _. \<not> is_exception e) (\<lambda>e _. \<not> is_exception e)) p"
      unfolding p(1)
    proof (rule wp_mono [OF build_failed_wp [OF p(2), where v = v]])
      fix a :: unit and q :: "'a world \<times> build_locals"
      assume "case q of (w, l) \<Rightarrow> settled i v w"
      then show "wp (build_cleanup E i h) (\<lambda>_ p. settled i v (fst p)) (\<lambda>e _. \<not> is_exception e) q"
        using c1 by (cases q) (simp add: split_def)
    next
      fix e and q :: "'a world \<times> build_locals"
      assume "\<not> is_exception e"
      then show "wp (build_cleanup E i h) (\<lambda>_ _. \<not> is_exception e) (\<lambda>e _. \<not> is_exception e) q"
        using c3 by (cases q) simp
    qed
    show "(if is_exception e
        then wp (build_failed E i e)
          (\<lambda>a. wp (build_cleanup E i h) (\<lambda>_ p. settled i v (fst p)) (\<lambda>e p. \<not> is_exception e))
          (\<lambda>e. wp (build_cleanup E i h) (\<lambda>_ p. \<not> is_exception e) (\<lambda>e p. \<not> is_exception e))
        else wp (build_cleanup E i h) (\<lambda>_ p. \<not> is_exception e) (\<lambda>e p. \<not> is_exception e)) p"
      using f c3 p(1) by (cases "is_exception e") simp_all
  qed
qed

section \<open>Creating and deleting\<close>

lemma create_recipe_rejects:
  "\<not> (\<exists>b. dockerfile_base_image d = Some b \<and> image_name b = base_image) \<Longrightarrow>
   \<exists>m. create_recipe E account d w = (Inl (MshknError InvalidInput m None), w)"
  by (auto simp: create_recipe_def raise_domain_def raise_def split: option.splits)

lemma create_recipe_existing:
  assumes "dockerfile_base_image d = Some b" and "image_name b = base_image"
    and "get_recipe_by_content_hash (a_id account) (e_sha256 E d) w = Some r"
  shows "create_recipe E account d w = (Inr (r, False), w)"
  using assms by (simp add: create_recipe_def Let_def bindE_def reads_def ret_def)

lemma resolve_iff:
  "outcome (resolve i) w = Inr r \<longleftrightarrow>
     get_recipe i w = Some r \<and> r_status r = RReady \<and> r_base_volume_id r \<noteq> None"
  by (auto simp: outcome_def resolve_def bindE_def reads_def ret_def raise_domain_def raise_def
      split: option.splits if_splits)

lemma resolve_state [simp]: "run_state (resolve i) w = w"
  by (simp add: run_state_def resolve_def bindE_def reads_def ret_def raise_domain_def raise_def split: option.splits)

definition recipe_unreferenced :: "string \<Rightarrow> 'h world \<Rightarrow> bool" where
  "recipe_unreferenced i w \<longleftrightarrow>
     (\<forall>c\<in>set (w_computers w). c_recipe_id c = Some i \<longrightarrow> c_status c = Destroyed) \<and>
     (\<forall>c\<in>set (w_checkpoints w). ck_recipe_id c \<noteq> Some i)"

lemma count_recipe_references_zero:
  "count_recipe_references i w \<le> 0 \<longleftrightarrow> recipe_unreferenced i w"
proof -
  have z: "int a + int b \<le> 0 \<longleftrightarrow> a = 0 \<and> b = 0" for a b :: nat by linarith
  show ?thesis
    unfolding count_recipe_references_def z by (auto simp: recipe_unreferenced_def filter_empty_conv)
qed

lemma find_snoc: "find P (xs @ [x]) = (case find P xs of Some y \<Rightarrow> Some y | None \<Rightarrow> if P x then Some x else None)"
  by (induction xs) simp_all

lemma wp_uuid: "(\<And>s h. Q s (w\<lparr>w_host := h\<rparr>)) \<Longrightarrow> wp (uuid4_hex E) Q R w"
  by (auto simp: uuid4_hex_def wp_hostop wp_def split: prod.splits)

lemma wp_utcnow: "(\<And>s h. Q s (w\<lparr>w_host := h\<rparr>)) \<Longrightarrow> wp (utcnow E) Q R w"
  by (auto simp: utcnow_def wp_hostop wp_def split: prod.splits)

definition build_started :: "'h env \<Rightarrow> account \<Rightarrow> string \<Rightarrow> recipe \<Rightarrow> 'h world \<Rightarrow> bool" where
  "build_started E account d r w \<longleftrightarrow>
     get_recipe (r_id r) w = Some r \<and> r_status r = RPending \<and> r_account_id r = a_id account \<and>
     r_content_hash r = e_sha256 E d \<and>
     filter (\<lambda>q. r_account_id q = a_id account \<and> r_content_hash q = e_sha256 E d) (w_recipes w) = [r] \<and>
     list_ex (\<lambda>(n, name, t). name = build_task_name (r_id r) \<and>
         (case t of TRecipeBuild i d' h v \<Rightarrow> i = r_id r \<and> d' = d \<and> h = e_sha256 E d \<and> v < sa_next_volume_id (w_alloc w)
          | _ \<Rightarrow> False)) (bg_tasks (w_tasks w))"

lemma start_build_wp:
  assumes fresh: "filter (\<lambda>q. r_account_id q = a_id account \<and> r_content_hash q = e_sha256 E d) (w_recipes w) = []"
    and r: "r_status r = RPending" "r_account_id r = a_id account" "r_content_hash r = e_sha256 E d"
    and Q: "\<And>w'. build_started E account d r w' \<Longrightarrow> Q w'"
  shows "wp (insert_recipe r) (\<lambda>_. wp (allocop acquire_volume_id) (\<lambda>v.
           wp (spawn (TRecipeBuild (r_id r) d (e_sha256 E d) v) (build_task_name (r_id r))
                (Some (build_task_name (r_id r)))) (\<lambda>_. Q) (\<lambda>_ _. True)) (\<lambda>_ _. True)) (\<lambda>_ _. True) w"
proof -
  have none: "find (\<lambda>q. r_id q = r_id r) (w_recipes w) = None"
    if "\<not> list_ex (\<lambda>s. r_id r = r_id s \<or> P s) (w_recipes w)" for P
    using that by (auto simp: find_None_iff list_ex_iff)
  have "build_started E account d r w'"
    if "w_recipes w' = w_recipes w @ [r]" "find (\<lambda>q. r_id q = r_id r) (w_recipes w) = None"
      and "w_tasks w' = bg_spawn (TRecipeBuild (r_id r) d (e_sha256 E d) v) (build_task_name (r_id r)) k t"
      and "v < sa_next_volume_id (w_alloc w')" for w' v k t
    using that fresh r by (simp add: build_started_def get_recipe_def find_snoc bg_spawn_def)
  then show ?thesis
    using none
    by (simp add: insert_recipe_def wp_insert_row wp_allocop acquire_volume_id_def take_volume_id_def
        wp_bindE wp_seqE wp_reads wp_writes wp_ret spawn_def Q)
qed

lemma create_recipe_wp:
  "wp (create_recipe E account d)
     (\<lambda>(r, created) w'. (created \<longrightarrow> build_started E account d r w') \<and>
        (\<not> created \<longrightarrow> w' = w \<and> get_recipe_by_content_hash (a_id account) (e_sha256 E d) w = Some r) \<and>
        (\<exists>b. dockerfile_base_image d = Some b \<and> image_name b = base_image))
     (\<lambda>_ _. True) w"
proof (cases "(\<exists>b. dockerfile_base_image d = Some b \<and> image_name b = base_image)")
  case False
  then obtain m where "create_recipe E account d w = (Inl (MshknError InvalidInput m None), w)"
    using create_recipe_rejects by blast
  then show ?thesis by (simp add: wp_def)
next
  case True
  then obtain b where b: "dockerfile_base_image d = Some b" "image_name b = base_image" by blast
  let ?h = "e_sha256 E d"
  show ?thesis
  proof (cases "get_recipe_by_content_hash (a_id account) ?h w")
    case (Some r)
    then show ?thesis using create_recipe_existing [OF b Some] b by (simp add: wp_def)
  next
    case None
    have failed: "\<not> (r_account_id r = a_id account \<and> r_content_hash r = ?h)"
      if "r \<in> set (w_recipes w)" "\<not> (r_account_id r = a_id account \<and> r_content_hash r = ?h \<and> r_status r = RFailed)" for r
      using None that by (auto simp: get_recipe_by_content_hash_def find_None_iff)
    have keep: "filter (\<lambda>q. r_account_id q = a_id account \<and> r_content_hash q = ?h)
        (filter (\<lambda>r. \<not> (r_account_id r = a_id account \<and> r_content_hash r = ?h \<and> r_status r = RFailed)) (w_recipes w)) = []"
      using failed by (auto simp: filter_empty_conv)
    show ?thesis
      unfolding create_recipe_def b(1) option.case Let_def wp_bindE wp_reads None wp_seqE
        delete_failed_recipes_by_hash_def wp_writes
      apply (simp only: b(2) not_True_eq_False if_False simp_thms wp_bindE wp_reads None option.case wp_seqE wp_writes)
      apply (rule wp_uuid)
      apply (rule wp_utcnow)
      apply (simp only: wp_bindE wp_seqE wp_ret)
      apply (rule start_build_wp)
      using keep b by (simp_all add: new_recipe_def)
  qed
qed

section \<open>Properties\<close>

text \<open>A recipe is created only from a Dockerfile whose final stage is the base image, and at most
  once per account and content: a create either returns the recipe that already has the content
  and changes nothing, or leaves exactly one row with it, pending, and a build task for it.\<close>

lemma create_recipe_once:
  "case outcome (create_recipe E account d) w of
     Inr (r, created) \<Rightarrow>
       (\<exists>b. dockerfile_base_image d = Some b \<and> image_name b = base_image) \<and>
       (if created then build_started E account d r (run_state (create_recipe E account d) w)
        else run_state (create_recipe E account d) w = w \<and>
             get_recipe_by_content_hash (a_id account) (e_sha256 E d) w = Some r)
   | Inl e \<Rightarrow> True"
  using create_recipe_wp [of E account d w] by (auto simp: wp_outcome split: sum.splits)

text \<open>C31: a build settles its recipe whatever docker, the block store and the file system do: it
  raises nothing but an interruption, and without one the row ends ready with the build's volume
  or failed without a volume, with a log either way.\<close>

theorem build_settles:
  assumes "get_recipe i w = Some r"
  shows "case outcome (build E i d h v) w of
           Inr _ \<Rightarrow> settled i v (run_state (build E i d h v) w)
         | Inl e \<Rightarrow> \<not> is_exception e"
proof -
  have "has_recipe i w" using assms by (simp add: has_recipe_def)
  from build_wp [OF this, of E d h v] show ?thesis by (simp add: wp_outcome split: sum.splits)
qed

definition demo_recipe :: recipe where
  "demo_recipe = new_recipe ''rcp-1'' ''acct-1'' ''FROM mshkn-base'' ''h'' ''0''"

definition recipe_world :: "fake world" where
  "recipe_world = new_world\<lparr>w_recipes := [demo_recipe],
     w_checkpoints := [\<lparr>ck_id = ''ckpt-1'', ck_account_id = ''acct-1'', ck_parent_id = None,
       ck_computer_id = None, ck_thin_volume_id = None, ck_r2_prefix = [], ck_disk_delta_size_bytes = None,
       ck_memory_size_bytes = None, ck_label = None, ck_pinned = False, ck_created_at = ''0'',
       ck_recipe_id = Some ''rcp-1''\<rparr>]\<rparr>"

lemma build_settles_witness:
  "case outcome (build fake_env ''rcp-1'' ''FROM mshkn-base'' ''h'' 100) recipe_world of
     Inr _ \<Rightarrow> settled ''rcp-1'' 100 (run_state (build fake_env ''rcp-1'' ''FROM mshkn-base'' ''h'' 100) recipe_world)
   | Inl e \<Rightarrow> \<not> is_exception e"
proof -
  have "get_recipe ''rcp-1'' recipe_world = Some demo_recipe"
    by (simp add: get_recipe_def recipe_world_def demo_recipe_def new_recipe_def)
  then show ?thesis by (rule build_settles)
qed

text \<open>A recipe a computer can be created from is ready and has a volume, and a recipe that a
  computer which is not destroyed or any checkpoint refers to cannot be deleted.\<close>

lemma recipe_in_use:
  "(outcome (resolve i) w = Inr r \<longleftrightarrow>
      get_recipe i w = Some r \<and> r_status r = RReady \<and> r_base_volume_id r \<noteq> None) \<and>
   (\<not> recipe_unreferenced i w \<longrightarrow>
      (\<exists>e. delete_owned_recipe E account i w = (Inl e, w) \<and> is_mshkn_error e))"
proof
  show "outcome (resolve i) w = Inr r \<longleftrightarrow>
      get_recipe i w = Some r \<and> r_status r = RReady \<and> r_base_volume_id r \<noteq> None"
    by (rule resolve_iff)
  have "0 < count_recipe_references i w" if "\<not> recipe_unreferenced i w"
    using that count_recipe_references_zero [of i w] by simp
  then show "\<not> recipe_unreferenced i w \<longrightarrow>
      (\<exists>e. delete_owned_recipe E account i w = (Inl e, w) \<and> is_mshkn_error e)"
    by (auto simp: delete_owned_recipe_def get_owned_recipe_def bindE_def reads_def ret_def raise_domain_def
        raise_def split: option.splits)
qed

lemma recipe_in_use_witness:
  "\<exists>e. delete_owned_recipe fake_env \<lparr>a_id = ''acct-1'', a_api_key = ''key'', a_vm_limit = 1, a_created_at = ''0''\<rparr> ''rcp-1'' recipe_world = (Inl e, recipe_world) \<and> is_mshkn_error e"
proof -
  have "\<not> recipe_unreferenced ''rcp-1'' recipe_world" by (simp add: recipe_unreferenced_def recipe_world_def)
  then show ?thesis using recipe_in_use [of "''rcp-1''" recipe_world demo_recipe fake_env "\<lparr>a_id = ''acct-1'', a_api_key = ''key'', a_vm_limit = 1, a_created_at = ''0''\<rparr>"] by blast
qed

end
