(* ===== verification/Computers.thy ===== *)
theory Computers
  imports Recipes FakeHost
begin

text \<open>
  Computers (src/src/mshkn/services/computers.py): lookups, create and fork with the guarded
  bring-up, the teardown pass and its callers, and the guest operations. The calls a
  \<open>gather\<close> runs together are run in the order they are listed; the log lines are left out.
\<close>

section \<open>Cleanup passes\<close>

definition best_effort :: "('h, unit) st \<Rightarrow> ('h, exc option) st" where
  "best_effort action = bindE (tryE action) (\<lambda>r. ret (case r of Inl e \<Rightarrow> Some e | Inr _ \<Rightarrow> None))"

record cleanup_pass =
  cp_failure :: "(string \<times> exc) option"
  cp_interrupted :: "exc option"

definition new_pass :: cleanup_pass where
  "new_pass = \<lparr>cp_failure = None, cp_interrupted = None\<rparr>"

definition note_outcome :: "string \<Rightarrow> exc option \<Rightarrow> cleanup_pass \<Rightarrow> cleanup_pass" where
  "note_outcome what result cp =
     (case result of
        None \<Rightarrow> cp
      | Some e \<Rightarrow>
          if is_exception e
          then (if cp_failure cp = None then cp\<lparr>cp_failure := Some (what, e)\<rparr> else cp)
          else if cp_interrupted cp = None then cp\<lparr>cp_interrupted := Some e\<rparr> else cp)"

definition cleanup_step :: "string \<Rightarrow> ('h, unit) st \<Rightarrow> cleanup_pass \<Rightarrow> ('h, cleanup_pass) st" where
  "cleanup_step what action cp = bindE (best_effort action) (\<lambda>r. ret (note_outcome what r cp))"

text \<open>Each step catches what it raises, so \<open>gather\<close> itself has nothing left to raise.\<close>

fun cleanup_steps :: "(string \<times> ('h, unit) st) list \<Rightarrow> cleanup_pass \<Rightarrow> ('h, cleanup_pass) st" where
  "cleanup_steps [] cp = ret cp"
| "cleanup_steps ((what, action) # rest) cp = bindE (cleanup_step what action cp) (cleanup_steps rest)"

section \<open>Lookups\<close>

definition get_owned :: "account \<Rightarrow> string \<Rightarrow> ('h, computer) st" where
  "get_owned account computer_id =
     bindE (reads (get_computer computer_id)) (\<lambda>c.
     case c of
       None \<Rightarrow> raise_domain NotFound ''Computer not found''
     | Some c \<Rightarrow>
         if c_account_id c \<noteq> a_id account \<or> c_status c = Destroyed
         then raise_domain NotFound ''Computer not found'' else ret c)"

definition get_record :: "account \<Rightarrow> string \<Rightarrow> ('h, computer) st" where
  "get_record account computer_id =
     bindE (reads (get_computer computer_id)) (\<lambda>c.
     case c of
       None \<Rightarrow> raise_domain NotFound ''Computer not found''
     | Some c \<Rightarrow> if c_account_id c \<noteq> a_id account then raise_domain NotFound ''Computer not found'' else ret c)"

definition get_running :: "account \<Rightarrow> string \<Rightarrow> ('h, computer) st" where
  "get_running account computer_id =
     bindE (reads (get_computer computer_id)) (\<lambda>c.
     case c of
       None \<Rightarrow> raise_domain NotFound ''Computer not found''
     | Some c \<Rightarrow>
         if c_account_id c \<noteq> a_id account then raise_domain NotFound ''Computer not found''
         else if c_status c \<noteq> Running
         then raise_domain BadRequest (''Computer is '' @ computer_status_text (c_status c))
         else ret c)"

definition refresh_active_gauge :: "('h, unit) st" where
  "refresh_active_gauge = writes (\<lambda>w. w\<lparr>w_gauge := count_active_computers w\<rparr>)"

section \<open>Bring-up\<close>

definition hypervisor_of :: "'h env \<Rightarrow> 'h hypervisor" where
  "hypervisor_of E = h_hypervisor (e_host E)"

definition guest_of :: "'h env \<Rightarrow> 'h guest" where
  "guest_of E = h_guest (e_host E)"

definition proxy_of :: "'h env \<Rightarrow> 'h proxy" where
  "proxy_of E = h_proxy (e_host E)"

definition template_for :: "'h env \<Rightarrow> recipe option \<Rightarrow> resources \<Rightarrow> ('h, snapshot_files option) st" where
  "template_for E r res = (if \<not> is_default res then ret None else ensure_template E r)"

definition files_in_dir :: "path \<Rightarrow> snapshot_files" where
  "files_in_dir d = \<lparr>sf_vmstate = d @ [''vmstate''], sf_memory = d @ [''memory'']\<rparr>"

definition files_present :: "fs \<Rightarrow> snapshot_files \<Rightarrow> bool" where
  "files_present f files \<longleftrightarrow> fs_exists f (sf_vmstate files) \<and> fs_exists f (sf_memory files)"

definition snapshot_files_for :: "'h env \<Rightarrow> checkpoint \<Rightarrow> ('h, snapshot_files option) st" where
  "snapshot_files_for E checkpoint =
     (let ckpt_dir = cf_checkpoint_local_dir (e_config E) @ [ck_id checkpoint];
          files = files_in_dir ckpt_dir;
          staged = files_in_dir (cf_checkpoint_staging_dir (e_config E) @ [ck_id checkpoint]) in
      bindE (read_fs E) (\<lambda>f.
      if files_present f files then ret (Some files)
      else if files_present f staged then ret (Some staged)
      else if ck_r2_prefix checkpoint = [] then ret None
      else
        catch_exception
          (seqE (hostop (ob_download_dir (h_objects (e_host E)) (ck_r2_prefix checkpoint) ckpt_dir))
                (bindE (read_fs E) (\<lambda>f. ret (if files_present f files then Some files else None))))
          (\<lambda>_. ret None)))"

text \<open>A restore whose files are gone by the time it runs is tried once more from other files.\<close>

definition restore_vm ::
  "'h env \<Rightarrow> int \<Rightarrow> int \<Rightarrow> string \<Rightarrow> snapshot_files \<Rightarrow> ('h, snapshot_files option) st \<Rightarrow> ('h, running_vm) st" where
  "restore_vm E slot volume_id volume_name files files_for =
     catchE (hostop (hv_restore (hypervisor_of E) slot volume_id volume_name files)) (\<lambda>e.
       if \<not> is_host_error e then raise e
       else bindE (read_fs E) (\<lambda>f.
         if fs_exists f (sf_memory files) \<and> fs_exists f (sf_vmstate files) then raise e
         else bindE files_for (\<lambda>again.
           case again of
             None \<Rightarrow> raise e
           | Some a \<Rightarrow> if a = files then raise e
                       else hostop (hv_restore (hypervisor_of E) slot volume_id volume_name a))))"

definition mark_destroyed :: "string \<Rightarrow> ('h, unit) st" where
  "mark_destroyed computer_id =
     bindE (reads (get_computer computer_id)) (\<lambda>stored.
     whenE (stored \<noteq> None) (update_computer_status computer_id Destroyed))"

definition release :: "int \<Rightarrow> ('h, unit) st" where
  "release slot = allocop (release_slot slot)"

definition finish_pass :: "cleanup_pass \<Rightarrow> ('h, cleanup_pass) st" where
  "finish_pass cp = (case cp_interrupted cp of Some e \<Rightarrow> raise e | None \<Rightarrow> ret cp)"

definition abandon ::
  "'h env \<Rightarrow> string \<Rightarrow> int \<Rightarrow> int \<Rightarrow> string \<Rightarrow> running_vm option \<Rightarrow> ('h, unit) st" where
  "abandon E computer_id slot volume_id volume_name vm =
     bindE (cleanup_steps
        ((''route removal'', hostop (pr_remove_route (proxy_of E) computer_id)) #
         (case vm of
            None \<Rightarrow> []
          | Some v \<Rightarrow> [(''kill'', hostop (hv_kill (hypervisor_of E) (vm_pid v) (vm_socket_path v))),
                       (''evict'', hostop (gu_evict (guest_of E) (vm_ip v)))])) new_pass) (\<lambda>cp.
     bindE (cleanup_steps
        [(''volume removal'', hostop (bs_remove (blocks_of E) volume_id volume_name)),
         (''teardown'', hostop (hv_teardown_slot (hypervisor_of E) slot))] cp) (\<lambda>cp.
     bindE (cleanup_step ''status update'' (mark_destroyed computer_id) cp) (\<lambda>cp.
     bindE (cleanup_step ''gauge'' refresh_active_gauge cp) (\<lambda>cp.
     bindE (cleanup_step ''slot release'' (release slot) cp) (\<lambda>cp.
     bindE (finish_pass cp) (\<lambda>_. ret ()))))))"

definition new_computer ::
  "string \<Rightarrow> string \<Rightarrow> int \<Rightarrow> running_vm \<Rightarrow> string \<Rightarrow> checkpoint option \<Rightarrow> string option \<Rightarrow> string option \<Rightarrow> computer" where
  "new_computer i account_id volume_id vm now source_checkpoint recipe_id api_key_id =
     \<lparr>c_id = i, c_account_id = account_id, c_thin_volume_id = volume_id,
      c_tap_device = vm_tap_device vm, c_vm_ip = vm_ip vm, c_socket_path = vm_socket_path vm,
      c_firecracker_pid = Some (vm_pid vm), c_status = Running, c_created_at = now,
      c_last_exec_at = None, c_source_checkpoint_id = map_option ck_id source_checkpoint,
      c_recipe_id = recipe_id, c_api_key_id = api_key_id\<rparr>"

text \<open>The guarded part; its local variable is the VM, once there is one.\<close>

definition bring_up_steps ::
  "'h env \<Rightarrow> account \<Rightarrow> string \<Rightarrow> int \<Rightarrow> int \<Rightarrow> string option \<Rightarrow> checkpoint option \<Rightarrow> resources \<Rightarrow>
   ('h, snapshot_files option) st \<Rightarrow> string option \<Rightarrow> ('h world \<times> running_vm option, computer) act" where
  "bring_up_steps E account computer_id slot volume_id recipe_id source_checkpoint res files_for api_key_id =
     (let volume_name = computer_volume_name computer_id in
      bindE (lifted files_for) (\<lambda>files.
      bindE (lifted (case files of
               Some f \<Rightarrow> timed ''restore'' (restore_vm E slot volume_id volume_name f files_for)
             | None \<Rightarrow> timed ''boot'' (hostop (hv_boot (hypervisor_of E) slot volume_id volume_name res)))) (\<lambda>vm.
      seqE (assign (\<lambda>_. Some vm))
      (bindE (lifted (utcnow E)) (\<lambda>now.
       let c = new_computer computer_id (a_id account) volume_id vm now source_checkpoint recipe_id api_key_id in
       seqE (lifted (insert_computer c))
       (seqE (lifted (gather2 (hostop (gu_warm (guest_of E) (vm_ip vm)))
                              (hostop (pr_add_route (proxy_of E) computer_id (vm_ip vm)))))
             (ret c)))))))"

definition bring_up_error :: "string \<Rightarrow> exc \<Rightarrow> exc" where
  "bring_up_error computer_id e =
     (if is_mshkn_error e \<or> e = cancelled_error then e
      else MshknError HostError (''bring-up of '' @ computer_id @ '' failed: '' @ describe_exc e) None)"

definition bring_up ::
  "'h env \<Rightarrow> account \<Rightarrow> int \<Rightarrow> string option \<Rightarrow> checkpoint option \<Rightarrow> resources \<Rightarrow>
   ('h, snapshot_files option) st \<Rightarrow> string option \<Rightarrow> ('h, computer) st" where
  "bring_up E account source_volume_id recipe_id source_checkpoint res files_for api_key_id =
     bindE (uuid4_hex E) (\<lambda>hex.
     let computer_id = ''comp-'' @ take 12 hex in
     bindE (allocop (acquire (e_pop E))) (\<lambda>(slot, volume_id).
     seqE (catchE (hostop (bs_snap (blocks_of E) source_volume_id volume_id))
             (\<lambda>e. seqE (release slot) (raise e)))
     (bindE (with_locals None
        (catchE (bring_up_steps E account computer_id slot volume_id recipe_id source_checkpoint res files_for api_key_id)
           (\<lambda>e. bindE local (\<lambda>vm.
              seqE (lifted (abandon E computer_id slot volume_id (computer_volume_name computer_id) vm))
                   (raise (bring_up_error computer_id e)))))) (\<lambda>c.
      seqE refresh_active_gauge (ret c)))))"

definition create_computer ::
  "'h env \<Rightarrow> account \<Rightarrow> string option \<Rightarrow> resources \<Rightarrow> string option \<Rightarrow> ('h, computer) st" where
  "create_computer E account recipe_id res api_key_id =
     bindE (timed ''create''
       (bindE (reads (count_active_computers_by_account (a_id account))) (\<lambda>n.
        if n \<ge> a_vm_limit account then raise_domain LimitExceeded ''VM limit reached''
        else
          bindE (case recipe_id of
                   None \<Rightarrow> ret None
                 | Some i \<Rightarrow> bindE (resolve i) (\<lambda>r. ret (Some r))) (\<lambda>r.
          bindE (case r of
                   None \<Rightarrow> ret 0
                 | Some r \<Rightarrow>
                     (case r_base_volume_id r of
                        None \<Rightarrow> raise_domain Conflict (''Recipe '' @ the recipe_id @ '' has no base volume'')
                      | Some v \<Rightarrow> ret v)) (\<lambda>source_volume_id.
          bring_up E account source_volume_id recipe_id None res (template_for E r res) api_key_id))))) (\<lambda>c.
     seqE (inc_metric ''mshkn_computers_created_total'' ''create'') (ret c))"

definition fork_computer ::
  "'h env \<Rightarrow> account \<Rightarrow> checkpoint \<Rightarrow> string option \<Rightarrow> string option \<Rightarrow> ('h, computer) st" where
  "fork_computer E account checkpoint recipe_id api_key_id =
     bindE (timed ''fork''
       (case ck_thin_volume_id checkpoint of
          None \<Rightarrow> raise_domain Conflict (''Checkpoint '' @ ck_id checkpoint @ '' has no disk snapshot'')
        | Some v \<Rightarrow>
            bring_up E account v (case recipe_id of Some r \<Rightarrow> Some r | None \<Rightarrow> ck_recipe_id checkpoint)
              (Some checkpoint) default_resources (snapshot_files_for E checkpoint) api_key_id)) (\<lambda>c.
     seqE (inc_metric ''mshkn_computers_created_total'' ''fork'') (ret c))"

section \<open>Teardown\<close>

definition slot_error :: "computer \<Rightarrow> exc" where
  "slot_error c = PyError ''ValueError'' (''invalid literal for int() with base 10: '' @
                                          py_repr (removeprefix ''tap'' (c_tap_device c)))"

definition slot_of :: "computer \<Rightarrow> ('h, int) st" where
  "slot_of c = (case computer_slot c of Some s \<Rightarrow> ret s | None \<Rightarrow> raise (slot_error c))"

definition teardown :: "'h env \<Rightarrow> computer \<Rightarrow> ('h, cleanup_pass) st" where
  "teardown E c =
     bindE (cleanup_steps
        ((''route removal'', hostop (pr_remove_route (proxy_of E) (c_id c))) #
         (case c_firecracker_pid c of
            None \<Rightarrow> []
          | Some pid \<Rightarrow> [(''kill'', hostop (hv_kill (hypervisor_of E) pid (c_socket_path c)))]) @
         (if c_vm_ip c \<noteq> [] then [(''evict'', hostop (gu_evict (guest_of E) (c_vm_ip c)))] else []))
        new_pass) (\<lambda>cp.
     bindE (slot_of c) (\<lambda>slot.
     bindE (cleanup_steps
        [(''volume removal'', hostop (bs_remove (blocks_of E) (c_thin_volume_id c) (computer_volume_name (c_id c)))),
         (''teardown'', hostop (hv_teardown_slot (hypervisor_of E) slot))] cp) (\<lambda>cp.
     bindE (cleanup_step ''status update'' (update_computer_status (c_id c) Destroyed) cp) (\<lambda>cp.
     bindE (cleanup_step ''gauge'' refresh_active_gauge cp) (\<lambda>cp.
     bindE (cleanup_step ''slot release'' (release slot) cp) finish_pass)))))"

definition destroy_failure :: "string \<Rightarrow> string \<times> exc \<Rightarrow> exc" where
  "destroy_failure computer_id f =
     MshknError HostError (''destroy of '' @ computer_id @ '': '' @ fst f @ '' failed: '' @ describe_exc (snd f)) None"

definition destroy :: "'h env \<Rightarrow> string \<Rightarrow> ('h, unit) st" where
  "destroy E computer_id =
     bindE (reads (get_computer computer_id)) (\<lambda>c.
     case c of
       None \<Rightarrow> raise_domain NotFound (''Computer '' @ computer_id @ '' not found'')
     | Some c \<Rightarrow>
         if c_status c = Destroyed then ret ()
         else bindE (claim_teardown computer_id) (\<lambda>won.
           if \<not> won then ret ()
           else timed ''destroy''
             (bindE (teardown E c) (\<lambda>cp.
              case cp_failure cp of
                None \<Rightarrow> ret ()
              | Some f \<Rightarrow> raise (destroy_failure computer_id f)))))"

definition cleanup_dead :: "'h env \<Rightarrow> computer \<Rightarrow> ('h, bool) st" where
  "cleanup_dead E c =
     bindE (claim_teardown (c_id c)) (\<lambda>won.
     if \<not> won then ret False else bindE (teardown E c) (\<lambda>_. ret True))"

definition resume_teardowns :: "'h env \<Rightarrow> ('h, int) st" where
  "resume_teardowns E =
     bindE (reads (\<lambda>w. filter (\<lambda>c. c_status c = Destroying) (list_all_computers w))) (\<lambda>interrupted.
     seqE (for_each interrupted (\<lambda>c. bindE (teardown E c) (\<lambda>_. ret ())))
          (ret (int (length interrupted))))"

section \<open>Guest operations\<close>

definition touch_computer :: "'h env \<Rightarrow> computer \<Rightarrow> ('h, unit) st" where
  "touch_computer E c = bindE (utcnow E) (update_last_exec_at (c_id c))"

definition set_busy :: "string \<Rightarrow> bool \<Rightarrow> ('h, unit) st" where
  "set_busy i b = writes (\<lambda>w. w\<lparr>w_busy := (if b then insert i (w_busy w) else w_busy w - {i})\<rparr>)"

definition exec_in :: "'h env \<Rightarrow> computer \<Rightarrow> string \<Rightarrow> int \<Rightarrow> ('h, exec_result) st" where
  "exec_in E c command timeout =
     seqE (touch_computer E c)
     (seqE (set_busy (c_id c) True)
     (finallyE (timed ''exec'' (hostop (gu_exec (guest_of E) (c_vm_ip c) command timeout)))
               (seqE (set_busy (c_id c) False) (touch_computer E c))))"

text \<open>The generator, consumed to its end: the lines it yields.\<close>

definition stream_in :: "'h env \<Rightarrow> computer \<Rightarrow> string \<Rightarrow> int \<Rightarrow> ('h, output_line list) st" where
  "stream_in E c command timeout =
     seqE (touch_computer E c)
     (seqE (set_busy (c_id c) True)
     (finallyE (hostop (gu_stream (guest_of E) (c_vm_ip c) command timeout))
               (seqE (set_busy (c_id c) False) (touch_computer E c))))"

definition exec_bg_in :: "'h env \<Rightarrow> computer \<Rightarrow> string \<Rightarrow> ('h, int) st" where
  "exec_bg_in E c command =
     seqE (touch_computer E c) (hostop (gu_exec_bg (guest_of E) (c_vm_ip c) command))"

definition exec_logs_of :: "'h env \<Rightarrow> computer \<Rightarrow> int \<Rightarrow> ('h, string list) st" where
  "exec_logs_of E c pid =
     bindE (hostop (gu_exec (guest_of E) (c_vm_ip c)
              (''cat /tmp/bg-'' @ str_int pid @ ''.log 2>/dev/null || echo '' @ [squote, squote]) 10))
           (\<lambda>r. ret (splitlines (x_stdout r)))"

definition exec_kill :: "'h env \<Rightarrow> computer \<Rightarrow> int \<Rightarrow> ('h, exec_result) st" where
  "exec_kill E c pid = hostop (gu_exec (guest_of E) (c_vm_ip c) (''kill '' @ str_int pid) 300)"

definition upload_to :: "'h env \<Rightarrow> computer \<Rightarrow> string \<Rightarrow> string \<Rightarrow> ('h, unit) st" where
  "upload_to E c remote_path data = hostop (gu_upload (guest_of E) (c_vm_ip c) remote_path data)"

definition download_from :: "'h env \<Rightarrow> computer \<Rightarrow> string \<Rightarrow> ('h, string) st" where
  "download_from E c remote_path =
     catchE (hostop (gu_download (guest_of E) (c_vm_ip c) remote_path)) (\<lambda>e.
       case e of
         PyError n _ \<Rightarrow> if n = ''FileNotFoundError''
                        then raise_domain NotFound (''File not found: '' @ remote_path) else raise e
       | _ \<Rightarrow> raise e)"

definition metrics_of :: "'h env \<Rightarrow> computer \<Rightarrow> ('h, vm_metrics option) st" where
  "metrics_of E c =
     catch_exception (bindE (hostop (gu_metrics (guest_of E) (c_vm_ip c) 10)) (\<lambda>m. ret (Some m)))
                     (\<lambda>_. ret None)"

section \<open>Cleanup passes run to their end\<close>

text \<open>Interruptions are all a pass remembers as such, so they are all it re-raises.\<close>

definition pass_ok :: "cleanup_pass \<Rightarrow> bool" where
  "pass_ok cp \<longleftrightarrow> (\<forall>e. cp_interrupted cp = Some e \<longrightarrow> \<not> is_exception e)"

lemma note_outcome_ok: "pass_ok cp \<Longrightarrow> pass_ok (note_outcome what r cp)"
  by (auto simp: pass_ok_def note_outcome_def split: option.splits)

text \<open>A step never raises: whatever its action does is noted.\<close>

lemma cleanup_step_wp:
  assumes "keeps I m" and "I w" and "pass_ok cp"
  shows "wp (cleanup_step what m cp) (\<lambda>cp w. pass_ok cp \<and> I w) (\<lambda>_ _. False) w"
  using keeps_wp [OF assms(1,2)] note_outcome_ok [OF assms(3)]
  by (simp add: cleanup_step_def best_effort_def wp_simps)

lemma cleanup_steps_wp:
  assumes "\<And>what m. (what, m) \<in> set ss \<Longrightarrow> keeps I m" and "I w" and "pass_ok cp"
  shows "wp (cleanup_steps ss cp) (\<lambda>cp w. pass_ok cp \<and> I w) (\<lambda>_ _. False) w"
  using assms
proof (induction ss arbitrary: cp w)
  case (Cons a ss)
  obtain what m where a: "a = (what, m)" by (cases a)
  have "wp (cleanup_step what m cp) (\<lambda>cp w. pass_ok cp \<and> I w) (\<lambda>_ _. False) w"
    by (rule cleanup_step_wp) (use Cons.prems a in auto)
  then show ?case
    unfolding a cleanup_steps.simps wp_bindE
    by (rule wp_mono) (use Cons in auto)
qed (simp add: wp_ret)

lemma cleanup_step_run:
  assumes "m w = (Inr (), w')"
  shows "cleanup_step what m cp w = (Inr cp, w')"
  using assms by (simp add: cleanup_step_def best_effort_def bindE_def tryE_def ret_def note_outcome_def)

lemma wp_cleanup_steps:
  assumes "\<And>what m. (what, m) \<in> set ss \<Longrightarrow> keeps I m" and "I w" and "pass_ok cp"
    and "\<And>cp w. pass_ok cp \<Longrightarrow> I w \<Longrightarrow> wp (f cp) Q R w"
  shows "wp (bindE (cleanup_steps ss cp) f) Q R w"
  unfolding wp_bindE by (rule wp_mono [OF cleanup_steps_wp [OF assms(1-3)]]) (use assms(4) in auto)

lemma bind_slot_of: "computer_slot c = Some s \<Longrightarrow> bindE (slot_of c) f = f s"
  by (simp add: slot_of_def bindE_def ret_def)

definition frame :: "computer list \<Rightarrow> allocator \<Rightarrow> 'h world \<Rightarrow> bool" where
  "frame C A w \<longleftrightarrow> w_computers w = C \<and> w_alloc w = A"

lemma ignores_frame [simp]: "ignores_host (frame C A)"
  by (simp add: ignores_host_def frame_def)

lemmas keeps_frame_host = keeps_host_steps [OF ignores_frame]

text \<open>What is left of a computer after a teardown, or after an abandoned bring-up.\<close>

definition torn_down :: "string \<Rightarrow> int \<Rightarrow> computer list \<Rightarrow> allocator \<Rightarrow> 'h world \<Rightarrow> bool" where
  "torn_down i slot C A w \<longleftrightarrow>
     w_computers w = update_where (\<lambda>c. c_id c = i) (c_status_update (\<lambda>_. Destroyed)) C \<and>
     held (w_alloc w) = held A - {slot} \<and> alloc_inv (w_alloc w) \<and>
     sa_next_volume_id (w_alloc w) = sa_next_volume_id A \<and>
     w_gauge w = count_active_computers w"

lemma finish_pass_wp: "P w \<Longrightarrow> (\<And>e. cp_interrupted cp = Some e \<Longrightarrow> P w \<Longrightarrow> R e w) \<Longrightarrow>
   wp (finish_pass cp) (\<lambda>_. P) R w"
  by (auto simp: finish_pass_def wp_simps split: option.splits)

text \<open>The three last steps of a pass, after every host call of it.\<close>

lemma release_wp: "alloc_inv (w_alloc w) \<Longrightarrow>
   wp (release slot) (\<lambda>_ w'. \<exists>A. w' = w\<lparr>w_alloc := A\<rparr> \<and> held A = held (w_alloc w) - {slot} \<and> alloc_inv A \<and>
       sa_next_volume_id A = sa_next_volume_id (w_alloc w)) (\<lambda>_ _. False) w"
  by (drule release_slot_run [of _ slot], elim exE conjE) (simp add: release_def wp_allocop wp_def, blast)

lemma pass_end_wp:
  assumes upd: "wp m (\<lambda>_ w'. w_computers w' = update_where (\<lambda>c. c_id c = i) (c_status_update (\<lambda>_. Destroyed)) C \<and>
                    w_alloc w' = A) (\<lambda>_ _. False) w"
    and inv: "alloc_inv A" and ok: "pass_ok cp"
  shows "wp (bindE (cleanup_step ''status update'' m cp) (\<lambda>cp.
         bindE (cleanup_step ''gauge'' refresh_active_gauge cp) (\<lambda>cp.
         bindE (cleanup_step ''slot release'' (release slot) cp) finish_pass)))
       (\<lambda>_. torn_down i slot C A) (\<lambda>e w. torn_down i slot C A w \<and> \<not> is_exception e) w"
proof -
  let ?U = "update_where (\<lambda>c. c_id c = i) (c_status_update (\<lambda>_. Destroyed)) C"
  obtain w1 where w1: "m w = (Inr (), w1)" "w_computers w1 = ?U" "w_alloc w1 = A"
    using upd by (auto simp: wp_def split: prod.splits sum.splits)
  obtain a where a: "release_slot slot A = (Inr (), a)" "held a = held A - {slot}" "alloc_inv a"
    "sa_next_volume_id a = sa_next_volume_id A"
    using release_slot_run [OF inv] by blast
  let ?w2 = "w1\<lparr>w_gauge := count_active_computers w1\<rparr>"
  let ?w3 = "?w2\<lparr>w_alloc := a\<rparr>"
  have 1: "cleanup_step ''status update'' m cp w = (Inr cp, w1)" by (rule cleanup_step_run) (rule w1)
  have 2: "cleanup_step ''gauge'' refresh_active_gauge cp w1 = (Inr cp, ?w2)"
    by (rule cleanup_step_run) (simp add: refresh_active_gauge_def writes_def)
  have 3: "cleanup_step ''slot release'' (release slot) cp ?w2 = (Inr cp, ?w3)"
    by (rule cleanup_step_run) (simp add: release_def allocop_def w1 a)
  have t: "torn_down i slot C A ?w3"
    using w1 a by (simp add: torn_down_def count_active_computers_def)
  have run: "bindE (cleanup_step ''status update'' m cp) (\<lambda>cp.
         bindE (cleanup_step ''gauge'' refresh_active_gauge cp) (\<lambda>cp.
         bindE (cleanup_step ''slot release'' (release slot) cp) finish_pass)) w = finish_pass cp ?w3"
    by (simp add: bindE_def 1 2 3)
  show ?thesis
    unfolding wp_def run using t ok
    by (auto simp: finish_pass_def raise_def ret_def pass_ok_def split: option.splits)
qed

lemma teardown_wp:
  assumes slot: "computer_slot c = Some slot" and inv: "alloc_inv (w_alloc w)"
  shows "wp (teardown E c) (\<lambda>_. torn_down (c_id c) slot (w_computers w) (w_alloc w))
           (\<lambda>e w'. torn_down (c_id c) slot (w_computers w) (w_alloc w) w' \<and> \<not> is_exception e) w"
proof -
  let ?F = "frame (w_computers w) (w_alloc w)"
  have start: "?F w" "pass_ok new_pass" by (simp_all add: frame_def pass_ok_def new_pass_def)
  have last: "wp (bindE (cleanup_step ''status update'' (update_computer_status (c_id c) Destroyed) cp) (\<lambda>cp.
         bindE (cleanup_step ''gauge'' refresh_active_gauge cp) (\<lambda>cp.
         bindE (cleanup_step ''slot release'' (release slot) cp) finish_pass)))
       (\<lambda>_. torn_down (c_id c) slot (w_computers w) (w_alloc w))
       (\<lambda>e w'. torn_down (c_id c) slot (w_computers w) (w_alloc w) w' \<and> \<not> is_exception e) w'"
    if "pass_ok cp" "?F w'" for cp w'
    using that by (intro pass_end_wp inv) (simp_all add: update_computer_status_wp frame_def)
  show ?thesis
    unfolding teardown_def
  proof (rule wp_cleanup_steps [where I = ?F, OF _ start], goal_cases)
    case (1 what m)
    then show ?case by (auto intro: keeps_frame_host split: option.splits if_splits)
  next
    case (2 cp w')
    show ?case
      unfolding bind_slot_of [OF slot]
      by (rule wp_cleanup_steps [where I = ?F, OF _ 2(2,1)]) (auto intro: keeps_frame_host last)
  qed
qed

text \<open>A bring-up that fails leaves the computers that count, and the slots, as they were.\<close>

lemma abandon_wp:
  assumes inv: "alloc_inv (w_alloc w)"
  shows "wp (abandon E i slot volume_id volume_name vm) (\<lambda>_. torn_down i slot (w_computers w) (w_alloc w))
           (\<lambda>e w'. torn_down i slot (w_computers w) (w_alloc w) w' \<and> \<not> is_exception e) w"
proof -
  let ?F = "frame (w_computers w) (w_alloc w)"
  have start: "?F w" "pass_ok new_pass" by (simp_all add: frame_def pass_ok_def new_pass_def)
  have mark: "wp (mark_destroyed i) (\<lambda>_ w'. w_computers w' = update_where (\<lambda>c. c_id c = i) (c_status_update (\<lambda>_. Destroyed)) (w_computers w) \<and>
                    w_alloc w' = w_alloc w) (\<lambda>_ _. False) w'" if "?F w'" for w'
  proof -
    have "get_computer i w' = None \<Longrightarrow>
        update_where (\<lambda>c. c_id c = i) (c_status_update (\<lambda>_. Destroyed)) (w_computers w) = w_computers w"
      using that by (intro update_where_none) (auto simp: get_computer_def find_None_iff frame_def)
    then show ?thesis
      using that by (cases "get_computer i w'") (simp_all add: mark_destroyed_def wp_simps frame_def)
  qed
  have last: "wp (bindE (cleanup_step ''status update'' (mark_destroyed i) cp) (\<lambda>cp.
         bindE (cleanup_step ''gauge'' refresh_active_gauge cp) (\<lambda>cp.
         bindE (cleanup_step ''slot release'' (release slot) cp) (\<lambda>cp. bindE (finish_pass cp) (\<lambda>_. ret ())))))
       (\<lambda>_. torn_down i slot (w_computers w) (w_alloc w))
       (\<lambda>e w'. torn_down i slot (w_computers w) (w_alloc w) w' \<and> \<not> is_exception e) w'"
    if "pass_ok cp" "?F w'" for cp w'
  proof -
    have assoc: "bindE (cleanup_step ''status update'' (mark_destroyed i) cp) (\<lambda>cp.
         bindE (cleanup_step ''gauge'' refresh_active_gauge cp) (\<lambda>cp.
         bindE (cleanup_step ''slot release'' (release slot) cp) (\<lambda>cp. bindE (finish_pass cp) (\<lambda>_. ret ())))) =
       bindE (bindE (cleanup_step ''status update'' (mark_destroyed i) cp) (\<lambda>cp.
         bindE (cleanup_step ''gauge'' refresh_active_gauge cp) (\<lambda>cp.
         bindE (cleanup_step ''slot release'' (release slot) cp) finish_pass))) (\<lambda>_. ret ())"
      by (simp add: bindE_def fun_eq_iff split: prod.splits sum.splits)
    show ?thesis
      unfolding assoc wp_bindE [where f = "\<lambda>_. ret ()"] wp_ret
      by (rule pass_end_wp [OF mark inv]) (use that in auto)
  qed
  show ?thesis
    unfolding abandon_def
  proof (rule wp_cleanup_steps [where I = ?F, OF _ start], goal_cases)
    case (1 what m)
    then show ?case by (auto intro: keeps_frame_host split: option.splits if_splits)
  next
    case (2 cp w')
    show ?case
      by (rule wp_cleanup_steps [where I = ?F, OF _ 2(2,1)]) (auto intro: keeps_frame_host last)
  qed
qed

section \<open>Bring-up is all or nothing\<close>

definition files_ok :: "('h, snapshot_files option) st \<Rightarrow> bool" where
  "files_ok files_for \<longleftrightarrow> (\<forall>C A. keeps (frame C A) files_for)"

lemma keeps_timed: "(\<And>w x. I w \<Longrightarrow> I (w\<lparr>w_metrics := x\<rparr>)) \<Longrightarrow> keeps I m \<Longrightarrow> keeps I (timed op m)"
  by (rule keepsI_wp, drule (1) keeps_wp) (auto simp: wp_timed elim!: wp_mono split: option.splits)

lemma keeps_frame_timed: "keeps (frame C A) m \<Longrightarrow> keeps (frame C A) (timed op m)"
  by (rule keeps_timed) (simp_all add: frame_def)

lemma keeps_restore: "files_ok files_for \<Longrightarrow> keeps (frame C A) (restore_vm E slot v n f files_for)"
  unfolding restore_vm_def files_ok_def
  by (intro keeps_intros keeps_frame_host) simp_all

lemma bring_up_steps_wp:
  assumes files: "files_ok files_for" and F: "frame C A w"
  shows "wp (bring_up_steps E account i slot volume_id recipe_id ck res files_for key)
      (\<lambda>c (w', l). w_computers w' = C @ [c] \<and> w_alloc w' = A \<and> c_id c = i \<and> c_status c = Running \<and>
          c_account_id c = a_id account \<and> c_thin_volume_id c = volume_id)
      (\<lambda>e (w', l). w_alloc w' = A \<and> (w_computers w' = C \<or> (\<exists>c. w_computers w' = C @ [c] \<and> c_id c = i)))
      (w, l)"
proof -
  let ?I = "\<lambda>(w, l :: running_vm option). frame C A w"
  have j: "keeps ?I (lifted m)" if "keeps (frame C A) m" for m :: "('a, 'x) st"
    by (rule keeps_lifted) (rule that)
  have vm: "keeps (frame C A) (case files of
               Some f \<Rightarrow> timed ''restore'' (restore_vm E slot volume_id n f files_for)
             | None \<Rightarrow> timed ''boot'' (hostop (hv_boot (hypervisor_of E) slot volume_id n res)))" for files n
    by (cases files) (simp_all add: keeps_frame_timed keeps_restore [OF files] keeps_frame_host)
  have ff: "keeps (frame C A) files_for" using files by (simp add: files_ok_def)
  have out: "?I p \<Longrightarrow> case p of (w', l) \<Rightarrow> w_alloc w' = A \<and>
      (w_computers w' = C \<or> (\<exists>c. w_computers w' = C @ [c] \<and> c_id c = i))" for p
    by (auto simp: frame_def)
  have rest: "wp (seqE (lifted (insert_computer (new_computer i (a_id account) volume_id vm now ck recipe_id key)))
       (seqE (lifted (gather2 (hostop m) (hostop n))) (ret (new_computer i (a_id account) volume_id vm now ck recipe_id key))))
      (\<lambda>c (w', l). w_computers w' = C @ [c] \<and> w_alloc w' = A \<and> c_id c = i \<and> c_status c = Running \<and>
          c_account_id c = a_id account \<and> c_thin_volume_id c = volume_id)
      (\<lambda>e (w', l). w_alloc w' = A \<and> (w_computers w' = C \<or> (\<exists>c. w_computers w' = C @ [c] \<and> c_id c = i))) p"
    if "?I p" for p vm now and m n :: "('a, unit) act"
  proof -
    obtain w' l where p: "p = (w', l)" by (cases p)
    let ?c = "new_computer i (a_id account) volume_id vm now ck recipe_id key"
    have F': "w_computers w' = C" "w_alloc w' = A" using that p by (simp_all add: frame_def)
    have c: "c_id ?c = i" "c_status ?c = Running" "c_account_id ?c = a_id account" "c_thin_volume_id ?c = volume_id"
      by (simp_all add: new_computer_def)
    have g: "keeps (frame (C @ [?c]) A) (gather2 (hostop m) (hostop n))"
      by (intro keeps_intros keeps_frame_host)
    have "frame (C @ [?c]) A (w_computers_update (\<lambda>rows. rows @ [?c]) w')"
      using F' by (simp add: frame_def)
    from keeps_wp [OF g this]
    have "wp (gather2 (hostop m) (hostop n)) (\<lambda>_ w'. w_computers w' = C @ [?c] \<and> w_alloc w' = A)
        (\<lambda>_ w'. w_alloc w' = A \<and> (w_computers w' = C \<or> (\<exists>c. w_computers w' = C @ [c] \<and> c_id c = i)))
        (w_computers_update (\<lambda>rows. rows @ [?c]) w')"
      by (rule wp_mono) (auto simp: frame_def c)
    then show ?thesis
      using F' c by (simp add: p wp_seqE wp_lifted insert_computer_def wp_insert_row wp_ret)
  qed
  show ?thesis
    unfolding bring_up_steps_def Let_def
    by ((rule wp_seq_keeps [where I = ?I] wp_bind_keeps [where I = ?I],
         (rule keeps_assign | (rule j, rule vm ff keeps_frame_host)), (assumption | simp add: F))+,
        rule rest, assumption) (use out in auto)
qed

definition fresh_id :: "'h env \<Rightarrow> 'h world \<Rightarrow> bool" where
  "fresh_id E w \<longleftrightarrow>
     list_all (\<lambda>c. c_id c \<noteq> ''comp-'' @ take 12 (fst (os_uuid (h_os (e_host E)) (w_host w)))) (w_computers w)"

definition active :: "computer list \<Rightarrow> computer list" where
  "active rows = filter (\<lambda>c. c_status c \<noteq> Destroyed) rows"

lemma active_torn_down:
  assumes "\<And>c. c \<in> set C \<Longrightarrow> c_id c \<noteq> i"
  shows "active (update_where (\<lambda>c. c_id c = i) (c_status_update (\<lambda>_. Destroyed)) C) = active C"
    and "c_id c = i \<Longrightarrow> active (update_where (\<lambda>c. c_id c = i) (c_status_update (\<lambda>_. Destroyed)) (C @ [c])) = active C"
proof -
  have u: "update_where (\<lambda>c. c_id c = i) (c_status_update (\<lambda>_. Destroyed)) C = C"
    by (rule update_where_none) (use assms in auto)
  then show "active (update_where (\<lambda>c. c_id c = i) (c_status_update (\<lambda>_. Destroyed)) C) = active C" by simp
  show "active (update_where (\<lambda>c. c_id c = i) (c_status_update (\<lambda>_. Destroyed)) (C @ [c])) = active C"
    if "c_id c = i"
    using u that by (simp add: active_def update_where_def)
qed

text \<open>The hypervisor names the tap device of a VM by its slot (src/src/mshkn/host/network.py does).\<close>

definition tap_name :: "int \<Rightarrow> string" where
  "tap_name slot = ''tap'' @ str_int slot"

definition names_taps :: "'h env \<Rightarrow> bool" where
  "names_taps E \<longleftrightarrow>
     (\<forall>s v n res. returns (\<lambda>vm. vm_tap_device vm = tap_name s) (hv_boot (hypervisor_of E) s v n res)) \<and>
     (\<forall>s v n fs. returns (\<lambda>vm. vm_tap_device vm = tap_name s) (hv_restore (hypervisor_of E) s v n fs))"

lemma slot_of_tap: "0 \<le> s \<Longrightarrow> c_tap_device c = tap_name s \<Longrightarrow> computer_slot c = Some s"
  by (simp add: computer_slot_def tap_name_def str_int_def del: append.simps)

lemma steps_tap:
  assumes "names_taps E"
  shows "returns (\<lambda>c. c_tap_device c = tap_name s) (bring_up_steps E account i s v r src res files_for key)"
proof -
  have host: "returns P (hostop m)" if "returns P m" for P and m :: "('h, 'x) act"
    using that by (auto simp: returns_def hostop_def split: prod.splits)
  have vm: "returns (\<lambda>vm. vm_tap_device vm = tap_name s) (case files of
               Some f \<Rightarrow> timed ''restore'' (restore_vm E s v n f files_for)
             | None \<Rightarrow> timed ''boot'' (hostop (hv_boot (hypervisor_of E) s v n res)))" for files n
    using assms
    by (auto simp: names_taps_def restore_vm_def split: option.splits
        intro!: returns_timed host returns_catch returns_bind returns_raise)
  have lift: "returns P (lifted m)" if "returns P m" for P and m :: "('h world, 'x) act"
    using that by (auto simp: returns_def lifted_def split: prod.splits)
  show ?thesis
    unfolding bring_up_steps_def Let_def
    by (rule returns_bind, rule returns_bind_of [OF lift [OF vm]], intro returns_seq returns_bind returns_ret)
       (simp add: new_computer_def)
qed

definition came_up :: "'h env \<Rightarrow> account \<Rightarrow> 'h world \<Rightarrow> computer \<Rightarrow> 'h world \<Rightarrow> bool" where
  "came_up E account w c w' \<longleftrightarrow>
     w_computers w' = w_computers w @ [c] \<and> c_status c = Running \<and> c_account_id c = a_id account \<and>
     c_thin_volume_id c = sa_next_volume_id (w_alloc w) \<and>
     sa_next_volume_id (w_alloc w') = sa_next_volume_id (w_alloc w) + 1 \<and>
     (\<exists>slot. slot \<in> all_slots \<and> slot \<notin> held (w_alloc w) \<and> held (w_alloc w') = insert slot (held (w_alloc w)) \<and>
        (names_taps E \<longrightarrow> computer_slot c = Some slot)) \<and>
     alloc_inv (w_alloc w') \<and> w_gauge w' = count_active_computers w' \<and> c_id c \<notin> c_id ` set (w_computers w)"

definition left_alone :: "'h world \<Rightarrow> 'h world \<Rightarrow> bool" where
  "left_alone w w' \<longleftrightarrow>
     active (w_computers w') = active (w_computers w) \<and> held (w_alloc w') = held (w_alloc w) \<and>
     alloc_inv (w_alloc w') \<and>
     (distinct (map c_id (w_computers w)) \<longrightarrow> distinct (map c_id (w_computers w')))"

lemma bring_up_guarded_wp:
  assumes files: "files_ok files_for" and C: "w_computers w = C" and A: "w_alloc w = A" and inv: "alloc_inv A"
    and fresh: "\<And>c. c \<in> set C \<Longrightarrow> c_id c \<noteq> i"
  shows "wp (with_locals None
        (catchE (bring_up_steps E account i slot volume_id recipe_id ck res files_for key)
           (\<lambda>e. bindE local (\<lambda>vm.
              seqE (lifted (abandon E i slot volume_id (computer_volume_name i) vm))
                   (raise (bring_up_error i e))))))
      (\<lambda>c w'. w_computers w' = C @ [c] \<and> w_alloc w' = A \<and> c_id c = i \<and> c_status c = Running \<and>
          c_account_id c = a_id account \<and> c_thin_volume_id c = volume_id)
      (\<lambda>e w'. active (w_computers w') = active C \<and> held (w_alloc w') = held A - {slot} \<and> alloc_inv (w_alloc w') \<and>
          (distinct (map c_id C) \<longrightarrow> distinct (map c_id (w_computers w')))) w"
proof -
  have ab: "wp (abandon E i slot volume_id (computer_volume_name i) vm)
      (\<lambda>_ w'. active (w_computers w') = active C \<and> held (w_alloc w') = held A - {slot} \<and> alloc_inv (w_alloc w') \<and>
          (distinct (map c_id C) \<longrightarrow> distinct (map c_id (w_computers w'))))
      (\<lambda>_ w'. active (w_computers w') = active C \<and> held (w_alloc w') = held A - {slot} \<and> alloc_inv (w_alloc w') \<and>
          (distinct (map c_id C) \<longrightarrow> distinct (map c_id (w_computers w')))) w1"
    if a: "w_alloc w1 = A" and rows: "w_computers w1 = C \<or> (\<exists>c. w_computers w1 = C @ [c] \<and> c_id c = i)" for w1 vm
  proof -
    have act: "active (update_where (\<lambda>c. c_id c = i) (c_status_update (\<lambda>_. Destroyed)) (w_computers w1)) = active C"
      using rows active_torn_down [OF fresh, of C] by auto
    have "i \<notin> c_id ` set C" using fresh by (metis imageE)
    then have d: "distinct (map c_id C) \<longrightarrow> distinct (map c_id (w_computers w1))" using rows by auto
    show ?thesis
      by (rule wp_mono [OF abandon_wp]) (use a inv act d in \<open>auto simp: torn_down_def\<close>)
  qed
  have F: "frame C A w" using C A by (simp add: frame_def)
  show ?thesis
    unfolding wp_with_locals wp_catchE
  proof (rule wp_mono [OF bring_up_steps_wp [OF files F]], goal_cases)
    case (1 c p)
    then show ?case by (cases p) simp
  next
    case (2 e p)
    then show ?case
      by (cases p) (simp only: split_conv wp_bindE wp_local wp_seqE wp_lifted wp_raise, intro ab, simp_all)
  qed
qed

definition released :: "int \<Rightarrow> computer list \<Rightarrow> allocator \<Rightarrow> 'h world \<Rightarrow> bool" where
  "released slot C A w \<longleftrightarrow> w_computers w = C \<and> held (w_alloc w) = held A - {slot} \<and> alloc_inv (w_alloc w)"

lemma release_frame_wp:
  assumes "frame C A w" and "alloc_inv A"
  shows "wp (release slot) (\<lambda>_. released slot C A) (\<lambda>_. released slot C A) w"
proof -
  have a: "w_alloc w = A" "w_computers w = C" using assms(1) by (simp_all add: frame_def)
  show ?thesis
  proof (rule wp_mono [OF release_wp])
    show "alloc_inv (w_alloc w)" using assms(2) a by simp
    fix x w'
    assume "\<exists>A. w' = w\<lparr>w_alloc := A\<rparr> \<and> held A = held (w_alloc w) - {slot} \<and> alloc_inv A \<and>
       sa_next_volume_id A = sa_next_volume_id (w_alloc w)"
    then show "released slot C A w'" using a by (elim exE conjE) (simp add: released_def)
  qed simp
qed

lemma snap_guarded_wp:
  assumes "frame C A w" and "alloc_inv A"
  shows "wp (catchE (hostop m) (\<lambda>e. seqE (release slot) (raise e))) (\<lambda>_. frame C A) (\<lambda>_. released slot C A) w"
  unfolding wp_catchE wp_seqE wp_raise
  by (rule wp_mono [OF keeps_wp [OF keeps_frame_host(1) assms(1)]])
     (simp_all add: release_frame_wp assms(2))

lemma bring_up_wp:
  assumes files: "files_ok files_for" and inv: "alloc_inv (w_alloc w)" and pop: "pop_ok (e_pop E)"
    and fresh: "fresh_id E w"
  shows "wp (bring_up E account source_volume_id recipe_id ck res files_for key)
           (came_up E account w) (\<lambda>_. left_alone w) w"
proof -
  obtain hex h where u: "os_uuid (h_os (e_host E)) (w_host w) = (hex, h)" by (cases "os_uuid (h_os (e_host E)) (w_host w)")
  let ?i = "''comp-'' @ take 12 hex"
  let ?C = "w_computers w"
  have new: "c_id c \<noteq> ?i" if "c \<in> set ?C" for c
    using fresh that by (simp add: fresh_id_def u list_all_iff)
  have nin: "?i \<notin> c_id ` set ?C" by (metis imageE new)
  have run: "uuid4_hex E w = (Inr hex, w\<lparr>w_host := h\<rparr>)" by (simp add: uuid4_hex_def hostop_def u)
  have main: "wp (seqE (catchE (hostop m) (\<lambda>e. seqE (release slot) (raise e)))
     (bindE (with_locals None
        (catchE (bring_up_steps E account ?i slot volume_id recipe_id ck res files_for key)
           (\<lambda>e. bindE local (\<lambda>vm.
              seqE (lifted (abandon E ?i slot volume_id (computer_volume_name ?i) vm))
                   (raise (bring_up_error ?i e)))))) (\<lambda>c.
      seqE refresh_active_gauge (ret c)))) (came_up E account w) (\<lambda>_. left_alone w) w1"
    if F: "frame ?C A w1" and slot: "slot \<in> all_slots" "slot \<notin> held (w_alloc w)" "held A = insert slot (held (w_alloc w))"
      and A: "alloc_inv A" "volume_id = sa_next_volume_id (w_alloc w)" "sa_next_volume_id A = sa_next_volume_id (w_alloc w) + 1"
    for A w1 slot volume_id and m :: "('a, unit) act"
  proof -
    have h: "held A - {slot} = held (w_alloc w)" using slot by auto
    let ?L = "with_locals None
        (catchE (bring_up_steps E account ?i slot volume_id recipe_id ck res files_for key)
           (\<lambda>e. bindE local (\<lambda>vm.
              seqE (lifted (abandon E ?i slot volume_id (computer_volume_name ?i) vm))
                   (raise (bring_up_error ?i e)))))"
    have body: "wp (bindE ?L (\<lambda>c. seqE refresh_active_gauge (ret c))) (came_up E account w) (\<lambda>_. left_alone w) w2"
      if F2: "frame ?C A w2" for w2
    proof -
      have "w_computers w2 = ?C" "w_alloc w2 = A" using F2 by (simp_all add: frame_def)
      note g = bring_up_guarded_wp [OF files this A(1) new, of E account slot volume_id recipe_id ck res key]
      have tap: "names_taps E \<Longrightarrow> returns (\<lambda>c. c_tap_device c = tap_name slot) ?L"
        by (intro returns_locals returns_catch steps_tap returns_bind returns_seq returns_raise)
      have g': "wp ?L (\<lambda>c w'. (names_taps E \<longrightarrow> computer_slot c = Some slot) \<and>
          w_computers w' = ?C @ [c] \<and> w_alloc w' = A \<and> c_id c = ?i \<and> c_status c = Running \<and>
          c_account_id c = a_id account \<and> c_thin_volume_id c = volume_id)
        (\<lambda>e w'. active (w_computers w') = active ?C \<and> held (w_alloc w') = held A - {slot} \<and> alloc_inv (w_alloc w') \<and>
          (distinct (map c_id ?C) \<longrightarrow> distinct (map c_id (w_computers w')))) w2"
      proof (cases "names_taps E")
        case True
        have "0 \<le> slot" using slot(1) by (simp add: all_slots_def)
        then show ?thesis
          by (intro wp_mono [OF returns_wp [OF tap [OF True] g]]) (auto dest: slot_of_tap)
      next
        case False
        then show ?thesis by (intro wp_mono [OF g]) auto
      qed
      show ?thesis
        unfolding wp_bindE
      proof (rule wp_mono [OF g'], goal_cases)
        case (1 c w3)
        then show ?case
          using slot A nin by (simp add: wp_seqE wp_ret refresh_active_gauge_def wp_writes came_up_def
              count_active_computers_def) blast
      next
        case (2 e w3)
        then show ?case using h by (simp add: left_alone_def)
      qed
    qed
    show ?thesis
      unfolding wp_seqE [of "catchE (hostop m) g" for g]
    proof (rule wp_mono [OF snap_guarded_wp [OF F A(1)]], goal_cases)
      case (1 a w3)
      then show ?case by (rule body)
    next
      case (2 e w3)
      then show ?case using h by (simp add: left_alone_def released_def)
    qed
  qed
  show ?thesis
    unfolding bring_up_def wp_bindE [of "uuid4_hex E"] Let_def wp_def [of "uuid4_hex E"] run prod.case sum.case
      wp_bindE [of "allocop (acquire (e_pop E))"] wp_allocop
  proof (rule wp_mono [OF acquire_wp [OF _ pop]], goal_cases)
    case 1
    then show ?case by (simp add: inv)
  next
    case (2 a A)
    then obtain s v where a: "a = (s, v)" by (cases a)
    show ?case
      unfolding a prod.case by (rule main [where A = A]) (use 2 a in \<open>auto simp: frame_def\<close>)
  next
    case (3 e A)
    then show ?case by (simp add: left_alone_def)
  qed
qed

section \<open>Create and fork\<close>

lemma frame_writes:
  "keeps (frame C A) (update_recipe_template i v m)" "keeps (frame C A) (cache_bare_template v m)"
  unfolding update_recipe_template_def cache_bare_template_def
  by (rule keeps_writes, simp add: frame_def)+

lemma template_files_ok: "files_ok (template_for E r res)"
  unfolding files_ok_def template_for_def ensure_template_def Let_def
  by (intro allI keeps_intros keeps_frame_host frame_writes)

lemma snapshot_files_ok: "files_ok (snapshot_files_for E ck)"
  unfolding files_ok_def snapshot_files_for_def Let_def
  by (intro allI keeps_intros keeps_frame_host)

lemma wp_timed_mono:
  assumes "wp m Q R w" and "\<And>e w x. R e w \<Longrightarrow> R e (w\<lparr>w_metrics := x\<rparr>)"
  shows "wp (timed op m) Q R w"
  unfolding wp_timed by (rule wp_mono [OF assms(1)]) (auto simp: assms(2) split: option.splits)

lemma left_alone_refl: "alloc_inv (w_alloc w) \<Longrightarrow> left_alone w w"
  by (simp add: left_alone_def)

lemma metrics_irrelevant:
  "came_up E account w c (w'\<lparr>w_metrics := x\<rparr>) = came_up E account w c w'"
  "left_alone w (w'\<lparr>w_metrics := x\<rparr>) = left_alone w w'"
  by (simp_all add: came_up_def left_alone_def count_active_computers_def)

lemma wp_resolve: "wp (resolve i) (\<lambda>r w'. w' = w \<and> r_base_volume_id r \<noteq> None) (\<lambda>_ w'. w' = w) w"
  by (auto simp: resolve_def wp_simps raise_domain_def wp_raise split: option.splits)

definition below_limit :: "account \<Rightarrow> 'h world \<Rightarrow> bool" where
  "below_limit account w \<longleftrightarrow> count_active_computers_by_account (a_id account) w < a_vm_limit account"

lemma create_computer_wp:
  assumes inv: "alloc_inv (w_alloc w)" and pop: "pop_ok (e_pop E)" and fresh: "fresh_id E w"
  shows "wp (create_computer E account recipe_id res key)
           (\<lambda>c w'. came_up E account w c w' \<and> below_limit account w) (\<lambda>_. left_alone w) w"
proof -
  have up: "wp (bring_up E account v recipe_id None res (template_for E r res) key)
      (\<lambda>c w'. came_up E account w c w') (\<lambda>_. left_alone w) w" for v r
    by (rule bring_up_wp [OF template_files_ok inv pop fresh])
  have up': "wp (bring_up E account v recipe_id None res (template_for E r res) key)
      (\<lambda>c w'. came_up E account w c w' \<and> below_limit account w) (\<lambda>_. left_alone w) w"
    if "below_limit account w" for v r
    by (rule wp_mono [OF up]) (use that in auto)
  have la: "left_alone w w" using inv by (rule left_alone_refl)
  have body: "wp (bindE (reads (count_active_computers_by_account (a_id account))) (\<lambda>n.
        if n \<ge> a_vm_limit account then raise_domain LimitExceeded ''VM limit reached''
        else
          bindE (case recipe_id of
                   None \<Rightarrow> ret None
                 | Some i \<Rightarrow> bindE (resolve i) (\<lambda>r. ret (Some r))) (\<lambda>r.
          bindE (case r of
                   None \<Rightarrow> ret 0
                 | Some r \<Rightarrow>
                     (case r_base_volume_id r of
                        None \<Rightarrow> raise_domain Conflict (''Recipe '' @ the recipe_id @ '' has no base volume'')
                      | Some v \<Rightarrow> ret v)) (\<lambda>source_volume_id.
          bring_up E account source_volume_id recipe_id None res (template_for E r res) key))))
      (\<lambda>c w'. came_up E account w c w' \<and> below_limit account w) (\<lambda>_. left_alone w) w"
  proof (cases "below_limit account w")
    case False
    then show ?thesis using la by (simp add: wp_simps below_limit_def)
  next
    case True
    then have lt: "\<not> a_vm_limit account \<le> count_active_computers_by_account (a_id account) w"
      by (simp add: below_limit_def)
    show ?thesis
    proof (cases recipe_id)
      case None
      then show ?thesis using lt up' [OF True] by (simp add: wp_bindE wp_reads wp_ret)
    next
      case (Some i)
      have "wp (bindE (case Some r of
                   None \<Rightarrow> ret 0
                 | Some r \<Rightarrow>
                     (case r_base_volume_id r of
                        None \<Rightarrow> raise_domain Conflict (''Recipe '' @ the recipe_id @ '' has no base volume'')
                      | Some v \<Rightarrow> ret v)) (\<lambda>source_volume_id.
          bring_up E account source_volume_id recipe_id None res (template_for E (Some r) res) key))
          (\<lambda>c w'. came_up E account w c w' \<and> below_limit account w) (\<lambda>_. left_alone w) w" for r
        using up' [OF True] la by (cases "r_base_volume_id r") (simp_all add: wp_bindE wp_ret wp_raise_domain)
      note rest = this
      show ?thesis
        unfolding Some option.case
        apply (simp only: wp_bindE wp_reads lt if_False wp_ret)
      proof (rule wp_mono [OF wp_resolve], goal_cases)
        case (1 r w')
        then have w': "w' = w" by simp
        show ?case
          using rest [of r] unfolding w' by (simp only: Some wp_bindE wp_ret option.case)
      next
        case (2 e w')
        then show ?case by (simp add: la)
      qed
    qed
  qed
  show ?thesis
    unfolding create_computer_def wp_bindE [of "timed op m" for op m]
    by (rule wp_mono [OF wp_timed_mono [OF body]])
       (simp_all add: metrics_irrelevant wp_seqE wp_ret inc_metric_def wp_writes)
qed

lemma fork_computer_wp:
  assumes inv: "alloc_inv (w_alloc w)" and pop: "pop_ok (e_pop E)" and fresh: "fresh_id E w"
  shows "wp (fork_computer E account ck recipe_id key) (came_up E account w) (\<lambda>_. left_alone w) w"
proof -
  have la: "left_alone w w" using inv by (rule left_alone_refl)
  have body: "wp (case ck_thin_volume_id ck of
          None \<Rightarrow> raise_domain Conflict (''Checkpoint '' @ ck_id ck @ '' has no disk snapshot'')
        | Some v \<Rightarrow>
            bring_up E account v (case recipe_id of Some r \<Rightarrow> Some r | None \<Rightarrow> ck_recipe_id ck)
              (Some ck) default_resources (snapshot_files_for E ck) key)
      (came_up E account w) (\<lambda>_. left_alone w) w"
    by (cases "ck_thin_volume_id ck") (simp_all add: wp_raise_domain la bring_up_wp [OF snapshot_files_ok inv pop fresh])
  show ?thesis
    unfolding fork_computer_def wp_bindE [of "timed op m" for op m]
    by (rule wp_mono [OF wp_timed_mono [OF body]])
       (simp_all add: metrics_irrelevant wp_seqE wp_ret inc_metric_def wp_writes)
qed

section \<open>Destroy\<close>

lemma claim_rows_id: "update_where (\<lambda>c. c_id c = i) (c_status_update (\<lambda>_. Destroyed))
    (update_where (\<lambda>c. c_id c = i \<and> c_status c = Running) (c_status_update (\<lambda>_. Destroying)) rows) =
  update_where (\<lambda>c. c_id c = i) (c_status_update (\<lambda>_. Destroyed)) rows"
  by (simp add: update_where_def)

lemma filter_key: "distinct (map key xs) \<Longrightarrow> c \<in> set xs \<Longrightarrow> filter (\<lambda>x. key x = key c) xs = [c]"
  by (induction xs) (auto simp: filter_empty_conv image_iff)

lemma destroy_wp:
  assumes c: "get_computer i w = Some c" and running: "c_status c = Running" and k: "computers.keyed w"
    and slot: "computer_slot c = Some slot" and inv: "alloc_inv (w_alloc w)"
  shows "wp (destroy E i) (\<lambda>_. torn_down i slot (w_computers w) (w_alloc w))
           (\<lambda>_. torn_down i slot (w_computers w) (w_alloc w)) w"
proof -
  have id: "c_id c = i" and mem: "c \<in> set (w_computers w)" using c by (auto dest: get_computer_SomeD)
  let ?w = "w_computers_update (update_where (\<lambda>c. c_id c = i \<and> c_status c = Running) (c_status_update (\<lambda>_. Destroying))) w"
  have one: "length (filter (\<lambda>c. c_id c = i \<and> c_status c = Running) (w_computers w)) = 1"
  proof -
    have f: "filter (\<lambda>x. c_id x = i) (w_computers w) = [c]"
      using k mem unfolding computers.keyed_def id [symmetric] by (rule filter_key)
    have "filter (\<lambda>x. c_id x = i \<and> c_status x = Running) (w_computers w) =
        filter (\<lambda>x. c_status x = Running) (filter (\<lambda>x. c_id x = i) (w_computers w))"
      by (simp only: filter_filter)
    also have "\<dots> = [c]" unfolding f using running by simp
    finally have "filter (\<lambda>x. c_id x = i \<and> c_status x = Running) (w_computers w) = [c]" .
    then show ?thesis by simp
  qed
  have t: "wp (teardown E c) (\<lambda>_. torn_down i slot (w_computers ?w) (w_alloc w))
           (\<lambda>e w'. torn_down i slot (w_computers ?w) (w_alloc w) w' \<and> \<not> is_exception e) ?w"
    using teardown_wp [OF slot, of ?w E] inv id by simp
  have same: "torn_down i slot (w_computers ?w) (w_alloc w) = torn_down i slot (w_computers w) (w_alloc w)"
    by (simp add: torn_down_def claim_rows_id fun_eq_iff)
  have m: "torn_down i slot C A (w'\<lparr>w_metrics := x\<rparr>) = torn_down i slot C A w'" for C A x and w' :: "'a world"
    by (simp add: torn_down_def count_active_computers_def)
  have body: "wp (bindE (teardown E c) (\<lambda>cp. case cp_failure cp of None \<Rightarrow> ret () | Some f \<Rightarrow> raise (destroy_failure i f)))
     (\<lambda>_. torn_down i slot (w_computers w) (w_alloc w)) (\<lambda>_. torn_down i slot (w_computers w) (w_alloc w)) ?w"
    unfolding wp_bindE by (rule wp_mono [OF t [unfolded same]]) (auto simp: wp_ret wp_raise split: option.splits)
  show ?thesis
    using c running one
    by (simp add: destroy_def wp_bindE wp_reads claim_teardown_wp wp_timed_mono [OF body] m)
qed

lemma claim_loses:
  assumes "\<And>c. c \<in> set (w_computers w) \<Longrightarrow> c_id c = i \<Longrightarrow> c_status c \<noteq> Running"
  shows "claim_teardown i w = (Inr False, w)"
proof -
  have f: "filter (\<lambda>c. c_id c = i \<and> c_status c = Running) (w_computers w) = []"
    using assms by (auto simp: filter_empty_conv)
  have "update_where (\<lambda>c. c_id c = i \<and> c_status c = Running) (c_status_update (\<lambda>_. Destroying)) (w_computers w) = w_computers w"
    by (rule update_where_none) (use assms in auto)
  then have "w_computers_update (update_where (\<lambda>c. c_id c = i \<and> c_status c = Running) (c_status_update (\<lambda>_. Destroying))) w = w"
    by (cases w) simp
  with f show ?thesis
    by (simp add: claim_teardown_def Let_def bindE_def seqE_def reads_def writes_def ret_def)
qed

section \<open>Properties\<close>

text \<open>C3: creating a computer is all or nothing, whatever the machine does: it either returns the
  running computer whose row was added, with exactly one more slot held and the next volume id
  used, and then the account was below its limit; or it raises, and the computers that count
  and the held slots are what they were.\<close>

theorem create_all_or_nothing:
  assumes "alloc_inv (w_alloc w)" and "pop_ok (e_pop E)" and "fresh_id E w"
  shows "case outcome (create_computer E account recipe_id res key) w of
           Inr c \<Rightarrow> came_up E account w c (run_state (create_computer E account recipe_id res key) w) \<and>
                    below_limit account w
         | Inl e \<Rightarrow> left_alone w (run_state (create_computer E account recipe_id res key) w)"
  using create_computer_wp [OF assms, of account recipe_id res key] by (simp add: wp_outcome split: sum.splits)

definition demo_account :: account where
  "demo_account = \<lparr>a_id = ''acct-1'', a_api_key = ''key'', a_vm_limit = 1, a_created_at = ''0''\<rparr>"

lemma create_all_or_nothing_witness:
  "case outcome (create_computer fake_env demo_account None default_resources None) new_world of
     Inr c \<Rightarrow> came_up fake_env demo_account new_world c
               (run_state (create_computer fake_env demo_account None default_resources None) new_world) \<and>
             below_limit demo_account new_world
   | Inl e \<Rightarrow> left_alone new_world
               (run_state (create_computer fake_env demo_account None default_resources None) new_world)"
  by (rule create_all_or_nothing)
     (simp_all add: new_world_def fake_env_def pop_ok_Min fresh_id_def)

text \<open>C5: forking a checkpoint is all or nothing in the same way.\<close>

theorem fork_all_or_nothing:
  assumes "alloc_inv (w_alloc w)" and "pop_ok (e_pop E)" and "fresh_id E w"
  shows "case outcome (fork_computer E account ck recipe_id key) w of
           Inr c \<Rightarrow> came_up E account w c (run_state (fork_computer E account ck recipe_id key) w)
         | Inl e \<Rightarrow> left_alone w (run_state (fork_computer E account ck recipe_id key) w)"
  using fork_computer_wp [OF assms, of account ck recipe_id key] by (simp add: wp_outcome split: sum.splits)

definition demo_checkpoint :: checkpoint where
  "demo_checkpoint =
     \<lparr>ck_id = ''ckpt-1'', ck_account_id = ''acct-1'', ck_parent_id = None, ck_computer_id = None,
      ck_thin_volume_id = Some 0, ck_r2_prefix = [], ck_disk_delta_size_bytes = None,
      ck_memory_size_bytes = None, ck_label = None, ck_pinned = False, ck_created_at = ''0'',
      ck_recipe_id = None\<rparr>"

lemma fork_all_or_nothing_witness:
  "case outcome (fork_computer fake_env demo_account demo_checkpoint None None) new_world of
     Inr c \<Rightarrow> came_up fake_env demo_account new_world c
               (run_state (fork_computer fake_env demo_account demo_checkpoint None None) new_world)
   | Inl e \<Rightarrow> left_alone new_world
               (run_state (fork_computer fake_env demo_account demo_checkpoint None None) new_world)"
  by (rule fork_all_or_nothing)
     (simp_all add: new_world_def fake_env_def pop_ok_Min fresh_id_def)

text \<open>C4: destroying a running computer always runs its teardown to the end, whatever the machine
  does and whether or not the call then raises: afterwards the row is destroyed, its slot is
  released, nothing else about the computers or the slots has changed, and the gauge is exact.\<close>

theorem destroy_completes:
  assumes "get_computer i w = Some c" and "c_status c = Running" and "distinct (map c_id (w_computers w))"
    and "computer_slot c = Some slot" and "alloc_inv (w_alloc w)"
  shows "torn_down i slot (w_computers w) (w_alloc w) (run_state (destroy E i) w)"
  using destroy_wp [OF assms(1,2) _ assms(4,5), of E] assms(3)
  by (simp add: wp_outcome computers.keyed_def split: sum.splits)

definition demo_computer :: computer where
  "demo_computer =
     \<lparr>c_id = ''comp-1'', c_account_id = ''acct-1'', c_thin_volume_id = 100, c_tap_device = ''tap1'',
      c_vm_ip = ''172.16.1.2'', c_socket_path = ''/tmp/s'', c_firecracker_pid = Some 1000,
      c_status = Running, c_created_at = ''0'', c_last_exec_at = None, c_source_checkpoint_id = None,
      c_recipe_id = None, c_api_key_id = None\<rparr>"

definition one_computer :: "fake world" where
  "one_computer = new_world\<lparr>w_computers := [demo_computer],
     w_alloc := \<lparr>sa_next_slot = 2, sa_free_slots = {}, sa_next_volume_id = 101\<rparr>\<rparr>"

lemma one_computer_alloc: "alloc_inv (w_alloc one_computer)"
  by (simp add: one_computer_def alloc_inv_def last_slot_def)

lemma demo_slot: "computer_slot demo_computer = Some 1"
  by code_simp

lemma destroy_completes_witness:
  "torn_down ''comp-1'' 1 [demo_computer] (w_alloc one_computer) (run_state (destroy fake_env ''comp-1'') one_computer)"
proof -
  have "get_computer ''comp-1'' one_computer = Some demo_computer" "c_status demo_computer = Running"
    "distinct (map c_id (w_computers one_computer))" "w_computers one_computer = [demo_computer]"
    by (simp_all add: get_computer_def one_computer_def demo_computer_def)
  from destroy_completes [OF this(1-3) demo_slot one_computer_alloc, of fake_env] this(4) show ?thesis by simp
qed

text \<open>C6: a teardown has one owner. A claim succeeds only while the row is running and then leaves
  no running row of that id, so no later claim succeeds; and destroying a computer that is
  already destroying or destroyed changes nothing and does not raise.\<close>

theorem teardown_claimed_once:
  "(outcome (claim_teardown i) w = Inr True \<longrightarrow> (\<exists>c\<in>set (w_computers w). c_id c = i \<and> c_status c = Running)) \<and>
   outcome (claim_teardown i) (run_state (claim_teardown i) w) = Inr False \<and>
   ((\<exists>c. get_computer i w = Some c) \<and> (\<forall>c\<in>set (w_computers w). c_id c = i \<longrightarrow> c_status c \<noteq> Running) \<longrightarrow>
      destroy E i w = (Inr (), w))"
proof (intro conjI impI)
  show "\<exists>c\<in>set (w_computers w). c_id c = i \<and> c_status c = Running" if "outcome (claim_teardown i) w = Inr True"
  proof (rule ccontr)
    assume "\<not> ?thesis"
    then have "claim_teardown i w = (Inr False, w)" by (intro claim_loses) auto
    with that show False by (simp add: outcome_def)
  qed
  have "w_computers (run_state (claim_teardown i) w) =
      update_where (\<lambda>c. c_id c = i \<and> c_status c = Running) (c_status_update (\<lambda>_. Destroying)) (w_computers w)"
    by (simp add: run_state_def claim_teardown_def Let_def bindE_def seqE_def reads_def writes_def ret_def)
  moreover have "c_status c \<noteq> Running"
    if c: "c \<in> set (update_where (\<lambda>c. c_id c = i \<and> c_status c = Running) (c_status_update (\<lambda>_. Destroying)) rows)"
      "c_id c = i" for c rows
  proof -
    from c(1) have "c \<in> (\<lambda>r. if c_id r = i \<and> c_status r = Running then c_status_update (\<lambda>_. Destroying) r else r) ` set rows"
      by (simp only: update_where_def list.set_map)
    then obtain r where r: "c = (if c_id r = i \<and> c_status r = Running then c_status_update (\<lambda>_. Destroying) r else r)"
      by (rule imageE)
    show ?thesis
    proof (cases "c_id r = i \<and> c_status r = Running")
      case True
      then show ?thesis using r by simp
    next
      case False
      then have "c = r" using r by (simp only: if_False)
      then show ?thesis using False c(2) by simp
    qed
  qed
  ultimately have "claim_teardown i (run_state (claim_teardown i) w) = (Inr False, run_state (claim_teardown i) w)"
    by (intro claim_loses) simp
  then show "outcome (claim_teardown i) (run_state (claim_teardown i) w) = Inr False"
    by (simp add: outcome_def)
next
  assume a: "(\<exists>c. get_computer i w = Some c) \<and> (\<forall>c\<in>set (w_computers w). c_id c = i \<longrightarrow> c_status c \<noteq> Running)"
  then obtain c where c: "get_computer i w = Some c" by blast
  have "claim_teardown i w = (Inr False, w)" using a by (intro claim_loses) auto
  then show "destroy E i w = (Inr (), w)"
    using c by (simp add: destroy_def bindE_def reads_def ret_def)
qed

lemma teardown_claimed_once_witness:
  "destroy fake_env ''comp-1'' (run_state (destroy fake_env ''comp-1'') one_computer) =
     (Inr (), run_state (destroy fake_env ''comp-1'') one_computer)"
proof -
  let ?w = "run_state (destroy fake_env ''comp-1'') one_computer"
  have "get_computer ''comp-1'' one_computer = Some demo_computer" "c_status demo_computer = Running"
    "computers.keyed one_computer" "w_computers one_computer = [demo_computer]"
    by (simp_all add: get_computer_def one_computer_def demo_computer_def computers.keyed_def)
  from destroy_wp [OF this(1-3) demo_slot one_computer_alloc, of fake_env] this(4)
  have "w_computers ?w = [c_status_update (\<lambda>_. Destroyed) demo_computer]"
    by (auto simp: wp_outcome torn_down_def update_where_def demo_computer_def split: sum.splits)
  then show ?thesis
    using teardown_claimed_once [of "''comp-1''" ?w fake_env]
    by (simp add: get_computer_def demo_computer_def)
qed

text \<open>The per-account VM limit is a limit on create alone. A create leaves the account at or
  below its limit, or adds no computer that counts; a fork does the same whatever the limit is.\<close>

lemma limit_on_create_only:
  assumes "alloc_inv (w_alloc w)" and "pop_ok (e_pop E)" and "fresh_id E w"
    and "count_active_computers_by_account (a_id account) w \<le> max (a_vm_limit account) 0"
  shows "count_active_computers_by_account (a_id account)
           (run_state (create_computer E account recipe_id res key) w) \<le> max (a_vm_limit account) 0 \<and>
         fork_computer E (account\<lparr>a_vm_limit := n\<rparr>) ck recipe_id key = fork_computer E account ck recipe_id key"
proof
  let ?w = "run_state (create_computer E account recipe_id res key) w"
  have cnt: "count_active_computers_by_account a v = int (length (filter (\<lambda>c. c_account_id c = a) (active (w_computers v))))"
    for a and v :: "'a world"
    by (simp add: count_active_computers_by_account_def active_def filter_filter conj_commute)
  show "count_active_computers_by_account (a_id account) ?w \<le> max (a_vm_limit account) 0"
  proof (cases "outcome (create_computer E account recipe_id res key) w")
    case (Inl e)
    then have "active (w_computers ?w) = active (w_computers w)"
      using create_computer_wp [OF assms(1-3), of account recipe_id res key] by (simp add: wp_outcome left_alone_def)
    then show ?thesis using assms(4) by (simp add: cnt)
  next
    case (Inr c)
    then have "w_computers ?w = w_computers w @ [c]" "below_limit account w"
      using create_computer_wp [OF assms(1-3), of account recipe_id res key]
      by (simp_all add: wp_outcome came_up_def)
    then show ?thesis by (auto simp: cnt active_def below_limit_def)
  qed
  have same: "bring_up E (account\<lparr>a_vm_limit := n\<rparr>) = bring_up E account"
    by (intro ext) (simp add: bring_up_def bring_up_steps_def)
  show "fork_computer E (account\<lparr>a_vm_limit := n\<rparr>) ck recipe_id key = fork_computer E account ck recipe_id key"
    unfolding fork_computer_def same ..
qed

lemma limit_on_create_only_witness:
  "count_active_computers_by_account ''acct-1''
     (run_state (create_computer fake_env demo_account None default_resources None) new_world) \<le> 1 \<and>
   fork_computer fake_env (demo_account\<lparr>a_vm_limit := 0\<rparr>) demo_checkpoint None None =
   fork_computer fake_env demo_account demo_checkpoint None None"
proof -
  have "alloc_inv (w_alloc new_world)" "pop_ok (e_pop fake_env)" "fresh_id fake_env new_world"
    "count_active_computers_by_account (a_id demo_account) new_world \<le> max (a_vm_limit demo_account) 0"
    by (simp_all add: new_world_def fake_env_def pop_ok_Min fresh_id_def count_active_computers_by_account_def)
  from limit_on_create_only [OF this, of None default_resources None 0 demo_checkpoint] show ?thesis
    by (simp add: demo_account_def)
qed

end
