(* ===== verification/Trees.thy ===== *)
theory Trees
  imports Files Errors
begin

text \<open>
  File systems whose nodes hang together, and what the operations of theory \<open>Files\<close> do there to a
  path that meets no link and no file on its way: each is characterised by the lookup after it.
  Services that copy trees about (merge, the checkpoint directories) are proved over these facts.
\<close>

section \<open>Well-formed file systems and clear paths\<close>

definition wf_fs :: "fs \<Rightarrow> bool" where
  "wf_fs f \<longleftrightarrow> list_all (\<lambda>q. q \<noteq> [] \<and> list_all plain q \<and> node_at f (butlast q) = Some NDir) (map fst f)"

lemma lookup_dom: "fs_lookup f q \<noteq> None \<longleftrightarrow> q \<in> fst ` set f"
  by (auto simp: fs_lookup_def map_of_eq_None_iff)

lemma wf_fs_iff:
  "wf_fs f \<longleftrightarrow>
     (\<forall>q. fs_lookup f q \<noteq> None \<longrightarrow> q \<noteq> [] \<and> list_all plain q \<and> node_at f (butlast q) = Some NDir)"
  unfolding wf_fs_def list_all_iff lookup_dom by auto

lemma wf_fsD:
  assumes "wf_fs f" and "fs_lookup f q = Some n"
  shows "q \<noteq> []" and "list_all plain q" and "node_at f (butlast q) = Some NDir"
  using assms by (auto simp: wf_fs_iff)

text \<open>Every directory above a node is there.\<close>

lemma wf_above:
  assumes "wf_fs f" and "fs_lookup f (p @ q) = Some n" and "q \<noteq> []"
  shows "node_at f p = Some NDir"
  using assms(2,3)
proof (induction q arbitrary: n rule: rev_induct)
  case (snoc x q)
  have b: "node_at f (p @ q) = Some NDir"
    using wf_fsD(3) [OF assms(1) snoc.prems(1)] by (simp add: butlast_append)
  show ?case
  proof (cases "q = []")
    case True
    with b show ?thesis by simp
  next
    case False
    then have "fs_lookup f (p @ q) = Some NDir" using b by (simp add: node_at_def)
    with False show ?thesis by (rule snoc.IH [rotated])
  qed
qed simp

text \<open>A path on which nothing but directories stands above the last component.\<close>

definition clear :: "fs \<Rightarrow> path \<Rightarrow> bool" where
  "clear f q \<longleftrightarrow> q \<noteq> [] \<and> list_all plain q \<and>
     list_all (\<lambda>n. node_at f (take n q) \<in> {None, Some NDir}) [0..<length q]"

lemma clearD:
  assumes "clear f q"
  shows "q \<noteq> []" and "list_all plain q" and "\<And>n. n < length q \<Longrightarrow> node_at f (take n q) \<in> {None, Some NDir}"
  using assms unfolding clear_def list_all_iff by auto

lemma clearI:
  "q \<noteq> [] \<Longrightarrow> list_all plain q \<Longrightarrow> (\<And>n. n < length q \<Longrightarrow> node_at f (take n q) \<in> {None, Some NDir}) \<Longrightarrow> clear f q"
  unfolding clear_def list_all_iff by auto

lemma clear_take: "clear f q \<Longrightarrow> 0 < n \<Longrightarrow> clear f (take n q)"
  by (auto simp: clear_def list_all_iff dest: in_set_takeD)

lemma no_link_on_the_way:
  assumes "clear f q" and "n < length q" and "0 < n"
  shows "\<not> is_link f (take n q)"
proof -
  have "take n q \<noteq> []" using assms by (auto simp: clear_def)
  then show ?thesis using clearD(3) [OF assms(1,2)] by (auto simp: is_link_def node_at_def)
qed

lemma clear_resolve_parent [simp]:
  assumes "clear f q"
  shows "fs_resolve_parent f q = Some q"
proof -
  have "walk max_links f [] (butlast q) = Some ([] @ butlast q)"
  proof (rule walk_plain)
    show "list_all plain (butlast q)" using clearD(2) [OF assms] by (auto simp: list_all_iff dest: in_set_butlastD)
    show "\<not> is_link f ([] @ take n (butlast q))" if "0 < n" "n \<le> length (butlast q)" for n
      using no_link_on_the_way [OF assms, of n] that clearD(1) [OF assms]
      by (simp add: take_butlast)
  qed
  then show ?thesis using clearD(1) [OF assms] by (simp add: fs_resolve_parent_def fs_resolve_def)
qed

lemma clear_unfollowed [simp]: "clear f q \<Longrightarrow> unfollowed f q = fs_lookup f q"
  by (frule clearD(1)) (simp add: unfollowed_def node_at_def)

lemma clear_symlink: "clear f q \<Longrightarrow> path_is_symlink f q = is_link f q"
  by (simp add: path_is_symlink_def is_link_def)

lemma clear_resolve:
  assumes "clear f q" and "\<not> is_link f q"
  shows "fs_resolve f q = Some q"
proof -
  have "walk max_links f [] q = Some ([] @ q)"
  proof (rule walk_plain)
    show "list_all plain q" by (rule clearD(2) [OF assms(1)])
    show "\<not> is_link f ([] @ take n q)" if "0 < n" "n \<le> length q" for n
      using no_link_on_the_way [OF assms(1), of n] assms(2) that by (cases "n = length q") auto
  qed
  then show ?thesis by (simp add: fs_resolve_def)
qed

lemma clear_followed:
  assumes "clear f q" and "\<not> is_link f q"
  shows "followed f q = fs_lookup f q"
  using clear_resolve [OF assms] clearD(1) [OF assms(1)] by (simp add: followed_def node_at_def)

text \<open>A directory whose path is made of directories.\<close>

definition real_dir :: "fs \<Rightarrow> path \<Rightarrow> bool" where
  "real_dir f d \<longleftrightarrow> clear f d \<and> fs_lookup f d = Some NDir"

lemma real_dirI: "wf_fs f \<Longrightarrow> fs_lookup f d = Some NDir \<Longrightarrow> real_dir f d"
  unfolding real_dir_def clear_def list_all_iff
proof (intro conjI ballI)
  assume w: "wf_fs f" and d: "fs_lookup f d = Some NDir"
  show "d \<noteq> []" by (rule wf_fsD(1) [OF w d])
  show "plain x" if "x \<in> set d" for x using wf_fsD(2) [OF w d] that by (simp add: list_all_iff)
  show "fs_lookup f d = Some NDir" by (rule d)
  fix n assume "n \<in> set [0..<length d]"
  then have "drop n d \<noteq> []" by simp
  then have "node_at f (take n d) = Some NDir" by (rule wf_above [OF w, rotated]) (simp add: d)
  then show "node_at f (take n d) \<in> {None, Some NDir}" by simp
qed

lemma real_dir_resolve: "real_dir f d \<Longrightarrow> fs_resolve f d = Some d"
  by (rule clear_resolve) (auto simp: real_dir_def is_link_def)

lemma real_dir_takes:
  assumes "wf_fs f" and "real_dir f d" and "n \<le> length d"
  shows "node_at f (take n d) = Some NDir"
proof (cases "n = length d")
  case True
  then show ?thesis using assms by (simp add: real_dir_def node_at_def)
next
  case False
  with assms(3) have "drop n d \<noteq> []" by simp
  then show ?thesis using assms(2) by (intro wf_above [OF assms(1), of _ "drop n d"]) (simp_all add: real_dir_def)
qed

lemma clear_below:
  assumes "wf_fs f" and "real_dir f d" and "rel \<noteq> []" and "list_all plain rel"
  shows "clear f (d @ rel) \<longleftrightarrow>
     (\<forall>n. 0 < n \<and> n < length rel \<longrightarrow> fs_lookup f (d @ take n rel) \<in> {None, Some NDir})"
proof -
  have d: "list_all plain d" "d \<noteq> []" using assms(2) by (auto simp: real_dir_def clear_def)
  have at: "node_at f (take n (d @ rel)) \<in> {None, Some NDir}" if "n \<le> length d" for n
    using real_dir_takes [OF assms(1,2) that] that by simp
  have below: "node_at f (take (length d + n) (d @ rel)) = fs_lookup f (d @ take n rel)" for n
    using d(2) by (simp add: node_at_def)
  show ?thesis
  proof
    assume c: "clear f (d @ rel)"
    have "fs_lookup f (d @ take n rel) \<in> {None, Some NDir}" if "n < length rel" for n
      using clearD(3) [OF c, of "length d + n"] that unfolding below by simp
    then show "\<forall>n. 0 < n \<and> n < length rel \<longrightarrow> fs_lookup f (d @ take n rel) \<in> {None, Some NDir}"
      by blast
  next
    assume a: "\<forall>n. 0 < n \<and> n < length rel \<longrightarrow> fs_lookup f (d @ take n rel) \<in> {None, Some NDir}"
    have "node_at f (take n (d @ rel)) \<in> {None, Some NDir}" if n: "n < length (d @ rel)" for n
    proof (cases "n \<le> length d")
      case True
      then show ?thesis by (rule at)
    next
      case False
      then have "n = length d + (n - length d)" "0 < n - length d" "n - length d < length rel" using n by auto
      then show ?thesis using a below [of "n - length d"] by metis
    qed
    then show "clear f (d @ rel)" using assms(3,4) d by (intro clearI) simp_all
  qed
qed

section \<open>What the operations do to a clear path\<close>

lemma for_each_snoc: "for_each (xs @ [x]) g = seqE (for_each xs g) (g x)"
proof (induction xs)
  case Nil
  show ?case by (rule ext) (simp add: seqE_def bindE_def ret_def split: prod.splits sum.splits)
next
  case (Cons y ys)
  then show ?case
    by (intro ext) (simp add: seqE_def bindE_def split: prod.splits sum.splits)
qed

lemma seqE_run: "m w = (Inr a, w') \<Longrightarrow> seqE m n w = n w'"
  by (simp add: seqE_def bindE_def)

lemma bindE_run: "m w = (Inr a, w') \<Longrightarrow> bindE m g w = g a w'"
  by (simp add: bindE_def)

lemma bind_reads [simp]: "bindE (reads g) k w = k (g w) w"
  by (simp add: bindE_def reads_def)

lemma wf_put:
  assumes "wf_fs f" and "q \<noteq> []" and "list_all plain q" and "node_at f (butlast q) = Some NDir"
    and "n = NDir \<or> fs_lookup f q \<noteq> Some NDir"
  shows "wf_fs (fs_put f q n)"
  unfolding wf_fs_iff
proof (intro allI impI)
  fix r assume r: "fs_lookup (fs_put f q n) r \<noteq> None"
  have qb: "butlast q \<noteq> q" using assms(2) by (metis append_butlast_last_id append_self_conv not_Cons_self2)
  show "r \<noteq> [] \<and> list_all plain r \<and> node_at (fs_put f q n) (butlast r) = Some NDir"
  proof (cases "r = q")
    case True
    then show ?thesis using assms(2-4) qb by (simp add: node_at_def split: if_splits)
  next
    case False
    then obtain m where m: "fs_lookup f r = Some m" using r by auto
    have "node_at f (butlast r) = Some NDir" by (rule wf_fsD(3) [OF assms(1) m])
    then have "node_at (fs_put f q n) (butlast r) = Some NDir" using assms(5) by (auto simp: node_at_def)
    then show ?thesis using wf_fsD(1,2) [OF assms(1) m] by simp
  qed
qed

lemma wf_remove:
  assumes "wf_fs f" and "fs_lookup f q \<noteq> Some NDir"
  shows "wf_fs (filter (\<lambda>(r, _). r \<noteq> q) f)"
  using assms unfolding wf_fs_iff fs_lookup_filter node_at_def by (auto split: if_splits)

lemma wf_rmtree:
  assumes "wf_fs f" and "q \<noteq> []"
  shows "wf_fs (fs_rmtree f q)"
  using assms unfolding wf_fs_iff node_at_def fs_lookup_rmtree
  by (auto split: if_splits dest: prefix_order.trans [OF _ prefixeq_butlast])

lemma unlink_run:
  assumes "clear f q" and "fs_lookup f q = Some n" and "n \<noteq> NDir"
  shows "unlink q f = (Inr (), filter (\<lambda>(r, _). r \<noteq> q) f)"
  using assms by (cases n) (simp_all add: unlink_def writes_def)

lemma remove_tree_run: "clear f q \<Longrightarrow> remove_tree q f = (Inr (), fs_rmtree f q)"
  by (simp add: remove_tree_def writes_def)

lemma make_one_dir_run:
  assumes "clear f q" and "fs_lookup f q \<in> {None, Some NDir}"
  shows "make_one_dir q f = (Inr (), if fs_lookup f q = None then fs_put f q NDir else f)"
proof -
  have nl: "\<not> is_link f q" using assms(2) by (auto simp: is_link_def)
  show ?thesis
    using assms clear_followed [OF assms(1) nl]
    by (auto simp: make_one_dir_def ret_def writes_def)
qed

lemma clear_parent:
  assumes "wf_fs f" and "fs_lookup f q = Some n"
  shows "clear f q"
  unfolding clear_def list_all_iff
proof (intro conjI ballI)
  show "q \<noteq> []" by (rule wf_fsD(1) [OF assms])
  show "plain x" if "x \<in> set q" for x using wf_fsD(2) [OF assms] that by (simp add: list_all_iff)
  fix m assume "m \<in> set [0..<length q]"
  then have "node_at f (take m q) = Some NDir"
    by (intro wf_above [OF assms(1), of _ "drop m q"]) (simp_all add: assms(2))
  then show "node_at f (take m q) \<in> {None, Some NDir}" by simp
qed

lemma mkdirs_run:
  assumes "wf_fs f" and "clear f q" and "fs_lookup f q \<in> {None, Some NDir}"
  shows "\<exists>f'. mkdirs q f = (Inr (), f') \<and> wf_fs f' \<and>
              (\<forall>r. fs_lookup f' r = (if r \<noteq> [] \<and> prefix r q then Some NDir else fs_lookup f r))"
proof -
  have at: "fs_lookup f (take (Suc n) q) \<in> {None, Some NDir}" if "n < length q" for n
  proof (cases "Suc n = length q")
    case True
    then show ?thesis using assms(3) by simp
  next
    case False
    then show ?thesis using clearD(3) [OF assms(2), of "Suc n"] clearD(1) [OF assms(2)] that
      by (simp add: node_at_def)
  qed
  have "\<exists>f'. for_each (map (\<lambda>n. take (Suc n) q) [0..<k]) make_one_dir f = (Inr (), f') \<and> wf_fs f' \<and>
          (\<forall>r. fs_lookup f' r = (if r \<noteq> [] \<and> prefix r (take k q) then Some NDir else fs_lookup f r))"
    if "k \<le> length q" for k
    using that
  proof (induction k)
    case 0
    then show ?case using assms(1) by (simp add: ret_def)
  next
    case (Suc k)
    then obtain f' where f': "for_each (map (\<lambda>n. take (Suc n) q) [0..<k]) make_one_dir f = (Inr (), f')"
      and w: "wf_fs f'"
      and l: "\<And>r. fs_lookup f' r = (if r \<noteq> [] \<and> prefix r (take k q) then Some NDir else fs_lookup f r)"
      by auto
    let ?d = "take (Suc k) q"
    have pl: "list_all plain ?d" using clearD(2) [OF assms(2)] by (auto simp: list_all_iff dest: in_set_takeD)
    have ne: "?d \<noteq> []" using Suc.prems by auto
    have bl: "butlast ?d = take k q" using Suc.prems by (simp add: butlast_take)
    have np: "\<not> prefix ?d (take k q)" using Suc.prems by (auto dest: prefix_length_le)
    have node: "fs_lookup f' ?d \<in> {None, Some NDir}" using at [of k] Suc.prems np l [of ?d] by simp
    have par: "node_at f' (butlast ?d) = Some NDir" unfolding bl by (simp add: node_at_def l)
    have "node_at f' (take m ?d) \<in> {None, Some NDir}" if "m < length ?d" for m
    proof -
      have "prefix (take m ?d) (take k q)" using that Suc.prems
        by (metis bl length_butlast less_Suc_eq_le Suc_pred' less_nat_zero_code not_gr_zero take_butlast take_is_prefix that)
      then show ?thesis by (simp add: node_at_def l)
    qed
    then have cl: "clear f' ?d" using ne pl by (simp add: clear_def list_all_iff)
    let ?g = "if fs_lookup f' ?d = None then fs_put f' ?d NDir else f'"
    have run: "make_one_dir ?d f' = (Inr (), ?g)" by (rule make_one_dir_run [OF cl node])
    have "wf_fs ?g" using w wf_put [OF w ne pl par, of NDir] by simp
    moreover have "fs_lookup ?g r = (if r \<noteq> [] \<and> prefix r ?d then Some NDir else fs_lookup f r)" for r
    proof -
      have "prefix r ?d \<longleftrightarrow> r = ?d \<or> prefix r (take k q)"
        by (metis append_butlast_last_id bl ne prefix_snoc)
      then show ?thesis using node l [of ?d] np l [of r] ne by auto
    qed
    ultimately show ?case
      using run f' by (auto simp: for_each_snoc seqE_run)
  qed
  from this [of "length q"] show ?thesis by (simp add: mkdirs_def)
qed

lemma write_text_run:
  assumes "clear f q" and "fs_lookup f q \<in> {None} \<union> range (Some \<circ> NFile)" and "node_at f (butlast q) = Some NDir"
  shows "write_text q t f = (Inr (), fs_put f q (NFile t))"
proof -
  have nl: "\<not> is_link f q" and nd: "fs_lookup f q \<noteq> Some NDir" using assms(2) by (auto simp: is_link_def)
  have "write_target f q = Inr q"
    using clear_resolve [OF assms(1) nl] clearD(1) [OF assms(1)] nd assms(3) by (simp add: write_target_def)
  then show ?thesis by (simp add: write_text_def from_result_def) (simp add: bindE_def ret_def writes_def)
qed

lemma symlink_run:
  assumes "clear f q" and "fs_lookup f q = None" and "node_at f (butlast q) = Some NDir"
  shows "symlink_to q t f = (Inr (), fs_put f q (NLink t))"
  using assms by (simp add: symlink_to_def writes_def)

lemma read_text_run:
  assumes "clear f q" and "fs_lookup f q = Some (NFile t)"
  shows "read_text q f = (Inr t, f)"
proof -
  have "\<not> is_link f q" using assms(2) by (simp add: is_link_def)
  then show ?thesis using clear_followed [OF assms(1)] assms(2) by (simp add: read_text_def ret_def)
qed

end
