(* ===== verification/Merge.thy ===== *)
theory Merge
  imports Trees World
begin

text \<open>
  The three-way merge of directory trees (src/src/mshkn/services/merge.py) and its application to a
  mounted volume (\<open>_merge_into\<close> of src/src/mshkn/services/checkpoints.py), as actions on the
  file system of the machine: a tree is what stands below a directory of it. A set of relative
  paths is a list without duplicates, a relative path the list of its components; the md5 digest
  is a parameter. Modes, owners, times and special files are not in the model's nodes.
\<close>

section \<open>The text of a path\<close>

text \<open>\<open>str(Path(t))\<close>: a root of one slash or exactly two, then the components without empty ones
  and dots.\<close>

definition splitroot :: "string \<Rightarrow> string \<times> string" where
  "splitroot t =
     (case t of
        [] \<Rightarrow> ([], t)
      | c # cs \<Rightarrow>
          if c \<noteq> CHR ''/'' then ([], t)
          else if take 1 cs \<noteq> ''/'' \<or> take 1 (drop 1 cs) = ''/'' then (''/'', cs) else (''//'', drop 1 cs))"

definition path_str :: "string \<Rightarrow> string" where
  "path_str t =
     (let (root, rel) = splitroot t;
          s = root @ join ''/'' (filter (\<lambda>x. x \<noteq> [] \<and> x \<noteq> ''.'') (split_on (CHR ''/'') rel))
      in if s = [] then ''.'' else s)"

section \<open>Entries\<close>

definition path_is_file :: "fs \<Rightarrow> path \<Rightarrow> bool" where
  "path_is_file f p \<longleftrightarrow> (case followed f p of Some (NFile _) \<Rightarrow> True | _ \<Rightarrow> False)"

definition readlink :: "fs \<Rightarrow> path \<Rightarrow> string" where
  "readlink f p = (case unfollowed f p of Some (NLink t) \<Rightarrow> path_str t | _ \<Rightarrow> [])"

definition file_text :: "fs \<Rightarrow> path \<Rightarrow> string" where
  "file_text f p = (case followed f p of Some (NFile t) \<Rightarrow> t | _ \<Rightarrow> [])"

definition entry_hash :: "(string \<Rightarrow> string) \<Rightarrow> fs \<Rightarrow> path option \<Rightarrow> string option" where
  "entry_hash md5 f p =
     (case p of
        None \<Rightarrow> None
      | Some p \<Rightarrow>
          if path_is_symlink f p then Some (''link:'' @ readlink f p)
          else if path_is_file f p then Some (md5 (file_text f p))
          else None)"

text \<open>\<open>os.walk(d, followlinks=False)\<close>: the files and links below \<open>d\<close> that only directories lead to.\<close>

definition entries_below :: "fs \<Rightarrow> path \<Rightarrow> path list" where
  "entries_below f d =
     (if path_is_dir f d
      then (case fs_resolve f d of
              None \<Rightarrow> []
            | Some r \<Rightarrow>
                map (drop (length r))
                  (filter (\<lambda>q. strict_prefix r q \<and> fs_lookup f q \<notin> {None, Some NDir} \<and>
                        list_all (\<lambda>n. fs_lookup f (take n q) = Some NDir) [Suc (length r)..<length q])
                    (map fst f)))
      else [])"

definition all_relative_entries :: "fs \<Rightarrow> path list \<Rightarrow> path list" where
  "all_relative_entries f dirs = remdups (concat (map (entries_below f) dirs))"

definition sorted_paths :: "path list \<Rightarrow> path list" where
  "sorted_paths ps = sort_key (join ''/'') ps"

fun entry_walk :: "fs \<Rightarrow> path \<Rightarrow> string list \<Rightarrow> bool" where
  "entry_walk f walked [] = True"
| "entry_walk f walked (x # xs) =
     (let p = walked @ [x] in
      if path_is_symlink f p \<or> path_is_file f p then False else entry_walk f p xs)"

definition entry_path :: "fs \<Rightarrow> path \<Rightarrow> path \<Rightarrow> path option" where
  "entry_path f base rel = (if entry_walk f base (butlast rel) then Some (base @ rel) else None)"

section \<open>Writing entries\<close>

fun unlink_shadows :: "path \<Rightarrow> path list \<Rightarrow> path \<Rightarrow> string list \<Rightarrow> (fs, unit) act" where
  "unlink_shadows output entries walked [] = ret ()"
| "unlink_shadows output entries walked (x # xs) =
     (let p = walked @ [x] in
      bindE (reads (\<lambda>f. path_is_symlink f (output @ p) \<or> path_is_file f (output @ p))) (\<lambda>shadows.
      seqE (whenE (shadows \<and> p \<notin> set entries) (unlink (output @ p)))
           (unlink_shadows output entries p xs)))"

definition unlink_stale_ancestors :: "path \<Rightarrow> path list \<Rightarrow> (fs, unit) act" where
  "unlink_stale_ancestors output entries =
     for_each (sorted_paths entries) (\<lambda>rel. unlink_shadows output entries [] (butlast rel))"

text \<open>The first step of a copy: what stood at the path, and below it, is gone.\<close>

definition clear_away :: "path \<Rightarrow> bool \<times> bool \<times> bool \<Rightarrow> (fs, unit) act" where
  "clear_away dest = (\<lambda>(link, dir, there).
     if link then unlink dest else if dir then remove_tree dest else whenE there (unlink dest))"

definition copy_entry :: "path \<Rightarrow> path \<Rightarrow> (fs, unit) act" where
  "copy_entry src dest =
     bindE (reads (\<lambda>f. (path_is_symlink f dest, path_is_dir f dest, path_exists f dest))) (\<lambda>st.
     seqE (clear_away dest st)
     (seqE (mkdirs (butlast dest))
     (bindE (reads (\<lambda>f. path_is_symlink f src)) (\<lambda>l.
      if l then bindE (reads (\<lambda>f. readlink f src)) (symlink_to dest)
      else bindE (read_text src) (write_text dest)))))"

definition apply_entry :: "path option \<Rightarrow> string option \<Rightarrow> path option \<Rightarrow> (fs, unit) act" where
  "apply_entry src src_hash dest =
     (case (src, src_hash, dest) of
        (Some s, Some _, Some d) \<Rightarrow> copy_entry s d
      | _ \<Rightarrow> ret ())"

section \<open>The merge\<close>

record conflict_info =
  ci_path :: path
  ci_parent_hash :: "string option"
  ci_fork_a_hash :: "string option"
  ci_fork_b_hash :: "string option"

record merge_result =
  mr_merged_dir :: path
  mr_conflicts :: "conflict_info list"
  mr_auto_merged :: int
  mr_unchanged :: int

definition merge_entry ::
  "(string \<Rightarrow> string) \<Rightarrow> path \<Rightarrow> path \<Rightarrow> path \<Rightarrow> path \<Rightarrow> path \<Rightarrow> merge_result \<Rightarrow> (fs, merge_result) act" where
  "merge_entry md5 parent fork_a fork_b output rel res =
     bindE (reads (\<lambda>f. f)) (\<lambda>f.
     let p_file = entry_path f parent rel;
         a_file = entry_path f fork_a rel;
         b_file = entry_path f fork_b rel;
         out_file = entry_path f output rel;
         hp = entry_hash md5 f p_file;
         ha = entry_hash md5 f a_file;
         hb = entry_hash md5 f b_file in
     if ha = hp \<and> hb = hp then
       seqE (apply_entry p_file hp out_file) (ret (res\<lparr>mr_unchanged := mr_unchanged res + 1\<rparr>))
     else if ha \<noteq> hp \<and> hb = hp then
       seqE (apply_entry a_file ha out_file) (ret (res\<lparr>mr_auto_merged := mr_auto_merged res + 1\<rparr>))
     else if ha = hp \<and> hb \<noteq> hp then
       seqE (apply_entry b_file hb out_file) (ret (res\<lparr>mr_auto_merged := mr_auto_merged res + 1\<rparr>))
     else if ha = hb then
       seqE (apply_entry a_file ha out_file) (ret (res\<lparr>mr_auto_merged := mr_auto_merged res + 1\<rparr>))
     else
       seqE (if ha \<noteq> None then apply_entry a_file ha out_file else apply_entry b_file hb out_file)
         (ret (res\<lparr>mr_conflicts := mr_conflicts res @
            [\<lparr>ci_path = rel, ci_parent_hash = hp, ci_fork_a_hash = ha, ci_fork_b_hash = hb\<rparr>]\<rparr>)))"

fun merge_entries ::
  "(string \<Rightarrow> string) \<Rightarrow> path \<Rightarrow> path \<Rightarrow> path \<Rightarrow> path \<Rightarrow> path list \<Rightarrow> merge_result \<Rightarrow> (fs, merge_result) act" where
  "merge_entries md5 parent fork_a fork_b output [] res = ret res"
| "merge_entries md5 parent fork_a fork_b output (rel # rels) res =
     bindE (merge_entry md5 parent fork_a fork_b output rel res)
       (merge_entries md5 parent fork_a fork_b output rels)"

definition three_way_merge ::
  "(string \<Rightarrow> string) \<Rightarrow> path \<Rightarrow> path \<Rightarrow> path \<Rightarrow> path option \<Rightarrow> (fs, merge_result) act" where
  "three_way_merge md5 parent fork_a fork_b output_arg =
     (let output = (case output_arg of None \<Rightarrow> butlast parent @ [''merged''] | Some out \<Rightarrow> out) in
      seqE (mkdirs output)
      (bindE (reads (\<lambda>f. sorted_paths (all_relative_entries f [parent, fork_a, fork_b]))) (\<lambda>rels.
       merge_entries md5 parent fork_a fork_b output rels
         \<lparr>mr_merged_dir = output, mr_conflicts = [], mr_auto_merged = 0, mr_unchanged = 0\<rparr>)))"

section \<open>Applying the result to a volume\<close>

definition copy_result :: "path \<Rightarrow> path \<Rightarrow> path \<Rightarrow> (fs, unit) act" where
  "copy_result merge_output output rel =
     bindE (reads (\<lambda>f. entry_path f output rel)) (\<lambda>dest.
     case dest of None \<Rightarrow> ret () | Some d \<Rightarrow> copy_entry (merge_output @ rel) d)"

definition delete_gone :: "path \<Rightarrow> path \<Rightarrow> (fs, unit) act" where
  "delete_gone output rel =
     bindE (reads (\<lambda>f. entry_path f output rel)) (\<lambda>target.
     case target of
       None \<Rightarrow> ret ()
     | Some t \<Rightarrow> bindE (reads (\<lambda>f. path_is_symlink f t \<or> path_is_file f t)) (\<lambda>b. whenE b (unlink t)))"

definition apply_result :: "path \<Rightarrow> path \<Rightarrow> path \<Rightarrow> (fs, unit) act" where
  "apply_result parent merge_output output =
     bindE (reads (\<lambda>f. all_relative_entries f [merge_output])) (\<lambda>merged.
     seqE (unlink_stale_ancestors output merged)
     (seqE (for_each (sorted_paths merged) (copy_result merge_output output))
     (bindE (reads (\<lambda>f. sorted_paths (filter (\<lambda>rel. rel \<notin> set merged) (all_relative_entries f [parent])))) (\<lambda>gone.
      for_each gone (delete_gone output)))))"

text \<open>The temporary directory is the argument \<open>merge_dir\<close>.\<close>

definition merge_into :: "(string \<Rightarrow> string) \<Rightarrow> path \<Rightarrow> path \<Rightarrow> path \<Rightarrow> path \<Rightarrow> path \<Rightarrow> (fs, merge_result) act" where
  "merge_into md5 merge_dir parent fork_a fork_b output =
     seqE (make_one_dir merge_dir)
     (finallyE
        (let merge_output = merge_dir @ [''merge_result''] in
         bindE (three_way_merge md5 parent fork_a fork_b (Some merge_output)) (\<lambda>result.
         seqE (apply_result parent merge_output output) (ret result)))
        (writes (\<lambda>f. fs_rmtree f merge_dir)))"

section \<open>Trees as maps\<close>

text \<open>What stands at a relative path below a directory: a file or a link, never a directory.\<close>

definition norm_node :: "node \<Rightarrow> node" where
  "norm_node n = (case n of NLink t \<Rightarrow> NLink (path_str t) | _ \<Rightarrow> n)"

definition tree :: "fs \<Rightarrow> path \<Rightarrow> path \<Rightarrow> node option" where
  "tree f d rel =
     (case fs_lookup f (d @ rel) of None \<Rightarrow> None | Some n \<Rightarrow> if n = NDir then None else Some (norm_node n))"

definition node_hash :: "(string \<Rightarrow> string) \<Rightarrow> node \<Rightarrow> string" where
  "node_hash md5 n = (case n of NLink t \<Rightarrow> ''link:'' @ t | NFile t \<Rightarrow> md5 t | NDir \<Rightarrow> [])"

lemma all_takes_Cons:
  "(\<forall>n\<le>length (x # xs). P (p @ take n (x # xs))) \<longleftrightarrow> P p \<and> (\<forall>n\<le>length xs. P ((p @ [x]) @ take n xs))"
proof -
  have "(\<forall>n\<le>Suc k. Q n) \<longleftrightarrow> Q 0 \<and> (\<forall>n\<le>k. Q (Suc n))" for k and Q :: "nat \<Rightarrow> bool"
    by (metis le0 le_SucE Suc_le_mono not0_implies_Suc)
  from this [of "length xs" "\<lambda>n. P (p @ take n (x # xs))"] show ?thesis by simp
qed

lemma entry_walk_iff:
  assumes "list_all plain (p @ xs)" and "p \<noteq> []"
    and "\<And>n. n \<le> length p \<Longrightarrow> node_at f (take n p) \<in> {None, Some NDir}"
  shows "entry_walk f p xs \<longleftrightarrow> (\<forall>n\<le>length xs. node_at f (p @ take n xs) \<in> {None, Some NDir})"
  using assms
proof (induction xs arbitrary: p)
  case Nil
  then show ?case using Nil.prems(3) [of "length p"] by simp
next
  case (Cons x xs)
  let ?p = "p @ [x]"
  have at: "node_at f (take n ?p) \<in> {None, Some NDir}" if "n \<le> length p" for n
    using Cons.prems(3) [OF that] that by simp
  have c: "clear f ?p"
  proof (rule clearI)
    show "list_all plain ?p" using Cons.prems(1) by simp
    show "node_at f (take n ?p) \<in> {None, Some NDir}" if "n < length ?p" for n
      using at [of n] that by simp
  qed simp
  have bad: "path_is_symlink f ?p \<or> path_is_file f ?p \<longleftrightarrow> node_at f ?p \<notin> {None, Some NDir}"
  proof (cases "is_link f ?p")
    case True
    then show ?thesis using c by (auto simp: clear_symlink is_link_def node_at_def split: option.splits node.splits)
  next
    case False
    then show ?thesis using c clear_followed [OF c False]
      by (auto simp: clear_symlink path_is_file_def is_link_def node_at_def split: option.splits node.splits)
  qed
  show ?case
  proof (cases "node_at f ?p \<in> {None, Some NDir}")
    case True
    have "node_at f (take n ?p) \<in> {None, Some NDir}" if "n \<le> length ?p" for n
      using at [of n] True that by (cases "n = length ?p") auto
    then have "entry_walk f ?p xs \<longleftrightarrow> (\<forall>n\<le>length xs. node_at f (?p @ take n xs) \<in> {None, Some NDir})"
      using Cons.prems(1) by (intro Cons.IH) auto
    also have "\<dots> \<longleftrightarrow> (\<forall>n\<le>length (x # xs). node_at f (p @ take n (x # xs)) \<in> {None, Some NDir})"
      using Cons.prems(3) [of "length p"] all_takes_Cons [of x xs "\<lambda>q. node_at f q \<in> {None, Some NDir}" p]
      by simp
    finally show ?thesis using bad True unfolding entry_walk.simps Let_def by (simp only: not_True_eq_False if_False)
  next
    case False
    then have "\<not> (\<forall>n\<le>length (x # xs). node_at f (p @ take n (x # xs)) \<in> {None, Some NDir})"
      by (auto intro!: exI [of _ 1])
    then show ?thesis using bad False by (simp add: Let_def)
  qed
qed

lemma entry_path_eq:
  assumes "wf_fs f" and "real_dir f d" and "rel \<noteq> []" and "list_all plain rel"
  shows "entry_path f d rel = (if clear f (d @ rel) then Some (d @ rel) else None)"
proof -
  have d: "list_all plain d" "d \<noteq> []" using assms(2) by (auto simp: real_dir_def clear_def)
  have "list_all plain (d @ butlast rel)" using d assms(4) by (auto simp: list_all_iff dest: in_set_butlastD)
  then have "entry_walk f d (butlast rel) \<longleftrightarrow>
      (\<forall>n\<le>length (butlast rel). node_at f (d @ take n (butlast rel)) \<in> {None, Some NDir})"
    using real_dir_takes [OF assms(1,2)] d(2) by (intro entry_walk_iff) simp_all
  also have "\<dots> \<longleftrightarrow> (\<forall>n. 0 < n \<and> n < length rel \<longrightarrow> fs_lookup f (d @ take n rel) \<in> {None, Some NDir})"
    (is "?L \<longleftrightarrow> ?R")
  proof
    assume l: ?L
    show ?R
    proof (intro allI impI)
      fix n assume n: "0 < n \<and> n < length rel"
      then have "n \<le> length (butlast rel)" unfolding length_butlast by linarith
      then have "node_at f (d @ take n (butlast rel)) \<in> {None, Some NDir}" using l by blast
      then show "fs_lookup f (d @ take n rel) \<in> {None, Some NDir}"
        using n d(2) by (simp add: node_at_def take_butlast)
    qed
  next
    assume r: ?R
    show ?L
    proof (intro allI impI)
      fix n assume n: "n \<le> length (butlast rel)"
      show "node_at f (d @ take n (butlast rel)) \<in> {None, Some NDir}"
      proof (cases "n = 0")
        case True
        then show ?thesis using real_dir_takes [OF assms(1,2), of "length d"] by simp
      next
        case False
        have "n < length rel" using n assms(3) unfolding length_butlast
          by (metis One_nat_def Suc_pred le_imp_less_Suc length_greater_0_conv)
        with False have "fs_lookup f (d @ take n rel) \<in> {None, Some NDir}" using r by blast
        then show ?thesis using \<open>n < length rel\<close> d(2) by (simp add: node_at_def take_butlast)
      qed
    qed
  qed
  also have "\<dots> \<longleftrightarrow> clear f (d @ rel)" by (rule clear_below [OF assms, symmetric])
  finally show ?thesis by (simp add: entry_path_def)
qed

lemma tree_plain:
  assumes "wf_fs f" and "tree f d rel = Some n"
  shows "list_all plain rel"
  using assms wf_fsD(2) [OF assms(1), of "d @ rel"] by (auto simp: tree_def split: option.splits)

lemma tree_Nil: "real_dir f d \<Longrightarrow> tree f d [] = None"
  by (simp add: tree_def real_dir_def)

lemma tree_clear: "wf_fs f \<Longrightarrow> tree f d rel = Some n \<Longrightarrow> clear f (d @ rel)"
  by (cases "fs_lookup f (d @ rel)") (simp_all add: tree_def clear_parent)

text \<open>An entry of a tree is a leaf: nothing stands below it.\<close>

lemma tree_leaf:
  assumes "wf_fs f" and "tree f d rel = Some n" and "rest \<noteq> []"
  shows "fs_lookup f (d @ rel @ rest) = None" and "tree f d (rel @ rest) = None"
proof -
  show l: "fs_lookup f (d @ rel @ rest) = None"
  proof (rule ccontr)
    assume "fs_lookup f (d @ rel @ rest) \<noteq> None"
    then obtain m where "fs_lookup f ((d @ rel) @ rest) = Some m" by auto
    from wf_above [OF assms(1) this assms(3)] have "node_at f (d @ rel) = Some NDir" .
    moreover have "d @ rel \<noteq> []" using tree_clear [OF assms(1,2)] by (simp add: clear_def)
    ultimately have "fs_lookup f (d @ rel) = Some NDir" by (simp only: node_at_def if_False)
    then show False using assms(2) by (simp add: tree_def)
  qed
  then show "tree f d (rel @ rest) = None" by (simp add: tree_def)
qed

lemma entry_hash_tree:
  assumes "wf_fs f" and "real_dir f d" and "rel \<noteq> []" and "list_all plain rel"
  shows "entry_hash md5 f (entry_path f d rel) = map_option (node_hash md5) (tree f d rel)"
proof (cases "clear f (d @ rel)")
  case False
  then have "fs_lookup f (d @ rel) = None" using clear_parent [OF assms(1)] by (cases "fs_lookup f (d @ rel)") auto
  then show ?thesis using False by (simp add: entry_path_eq [OF assms] entry_hash_def tree_def)
next
  case c: True
  show ?thesis
  proof (cases "is_link f (d @ rel)")
    case True
    then obtain t where "fs_lookup f (d @ rel) = Some (NLink t)"
      by (auto simp: is_link_def split: option.splits node.splits)
    then show ?thesis
      using c True by (simp add: entry_path_eq [OF assms] entry_hash_def clear_symlink readlink_def tree_def
          norm_node_def node_hash_def)
  next
    case False
    then show ?thesis
      using c clear_followed [OF c False]
      by (auto simp: entry_path_eq [OF assms] entry_hash_def clear_symlink path_is_file_def file_text_def
          tree_def norm_node_def node_hash_def is_link_def split: option.splits node.splits)
  qed
qed

lemma strict_prefix_append: "strict_prefix r q \<longleftrightarrow> (\<exists>s. s \<noteq> [] \<and> q = r @ s)"
  by (auto simp: strict_prefix_def prefix_def)

lemma entries_below_set:
  assumes "wf_fs f" and "real_dir f d"
  shows "set (entries_below f d) = {rel. tree f d rel \<noteq> None}"
proof -
  have dir: "path_is_dir f d" "fs_resolve f d = Some d"
    using real_dir_resolve [OF assms(2)] assms(2)
    by (auto simp: path_is_dir_def followed_def real_dir_def node_at_def)
  have "rel \<in> set (entries_below f d) \<longleftrightarrow> tree f d rel \<noteq> None" for rel
  proof
    assume "rel \<in> set (entries_below f d)"
    then show "tree f d rel \<noteq> None"
      by (auto simp: entries_below_def dir strict_prefix_append tree_def)
  next
    assume t: "tree f d rel \<noteq> None"
    then obtain n where n: "tree f d rel = Some n" by auto
    then have l: "fs_lookup f (d @ rel) \<notin> {None, Some NDir}" by (auto simp: tree_def split: option.splits if_splits)
    have ne: "rel \<noteq> []" using n tree_Nil [OF assms(2)] by auto
    have dirs: "fs_lookup f (take k (d @ rel)) = Some NDir" if "Suc (length d) \<le> k" "k < length (d @ rel)" for k
    proof -
      obtain m where "fs_lookup f (take k (d @ rel) @ drop k (d @ rel)) = Some m" using l by (auto simp del: take_append drop_append)
      then have "node_at f (take k (d @ rel)) = Some NDir" by (rule wf_above [OF assms(1)]) (use that in simp)
      moreover have "take k (d @ rel) \<noteq> []" using that by (cases d) auto
      ultimately show ?thesis by (simp only: node_at_def if_False)
    qed
    have "d @ rel \<in> set (map fst f)" using l lookup_dom [of f "d @ rel"] by auto
    then have "d @ rel \<in> set (filter (\<lambda>q. strict_prefix d q \<and> fs_lookup f q \<notin> {None, Some NDir} \<and>
           list_all (\<lambda>n. fs_lookup f (take n q) = Some NDir) [Suc (length d)..<length q]) (map fst f))"
      using l ne dirs by (auto simp: strict_prefix_append list_all_iff)
    then have "drop (length d) (d @ rel) \<in> set (entries_below f d)"
      unfolding entries_below_def dir using dir(1) by (simp only: if_True option.case set_map image_eqI)
    then show "rel \<in> set (entries_below f d)" by simp
  qed
  then show ?thesis by blast
qed

lemma norm_node_dir [simp]: "norm_node n = NDir \<longleftrightarrow> n = NDir"
  by (cases n) (simp_all add: norm_node_def)

text \<open>What a copy leaves: the entry, the directories above it, nothing below it.\<close>

definition copied :: "fs \<Rightarrow> path \<Rightarrow> node \<Rightarrow> fs \<Rightarrow> bool" where
  "copied f dest n f' \<longleftrightarrow> wf_fs f' \<and>
     (\<forall>q. fs_lookup f' q =
        (if q = dest then Some (norm_node n)
         else if prefix dest q then None
         else if q \<noteq> [] \<and> prefix q dest then Some NDir
         else fs_lookup f q))"

lemma clear_away_run:
  assumes "wf_fs f" and "clear f dest"
  shows "\<exists>f'. clear_away dest (path_is_symlink f dest, path_is_dir f dest, path_exists f dest) f = (Inr (), f') \<and>
           wf_fs f' \<and> (\<forall>q. fs_lookup f' q = (if prefix dest q then None else fs_lookup f q))"
proof -
  have ne: "dest \<noteq> []" by (rule clearD(1) [OF assms(2)])
  have below: "fs_lookup f q = None" if "prefix dest q" "q \<noteq> dest" "fs_lookup f dest \<noteq> Some NDir" for q
  proof (rule ccontr)
    assume "fs_lookup f q \<noteq> None"
    with that obtain s m where "q = dest @ s" "s \<noteq> []" "fs_lookup f (dest @ s) = Some m" by (auto simp: prefix_def)
    then show False using wf_above [OF assms(1), of dest s m] that(3) ne by (simp add: node_at_def)
  qed
  show ?thesis
  proof (cases "fs_lookup f dest")
    case None
    have nl: "\<not> is_link f dest" using None by (simp add: is_link_def)
    have "clear_away dest (path_is_symlink f dest, path_is_dir f dest, path_exists f dest) f = (Inr (), f)"
      using nl None clear_followed [OF assms(2) nl]
      by (simp add: clear_away_def clear_symlink [OF assms(2)] path_is_dir_def path_exists_def whenE_def ret_def)
    moreover have "fs_lookup f q = (if prefix dest q then None else fs_lookup f q)" for q
      using below [of q] None by auto
    ultimately show ?thesis using assms(1) by blast
  next
    case (Some n)
    show ?thesis
    proof (cases "n = NDir")
      case True
      then have nl: "\<not> is_link f dest" using Some by (simp add: is_link_def)
      have "clear_away dest (path_is_symlink f dest, path_is_dir f dest, path_exists f dest) f = (Inr (), fs_rmtree f dest)"
        using nl Some True clear_followed [OF assms(2) nl] remove_tree_run [OF assms(2)]
        by (simp add: clear_away_def clear_symlink [OF assms(2)] path_is_dir_def)
      then show ?thesis using wf_rmtree [OF assms(1) ne] by auto
    next
      case False
      let ?f = "filter (\<lambda>(r, _). r \<noteq> dest) f"
      have u: "unlink dest f = (Inr (), ?f)" by (rule unlink_run [OF assms(2) Some False])
      have "clear_away dest (path_is_symlink f dest, path_is_dir f dest, path_exists f dest) f = (Inr (), ?f)"
      proof (cases "is_link f dest")
        case True
        then show ?thesis using u by (simp add: clear_away_def clear_symlink [OF assms(2)])
      next
        case nl: False
        then show ?thesis using u Some False clear_followed [OF assms(2) nl]
          by (simp add: clear_away_def clear_symlink [OF assms(2)] path_is_dir_def path_exists_def whenE_def)
      qed
      moreover have "wf_fs ?f" by (rule wf_remove [OF assms(1)]) (simp add: Some False)
      moreover have "fs_lookup ?f q = (if prefix dest q then None else fs_lookup f q)" for q
        using below [of q] Some False by (auto simp: fs_lookup_filter)
      ultimately show ?thesis by blast
    qed
  qed
qed

lemma copy_entry_run:
  assumes "wf_fs f" and "clear f dest" and "butlast dest \<noteq> []" and src: "fs_lookup f src = Some n" "n \<noteq> NDir"
    and "\<not> prefix dest src"
  shows "\<exists>f'. copy_entry src dest f = (Inr (), f') \<and> copied f dest n f'"
proof -
  have ne: "dest \<noteq> []" by (rule clearD(1) [OF assms(2)])
  obtain f1 where f1: "clear_away dest (path_is_symlink f dest, path_is_dir f dest, path_exists f dest) f = (Inr (), f1)"
    and w1: "wf_fs f1" and l1: "\<And>q. fs_lookup f1 q = (if prefix dest q then None else fs_lookup f q)"
    using clear_away_run [OF assms(1,2)] by blast
  have np: "\<not> prefix dest (take m dest)" if "m < length dest" for m
    using that by (auto dest: prefix_length_le)
  have at1: "node_at f1 (take m dest) \<in> {None, Some NDir}" if "m < length dest" for m
    using clearD(3) [OF assms(2) that] np [OF that] by (auto simp: node_at_def l1 split: if_splits)
  have bl: "butlast dest = take (length dest - 1) dest" by (simp add: butlast_conv_take)
  have short: "length dest - 1 < length dest" using ne by simp
  have pl: "list_all plain dest" by (rule clearD(2) [OF assms(2)])
  have c1: "clear f1 (butlast dest)"
  proof (rule clearI [OF assms(3)])
    show "list_all plain (butlast dest)" using pl by (auto simp: list_all_iff dest: in_set_butlastD)
    fix m assume "m < length (butlast dest)"
    then show "node_at f1 (take m (butlast dest)) \<in> {None, Some NDir}"
      using at1 [of m] by (simp add: take_butlast)
  qed
  have "fs_lookup f1 (butlast dest) \<in> {None, Some NDir}"
    using at1 [OF short] assms(3) unfolding bl [symmetric] by (simp add: node_at_def)
  from mkdirs_run [OF w1 c1 this] obtain f2 where f2: "mkdirs (butlast dest) f1 = (Inr (), f2)"
    and w2: "wf_fs f2"
    and l2: "\<And>r. fs_lookup f2 r = (if r \<noteq> [] \<and> prefix r (butlast dest) then Some NDir else fs_lookup f1 r)"
    by blast
  have sp: "prefix r (butlast dest) \<longleftrightarrow> prefix r dest \<and> r \<noteq> dest" for r
    by (metis append_butlast_last_id ne prefix_order.dual_order.refl prefix_snoc prefixeq_butlast np short bl)
  have at2: "node_at f2 (take m dest) = Some NDir" if "m < length dest" for m
    using that sp [of "take m dest"] by (auto simp: node_at_def l2 take_is_prefix)
  have c2: "clear f2 dest"
    by (rule clearI [OF ne pl]) (simp add: at2)
  have d2: "fs_lookup f2 dest = None" using sp [of dest] by (simp add: l2 l1)
  have par: "node_at f2 (butlast dest) = Some NDir" unfolding bl by (rule at2 [OF short])
  have nsrc: "\<not> prefix src dest"
  proof
    assume "prefix src dest"
    then obtain s where s: "dest = src @ s" by (auto simp: prefix_def)
    then have "s \<noteq> []" using assms(6) by auto
    then have "length src < length dest" "take (length src) dest = src" using s by simp_all
    then have "node_at f src \<in> {None, Some NDir}" using clearD(3) [OF assms(2)] by metis
    moreover have "src \<noteq> []" using wf_fsD(1) [OF assms(1) src(1)] .
    ultimately show False using src by (simp add: node_at_def)
  qed
  have s2: "fs_lookup f2 src = Some n" using src nsrc sp [of src] assms(6) by (simp add: l1 l2)
  have cs: "clear f2 src" by (rule clear_parent [OF w2 s2])
  have copied: "copied f dest n (fs_put f2 dest (norm_node n))"
    unfolding copied_def
  proof (intro conjI allI)
    show "wf_fs (fs_put f2 dest (norm_node n))"
      by (rule wf_put [OF w2 ne pl par]) (simp add: d2)
    show "fs_lookup (fs_put f2 dest (norm_node n)) q =
        (if q = dest then Some (norm_node n) else if prefix dest q then None
         else if q \<noteq> [] \<and> prefix q dest then Some NDir else fs_lookup f q)" for q
      using sp [of q] by (auto simp: l1 l2)
  qed
  have "copy_entry src dest f = (Inr (), fs_put f2 dest (norm_node n))"
  proof -
    have "bindE (reads (\<lambda>f. path_is_symlink f src)) (\<lambda>l.
      if l then bindE (reads (\<lambda>f. readlink f src)) (symlink_to dest)
      else bindE (read_text src) (write_text dest)) f2 = (Inr (), fs_put f2 dest (norm_node n))"
    proof (cases n)
      case (NFile t)
      then show ?thesis
        using s2 cs read_text_run [of f2 src t] write_text_run [OF c2 _ par, of t] d2
        by (simp add: clear_symlink is_link_def norm_node_def bindE_run)
    next
      case (NLink t)
      then show ?thesis
        using s2 cs symlink_run [OF c2 d2 par, of "path_str t"]
        by (simp add: clear_symlink is_link_def norm_node_def readlink_def)
    qed (use src in simp)
    then show ?thesis
      using f1 f2 by (simp add: copy_entry_def seqE_run)
  qed
  with copied show ?thesis by blast
qed

section \<open>The text of a path is a normal form\<close>

lemma split_on_parts: "x \<in> set (split_on c s) \<Longrightarrow> c \<notin> set x"
  by (induction s arbitrary: x) (auto split: if_splits list.splits)

lemma split_on_part: "c \<notin> set x \<Longrightarrow> split_on c x = [x]"
  by (induction x) auto

lemma split_on_join2: "c \<notin> set x \<Longrightarrow> split_on c (x @ c # s) = x # split_on c s"
  by (induction x) auto

lemma split_on_join:
  "ps \<noteq> [] \<Longrightarrow> (\<And>x. x \<in> set ps \<Longrightarrow> c \<notin> set x) \<Longrightarrow> split_on c (join [c] ps) = ps"
proof (induction "[c]" ps rule: join.induct)
  case (3 x y ys)
  then show ?case by (simp add: split_on_join2)
qed (simp_all add: split_on_part)

lemma join_first: "ps \<noteq> [] \<Longrightarrow> hd ps \<noteq> [] \<Longrightarrow> join sep ps \<noteq> [] \<and> hd (join sep ps) = hd (hd ps)"
  by (induction sep ps rule: join.induct) simp_all

lemma path_str_parts:
  assumes "splitroot s = (r, rel)"
    and "filter (\<lambda>x. x \<noteq> [] \<and> x \<noteq> ''.'') (split_on (CHR ''/'') rel) = ps"
  shows "path_str s = (if r @ join ''/'' ps = [] then ''.'' else r @ join ''/'' ps)"
  using assms by (simp add: path_str_def Let_def)

lemma path_str_idem [simp]: "path_str (path_str t) = path_str t"
proof -
  obtain r rel where t: "splitroot t = (r, rel)" by (cases "splitroot t")
  define ps where "ps = filter (\<lambda>x. x \<noteq> [] \<and> x \<noteq> ''.'') (split_on (CHR ''/'') rel)"
  have clean: "x \<noteq> []" "x \<noteq> ''.''" "CHR ''/'' \<notin> set x" if "x \<in> set ps" for x
    using that split_on_parts [of x "CHR ''/''" rel] by (auto simp: ps_def)
  have first: "join ''/'' ps \<noteq> [] \<and> hd (join ''/'' ps) \<noteq> CHR ''/''" if "ps \<noteq> []"
  proof -
    have "hd ps \<in> set ps" using that by simp
    from clean [OF this] join_first [OF that, of "''/''"] show ?thesis by (cases "hd ps") auto
  qed
  have again: "filter (\<lambda>x. x \<noteq> [] \<and> x \<noteq> ''.'') (split_on (CHR ''/'') (join ''/'' ps)) = ps"
  proof (cases "ps = []")
    case False
    have "split_on (CHR ''/'') (join ''/'' ps) = ps" by (rule split_on_join [OF False]) (rule clean)
    then show ?thesis using clean by (simp add: filter_id_conv)
  qed simp
  have str: "path_str t = (if r @ join ''/'' ps = [] then ''.'' else r @ join ''/'' ps)"
    by (rule path_str_parts [OF t]) (simp add: ps_def)
  have "r = [] \<or> r = ''/'' \<or> r = ''//''"
    using t by (auto simp: splitroot_def split: list.splits if_splits)
  then consider "r = []" "ps = []" | "r = []" "ps \<noteq> []" | "r = ''/''" | "r = ''//''" by blast
  then show ?thesis
  proof cases
    case 1
    then have "path_str t = ''.''" by (simp add: str)
    moreover have "path_str ''.'' = ''.''" by code_simp
    ultimately show ?thesis by simp
  next
    case 2
    obtain c cs where j: "join ''/'' ps = c # cs" "c \<noteq> CHR ''/''"
      using first [OF 2(2)] by (cases "join ''/'' ps") auto
    have "splitroot (join ''/'' ps) = ([], join ''/'' ps)" using j by (simp add: splitroot_def)
    from path_str_parts [OF this again] show ?thesis using 2 first by (simp add: str)
  next
    case 3
    have "take 1 (join ''/'' ps) \<noteq> ''/''" using first by (cases "ps = []"; cases "join ''/'' ps") auto
    then have "splitroot (''/'' @ join ''/'' ps) = (''/'', join ''/'' ps)" by (simp add: splitroot_def)
    from path_str_parts [OF this again] show ?thesis using 3 by (simp add: str)
  next
    case 4
    have "take 1 (join ''/'' ps) \<noteq> ''/''" using first by (cases "ps = []"; cases "join ''/'' ps") auto
    then have "splitroot (''//'' @ join ''/'' ps) = (''//'', join ''/'' ps)" by (simp add: splitroot_def)
    from path_str_parts [OF this again] show ?thesis using 4 by (simp add: str)
  qed
qed

lemma norm_node_idem [simp]: "norm_node (norm_node n) = norm_node n"
  by (cases n) (simp_all add: norm_node_def)

section \<open>The order of the paths\<close>

lemma prefix_le: "prefix s (t::string) \<Longrightarrow> s \<le> t"
proof (induction s arbitrary: t)
  case (Cons a s)
  from Cons.prems obtain t' where "t = a # t'" "prefix s t'" by (auto simp: prefix_def)
  with Cons.IH [of t'] show ?case by simp
qed simp

lemma join_strict_prefix:
  assumes "strict_prefix y x" and "y \<noteq> []"
  shows "join ''/'' y < join ''/'' x"
proof -
  have "join ''/'' (y @ z) = join ''/'' y @ ''/'' @ join ''/'' z" if "y \<noteq> []" "z \<noteq> []" for y z
    using that
  proof (induction "''/''" y rule: join.induct)
    case (2 x)
    then show ?case by (cases z) simp_all
  qed simp_all
  with assms obtain z where "join ''/'' x = join ''/'' y @ ''/'' @ join ''/'' z"
    by (auto simp: strict_prefix_append)
  then have "prefix (join ''/'' y) (join ''/'' x)" "join ''/'' y \<noteq> join ''/'' x" by simp_all
  then show ?thesis using prefix_le [of "join ''/'' y" "join ''/'' x"] by simp
qed

lemma set_sorted_paths [simp]: "set (sorted_paths ps) = set ps"
  by (simp add: sorted_paths_def)

lemma distinct_sorted_paths [simp]: "distinct (sorted_paths ps) = distinct ps"
  by (simp add: sorted_paths_def)

text \<open>A path comes before every path below it.\<close>

lemma sorted_paths_order:
  assumes "distinct ps" and "[] \<notin> set ps" and "sorted_paths ps = xs @ x # ys"
  shows "\<And>y. y \<in> set xs \<Longrightarrow> \<not> prefix x y" and "\<And>y. y \<in> set ps \<Longrightarrow> strict_prefix y x \<Longrightarrow> y \<in> set xs"
proof -
  have "sorted (map (join ''/'') (sorted_paths ps))" by (simp add: sorted_paths_def)
  then have le: "join ''/'' y \<le> join ''/'' z"
    if "y \<in> set xs" "z = x \<or> z \<in> set ys" for y z
    using that unfolding assms(3) by (auto simp: sorted_append)
  have le2: "join ''/'' x \<le> join ''/'' z" if "z \<in> set ys" for z
    using \<open>sorted (map (join ''/'') (sorted_paths ps))\<close> that unfolding assms(3) by (auto simp: sorted_append)
  have d: "distinct (xs @ x # ys)" using assms(1) by (metis assms(3) distinct_sorted_paths)
  have s: "set ps = set (xs @ x # ys)" by (metis assms(3) set_sorted_paths)
  show "\<not> prefix x y" if "y \<in> set xs" for y
  proof
    assume "prefix x y"
    moreover have "x \<noteq> y" "x \<noteq> []" using d that s assms(2) by auto
    ultimately have "join ''/'' x < join ''/'' y" by (intro join_strict_prefix) (simp_all add: strict_prefix_def)
    with le [OF that, of x] show False by simp
  qed
  show "y \<in> set xs" if "y \<in> set ps" "strict_prefix y x" for y
  proof (rule ccontr)
    assume "y \<notin> set xs"
    with that s have "y \<in> set ys" by auto
    moreover have "join ''/'' y < join ''/'' x" using that assms(2) by (intro join_strict_prefix) auto
    ultimately show False using le2 [of y] by simp
  qed
qed

section \<open>The merge of two trees over a third\<close>

definition decide :: "'a option \<Rightarrow> 'a option \<Rightarrow> 'a option \<Rightarrow> 'a option" where
  "decide p a b =
     (if a = p \<and> b = p then p
      else if b = p then a
      else if a = p then b
      else if a = b then a
      else if a \<noteq> None then a else b)"

text \<open>An entry the merge decided on hides everything below it.\<close>

definition merged_tree ::
  "(path \<Rightarrow> node option) \<Rightarrow> (path \<Rightarrow> node option) \<Rightarrow> (path \<Rightarrow> node option) \<Rightarrow> path \<Rightarrow> node option" where
  "merged_tree tp ta tb rel =
     (if list_ex (\<lambda>n. decide (tp (take n rel)) (ta (take n rel)) (tb (take n rel)) \<noteq> None) [0..<length rel]
      then None else decide (tp rel) (ta rel) (tb rel))"

text \<open>Among the entries that meet at a path, equal digests mean equal entries.\<close>

definition hash_ok :: "(string \<Rightarrow> string) \<Rightarrow> fs \<Rightarrow> path list \<Rightarrow> bool" where
  "hash_ok md5 f ds \<longleftrightarrow>
     list_all (\<lambda>rel. list_all (\<lambda>d. list_all (\<lambda>e.
        map_option (node_hash md5) (tree f d rel) = map_option (node_hash md5) (tree f e rel) \<longrightarrow>
        tree f d rel = tree f e rel) ds) ds) (all_relative_entries f ds)"

definition tally ::
  "(string \<Rightarrow> string) \<Rightarrow> (path \<Rightarrow> node option) \<Rightarrow> (path \<Rightarrow> node option) \<Rightarrow> (path \<Rightarrow> node option) \<Rightarrow>
   path \<Rightarrow> merge_result \<Rightarrow> merge_result" where
  "tally md5 tp ta tb rel res =
     (let p = tp rel; a = ta rel; b = tb rel; h = map_option (node_hash md5) in
      if a = p \<and> b = p then res\<lparr>mr_unchanged := mr_unchanged res + 1\<rparr>
      else if b = p \<or> a = p \<or> a = b then res\<lparr>mr_auto_merged := mr_auto_merged res + 1\<rparr>
      else res\<lparr>mr_conflicts := mr_conflicts res @
             [\<lparr>ci_path = rel, ci_parent_hash = h p, ci_fork_a_hash = h a, ci_fork_b_hash = h b\<rparr>]\<rparr>)"

text \<open>The output while the merge runs: what has been decided for the paths done so far.\<close>

definition merging :: "fs \<Rightarrow> path \<Rightarrow> (path \<Rightarrow> node option) \<Rightarrow> path set \<Rightarrow> fs \<Rightarrow> bool" where
  "merging f0 out M D f \<longleftrightarrow>
     wf_fs f \<and> real_dir f out \<and>
     (\<forall>q. \<not> prefix out q \<longrightarrow> fs_lookup f q = fs_lookup f0 q) \<and>
     (\<forall>r. r \<noteq> [] \<longrightarrow> fs_lookup f (out @ r) \<noteq> None \<longrightarrow> (\<exists>d\<in>D. prefix r d)) \<and>
     (\<forall>r. tree f out r = (if r \<in> D then M r else None))"

lemma mergingD:
  assumes "merging f0 out M D f"
  shows "wf_fs f" and "real_dir f out" and "\<And>q. \<not> prefix out q \<Longrightarrow> fs_lookup f q = fs_lookup f0 q"
    and "\<And>r. r \<noteq> [] \<Longrightarrow> fs_lookup f (out @ r) \<noteq> None \<Longrightarrow> \<exists>d\<in>D. prefix r d"
    and "\<And>r. tree f out r = (if r \<in> D then M r else None)"
  using assms unfolding merging_def by blast+

lemma merging_same:
  assumes "merging f0 out M D f" and "M rel = None"
  shows "merging f0 out M (insert rel D) f"
  using assms unfolding merging_def by auto

lemma copied_tree:
  assumes w: "wf_fs f" and o: "real_dir f out" and c: "copied f (out @ rel) n f'" and rel: "rel \<noteq> []" and n: "n \<noteq> NDir"
  shows "real_dir f' out" and "\<And>q. \<not> prefix out q \<Longrightarrow> fs_lookup f' q = fs_lookup f q"
    and "\<And>r. tree f' out r = (if r = rel then Some (norm_node n)
                            else if prefix rel r \<or> prefix r rel then None else tree f out r)"
proof -
  have l: "fs_lookup f' q = (if q = out @ rel then Some (norm_node n) else if prefix (out @ rel) q then None
         else if q \<noteq> [] \<and> prefix q (out @ rel) then Some NDir else fs_lookup f q)" for q
    using c by (simp add: copied_def)
  have ne: "out \<noteq> []" using o by (simp add: real_dir_def clear_def)
  have "fs_lookup f' out = Some NDir" using ne rel l [of out] by simp
  then show "real_dir f' out" using c by (intro real_dirI) (simp_all add: copied_def)
  show "fs_lookup f' q = fs_lookup f q" if q: "\<not> prefix out q" for q
  proof (cases "q \<noteq> [] \<and> prefix q (out @ rel)")
    case True
    then have "prefix q out" using q unfolding prefix_append by auto
    then obtain s where s: "out = q @ s" by (auto simp: prefix_def)
    then have "fs_lookup f q = Some NDir"
      using real_dir_takes [OF w o, of "length q"] True by (auto simp: node_at_def)
    moreover have "\<not> prefix (out @ rel) q" using q by (meson append_prefixD)
    ultimately show ?thesis using True l [of q] by auto
  next
    case False
    moreover have "\<not> prefix (out @ rel) q" using q by (meson append_prefixD)
    ultimately show ?thesis using l [of q] by auto
  qed
  show "tree f' out r = (if r = rel then Some (norm_node n)
                            else if prefix rel r \<or> prefix r rel then None else tree f out r)" for r
    using n ne by (simp add: tree_def l)
qed

lemma merging_copy:
  assumes m: "merging f0 out M D f" and c: "copied f (out @ rel) n f'" and rel: "rel \<noteq> []"
    and new: "\<And>d. d \<in> D \<Longrightarrow> \<not> prefix rel d" and n: "n \<noteq> NDir" and M: "M rel = Some (norm_node n)"
    and above: "\<And>r. strict_prefix r rel \<Longrightarrow> tree f out r = None"
  shows "merging f0 out M (insert rel D) f'"
proof -
  note C = copied_tree [OF mergingD(1,2) [OF m] c rel n]
  have "\<exists>d\<in>insert rel D. prefix r d" if "r \<noteq> []" "fs_lookup f' (out @ r) \<noteq> None" for r
  proof (cases "prefix r rel")
    case False
    then have "fs_lookup f (out @ r) \<noteq> None" using that(2) c by (auto simp: copied_def split: if_splits)
    from mergingD(4) [OF m that(1) this] show ?thesis by blast
  qed blast
  moreover have "tree f' out r = (if r \<in> insert rel D then M r else None)" for r
  proof -
    have "r \<in> D \<Longrightarrow> \<not> prefix rel r" by (rule new)
    moreover have "r \<in> D \<Longrightarrow> prefix r rel \<Longrightarrow> r \<noteq> rel \<Longrightarrow> M r = None"
      using above [of r] mergingD(5) [OF m, of r] by (simp add: strict_prefix_def)
    ultimately show ?thesis using mergingD(5) [OF m, of r] M by (auto simp: C(3))
  qed
  ultimately show ?thesis
    unfolding merging_def using C(1,2) mergingD(3) [OF m] c by (simp add: copied_def)
qed

definition separate :: "fs \<Rightarrow> path \<Rightarrow> path \<Rightarrow> bool" where
  "separate f out d \<longleftrightarrow> real_dir f d \<and> \<not> prefix d out \<and> \<not> prefix out d"

lemma separate_same:
  assumes "merging f0 out M D f" and "separate f0 out d"
  shows "tree f d = tree f0 d" and "real_dir f d" and "\<not> prefix out (d @ r)"
proof -
  show np: "\<not> prefix out (d @ r)" for r
  proof
    assume "prefix out (d @ r)"
    then have "prefix out d \<or> prefix d out" unfolding prefix_append by auto
    with assms(2) show False by (simp add: separate_def)
  qed
  have l: "fs_lookup f (d @ r) = fs_lookup f0 (d @ r)" for r by (rule mergingD(3) [OF assms(1) np])
  show "tree f d = tree f0 d" by (rule ext) (simp add: tree_def l)
  have "fs_lookup f d = Some NDir" using l [of "[]"] assms(2) by (simp add: separate_def real_dir_def)
  then show "real_dir f d" by (rule real_dirI [OF mergingD(1) [OF assms(1)]])
qed

lemma all_entries_set:
  assumes "wf_fs f" and "\<And>d. d \<in> set ds \<Longrightarrow> real_dir f d"
  shows "set (all_relative_entries f ds) = {rel. \<exists>d\<in>set ds. tree f d rel \<noteq> None}"
  using entries_below_set [OF assms(1) assms(2)] by (auto simp: all_relative_entries_def)

lemma decide_cases: "decide p a b \<in> {p, a, b}"
  by (simp add: decide_def)

lemma hash_okD:
  assumes "hash_ok md5 f ds" and "rel \<in> set (all_relative_entries f ds)" and "d \<in> set ds" and "e \<in> set ds"
  shows "map_option (node_hash md5) (tree f d rel) = map_option (node_hash md5) (tree f e rel) \<longleftrightarrow>
         tree f d rel = tree f e rel"
  using assms unfolding hash_ok_def list_all_iff by metis

text \<open>The least prefix with a decision is one the merge wrote.\<close>

lemma blocked_iff:
  assumes m: "merging f0 out M D f"
    and M: "M = merged_tree tp ta tb"
    and dec: "\<And>n. n < length rel \<Longrightarrow> decide (tp (take n rel)) (ta (take n rel)) (tb (take n rel)) \<noteq> None \<Longrightarrow> take n rel \<in> D"
    and rel: "rel \<noteq> []" "list_all plain rel"
  shows "clear f (out @ rel) \<longleftrightarrow>
     \<not> list_ex (\<lambda>n. decide (tp (take n rel)) (ta (take n rel)) (tb (take n rel)) \<noteq> None) [0..<length rel]"
proof -
  let ?d = "\<lambda>n. decide (tp (take n rel)) (ta (take n rel)) (tb (take n rel))"
  have tr: "tree f out r = None \<longleftrightarrow> fs_lookup f (out @ r) \<in> {None, Some NDir}" for r
    by (auto simp: tree_def split: option.splits)
  have "clear f (out @ rel) \<longleftrightarrow> (\<forall>n. 0 < n \<and> n < length rel \<longrightarrow> tree f out (take n rel) = None)"
    unfolding tr by (rule clear_below [OF mergingD(1,2) [OF m] rel])
  also have "\<dots> \<longleftrightarrow> (\<forall>n<length rel. tree f out (take n rel) = None)"
    using tree_Nil [OF mergingD(2) [OF m]] by (metis gr0I take0)
  also have "\<dots> \<longleftrightarrow> (\<forall>n<length rel. ?d n = None)"
  proof
    assume n: "\<forall>n<length rel. ?d n = None"
    have "M (take n rel) = None" if "n < length rel" for n
      using n that by (simp add: M merged_tree_def)
    then show "\<forall>n<length rel. tree f out (take n rel) = None" using mergingD(5) [OF m] by simp
  next
    assume t: "\<forall>n<length rel. tree f out (take n rel) = None"
    show "\<forall>n<length rel. ?d n = None"
    proof (intro allI impI)
      fix n show "n < length rel \<Longrightarrow> ?d n = None"
      proof (induction n rule: less_induct)
        case (less n)
        show ?case
        proof (rule ccontr)
          assume d: "?d n \<noteq> None"
          then have "take n rel \<in> D" by (rule dec [OF less.prems])
          moreover have "M (take n rel) = ?d n"
            using less.IH less.prems by (auto simp: M merged_tree_def list_ex_iff min_def)
          ultimately show False using t less.prems d mergingD(5) [OF m, of "take n rel"] by simp
        qed
      qed
    qed
  qed
  also have "\<dots> \<longleftrightarrow> \<not> list_ex (\<lambda>n. ?d n \<noteq> None) [0..<length rel]" by (auto simp: list_ex_iff)
  finally show ?thesis .
qed

lemma apply_entry_run:
  assumes m: "merging f0 out M D f" and M: "M = merged_tree tp ta tb"
    and dec: "\<And>n. n < length rel \<Longrightarrow> decide (tp (take n rel)) (ta (take n rel)) (tb (take n rel)) \<noteq> None \<Longrightarrow> take n rel \<in> D"
    and rel: "rel \<noteq> []" "list_all plain rel"
    and new: "\<And>d. d \<in> D \<Longrightarrow> \<not> prefix rel d"
    and s: "separate f0 out s" and src: "tree f0 s rel = decide (tp rel) (ta rel) (tb rel)"
  shows "\<exists>f'. apply_entry (entry_path f s rel) (entry_hash md5 f (entry_path f s rel)) (entry_path f out rel) f = (Inr (), f') \<and>
           merging f0 out M (insert rel D) f'"
proof -
  note w = mergingD(1) [OF m] and o = mergingD(2) [OF m]
  note S = separate_same [OF m s]
  have h: "entry_hash md5 f (entry_path f s rel) = map_option (node_hash md5) (tree f0 s rel)"
    using entry_hash_tree [OF w S(2) rel] S(1) by simp
  note b = blocked_iff [OF m M dec rel]
  show ?thesis
  proof (cases "tree f0 s rel = None \<or> \<not> clear f (out @ rel)")
    case True
    then have "M rel = None" using b src by (auto simp: M merged_tree_def)
    moreover have "apply_entry (entry_path f s rel) (entry_hash md5 f (entry_path f s rel)) (entry_path f out rel) f = (Inr (), f)"
      using True by (auto simp: h apply_entry_def ret_def entry_path_eq [OF w o rel] split: option.splits)
    ultimately show ?thesis using merging_same [OF m] by blast
  next
    case False
    then obtain k where k: "tree f s rel = Some k" and c: "clear f (out @ rel)" using S(1) by auto
    then obtain n where n: "fs_lookup f (s @ rel) = Some n" "n \<noteq> NDir" "k = norm_node n"
      by (auto simp: tree_def split: option.splits if_splits)
    have "entry_path f s rel = Some (s @ rel)" using tree_clear [OF w k] by (simp add: entry_path_eq [OF w S(2) rel])
    moreover have "entry_path f out rel = Some (out @ rel)" using c by (simp add: entry_path_eq [OF w o rel])
    ultimately have ap: "apply_entry (entry_path f s rel) (entry_hash md5 f (entry_path f s rel)) (entry_path f out rel) =
        copy_entry (s @ rel) (out @ rel)"
      using h k S(1) by (simp add: apply_entry_def)
    have "butlast (out @ rel) \<noteq> []" using o rel(1) by (auto simp: real_dir_def clear_def butlast_append)
    moreover have "\<not> prefix (out @ rel) (s @ rel)" using S(3) by (meson append_prefixD)
    ultimately obtain f' where f': "copy_entry (s @ rel) (out @ rel) f = (Inr (), f')" "copied f (out @ rel) n f'"
      using copy_entry_run [OF w c _ n(1,2)] by blast
    have "M rel = Some (norm_node n)"
      using b c src k n(3) S(1) by (simp add: M merged_tree_def)
    moreover have "tree f out r = None" if "strict_prefix r rel" for r
    proof -
      from that obtain z where z: "rel = r @ z" "z \<noteq> []" by (auto simp: strict_prefix_append)
      show ?thesis
      proof (cases "r = []")
        case False
        then have "0 < length r \<and> length r < length rel" using z by simp
        then have "fs_lookup f (out @ take (length r) rel) \<in> {None, Some NDir}"
          using iffD1 [OF clear_below [OF w o rel] c] by blast
        then show ?thesis using z by (auto simp: tree_def split: option.splits)
      qed (simp add: tree_Nil [OF o])
    qed
    ultimately have "merging f0 out M (insert rel D) f'"
      by (intro merging_copy [OF m f'(2) rel(1) new n(2)])
    with f'(1) ap show ?thesis by auto
  qed
qed

lemma merge_entry_run:
  assumes m: "merging f0 out M D f" and M: "M = merged_tree (tree f0 p) (tree f0 a) (tree f0 b)"
    and dec: "\<And>n. n < length rel \<Longrightarrow>
        decide (tree f0 p (take n rel)) (tree f0 a (take n rel)) (tree f0 b (take n rel)) \<noteq> None \<Longrightarrow> take n rel \<in> D"
    and rel: "rel \<noteq> []" "list_all plain rel"
    and new: "\<And>d. d \<in> D \<Longrightarrow> \<not> prefix rel d"
    and sep: "separate f0 out p" "separate f0 out a" "separate f0 out b"
    and hash: "\<And>x y. x \<in> {tree f0 p rel, tree f0 a rel, tree f0 b rel} \<Longrightarrow>
        y \<in> {tree f0 p rel, tree f0 a rel, tree f0 b rel} \<Longrightarrow>
        map_option (node_hash md5) x = map_option (node_hash md5) y \<longleftrightarrow> x = y"
  shows "\<exists>f'. merge_entry md5 p a b out rel res f =
             (Inr (tally md5 (tree f0 p) (tree f0 a) (tree f0 b) rel res), f') \<and>
           merging f0 out M (insert rel D) f'"
proof -
  note w = mergingD(1) [OF m]
  let ?h = "\<lambda>d. entry_hash md5 f (entry_path f d rel)"
  let ?p = "tree f0 p rel" and ?a = "tree f0 a rel" and ?b = "tree f0 b rel"
  let ?H = "map_option (node_hash md5)"
  have h: "?h d = ?H (tree f0 d rel)" if "separate f0 out d" for d
    using entry_hash_tree [OF w separate_same(2) [OF m that] rel] separate_same(1) [OF m that] by simp
  note hs = h [OF sep(1)] h [OF sep(2)] h [OF sep(3)]
  have eq: "?H ?a = ?H ?p \<longleftrightarrow> ?a = ?p" "?H ?b = ?H ?p \<longleftrightarrow> ?b = ?p" "?H ?a = ?H ?b \<longleftrightarrow> ?a = ?b"
    by (rule hash; simp)+
  have run: "\<exists>f'. seqE (apply_entry (entry_path f d rel) (?h d) (entry_path f out rel)) (ret r) f = (Inr r, f') \<and>
        merging f0 out M (insert rel D) f'"
    if "separate f0 out d" "tree f0 d rel = decide ?p ?a ?b" for d and r :: merge_result
  proof -
    note t = that
    obtain f' where "apply_entry (entry_path f d rel) (?h d) (entry_path f out rel) f = (Inr (), f')"
      "merging f0 out M (insert rel D) f'"
      using apply_entry_run [OF m M dec rel new t] by blast
    then show ?thesis by (simp add: seqE_run ret_def)
  qed
  have me: "merge_entry md5 p a b out rel res f =
     (if ?a = ?p \<and> ?b = ?p then
        seqE (apply_entry (entry_path f p rel) (?h p) (entry_path f out rel)) (ret (tally md5 (tree f0 p) (tree f0 a) (tree f0 b) rel res)) f
      else if ?b = ?p then
        seqE (apply_entry (entry_path f a rel) (?h a) (entry_path f out rel)) (ret (tally md5 (tree f0 p) (tree f0 a) (tree f0 b) rel res)) f
      else if ?a = ?p then
        seqE (apply_entry (entry_path f b rel) (?h b) (entry_path f out rel)) (ret (tally md5 (tree f0 p) (tree f0 a) (tree f0 b) rel res)) f
      else if ?a = ?b \<or> ?a \<noteq> None then
        seqE (apply_entry (entry_path f a rel) (?h a) (entry_path f out rel)) (ret (tally md5 (tree f0 p) (tree f0 a) (tree f0 b) rel res)) f
      else
        seqE (apply_entry (entry_path f b rel) (?h b) (entry_path f out rel)) (ret (tally md5 (tree f0 p) (tree f0 a) (tree f0 b) rel res)) f)"
    unfolding merge_entry_def bind_reads Let_def hs eq tally_def
    by (cases "?a = ?p"; cases "?b = ?p"; cases "?a = ?b"; cases "?a = None") simp_all
  show ?thesis
    unfolding me
    by (auto simp: decide_def intro!: run sep split: if_splits)
qed

lemma merge_entries_run:
  assumes "merging f0 out M D f" and M: "M = merged_tree (tree f0 p) (tree f0 a) (tree f0 b)"
    and w0: "wf_fs f0" and sep: "separate f0 out p" "separate f0 out a" "separate f0 out b"
    and hash: "hash_ok md5 f0 [p, a, b]"
    and order: "sorted_paths (all_relative_entries f0 [p, a, b]) = done @ rels" and "D = set done"
  shows "\<exists>f'. merge_entries md5 p a b out rels res f =
             (Inr (fold (tally md5 (tree f0 p) (tree f0 a) (tree f0 b)) rels res), f') \<and>
           merging f0 out M (set done \<union> set rels) f'"
  using assms(1,8,9)
proof (induction rels arbitrary: "done" D f res)
  case Nil
  then show ?case by (simp add: ret_def)
next
  case (Cons rel rels)
  let ?all = "all_relative_entries f0 [p, a, b]"
  have rd: "real_dir f0 d" if "d \<in> set [p, a, b]" for d using sep that by (auto simp: separate_def)
  have all: "set ?all = {rel. \<exists>d\<in>{p, a, b}. tree f0 d rel \<noteq> None}"
    using all_entries_set [OF w0 rd, of "[p, a, b]"] by simp
  have dist: "distinct ?all" by (simp add: all_relative_entries_def)
  have nil: "[] \<notin> set ?all" using all rd tree_Nil [of f0] by auto
  note ord = sorted_paths_order [OF dist nil Cons.prems(2)]
  have "rel \<in> set ?all" by (metis Cons.prems(2) in_set_conv_decomp set_sorted_paths)
  then have rel: "rel \<noteq> []" "list_all plain rel" using nil all tree_plain [OF w0] by auto
  have dec: "take n rel \<in> D"
    if n: "n < length rel" and d: "decide (tree f0 p (take n rel)) (tree f0 a (take n rel)) (tree f0 b (take n rel)) \<noteq> None" for n
  proof -
    have "take n rel \<in> set ?all"
      using d decide_cases [of "tree f0 p (take n rel)" "tree f0 a (take n rel)" "tree f0 b (take n rel)"]
      unfolding all by auto
    moreover have "strict_prefix (take n rel) rel" using n by (auto simp: strict_prefix_def take_is_prefix dest: arg_cong [where f = length])
    ultimately show ?thesis using ord(2) Cons.prems(3) by blast
  qed
  have new: "\<not> prefix rel d" if "d \<in> D" for d using ord(1) that Cons.prems(3) by blast
  have H: "map_option (node_hash md5) x = map_option (node_hash md5) y \<longleftrightarrow> x = y"
    if "x \<in> {tree f0 p rel, tree f0 a rel, tree f0 b rel}" "y \<in> {tree f0 p rel, tree f0 a rel, tree f0 b rel}" for x y
    using that hash_okD [OF hash \<open>rel \<in> set ?all\<close>] by auto
  obtain f1 where f1: "merge_entry md5 p a b out rel res f =
             (Inr (tally md5 (tree f0 p) (tree f0 a) (tree f0 b) rel res), f1)"
    and m1: "merging f0 out M (insert rel D) f1"
    using merge_entry_run [OF Cons.prems(1) M dec rel new sep H] by blast
  have "sorted_paths ?all = (done @ [rel]) @ rels" "insert rel D = set (done @ [rel])"
    using Cons.prems(2,3) by simp_all
  from Cons.IH [OF m1 this, of "tally md5 (tree f0 p) (tree f0 a) (tree f0 b) rel res"] show ?case
    using f1 by (auto simp: bindE_run)
qed

lemma sorted_entries_cong:
  assumes "wf_fs f" and "wf_fs g" and "\<And>d. d \<in> set ds \<Longrightarrow> real_dir f d" and "\<And>d. d \<in> set ds \<Longrightarrow> real_dir g d"
    and "\<And>d. d \<in> set ds \<Longrightarrow> tree f d = tree g d"
  shows "sorted_paths (all_relative_entries f ds) = sorted_paths (all_relative_entries g ds)"
proof -
  let ?J = "join ''/''" and ?A = "all_relative_entries f ds" and ?B = "all_relative_entries g ds"
  have s: "set ?A = set ?B" using assms by (auto simp: all_entries_set)
  have inj: "inj_on ?J (set ?A)"
  proof (rule inj_on_inverseI [of _ "split_on (CHR ''/'')"])
    fix x assume "x \<in> set ?A"
    then obtain d n where d: "d \<in> set ds" "tree f d x = Some n" using all_entries_set [OF assms(1,3), of ds] by auto
    then have "x \<noteq> []" using tree_Nil [OF assms(3)] by auto
    moreover have "CHR ''/'' \<notin> set y" if "y \<in> set x" for y
      using tree_plain [OF assms(1) d(2)] that by (simp add: list_all_iff plain_def)
    ultimately show "split_on (CHR ''/'') (?J x) = x" by (rule split_on_join)
  qed
  have "map ?J (sorted_paths ?A) = map ?J (sorted_paths ?B)"
  proof (rule sorted_distinct_set_unique)
    show "sorted (map ?J (sorted_paths ?A))" "sorted (map ?J (sorted_paths ?B))" by (simp_all add: sorted_paths_def)
    show "distinct (map ?J (sorted_paths ?A))" "distinct (map ?J (sorted_paths ?B))"
      using inj s by (simp_all add: distinct_map all_relative_entries_def)
    show "set (map ?J (sorted_paths ?A)) = set (map ?J (sorted_paths ?B))" using s by simp
  qed
  then show ?thesis by (rule map_inj_on) (use inj s in simp)
qed

text \<open>A path where a directory is about to be made.\<close>

definition fresh_dir :: "fs \<Rightarrow> path \<Rightarrow> bool" where
  "fresh_dir f d \<longleftrightarrow> d \<noteq> [] \<and> list_all plain d \<and> fs_lookup f d = None \<and> node_at f (butlast d) = Some NDir"

lemma fresh_dirD:
  assumes "wf_fs f" and "fresh_dir f d"
  shows "clear f d" and "prefix d q \<Longrightarrow> fs_lookup f q = None"
    and "prefix q d \<Longrightarrow> q \<noteq> d \<Longrightarrow> q \<noteq> [] \<Longrightarrow> fs_lookup f q = Some NDir"
proof -
  have d: "d \<noteq> []" "list_all plain d" "fs_lookup f d = None" "node_at f (butlast d) = Some NDir"
    using assms(2) by (auto simp: fresh_dir_def)
  show above: "fs_lookup f q = Some NDir" if "prefix q d" "q \<noteq> d" "q \<noteq> []" for q
  proof -
    from that obtain z where z: "d = q @ z" "z \<noteq> []" by (auto simp: prefix_def)
    show ?thesis
    proof (cases "butlast d = q")
      case True
      then show ?thesis using d(4) that(3) by (simp add: node_at_def)
    next
      case False
      then have b: "butlast d = q @ butlast z" "butlast z \<noteq> []" using z by (auto simp: butlast_append)
      then have "fs_lookup f (q @ butlast z) = Some NDir" using d(4) by (simp add: node_at_def split: if_splits)
      from wf_above [OF assms(1) this b(2)] that(3) show ?thesis by (simp add: node_at_def)
    qed
  qed
  show "clear f d"
  proof (rule clearI [OF d(1,2)])
    fix n assume n: "n < length d"
    show "node_at f (take n d) \<in> {None, Some NDir}"
    proof (cases "n = 0")
      case False
      have "take n d \<noteq> d" using n by (metis length_take min.absorb4 nat_neq_iff)
      then show ?thesis using above [of "take n d"] False d(1) by (simp add: node_at_def take_is_prefix)
    qed (simp add: node_at_def)
  qed
  show "fs_lookup f q = None" if "prefix d q" for q
  proof (rule ccontr)
    assume "fs_lookup f q \<noteq> None"
    then obtain n where n: "fs_lookup f q = Some n" by auto
    from that obtain z where z: "q = d @ z" by (auto simp: prefix_def)
    then have "z \<noteq> []" "fs_lookup f (d @ z) = Some n" using n d(3) by auto
    from wf_above [OF assms(1) this(2,1)] d(1,3) show False by (simp add: node_at_def)
  qed
qed

lemma real_dir_not_below:
  assumes "wf_fs f" and "real_dir f d" and "fresh_dir f out"
  shows "\<not> prefix out d"
  using fresh_dirD(2) [OF assms(1,3), of d] assms(2) by (auto simp: real_dir_def)

text \<open>What the merge reports.\<close>

definition start_result :: "path \<Rightarrow> merge_result" where
  "start_result out = \<lparr>mr_merged_dir = out, mr_conflicts = [], mr_auto_merged = 0, mr_unchanged = 0\<rparr>"

definition merge_paths :: "fs \<Rightarrow> path \<Rightarrow> path \<Rightarrow> path \<Rightarrow> path list" where
  "merge_paths f p a b = sorted_paths (all_relative_entries f [p, a, b])"

definition in_conflict :: "(path \<Rightarrow> node option) \<Rightarrow> (path \<Rightarrow> node option) \<Rightarrow> (path \<Rightarrow> node option) \<Rightarrow> path \<Rightarrow> bool" where
  "in_conflict tp ta tb rel \<longleftrightarrow> ta rel \<noteq> tp rel \<and> tb rel \<noteq> tp rel \<and> ta rel \<noteq> tb rel"

definition untouched :: "(path \<Rightarrow> node option) \<Rightarrow> (path \<Rightarrow> node option) \<Rightarrow> (path \<Rightarrow> node option) \<Rightarrow> path \<Rightarrow> bool" where
  "untouched tp ta tb rel \<longleftrightarrow> ta rel = tp rel \<and> tb rel = tp rel"

lemma fold_tally:
  "map ci_path (mr_conflicts (fold (tally md5 tp ta tb) rels res)) =
     map ci_path (mr_conflicts res) @ filter (in_conflict tp ta tb) rels"
  "mr_unchanged (fold (tally md5 tp ta tb) rels res) =
     mr_unchanged res + int (length (filter (untouched tp ta tb) rels))"
  "mr_auto_merged (fold (tally md5 tp ta tb) rels res) =
     mr_auto_merged res + int (length (filter (\<lambda>r. \<not> untouched tp ta tb r \<and> \<not> in_conflict tp ta tb r) rels))"
  "mr_merged_dir (fold (tally md5 tp ta tb) rels res) = mr_merged_dir res"
  by (induction rels arbitrary: res) (simp_all add: tally_def in_conflict_def untouched_def Let_def)

lemma three_way_merge_run:
  assumes w: "wf_fs f" and dirs: "real_dir f p" "real_dir f a" "real_dir f b"
    and out: "fresh_dir f out" and apart: "\<not> prefix p out" "\<not> prefix a out" "\<not> prefix b out"
    and hash: "hash_ok md5 f [p, a, b]"
  shows "\<exists>f'. three_way_merge md5 p a b (Some out) f =
           (Inr (fold (tally md5 (tree f p) (tree f a) (tree f b)) (merge_paths f p a b) (start_result out)), f') \<and>
           merging f out (merged_tree (tree f p) (tree f a) (tree f b)) (set (merge_paths f p a b)) f'"
proof -
  note F = fresh_dirD [OF w out]
  have none: "fs_lookup f out = None" using F(2) [of out] by simp
  obtain f1 where f1: "mkdirs out f = (Inr (), f1)" and w1: "wf_fs f1"
    and l1: "\<And>r. fs_lookup f1 r = (if r \<noteq> [] \<and> prefix r out then Some NDir else fs_lookup f r)"
    using mkdirs_run [OF w F(1)] none by auto
  have ne: "out \<noteq> []" by (rule clearD(1) [OF F(1)])
  have same: "fs_lookup f1 q = fs_lookup f q" if "\<not> prefix out q" for q
    using that F(3) [of q] l1 [of q] by auto
  have "fs_lookup f1 out = Some NDir" using ne by (simp add: l1)
  then have o1: "real_dir f1 out" by (rule real_dirI [OF w1])
  have gone: "fs_lookup f1 (out @ r) = None" if "r \<noteq> []" for r
    using F(2) [of "out @ r"] that by (simp add: l1)
  let ?M = "merged_tree (tree f p) (tree f a) (tree f b)"
  have m: "merging f out ?M {} f1"
  proof -
    have "tree f1 out r = None" for r
      using gone [of r] tree_Nil [OF o1] by (cases "r = []") (simp_all add: tree_def)
    then show ?thesis unfolding merging_def using w1 o1 same gone by auto
  qed
  have sep: "separate f out d" if "real_dir f d" "\<not> prefix d out" for d
    using that real_dir_not_below [OF w that(1) out] by (simp add: separate_def)
  note sp = sep [OF dirs(1) apart(1)] sep [OF dirs(2) apart(2)] sep [OF dirs(3) apart(3)]
  have paths: "sorted_paths (all_relative_entries f1 [p, a, b]) = merge_paths f p a b"
    unfolding merge_paths_def
  proof (rule sorted_entries_cong [OF w1 w])
    show "real_dir f1 d" "tree f1 d = tree f d" if "d \<in> set [p, a, b]" for d
      using that separate_same(1,2) [OF m] sp by auto
  qed (use dirs in auto)
  have "merge_paths f p a b = [] @ merge_paths f p a b" by simp
  from merge_entries_run [OF m refl w sp hash this [unfolded merge_paths_def], of "start_result out"]
  obtain f' where "merge_entries md5 p a b out (merge_paths f p a b) (start_result out) f1 =
             (Inr (fold (tally md5 (tree f p) (tree f a) (tree f b)) (merge_paths f p a b) (start_result out)), f')"
     "merging f out ?M (set [] \<union> set (merge_paths f p a b)) f'"
    by (auto simp: merge_paths_def)
  then show ?thesis
    using f1 paths by (auto simp: three_way_merge_def seqE_run start_result_def)
qed

section \<open>Applying the result\<close>

text \<open>A file system that differs from \<open>f0\<close> below \<open>out\<close> only, where each path has one of its allowed
  entries.\<close>

definition limited :: "fs \<Rightarrow> path \<Rightarrow> (path \<Rightarrow> node option set) \<Rightarrow> fs \<Rightarrow> bool" where
  "limited f0 out A f \<longleftrightarrow>
     wf_fs f \<and> real_dir f out \<and> (\<forall>q. \<not> prefix out q \<longrightarrow> fs_lookup f q = fs_lookup f0 q) \<and> (\<forall>r. tree f out r \<in> A r)"

lemma limitedD:
  assumes "limited f0 out A f"
  shows "wf_fs f" and "real_dir f out" and "\<And>q. \<not> prefix out q \<Longrightarrow> fs_lookup f q = fs_lookup f0 q"
    and "\<And>r. tree f out r \<in> A r"
  using assms unfolding limited_def by blast+

lemma limited_mono: "limited f0 out A f \<Longrightarrow> (\<And>r. A r \<subseteq> B r) \<Longrightarrow> limited f0 out B f"
  unfolding limited_def by blast

lemma limited_unlink:
  assumes i: "limited f0 out A f" and c: "clear f (out @ r)" and t: "tree f out r \<noteq> None"
  shows "\<exists>f'. unlink (out @ r) f = (Inr (), f') \<and> limited f0 out (A(r := {None})) f' \<and>
           (\<forall>q. q \<noteq> r \<longrightarrow> tree f' out q = tree f out q)"
proof -
  note W = limitedD [OF i]
  obtain n where n: "fs_lookup f (out @ r) = Some n" "n \<noteq> NDir" using t by (auto simp: tree_def split: option.splits if_splits)
  have r: "r \<noteq> []" using t tree_Nil [OF W(2)] by auto
  let ?f = "filter (\<lambda>(q, _). q \<noteq> out @ r) f"
  have u: "unlink (out @ r) f = (Inr (), ?f)" by (rule unlink_run [OF c n])
  have w: "wf_fs ?f" by (rule wf_remove [OF W(1)]) (use n in simp)
  have "fs_lookup ?f out = Some NDir" using W(2) r by (simp add: fs_lookup_filter real_dir_def)
  then have d: "real_dir ?f out" by (rule real_dirI [OF w])
  have "tree ?f out q = (if q = r then None else tree f out q)" for q by (simp add: tree_def fs_lookup_filter)
  moreover have "fs_lookup ?f q = fs_lookup f0 q" if "\<not> prefix out q" for q
    using W(3) [OF that] that by (auto simp: fs_lookup_filter)
  ultimately show ?thesis using u w d W(4) by (auto simp: limited_def)
qed

lemma shadow_iff:
  assumes "clear f q"
  shows "path_is_symlink f q \<or> path_is_file f q \<longleftrightarrow> fs_lookup f q \<notin> {None, Some NDir}"
proof (cases "is_link f q")
  case True
  then show ?thesis using assms by (auto simp: clear_symlink is_link_def split: option.splits node.splits)
next
  case False
  then show ?thesis using assms clear_followed [OF assms False]
    by (auto simp: clear_symlink path_is_file_def is_link_def split: option.splits node.splits)
qed

lemma tree_None_iff: "tree f out r = None \<longleftrightarrow> fs_lookup f (out @ r) \<in> {None, Some NDir}"
  by (auto simp: tree_def split: option.splits)

lemma clear_iff_tree:
  assumes "wf_fs f" and "real_dir f out" and "rel \<noteq> []" and "list_all plain rel"
  shows "clear f (out @ rel) \<longleftrightarrow> (\<forall>q. strict_prefix q rel \<longrightarrow> tree f out q = None)"
proof -
  have "clear f (out @ rel) \<longleftrightarrow> (\<forall>n. 0 < n \<and> n < length rel \<longrightarrow> tree f out (take n rel) = None)"
    unfolding tree_None_iff by (rule clear_below [OF assms])
  also have "\<dots> \<longleftrightarrow> (\<forall>q. strict_prefix q rel \<longrightarrow> tree f out q = None)"
  proof
    assume a: "\<forall>n. 0 < n \<and> n < length rel \<longrightarrow> tree f out (take n rel) = None"
    show "\<forall>q. strict_prefix q rel \<longrightarrow> tree f out q = None"
    proof (intro allI impI)
      fix q assume q: "strict_prefix q rel"
      then obtain z where "rel = q @ z" "z \<noteq> []" by (auto simp: strict_prefix_append)
      then show "tree f out q = None"
        using a [rule_format, of "length q"] tree_Nil [OF assms(2)] by (cases "q = []") auto
    qed
  next
    assume a: "\<forall>q. strict_prefix q rel \<longrightarrow> tree f out q = None"
    show "\<forall>n. 0 < n \<and> n < length rel \<longrightarrow> tree f out (take n rel) = None"
    proof (intro allI impI)
      fix n assume "0 < n \<and> n < length rel"
      then have "strict_prefix (take n rel) rel"
        by (auto simp: strict_prefix_def take_is_prefix dest: arg_cong [where f = length])
      with a show "tree f out (take n rel) = None" by blast
    qed
  qed
  finally show ?thesis .
qed

lemma strict_prefix_snoc: "strict_prefix q (p @ [x]) \<longleftrightarrow> prefix q p"
  by (auto simp: strict_prefix_def)

text \<open>Phase one: nothing of the old tree stands above an entry of the result any more.\<close>

lemma unlink_shadows_run:
  assumes "limited f0 out (\<lambda>r. {None, T r}) f" and "list_all plain (walked @ xs)"
    and "\<And>q. prefix q walked \<Longrightarrow> tree f out q = None"
    and "\<And>q. prefix q (walked @ xs) \<Longrightarrow> q \<notin> set entries"
  shows "\<exists>f'. unlink_shadows out entries walked xs f = (Inr (), f') \<and> limited f0 out (\<lambda>r. {None, T r}) f' \<and>
           (\<forall>q. tree f' out q \<in> {None, tree f out q}) \<and> (\<forall>q. prefix q (walked @ xs) \<longrightarrow> tree f' out q = None)"
  using assms
proof (induction xs arbitrary: walked f)
  case Nil
  then show ?case by (auto simp: ret_def)
next
  case (Cons x xs)
  let ?p = "walked @ [x]"
  note W = limitedD [OF Cons.prems(1)]
  have c: "clear f (out @ ?p)"
    using Cons.prems(2,3) by (simp add: clear_iff_tree [OF W(1,2)] strict_prefix_snoc)
  have sh: "path_is_symlink f (out @ ?p) \<or> path_is_file f (out @ ?p) \<longleftrightarrow> tree f out ?p \<noteq> None"
    unfolding shadow_iff [OF c] tree_None_iff ..
  have e: "?p \<notin> set entries" using Cons.prems(4) [of ?p] by simp
  obtain f1 where f1: "whenE (tree f out ?p \<noteq> None \<and> ?p \<notin> set entries) (unlink (out @ ?p)) f = (Inr (), f1)"
    and l1: "limited f0 out (\<lambda>r. {None, T r}) f1" and n1: "tree f1 out ?p = None"
    and s1: "\<And>q. tree f1 out q \<in> {None, tree f out q}"
  proof (cases "tree f out ?p = None")
    case True
    then show ?thesis using that [of f] Cons.prems(1) by (simp add: whenE_def ret_def)
  next
    case False
    then obtain f1 where "unlink (out @ ?p) f = (Inr (), f1)" "limited f0 out ((\<lambda>r. {None, T r})(?p := {None})) f1"
      "\<forall>q. q \<noteq> ?p \<longrightarrow> tree f1 out q = tree f out q"
      using limited_unlink [OF Cons.prems(1) c] by blast
    moreover from this(2) have "tree f1 out ?p = None" using limitedD(4) [of f0 out _ f1 ?p] by fastforce
    moreover have "limited f0 out (\<lambda>r. {None, T r}) f1"
      by (rule limited_mono [OF calculation(2)]) simp
    moreover have "tree f1 out q \<in> {None, tree f out q}" for q
      using calculation(3,4) by (cases "q = ?p") auto
    ultimately show ?thesis using that [of f1] False e by (simp add: whenE_def)
  qed
  have b2: "tree f1 out q = None" if "prefix q ?p" for q
    using that s1 [of q] n1 Cons.prems(3) [of q] by auto
  have b1: "list_all plain (?p @ xs)" using Cons.prems(2) by simp
  have b3: "q \<notin> set entries" if "prefix q (?p @ xs)" for q using Cons.prems(4) [of q] that by simp
  from Cons.IH [OF l1 b1 b2 b3] obtain f' where
    "unlink_shadows out entries ?p xs f1 = (Inr (), f')" "limited f0 out (\<lambda>r. {None, T r}) f'"
    "\<forall>q. tree f' out q \<in> {None, tree f1 out q}" "\<forall>q. prefix q (?p @ xs) \<longrightarrow> tree f' out q = None"
    by auto
  moreover from this(3) have "\<forall>q. tree f' out q \<in> {None, tree f out q}" using s1 by (metis empty_iff insert_iff)
  ultimately show ?case
    using f1 sh by (auto simp: Let_def seqE_run)
qed

lemma unlink_stale_run:
  assumes "limited f0 out (\<lambda>r. {None, T r}) f"
    and "\<And>rel. rel \<in> set rels \<Longrightarrow> rel \<noteq> [] \<and> list_all plain rel"
    and "\<And>rel q. rel \<in> set rels \<Longrightarrow> strict_prefix q rel \<Longrightarrow> q \<notin> set entries"
  shows "\<exists>f'. for_each rels (\<lambda>rel. unlink_shadows out entries [] (butlast rel)) f = (Inr (), f') \<and>
           limited f0 out (\<lambda>r. {None, T r}) f' \<and> (\<forall>q. tree f' out q \<in> {None, tree f out q}) \<and>
           (\<forall>rel\<in>set rels. \<forall>q. strict_prefix q rel \<longrightarrow> tree f' out q = None)"
  using assms
proof (induction rels arbitrary: f)
  case Nil
  then show ?case by (auto simp: ret_def)
next
  case (Cons rel rels)
  have rel: "rel \<noteq> []" "list_all plain rel" using Cons.prems(2) by auto
  have sp: "prefix q (butlast rel) \<longleftrightarrow> strict_prefix q rel" for q
    using strict_prefix_snoc [of q "butlast rel" "last rel"] rel(1) by simp
  have a1: "list_all plain ([] @ butlast rel)" using rel(2) by (auto simp: list_all_iff dest: in_set_butlastD)
  have a2: "tree f out q = None" if "prefix q []" for q
    using that tree_Nil [OF limitedD(2) [OF Cons.prems(1)]] by simp
  have a3: "q \<notin> set entries" if "prefix q ([] @ butlast rel)" for q
    using that sp Cons.prems(3) [of rel q] by simp
  obtain f1 where f1: "unlink_shadows out entries [] (butlast rel) f = (Inr (), f1)"
    "limited f0 out (\<lambda>r. {None, T r}) f1" "\<And>q. tree f1 out q \<in> {None, tree f out q}"
    "\<And>q. strict_prefix q rel \<Longrightarrow> tree f1 out q = None"
    using unlink_shadows_run [OF Cons.prems(1) a1 a2 a3] sp by auto
  obtain f' where f': "for_each rels (\<lambda>rel. unlink_shadows out entries [] (butlast rel)) f1 = (Inr (), f')"
    "limited f0 out (\<lambda>r. {None, T r}) f'" "\<And>q. tree f' out q \<in> {None, tree f1 out q}"
    "\<forall>rel\<in>set rels. \<forall>q. strict_prefix q rel \<longrightarrow> tree f' out q = None"
    using Cons.IH [OF f1(2)] Cons.prems(2,3) by auto
  have "tree f' out q \<in> {None, tree f out q}" for q using f1(3) [of q] f'(3) [of q] by auto
  moreover have "tree f' out q = None" if "strict_prefix q rel" for q using f1(4) [OF that] f'(3) [of q] by auto
  ultimately show ?case using f1(1) f'(1,2,4) by (auto simp: seqE_run)
qed

text \<open>Phase two: every entry of the result is copied over.\<close>

lemma copy_result_run:
  assumes l: "limited f0 out (\<lambda>r. if r \<in> D then {tree f0 mo r} else {None, T r}) f" and sep: "separate f0 out mo"
    and rel: "tree f0 mo rel \<noteq> None" and w0: "wf_fs f0"
    and D: "\<And>d. d \<in> D \<Longrightarrow> tree f0 mo d \<noteq> None"
    and T: "\<And>q. strict_prefix q rel \<Longrightarrow> T q = None"
  shows "\<exists>f'. copy_result mo out rel f = (Inr (), f') \<and>
           limited f0 out (\<lambda>r. if r \<in> insert rel D then {tree f0 mo r} else {None, T r}) f'"
proof -
  note W = limitedD [OF l]
  have mo0: "real_dir f0 mo" using sep by (simp add: separate_def)
  have np: "\<not> prefix out (mo @ r)" for r
  proof
    assume "prefix out (mo @ r)"
    then have "prefix out mo \<or> prefix mo out" unfolding prefix_append by auto
    with sep show False by (simp add: separate_def)
  qed
  have same: "fs_lookup f (mo @ r) = fs_lookup f0 (mo @ r)" for r by (rule W(3) [OF np])
  obtain k where k: "tree f0 mo rel = Some k" using rel by auto
  then obtain n where n: "fs_lookup f (mo @ rel) = Some n" "n \<noteq> NDir" "k = norm_node n"
    unfolding same by (auto simp: tree_def split: option.splits if_splits)
  have ne: "rel \<noteq> []" using rel tree_Nil [OF mo0] by auto
  have pl: "list_all plain rel" by (rule tree_plain [OF w0 k])
  have leaf: "tree f0 mo q = None" if "strict_prefix q rel \<or> strict_prefix rel q" for q
  proof (rule ccontr)
    assume q: "tree f0 mo q \<noteq> None"
    from that obtain z where "z \<noteq> []" "rel = q @ z \<or> q = rel @ z" by (auto simp: strict_prefix_append)
    then show False using q k tree_leaf(2) [OF w0 k, of z] tree_leaf(2) [OF w0, of mo q _ z] by auto
  qed
  have "tree f out q = None" if "strict_prefix q rel" for q
  proof -
    have "q \<notin> D" using D leaf that by blast
    then show ?thesis using W(4) [of q] T [OF that] by simp
  qed
  then have c: "clear f (out @ rel)" using clear_iff_tree [OF W(1,2) ne pl] by simp
  have "butlast (out @ rel) \<noteq> []" using W(2) ne by (auto simp: real_dir_def clear_def butlast_append)
  moreover have "\<not> prefix (out @ rel) (mo @ rel)" using np by (meson append_prefixD)
  ultimately obtain f' where f': "copy_entry (mo @ rel) (out @ rel) f = (Inr (), f')" "copied f (out @ rel) n f'"
    using copy_entry_run [OF W(1) c _ n(1,2)] by blast
  note C = copied_tree [OF W(1,2) f'(2) ne n(2)]
  have "tree f' out r \<in> (if r \<in> insert rel D then {tree f0 mo r} else {None, T r})" for r
  proof (cases "r = rel")
    case True
    then show ?thesis using k n(3) by (simp add: C(3))
  next
    case False
    show ?thesis
    proof (cases "prefix rel r \<or> prefix r rel")
      case True
      then have "r \<notin> D" using leaf [of r] D [of r] False by (auto simp: strict_prefix_def)
      then show ?thesis using True False by (simp add: C(3))
    next
      case no: False
      then show ?thesis using W(4) [of r] False by (simp add: C(3))
    qed
  qed
  then have "limited f0 out (\<lambda>r. if r \<in> insert rel D then {tree f0 mo r} else {None, T r}) f'"
    unfolding limited_def using C(1,2) W(3) f'(2) by (simp add: copied_def)
  moreover have "copy_result mo out rel f = (Inr (), f')"
    using f'(1) c by (simp add: copy_result_def entry_path_eq [OF W(1,2) ne pl])
  ultimately show ?thesis by blast
qed

lemma copy_results_run:
  assumes "limited f0 out (\<lambda>r. if r \<in> D then {tree f0 mo r} else {None, T r}) f" and "separate f0 out mo" and "wf_fs f0"
    and "\<And>d. d \<in> D \<union> set rels \<Longrightarrow> tree f0 mo d \<noteq> None"
    and "\<And>rel q. rel \<in> set rels \<Longrightarrow> strict_prefix q rel \<Longrightarrow> T q = None"
  shows "\<exists>f'. for_each rels (copy_result mo out) f = (Inr (), f') \<and>
           limited f0 out (\<lambda>r. if r \<in> D \<union> set rels then {tree f0 mo r} else {None, T r}) f'"
  using assms(1,4,5)
proof (induction rels arbitrary: D f)
  case Nil
  then show ?case by (auto simp: ret_def)
next
  case (Cons rel rels)
  obtain f1 where f1: "copy_result mo out rel f = (Inr (), f1)"
    "limited f0 out (\<lambda>r. if r \<in> insert rel D then {tree f0 mo r} else {None, T r}) f1"
    using copy_result_run [OF Cons.prems(1) assms(2) _ assms(3), of rel] Cons.prems(2,3) by auto
  show ?case
    using Cons.IH [OF f1(2)] Cons.prems(2,3) f1(1) by (auto simp: seqE_run)
qed

text \<open>Phase three: what the result has not is unlinked.\<close>

lemma delete_gone_run:
  assumes l: "limited f0 out A f" and rel: "rel \<noteq> []" "list_all plain rel"
  shows "\<exists>f'. delete_gone out rel f = (Inr (), f') \<and> limited f0 out (A(rel := {None})) f'"
proof -
  note W = limitedD [OF l]
  show ?thesis
  proof (cases "clear f (out @ rel)")
    case False
    then have "fs_lookup f (out @ rel) = None" using clear_parent [OF W(1)] by (cases "fs_lookup f (out @ rel)") auto
    then have "limited f0 out (A(rel := {None})) f" using l by (auto simp: limited_def tree_def)
    moreover have "delete_gone out rel f = (Inr (), f)"
      using False by (simp add: delete_gone_def entry_path_eq [OF W(1,2) rel] ret_def)
    ultimately show ?thesis by blast
  next
    case c: True
    have d: "delete_gone out rel f = whenE (tree f out rel \<noteq> None) (unlink (out @ rel)) f"
      using c by (simp add: delete_gone_def entry_path_eq [OF W(1,2) rel] shadow_iff [OF c] tree_None_iff)
    show ?thesis
    proof (cases "tree f out rel = None")
      case True
      then have "limited f0 out (A(rel := {None})) f" using l by (auto simp: limited_def)
      then show ?thesis using d True by (simp add: whenE_def ret_def)
    next
      case False
      then show ?thesis using limited_unlink [OF l c False] d by (auto simp: whenE_def)
    qed
  qed
qed

lemma delete_all_run:
  assumes "limited f0 out A f" and "\<And>rel. rel \<in> set rels \<Longrightarrow> rel \<noteq> [] \<and> list_all plain rel"
  shows "\<exists>f'. for_each rels (delete_gone out) f = (Inr (), f') \<and>
           limited f0 out (\<lambda>r. if r \<in> set rels then {None} else A r) f'"
  using assms
proof (induction rels arbitrary: A f)
  case Nil
  then show ?case by (simp add: ret_def)
next
  case (Cons rel rels)
  obtain f1 where f1: "delete_gone out rel f = (Inr (), f1)" "limited f0 out (A(rel := {None})) f1"
    using delete_gone_run [OF Cons.prems(1)] Cons.prems(2) by auto
  have "(\<lambda>r. if r \<in> set rels then {None} else (A(rel := {None})) r) = (\<lambda>r. if r \<in> set (rel # rels) then {None} else A r)"
    by (rule ext) simp
  then show ?case
    using Cons.IH [OF f1(2)] Cons.prems(2) f1(1) by (auto simp: seqE_run)
qed

lemma apply_result_run:
  assumes w: "wf_fs f" and o: "real_dir f out" and mo: "separate f out mo" and p: "separate f out p"
    and start: "tree f out = tree f p"
  shows "\<exists>f'. apply_result p mo out f = (Inr (), f') \<and> limited f out (\<lambda>r. {tree f mo r}) f'"
proof -
  let ?merged = "all_relative_entries f [mo]"
  have rd: "real_dir f mo" "real_dir f p" using mo p by (simp_all add: separate_def)
  have merged: "r \<in> set ?merged \<longleftrightarrow> tree f mo r \<noteq> None" for r
    using all_entries_set [OF w, of "[mo]"] rd(1) by auto
  have ok: "rel \<noteq> [] \<and> list_all plain rel" if "tree f d rel \<noteq> None" "real_dir f d" for rel d
    using that tree_Nil [of f d] tree_plain [OF w, of d rel] by auto
  have above: "q \<notin> set ?merged" if "rel \<in> set ?merged" "strict_prefix q rel" for rel q
  proof
    assume "q \<in> set ?merged"
    then obtain n where n: "tree f mo q = Some n" using merged by auto
    from that(2) obtain z where "rel = q @ z" "z \<noteq> []" by (auto simp: strict_prefix_append)
    then show False using that(1) tree_leaf(2) [OF w n, of z] merged by simp
  qed
  have l0: "limited f out (\<lambda>r. {None, tree f out r}) f" using w o by (simp add: limited_def)
  have s1: "rel \<noteq> [] \<and> list_all plain rel" if "rel \<in> set (sorted_paths ?merged)" for rel
    using that ok [of mo rel] merged rd by simp
  have s2: "q \<notin> set ?merged" if "rel \<in> set (sorted_paths ?merged)" "strict_prefix q rel" for rel q
    using above [of rel q] that by simp
  have "\<exists>f'. for_each (sorted_paths ?merged) (\<lambda>rel. unlink_shadows out ?merged [] (butlast rel)) f = (Inr (), f') \<and>
      limited f out (\<lambda>r. {None, tree f out r}) f' \<and> (\<forall>q. tree f' out q \<in> {None, tree f out q}) \<and>
      (\<forall>rel\<in>set (sorted_paths ?merged). \<forall>q. strict_prefix q rel \<longrightarrow> tree f' out q = None)"
    by (rule unlink_stale_run [OF l0]) (use s1 s2 in blast)+
  then obtain f1 where f1: "unlink_stale_ancestors out ?merged f = (Inr (), f1)"
    and l1: "limited f out (\<lambda>r. {None, tree f out r}) f1"
    and above1: "\<And>rel q. rel \<in> set ?merged \<Longrightarrow> strict_prefix q rel \<Longrightarrow> tree f1 out q = None"
    by (auto simp: unlink_stale_ancestors_def)
  have l1': "limited f out (\<lambda>r. if r \<in> {} then {tree f mo r} else {None, tree f1 out r}) f1"
    using l1 by (simp add: limited_def)
  obtain f2 where f2: "for_each (sorted_paths ?merged) (copy_result mo out) f1 = (Inr (), f2)"
    and l2: "limited f out (\<lambda>r. if r \<in> {} \<union> set (sorted_paths ?merged) then {tree f mo r} else {None, tree f1 out r}) f2"
    using copy_results_run [OF l1' mo w, of "sorted_paths ?merged"] merged above1 by auto
  note W2 = limitedD [OF l2]
  have np: "\<not> prefix out (p @ r)" for r
  proof
    assume "prefix out (p @ r)"
    then have "prefix out p \<or> prefix p out" unfolding prefix_append by auto
    with p show False by (simp add: separate_def)
  qed
  have "fs_lookup f2 (p @ r) = fs_lookup f (p @ r)" for r by (rule W2(3) [OF np])
  then have p2: "tree f2 p = tree f p" "fs_lookup f2 p = fs_lookup f p"
    by (auto simp: tree_def fun_eq_iff) (metis append_Nil2)
  then have "real_dir f2 p" using rd(2) by (intro real_dirI [OF W2(1)]) (simp add: real_dir_def)
  then have ents: "r \<in> set (all_relative_entries f2 [p]) \<longleftrightarrow> tree f p r \<noteq> None" for r
    using all_entries_set [OF W2(1), of "[p]"] p2 by auto
  let ?gone = "sorted_paths (filter (\<lambda>rel. rel \<notin> set ?merged) (all_relative_entries f2 [p]))"
  have g: "rel \<noteq> [] \<and> list_all plain rel" if "rel \<in> set ?gone" for rel
    using that ents ok [of p rel] rd by auto
  obtain f3 where f3: "for_each ?gone (delete_gone out) f2 = (Inr (), f3)"
    and l3: "limited f out (\<lambda>r. if r \<in> set ?gone then {None}
        else if r \<in> {} \<union> set (sorted_paths ?merged) then {tree f mo r} else {None, tree f1 out r}) f3"
    using delete_all_run [where rels = "?gone", OF l2 g] by blast
  have "limited f out (\<lambda>r. {tree f mo r}) f3"
  proof (rule limited_mono [OF l3])
    fix r
    have "tree f1 out r = None" if "tree f p r = None"
      using limitedD(4) [OF l1, of r] that start by simp
    then show "(if r \<in> set ?gone then {None}
        else if r \<in> {} \<union> set (sorted_paths ?merged) then {tree f mo r} else {None, tree f1 out r}) \<subseteq> {tree f mo r}"
      using merged [of r] ents [of r] by auto
  qed
  moreover have "apply_result p mo out f = (Inr (), f3)"
    using f1 f2 f3 by (simp add: apply_result_def seqE_run)
  ultimately show ?thesis by blast
qed

text \<open>The four mounted trees and the place for the temporary directory lie apart; the output starts
  with the parent's entries.\<close>

definition merge_ready :: "(string \<Rightarrow> string) \<Rightarrow> path \<Rightarrow> path \<Rightarrow> path \<Rightarrow> path \<Rightarrow> path \<Rightarrow> fs \<Rightarrow> bool" where
  "merge_ready md5 tmp p a b out f \<longleftrightarrow>
     wf_fs f \<and> list_all (real_dir f) [p, a, b, out] \<and> fresh_dir f tmp \<and>
     list_all (\<lambda>d. \<not> prefix d tmp) [p, a, b, out] \<and> \<not> prefix p out \<and> \<not> prefix out p \<and>
     list_all (\<lambda>rel. tree f out rel = tree f p rel) (all_relative_entries f [out, p]) \<and>
     hash_ok md5 f [p, a, b]"

lemma merge_ready_tree:
  assumes "merge_ready md5 tmp p a b out f"
  shows "tree f out = tree f p"
proof
  fix r
  have "set (all_relative_entries f [out, p]) = {rel. \<exists>d\<in>set [out, p]. tree f d rel \<noteq> None}"
    using assms by (intro all_entries_set) (auto simp: merge_ready_def)
  then show "tree f out r = tree f p r"
    using assms by (cases "r \<in> set (all_relative_entries f [out, p])") (auto simp: merge_ready_def list_all_iff)
qed

lemma hash_ok_cong:
  assumes "set (all_relative_entries f ds) = set (all_relative_entries g ds)"
    and "\<And>d. d \<in> set ds \<Longrightarrow> tree f d = tree g d"
  shows "hash_ok md5 f ds = hash_ok md5 g ds"
  unfolding hash_ok_def list_all_iff assms(1) using assms(2) by auto

lemma merge_into_run:
  assumes "merge_ready md5 tmp p a b out f"
  shows "\<exists>f'. merge_into md5 tmp p a b out f =
           (Inr (fold (tally md5 (tree f p) (tree f a) (tree f b)) (merge_paths f p a b)
                   (start_result (tmp @ [''merge_result'']))), f') \<and>
           tree f' out = merged_tree (tree f p) (tree f a) (tree f b) \<and>
           (\<forall>q. \<not> prefix out q \<longrightarrow> fs_lookup f' q = fs_lookup f q)"
proof -
  let ?mo = "tmp @ [''merge_result'']" and ?M = "merged_tree (tree f p) (tree f a) (tree f b)"
  have R: "wf_fs f" "real_dir f p" "real_dir f a" "real_dir f b" "real_dir f out" "fresh_dir f tmp"
    "\<not> prefix p tmp" "\<not> prefix a tmp" "\<not> prefix b tmp" "\<not> prefix out tmp" "\<not> prefix p out" "\<not> prefix out p"
    "hash_ok md5 f [p, a, b]"
    using assms by (simp_all add: merge_ready_def)
  note F = fresh_dirD [OF R(1,6)]
  have T: "tmp \<noteq> []" "list_all plain tmp" "fs_lookup f tmp = None" "node_at f (butlast tmp) = Some NDir"
    using R(6) by (auto simp: fresh_dir_def)
  let ?f1 = "fs_put f tmp NDir"
  have r1: "make_one_dir tmp f = (Inr (), ?f1)" using make_one_dir_run [OF F(1)] T(3) by simp
  have w1: "wf_fs ?f1" by (rule wf_put [OF R(1) T(1,2,4)]) simp
  have l1: "fs_lookup ?f1 q = fs_lookup f q" if "q \<noteq> tmp" for q using that by simp
  have keep1: "tree ?f1 d = tree f d \<and> real_dir ?f1 d \<and> \<not> prefix tmp d" if d: "real_dir f d" "\<not> prefix d tmp" for d
  proof -
    have "d @ r \<noteq> tmp" for r using d(2) by auto
    then have l: "fs_lookup ?f1 (d @ r) = fs_lookup f (d @ r)" for r by (intro l1)
    have "fs_lookup ?f1 d = Some NDir" using l [of "[]"] d(1) by (simp add: real_dir_def)
    then show ?thesis
      using l real_dirI [OF w1] real_dir_not_below [OF R(1) d(1) R(6)] by (auto simp: tree_def fun_eq_iff)
  qed
  note K = keep1 [OF R(2,7)] keep1 [OF R(3,8)] keep1 [OF R(4,9)] keep1 [OF R(5,10)]
  have fresh: "fresh_dir ?f1 ?mo"
    using T F(2) [of ?mo] by (auto simp: fresh_dir_def plain_def node_at_def)
  have below: "\<not> prefix d ?mo \<and> \<not> prefix ?mo d" if "\<not> prefix d tmp" "\<not> prefix tmp d" for d
    using that by (auto simp: prefix_snoc dest: append_prefixD)
  note B = below [OF R(7)] below [OF R(8)] below [OF R(9)] below [OF R(10)]
  have ents: "set (all_relative_entries ?f1 [p, a, b]) = set (all_relative_entries f [p, a, b])"
  proof -
    have "set (all_relative_entries ?f1 [p, a, b]) = {rel. \<exists>d\<in>set [p, a, b]. tree ?f1 d rel \<noteq> None}"
      using K by (intro all_entries_set [OF w1]) auto
    moreover have "set (all_relative_entries f [p, a, b]) = {rel. \<exists>d\<in>set [p, a, b]. tree f d rel \<noteq> None}"
      using R by (intro all_entries_set [OF R(1)]) auto
    ultimately show ?thesis using K by simp
  qed
  have h1: "hash_ok md5 ?f1 [p, a, b]"
    using hash_ok_cong [OF ents, of md5] K R(13) by auto
  have paths: "merge_paths ?f1 p a b = merge_paths f p a b"
    unfolding merge_paths_def by (rule sorted_entries_cong [OF w1 R(1)]) (use K R in auto)
  have t1: "tree ?f1 p = tree f p" "tree ?f1 a = tree f a" "tree ?f1 b = tree f b" using K by blast+
  from three_way_merge_run [OF w1 _ _ _ fresh _ _ _ h1, unfolded paths t1] K B
  obtain f2 where r2: "three_way_merge md5 p a b (Some ?mo) ?f1 =
        (Inr (fold (tally md5 (tree f p) (tree f a) (tree f b)) (merge_paths f p a b) (start_result ?mo)), f2)"
    and m2: "merging ?f1 ?mo ?M (set (merge_paths f p a b)) f2"
    by auto
  note G = mergingD [OF m2]
  have sep: "separate ?f1 ?mo d" if "real_dir ?f1 d" "\<not> prefix d ?mo \<and> \<not> prefix ?mo d" for d
    using that by (simp add: separate_def)
  note S = separate_same [OF m2 sep]
  have o2: "real_dir f2 out" "tree f2 out = tree f out" using S [of out] K B by auto
  have p2: "real_dir f2 p" "tree f2 p = tree f p" using S [of p] K B by auto
  have s_mo: "separate f2 out ?mo" using G(2) B(4) K(4) by (simp add: separate_def)
  have s_p: "separate f2 out p" using p2 R(11,12) by (simp add: separate_def)
  have mo2: "tree f2 ?mo r = ?M r" for r
  proof (cases "r \<in> set (merge_paths f p a b)")
    case False
    have "set (all_relative_entries f [p, a, b]) = {rel. \<exists>d\<in>set [p, a, b]. tree f d rel \<noteq> None}"
      using R by (intro all_entries_set [OF R(1)]) auto
    with False have "tree f p r = None" "tree f a r = None" "tree f b r = None"
      by (auto simp: merge_paths_def)
    then have "?M r = None" by (simp add: merged_tree_def decide_def)
    with False show ?thesis by (simp add: G(5))
  qed (simp add: G(5))
  obtain f3 where r3: "apply_result p ?mo out f2 = (Inr (), f3)" and l3: "limited f2 out (\<lambda>r. {tree f2 ?mo r}) f3"
    using apply_result_run [OF G(1) o2(1) s_mo s_p] o2(2) p2(2) merge_ready_tree [OF assms] by auto
  let ?f4 = "fs_rmtree f3 tmp"
  have r4: "merge_into md5 tmp p a b out f =
      (Inr (fold (tally md5 (tree f p) (tree f a) (tree f b)) (merge_paths f p a b) (start_result ?mo)), ?f4)"
    unfolding merge_into_def seqE_run [where m = "make_one_dir tmp" and w = f, OF r1] using r2 r3
    by (simp add: finallyE_def bindE_def tryE_def seqE_def ret_def writes_def from_result_def Let_def)
  have "tree ?f4 out r = ?M r" for r
  proof -
    have "\<not> prefix tmp (out @ r)" using K(4) R(10) by (auto simp: prefix_append)
    then have "tree ?f4 out r = tree f3 out r" by (simp add: tree_def)
    then show ?thesis using limitedD(4) [OF l3, of r] mo2 by simp
  qed
  moreover have "fs_lookup ?f4 q = fs_lookup f q" if q: "\<not> prefix out q" for q
  proof (cases "prefix tmp q")
    case True
    then show ?thesis using F(2) [OF True] by simp
  next
    case False
    then have "\<not> prefix ?mo q" "q \<noteq> tmp" by (auto dest: append_prefixD)
    then show ?thesis using False limitedD(3) [OF l3 q] G(3) [of q] by simp
  qed
  ultimately show ?thesis using r4 by (intro exI [of _ ?f4]) (simp add: fun_eq_iff)
qed

section \<open>Properties\<close>

text \<open>C8: merging two forks of a checkpoint into a volume snapped from their parent never fails and
  leaves on the volume exactly the three-way merge of the trees: at every path the side that
  differs from the parent, the first fork where both do, and nothing below an entry; the reported
  conflicts are the paths where both forks differ from the parent and from each other; and no
  file of the machine outside the output mount is changed, whatever links the trees hold.\<close>

theorem merge_into_correct:
  assumes "merge_ready md5 tmp p a b out f"
  shows "\<exists>res f'. merge_into md5 tmp p a b out f = (Inr res, f') \<and>
           tree f' out = merged_tree (tree f p) (tree f a) (tree f b) \<and>
           (\<forall>q. \<not> prefix out q \<longrightarrow> fs_lookup f' q = fs_lookup f q) \<and>
           map ci_path (mr_conflicts res) = filter (in_conflict (tree f p) (tree f a) (tree f b)) (merge_paths f p a b) \<and>
           mr_unchanged res = int (length (filter (untouched (tree f p) (tree f a) (tree f b)) (merge_paths f p a b))) \<and>
           int (length (mr_conflicts res)) + mr_auto_merged res + mr_unchanged res = int (length (merge_paths f p a b))"
proof -
  let ?res = "fold (tally md5 (tree f p) (tree f a) (tree f b)) (merge_paths f p a b) (start_result (tmp @ [''merge_result'']))"
  have "length (filter P xs) + length (filter (\<lambda>x. \<not> Q x \<and> \<not> P x) xs) + length (filter Q xs) = length xs"
    if "\<And>x. P x \<Longrightarrow> \<not> Q x" for P Q and xs :: "path list"
    using that by (induction xs) auto
  from this [of "in_conflict (tree f p) (tree f a) (tree f b)" "untouched (tree f p) (tree f a) (tree f b)" "merge_paths f p a b"]
  have "length (map ci_path (mr_conflicts ?res)) + nat (mr_auto_merged ?res) + nat (mr_unchanged ?res) = length (merge_paths f p a b)"
    unfolding fold_tally by (simp add: start_result_def in_conflict_def untouched_def)
  moreover have "0 \<le> mr_auto_merged ?res" "0 \<le> mr_unchanged ?res" by (simp_all add: fold_tally start_result_def)
  ultimately have "int (length (mr_conflicts ?res)) + mr_auto_merged ?res + mr_unchanged ?res = int (length (merge_paths f p a b))"
    by simp
  then show ?thesis
    using merge_into_run [OF assms] fold_tally(1,2) [of md5 "tree f p" "tree f a" "tree f b" "merge_paths f p a b"]
    by (auto simp: start_result_def)
qed

text \<open>Four mounts: both forks changed a file, one removed a file, one turned a directory into an
  absolute link.\<close>

definition demo_mounts :: fs where
  "demo_mounts =
     [([''tmp''], NDir), ([''p''], NDir), ([''a''], NDir), ([''b''], NDir), ([''o''], NDir),
      ([''p'', ''x''], NFile ''1''), ([''a'', ''x''], NFile ''2''), ([''b'', ''x''], NFile ''3''), ([''o'', ''x''], NFile ''1''),
      ([''p'', ''y''], NFile ''1''), ([''b'', ''y''], NFile ''1''), ([''o'', ''y''], NFile ''1''),
      ([''p'', ''d''], NDir), ([''p'', ''d'', ''z''], NFile ''1''), ([''o'', ''d''], NDir), ([''o'', ''d'', ''z''], NFile ''1''),
      ([''a'', ''d''], NDir), ([''a'', ''d'', ''z''], NFile ''1''), ([''b'', ''d''], NLink ''/tmp'')]"

lemma demo_mounts_ready: "merge_ready (\<lambda>t. t) [''tmp'', ''m''] [''p''] [''a''] [''b''] [''o''] demo_mounts"
  by code_simp

lemma merge_into_correct_witness:
  "\<exists>res f'. merge_into (\<lambda>t. t) [''tmp'', ''m''] [''p''] [''a''] [''b''] [''o''] demo_mounts = (Inr res, f') \<and>
     tree f' [''o''] = merged_tree (tree demo_mounts [''p'']) (tree demo_mounts [''a'']) (tree demo_mounts [''b''])"
  using merge_into_correct [OF demo_mounts_ready] by blast

text \<open>A side that changed nothing contributes nothing. When one fork's tree is the parent's, the
  merge leaves the other fork's tree, when both forks have the same tree it leaves that tree, and
  no conflict is reported.\<close>

lemma merge_unchanged_side:
  assumes "merge_ready md5 tmp p a b out f"
    and "(tree f a = tree f p \<and> t = tree f b) \<or> (tree f b = tree f p \<and> t = tree f a) \<or>
         (tree f a = tree f b \<and> t = tree f a)"
  shows "\<exists>res f'. merge_into md5 tmp p a b out f = (Inr res, f') \<and> tree f' out = t \<and> mr_conflicts res = []"
proof -
  have w: "wf_fs f" using assms(1) by (simp add: merge_ready_def)
  have dec: "decide (tree f p r) (tree f a r) (tree f b r) = t r" for r
    using assms(2) by (auto simp: decide_def)
  have leaf: "t (take n r) \<noteq> None \<Longrightarrow> n < length r \<Longrightarrow> t r = None" for n r
  proof -
    assume "t (take n r) \<noteq> None" "n < length r"
    moreover from assms(2) obtain d where "t = tree f d" by blast
    moreover obtain k where "t (take n r) = Some k" using calculation(1) by auto
    ultimately show "t r = None" using tree_leaf(2) [OF w, of d "take n r" k "drop n r"] by simp
  qed
  have m: "merged_tree (tree f p) (tree f a) (tree f b) = t"
  proof
    fix r
    show "merged_tree (tree f p) (tree f a) (tree f b) r = t r"
    proof (cases "\<exists>n<length r. t (take n r) \<noteq> None")
      case True
      then have "t r = None" using leaf by blast
      then show ?thesis by (simp add: merged_tree_def dec)
    next
      case False
      then show ?thesis by (auto simp: merged_tree_def dec list_ex_iff)
    qed
  qed
  have c: "filter (in_conflict (tree f p) (tree f a) (tree f b)) (merge_paths f p a b) = []"
    using assms(2) by (auto simp: in_conflict_def filter_empty_conv)
  have n: "mr_conflicts (fold (tally md5 (tree f p) (tree f a) (tree f b)) (merge_paths f p a b)
      (start_result (tmp @ [''merge_result'']))) = []"
    using fold_tally(1) [of md5 "tree f p" "tree f a" "tree f b" "merge_paths f p a b" "start_result (tmp @ [''merge_result''])"]
    unfolding c by (simp add: start_result_def)
  obtain f' where r: "merge_into md5 tmp p a b out f =
      (Inr (fold (tally md5 (tree f p) (tree f a) (tree f b)) (merge_paths f p a b)
              (start_result (tmp @ [''merge_result'']))), f')"
    and t: "tree f' out = merged_tree (tree f p) (tree f a) (tree f b)"
    using merge_into_run [OF assms(1)] by blast
  show ?thesis using r t [unfolded m] n by blast
qed

lemma one_fork_ready: "merge_ready (\<lambda>t. t) [''tmp'', ''m''] [''p''] [''p''] [''b''] [''o''] demo_mounts"
  by code_simp

lemma merge_unchanged_side_witness:
  "\<exists>res f'. merge_into (\<lambda>t. t) [''tmp'', ''m''] [''p''] [''p''] [''b''] [''o''] demo_mounts = (Inr res, f') \<and>
     tree f' [''o''] = tree demo_mounts [''b''] \<and> mr_conflicts res = []"
  by (rule merge_unchanged_side [OF one_fork_ready]) simp

end
