(* ===== verification/SparseCopy.thy ===== *)
theory SparseCopy
  imports Prelude
begin

text \<open>
  \<open>_copy_sparse\<close> of src/src/mshkn/services/checkpoints.py on the bytes of a file (a byte is a
  character). The destination is a file with a position that may be moved past its end: what is
  skipped reads back as zeros, and so does what \<open>truncate\<close> adds. The source is read a chunk at a
  time, a chunk is looked at page by page, and each maximal run of pages with data is one write.
\<close>

definition page_size :: nat where
  "page_size = 4096"

definition sparse_read :: nat where
  "sparse_read = 1048576"

definition zero_byte :: char where
  "zero_byte = CHR 0x00"

definition zeros :: "nat \<Rightarrow> string" where
  "zeros n = replicate n zero_byte"

section \<open>A file with a position\<close>

record out_file =
  of_bytes :: string
  of_pos :: nat

definition empty_file :: out_file where
  "empty_file = \<lparr>of_bytes = [], of_pos = 0\<rparr>"

text \<open>The first \<open>n\<close> bytes, what was never written being zero.\<close>

definition padded :: "string \<Rightarrow> nat \<Rightarrow> string" where
  "padded s n = take n (s @ zeros (n - length s))"

definition write_bytes :: "string \<Rightarrow> out_file \<Rightarrow> out_file" where
  "write_bytes data d =
     (if data = [] then d
      else \<lparr>of_bytes = padded (of_bytes d) (of_pos d) @ data @ drop (of_pos d + length data) (of_bytes d),
            of_pos = of_pos d + length data\<rparr>)"

definition seek_forward :: "nat \<Rightarrow> out_file \<Rightarrow> out_file" where
  "seek_forward n d = d\<lparr>of_pos := of_pos d + n\<rparr>"

definition truncate_to :: "nat \<Rightarrow> out_file \<Rightarrow> out_file" where
  "truncate_to n d = d\<lparr>of_bytes := padded (of_bytes d) n\<rparr>"

section \<open>The copy\<close>

text \<open>One page of a chunk: the state is the start of the current run of data and the file.\<close>

definition copy_page :: "nat \<Rightarrow> string \<Rightarrow> nat \<Rightarrow> nat option \<times> out_file \<Rightarrow> nat option \<times> out_file" where
  "copy_page page chunk offset st =
     (case st of (run_start, dst) \<Rightarrow>
        let p = take page (drop offset chunk) in
        if p = zeros (length p)
        then (None, seek_forward (length p)
               (case run_start of None \<Rightarrow> dst | Some s \<Rightarrow> write_bytes (drop s (take offset chunk)) dst))
        else (case run_start of None \<Rightarrow> Some offset | Some s \<Rightarrow> Some s, dst))"

text \<open>\<open>range(0, n, page)\<close>.\<close>

definition page_offsets :: "nat \<Rightarrow> nat \<Rightarrow> nat list" where
  "page_offsets page n = map (\<lambda>i. i * page) [0..<(n + page - 1) div page]"

definition copy_chunk :: "nat \<Rightarrow> string \<Rightarrow> out_file \<Rightarrow> out_file" where
  "copy_chunk page chunk dst =
     (case fold (copy_page page chunk) (page_offsets page (length chunk)) (None, dst) of
        (None, d) \<Rightarrow> d
      | (Some s, d) \<Rightarrow> write_bytes (drop s chunk) d)"

function copy_chunks :: "nat \<Rightarrow> nat \<Rightarrow> string \<Rightarrow> out_file \<Rightarrow> out_file" where
  "copy_chunks page n src dst =
     (if src = [] \<or> n = 0 then dst else copy_chunks page n (drop n src) (copy_chunk page (take n src) dst))"
  by pat_completeness auto
termination
  by (relation "measure (\<lambda>(page, n, src, dst). length src)") auto

declare copy_chunks.simps [simp del]

definition copy_sparse :: "string \<Rightarrow> string" where
  "copy_sparse src = of_bytes (truncate_to (length src) (copy_chunks page_size sparse_read src empty_file))"

section \<open>Correctness\<close>

lemma length_padded [simp]: "length (padded s n) = n"
  by (simp add: padded_def zeros_def)

lemma padded_self: "padded s (length s) = s"
  by (simp add: padded_def zeros_def)

lemma padded_append [simp]: "length s = n \<Longrightarrow> padded (s @ t) n = s"
  by (simp add: padded_def)

lemma padded_shorter: "m \<le> n \<Longrightarrow> take m (padded s n) = padded s m"
proof -
  assume "m \<le> n"
  moreover have "take m (zeros k) = zeros (min m k)" for m k by (simp add: zeros_def min_def)
  ultimately show ?thesis by (simp add: padded_def min_def zeros_def)
qed

lemma padded_longer: "length s \<le> n \<Longrightarrow> padded s (n + m) = padded s n @ zeros m"
  by (simp add: padded_def zeros_def flip: replicate_add)

text \<open>The file holds \<open>src\<close> up to the position and nothing past it.\<close>

definition holds :: "string \<Rightarrow> out_file \<Rightarrow> bool" where
  "holds src d \<longleftrightarrow> of_pos d = length src \<and> length (of_bytes d) \<le> length src \<and> padded (of_bytes d) (length src) = src"

lemma holds_write: "holds src d \<Longrightarrow> holds (src @ data) (write_bytes data d)"
  by (auto simp: holds_def write_bytes_def padded_self [of "src @ data", simplified])

lemma holds_seek: "holds src d \<Longrightarrow> holds (src @ zeros n) (seek_forward n d)"
  by (simp add: holds_def seek_forward_def padded_longer) (simp add: zeros_def)

lemma holds_truncate: "holds src d \<Longrightarrow> of_bytes (truncate_to (length src) d) = src"
  by (simp add: holds_def truncate_to_def)

text \<open>Between two pages: everything before the offset is copied, or pending in a run of data.\<close>

definition copied_to :: "string \<Rightarrow> string \<Rightarrow> nat \<Rightarrow> nat option \<times> out_file \<Rightarrow> bool" where
  "copied_to before_chunk chunk offset st \<longleftrightarrow>
     (case st of
        (None, d) \<Rightarrow> holds (before_chunk @ take offset chunk) d
      | (Some s, d) \<Rightarrow> s \<le> offset \<and> holds (before_chunk @ take s chunk) d)"

lemma copied_to_run:
  assumes "copied_to b chunk offset (Some s, d)"
  shows "holds (b @ take offset chunk) (write_bytes (drop s (take offset chunk)) d)"
proof -
  have "take s (take offset chunk) = take s chunk" using assms by (simp add: copied_to_def min_def)
  then have "take s chunk @ drop s (take offset chunk) = take offset chunk"
    using append_take_drop_id [of s "take offset chunk"] by simp
  then show ?thesis
    using holds_write [of "b @ take s chunk" d "drop s (take offset chunk)"] assms by (simp add: copied_to_def)
qed

lemma copy_page_step:
  assumes "copied_to b chunk offset st"
  shows "copied_to b chunk (offset + page) (copy_page page chunk offset st)"
proof -
  obtain run d where st: "st = (run, d)" by (cases st)
  let ?p = "take page (drop offset chunk)"
  have t: "take offset chunk @ ?p = take (offset + page) chunk" by (simp add: take_add)
  show ?thesis
  proof (cases "?p = zeros (length ?p)")
    case True
    let ?d = "case run of None \<Rightarrow> d | Some s \<Rightarrow> write_bytes (drop s (take offset chunk)) d"
    have "holds (b @ take offset chunk) ?d"
      using assms copied_to_run [of b chunk offset _ d] by (cases run) (auto simp: st copied_to_def)
    from holds_seek [OF this, of "length ?p"] have "holds (b @ take (offset + page) chunk) (seek_forward (length ?p) ?d)"
      unfolding True [symmetric] append_assoc t .
    moreover have "copy_page page chunk offset st = (None, seek_forward (length ?p) ?d)"
      using True unfolding st copy_page_def Let_def by (simp only: case_prod_conv if_True simp_thms)
    ultimately show ?thesis by (simp only: copied_to_def case_prod_conv option.case)
  next
    case False
    then show ?thesis using assms unfolding st copy_page_def Let_def by (cases run) (simp_all add: copied_to_def)
  qed
qed

lemma copy_pages_step:
  "copied_to b chunk (k * page) (fold (copy_page page chunk) (map (\<lambda>i. i * page) [0..<k]) (None, d))"
  if "holds b d"
proof (induction k)
  case 0
  then show ?case using that by (simp add: copied_to_def)
next
  case (Suc k)
  from copy_page_step [OF Suc.IH, of page] show ?case by (simp add: add.commute)
qed

lemma copy_chunk_holds:
  assumes "holds b d" and "0 < page"
  shows "holds (b @ chunk) (copy_chunk page chunk d)"
proof -
  let ?k = "(length chunk + page - 1) div page"
  have "length chunk \<le> ?k * page"
  proof -
    have "length chunk + page - 1 < (?k + 1) * page"
      using assms(2) by (metis Suc_eq_plus1 dividend_less_times_div mult.commute mult_Suc_right add.commute)
    then show ?thesis by simp
  qed
  then have t: "take (?k * page) chunk = chunk" by (rule take_all)
  have c: "copied_to b chunk (?k * page) (fold (copy_page page chunk) (page_offsets page (length chunk)) (None, d))"
    unfolding page_offsets_def by (rule copy_pages_step [OF assms(1)])
  obtain run d' where st: "fold (copy_page page chunk) (page_offsets page (length chunk)) (None, d) = (run, d')"
    by (cases "fold (copy_page page chunk) (page_offsets page (length chunk)) (None, d)")
  show ?thesis
  proof (cases run)
    case None
    then show ?thesis using c unfolding copy_chunk_def st copied_to_def by (simp only: case_prod_conv option.case t)
  next
    case (Some s)
    then show ?thesis using c copied_to_run [of b chunk "?k * page" s d'] unfolding copy_chunk_def st Some
      by (simp only: case_prod_conv option.case t)
  qed
qed

lemma copy_chunks_holds:
  assumes "0 < page" and "0 < n" and "holds b d"
  shows "holds (b @ src) (copy_chunks page n src d)"
  using assms
proof (induction page n src d arbitrary: b rule: copy_chunks.induct)
  case (1 page n src dst)
  show ?case
  proof (cases "src = []")
    case True
    then show ?thesis using "1.prems" by (simp add: copy_chunks.simps)
  next
    case False
    have "holds (b @ take n src) (copy_chunk page (take n src) dst)"
      by (rule copy_chunk_holds) (use "1.prems" in auto)
    then have "holds ((b @ take n src) @ drop n src) (copy_chunks page n (drop n src) (copy_chunk page (take n src) dst))"
      using "1.prems" False by (intro "1.IH") auto
    then show ?thesis using False "1.prems" by (simp add: copy_chunks.simps [of page n src])
  qed
qed

section \<open>Properties\<close>

text \<open>The sparse copy of a memory image, page runs and holes included, reads back as the image,
  for images of any length.\<close>

lemma copy_sparse_exact: "copy_sparse src = src"
proof -
  have "holds [] empty_file" by (simp add: holds_def empty_file_def padded_def zeros_def)
  from copy_chunks_holds [OF _ _ this, of page_size sparse_read src]
  have "holds src (copy_chunks page_size sparse_read src empty_file)"
    by (simp add: page_size_def sparse_read_def)
  then show ?thesis by (simp add: copy_sparse_def holds_truncate)
qed

end
