(* ===== verification/Checkpoints.thy ===== *)
theory Checkpoints
  imports Computers Merge SparseCopy
begin

text \<open>
  Checkpoints (src/src/mshkn/services/checkpoints.py): create, the background persist and upload,
  the recovery of the staging directory, delete and prune, merge, and the admission of forks to a
  labelled chain. The three mutexes of the service (the label locks and the two one-slot
  semaphores) only order tasks; the label lock is theory \<open>Admission\<close>, and an operation under it is
  one action here. A file's bytes are its text; log lines and fsync are left out.
\<close>

section \<open>Constants and results\<close>

definition staging_min_free_bytes :: int where
  "staging_min_free_bytes = 2 * 1024 ^ 3"

fun nearest_existing :: "fs \<Rightarrow> string list \<Rightarrow> path" where
  "nearest_existing f rev_probe =
     (if path_exists f (rev rev_probe) then rev rev_probe
      else case rev_probe of [] \<Rightarrow> [] | _ # up \<Rightarrow> nearest_existing f up)"

declare nearest_existing.simps [simp del]

definition staging_free_bytes :: "'h env \<Rightarrow> path \<Rightarrow> ('h, int) st" where
  "staging_free_bytes E p =
     bindE (read_fs E) (\<lambda>f.
     reads (\<lambda>w. os_free_bytes (h_os (e_host E)) (nearest_existing f (rev p)) (w_host w)))"

record merge_outcome =
  mo_checkpoint :: checkpoint
  mo_conflicts :: "path list"
  mo_auto_merged :: int
  mo_unchanged :: int

datatype admitted = Forked computer | Deferred string

definition upload_task_key :: "string \<Rightarrow> string" where
  "upload_task_key checkpoint_id = ''upload:'' @ checkpoint_id"

definition staging_clear_task_key :: "string \<Rightarrow> string" where
  "staging_clear_task_key checkpoint_id = ''stage-clear:'' @ checkpoint_id"

section \<open>Lookups\<close>

definition get_owned_checkpoint :: "account \<Rightarrow> string \<Rightarrow> ('h, checkpoint) st" where
  "get_owned_checkpoint account checkpoint_id =
     bindE (reads (get_checkpoint checkpoint_id)) (\<lambda>ckpt.
     case ckpt of
       None \<Rightarrow> raise_domain NotFound ''Checkpoint not found''
     | Some c \<Rightarrow>
         if ck_account_id c \<noteq> a_id account then raise_domain NotFound ''Checkpoint not found'' else ret c)"

definition list_checkpoints :: "account \<Rightarrow> string option \<Rightarrow> ('h, checkpoint list) st" where
  "list_checkpoints account label = reads (list_checkpoints_by_account (a_id account) label)"

definition latest_for_label :: "account \<Rightarrow> string \<Rightarrow> ('h, checkpoint option) st" where
  "latest_for_label account label =
     bindE (reads (list_checkpoints_by_account (a_id account) (Some label))) (\<lambda>ckpts.
     ret (case ckpts of [] \<Rightarrow> None | c # _ \<Rightarrow> Some c))"

text \<open>An absent label and an empty one are both no label.\<close>

definition label_of :: "checkpoint \<Rightarrow> string option" where
  "label_of c = (case ck_label c of None \<Rightarrow> None | Some l \<Rightarrow> if l = [] then None else Some l)"

definition source_label :: "string \<Rightarrow> computer \<Rightarrow> ('h, string option) st" where
  "source_label account_id c =
     (case c_source_checkpoint_id c of
        None \<Rightarrow> ret None
      | Some i \<Rightarrow>
          if i = [] then ret None
          else
            bindE (reads (get_checkpoint i)) (\<lambda>source.
            ret (case source of
                   None \<Rightarrow> None
                 | Some s \<Rightarrow> if ck_account_id s \<noteq> account_id then None else label_of s)))"

section \<open>Create\<close>

definition snap_disk :: "'h env \<Rightarrow> int \<Rightarrow> string \<Rightarrow> ('h, int) st" where
  "snap_disk E source_volume_id volume_name =
     bindE (allocop acquire_volume_id) (\<lambda>volume_id.
     seqE (hostop (bs_snap (blocks_of E) source_volume_id volume_id))
     (seqE (hostop (bs_activate (blocks_of E) volume_id volume_name))
           (ret volume_id)))"

definition staging_dir_of :: "'h env \<Rightarrow> string \<Rightarrow> path" where
  "staging_dir_of E checkpoint_id = cf_checkpoint_staging_dir (e_config E) @ [checkpoint_id]"

definition durable_dir_of :: "'h env \<Rightarrow> string \<Rightarrow> path" where
  "durable_dir_of E checkpoint_id = cf_checkpoint_local_dir (e_config E) @ [checkpoint_id]"

text \<open>Onto the staging directory if there is room, and if that fails onto the durable one; the value
  says which it was.\<close>

definition snapshot_memory :: "'h env \<Rightarrow> computer \<Rightarrow> string \<Rightarrow> bool \<Rightarrow> ('h, bool) st" where
  "snapshot_memory E c checkpoint_id staged =
     bindE (if staged
            then catchE
              (seqE (hostop (hv_snapshot (hypervisor_of E) (c_socket_path c) (staging_dir_of E checkpoint_id)))
                    (ret True))
              (\<lambda>e. if is_host_error e
                    then seqE (rmtree E (staging_dir_of E checkpoint_id)) (ret False)
                    else raise e)
            else ret False) (\<lambda>staged.
     seqE (if staged then ret ()
           else seqE (hostop (hv_snapshot (hypervisor_of E) (c_socket_path c) (durable_dir_of E checkpoint_id)))
                     (ret ()))
          (ret staged))"

definition new_checkpoint ::
  "string \<Rightarrow> computer \<Rightarrow> string option \<Rightarrow> int \<Rightarrow> string option \<Rightarrow> bool \<Rightarrow> string \<Rightarrow> checkpoint" where
  "new_checkpoint checkpoint_id c parent_id volume_id label pin now =
     \<lparr>ck_id = checkpoint_id, ck_account_id = c_account_id c, ck_parent_id = parent_id,
      ck_computer_id = Some (c_id c), ck_thin_volume_id = Some volume_id,
      ck_r2_prefix = c_account_id c @ ''/'' @ checkpoint_id, ck_disk_delta_size_bytes = None,
      ck_memory_size_bytes = None, ck_label = label, ck_pinned = pin, ck_created_at = now,
      ck_recipe_id = c_recipe_id c\<rparr>"

definition create_checkpoint ::
  "'h env \<Rightarrow> computer \<Rightarrow> string option \<Rightarrow> bool \<Rightarrow> checkpoint_trigger \<Rightarrow> ('h, checkpoint) st" where
  "create_checkpoint E c label pin trigger =
     bindE (uuid4_hex E) (\<lambda>hex.
     let checkpoint_id = ''ckpt-'' @ take 12 hex in
     bindE (staging_free_bytes E (cf_checkpoint_staging_dir (e_config E))) (\<lambda>free.
     bindE (timed ''checkpoint''
       (bindE (hostop (gu_exec (guest_of E) (c_vm_ip c) ''sync'' 10)) (\<lambda>_.
        bindE (snapshot_memory E c checkpoint_id (staging_min_free_bytes \<le> free)) (\<lambda>staged.
        bindE (snap_disk E (c_thin_volume_id c) (checkpoint_volume_name checkpoint_id)) (\<lambda>volume_id.
        bindE (reads (get_latest_checkpoint_for_computer (c_id c))) (\<lambda>latest.
        let parent_id = (case latest of Some l \<Rightarrow> Some (ck_id l) | None \<Rightarrow> c_source_checkpoint_id c) in
        bindE (utcnow E) (\<lambda>now.
        let ckpt = new_checkpoint checkpoint_id c parent_id volume_id label pin now in
        seqE (insert_checkpoint ckpt) (ret (ckpt, staged))))))))) (\<lambda>(ckpt, staged).
     seqE (inc_metric ''mshkn_checkpoints_total'' (trigger_text trigger))
     (seqE (spawn (TPersistAndUpload checkpoint_id (ck_r2_prefix ckpt) staged)
              (upload_task_key checkpoint_id) (Some (upload_task_key checkpoint_id)))
           (ret ckpt)))))"

section \<open>Persisting a snapshot\<close>

definition with_tmp :: "path \<Rightarrow> path" where
  "with_tmp p = butlast p @ [last p @ ''.tmp'']"

text \<open>\<open>os.rename\<close> of a directory: onto nothing, or onto an empty directory.\<close>

definition rename_dir :: "path \<Rightarrow> path \<Rightarrow> (fs, unit) act" where
  "rename_dir src dst =
     bindE (reads (\<lambda>f. (fs_lookup f dst, fs_children f dst, node_at f (butlast dst)))) (\<lambda>(n, below, up).
     if up \<noteq> Some NDir then raise (os_error ''FileNotFoundError'' dst)
     else case n of
       None \<Rightarrow> writes (\<lambda>f. fs_rename f src dst)
     | Some NDir \<Rightarrow> if below = [] then writes (\<lambda>f. fs_rename (fs_rmtree f dst) src dst)
                    else raise (os_error ''OSError'' dst)
     | Some _ \<Rightarrow> raise (os_error ''NotADirectoryError'' dst))"

text \<open>\<open>tmp.mkdir()\<close>, which makes no parent.\<close>

definition make_new_dir :: "path \<Rightarrow> (fs, unit) act" where
  "make_new_dir p =
     bindE (reads (\<lambda>f. (unfollowed f p, fs_resolve_parent f p))) (\<lambda>(n, q).
     case (n, q) of
       (None, Some d) \<Rightarrow>
         bindE (reads (\<lambda>f. node_at f (butlast d) = Some NDir)) (\<lambda>ok.
         if ok then writes (\<lambda>f. fs_put f d NDir) else raise (os_error ''FileNotFoundError'' p))
     | _ \<Rightarrow> raise (os_error ''FileExistsError'' p))"

definition copy_file_sparse :: "path \<Rightarrow> path \<Rightarrow> (fs, unit) act" where
  "copy_file_sparse source dest =
     bindE (read_text source) (\<lambda>data. write_text dest (copy_sparse data))"

definition copy_snapshot_entry :: "path \<Rightarrow> path \<Rightarrow> (fs, unit) act" where
  "copy_snapshot_entry tmp entry =
     bindE (reads (\<lambda>f. path_is_file f entry)) (\<lambda>b. whenE b (copy_file_sparse entry (tmp @ [last entry])))"

definition iterdir :: "path \<Rightarrow> (fs, path list) act" where
  "iterdir p =
     bindE (reads (\<lambda>f. path_is_dir f p)) (\<lambda>b.
     if b then list_dir p else raise (os_error ''FileNotFoundError'' p))"

definition persist_snapshot :: "path \<Rightarrow> path \<Rightarrow> (fs, unit) act" where
  "persist_snapshot staging_dir durable_dir =
     (let tmp = with_tmp durable_dir in
      seqE (writes (\<lambda>f. fs_rmtree f tmp))
      (seqE (make_new_dir tmp)
      (bindE (iterdir staging_dir) (\<lambda>entries.
       seqE (for_each entries (copy_snapshot_entry tmp))
            (rename_dir tmp durable_dir)))))"

text \<open>The copy runs in a thread; a cancellation waits for it and then removes what it made.\<close>

definition persist :: "'h env \<Rightarrow> path \<Rightarrow> path \<Rightarrow> bool \<Rightarrow> ('h, unit) st" where
  "persist E staging_dir durable_dir cancelled =
     (if \<not> cancelled then fsop E (persist_snapshot staging_dir durable_dir)
      else bindE (tryE (fsop E (persist_snapshot staging_dir durable_dir))) (\<lambda>_.
           seqE (rmtree E durable_dir)
           (seqE (rmtree E (with_tmp durable_dir))
                 (raise cancelled_error))))"

definition persist_and_upload :: "'h env \<Rightarrow> string \<Rightarrow> string \<Rightarrow> bool \<Rightarrow> bool \<Rightarrow> ('h, unit) st" where
  "persist_and_upload E checkpoint_id r2_prefix staged cancelled =
     (let staging_dir = staging_dir_of E checkpoint_id;
          durable_dir = durable_dir_of E checkpoint_id in
      bindE (if staged
             then catch_exception
               (seqE (persist E staging_dir durable_dir cancelled)
               (seqE (spawn (TClearStaging staging_dir) (staging_clear_task_key checkpoint_id)
                        (Some (staging_clear_task_key checkpoint_id)))
                     (ret durable_dir)))
               (\<lambda>_. ret staging_dir)
             else ret durable_dir) (\<lambda>source.
      suppress (hostop (ob_upload_dir (h_objects (e_host E)) source r2_prefix))))"

definition clear_staging :: "'h env \<Rightarrow> path \<Rightarrow> ('h, unit) st" where
  "clear_staging E staging_dir = rmtree E staging_dir"

definition recover_entry :: "'h env \<Rightarrow> path \<Rightarrow> ('h, int) st" where
  "recover_entry E entry =
     (let durable_dir = durable_dir_of E (last entry) in
      bindE (read_fs E) (\<lambda>f.
      bindE (reads (get_checkpoint (last entry))) (\<lambda>row.
      let complete = path_exists f (entry @ [''vmstate'']) \<and> path_exists f (entry @ [''memory'']);
          has_row = complete \<and> row \<noteq> None in
      if has_row \<and> \<not> path_exists f durable_dir
      then bindE (catch_exception (seqE (fsop E (persist_snapshot entry durable_dir)) (ret True)) (\<lambda>_. ret False))
             (\<lambda>ok. if ok then seqE (rmtree E entry) (ret 1) else ret 0)
      else seqE (rmtree E entry) (ret 0))))"

fun recover_entries :: "'h env \<Rightarrow> path list \<Rightarrow> int \<Rightarrow> ('h, int) st" where
  "recover_entries E [] persisted = ret persisted"
| "recover_entries E (entry # rest) persisted =
     bindE (recover_entry E entry) (\<lambda>n. recover_entries E rest (persisted + n))"

definition recover_staging :: "'h env \<Rightarrow> ('h, int) st" where
  "recover_staging E =
     (let staging_root = cf_checkpoint_staging_dir (e_config E) in
      bindE (read_fs E) (\<lambda>f.
      if \<not> path_is_dir f staging_root then ret 0
      else bindE (fsop E (iterdir staging_root)) (\<lambda>entries. recover_entries E entries 0)))"

section \<open>Delete and prune\<close>

definition delete_checkpoint_of :: "'h env \<Rightarrow> checkpoint \<Rightarrow> ('h, unit) st" where
  "delete_checkpoint_of E c =
     seqE (cancel_task (upload_task_key (ck_id c)))
     (seqE (cancel_task (staging_clear_task_key (ck_id c)))
     (seqE (case ck_thin_volume_id c of
              None \<Rightarrow> ret ()
            | Some v \<Rightarrow> hostop (bs_remove (blocks_of E) v (checkpoint_volume_name (ck_id c))))
     (seqE (rmtree E (durable_dir_of E (ck_id c)))
     (seqE (rmtree E (staging_dir_of E (ck_id c)))
     (seqE (hostop (ob_delete_prefix (h_objects (e_host E)) (ck_r2_prefix c)))
           (delete_checkpoint (ck_id c)))))))"

fun prune_each :: "'h env \<Rightarrow> checkpoint list \<Rightarrow> int \<Rightarrow> ('h, int) st" where
  "prune_each E [] pruned = ret pruned"
| "prune_each E (c # cs) pruned =
     bindE (catch_exception (seqE (delete_checkpoint_of E c) (ret (pruned + 1))) (\<lambda>_. ret pruned))
       (prune_each E cs)"

fun prune_accounts :: "'h env \<Rightarrow> string list \<Rightarrow> int \<Rightarrow> ('h, int) st" where
  "prune_accounts E [] pruned = ret pruned"
| "prune_accounts E (a # as) pruned =
     bindE (reads (list_prunable_checkpoints a (cf_checkpoint_retention_count (e_config E)))) (\<lambda>cs.
     bindE (prune_each E cs pruned) (prune_accounts E as))"

definition prune :: "'h env \<Rightarrow> ('h, int) st" where
  "prune E =
     (if cf_checkpoint_retention_count (e_config E) \<le> 0 then ret 0
      else bindE (reads list_account_ids_with_checkpoints) (\<lambda>accounts. prune_accounts E accounts 0))"

section \<open>Merge\<close>

definition the_disk :: "string \<Rightarrow> checkpoint \<Rightarrow> ('h, int) st" where
  "the_disk name c =
     (case ck_thin_volume_id c of
        None \<Rightarrow> raise_domain BadRequest (name @ '' checkpoint has no disk snapshot'')
      | Some v \<Rightarrow> ret v)"

definition find_checkpoint :: "account \<Rightarrow> string \<Rightarrow> string \<Rightarrow> ('h, checkpoint) st" where
  "find_checkpoint account i message =
     bindE (reads (get_checkpoint i)) (\<lambda>c.
     case c of
       None \<Rightarrow> raise_domain NotFound message
     | Some c \<Rightarrow> if ck_account_id c \<noteq> a_id account then raise_domain NotFound message else ret c)"

text \<open>The checks of a merge: the parent and the two forks.\<close>

definition merge_inputs ::
  "account \<Rightarrow> string \<Rightarrow> string \<Rightarrow> string \<Rightarrow> ('h, checkpoint \<times> checkpoint \<times> checkpoint) st" where
  "merge_inputs account parent_id a_id' b_id =
     bindE (find_checkpoint account parent_id ''Parent checkpoint not found'') (\<lambda>parent.
     if a_id' = b_id then raise_domain BadRequest ''Cannot merge a checkpoint with itself''
     else
       bindE (find_checkpoint account a_id' ''Checkpoint A not found'') (\<lambda>a.
       bindE (find_checkpoint account b_id ''Checkpoint B not found'') (\<lambda>b.
       if ck_parent_id a \<noteq> Some parent_id \<or> ck_parent_id b \<noteq> Some parent_id
       then raise_domain BadRequest ''Both checkpoints must be children of the specified parent''
       else
         seqE (bindE (the_disk ''Parent'' parent) (\<lambda>_. ret ()))
         (seqE (bindE (the_disk ''A'' a) (\<lambda>_. ret ()))
         (seqE (bindE (the_disk ''B'' b) (\<lambda>_. ret ()))
               (ret (parent, a, b)))))))"

text \<open>\<open>async with blocks.mounted(name)\<close>.\<close>

definition mounted :: "'h env \<Rightarrow> string \<Rightarrow> bool \<Rightarrow> (path \<Rightarrow> ('h, 'a) st) \<Rightarrow> ('h, 'a) st" where
  "mounted E name readonly body =
     bindE (hostop (bs_mount (blocks_of E) name readonly)) (\<lambda>mount_point.
     finallyE (body mount_point) (hostop (bs_unmount (blocks_of E) name)))"

definition merge_tmp :: "'h env \<Rightarrow> ('h, path) st" where
  "merge_tmp E = bindE (uuid4_hex E) (\<lambda>hex. ret [''tmp'', ''mshkn-merge-'' @ take 8 hex])"

definition merge_volumes ::
  "'h env \<Rightarrow> checkpoint \<Rightarrow> checkpoint \<Rightarrow> checkpoint \<Rightarrow> string \<Rightarrow> ('h, merge_result) st" where
  "merge_volumes E parent a b merged_volume_name =
     mounted E (checkpoint_volume_name (ck_id parent)) True (\<lambda>mount_parent.
     mounted E (checkpoint_volume_name (ck_id a)) True (\<lambda>mount_a.
     mounted E (checkpoint_volume_name (ck_id b)) True (\<lambda>mount_b.
     mounted E merged_volume_name False (\<lambda>mount_output.
     bindE (merge_tmp E) (\<lambda>merge_dir.
     fsop E (merge_into (e_md5 E) merge_dir mount_parent mount_a mount_b mount_output))))))"

definition merged_checkpoint :: "string \<Rightarrow> account \<Rightarrow> checkpoint \<Rightarrow> int \<Rightarrow> string \<Rightarrow> checkpoint" where
  "merged_checkpoint checkpoint_id account parent volume_id now =
     \<lparr>ck_id = checkpoint_id, ck_account_id = a_id account, ck_parent_id = Some (ck_id parent),
      ck_computer_id = None, ck_thin_volume_id = Some volume_id,
      ck_r2_prefix = a_id account @ ''/'' @ checkpoint_id, ck_disk_delta_size_bytes = None,
      ck_memory_size_bytes = None, ck_label = Some ''merge'', ck_pinned = False, ck_created_at = now,
      ck_recipe_id = ck_recipe_id parent\<rparr>"

definition merge_checkpoints ::
  "'h env \<Rightarrow> account \<Rightarrow> string \<Rightarrow> string \<Rightarrow> string \<Rightarrow> ('h, merge_outcome) st" where
  "merge_checkpoints E account parent_id a_id' b_id =
     bindE (merge_inputs account parent_id a_id' b_id) (\<lambda>(parent, a, b).
     bindE (uuid4_hex E) (\<lambda>hex.
     let checkpoint_id = ''ckpt-'' @ take 12 hex;
         merged_volume_name = checkpoint_volume_name checkpoint_id in
     bindE (allocop acquire_volume_id) (\<lambda>merged_volume_id.
     bindE (timed ''merge''
       (seqE (hostop (bs_snap (blocks_of E) (the (ck_thin_volume_id parent)) merged_volume_id))
       (seqE (hostop (bs_activate (blocks_of E) merged_volume_id merged_volume_name))
             (merge_volumes E parent a b merged_volume_name)))) (\<lambda>result.
     bindE (utcnow E) (\<lambda>now.
     let ckpt = merged_checkpoint checkpoint_id account parent merged_volume_id now in
     seqE (insert_checkpoint ckpt)
          (ret \<lparr>mo_checkpoint = ckpt, mo_conflicts = map ci_path (mr_conflicts result),
                mo_auto_merged = mr_auto_merged result, mo_unchanged = mr_unchanged result\<rparr>))))))"

section \<open>Admission to a labelled chain\<close>

definition json_opt :: "string option \<Rightarrow> json" where
  "json_opt s = (case s of None \<Rightarrow> JNull | Some t \<Rightarrow> JStr t)"

definition deferred_payload :: "checkpoint \<Rightarrow> exec_spec \<Rightarrow> string option \<Rightarrow> json" where
  "deferred_payload c spec recipe_id =
     JObj [(''checkpoint_id'', JStr (ck_id c)), (''recipe_id'', json_opt recipe_id),
           (''exec'', json_opt (es_command spec)), (''self_destruct'', JBool (es_self_destruct spec)),
           (''callback_url'', json_opt (es_callback_url spec)), (''meta_exec'', json_opt (es_meta_exec spec))]"

definition defer_request ::
  "'h env \<Rightarrow> account \<Rightarrow> checkpoint \<Rightarrow> string \<Rightarrow> exec_spec \<Rightarrow> string option \<Rightarrow> ('h, admitted) st" where
  "defer_request E account c label spec recipe_id =
     bindE (uuid4_hex E) (\<lambda>hex.
     let deferred_id = ''def-'' @ take 12 hex in
     bindE (utcnow E) (\<lambda>now.
     seqE (insert_deferred deferred_id label (a_id account) (deferred_payload c spec recipe_id) now)
          (ret (Deferred deferred_id))))"

definition fork_admitted ::
  "'h env \<Rightarrow> account \<Rightarrow> checkpoint \<Rightarrow> string option \<Rightarrow> string option \<Rightarrow> ('h, admitted) st" where
  "fork_admitted E account c recipe_id api_key_id =
     bindE (fork_computer E account c recipe_id api_key_id) (\<lambda>k. ret (Forked k))"

definition admit ::
  "'h env \<Rightarrow> account \<Rightarrow> checkpoint \<Rightarrow> exec_spec \<Rightarrow> string option \<Rightarrow> exclusive_mode option \<Rightarrow> string option \<Rightarrow>
   ('h, admitted) st" where
  "admit E account c spec recipe_id exclusive api_key_id =
     (case (exclusive, label_of c) of
        (Some mode, Some label) \<Rightarrow>
          bindE (reads (get_active_computer_for_label (a_id account) label)) (\<lambda>active.
          if active \<noteq> None
          then (case mode of
                  ErrorOnConflict \<Rightarrow> raise_domain Conflict ''Checkpoint chain has active computer''
                | DeferOnConflict \<Rightarrow> defer_request E account c label spec recipe_id)
          else fork_admitted E account c recipe_id api_key_id)
      | _ \<Rightarrow> fork_admitted E account c recipe_id api_key_id)"

definition fork_by_label ::
  "'h env \<Rightarrow> account \<Rightarrow> string \<Rightarrow> exec_spec \<Rightarrow> exclusive_mode option \<Rightarrow> string option \<Rightarrow> string option \<Rightarrow>
   ('h, checkpoint \<times> admitted) st" where
  "fork_by_label E account label spec exclusive recipe_id api_key_id =
     bindE (latest_for_label account label) (\<lambda>head.
     case head of
       None \<Rightarrow> raise_domain NotFound (''No checkpoint with label '' @ [squote] @ label @ [squote])
     | Some c \<Rightarrow>
         bindE (admit E account c spec recipe_id exclusive api_key_id) (\<lambda>r. ret (c, r)))"

text \<open>Both branches of the source run \<open>_admit\<close>, the labelled one under the label's lock.\<close>

definition fork_or_defer ::
  "'h env \<Rightarrow> account \<Rightarrow> checkpoint \<Rightarrow> exec_spec \<Rightarrow> string option \<Rightarrow> exclusive_mode option \<Rightarrow> string option \<Rightarrow>
   ('h, admitted) st" where
  "fork_or_defer E account c spec recipe_id exclusive api_key_id =
     admit E account c spec recipe_id exclusive api_key_id"

section \<open>Delete and prune touch the rows they delete and no others\<close>

definition rows_are :: "checkpoint list \<Rightarrow> 'h world \<Rightarrow> bool" where
  "rows_are R w \<longleftrightarrow> w_checkpoints w = R"

lemma ignores_rows [simp]: "ignores_host (rows_are R)"
  by (simp add: ignores_host_def rows_are_def)

lemmas keeps_rows_host = keeps_host_steps [OF ignores_rows]

lemma keeps_rows_cancel: "keeps (rows_are R) (cancel_task key)"
  unfolding cancel_task_def by (rule keeps_writes) (simp add: rows_are_def)

lemma delete_checkpoint_wp:
  assumes "w_checkpoints w = R"
  shows "wp (delete_checkpoint_of E c) (\<lambda>_ w. w_checkpoints w = filter (\<lambda>r. ck_id r \<noteq> ck_id c) R)
           (\<lambda>_ w. w_checkpoints w = R) w"
proof -
  have d: "wp (delete_checkpoint (ck_id c)) (\<lambda>_ w. w_checkpoints w = filter (\<lambda>r. ck_id r \<noteq> ck_id c) R)
      (\<lambda>_ w. w_checkpoints w = R) w'" if "rows_are R w'" for w' :: "'a world"
    using that by (simp add: delete_checkpoint_def wp_writes rows_are_def)
  have v: "keeps (rows_are R) (case ck_thin_volume_id c of
              None \<Rightarrow> ret ()
            | Some v \<Rightarrow> hostop (bs_remove (blocks_of E) v (checkpoint_volume_name (ck_id c))))"
    by (cases "ck_thin_volume_id c") (simp_all add: keeps_ret keeps_rows_host)
  have start: "rows_are R w" using assms by (simp add: rows_are_def)
  show ?thesis
    unfolding delete_checkpoint_of_def
    by ((rule wp_seq_keeps [where I = "rows_are R"], rule keeps_rows_cancel v keeps_rows_host,
         (assumption | rule start))+, erule d) (auto simp: rows_are_def)
qed

text \<open>The rows left when those of \<open>S\<close> are gone.\<close>

definition without :: "checkpoint set \<Rightarrow> checkpoint list \<Rightarrow> checkpoint list" where
  "without S rows = filter (\<lambda>c. c \<notin> S) rows"

lemma without_delete:
  assumes "distinct (map ck_id R)" and "c \<in> set R"
  shows "filter (\<lambda>r. ck_id r \<noteq> ck_id c) (without S R) = without (insert c S) R"
proof -
  have "ck_id r \<noteq> ck_id c \<longleftrightarrow> r \<noteq> c" if "r \<in> set R" for r
    using assms that by (auto dest: inj_onD simp: distinct_map)
  then show ?thesis unfolding without_def filter_filter by (intro filter_cong) auto
qed

lemma prune_each_wp:
  assumes d: "distinct (map ck_id R)" and "set cs \<subseteq> set R" and "w_checkpoints w = without S R"
  shows "wp (prune_each E cs n) (\<lambda>_ w'. \<exists>T. T \<subseteq> set cs \<and> w_checkpoints w' = without (S \<union> T) R)
           (\<lambda>_ w'. \<exists>T. T \<subseteq> set cs \<and> w_checkpoints w' = without (S \<union> T) R) w"
  using assms(2,3)
proof (induction cs arbitrary: n S w)
  case Nil
  then show ?case by (auto simp: wp_ret intro!: exI [of _ "{}"])
next
  case (Cons c cs)
  let ?Q = "\<lambda>_ w'. \<exists>T. T \<subseteq> set (c # cs) \<and> w_checkpoints w' = without (S \<union> T) R"
  have rest: "wp (prune_each E cs m) ?Q ?Q w'"
    if "w_checkpoints w' = without (S \<union> U) R" "U \<subseteq> {c}" for m U and w' :: "'a world"
  proof (rule wp_mono)
    show "wp (prune_each E cs m) (\<lambda>_ w'. \<exists>T. T \<subseteq> set cs \<and> w_checkpoints w' = without ((S \<union> U) \<union> T) R)
        (\<lambda>_ w'. \<exists>T. T \<subseteq> set cs \<and> w_checkpoints w' = without ((S \<union> U) \<union> T) R) w'"
      by (rule Cons.IH [OF _ that(1)]) (use Cons.prems(1) in simp)
  next
    have q: "\<exists>T. T \<subseteq> set (c # cs) \<and> w_checkpoints v = without (S \<union> T) R"
      if "\<exists>T. T \<subseteq> set cs \<and> w_checkpoints v = without ((S \<union> U) \<union> T) R" for v :: "'a world"
    proof -
      from that obtain T where "T \<subseteq> set cs" "w_checkpoints v = without (S \<union> (U \<union> T)) R" by (auto simp: Un_assoc)
      then show ?thesis using \<open>U \<subseteq> {c}\<close> by (intro exI [of _ "U \<union> T"]) auto
    qed
    show "\<exists>T. T \<subseteq> set (c # cs) \<and> w_checkpoints v = without (S \<union> T) R"
      if "\<exists>T. T \<subseteq> set cs \<and> w_checkpoints v = without ((S \<union> U) \<union> T) R" for a :: exc and v :: "'a world"
      by (rule q [OF that])
    show "\<exists>T. T \<subseteq> set (c # cs) \<and> w_checkpoints v = without (S \<union> T) R"
      if "\<exists>T. T \<subseteq> set cs \<and> w_checkpoints v = without ((S \<union> U) \<union> T) R" for a :: int and v :: "'a world"
      by (rule q [OF that])
  qed
  have stop: "?Q e w'" if "w_checkpoints w' = without S R" for e :: exc and w' :: "'a world"
    using that by (intro exI [of _ "{}"]) simp
  have del: "filter (\<lambda>r. ck_id r \<noteq> ck_id c) (without S R) = without (S \<union> {c}) R"
    using without_delete [OF d, of c S] Cons.prems(1) by simp
  show ?case
    unfolding prune_each.simps wp_bindE wp_catch_exception wp_seqE
    by (rule wp_mono [OF delete_checkpoint_wp [OF Cons.prems(2)]])
       (use rest [of _ "{c}"] rest [of _ "{}"] stop in \<open>auto simp: wp_ret del cong: if_cong\<close>)
qed

lemma list_prunable_cong:
  assumes "filter (\<lambda>c. ck_account_id c = a) (w_checkpoints w) = filter (\<lambda>c. ck_account_id c = a) (w_checkpoints v)"
  shows "list_prunable_checkpoints a k w = list_prunable_checkpoints a k v"
  using assms by (simp add: list_prunable_checkpoints_def)

definition prunable :: "string set \<Rightarrow> int \<Rightarrow> 'h world \<Rightarrow> checkpoint set" where
  "prunable accounts k w = (\<Union>a\<in>accounts. set (list_prunable_checkpoints a k w))"

definition pruned_to :: "'h world \<Rightarrow> checkpoint set \<Rightarrow> checkpoint set \<Rightarrow> 'h world \<Rightarrow> bool" where
  "pruned_to w0 S P w \<longleftrightarrow> (\<exists>T. T \<subseteq> P \<and> w_checkpoints w = without (S \<union> T) (w_checkpoints w0))"

lemma prune_accounts_wp:
  assumes d: "distinct (map ck_id (w_checkpoints w0))" and "distinct as"
    and "\<And>c. c \<in> S \<Longrightarrow> ck_account_id c \<notin> set as" and "w_checkpoints w = without S (w_checkpoints w0)"
  shows "wp (prune_accounts E as n) (\<lambda>_. pruned_to w0 S (prunable (set as) (cf_checkpoint_retention_count (e_config E)) w0))
           (\<lambda>_. pruned_to w0 S (prunable (set as) (cf_checkpoint_retention_count (e_config E)) w0)) w"
  using assms(2-4)
proof (induction as arbitrary: S w n)
  case Nil
  then show ?case by (auto simp: wp_ret pruned_to_def prunable_def)
next
  case (Cons a as)
  let ?k = "cf_checkpoint_retention_count (e_config E)" and ?R = "w_checkpoints w0"
  let ?Q = "\<lambda>_. pruned_to w0 S (prunable (set (a # as)) ?k w0)"
  let ?cs = "list_prunable_checkpoints a ?k w0"
  have "filter (\<lambda>c. ck_account_id c = a) (without S ?R) = filter (\<lambda>c. ck_account_id c = a) ?R"
    unfolding without_def filter_filter by (rule filter_cong) (use Cons.prems(2) in auto)
  then have same: "list_prunable_checkpoints a ?k w = ?cs"
    using Cons.prems(3) by (intro list_prunable_cong) simp
  have cs: "c \<in> set ?R \<and> ck_account_id c = a" if "c \<in> set ?cs" for c
    using prunable_candidate [OF that] by simp
  have lift: "pruned_to w0 S (prunable (set (a # as)) ?k w0) v"
    if "T \<subseteq> set ?cs" "pruned_to w0 (S \<union> T) (prunable (set as) ?k w0) v" for T and v :: "'a world"
  proof -
    from that(2) obtain U where "U \<subseteq> prunable (set as) ?k w0" "w_checkpoints v = without (S \<union> (T \<union> U)) ?R"
      by (auto simp: pruned_to_def Un_assoc)
    then show ?thesis
      using that(1) unfolding pruned_to_def by (intro exI [of _ "T \<union> U"]) (auto simp: prunable_def)
  qed
  have stop: "pruned_to w0 S (prunable (set (a # as)) ?k w0) v"
    if "\<exists>T. T \<subseteq> set ?cs \<and> w_checkpoints v = without (S \<union> T) ?R" for v :: "'a world"
    using that unfolding pruned_to_def by (auto simp: prunable_def)
  have rest: "wp (prune_accounts E as m) ?Q ?Q v"
    if h: "\<exists>T. T \<subseteq> set ?cs \<and> w_checkpoints v = without (S \<union> T) ?R" for m and v :: "'a world"
  proof -
    from h obtain T where T: "T \<subseteq> set ?cs" "w_checkpoints v = without (S \<union> T) ?R" by blast
    have "ck_account_id c \<notin> set as" if "c \<in> S \<union> T" for c
      using that Cons.prems(1,2) T(1) cs by auto
    with Cons.prems(1) have "wp (prune_accounts E as m) (\<lambda>_. pruned_to w0 (S \<union> T) (prunable (set as) ?k w0))
        (\<lambda>_. pruned_to w0 (S \<union> T) (prunable (set as) ?k w0)) v"
      by (intro Cons.IH [OF _ _ T(2)]) auto
    then show ?thesis by (rule wp_mono) (rule lift [OF T(1)], assumption)+
  qed
  have "set ?cs \<subseteq> set ?R" using cs by blast
  from prune_each_wp [OF d this Cons.prems(3), of E n] show ?case
    unfolding prune_accounts.simps wp_bindE wp_reads same
    by (rule wp_mono) (use rest stop in auto)
qed

lemma filter_order_desc: "order_desc key (filter P rows) = filter P (order_desc key rows)"
  by (simp add: order_desc_def rev_filter [symmetric] filter_sort)

lemma first_row_filter: "first_row xs = Some x \<Longrightarrow> P x \<Longrightarrow> first_row (filter P xs) = Some x"
  by (cases xs) (simp_all add: first_row_def)

lemma prune_run:
  assumes "distinct (map ck_id (w_checkpoints w))"
  shows "pruned_to w {} (prunable (ck_account_id ` set (w_checkpoints w)) (cf_checkpoint_retention_count (e_config E)) w)
           (run_state (prune E) w)"
proof (cases "cf_checkpoint_retention_count (e_config E) \<le> 0")
  case True
  then show ?thesis by (auto simp: prune_def run_state_def ret_def pruned_to_def without_def)
next
  case False
  let ?as = "list_account_ids_with_checkpoints w"
  have "set ?as = ck_account_id ` set (w_checkpoints w)" "distinct ?as"
    by (simp_all add: list_account_ids_with_checkpoints_def)
  with prune_accounts_wp [OF assms, of ?as "{}" w E 0] False show ?thesis
    by (simp add: prune_def wp_outcome without_def split: sum.splits) (simp add: run_state_def outcome_def bindE_def reads_def)
qed

definition head_of_label :: "string \<Rightarrow> string \<Rightarrow> 'h world \<Rightarrow> checkpoint option" where
  "head_of_label a l w = first_row (list_checkpoints_by_account a (Some l) w)"

lemma head_is_newest:
  "head_of_label a l w = newest_of_label (filter (\<lambda>c. ck_account_id c = a) (w_checkpoints w)) (Some l)"
  by (simp add: head_of_label_def list_checkpoints_by_account_def newest_of_label_def conj_commute)

section \<open>Properties of prune\<close>

text \<open>C9: a prune deletes rows and nothing else, never a pinned checkpoint, never the newest one of a
  label, never one of the newest \<open>retention\<close> candidates of its account; so whatever the machine does,
  and however many deletions fail, every label still resolves to the same checkpoint.\<close>

theorem prune_keeps_heads:
  assumes "distinct (map ck_id (w_checkpoints w))"
  shows "set (w_checkpoints (run_state (prune E) w)) \<subseteq> set (w_checkpoints w) \<and>
         (\<forall>c\<in>set (w_checkpoints w). ck_pinned c \<or>
             c \<notin> set (list_prunable_checkpoints (ck_account_id c) (cf_checkpoint_retention_count (e_config E)) w) \<longrightarrow>
             c \<in> set (w_checkpoints (run_state (prune E) w))) \<and>
         (\<forall>a l. head_of_label a l (run_state (prune E) w) = head_of_label a l w)"
proof -
  let ?w = "run_state (prune E) w" and ?k = "cf_checkpoint_retention_count (e_config E)"
  obtain T where T: "T \<subseteq> prunable (ck_account_id ` set (w_checkpoints w)) ?k w"
    and R: "w_checkpoints ?w = without T (w_checkpoints w)"
    using prune_run [OF assms, of E] by (auto simp: pruned_to_def)
  have cand: "c \<in> set (list_prunable_checkpoints (ck_account_id c) ?k w) \<and> \<not> ck_pinned c \<and>
      (\<forall>l. ck_label c = Some l \<longrightarrow> head_of_label (ck_account_id c) l w \<noteq> Some c)" if "c \<in> T" for c
  proof -
    from that T obtain a where "c \<in> set (list_prunable_checkpoints a ?k w)" by (auto simp: prunable_def)
    from prunable_candidate [OF this] this show ?thesis by (auto simp: head_is_newest)
  qed
  have "head_of_label a l ?w = head_of_label a l w" for a l
  proof -
    let ?F = "\<lambda>c. ck_account_id c = a \<and> ck_label c = Some l"
    have after: "list_checkpoints_by_account a (Some l) ?w = filter (\<lambda>c. c \<notin> T) (list_checkpoints_by_account a (Some l) w)"
      unfolding list_checkpoints_by_account_def R without_def
      by (simp add: filter_order_desc filter_filter conj_commute)
    show ?thesis
    proof (cases "head_of_label a l w")
      case None
      then show ?thesis by (simp add: head_of_label_def after)
    next
      case (Some c)
      then have "c \<in> set (list_checkpoints_by_account a (Some l) w)"
        unfolding head_of_label_def first_row_def by (auto split: list.splits)
      then have "ck_account_id c = a" "ck_label c = Some l" by (simp_all add: list_checkpoints_by_account_def)
      then have "c \<notin> T" using cand [of c] Some by auto
      then show ?thesis using Some unfolding head_of_label_def after by (simp add: first_row_filter)
    qed
  qed
  moreover have "c \<in> set (w_checkpoints ?w)"
    if "c \<in> set (w_checkpoints w)" "ck_pinned c \<or> c \<notin> set (list_prunable_checkpoints (ck_account_id c) ?k w)" for c
    using that cand [of c] by (auto simp: R without_def)
  ultimately show ?thesis by (auto simp: R without_def)
qed

definition pruned_world :: "fake world" where
  "pruned_world = new_world\<lparr>w_checkpoints :=
     map (\<lambda>(i, t). demo_checkpoint\<lparr>ck_id := i, ck_label := Some ''main'', ck_created_at := t\<rparr>)
       [(''ckpt-1'', ''1''), (''ckpt-2'', ''2''), (''ckpt-3'', ''3'')]\<rparr>"

lemma prune_keeps_heads_witness:
  "head_of_label ''acct-1'' ''main'' (run_state (prune fake_env) pruned_world) = head_of_label ''acct-1'' ''main'' pruned_world"
proof -
  have "distinct (map ck_id (w_checkpoints pruned_world))" by (simp add: pruned_world_def)
  from prune_keeps_heads [OF this, of fake_env] show ?thesis by blast
qed

section \<open>Create adds one row or none\<close>

definition tables :: "checkpoint list \<Rightarrow> computer list \<Rightarrow> background \<Rightarrow> allocator \<Rightarrow> 'h world \<Rightarrow> bool" where
  "tables R C B A w \<longleftrightarrow> w_checkpoints w = R \<and> w_computers w = C \<and> w_tasks w = B \<and> w_alloc w = A"

lemma ignores_tables [simp]: "ignores_host (tables R C B A)"
  by (simp add: ignores_host_def tables_def)

lemmas keeps_tables_host = keeps_host_steps [OF ignores_tables]

lemma keeps_staging_free: "keeps (tables R C B A) (staging_free_bytes E p)"
  unfolding staging_free_bytes_def by (intro keeps_intros keeps_tables_host)

lemma keeps_snapshot_memory: "keeps (tables R C B A) (snapshot_memory E c i staged)"
  unfolding snapshot_memory_def by (intro keeps_intros keeps_tables_host)

text \<open>An invariant step followed by the rest.\<close>

lemma wp_bind_inv:
  assumes "keeps I m" and "I w" and "\<And>a w. I w \<Longrightarrow> wp (f a) Q R w" and "\<And>e w. I w \<Longrightarrow> R e w"
  shows "wp m (\<lambda>a. wp (f a) Q R) R w"
  using wp_bind_keeps [OF assms] unfolding wp_bindE .

definition row_added ::
  "computer \<Rightarrow> string option \<Rightarrow> bool \<Rightarrow> 'h world \<Rightarrow> checkpoint \<Rightarrow> 'h world \<Rightarrow> bool" where
  "row_added c label pin w ckpt w' \<longleftrightarrow>
     w_checkpoints w' = w_checkpoints w @ [ckpt] \<and> w_computers w' = w_computers w \<and>
     ck_id ckpt \<notin> ck_id ` set (w_checkpoints w) \<and>
     ck_account_id ckpt = c_account_id c \<and> ck_computer_id ckpt = Some (c_id c) \<and>
     ck_label ckpt = label \<and> ck_pinned ckpt = pin \<and> ck_recipe_id ckpt = c_recipe_id c \<and>
     ck_thin_volume_id ckpt = Some (sa_next_volume_id (w_alloc w)) \<and>
     sa_next_volume_id (w_alloc w') = sa_next_volume_id (w_alloc w) + 1 \<and>
     ck_parent_id ckpt = (case get_latest_checkpoint_for_computer (c_id c) w of
                            Some l \<Rightarrow> Some (ck_id l) | None \<Rightarrow> c_source_checkpoint_id c)"

lemma snap_disk_wp:
  assumes "tables R C B A w"
  shows "wp (snap_disk E v n)
     (\<lambda>r w'. r = sa_next_volume_id A \<and> tables R C B (A\<lparr>sa_next_volume_id := sa_next_volume_id A + 1\<rparr>) w')
     (\<lambda>_ w'. \<exists>A'. tables R C B A' w') w"
proof -
  let ?A = "A\<lparr>sa_next_volume_id := sa_next_volume_id A + 1\<rparr>"
  have "wp (seqE (hostop (bs_snap (blocks_of E) v r)) (seqE (hostop (bs_activate (blocks_of E) r n)) (ret r)))
     (\<lambda>r' w'. r' = r \<and> tables R C B ?A w') (\<lambda>_ w'. \<exists>A'. tables R C B A' w') u"
    if "tables R C B ?A u" for r and u :: "'a world"
    by (rule wp_seq_keeps [where I = "tables R C B ?A"], rule keeps_tables_host, rule that,
        rule wp_seq_keeps [where I = "tables R C B ?A"], rule keeps_tables_host, assumption)
       (auto simp: wp_ret)
  moreover have "tables R C B ?A (w\<lparr>w_alloc := ?A\<rparr>)" using assms by (simp add: tables_def)
  moreover have "w_alloc w = A" using assms by (simp add: tables_def)
  ultimately show ?thesis
    by (simp add: snap_disk_def acquire_volume_id_def take_volume_id_def wp_bindE wp_allocop wp_reads wp_seqE wp_writes wp_ret)
qed

definition no_row_added :: "'h world \<Rightarrow> 'h world \<Rightarrow> bool" where
  "no_row_added w w' \<longleftrightarrow>
     w_checkpoints w' = w_checkpoints w \<and> w_computers w' = w_computers w \<and> w_tasks w' = w_tasks w"

lemma no_row_tables:
  "tables (w_checkpoints w) (w_computers w) (w_tasks w) A w' \<Longrightarrow> no_row_added w w'"
  by (simp add: tables_def no_row_added_def)

lemma no_row_metrics [simp]: "no_row_added w (w'\<lparr>w_metrics := x\<rparr>) = no_row_added w w'"
  by (simp add: no_row_added_def)

lemma create_row_wp:
  assumes t: "tables (w_checkpoints w0) (w_computers w0) (w_tasks w0) (w_alloc w0) w"
  shows "wp (bindE (hostop (gu_exec (guest_of E) (c_vm_ip c) ''sync'' 10)) (\<lambda>_.
        bindE (snapshot_memory E c checkpoint_id staged) (\<lambda>staged.
        bindE (snap_disk E (c_thin_volume_id c) (checkpoint_volume_name checkpoint_id)) (\<lambda>volume_id.
        bindE (reads (get_latest_checkpoint_for_computer (c_id c))) (\<lambda>latest.
        let parent_id = (case latest of Some l \<Rightarrow> Some (ck_id l) | None \<Rightarrow> c_source_checkpoint_id c) in
        bindE (utcnow E) (\<lambda>now.
        let ckpt = new_checkpoint checkpoint_id c parent_id volume_id label pin now in
        seqE (insert_checkpoint ckpt) (ret (ckpt, staged))))))))
     (\<lambda>(ckpt, staged) w'. row_added c label pin w0 ckpt w' \<and> w_tasks w' = w_tasks w0 \<and> ck_id ckpt = checkpoint_id)
     (\<lambda>_. no_row_added w0) w"
proof -
  let ?T = "tables (w_checkpoints w0) (w_computers w0) (w_tasks w0)"
  let ?A = "(w_alloc w0)\<lparr>sa_next_volume_id := sa_next_volume_id (w_alloc w0) + 1\<rparr>"
  let ?Q = "\<lambda>(ckpt, staged :: bool) w'. row_added c label pin w0 ckpt w' \<and> w_tasks w' = w_tasks w0 \<and> ck_id ckpt = checkpoint_id"
  have no: "?T A w \<Longrightarrow> no_row_added w0 w" for A and w :: "'a world" by (rule no_row_tables)
  have ins: "wp (let ckpt = new_checkpoint checkpoint_id c parent_id (sa_next_volume_id (w_alloc w0)) label pin now in
        seqE (insert_checkpoint ckpt) (ret (ckpt, staged))) ?Q (\<lambda>_. no_row_added w0) u"
    if "?T ?A u" and "parent_id = (case get_latest_checkpoint_for_computer (c_id c) w0 of
                            Some l \<Rightarrow> Some (ck_id l) | None \<Rightarrow> c_source_checkpoint_id c)"
    for u :: "'a world" and parent_id now staged
    using that by (auto simp: Let_def insert_checkpoint_def wp_seqE wp_insert_row wp_ret row_added_def tables_def
        new_checkpoint_def no_row_added_def list_ex_iff)
  have tail: "wp (bindE (reads (get_latest_checkpoint_for_computer (c_id c))) (\<lambda>latest.
        let parent_id = (case latest of Some l \<Rightarrow> Some (ck_id l) | None \<Rightarrow> c_source_checkpoint_id c) in
        bindE (utcnow E) (\<lambda>now.
        let ckpt = new_checkpoint checkpoint_id c parent_id (sa_next_volume_id (w_alloc w0)) label pin now in
        seqE (insert_checkpoint ckpt) (ret (ckpt, staged))))) ?Q (\<lambda>_. no_row_added w0) u"
    if u: "?T ?A u" for u :: "'a world" and staged
  proof -
    have "get_latest_checkpoint_for_computer (c_id c) u = get_latest_checkpoint_for_computer (c_id c) w0"
      using u by (simp add: tables_def get_latest_checkpoint_for_computer_def)
    then show ?thesis
      unfolding wp_bindE [of "reads g" for g] wp_reads Let_def [of "case _ of _ \<Rightarrow> _"]
      by (intro wp_bind_keeps [where I = "?T ?A"] keeps_tables_host u)
         (use ins no in \<open>auto simp: Let_def\<close>)
  qed
  have snap: "wp (bindE (snap_disk E (c_thin_volume_id c) (checkpoint_volume_name checkpoint_id)) (\<lambda>volume_id.
        bindE (reads (get_latest_checkpoint_for_computer (c_id c))) (\<lambda>latest.
        let parent_id = (case latest of Some l \<Rightarrow> Some (ck_id l) | None \<Rightarrow> c_source_checkpoint_id c) in
        bindE (utcnow E) (\<lambda>now.
        let ckpt = new_checkpoint checkpoint_id c parent_id volume_id label pin now in
        seqE (insert_checkpoint ckpt) (ret (ckpt, staged)))))) ?Q (\<lambda>_. no_row_added w0) u"
    if u: "?T (w_alloc w0) u" for u :: "'a world" and staged
    unfolding wp_bindE [of "snap_disk E v n" for v n]
    by (rule wp_mono [OF snap_disk_wp [OF u]]) (use tail no in blast)+
  show ?thesis
    by (rule wp_bind_keeps [where I = "?T (w_alloc w0)"], rule keeps_tables_host, rule t,
        rule wp_bind_keeps [where I = "?T (w_alloc w0)"], rule keeps_snapshot_memory, assumption, erule snap)
       (use no in blast)+
qed

definition upload_spawned :: "'h world \<Rightarrow> checkpoint \<Rightarrow> 'h world \<Rightarrow> bool" where
  "upload_spawned w ckpt w' \<longleftrightarrow>
     (\<exists>staged. w_tasks w' = bg_spawn (TPersistAndUpload (ck_id ckpt) (ck_r2_prefix ckpt) staged)
        (upload_task_key (ck_id ckpt)) (Some (upload_task_key (ck_id ckpt))) (w_tasks w))"

lemma create_checkpoint_wp:
  "wp (create_checkpoint E c label pin trigger)
     (\<lambda>ckpt w'. row_added c label pin w ckpt w' \<and> upload_spawned w ckpt w') (\<lambda>_. no_row_added w) w"
proof -
  let ?T = "tables (w_checkpoints w) (w_computers w) (w_tasks w) (w_alloc w)"
  have t: "?T w" by (simp add: tables_def)
  have m: "row_added c label pin w ckpt (v\<lparr>w_metrics := x\<rparr>) = row_added c label pin w ckpt v"
    "row_added c label pin w ckpt (v\<lparr>w_tasks := y\<rparr>) = row_added c label pin w ckpt v" for ckpt x y and v :: "'a world"
    by (simp_all add: row_added_def)
  show ?thesis
    unfolding create_checkpoint_def Let_def [of "''ckpt-'' @ _"]
    by (rule wp_bind_keeps [where I = ?T], rule keeps_tables_host, rule t,
        rule wp_bind_keeps [where I = ?T], rule keeps_staging_free, assumption,
        unfold wp_bindE [of "timed n m" for n m] wp_timed, rule wp_mono [OF create_row_wp], assumption)
       (auto simp: wp_simps inc_metric_def spawn_def m upload_spawned_def no_row_tables split: option.splits prod.splits)
qed

section \<open>What a bring-up leaves alone\<close>

text \<open>A part of the state that bringing up a computer has no business with: a predicate that survives
  every write a bring-up does. Whatever the part is, forking keeps it.\<close>

locale bystander =
  fixes I :: "'h world \<Rightarrow> bool"
  assumes host: "ignores_host I"
    and of_computers: "I w \<Longrightarrow> I (w_computers_update f w)"
    and of_alloc: "I w \<Longrightarrow> I (w\<lparr>w_alloc := a\<rparr>)"
    and of_gauge: "I w \<Longrightarrow> I (w\<lparr>w_gauge := n\<rparr>)"
    and of_metrics: "I w \<Longrightarrow> I (w\<lparr>w_metrics := m\<rparr>)"
begin

lemmas host_steps = keeps_host_steps [OF host]

lemma alloc_step: "keeps I (allocop f)"
  by (auto simp: keeps_def allocop_def of_alloc split: prod.splits)

lemma gauge_step: "keeps I refresh_active_gauge"
  unfolding refresh_active_gauge_def by (rule keeps_writes) (rule of_gauge)

lemma metric_step: "keeps I (inc_metric name l)"
  unfolding inc_metric_def by (rule keeps_writes) (rule of_metrics)

lemma timed_step: "keeps I m \<Longrightarrow> keeps I (timed op m)"
  by (rule keeps_timed) (rule of_metrics)

lemma insert_step: "keeps I (insert_computer c)"
  by (auto simp: keeps_def insert_computer_def insert_row_def of_computers)

lemma status_step: "keeps I (update_computer_status i s)"
  unfolding update_computer_status_def by (rule keeps_writes) (rule of_computers)

lemma cleanup_step_keeps: "keeps I m \<Longrightarrow> keeps I (cleanup_step what m cp)"
  unfolding cleanup_step_def best_effort_def by (intro keeps_intros)

lemma cleanup_steps_keeps: "(\<And>what m. (what, m) \<in> set ss \<Longrightarrow> keeps I m) \<Longrightarrow> keeps I (cleanup_steps ss cp)"
proof (induction ss arbitrary: cp)
  case (Cons a ss)
  obtain what m where a: "a = (what, m)" by (cases a)
  have "keeps I (cleanup_step what m cp)" using Cons.prems a by (intro cleanup_step_keeps) auto
  then show ?case unfolding a cleanup_steps.simps by (rule keeps_bindE) (use Cons in auto)
qed (simp add: keeps_ret)

lemma finish_step: "keeps I (finish_pass cp)"
  unfolding finish_pass_def by (cases "cp_interrupted cp") (simp_all add: keeps_ret keeps_raise)

lemma release_step: "keeps I (release s)"
  unfolding release_def by (rule alloc_step)

lemma mark_step: "keeps I (mark_destroyed i)"
  unfolding mark_destroyed_def by (intro keeps_intros status_step)

lemma abandon_keeps: "keeps I (abandon E i s v n vm)"
  unfolding abandon_def
  by (intro keeps_bindE keeps_ret cleanup_steps_keeps cleanup_step_keeps finish_step release_step mark_step gauge_step)
     (auto simp: host_steps split: option.splits)

lemma snapshot_files_keeps: "keeps I (snapshot_files_for E c)"
  unfolding snapshot_files_for_def Let_def by (intro keeps_intros host_steps)

lemma restore_keeps: "keeps I files_for \<Longrightarrow> keeps I (restore_vm E s v n files files_for)"
  unfolding restore_vm_def by (intro keeps_intros host_steps)

lemma bring_up_steps_keeps:
  "keeps I files_for \<Longrightarrow> keeps (\<lambda>(w, l). I w) (bring_up_steps E account i s v r ck res files_for key)"
  unfolding bring_up_steps_def Let_def
  by (intro keeps_bindE keeps_seqE keeps_lifted keeps_assign keeps_ret keeps_option timed_step restore_keeps
      keeps_gather2 insert_step host_steps)

lemma bring_up_keeps: "keeps I files_for \<Longrightarrow> keeps I (bring_up E account v r ck res files_for key)"
  unfolding bring_up_def Let_def
  by (intro keeps_bindE keeps_seqE keeps_prod keeps_with_locals keeps_catchE keeps_raise keeps_ret keeps_local keeps_lifted
      host_steps alloc_step release_step gauge_step bring_up_steps_keeps abandon_keeps)

lemma fork_keeps: "keeps I (fork_computer E account c r key)"
  unfolding fork_computer_def
  by (intro keeps_bindE keeps_seqE keeps_option keeps_ret keeps_raise_domain timed_step metric_step bring_up_keeps
      snapshot_files_keeps)

end

interpretation rows: bystander "rows_are R" for R
  by unfold_locales (simp_all add: rows_are_def ignores_host_def)

definition queue_is :: "deferred_request list \<Rightarrow> 'h world \<Rightarrow> bool" where
  "queue_is Q w \<longleftrightarrow> w_deferred w = Q"

interpretation queue: bystander "queue_is Q" for Q
  by unfold_locales (simp_all add: queue_is_def ignores_host_def)

lemma steps_source:
  "returns (\<lambda>c. c_source_checkpoint_id c = map_option ck_id src) (bring_up_steps E account i s v r src res files_for key)"
  unfolding bring_up_steps_def Let_def
  by (intro returns_bind returns_seq returns_ret) (simp add: new_computer_def)

lemma bring_up_source:
  "returns (\<lambda>c. c_source_checkpoint_id c = map_option ck_id src) (bring_up E account v r src res files_for key)"
  unfolding bring_up_def Let_def case_prod_unfold
  by (rule returns_bind, rule returns_bind, rule returns_seq,
      rule returns_bind_of [OF returns_locals [OF returns_catch [OF steps_source]]])
     (intro returns_bind returns_seq returns_ret returns_raise, assumption?)+

lemma fork_source: "returns (\<lambda>c. c_source_checkpoint_id c = Some (ck_id ck)) (fork_computer E account ck r key)"
proof -
  have "returns (\<lambda>c. c_source_checkpoint_id c = Some (ck_id ck))
     (case ck_thin_volume_id ck of
          None \<Rightarrow> raise_domain Conflict (''Checkpoint '' @ ck_id ck @ '' has no disk snapshot'')
        | Some v \<Rightarrow> bring_up E account v (case r of Some r \<Rightarrow> Some r | None \<Rightarrow> ck_recipe_id ck)
              (Some ck) default_resources (snapshot_files_for E ck) key)"
    using bring_up_source [of "Some ck"] by (auto split: option.splits simp: raise_domain_def returns_raise)
  then show ?thesis
    unfolding fork_computer_def by (intro returns_bind_of [OF returns_timed] returns_seq returns_ret)
qed

section \<open>A chain has one computer\<close>

definition runs_label :: "string \<Rightarrow> string \<Rightarrow> 'h world \<Rightarrow> computer \<Rightarrow> bool" where
  "runs_label account_id label w c \<longleftrightarrow>
     c_account_id c = account_id \<and> c_status c = Running \<and>
     list_ex (\<lambda>ck. c_source_checkpoint_id c = Some (ck_id ck) \<and> ck_label ck = Some label) (w_checkpoints w)"

definition chain_computers :: "string \<Rightarrow> string \<Rightarrow> 'h world \<Rightarrow> computer list" where
  "chain_computers account_id label w = filter (runs_label account_id label w) (w_computers w)"

lemma active_for_label: "get_active_computer_for_label a l w = None \<longleftrightarrow> chain_computers a l w = []"
  by (auto simp: get_active_computer_for_label_def chain_computers_def runs_label_def find_None_iff filter_empty_conv)

lemma chain_of_active:
  fixes w v :: "'h world"
  assumes "w_checkpoints w = w_checkpoints v" and "active (w_computers w) = active (w_computers v)"
  shows "chain_computers a l w = chain_computers a l v"
proof -
  have c: "chain_computers a l u = filter (runs_label a l u) (active (w_computers u))" for u :: "'h world"
    unfolding chain_computers_def active_def filter_filter by (rule filter_cong) (auto simp: runs_label_def)
  have "runs_label a l w = runs_label a l v" using assms(1) by (simp add: runs_label_def fun_eq_iff)
  then show ?thesis unfolding c [of w] c [of v] assms(2) by simp
qed

lemma label_of_Some: "label_of c = Some l \<longleftrightarrow> ck_label c = Some l \<and> l \<noteq> []"
  by (auto simp: label_of_def split: option.splits)

lemma keeps_run: "keeps I m \<Longrightarrow> I w \<Longrightarrow> I (run_state m w)"
  by (rule keepsD)

lemma fork_chain:
  fixes r key :: "string option"
  assumes "alloc_inv (w_alloc w)" and "pop_ok (e_pop E)" and "fresh_id E w"
    and "c \<in> set (w_checkpoints w)" and "ck_label c = Some l" and "chain_computers (a_id account) l w = []"
  defines "w' \<equiv> run_state (fork_computer E account c r key) w"
  shows "case outcome (fork_computer E account c r key) w of
           Inr k \<Rightarrow> chain_computers (a_id account) l w' = [k]
         | Inl e \<Rightarrow> chain_computers (a_id account) l w' = []"
proof -
  have ck: "w_checkpoints w' = w_checkpoints w"
    using keeps_run [OF rows.fork_keeps, of "w_checkpoints w" w] by (simp add: rows_are_def w'_def)
  show ?thesis
  proof (cases "outcome (fork_computer E account c r key) w")
    case (Inl e)
    then have "active (w_computers w') = active (w_computers w)"
      using fork_computer_wp [OF assms(1-3), of account c r key] by (simp add: wp_outcome left_alone_def w'_def)
    then show ?thesis using Inl chain_of_active [OF ck] assms(6) by simp
  next
    case (Inr k)
    then have up: "w_computers w' = w_computers w @ [k]" "c_status k = Running" "c_account_id k = a_id account"
      using fork_computer_wp [OF assms(1-3), of account c r key] by (simp_all add: wp_outcome came_up_def w'_def)
    have "c_source_checkpoint_id k = Some (ck_id c)" by (rule returns_outcome [OF fork_source Inr])
    then have "runs_label (a_id account) l w' k"
      using up assms(4,5) ck by (auto simp: runs_label_def list_ex_iff)
    moreover have "runs_label (a_id account) l w' = runs_label (a_id account) l w"
      using ck by (simp add: runs_label_def fun_eq_iff)
    ultimately show ?thesis using Inr up(1) assms(6) by (simp add: chain_computers_def)
  qed
qed

section \<open>Properties of create and admission\<close>

text \<open>Creating a checkpoint either adds exactly one row, whose parent is the computer's latest
  checkpoint (its source when it has none), whose volume is a fresh one, and whose upload task is
  running; or raises and adds no row and no task, whatever the machine did.\<close>

lemma create_checkpoint_adds_one:
  "case outcome (create_checkpoint E c label pin trigger) w of
     Inr ckpt \<Rightarrow> row_added c label pin w ckpt (run_state (create_checkpoint E c label pin trigger) w) \<and>
                 upload_spawned w ckpt (run_state (create_checkpoint E c label pin trigger) w)
   | Inl e \<Rightarrow> no_row_added w (run_state (create_checkpoint E c label pin trigger) w)"
  using create_checkpoint_wp [where w = w] by (simp add: wp_outcome split: sum.splits)

text \<open>C10: admission of a fork to a labelled chain under an exclusive mode. While a computer of the chain
  runs, \<open>error_on_conflict\<close> refuses and changes nothing and \<open>defer_on_conflict\<close> starts no computer
  and at most queues one request of that label and account; otherwise the fork goes ahead. So a
  chain that has at most one running computer has at most one afterwards, and the one admitted is
  the chain's active computer.\<close>

theorem exclusive_admission:
  assumes "alloc_inv (w_alloc w)" and "pop_ok (e_pop E)" and "fresh_id E w"
    and "c \<in> set (w_checkpoints w)" and "label_of c = Some l"
    and "length (chain_computers (a_id account) l w) \<le> 1"
  shows "length (chain_computers (a_id account) l (run_state (admit E account c spec r (Some mode) key) w)) \<le> 1 \<and>
    (case outcome (admit E account c spec r (Some mode) key) w of
       Inr (Forked k) \<Rightarrow>
         chain_computers (a_id account) l w = [] \<and>
         chain_computers (a_id account) l (run_state (admit E account c spec r (Some mode) key) w) = [k]
     | Inr (Deferred i) \<Rightarrow>
         mode = DeferOnConflict \<and> chain_computers (a_id account) l w \<noteq> [] \<and>
         (\<exists>q. w_deferred (run_state (admit E account c spec r (Some mode) key) w) = w_deferred w @ [q] \<and>
              d_id q = i \<and> d_label q = l \<and> d_account_id q = a_id account)
     | Inl e \<Rightarrow>
         chain_computers (a_id account) l (run_state (admit E account c spec r (Some mode) key) w) =
         chain_computers (a_id account) l w \<and>
         w_deferred (run_state (admit E account c spec r (Some mode) key) w) = w_deferred w)"
proof -
  have lab: "ck_label c = Some l" using assms(5) by (simp add: label_of_Some)
  show ?thesis
  proof (cases "chain_computers (a_id account) l w = []")
    case True
    then have "get_active_computer_for_label (a_id account) l w = None" by (simp only: active_for_label)
    then have a: "admit E account c spec r (Some mode) key w = fork_admitted E account c r key w"
      by (simp add: admit_def assms(5))
    have q: "w_deferred (run_state (fork_computer E account c r key) w) = w_deferred w"
      using keeps_run [OF queue.fork_keeps, of "w_deferred w" w] by (simp add: queue_is_def)
    have f: "outcome (fork_admitted E account c r key) w =
        (case outcome (fork_computer E account c r key) w of Inl e \<Rightarrow> Inl e | Inr k \<Rightarrow> Inr (Forked k))"
      "run_state (fork_admitted E account c r key) w = run_state (fork_computer E account c r key) w"
      by (auto simp: fork_admitted_def outcome_def run_state_def bindE_def ret_def split: prod.splits sum.splits)
    have o: "outcome (admit E account c spec r (Some mode) key) w = outcome (fork_admitted E account c r key) w"
      "run_state (admit E account c spec r (Some mode) key) w = run_state (fork_computer E account c r key) w"
      using a f(2) by (simp_all add: outcome_def run_state_def)
    show ?thesis
      using fork_chain [OF assms(1-4) lab True, of r key] q True unfolding o f by (auto split: sum.splits)
  next
    case False
    then have act: "get_active_computer_for_label (a_id account) l w \<noteq> None" by (simp add: active_for_label)
    show ?thesis
    proof (cases mode)
      case ErrorOnConflict
      then have "admit E account c spec r (Some mode) key w =
          (Inl (MshknError Conflict ''Checkpoint chain has active computer'' None), w)"
        using act by (simp add: admit_def assms(5) raise_domain_def raise_def)
      then show ?thesis using assms(6) by (simp add: outcome_def run_state_def)
    next
      case DeferOnConflict
      then have a: "admit E account c spec r (Some mode) key w = defer_request E account c l spec r w"
        using act by (simp add: admit_def assms(5))
      have "wp (defer_request E account c l spec r)
          (\<lambda>d w'. w_computers w' = w_computers w \<and> w_checkpoints w' = w_checkpoints w \<and>
             (\<exists>i q. d = Deferred i \<and> w_deferred w' = w_deferred w @ [q] \<and> d_id q = i \<and> d_label q = l \<and>
                   d_account_id q = a_id account))
          (\<lambda>_ w'. w_computers w' = w_computers w \<and> w_checkpoints w' = w_checkpoints w \<and> w_deferred w' = w_deferred w) w"
        unfolding defer_request_def uuid4_hex_def utcnow_def Let_def wp_bindE wp_hostop wp_seqE insert_deferred_def
          wp_insert_row wp_ret
        by (auto simp: wp_def split: prod.splits)
      then have d: "case outcome (admit E account c spec r (Some mode) key) w of
          Inl e \<Rightarrow> w_computers (run_state (admit E account c spec r (Some mode) key) w) = w_computers w \<and>
             w_checkpoints (run_state (admit E account c spec r (Some mode) key) w) = w_checkpoints w \<and>
             w_deferred (run_state (admit E account c spec r (Some mode) key) w) = w_deferred w
        | Inr d \<Rightarrow> w_computers (run_state (admit E account c spec r (Some mode) key) w) = w_computers w \<and>
             w_checkpoints (run_state (admit E account c spec r (Some mode) key) w) = w_checkpoints w \<and>
             (\<exists>i q. d = Deferred i \<and> w_deferred (run_state (admit E account c spec r (Some mode) key) w) = w_deferred w @ [q] \<and>
                   d_id q = i \<and> d_label q = l \<and> d_account_id q = a_id account)"
        using a by (simp add: wp_outcome outcome_def run_state_def split: sum.splits)
      have "chain_computers (a_id account) l (run_state (admit E account c spec r (Some mode) key) w) =
          chain_computers (a_id account) l w"
        by (rule chain_of_active) (use d in \<open>auto split: sum.splits\<close>)
      then show ?thesis using d DeferOnConflict False assms(6) by (auto split: sum.splits)
    qed
  qed
qed

definition main_head :: checkpoint where
  "main_head = demo_checkpoint\<lparr>ck_id := ''ckpt-3'', ck_label := Some ''main'', ck_created_at := ''3''\<rparr>"

definition demo_spec :: exec_spec where
  "demo_spec = \<lparr>es_command = None, es_self_destruct = False, es_callback_url = None, es_label = None, es_meta_exec = None\<rparr>"

lemma main_head_mem: "main_head \<in> set (w_checkpoints pruned_world)"
  by (simp add: pruned_world_def main_head_def)

lemma pruned_world_ready: "alloc_inv (w_alloc pruned_world)" "pop_ok (e_pop fake_env)" "fresh_id fake_env pruned_world"
  by (simp_all add: pruned_world_def new_world_def fake_env_def pop_ok_Min fresh_id_def)

lemma exclusive_admission_witness:
  "length (chain_computers ''acct-1'' ''main''
     (run_state (admit fake_env demo_account main_head demo_spec None (Some ErrorOnConflict) None) pruned_world)) \<le> 1"
proof -
  have "label_of main_head = Some ''main''" by (simp add: main_head_def label_of_def)
  moreover have "length (chain_computers (a_id demo_account) ''main'' pruned_world) \<le> 1"
    by (simp add: chain_computers_def pruned_world_def new_world_def)
  ultimately show ?thesis
    using exclusive_admission [OF pruned_world_ready main_head_mem, of "''main''" demo_account demo_spec None ErrorOnConflict None]
    by (simp add: demo_account_def)
qed

text \<open>Forking by label forks the newest checkpoint of the account that carries the label, and
  fails without a trace exactly when there is none.\<close>

lemma fork_by_label_newest:
  "(case head_of_label (a_id account) l w of
      None \<Rightarrow>
        (\<forall>q\<in>set (w_checkpoints w). \<not> (ck_account_id q = a_id account \<and> ck_label q = Some l)) \<and>
        fork_by_label E account l spec exclusive r key w =
          (Inl (MshknError NotFound (''No checkpoint with label '' @ [squote] @ l @ [squote]) None), w)
    | Some c \<Rightarrow>
        c \<in> set (w_checkpoints w) \<and> ck_account_id c = a_id account \<and> ck_label c = Some l \<and>
        (\<forall>q\<in>set (w_checkpoints w). ck_account_id q = a_id account \<and> ck_label q = Some l \<longrightarrow>
           ck_created_at q \<le> ck_created_at c) \<and>
        fork_by_label E account l spec exclusive r key w =
          bindE (admit E account c spec r exclusive key) (\<lambda>k. ret (c, k)) w)"
proof -
  let ?rows = "filter (\<lambda>c. ck_account_id c = a_id account \<and> ck_label c = Some l) (w_checkpoints w)"
  have head: "head_of_label (a_id account) l w = first_row (order_desc ck_created_at ?rows)"
    by (simp add: head_of_label_def list_checkpoints_by_account_def)
  have run: "fork_by_label E account l spec exclusive r key w =
      (case head_of_label (a_id account) l w of
         None \<Rightarrow> raise_domain NotFound (''No checkpoint with label '' @ [squote] @ l @ [squote])
       | Some c \<Rightarrow> bindE (admit E account c spec r exclusive key) (\<lambda>k. ret (c, k))) w"
  proof -
    have "latest_for_label account l w = (Inr (head_of_label (a_id account) l w), w)"
      by (simp add: latest_for_label_def head_of_label_def first_row_def ret_def)
    then show ?thesis unfolding fork_by_label_def by (rule bindE_run)
  qed
  show ?thesis
  proof (cases "head_of_label (a_id account) l w")
    case None
    then have "?rows = []" unfolding head by simp
    then show ?thesis using None run by (auto simp: filter_empty_conv raise_domain_def raise_def)
  next
    case (Some c)
    note first_order_desc_greatest [OF Some [unfolded head]]
    then show ?thesis using Some run by auto
  qed
qed

lemma fork_by_label_newest_witness:
  "fork_by_label fake_env demo_account ''main'' demo_spec None None None pruned_world =
     bindE (admit fake_env demo_account main_head demo_spec None None None) (\<lambda>k. ret (main_head, k)) pruned_world"
proof -
  have "head_of_label ''acct-1'' ''main'' pruned_world = Some main_head"
    by code_simp
  then show ?thesis
    using fork_by_label_newest [where account = demo_account and l = "''main''" and w = pruned_world and E = fake_env and
        spec = demo_spec and exclusive = None and r = None and key = None]
    by (simp add: demo_account_def)
qed

section \<open>A persisted snapshot is the staged one\<close>

definition regular :: "fs \<Rightarrow> path \<Rightarrow> node option" where
  "regular f p = (case fs_lookup f p of Some (NFile t) \<Rightarrow> Some (NFile t) | _ \<Rightarrow> None)"

lemma make_new_dir_run:
  assumes "wf_fs f" and "fresh_dir f d"
  shows "make_new_dir d f = (Inr (), fs_put f d NDir)"
  using fresh_dirD(1) [OF assms] assms(2) by (simp add: make_new_dir_def fresh_dir_def writes_def)

text \<open>The copies made so far: the regular files among the names done, in a directory of their own.\<close>

definition copied_names :: "fs \<Rightarrow> path \<Rightarrow> path \<Rightarrow> string set \<Rightarrow> fs \<Rightarrow> bool" where
  "copied_names f0 staging tmp D f \<longleftrightarrow>
     wf_fs f \<and> fs_lookup f tmp = Some NDir \<and> (\<forall>q. \<not> prefix tmp q \<longrightarrow> fs_lookup f q = fs_lookup f0 q) \<and>
     (\<forall>r. r \<noteq> [] \<longrightarrow> fs_lookup f (tmp @ r) = (if \<exists>n\<in>D. r = [n] then regular f0 (staging @ r) else None))"

lemma copied_namesD:
  assumes "copied_names f0 staging tmp D f"
  shows "wf_fs f" and "fs_lookup f tmp = Some NDir" and "\<And>q. \<not> prefix tmp q \<Longrightarrow> fs_lookup f q = fs_lookup f0 q"
    and "\<And>r. r \<noteq> [] \<Longrightarrow> fs_lookup f (tmp @ r) = (if \<exists>n\<in>D. r = [n] then regular f0 (staging @ r) else None)"
  using assms unfolding copied_names_def by blast+

lemma copy_name_run:
  assumes c: "copied_names f0 staging tmp D f" and apart: "\<not> prefix tmp staging" "\<not> prefix staging tmp"
    and n: "fs_lookup f0 (staging @ [n]) \<noteq> None" "\<not> is_link f0 (staging @ [n])" "n \<notin> D" "plain n"
  shows "\<exists>f'. copy_snapshot_entry tmp (staging @ [n]) f = (Inr (), f') \<and> copied_names f0 staging tmp (insert n D) f'"
proof -
  note C = copied_namesD [OF c]
  have np: "\<not> prefix tmp (staging @ [n])" using apart by (auto simp: prefix_snoc)
  have same: "fs_lookup f (staging @ [n]) = fs_lookup f0 (staging @ [n])" by (rule C(3) [OF np])
  obtain k where k: "fs_lookup f (staging @ [n]) = Some k" using n(1) same by auto
  have cl: "clear f (staging @ [n])" by (rule clear_parent [OF C(1) k])
  have nl: "\<not> is_link f (staging @ [n])" using n(2) same by (simp add: is_link_def)
  have tne: "tmp \<noteq> []" using wf_fsD(1) [OF C(1,2)] .
  have dest: "fs_lookup f (tmp @ [n]) = None" using C(4) [of "[n]"] n(3) by simp
  have td: "real_dir f tmp" by (rule real_dirI [OF C(1,2)])
  then have dc: "clear f (tmp @ [n])" using clear_below [OF C(1) td, of "[n]"] n(4) by simp
  show ?thesis
  proof (cases k)
    case (NFile t)
    have r: "path_is_file f (staging @ [n])" using clear_followed [OF cl nl] k NFile by (simp add: path_is_file_def)
    have rd: "read_text (staging @ [n]) f = (Inr t, f)" by (rule read_text_run [OF cl]) (simp add: k NFile)
    have wr: "write_text (tmp @ [n]) t f = (Inr (), fs_put f (tmp @ [n]) (NFile t))"
      by (rule write_text_run [OF dc]) (use dest C(2) tne in \<open>simp_all add: node_at_def\<close>)
    have "copy_snapshot_entry tmp (staging @ [n]) f = (Inr (), fs_put f (tmp @ [n]) (NFile t))"
      using r rd wr by (simp add: copy_snapshot_entry_def whenE_def copy_file_sparse_def bindE_run copy_sparse_exact)
    moreover have "copied_names f0 staging tmp (insert n D) (fs_put f (tmp @ [n]) (NFile t))"
      unfolding copied_names_def
    proof (intro conjI allI impI)
      show "wf_fs (fs_put f (tmp @ [n]) (NFile t))"
        by (rule wf_put [OF C(1)]) (use clearD(2) [OF dc] C(2) tne dest in \<open>simp_all add: node_at_def\<close>)
      show "fs_lookup (fs_put f (tmp @ [n]) (NFile t)) tmp = Some NDir" using C(2) by simp
      show "fs_lookup (fs_put f (tmp @ [n]) (NFile t)) q = fs_lookup f0 q" if "\<not> prefix tmp q" for q
        using C(3) [OF that] that by auto
      show "fs_lookup (fs_put f (tmp @ [n]) (NFile t)) (tmp @ r) =
          (if \<exists>m\<in>insert n D. r = [m] then regular f0 (staging @ r) else None)" if "r \<noteq> []" for r
        using C(4) [OF that] k same NFile by (auto simp: regular_def)
    qed
    ultimately show ?thesis by blast
  next
    case NDir
    have "\<not> path_is_file f (staging @ [n])" using clear_followed [OF cl nl] k NDir by (simp add: path_is_file_def)
    then have "copy_snapshot_entry tmp (staging @ [n]) f = (Inr (), f)"
      by (simp add: copy_snapshot_entry_def whenE_def ret_def)
    moreover have "regular f0 (staging @ [n]) = None" using k same NDir by (simp add: regular_def)
    then have "copied_names f0 staging tmp (insert n D) f"
      using C unfolding copied_names_def by auto
    ultimately show ?thesis by blast
  next
    case (NLink t)
    then show ?thesis using nl k by (simp add: is_link_def)
  qed
qed

lemma copy_names_run:
  assumes "copied_names f0 staging tmp D f" and "\<not> prefix tmp staging" "\<not> prefix staging tmp"
    and "\<And>n. n \<in> set ns \<Longrightarrow> fs_lookup f0 (staging @ [n]) \<noteq> None \<and> \<not> is_link f0 (staging @ [n]) \<and> plain n"
    and "distinct ns" and "set ns \<inter> D = {}"
  shows "\<exists>f'. for_each (map (\<lambda>n. staging @ [n]) ns) (copy_snapshot_entry tmp) f = (Inr (), f') \<and>
           copied_names f0 staging tmp (D \<union> set ns) f'"
  using assms(1,4-6)
proof (induction ns arbitrary: D f)
  case Nil
  then show ?case by (simp add: ret_def)
next
  case (Cons n ns)
  obtain f1 where f1: "copy_snapshot_entry tmp (staging @ [n]) f = (Inr (), f1)"
    "copied_names f0 staging tmp (insert n D) f1"
    using copy_name_run [OF Cons.prems(1) assms(2,3), of n] Cons.prems(2,4) by auto
  show ?case using Cons.IH [OF f1(2)] Cons.prems(2-4) f1(1) by (auto simp: seqE_run)
qed

lemma lookup_rename:
  assumes "\<And>q. prefix dst q \<Longrightarrow> fs_lookup f q = None"
  shows "fs_lookup (fs_rename f src dst) q =
     (if prefix dst q then fs_lookup f (src @ drop (length dst) q)
      else if prefix src q then None else fs_lookup f q)"
proof -
  have keys: "\<not> prefix dst (fst e)" if "e \<in> set f" for e
    using assms [of "fst e"] that lookup_dom [of f "fst e"] by auto
  have "map_of (fs_rename g src dst) q =
     (if prefix dst q then map_of g (src @ drop (length dst) q)
      else if prefix src q then None else map_of g q)" if "\<And>e. e \<in> set g \<Longrightarrow> \<not> prefix dst (fst e)" for g
    using that
  proof (induction g)
    case (Cons e g)
    obtain k n where e: "e = (k, n)" by (cases e)
    have k: "\<not> prefix dst k" using Cons.prems [of e] e by simp
    have IH: "map_of (fs_rename g src dst) q =
     (if prefix dst q then map_of g (src @ drop (length dst) q)
      else if prefix src q then None else map_of g q)" using Cons by simp
    show ?case
    proof (cases "prefix src k")
      case True
      then obtain z where "k = src @ z" by (auto simp: prefix_def)
      then show ?thesis using IH e k by (auto simp: fs_rename_def prefix_def)
    next
      case False
      then show ?thesis using IH e k by (auto simp: fs_rename_def prefix_def)
    qed
  qed (simp add: fs_rename_def)
  from this [OF keys] show ?thesis by (simp add: fs_lookup_def)
qed

lemma children_set: "n \<in> set (fs_children f p) \<longleftrightarrow> fs_lookup f (p @ [n]) \<noteq> None"
proof -
  have "n \<in> set (fs_children f p) \<longleftrightarrow> (\<exists>q\<in>fst ` set f. q \<noteq> [] \<and> butlast q = p \<and> last q = n)"
    by (auto simp: fs_children_def)
  also have "\<dots> \<longleftrightarrow> p @ [n] \<in> fst ` set f" by (metis append_butlast_last_id butlast_snoc last_snoc snoc_eq_iff_butlast)
  finally show ?thesis unfolding lookup_dom .
qed

lemma distinct_children [simp]: "distinct (fs_children f p)"
  by (simp add: fs_children_def)

definition persist_ready :: "path \<Rightarrow> path \<Rightarrow> fs \<Rightarrow> bool" where
  "persist_ready staging durable f \<longleftrightarrow>
     wf_fs f \<and> real_dir f staging \<and> fresh_dir f durable \<and>
     \<not> prefix (with_tmp durable) staging \<and> \<not> prefix staging (with_tmp durable) \<and>
     list_all (\<lambda>n. \<not> is_link f (staging @ [n])) (fs_children f staging)"

text \<open>The persist of a staged snapshot ends with the durable directory holding exactly the staged
  regular files, byte for byte, through the sparse copy and the rename; it appears at once and
  nothing outside it and its \<open>.tmp\<close> twin is changed.\<close>

lemma persist_snapshot_exact:
  assumes "persist_ready staging durable f"
  shows "\<exists>f'. persist_snapshot staging durable f = (Inr (), f') \<and>
           fs_lookup f' durable = Some NDir \<and>
           (\<forall>n. fs_lookup f' (durable @ [n]) = regular f (staging @ [n])) \<and>
           (\<forall>q. \<not> prefix durable q \<and> \<not> prefix (with_tmp durable) q \<longrightarrow> fs_lookup f' q = fs_lookup f q)"
proof -
  let ?tmp = "with_tmp durable"
  have R: "wf_fs f" "real_dir f staging" "fresh_dir f durable" "\<not> prefix ?tmp staging" "\<not> prefix staging ?tmp"
    "\<And>n. n \<in> set (fs_children f staging) \<Longrightarrow> \<not> is_link f (staging @ [n])"
    using assms by (auto simp: persist_ready_def list_all_iff)
  have d: "durable \<noteq> []" "list_all plain durable" "node_at f (butlast durable) = Some NDir"
    using R(3) by (simp_all add: fresh_dir_def)
  have tb: "butlast ?tmp = butlast durable" "?tmp \<noteq> []" by (simp_all add: with_tmp_def)
  have "plain (last durable)" using d(1,2) by (simp add: list_all_iff)
  then have "plain (last durable @ ''.tmp'')" by (auto simp: plain_def append_eq_Cons_conv)
  then have tp: "list_all plain ?tmp"
    using d(2) by (auto simp: with_tmp_def list_all_iff dest: in_set_butlastD)
  have apart: "\<not> prefix ?tmp durable" "\<not> prefix durable ?tmp"
  proof -
    obtain xs x where x: "durable = xs @ [x]" using d(1) by (cases durable rule: rev_cases) auto
    then show "\<not> prefix ?tmp durable" "\<not> prefix durable ?tmp"
      by (simp_all add: with_tmp_def)
  qed
  let ?f1 = "fs_rmtree f ?tmp"
  have w1: "wf_fs ?f1" by (rule wf_rmtree [OF R(1) tb(2)])
  have up: "\<not> prefix ?tmp (butlast durable)"
    using apart(1) by (meson prefix_order.trans prefixeq_butlast)
  have "fresh_dir ?f1 ?tmp"
    using tb tp d(3) up by (auto simp: fresh_dir_def node_at_def split: if_splits)
  from make_new_dir_run [OF w1 this]
  have r2: "make_new_dir ?tmp ?f1 = (Inr (), fs_put ?f1 ?tmp NDir)" (is "_ = (_, ?f2)") .
  have w2: "wf_fs ?f2"
    by (rule wf_put [OF w1 tb(2) tp]) (use d(3) up tb(1) in \<open>auto simp: node_at_def split: if_splits\<close>)
  have l2: "fs_lookup ?f2 q = (if q = ?tmp then Some NDir else if prefix ?tmp q then None else fs_lookup f q)" for q
    by simp
  have st: "fs_lookup ?f2 (staging @ r) = fs_lookup f (staging @ r)" for r
  proof -
    have "\<not> prefix ?tmp (staging @ r)" using R(4,5) by (auto simp: prefix_append)
    then show ?thesis using l2 [of "staging @ r"] by auto
  qed
  have sd: "real_dir ?f2 staging" using st [of "[]"] R(2) by (intro real_dirI [OF w2]) (simp add: real_dir_def)
  have pd: "path_is_dir ?f2 staging"
    using real_dir_resolve [OF sd] sd by (auto simp: path_is_dir_def followed_def real_dir_def node_at_def clear_def)
  have it: "iterdir staging ?f2 = (Inr (map (\<lambda>n. staging @ [n]) (fs_children ?f2 staging)), ?f2)"
    using pd real_dir_resolve [OF sd] by (simp add: iterdir_def list_dir_def ret_def)
  have c0: "copied_names ?f2 staging ?tmp {} ?f2"
    unfolding copied_names_def using w2 by (auto simp: l2)
  have names: "fs_lookup ?f2 (staging @ [n]) \<noteq> None \<and> \<not> is_link ?f2 (staging @ [n]) \<and> plain n"
    if "n \<in> set (fs_children ?f2 staging)" for n
  proof -
    have n: "fs_lookup f (staging @ [n]) \<noteq> None" using that st by (simp add: children_set)
    then have "\<not> is_link f (staging @ [n])" using R(6) by (simp add: children_set)
    moreover obtain k where "fs_lookup f (staging @ [n]) = Some k" using n by auto
    moreover have "plain n" using wf_fsD(2) [OF R(1) calculation(2)] by simp
    ultimately show ?thesis using n st [of "[n]"] unfolding is_link_def by simp
  qed
  obtain f3 where r3: "for_each (map (\<lambda>n. staging @ [n]) (fs_children ?f2 staging)) (copy_snapshot_entry ?tmp) ?f2 = (Inr (), f3)"
    and c3: "copied_names ?f2 staging ?tmp (set (fs_children ?f2 staging)) f3"
    using copy_names_run [where ns = "fs_children ?f2 staging", OF c0 R(4,5) names] by auto
  note C = copied_namesD [OF c3]
  have n3: "fs_lookup f3 q = None" if "prefix durable q" for q
  proof -
    have "\<not> prefix ?tmp q"
    proof
      assume "prefix ?tmp q"
      then have "prefix ?tmp durable \<or> prefix durable ?tmp" using that prefix_same_cases by blast
      with apart show False by blast
    qed
    then show ?thesis using C(3) [of q] l2 [of q] fresh_dirD(2) [OF R(1,3) that] by auto
  qed
  let ?f4 = "fs_rename f3 ?tmp durable"
  have "node_at f3 (butlast durable) = Some NDir"
    using d(3) up C(3) [of "butlast durable"] l2 [of "butlast durable"] by (auto simp: node_at_def split: if_splits)
  then have r4: "rename_dir ?tmp durable f3 = (Inr (), ?f4)"
    using n3 [of durable] by (simp add: rename_dir_def writes_def)
  have L: "fs_lookup ?f4 q = (if prefix durable q then fs_lookup f3 (?tmp @ drop (length durable) q)
      else if prefix ?tmp q then None else fs_lookup f3 q)" for q
    by (rule lookup_rename) (rule n3)
  have "persist_snapshot staging durable f = (Inr (), ?f4)"
    unfolding persist_snapshot_def Let_def
    using r2 it r3 r4 by (simp add: seqE_def bindE_def writes_def)
  moreover have "fs_lookup ?f4 durable = Some NDir" using L [of durable] C(2) by simp
  moreover have "fs_lookup ?f4 (durable @ [n]) = regular f (staging @ [n])" for n
  proof -
    have "fs_lookup ?f4 (durable @ [n]) = (if n \<in> set (fs_children ?f2 staging) then regular ?f2 (staging @ [n]) else None)"
      using L [of "durable @ [n]"] C(4) [of "[n]"] by simp
    moreover have "regular ?f2 (staging @ [n]) = regular f (staging @ [n])" by (simp only: regular_def st)
    moreover have "regular f (staging @ [n]) = None" if "n \<notin> set (fs_children ?f2 staging)"
      using that unfolding children_set st by (simp add: regular_def)
    ultimately show ?thesis by simp
  qed
  moreover have "fs_lookup ?f4 q = fs_lookup f q" if "\<not> prefix durable q \<and> \<not> prefix ?tmp q" for q
    using L [of q] that C(3) [of q] l2 [of q] by auto
  ultimately show ?thesis by blast
qed

definition staged_fs :: fs where
  "staged_fs =
     [([''shm''], NDir), ([''shm'', ''ckpt-1''], NDir), ([''data''], NDir),
      ([''shm'', ''ckpt-1'', ''memory''], NFile ''m''), ([''shm'', ''ckpt-1'', ''vmstate''], NFile ''v'')]"

lemma staged_ready: "persist_ready [''shm'', ''ckpt-1''] [''data'', ''ckpt-1''] staged_fs"
  by code_simp

lemma persist_snapshot_exact_witness:
  "\<exists>f'. persist_snapshot [''shm'', ''ckpt-1''] [''data'', ''ckpt-1''] staged_fs = (Inr (), f') \<and>
     fs_lookup f' [''data'', ''ckpt-1'', ''memory''] = Some (NFile ''m'')"
proof -
  obtain f' where f': "persist_snapshot [''shm'', ''ckpt-1''] [''data'', ''ckpt-1''] staged_fs = (Inr (), f')"
    "\<And>n. fs_lookup f' ([''data'', ''ckpt-1''] @ [n]) = regular staged_fs ([''shm'', ''ckpt-1''] @ [n])"
    using persist_snapshot_exact [OF staged_ready] by blast
  have "regular staged_fs [''shm'', ''ckpt-1'', ''memory''] = Some (NFile ''m'')" by code_simp
  with f'(2) [of "''memory''"] f'(1) show ?thesis by simp
qed

end
