(* ===== verification/Admission.thy ===== *)
theory Admission
  imports Checkpoints
begin

text \<open>
  The label lock of src/src/mshkn/services/checkpoints.py (\<open>_LabelLock\<close>, \<open>_label_lock\<close>) and the
  interleaving of exclusive admissions under it. A lock entry is an object with a number; the
  table maps a key, the account and the label, to the entry that serves it now. Between two
  steps of one task any other task may run: entering the block, getting the lock, the
  active-computer check, the insert of the computer's row, and the two halves of leaving are
  separate steps, and a task may be cancelled or fail at each. Computers of a chain may go at any
  time. Theory \<open>Checkpoints\<close> has the same admission as one action.
\<close>

type_synonym lock_key = "string \<times> string"

text \<open>Where a task is in \<open>fork_by_label\<close>, with the entry it took from the table.\<close>

datatype phase =
    Out
  | Waiting lock_key nat
  | Holding lock_key nat
  | Checked lock_key nat bool
  | Finished lock_key nat
  | Leaving lock_key nat

record admission =
  ad_table :: "lock_key \<Rightarrow> nat option"
  ad_users :: "nat \<Rightarrow> nat"
  ad_holder :: "nat \<Rightarrow> nat option"
  ad_next :: nat
  ad_phase :: "nat \<Rightarrow> phase"
  ad_running :: "lock_key \<Rightarrow> nat"

definition idle :: admission where
  "idle = \<lparr>ad_table = (\<lambda>_. None), ad_users = (\<lambda>_. 0), ad_holder = (\<lambda>_. None), ad_next = 0,
           ad_phase = (\<lambda>_. Out), ad_running = (\<lambda>_. 0)\<rparr>"

text \<open>Entering: the entry of the key, a new one if there is none, with one user more.\<close>

definition entry_of :: "lock_key \<Rightarrow> admission \<Rightarrow> nat" where
  "entry_of k s = (case ad_table s k of None \<Rightarrow> ad_next s | Some i \<Rightarrow> i)"

definition enter_lock :: "nat \<Rightarrow> lock_key \<Rightarrow> admission \<Rightarrow> admission" where
  "enter_lock p k s =
     (let i = entry_of k s;
          s = (case ad_table s k of
                 None \<Rightarrow> s\<lparr>ad_table := (ad_table s)(k := Some i), ad_users := (ad_users s)(i := 0),
                           ad_holder := (ad_holder s)(i := None), ad_next := Suc i\<rparr>
               | Some _ \<Rightarrow> s)
      in s\<lparr>ad_users := (ad_users s)(i := ad_users s i + 1), ad_phase := (ad_phase s)(p := Waiting k i)\<rparr>)"

text \<open>The \<open>finally\<close>: the entry goes with its last user, if the table still has it.\<close>

definition leave_lock :: "nat \<Rightarrow> lock_key \<Rightarrow> nat \<Rightarrow> admission \<Rightarrow> admission" where
  "leave_lock p k i s =
     (let n = ad_users s i - 1 in
      s\<lparr>ad_users := (ad_users s)(i := n),
        ad_table := (if n = 0 \<and> ad_table s k = Some i then (ad_table s)(k := None) else ad_table s),
        ad_phase := (ad_phase s)(p := Out)\<rparr>)"

definition go :: "nat \<Rightarrow> phase \<Rightarrow> admission \<Rightarrow> admission" where
  "go p ph s = s\<lparr>ad_phase := (ad_phase s)(p := ph)\<rparr>"

definition set_holder :: "nat \<Rightarrow> nat option \<Rightarrow> admission \<Rightarrow> admission" where
  "set_holder i h s = s\<lparr>ad_holder := (ad_holder s)(i := h)\<rparr>"

definition set_running :: "lock_key \<Rightarrow> nat \<Rightarrow> admission \<Rightarrow> admission" where
  "set_running k n s = s\<lparr>ad_running := (ad_running s)(k := n)\<rparr>"

inductive admission_step :: "admission \<Rightarrow> admission \<Rightarrow> bool" where
  enter: "ad_phase s p = Out \<Longrightarrow> admission_step s (enter_lock p k s)"
| acquire_lock: "ad_phase s p = Waiting k i \<Longrightarrow> ad_holder s i = None \<Longrightarrow>
    admission_step s (go p (Holding k i) (set_holder i (Some p) s))"
| cancel_wait: "ad_phase s p = Waiting k i \<Longrightarrow> admission_step s (go p (Leaving k i) s)"
| check_active: "ad_phase s p = Holding k i \<Longrightarrow> admission_step s (go p (Checked k i (ad_running s k > 0)) s)"
| insert_row: "ad_phase s p = Checked k i False \<Longrightarrow>
    admission_step s (go p (Finished k i) (set_running k (ad_running s k + 1) s))"
| no_row: "ad_phase s p = Checked k i b \<Longrightarrow> admission_step s (go p (Finished k i) s)"
| abort: "ad_phase s p = Holding k i \<Longrightarrow> admission_step s (go p (Finished k i) s)"
| unlock: "ad_phase s p = Finished k i \<Longrightarrow> admission_step s (go p (Leaving k i) (set_holder i None s))"
| leave: "ad_phase s p = Leaving k i \<Longrightarrow> admission_step s (leave_lock p k i s)"
| computer_gone: "0 < ad_running s k \<Longrightarrow> admission_step s (set_running k (ad_running s k - 1) s)"

inductive reachable :: "admission \<Rightarrow> bool" where
  start: "reachable idle"
| step: "reachable s \<Longrightarrow> admission_step s t \<Longrightarrow> reachable t"

section \<open>Invariants\<close>

fun at_entry :: "phase \<Rightarrow> (lock_key \<times> nat) option" where
  "at_entry Out = None"
| "at_entry (Waiting k i) = Some (k, i)"
| "at_entry (Holding k i) = Some (k, i)"
| "at_entry (Checked k i b) = Some (k, i)"
| "at_entry (Finished k i) = Some (k, i)"
| "at_entry (Leaving k i) = Some (k, i)"

fun inside :: "phase \<Rightarrow> bool" where
  "inside (Holding k i) = True"
| "inside (Checked k i b) = True"
| "inside (Finished k i) = True"
| "inside _ = False"

lemma at_entry_Out [simp]: "at_entry ph = None \<longleftrightarrow> ph = Out"
  by (cases ph) simp_all

definition users_of :: "admission \<Rightarrow> lock_key \<Rightarrow> nat \<Rightarrow> nat set" where
  "users_of s k i = {p. at_entry (ad_phase s p) = Some (k, i)}"

definition lock_inv :: "admission \<Rightarrow> bool" where
  "lock_inv s \<longleftrightarrow>
     finite {p. ad_phase s p \<noteq> Out} \<and>
     (\<forall>p k i. at_entry (ad_phase s p) = Some (k, i) \<longrightarrow> ad_table s k = Some i) \<and>
     (\<forall>k i. ad_table s k = Some i \<longrightarrow> i < ad_next s \<and> ad_users s i = card (users_of s k i) \<and> users_of s k i \<noteq> {}) \<and>
     (\<forall>k k' i. ad_table s k = Some i \<longrightarrow> ad_table s k' = Some i \<longrightarrow> k = k') \<and>
     (\<forall>p i. ad_holder s i = Some p \<longleftrightarrow> inside (ad_phase s p) \<and> (\<exists>k. at_entry (ad_phase s p) = Some (k, i))) \<and>
     (\<forall>k. ad_running s k \<le> 1) \<and>
     (\<forall>p k i. ad_phase s p = Checked k i False \<longrightarrow> ad_running s k = 0)"

lemma lock_invD:
  assumes "lock_inv s"
  shows "finite {p. ad_phase s p \<noteq> Out}"
    and "\<And>p k i. at_entry (ad_phase s p) = Some (k, i) \<Longrightarrow> ad_table s k = Some i"
    and "\<And>k i. ad_table s k = Some i \<Longrightarrow> i < ad_next s"
    and "\<And>k i. ad_table s k = Some i \<Longrightarrow> ad_users s i = card (users_of s k i)"
    and "\<And>k i. ad_table s k = Some i \<Longrightarrow> users_of s k i \<noteq> {}"
    and "\<And>k k' i. ad_table s k = Some i \<Longrightarrow> ad_table s k' = Some i \<Longrightarrow> k = k'"
    and "\<And>p i. ad_holder s i = Some p \<longleftrightarrow> inside (ad_phase s p) \<and> (\<exists>k. at_entry (ad_phase s p) = Some (k, i))"
    and "\<And>k. ad_running s k \<le> 1"
    and "\<And>p k i. ad_phase s p = Checked k i False \<Longrightarrow> ad_running s k = 0"
  using assms unfolding lock_inv_def by blast+

lemma finite_users: "lock_inv s \<Longrightarrow> finite (users_of s k i)"
  by (rule finite_subset [OF _ lock_invD(1)]) (auto simp: users_of_def)

text \<open>Two tasks on one key are on one entry, and only one of them is inside.\<close>

lemma one_inside:
  assumes "lock_inv s" and "at_entry (ad_phase s p) = Some (k, i)" and "inside (ad_phase s p)"
    and "at_entry (ad_phase s q) = Some (k, j)" and "inside (ad_phase s q)"
  shows "p = q" and "i = j"
proof -
  have "ad_table s k = Some i" "ad_table s k = Some j"
    by (rule lock_invD(2) [OF assms(1,2)], rule lock_invD(2) [OF assms(1,4)])
  then show "i = j" by simp
  then show "p = q"
    using lock_invD(7) [OF assms(1), of i p] lock_invD(7) [OF assms(1), of i q] assms(2-5) by simp
qed

text \<open>A step of one task at its entry, which leaves the table and the counts alone.\<close>

lemma move_inv:
  assumes inv: "lock_inv s" and p: "at_entry (ad_phase s p) = Some (k, i)" "at_entry ph = Some (k, i)"
    and h: "inside ph \<longleftrightarrow> h = Some p"
    and others: "\<And>q. q \<noteq> p \<Longrightarrow> h = Some q \<longleftrightarrow> ad_holder s i = Some q"
    and n: "n \<le> 1" and checked: "ph = Checked k i False \<Longrightarrow> n = 0"
    and stays: "n = ad_running s k \<or> inside (ad_phase s p)"
  shows "lock_inv (go p ph (set_holder i h (set_running k n s)))" (is "lock_inv ?t")
proof -
  note I = lock_invD [OF inv]
  have u: "users_of ?t = users_of s"
    using p by (auto simp: users_of_def go_def set_holder_def set_running_def fun_eq_iff)
  have tab: "ad_table ?t = ad_table s" "ad_next ?t = ad_next s" "ad_users ?t = ad_users s"
    by (simp_all add: go_def set_holder_def set_running_def)
  have ph: "ad_phase ?t q = (if q = p then ph else ad_phase s q)" for q
    by (simp add: go_def set_holder_def set_running_def)
  have hd: "ad_holder ?t j = (if j = i then h else ad_holder s j)" for j
    by (simp add: go_def set_holder_def set_running_def)
  have run: "ad_running ?t j = (if j = k then n else ad_running s j)" for j
    by (simp add: go_def set_holder_def set_running_def)
  have "finite {q. ad_phase ?t q \<noteq> Out}"
    by (rule finite_subset [OF _ finite_insert [THEN iffD2, OF I(1), of p]]) (auto simp: ph)
  moreover have "ad_table ?t k' = Some j" if "at_entry (ad_phase ?t q) = Some (k', j)" for q k' j
    using that I(2) [of q k' j] I(2) [OF p(1)] p(2) by (auto simp: ph tab split: if_splits)
  moreover have "ad_holder ?t j = Some q \<longleftrightarrow> inside (ad_phase ?t q) \<and> (\<exists>k. at_entry (ad_phase ?t q) = Some (k, j))" for q j
  proof (cases "q = p")
    case True
    then show ?thesis using p h I(7) [of j p] by (auto simp: ph hd)
  next
    case False
    then show ?thesis using others [OF False] I(7) [of j q] by (auto simp: ph hd)
  qed
  moreover have "ad_running ?t k' = 0" if q: "ad_phase ?t q = Checked k' j False" for q k' j
  proof (cases "q = p")
    case True
    then have "ph = Checked k' j False" using q ph [of q] by simp
    then have "k' = k" "n = 0" using p(2) checked by auto
    then show ?thesis using run [of k'] by simp
  next
    case False
    then have c: "ad_phase s q = Checked k' j False" using q by (simp add: ph)
    then have z: "ad_running s k' = 0" by (rule I(9))
    show ?thesis
    proof (cases "k' = k")
      case True
      have "\<not> inside (ad_phase s p)"
        using one_inside(1) [OF inv p(1) _, of q j] c True False by auto
      then have "n = 0" using stays z True by simp
      then show ?thesis using run [of k'] True by simp
    qed (simp add: run z)
  qed
  ultimately show ?thesis
    unfolding lock_inv_def u tab using I n by (auto simp: run)
qed

lemma go_same: "ad_holder s i = h \<Longrightarrow> ad_running s k = n \<Longrightarrow> go p ph s = go p ph (set_holder i h (set_running k n s))"
  by (cases s) (auto simp: go_def set_holder_def set_running_def fun_upd_idem)

lemma enter_inv:
  assumes inv: "lock_inv s" and out: "ad_phase s p = Out"
  shows "lock_inv (enter_lock p k s)" (is "lock_inv ?t")
proof -
  note I = lock_invD [OF inv]
  let ?i = "entry_of k s"
  have new: "users_of s k' ?i = {}" "ad_table s k' \<noteq> Some ?i" if "ad_table s k = None" for k'
  proof -
    have i: "?i = ad_next s" using that by (simp add: entry_of_def)
    show "ad_table s k' \<noteq> Some ?i" using I(3) [of k' ?i] i by auto
    then show "users_of s k' ?i = {}" using I(2) [of _ k' ?i] by (auto simp: users_of_def)
  qed
  have ph: "ad_phase ?t q = (if q = p then Waiting k ?i else ad_phase s q)" for q
    by (auto simp: enter_lock_def Let_def split: option.splits)
  have tab: "ad_table ?t = (ad_table s)(k := Some ?i)"
    by (auto simp: enter_lock_def Let_def entry_of_def fun_eq_iff split: option.splits)
  have us: "ad_users ?t j = (if j = ?i then (if ad_table s k = None then 0 else ad_users s ?i) + 1 else ad_users s j)" for j
    by (auto simp: enter_lock_def Let_def entry_of_def split: option.splits)
  have hd: "ad_holder ?t j = (if j = ?i \<and> ad_table s k = None then None else ad_holder s j)" for j
    by (auto simp: enter_lock_def Let_def entry_of_def split: option.splits)
  have nx: "ad_next ?t = (if ad_table s k = None then Suc ?i else ad_next s)" "ad_running ?t = ad_running s"
    by (auto simp: enter_lock_def Let_def entry_of_def split: option.splits)
  have u: "users_of ?t k' j = (if k' = k \<and> j = ?i then insert p (users_of s k' j) else users_of s k' j)" for k' j
    using out by (auto simp: users_of_def ph)
  have old: "ad_table s k = Some ?i" if "ad_table s k \<noteq> None" using that by (auto simp: entry_of_def)
  have "finite {q. ad_phase ?t q \<noteq> Out}"
    by (rule finite_subset [OF _ finite_insert [THEN iffD2, OF I(1), of p]]) (auto simp: ph)
  moreover have "ad_table ?t k' = Some j" if "at_entry (ad_phase ?t q) = Some (k', j)" for q k' j
    using that I(2) [of q k' j] old new(2) by (auto simp: ph tab split: if_splits)
  moreover have "j < ad_next ?t \<and> ad_users ?t j = card (users_of ?t k' j) \<and> users_of ?t k' j \<noteq> {}"
    if t: "ad_table ?t k' = Some j" for k' j
  proof (cases "k' = k")
    case True
    then have j: "j = ?i" using t by (simp add: tab)
    have np: "p \<notin> users_of s k ?i" using out by (simp add: users_of_def)
    show ?thesis
    proof (cases "ad_table s k = None")
      case n: True
      then show ?thesis using True j new(1) [OF n, of k] by (simp add: nx us u)
    next
      case False
      then show ?thesis
        using True j I(3,4) [OF old [OF False]] finite_users [OF inv] np by (auto simp: nx us u)
    qed
  next
    case False
    then have s: "ad_table s k' = Some j" using t by (simp add: tab)
    have "j \<noteq> ?i" using s new(2) [of k'] old I(6) [of k' j k] False by (cases "ad_table s k = None") auto
    moreover have "j < ad_next ?t" using I(3) [OF s] by (auto simp: nx entry_of_def)
    ultimately show ?thesis using False I(4,5) [OF s] by (simp add: us u)
  qed
  moreover have "k1 = k2" if "ad_table ?t k1 = Some j" "ad_table ?t k2 = Some j" for k1 k2 j
    using that I(6) [of k1 j k2] new(2) [of k1] new(2) [of k2] old I(6) [of k1 j k] I(6) [of k2 j k]
    by (cases "ad_table s k = None") (auto simp: tab split: if_splits)
  moreover have "ad_holder ?t j = Some q \<longleftrightarrow> inside (ad_phase ?t q) \<and> (\<exists>k. at_entry (ad_phase ?t q) = Some (k, j))" for q j
  proof (cases "q = p")
    case True
    have "ad_holder s j \<noteq> Some p" using I(7) [of j p] out by simp
    then show ?thesis using True by (simp add: ph hd)
  next
    case False
    have "\<not> (j = ?i \<and> ad_table s k = None)" if "at_entry (ad_phase s q) = Some (k', j)" for k'
      using I(2) [OF that] new(2) [of k'] by (cases "ad_table s k") auto
    then show ?thesis using False I(7) [of j q] by (auto simp: ph hd)
  qed
  moreover have "ad_running ?t k' = 0" if "ad_phase ?t q = Checked k' j False" for q k' j
    using that I(9) [of q k' j] by (auto simp: ph nx split: if_splits)
  ultimately show ?thesis unfolding lock_inv_def using I(8) by (auto simp: nx)
qed

lemma leave_inv:
  assumes inv: "lock_inv s" and at: "ad_phase s p = Leaving k i"
  shows "lock_inv (leave_lock p k i s)" (is "lock_inv ?t")
proof -
  note I = lock_invD [OF inv]
  have tk: "ad_table s k = Some i" by (rule I(2) [of p]) (simp add: at)
  have ph: "ad_phase ?t q = (if q = p then Out else ad_phase s q)" for q
    by (simp add: leave_lock_def Let_def)
  have pu: "p \<in> users_of s k i" using at by (simp add: users_of_def)
  have u: "users_of ?t k' j = (if k' = k \<and> j = i then users_of s k' j - {p} else users_of s k' j)" for k' j
    using at by (auto simp: users_of_def ph)
  have n: "ad_users s i - 1 = card (users_of s k i - {p})"
    using I(4) [OF tk] pu finite_users [OF inv, of k i] by simp
  have empty: "ad_users s i - 1 = 0 \<longleftrightarrow> users_of s k i - {p} = {}"
    unfolding n using finite_users [OF inv, of k i] by simp
  have tab: "ad_table ?t k' = (if k' = k \<and> users_of s k i - {p} = {} then None else ad_table s k')" for k'
    using tk empty by (simp add: leave_lock_def Let_def)
  have us: "ad_users ?t j = (if j = i then card (users_of s k i - {p}) else ad_users s j)" for j
    by (simp add: leave_lock_def Let_def flip: n)
  have same: "ad_next ?t = ad_next s" "ad_holder ?t = ad_holder s" "ad_running ?t = ad_running s"
    by (simp_all add: leave_lock_def Let_def)
  have "finite {q. ad_phase ?t q \<noteq> Out}"
    by (rule finite_subset [OF _ I(1)]) (auto simp: ph)
  moreover have "ad_table ?t k' = Some j" if "at_entry (ad_phase ?t q) = Some (k', j)" for q k' j
  proof -
    have q: "q \<noteq> p" "at_entry (ad_phase s q) = Some (k', j)" using that by (auto simp: ph split: if_splits)
    then have t: "ad_table s k' = Some j" using I(2) by blast
    have "\<not> (k' = k \<and> users_of s k i - {p} = {})"
    proof
      assume a: "k' = k \<and> users_of s k i - {p} = {}"
      then have "j = i" using t tk by simp
      then have "q \<in> users_of s k i" using q(2) a by (simp add: users_of_def)
      with a q(1) show False by blast
    qed
    then show ?thesis using t by (auto simp: tab)
  qed
  moreover have "j < ad_next ?t \<and> ad_users ?t j = card (users_of ?t k' j) \<and> users_of ?t k' j \<noteq> {}"
    if "ad_table ?t k' = Some j" for k' j
  proof -
    have t: "ad_table s k' = Some j" and ne: "k' = k \<Longrightarrow> users_of s k i - {p} \<noteq> {}"
      using that by (auto simp: tab split: if_splits)
    show ?thesis
    proof (cases "k' = k")
      case True
      then have "j = i" using t tk by simp
      then show ?thesis using True I(3) [OF tk] ne by (simp add: same us u)
    next
      case False
      then have "j \<noteq> i" using I(6) [of k' j k] t tk by auto
      then show ?thesis using False I(3-5) [OF t] by (simp add: same us u)
    qed
  qed
  moreover have "k1 = k2" if "ad_table ?t k1 = Some j" "ad_table ?t k2 = Some j" for k1 k2 j
    using that I(6) by (auto simp: tab split: if_splits)
  moreover have "ad_holder ?t j = Some q \<longleftrightarrow> inside (ad_phase ?t q) \<and> (\<exists>k. at_entry (ad_phase ?t q) = Some (k, j))" for q j
    using I(7) [of j q] at by (auto simp: same ph)
  moreover have "ad_running ?t k' = 0" if "ad_phase ?t q = Checked k' j False" for q k' j
    using that I(9) [of q k' j] by (auto simp: ph same split: if_splits)
  ultimately show ?thesis unfolding lock_inv_def using I(8) by (auto simp: same)
qed

lemma running_down_inv: "lock_inv s \<Longrightarrow> lock_inv (set_running k (ad_running s k - 1) s)"
proof -
  assume inv: "lock_inv s"
  note I = lock_invD [OF inv]
  let ?t = "set_running k (ad_running s k - 1) s"
  have same: "ad_table ?t = ad_table s" "ad_users ?t = ad_users s" "ad_holder ?t = ad_holder s" "ad_next ?t = ad_next s"
    "ad_phase ?t = ad_phase s" "users_of ?t = users_of s"
    by (simp_all add: set_running_def users_of_def fun_eq_iff)
  have run: "ad_running ?t j = (if j = k then ad_running s k - 1 else ad_running s j)" for j
    by (simp add: set_running_def)
  have "ad_running ?t j \<le> 1" for j using I(8) [of j] I(8) [of k] run [of j] by (cases "j = k") auto
  moreover have "ad_running ?t k' = 0" if "ad_phase s p = Checked k' j False" for p k' j
    using I(9) [OF that] run [of k'] by auto
  ultimately show "lock_inv ?t" using inv unfolding lock_inv_def same by blast
qed

lemma idle_inv: "lock_inv idle"
  by (simp add: lock_inv_def idle_def)

text \<open>A step that neither takes nor gives up the lock nor changes the count.\<close>

lemma plain_move_inv:
  assumes "lock_inv s" and "at_entry (ad_phase s p) = Some (k, i)" and "at_entry ph = Some (k, i)"
    and "inside ph = inside (ad_phase s p)" and "ph = Checked k i False \<Longrightarrow> ad_running s k = 0"
  shows "lock_inv (go p ph s)"
proof -
  have "inside ph \<longleftrightarrow> ad_holder s i = Some p" using lock_invD(7) [OF assms(1), of i p] assms(2,4) by auto
  from move_inv [OF assms(1-3) this _ _ assms(5)] lock_invD(8) [OF assms(1), of k] show ?thesis
    by (simp add: go_same [of s i "ad_holder s i" k "ad_running s k" p ph])
qed

lemma step_inv: "admission_step s t \<Longrightarrow> lock_inv s \<Longrightarrow> lock_inv t"
proof (induction rule: admission_step.induct)
  case (enter s p k)
  then show ?case by (rule enter_inv [rotated])
next
  case (acquire_lock s p k i)
  have g: "go p (Holding k i) (set_holder i (Some p) s) =
      go p (Holding k i) (set_holder i (Some p) (set_running k (ad_running s k) s))"
    by (cases s) (simp add: go_def set_holder_def set_running_def)
  show ?case unfolding g
    by (rule move_inv [OF acquire_lock.prems]) (use acquire_lock.hyps lock_invD(8) [OF acquire_lock.prems] in auto)
next
  case (cancel_wait s p k i)
  then show ?case by (intro plain_move_inv [of s p k i]) auto
next
  case (check_active s p k i)
  then show ?case by (intro plain_move_inv [of s p k i]) auto
next
  case (insert_row s p k i)
  have h: "ad_holder s i = Some p" using lock_invD(7) [OF insert_row.prems, of i p] insert_row.hyps by simp
  have g: "go p (Finished k i) (set_running k (ad_running s k + 1) s) =
      go p (Finished k i) (set_holder i (Some p) (set_running k (ad_running s k + 1) s))"
    using h by (cases s) (auto simp: go_def set_holder_def set_running_def)
  show ?case unfolding g
    by (rule move_inv [OF insert_row.prems])
       (use insert_row.hyps h lock_invD(9) [OF insert_row.prems] in auto)
next
  case (no_row s p k i b)
  then show ?case by (intro plain_move_inv [of s p k i]) auto
next
  case (abort s p k i)
  then show ?case by (intro plain_move_inv [of s p k i]) auto
next
  case (unlock s p k i)
  have h: "ad_holder s i = Some p" using lock_invD(7) [OF unlock.prems, of i p] unlock.hyps by simp
  have g: "go p (Leaving k i) (set_holder i None s) =
      go p (Leaving k i) (set_holder i None (set_running k (ad_running s k) s))"
    by (cases s) (simp add: go_def set_holder_def set_running_def)
  show ?case unfolding g
    by (rule move_inv [OF unlock.prems])
       (use unlock.hyps h lock_invD(8) [OF unlock.prems] in auto)
next
  case (leave s p k i)
  then show ?case by (rule leave_inv [rotated])
next
  case (computer_gone s k)
  then show ?case by (intro running_down_inv)
qed

lemma reachable_inv: "reachable s \<Longrightarrow> lock_inv s"
  by (induction rule: reachable.induct) (auto intro: idle_inv step_inv)

section \<open>Properties\<close>

text \<open>C7: however the tasks interleave, are cancelled or fail, a chain never has two running computers:
  the check a task made under its label's lock still holds when it inserts its row. And no two
  tasks are inside the lock of one label.\<close>

theorem chain_never_doubled:
  assumes "reachable s"
  shows "ad_running s k \<le> 1 \<and>
         (ad_phase s p = Checked k i False \<longrightarrow> ad_running s k = 0) \<and>
         (at_entry (ad_phase s p) = Some (k, i) \<and> inside (ad_phase s p) \<and>
          at_entry (ad_phase s q) = Some (k, j) \<and> inside (ad_phase s q) \<longrightarrow> p = q)"
  using reachable_inv [OF assms] lock_invD(8,9) one_inside(1) by blast

text \<open>A task that entered, took the lock and checked an idle chain.\<close>

definition checked_state :: admission where
  "checked_state =
     (let k = (''acct-1'', ''main'');
          s1 = enter_lock 1 k idle;
          s2 = go 1 (Holding k 0) (set_holder 0 (Some 1) s1)
      in go 1 (Checked k 0 False) s2)"

lemma checked_reachable: "reachable checked_state"
proof -
  let ?k = "(''acct-1'', ''main'')"
  let ?s1 = "enter_lock 1 ?k idle"
  let ?s2 = "go 1 (Holding ?k 0) (set_holder 0 (Some 1) ?s1)"
  have p1: "ad_phase ?s1 1 = Waiting ?k 0" "ad_holder ?s1 0 = None" "ad_running ?s1 ?k = 0"
    by (simp_all add: enter_lock_def entry_of_def idle_def Let_def)
  have p2: "ad_phase ?s2 1 = Holding ?k 0" "ad_running ?s2 ?k = 0"
    using p1(3) by (simp_all add: go_def set_holder_def)
  have "admission_step idle ?s1" by (rule enter) (simp add: idle_def)
  then have "reachable ?s1" by (rule reachable.step [OF reachable.start])
  then have "reachable ?s2" by (rule reachable.step) (rule acquire_lock [OF p1(1,2)])
  moreover have "admission_step ?s2 (go 1 (Checked ?k 0 (0 < ad_running ?s2 ?k)) ?s2)" by (rule check_active [OF p2(1)])
  ultimately have "reachable (go 1 (Checked ?k 0 (0 < ad_running ?s2 ?k)) ?s2)" by (rule reachable.step)
  then show ?thesis unfolding p2(2) by (simp add: checked_state_def Let_def)
qed

lemma chain_never_doubled_witness:
  "ad_running checked_state (''acct-1'', ''main'') = 0"
  using chain_never_doubled [OF checked_reachable, of "(''acct-1'', ''main'')" 1 0 1 0]
  by (simp add: checked_state_def Let_def go_def)

text \<open>The lock table holds an entry for a label exactly while some task holds it or waits for it,
  so labels do not accumulate, and an entry's user count is the number of those tasks.\<close>

lemma lock_table_exact:
  assumes "reachable s"
  shows "(ad_table s k \<noteq> None \<longleftrightarrow> (\<exists>p i. at_entry (ad_phase s p) = Some (k, i))) \<and>
         (ad_table s k = Some i \<longrightarrow> ad_users s i = card {p. at_entry (ad_phase s p) = Some (k, i)})"
proof -
  note I = lock_invD [OF reachable_inv [OF assms]]
  have "\<exists>p j. at_entry (ad_phase s p) = Some (k, j)" if "ad_table s k = Some j" for j
    using I(5) [OF that] by (auto simp: users_of_def)
  moreover have "ad_table s k \<noteq> None" if "at_entry (ad_phase s p) = Some (k, j)" for p j
    using I(2) [OF that] by simp
  ultimately show ?thesis using I(4) [of k i] unfolding users_of_def by (cases "ad_table s k") auto
qed

lemma lock_table_exact_witness:
  "ad_table checked_state (''acct-1'', ''other'') \<noteq> None \<longleftrightarrow>
     (\<exists>p i. at_entry (ad_phase checked_state p) = Some ((''acct-1'', ''other''), i))"
  using lock_table_exact [OF checked_reachable] by blast

end
