(* ===== verification/Utf8.thy ===== *)
theory Utf8
  imports Prelude
begin

text \<open>
  UTF-8, as \<open>str.encode()\<close> and \<open>bytes.decode(errors="ignore")\<close> of Python's standard library do it:
  a text is a list of code points, its encoding a list of bytes, both as numbers. The decoder reads
  a well-formed sequence (the shortest form, no surrogate, at most 0x10FFFF) and otherwise drops a
  byte, which leaves the same text as dropping the longest malformed prefix does, because what
  follows it inside such a prefix are continuation bytes and those begin no sequence.
\<close>

section \<open>The codec\<close>

definition surrogate :: "nat \<Rightarrow> bool" where
  "surrogate c \<longleftrightarrow> 0xD800 \<le> c \<and> c \<le> 0xDFFF"

definition scalar :: "nat \<Rightarrow> bool" where
  "scalar c \<longleftrightarrow> c < 0x110000 \<and> \<not> surrogate c"

definition utf8_char :: "nat \<Rightarrow> nat list" where
  "utf8_char c =
     (if c < 0x80 then [c]
      else if c < 0x800 then [0xC0 + c div 64, 0x80 + c mod 64]
      else if c < 0x10000 then [0xE0 + c div 4096, 0x80 + c div 64 mod 64, 0x80 + c mod 64]
      else [0xF0 + c div 262144, 0x80 + c div 4096 mod 64, 0x80 + c div 64 mod 64, 0x80 + c mod 64])"

definition utf8_encode :: "nat list \<Rightarrow> nat list" where
  "utf8_encode cs = concat (map utf8_char cs)"

definition continuation :: "nat \<Rightarrow> bool" where
  "continuation b \<longleftrightarrow> 0x80 \<le> b \<and> b \<le> 0xBF"

text \<open>The code point at the head of a byte string, and the bytes after it.\<close>

fun utf8_two :: "nat \<Rightarrow> nat list \<Rightarrow> (nat \<times> nat list) option" where
  "utf8_two a (b # s) = (if continuation b then Some ((a - 0xC0) * 64 + (b - 0x80), s) else None)"
| "utf8_two a _ = None"

fun utf8_three :: "nat \<Rightarrow> nat list \<Rightarrow> (nat \<times> nat list) option" where
  "utf8_three a (b # c # s) =
     (let p = (a - 0xE0) * 4096 + (b - 0x80) * 64 + (c - 0x80)
      in if continuation b \<and> continuation c \<and> 0x800 \<le> p \<and> \<not> surrogate p then Some (p, s) else None)"
| "utf8_three a _ = None"

fun utf8_four :: "nat \<Rightarrow> nat list \<Rightarrow> (nat \<times> nat list) option" where
  "utf8_four a (b # c # d # s) =
     (let p = (a - 0xF0) * 262144 + (b - 0x80) * 4096 + (c - 0x80) * 64 + (d - 0x80)
      in if continuation b \<and> continuation c \<and> continuation d \<and> 0x10000 \<le> p \<and> p < 0x110000
         then Some (p, s) else None)"
| "utf8_four a _ = None"

fun utf8_head :: "nat list \<Rightarrow> (nat \<times> nat list) option" where
  "utf8_head [] = None"
| "utf8_head (a # s) =
     (if a < 0x80 then Some (a, s)
      else if a < 0xC2 then None
      else if a < 0xE0 then utf8_two a s
      else if a < 0xF0 then utf8_three a s
      else if a < 0xF5 then utf8_four a s
      else None)"

lemma utf8_head_shorter: "utf8_head bs = Some (c, s) \<Longrightarrow> length s < length bs"
proof (cases bs)
  case (Cons a t)
  have "utf8_two a t = Some (c, s) \<Longrightarrow> length s < length t"
    by (cases t) (auto split: if_splits)
  moreover have "utf8_three a t = Some (c, s) \<Longrightarrow> length s < length t"
    by (cases "(a, t)" rule: utf8_three.cases) (auto simp: Let_def split: if_splits)
  moreover have "utf8_four a t = Some (c, s) \<Longrightarrow> length s < length t"
    by (cases "(a, t)" rule: utf8_four.cases) (auto simp: Let_def split: if_splits)
  moreover assume "utf8_head bs = Some (c, s)"
  ultimately show ?thesis using Cons by (simp split: if_splits)
qed simp

declare utf8_head.simps [simp del]

lemma utf8_head_Nil [simp]: "utf8_head [] = None"
  by (simp add: utf8_head.simps)

function decode_ignore :: "nat list \<Rightarrow> nat list" where
  "decode_ignore bs =
     (case bs of
        [] \<Rightarrow> []
      | _ # t \<Rightarrow> (case utf8_head bs of
                   None \<Rightarrow> decode_ignore t
                 | Some (c, s) \<Rightarrow> c # decode_ignore s))"
  by pat_completeness auto
termination by (relation "measure length") (auto dest: utf8_head_shorter)

declare decode_ignore.simps [simp del]

section \<open>Decoding what was encoded\<close>

lemma decode_Nil [simp]: "decode_ignore [] = []"
  by (simp add: decode_ignore.simps)

lemma decode_skip: "utf8_head (b # bs) = None \<Longrightarrow> decode_ignore (b # bs) = decode_ignore bs"
  by (simp add: decode_ignore.simps [of "b # bs"])

lemma decode_head: "utf8_head bs = Some (c, s) \<Longrightarrow> decode_ignore bs = c # decode_ignore s"
  by (cases bs) (simp_all add: decode_ignore.simps)

text \<open>The six-bit groups of a code point.\<close>

lemma six_bits:
  obtains p q r t where "c = ((p * 64 + q) * 64 + r) * 64 + t" and "q < 64" "r < 64" "t < (64::nat)"
  by (rule that [of "c div 64 div 64 div 64" "c div 64 div 64 mod 64" "c div 64 mod 64" "c mod 64"])
     (simp_all only: div_mult_mod_eq mod_less_divisor zero_less_numeral)

lemma six_bits_div:
  assumes "q < 64" "r < 64" "t < (64::nat)"
  shows "(((p * 64 + q) * 64 + r) * 64 + t) mod 64 = t"
    and "(((p * 64 + q) * 64 + r) * 64 + t) div 64 = (p * 64 + q) * 64 + r"
    and "((p * 64 + q) * 64 + r) mod 64 = r"
    and "(((p * 64 + q) * 64 + r) * 64 + t) div 4096 = p * 64 + q"
    and "(p * 64 + q) mod 64 = q"
    and "(((p * 64 + q) * 64 + r) * 64 + t) div 262144 = p"
proof -
  have d: "(x * 64 + y) div 64 = x" "(x * 64 + y) mod 64 = y" if "y < 64" for x y :: nat using that by simp_all
  have m: "n div 4096 = n div 64 div 64" "n div 262144 = n div 64 div 64 div 64" for n :: nat
    by (simp_all add: div_mult2_eq [symmetric])
  show "(((p * 64 + q) * 64 + r) * 64 + t) mod 64 = t"
    "(((p * 64 + q) * 64 + r) * 64 + t) div 64 = (p * 64 + q) * 64 + r"
    "((p * 64 + q) * 64 + r) mod 64 = r"
    "(((p * 64 + q) * 64 + r) * 64 + t) div 4096 = p * 64 + q"
    "(p * 64 + q) mod 64 = q"
    "(((p * 64 + q) * 64 + r) * 64 + t) div 262144 = p"
    by (simp_all only: m d assms)
qed

lemma utf8_char_bits:
  assumes "q < 64" "r < 64" "t < (64::nat)" and c: "c = ((p * 64 + q) * 64 + r) * 64 + t"
  shows "utf8_char c =
     (if c < 0x80 then [c]
      else if c < 0x800 then [0xC0 + ((p * 64 + q) * 64 + r), 0x80 + t]
      else if c < 0x10000 then [0xE0 + (p * 64 + q), 0x80 + r, 0x80 + t]
      else [0xF0 + p, 0x80 + q, 0x80 + r, 0x80 + t])"
  unfolding utf8_char_def c by (simp only: six_bits_div [OF assms(1-3)])

lemma head_of_char: "scalar c \<Longrightarrow> utf8_head (utf8_char c @ s) = Some (c, s)"
proof -
  assume sc: "scalar c"
  obtain p q r t where c: "c = ((p * 64 + q) * 64 + r) * 64 + t" and b: "q < 64" "r < 64" "t < (64::nat)"
    by (rule six_bits)
  have small: "c < 0x110000" and ns: "\<not> surrogate c" using sc by (simp_all add: scalar_def)
  note u = utf8_char_bits [OF b c]
  consider "c < 0x80" | "0x80 \<le> c" "c < 0x800" | "0x800 \<le> c" "c < 0x10000" | "0x10000 \<le> c" by linarith
  then show ?thesis
  proof cases
    case 1
    then show ?thesis using u by (simp add: utf8_head.simps)
  next
    case 2
    then have pq: "p = 0" "q = 0" using c by simp_all
    then have "2 \<le> r" "r < 32" using c b 2 by simp_all
    with pq show ?thesis using u 2 b c by (simp add: utf8_head.simps continuation_def)
  next
    case 3
    then have "p = 0" "q < 16" using c by simp_all
    then show ?thesis using u 3 b ns c by (simp add: utf8_head.simps continuation_def Let_def mult.commute [of q])
  next
    case 4
    then have "p < 5" using small c by simp
    then show ?thesis using u 4 b small c by (simp add: utf8_head.simps continuation_def Let_def)
  qed
qed

lemma decode_char: "scalar c \<Longrightarrow> decode_ignore (utf8_char c @ s) = c # decode_ignore s"
  by (rule decode_head) (rule head_of_char)

lemma decode_encode: "list_all scalar cs \<Longrightarrow> decode_ignore (utf8_encode cs @ s) = cs @ decode_ignore s"
  by (induction cs) (simp_all add: utf8_encode_def decode_char)

text \<open>A sequence that is cut is dropped whole, from either side.\<close>

lemma continuation_skip: "continuation b \<Longrightarrow> decode_ignore (b # bs) = decode_ignore bs"
  by (rule decode_skip) (simp add: continuation_def utf8_head.simps)

lemma continuations_skip: "list_all continuation bs \<Longrightarrow> decode_ignore (bs @ s) = decode_ignore s"
  by (induction bs) (simp_all add: continuation_skip)

lemma char_bytes: "scalar c \<Longrightarrow> 0 < length (utf8_char c) \<and> length (utf8_char c) \<le> 4"
  by (simp add: utf8_char_def)

lemma char_tail: "list_all continuation (tl (utf8_char c))"
proof -
  obtain p q r t where c: "c = ((p * 64 + q) * 64 + r) * 64 + t" and b: "q < 64" "r < 64" "t < (64::nat)"
    by (rule six_bits)
  show ?thesis using b unfolding utf8_char_bits [OF b c] by (simp add: continuation_def)
qed

lemma char_suffix: "0 < m \<Longrightarrow> list_all continuation (drop m (utf8_char c))"
  using char_tail [of c] set_drop_subset [of "m - 1" "tl (utf8_char c)"]
  by (auto simp: list_all_iff drop_tl [symmetric] drop_Suc [symmetric] dest!: subsetD)

lemma decode_cut_char:
  assumes "scalar c" and "m < length (utf8_char c)"
  shows "decode_ignore (take m (utf8_char c)) = []"
proof (cases "take m (utf8_char c)")
  case (Cons a t)
  have "list_all continuation t"
    using char_tail [of c] Cons set_take_subset [of "m - 1" "tl (utf8_char c)"]
    by (cases m; cases "utf8_char c") (auto simp: list_all_iff take_Cons')
  then have "decode_ignore t = []" using continuations_skip [of t "[]"] by simp
  moreover have "utf8_head (a # t) = None"
  proof -
    have "length (utf8_char c) \<le> 4" using char_bytes [OF assms(1)] by simp
    then have "m = 1 \<or> m = 2 \<or> m = 3" using assms(2) Cons by (cases m) auto
    then show ?thesis
      using Cons assms by (auto simp: utf8_char_def scalar_def utf8_head.simps numeral_2_eq_2 numeral_3_eq_3 split: if_splits)
  qed
  ultimately show ?thesis using Cons by (simp add: decode_skip)
qed (simp only: decode_Nil)

lemma encode_Cons: "utf8_encode (c # cs) = utf8_char c @ utf8_encode cs"
  by (simp add: utf8_encode_def)

lemma encode_append [simp]: "utf8_encode (cs @ ds) = utf8_encode cs @ utf8_encode ds"
  by (simp add: utf8_encode_def)

lemma encode_Nil [simp]: "utf8_encode [] = []"
  by (simp add: utf8_encode_def)

lemma decode_take:
  assumes "list_all scalar cs" and "n \<le> length (utf8_encode cs)"
  shows "\<exists>h r. cs = h @ r \<and> decode_ignore (take n (utf8_encode cs)) = h \<and>
           length (utf8_encode h) \<le> n \<and> n < length (utf8_encode h) + 4"
  using assms
proof (induction cs arbitrary: n)
  case (Cons c cs)
  have c: "scalar c" using Cons.prems by simp
  show ?case
  proof (cases "n < length (utf8_char c)")
    case True
    then have "decode_ignore (take n (utf8_encode (c # cs))) = []"
      using decode_cut_char [OF c] by (simp add: encode_Cons)
    then show ?thesis using True char_bytes [OF c] by - (rule exI [of _ "[]"], rule exI [of _ "c # cs"], simp)
  next
    case False
    have n: "n - length (utf8_char c) \<le> length (utf8_encode cs)" using Cons.prems(2) by (simp add: encode_Cons)
    have cs: "list_all scalar cs" using Cons.prems(1) by simp
    obtain h r where h: "cs = h @ r" "decode_ignore (take (n - length (utf8_char c)) (utf8_encode cs)) = h"
      "length (utf8_encode h) \<le> n - length (utf8_char c)" "n - length (utf8_char c) < length (utf8_encode h) + 4"
      using Cons.IH [OF cs n] by blast
    have "decode_ignore (take n (utf8_encode (c # cs))) = c # h"
      using False by (simp add: encode_Cons decode_char [OF c] h(2))
    then show ?thesis using h False by - (rule exI [of _ "c # h"], rule exI [of _ r], auto simp: encode_Cons)
  qed
qed simp

lemma decode_drop:
  assumes "list_all scalar cs" and "n \<le> length (utf8_encode cs)"
  shows "\<exists>l t. cs = l @ t \<and> decode_ignore (drop n (utf8_encode cs)) = t \<and>
           length (utf8_encode t) \<le> length (utf8_encode cs) - n \<and>
           length (utf8_encode cs) - n < length (utf8_encode t) + 4"
  using assms
proof (induction cs arbitrary: n)
  case (Cons c cs)
  have c: "scalar c" and cs: "list_all scalar cs" using Cons.prems by simp_all
  have all: "decode_ignore (utf8_encode cs) = cs" using decode_encode [OF cs, of "[]"] by simp
  consider "n = 0" | "0 < n" "n < length (utf8_char c)" | "length (utf8_char c) \<le> n" by linarith
  then show ?case
  proof cases
    case 1
    then show ?thesis
      using decode_encode [OF Cons.prems(1), of "[]"] by - (rule exI [of _ "[]"], rule exI [of _ "c # cs"], simp)
  next
    case 2
    have "decode_ignore (drop n (utf8_encode (c # cs))) = cs"
      using continuations_skip [OF char_suffix [OF 2(1)], of c "utf8_encode cs"] 2 all by (simp add: encode_Cons)
    then show ?thesis
      using 2 char_bytes [OF c] by - (rule exI [of _ "[c]"], rule exI [of _ cs], auto simp: encode_Cons)
  next
    case 3
    then have n: "n - length (utf8_char c) \<le> length (utf8_encode cs)" using Cons.prems(2) by (simp add: encode_Cons)
    obtain l t where "cs = l @ t" "decode_ignore (drop (n - length (utf8_char c)) (utf8_encode cs)) = t"
      "length (utf8_encode t) \<le> length (utf8_encode cs) - (n - length (utf8_char c))"
      "length (utf8_encode cs) - (n - length (utf8_char c)) < length (utf8_encode t) + 4"
      using Cons.IH [OF cs n] by blast
    then show ?thesis using 3 by - (rule exI [of _ "c # l"], rule exI [of _ t], auto simp: encode_Cons)
  qed
qed simp

end
