(* ===== verification/Lifecycle.thy ===== *)
theory Lifecycle
  imports Checkpoints Utf8
begin

text \<open>
  src/src/mshkn/services/lifecycle.py and services/callback.py: running a command on a fresh
  computer, recording it, and then perhaps checkpointing and destroying the computer; and draining
  the queue of a label. Log lines are left out.

  The output a run leaves in its record is bounded in bytes of UTF-8; \<open>truncate_points\<close> is the
  function on code points, \<open>truncate_output\<close> the same on the model's texts.
\<close>

section \<open>Bounding the output\<close>

definition exec_log_output_bytes :: nat where
  "exec_log_output_bytes = 8192"

definition truncation_marker :: "nat \<Rightarrow> string" where
  "truncation_marker dropped = newline @ ''[mshkn: '' @ str_nat dropped @ '' bytes truncated]'' @ newline"

text \<open>\<open>data[-half:]\<close> is all of the data when half is 0.\<close>

definition last_bytes :: "nat \<Rightarrow> nat list \<Rightarrow> nat list" where
  "last_bytes half data = (if half = 0 then data else drop (length data - half) data)"

definition truncate_points :: "nat \<Rightarrow> nat list \<Rightarrow> nat list \<times> bool" where
  "truncate_points limit cs =
     (let data = utf8_encode cs
      in if length data \<le> limit then (cs, False)
         else let half = limit div 2;
                  front = decode_ignore (take half data);
                  back = decode_ignore (last_bytes half data);
                  dropped = length data - length (utf8_encode front) - length (utf8_encode back)
              in (front @ map of_char (truncation_marker dropped) @ back, True))"

definition truncate_output :: "string \<Rightarrow> string \<times> bool" where
  "truncate_output s =
     (case truncate_points exec_log_output_bytes (map of_char s) of (cs, b) \<Rightarrow> (map char_of cs, b))"

section \<open>Callbacks\<close>

text \<open>One POST; whether it was delivered. Any Exception counts as not delivered.\<close>

definition callback_attempt :: "'h env \<Rightarrow> string \<Rightarrow> json \<Rightarrow> ('h, bool) st" where
  "callback_attempt E url payload =
     catch_exception
       (bindE (hostop (wb_post (e_web E) url payload)) (\<lambda>status. ret (status < 500)))
       (\<lambda>_. ret False)"

fun callback_loop :: "'h env \<Rightarrow> string \<Rightarrow> json \<Rightarrow> nat \<Rightarrow> nat list \<Rightarrow> ('h, unit) st" where
  "callback_loop E url payload max_retries [] = ret ()"
| "callback_loop E url payload max_retries (attempt # rest) =
     bindE (callback_attempt E url payload) (\<lambda>delivered.
     if delivered then ret ()
     else seqE (whenE (Suc attempt < max_retries) (hostop (wb_sleep (e_web E) (1000 * 2 ^ attempt))))
               (callback_loop E url payload max_retries rest))"

definition deliver_callback :: "'h env \<Rightarrow> string \<Rightarrow> json \<Rightarrow> ('h, unit) st" where
  "deliver_callback E url payload = callback_loop E url payload 3 [0..<3]"

section \<open>One run\<close>

definition no_exec :: "computer \<Rightarrow> ephemeral_result" where
  "no_exec c = \<lparr>er_computer_id = c_id c, er_exec_exit_code = None, er_exec_exit_signal = None,
                er_exec_stdout = None, er_exec_stderr = None, er_created_checkpoint_id = None\<rparr>"

definition run_log ::
  "computer \<Rightarrow> string \<Rightarrow> exec_result \<Rightarrow> checkpoint option \<Rightarrow> string option \<Rightarrow> string \<Rightarrow> exec_log" where
  "run_log c command result source label now =
     \<lparr>el_computer_id = c_id c, el_account_id = c_account_id c,
      el_source_checkpoint_id = map_option ck_id source, el_created_checkpoint_id = None,
      el_label = label, el_command = command, el_exit_code = x_exit_code result,
      el_exit_signal = x_exit_signal result,
      el_stdout = fst (truncate_output (x_stdout result)),
      el_stderr = fst (truncate_output (x_stderr result)),
      el_stdout_truncated = snd (truncate_output (x_stdout result)),
      el_stderr_truncated = snd (truncate_output (x_stderr result)), el_created_at = now\<rparr>"

definition record_run ::
  "'h env \<Rightarrow> computer \<Rightarrow> string \<Rightarrow> exec_result \<Rightarrow> checkpoint option \<Rightarrow> string option \<Rightarrow> ('h, unit) st" where
  "record_run E c command result source label =
     bindE (utcnow E) (\<lambda>now. insert_exec_log (run_log c command result source label now))"

definition callback_payload ::
  "computer \<Rightarrow> checkpoint option \<Rightarrow> string option \<Rightarrow> exec_result \<Rightarrow> string \<Rightarrow> json" where
  "callback_payload c source label result created =
     JObj [(''computer_id'', JStr (c_id c)), (''checkpoint_id'', json_opt (map_option ck_id source)),
           (''label'', json_opt label), (''exec_exit_code'', JInt (x_exit_code result)),
           (''exec_exit_signal'', json_opt (x_exit_signal result)),
           (''exec_stdout'', JStr (x_stdout result)), (''exec_stderr'', JStr (x_stderr result)),
           (''created_checkpoint_id'', JStr created)]"

definition spawn_drain :: "account \<Rightarrow> string \<Rightarrow> ('h, unit) st" where
  "spawn_drain account label = spawn (TDrainDeferred account label) (''deferred:'' @ label) None"

text \<open>None and the empty text are both falsy.\<close>

definition truthy :: "string option \<Rightarrow> string option" where
  "truthy s = (case s of None \<Rightarrow> None | Some t \<Rightarrow> if t = [] then None else Some t)"

definition self_destruct ::
  "'h env \<Rightarrow> account \<Rightarrow> computer \<Rightarrow> exec_spec \<Rightarrow> checkpoint option \<Rightarrow> string option \<Rightarrow> exec_result \<Rightarrow>
   ('h, string) st" where
  "self_destruct E account c spec source label result =
     bindE (create_checkpoint E c label False TriggerSelfDestruct) (\<lambda>ckpt.
     seqE (set_exec_log_checkpoint (c_id c) (ck_id ckpt))
     (seqE (destroy E (c_id c))
     (seqE (case truthy (es_callback_url spec) of
              None \<Rightarrow> ret ()
            | Some url \<Rightarrow> spawn (TCallback url (callback_payload c source label result (ck_id ckpt)))
                                (''callback:'' @ c_id c) None)
     (seqE (case truthy label of None \<Rightarrow> ret () | Some l \<Rightarrow> spawn_drain account l)
           (ret (ck_id ckpt))))))"

definition run_ephemeral ::
  "'h env \<Rightarrow> account \<Rightarrow> computer \<Rightarrow> exec_spec \<Rightarrow> checkpoint option \<Rightarrow> ('h, ephemeral_result) st" where
  "run_ephemeral E account c spec source =
     (case es_command spec of
        None \<Rightarrow> ret (no_exec c)
      | Some command \<Rightarrow>
          bindE (exec_in E c command 300) (\<lambda>result.
          let label = (case source of Some s \<Rightarrow> ck_label s | None \<Rightarrow> es_label spec) in
          seqE (record_run E c command result source label)
          (bindE (if es_self_destruct spec
                  then bindE (self_destruct E account c spec source label result) (\<lambda>i. ret (Some i))
                  else ret None) (\<lambda>created.
           ret \<lparr>er_computer_id = c_id c, er_exec_exit_code = Some (x_exit_code result),
                er_exec_exit_signal = x_exit_signal result, er_exec_stdout = Some (x_stdout result),
                er_exec_stderr = Some (x_stderr result), er_created_checkpoint_id = created\<rparr>))))"

section \<open>The log\<close>

definition exec_log_of :: "account \<Rightarrow> string \<Rightarrow> ('h, exec_log) st" where
  "exec_log_of account computer_id =
     bindE (reads (get_exec_log computer_id)) (\<lambda>log.
     case log of
       None \<Rightarrow> raise_domain NotFound ''No exec log for that computer''
     | Some l \<Rightarrow> if el_account_id l \<noteq> a_id account
                 then raise_domain NotFound ''No exec log for that computer'' else ret l)"

definition date_overflow :: exc where
  "date_overflow = PyError ''OverflowError'' ''date value out of range''"

definition cutoff_text :: "'h env \<Rightarrow> int \<Rightarrow> ('h, string) st" where
  "cutoff_text E retention =
     bindE (utc_moment E) (\<lambda>now.
     case seconds_before now retention of None \<Rightarrow> raise date_overflow | Some t \<Rightarrow> ret (iso_text t))"

definition expire_exec_logs :: "'h env \<Rightarrow> ('h, int) st" where
  "expire_exec_logs E =
     (let retention = cf_exec_log_retention_seconds (e_config E) in
      if retention \<le> 0 then ret 0
      else bindE (cutoff_text E retention) delete_exec_logs_before)"

section \<open>Draining a label\<close>

definition drain_after_destroy :: "account \<Rightarrow> computer \<Rightarrow> ('h, unit) st" where
  "drain_after_destroy account c =
     bindE (source_label (a_id account) c) (\<lambda>label.
     case label of None \<Rightarrow> ret () | Some l \<Rightarrow> if l = [] then ret () else spawn_drain account l)"

text \<open>\<open>p.get(key)\<close> of a queued payload, if it is there and true. The column is written by
  \<open>defer_request\<close> only, so a value is a text, a boolean or null.\<close>

fun payload_text :: "string \<Rightarrow> json \<Rightarrow> string option" where
  "payload_text key (JObj kvs) = (case map_of kvs key of Some (JStr t) \<Rightarrow> truthy (Some t) | _ \<Rightarrow> None)"
| "payload_text key _ = None"

fun payload_flag :: "string \<Rightarrow> json \<Rightarrow> bool" where
  "payload_flag key (JObj kvs) = (map_of kvs key = Some (JBool True))"
| "payload_flag key _ = False"

definition last_given :: "string \<Rightarrow> json list \<Rightarrow> string option" where
  "last_given key payloads = first_row (List.map_filter (payload_text key) (rev payloads))"

definition queued_execs :: "json list \<Rightarrow> string list" where
  "queued_execs payloads = map (\<lambda>p. case payload_text ''exec'' p of None \<Rightarrow> [] | Some t \<Rightarrow> t) payloads"

definition batch_command :: "json list \<Rightarrow> string option" where
  "batch_command payloads =
     (case last_given ''meta_exec'' payloads of
        Some m \<Rightarrow> Some m
      | None \<Rightarrow> truthy (Some (join newline (filter (\<lambda>c. c \<noteq> []) (queued_execs payloads)))))"

definition batch_spec :: "string \<Rightarrow> json list \<Rightarrow> exec_spec" where
  "batch_spec label payloads =
     \<lparr>es_command = batch_command payloads,
      es_self_destruct = list_ex (payload_flag ''self_destruct'') payloads,
      es_callback_url = last_given ''callback_url'' payloads, es_label = Some label,
      es_meta_exec = last_given ''meta_exec'' payloads\<rparr>"

text \<open>A text between single quotes for the shell: a quote in it ends the quotes, stands escaped, and
  opens them again.\<close>

definition escape_quotes :: "string \<Rightarrow> string" where
  "escape_quotes s = concat (map (\<lambda>c. if c = squote then [squote, CHR 0x5C, squote, squote] else [c]) s)"

definition write_exec :: "nat \<times> string \<Rightarrow> string" where
  "write_exec p = (case p of (i, cmd) \<Rightarrow>
     ''printf '' @ [squote] @ ''%s'' @ [squote] @ '' '' @ [squote] @ escape_quotes cmd @ [squote] @
     '' > /tmp/exec/'' @ str_nat i @ ''.txt'')"

definition batch_writes :: "string list \<Rightarrow> string" where
  "batch_writes execs =
     join '' && '' (''mkdir -p /tmp/exec'' # map write_exec (zip [0..<length execs] execs))"

definition assertion_error :: exc where
  "assertion_error = PyError ''AssertionError'' []"

definition drain_batch :: "'h env \<Rightarrow> account \<Rightarrow> string \<Rightarrow> json list \<Rightarrow> ('h, unit) st" where
  "drain_batch E account label payloads =
     bindE (catchE
       (bindE (fork_by_label E account label (batch_spec label payloads) None (last_given ''recipe_id'' payloads) None)
              (\<lambda>r. ret (Some r)))
       (\<lambda>e. if is_class NotFound e then ret None else raise e)) (\<lambda>forked.
     case forked of
       None \<Rightarrow> ret ()
     | Some (latest, Deferred i) \<Rightarrow> raise assertion_error
     | Some (latest, Forked c) \<Rightarrow>
         bindE (exec_in E c (batch_writes (queued_execs payloads)) 300) (\<lambda>_.
         if batch_command payloads = None then ret ()
         else bindE (run_ephemeral E account c (batch_spec label payloads) (Some latest)) (\<lambda>_. ret ())))"

definition drain_deferred :: "'h env \<Rightarrow> account \<Rightarrow> string \<Rightarrow> ('h, unit) st" where
  "drain_deferred E account label =
     bindE (claim_deferred_by_label label) (\<lambda>items.
     if items = [] then ret ()
     else suppress (drain_batch E account label (map d_request_payload items)))"


section \<open>What a checkpoint and a run leave alone\<close>

text \<open>A predicate the steps of taking a checkpoint do not touch; and one that survives everything an
  ephemeral run does: bringing up, executing, recording, checkpointing, destroying and spawning.\<close>

locale snapshotting =
  fixes I :: "'h world \<Rightarrow> bool"
  assumes snap_host: "ignores_host I"
    and snap_metrics: "I w \<Longrightarrow> I (w\<lparr>w_metrics := m\<rparr>)"
    and snap_tasks: "I w \<Longrightarrow> I (w\<lparr>w_tasks := t\<rparr>)"
    and snap_checkpoints: "I w \<Longrightarrow> I (w_checkpoints_update f w)"
    and snap_volume: "I w \<Longrightarrow> I (w\<lparr>w_alloc := (w_alloc w)\<lparr>sa_next_volume_id := n\<rparr>\<rparr>)"
begin

lemmas snap_steps = keeps_host_steps [OF snap_host]

lemma volume_step: "keeps I (allocop acquire_volume_id)"
  by (auto simp: keeps_def allocop_def acquire_volume_id_def take_volume_id_def bindE_def seqE_def reads_def
      writes_def ret_def snap_volume)

lemma spawn_step: "keeps I (spawn t name key)"
  unfolding spawn_def by (rule keeps_writes) (rule snap_tasks)

lemma create_keeps: "keeps I (create_checkpoint E c label pin trigger)"
proof -
  have "keeps I (snapshot_memory E c i staged)" for i staged
    unfolding snapshot_memory_def by (intro keeps_intros snap_steps)
  moreover have "keeps I (snap_disk E v n)" for v n
    unfolding snap_disk_def by (intro keeps_intros snap_steps volume_step)
  moreover have "keeps I (insert_checkpoint k)" for k
    by (auto simp: keeps_def insert_checkpoint_def insert_row_def snap_checkpoints)
  moreover have "keeps I (staging_free_bytes E p)" for p
    unfolding staging_free_bytes_def by (intro keeps_intros snap_steps)
  moreover have "keeps I (inc_metric n l)" for n l
    unfolding inc_metric_def by (rule keeps_writes) (rule snap_metrics)
  ultimately show ?thesis
    unfolding create_checkpoint_def Let_def
    by (intro keeps_bindE keeps_seqE keeps_prod keeps_ret keeps_reads keeps_timed snap_steps spawn_step)
       (simp_all add: snap_metrics)
qed

end

context bystander
begin

lemma teardown_keeps: "keeps I (teardown E c)"
  unfolding teardown_def slot_of_def
  by (intro keeps_bindE cleanup_steps_keeps cleanup_step_keeps finish_step release_step status_step gauge_step
      keeps_option keeps_raise keeps_ret)
     (auto simp: host_steps split: option.splits if_splits)

lemma destroy_keeps: "keeps I (destroy E i)"
proof -
  have "keeps I (claim_teardown i)"
    unfolding claim_teardown_def Let_def
    by (intro keeps_bindE keeps_reads keeps_seqE keeps_ret keeps_writes) (rule of_computers)
  then show ?thesis
    unfolding destroy_def
    by (intro keeps_bindE keeps_reads keeps_option keeps_raise_domain keeps_if keeps_ret keeps_raise timed_step
        teardown_keeps)
qed

end

locale onlooker = bystander I for I :: "'h world \<Rightarrow> bool" +
  assumes of_busy: "I w \<Longrightarrow> I (w\<lparr>w_busy := b\<rparr>)"
begin

lemma exec_keeps: "keeps I (exec_in E c command timeout)"
proof -
  have "keeps I (touch_computer E c)"
    unfolding touch_computer_def update_last_exec_at_def
    by (intro keeps_bindE host_steps keeps_writes) (rule of_computers)
  moreover have "keeps I (set_busy i b)" for i b
    unfolding set_busy_def by (rule keeps_writes) (rule of_busy)
  ultimately show ?thesis
    unfolding exec_in_def by (intro keeps_seqE keeps_finallyE timed_step host_steps)
qed

end

locale outsider = onlooker I for I :: "'h world \<Rightarrow> bool" +
  assumes of_tasks: "I w \<Longrightarrow> I (w\<lparr>w_tasks := t\<rparr>)"
    and of_checkpoints: "I w \<Longrightarrow> I (w_checkpoints_update f w)"
    and of_logs: "I w \<Longrightarrow> I (w_exec_logs_update f' w)"

sublocale outsider \<subseteq> snapshotting I
  by unfold_locales (simp_all add: host of_metrics of_tasks of_checkpoints of_alloc)

context outsider
begin

lemma record_keeps: "keeps I (record_run E c command result source label)"
  unfolding record_run_def
  by (intro keeps_bindE host_steps) (auto simp: keeps_def insert_exec_log_def insert_row_def of_logs)

lemma set_log_keeps: "keeps I (set_exec_log_checkpoint i k)"
  unfolding set_exec_log_checkpoint_def by (rule keeps_writes) (rule of_logs)

lemma self_destruct_keeps: "keeps I (self_destruct E account c spec source label result)"
  unfolding self_destruct_def spawn_drain_def
  by (intro keeps_bindE keeps_seqE keeps_option keeps_ret create_keeps set_log_keeps destroy_keeps spawn_step)

lemma run_keeps: "keeps I (run_ephemeral E account c spec source)"
  unfolding run_ephemeral_def Let_def
  by (intro keeps_option keeps_bindE keeps_seqE keeps_if keeps_ret exec_keeps record_keeps self_destruct_keeps)

end

interpretation queue: outsider "queue_is Q" for Q
  by unfold_locales (simp_all add: queue_is_def)


lemma fork_label_keeps:
  "bystander I \<Longrightarrow> keeps I (fork_by_label E account l spec None r key)"
  unfolding fork_by_label_def latest_for_label_def admit_def fork_admitted_def
  by (auto intro!: keeps_bindE keeps_reads keeps_ret keeps_option keeps_raise_domain bystander.fork_keeps split: option.splits)

lemma batch_keeps: "outsider I \<Longrightarrow> keeps I (drain_batch E account l ps)"
proof -
  assume o: "outsider I"
  then have n: "onlooker I" and b: "bystander I"
    by (simp_all add: outsider_def onlooker_def)
  show ?thesis
    unfolding drain_batch_def
    by (intro keeps_bindE keeps_catchE fork_label_keeps [OF b] keeps_ret keeps_if keeps_raise keeps_option keeps_prod)
       (auto intro!: keeps_bindE keeps_ret keeps_raise keeps_if onlooker.exec_keeps [OF n] outsider.run_keeps [OF o]
         split: admitted.splits)
qed

section \<open>A run and its record\<close>

definition logged ::
  "computer \<Rightarrow> string \<Rightarrow> exec_result \<Rightarrow> checkpoint option \<Rightarrow> string option \<Rightarrow> string option \<Rightarrow> 'h world \<Rightarrow> bool" where
  "logged c command result source label created w \<longleftrightarrow>
     (\<exists>now. get_exec_log (c_id c) w =
        Some ((run_log c command result source label now)\<lparr>el_created_checkpoint_id := created\<rparr>))"

definition running_at :: "string \<Rightarrow> int \<Rightarrow> 'h world \<Rightarrow> bool" where
  "running_at i slot w \<longleftrightarrow>
     (\<exists>c. get_computer i w = Some c \<and> c_status c = Running \<and> computer_slot c = Some slot) \<and>
     computers.keyed w \<and> alloc_inv (w_alloc w)"

definition parts :: "exec_log list \<Rightarrow> checkpoint list \<Rightarrow> 'h world \<Rightarrow> bool" where
  "parts L C w \<longleftrightarrow> w_exec_logs w = L \<and> w_checkpoints w = C"

interpretation parts: onlooker "parts L C" for L C
  by unfold_locales (simp_all add: parts_def ignores_host_def)

interpretation logged: snapshotting "logged c command result source label created"
  for c command result source label created
  by unfold_locales (simp_all add: logged_def get_exec_log_def ignores_host_def)

interpretation running_at: snapshotting "running_at i slot" for i slot
  by unfold_locales (simp_all add: running_at_def get_computer_def ignores_host_def computers.keyed_def alloc_inv_def)

lemma running_at_row:
  "running_at i slot w \<longleftrightarrow>
     (\<exists>c. computers.row i w = Some c \<and> c_status c = Running \<and> computer_slot c = Some slot) \<and>
     computers.keyed w \<and> alloc_inv (w_alloc w)"
  by (simp add: running_at_def get_computer_def computers.row_def)

lemma running_touch: "keeps (running_at i slot) (update_last_exec_at j t)"
  unfolding update_last_exec_at_def
proof (rule keeps_writes)
  fix w :: "'h world" assume r: "running_at i slot w"
  then obtain c where c: "computers.row i w = Some c" "c_status c = Running" "computer_slot c = Some slot"
    by (auto simp: running_at_row)
  let ?g = "c_last_exec_at_update (\<lambda>_. Some t)"
  have "computers.row i (w_computers_update (update_where (\<lambda>c. c_id c = j) ?g) w) =
      Some (if c_id c = j then ?g c else c)"
    using computers.row_after_update [of ?g i "\<lambda>c. c_id c = j" w] c by simp
  moreover have "computer_slot (if c_id c = j then ?g c else c) = Some slot"
    using c by (simp add: computer_slot_def)
  moreover have "c_status (if c_id c = j then ?g c else c) = Running" using c by simp
  ultimately show "running_at i slot (w_computers_update (update_where (\<lambda>c. c_id c = j) ?g) w)"
    using r unfolding running_at_row by (auto simp: computers.update_keeps)
qed

lemma running_exec: "keeps (running_at i slot) (exec_in E c command timeout)"
proof -
  have h: "ignores_host (running_at i slot)" by (rule running_at.snap_host)
  have "keeps (running_at i slot) (set_busy j b)" for j b
    unfolding set_busy_def
    by (rule keeps_writes) (simp add: running_at_def get_computer_def computers.keyed_def)
  moreover have "keeps (running_at i slot) (touch_computer E c)"
    unfolding touch_computer_def by (intro keeps_bindE keeps_host_steps [OF h] running_touch)
  moreover have "keeps (running_at i slot) (timed n (hostop m))" for n m
    by (intro keeps_timed keeps_host_steps [OF h]) (rule running_at.snap_metrics)
  ultimately show ?thesis unfolding exec_in_def by (intro keeps_seqE keeps_finallyE)
qed

lemma running_after_logs: "running_at i slot (w_exec_logs_update f w) = running_at i slot w"
  by (simp add: running_at_def get_computer_def computers.keyed_def)

lemma ignores_conj: "ignores_host I \<Longrightarrow> ignores_host J \<Longrightarrow> ignores_host (\<lambda>w. I w \<and> J w)"
  by (simp add: ignores_host_def)

lemma record_run_wp:
  fixes w :: "'h world"
  assumes "parts L C w" and "running_at i slot w" and "get_exec_log (c_id c) w = None"
  shows "wp (record_run E c command result source label)
     (\<lambda>_ w'. logged c command result source label None w' \<and> running_at i slot w' \<and> w_checkpoints w' = C) (\<lambda>_ _. False) w"
proof -
  have ins: "wp (insert_exec_log (run_log c command result source label now))
     (\<lambda>_ w'. logged c command result source label None w' \<and> running_at i slot w' \<and> w_checkpoints w' = C) (\<lambda>_ _. False) v"
    if v: "parts L C v" "running_at i slot v" for v :: "'h world" and now
  proof -
    have none: "find (\<lambda>l. el_computer_id l = c_id c) L = None"
      using assms(1,3) by (simp add: parts_def get_exec_log_def)
    let ?l = "run_log c command result source label now"
    have "find (\<lambda>l. el_computer_id l = c_id c) (L @ [?l]) = Some ?l"
      using none by (induction L) (auto simp: run_log_def split: if_splits)
    then have "logged c command result source label None (w_exec_logs_update (\<lambda>rows. rows @ [?l]) v)"
      using v(1) unfolding logged_def by (intro exI [of _ now]) (simp add: get_exec_log_def parts_def run_log_def)
    moreover have "\<not> list_ex (\<lambda>s. el_computer_id ?l = el_computer_id s) L"
      using none by (auto simp: find_None_iff list_ex_iff run_log_def)
    ultimately show ?thesis
      using v by (simp add: insert_exec_log_def wp_insert_row parts_def running_after_logs)
  qed
  let ?I = "\<lambda>w :: 'h world. parts L C w \<and> running_at i slot w"
  have k: "ignores_host ?I"
    by (rule ignores_conj) (rule parts.host, rule running_at.snap_host)
  have "wp (hostop (\<lambda>h. case os_now (h_os (e_host E)) h of (t, h') \<Rightarrow> (Inr (iso_text t), h')))
     (\<lambda>_. ?I) (\<lambda>_ _. False) w"
    using k assms(1,2) by (simp add: wp_hostop wp_def ignores_host_def split: prod.splits)
  then show ?thesis
    unfolding record_run_def wp_bindE utcnow_def by (rule wp_mono) (use ins in auto)
qed

definition gone :: "string \<Rightarrow> 'h world \<Rightarrow> bool" where
  "gone i w \<longleftrightarrow> (\<forall>q\<in>set (w_computers w). c_id q = i \<longrightarrow> c_status q = Destroyed)"

text \<open>How a run with self-destruct ends: with a new head and the computer gone, or with an error that
  leaves the record.\<close>

definition run_ended ::
  "computer \<Rightarrow> string \<Rightarrow> exec_result \<Rightarrow> checkpoint option \<Rightarrow> string option \<Rightarrow> checkpoint list \<Rightarrow> string \<Rightarrow>
   'h world \<Rightarrow> bool" where
  "run_ended c command result source label C created w \<longleftrightarrow>
     (\<exists>k. w_checkpoints w = C @ [k] \<and> ck_id k = created \<and> ck_label k = label \<and>
          ck_computer_id k = Some (c_id c)) \<and>
     logged c command result source label (Some created) w \<and> gone (c_id c) w"

definition record_kept ::
  "computer \<Rightarrow> string \<Rightarrow> exec_result \<Rightarrow> checkpoint option \<Rightarrow> string option \<Rightarrow> 'h world \<Rightarrow> bool" where
  "record_kept c command result source label w \<longleftrightarrow> (\<exists>created. logged c command result source label created w)"

lemma set_log_wp:
  assumes "logged c command result source label created w"
  shows "wp (set_exec_log_checkpoint (c_id c) i)
     (\<lambda>_ w'. logged c command result source label (Some i) w' \<and>
        (\<exists>f. w' = w_exec_logs_update f w)) (\<lambda>_ _. False) w"
proof -
  let ?g = "el_created_checkpoint_id_update (\<lambda>_. Some i)"
  let ?u = "update_where (\<lambda>l. el_computer_id l = c_id c) ?g"
  obtain now where n: "exec_logs.row (c_id c) w = Some ((run_log c command result source label now)\<lparr>el_created_checkpoint_id := created\<rparr>)"
    using assms by (auto simp: logged_def get_exec_log_def exec_logs.row_def)
  have "exec_logs.row (c_id c) (w_exec_logs_update ?u w) =
      Some ((run_log c command result source label now)\<lparr>el_created_checkpoint_id := Some i\<rparr>)"
    using exec_logs.row_after_update [of ?g "c_id c" "\<lambda>l. el_computer_id l = c_id c" w] n
    by (simp add: run_log_def)
  then have "logged c command result source label (Some i) (w_exec_logs_update ?u w)"
    by (auto simp: logged_def get_exec_log_def exec_logs.row_def)
  then show ?thesis by (auto simp: set_exec_log_checkpoint_def wp_writes)
qed

interpretation logged: bystander "logged c command result source label created"
  for c command result source label created
  by unfold_locales (simp_all add: logged_def get_exec_log_def ignores_host_def)

lemma torn_down_gone: "torn_down i slot C A w \<Longrightarrow> gone i w"
proof -
  assume "torn_down i slot C A w"
  then have "w_computers w = update_where (\<lambda>c. c_id c = i) (c_status_update (\<lambda>_. Destroyed)) C"
    by (simp add: torn_down_def)
  then have s: "set (w_computers w) = (\<lambda>c. if c_id c = i then c_status_update (\<lambda>_. Destroyed) c else c) ` set C"
    by (simp only: update_where_def set_map)
  show ?thesis
    unfolding gone_def s by (rule ballI, erule imageE) (simp split: if_splits)
qed

lemma destroy_gone_wp:
  assumes "running_at (c_id c) slot w"
  shows "wp (destroy E (c_id c)) (\<lambda>_ w'. gone (c_id c) w') (\<lambda>_ _. True) w"
proof -
  obtain q where q: "get_computer (c_id c) w = Some q" "c_status q = Running" "computer_slot q = Some slot"
    and k: "computers.keyed w" "alloc_inv (w_alloc w)"
    using assms by (auto simp: running_at_def)
  show ?thesis
    by (rule wp_mono [OF destroy_wp [OF q(1,2) k(1) q(3) k(2)]]) (erule torn_down_gone, rule TrueI)
qed

lemma spawned_same:
  "run_ended c command result source label C i (w\<lparr>w_tasks := t\<rparr>) = run_ended c command result source label C i w"
  by (simp add: run_ended_def logged_def get_exec_log_def gone_def)

lemma self_destruct_wp:
  assumes "logged c command result source label None w" and "running_at (c_id c) slot w" and "w_checkpoints w = C"
  shows "wp (self_destruct E account c spec source label result)
     (run_ended c command result source label C) (\<lambda>_. record_kept c command result source label) w"
proof -
  let ?L = "logged c command result source label" and ?R = "running_at (c_id c) slot"
  let ?K = "\<lambda>k w. w_checkpoints w = C @ [k] \<and> ck_label k = label \<and> ck_computer_id k = Some (c_id c)"
  let ?tail = "\<lambda>k. seqE (case truthy (es_callback_url spec) of
              None \<Rightarrow> ret ()
            | Some url \<Rightarrow> spawn (TCallback url (callback_payload c source label result (ck_id k)))
                                (''callback:'' @ c_id c) None)
     (seqE (case truthy label of None \<Rightarrow> ret () | Some l \<Rightarrow> spawn_drain account l)
           (ret (ck_id k)))"
  have tail: "wp (?tail k) (run_ended c command result source label C) (\<lambda>_. record_kept c command result source label) v"
    if "run_ended c command result source label C (ck_id k) v" for k and v :: "'a world"
    using that
    by (simp add: wp_seqE wp_ret spawn_drain_def spawn_def wp_writes spawned_same split: option.splits)
  have destr: "wp (destroy E (c_id c)) (\<lambda>_. run_ended c command result source label C (ck_id k))
       (\<lambda>_. record_kept c command result source label) v"
    if v: "?L (Some (ck_id k)) v" "?R v" "?K k v" for k and v :: "'a world"
  proof -
    have "keeps (\<lambda>w. ?L (Some (ck_id k)) w \<and> rows_are (C @ [k]) w) (destroy E (c_id c))"
      by (intro keeps_conj bystander.destroy_keeps logged.bystander_axioms rows.bystander_axioms)
    from keeps_wp [OF this, of v] have "wp (destroy E (c_id c))
       (\<lambda>_ w. ?L (Some (ck_id k)) w \<and> rows_are (C @ [k]) w) (\<lambda>_ w. ?L (Some (ck_id k)) w \<and> rows_are (C @ [k]) w) v"
      using v by (simp add: rows_are_def)
    from wp_conj [OF this destroy_gone_wp [OF v(2), of E]] show ?thesis
      by (rule wp_mono) (use v(3) in \<open>auto simp: run_ended_def record_kept_def rows_are_def\<close>)
  qed
  have rest: "wp (seqE (set_exec_log_checkpoint (c_id c) (ck_id k)) (seqE (destroy E (c_id c)) (?tail k)))
       (run_ended c command result source label C) (\<lambda>_. record_kept c command result source label) v"
    if v: "?L None v" "?R v" "?K k v" for k and v :: "'a world"
  proof -
    have "wp (set_exec_log_checkpoint (c_id c) (ck_id k)) (\<lambda>_ v. ?L (Some (ck_id k)) v \<and> ?R v \<and> ?K k v) (\<lambda>_ _. False) v"
      by (rule wp_mono [OF set_log_wp [OF v(1)]]) (use v(2,3) in \<open>auto simp: running_after_logs\<close>)
    then show ?thesis
      unfolding wp_seqE [of "set_exec_log_checkpoint a b" for a b] wp_seqE [of "destroy E i" for E i]
    proof (rule wp_mono)
      fix a and u :: "'a world" assume "?L (Some (ck_id k)) u \<and> ?R u \<and> ?K k u"
      then have "wp (destroy E (c_id c)) (\<lambda>_. run_ended c command result source label C (ck_id k))
          (\<lambda>_. record_kept c command result source label) u"
        by (intro destr) simp_all
      then show "wp (destroy E (c_id c)) (\<lambda>_. wp (?tail k) (run_ended c command result source label C)
          (\<lambda>_. record_kept c command result source label)) (\<lambda>_. record_kept c command result source label) u"
        by (rule wp_mono) (erule tail, assumption)
    qed simp
  qed
  have "wp (create_checkpoint E c label False TriggerSelfDestruct)
      (\<lambda>k v. ?L None v \<and> ?R v \<and> ?K k v) (\<lambda>_. record_kept c command result source label) w"
    using wp_conj [OF create_checkpoint_wp [of E c label False TriggerSelfDestruct w]
        wp_conj [OF keeps_wp [OF logged.create_keeps assms(1)] keeps_wp [OF running_at.create_keeps assms(2)]]]
    by (rule wp_mono) (use assms(3) in \<open>auto simp: row_added_def record_kept_def\<close>)
  then show ?thesis
    unfolding self_destruct_def wp_bindE
    by (rule wp_mono) (use rest in blast)+
qed

section \<open>Reading a shell word\<close>

text \<open>The shell's reading of one word: between single quotes every character stands for itself, outside
  them a backslash takes the next one and a space ends the word. The word and what follows it.\<close>

fun sh_word :: "bool \<Rightarrow> string \<Rightarrow> string \<times> string" where
  "sh_word quoted [] = ([], [])"
| "sh_word quoted [c] = (if c = squote \<or> (\<not> quoted \<and> c = CHR 0x5C) then ([], []) else ([c], []))"
| "sh_word quoted (c # d # s) =
     (if quoted
      then (if c = squote then sh_word False (d # s) else apfst ((#) c) (sh_word True (d # s)))
      else if c = squote then sh_word True (d # s)
      else if c = CHR 0x5C then apfst ((#) d) (sh_word False s)
      else if c = CHR '' '' then ([], c # d # s)
      else apfst ((#) c) (sh_word False (d # s)))"

lemma sh_word_plain: "c \<noteq> squote \<Longrightarrow> s \<noteq> [] \<Longrightarrow> sh_word True (c # s) = apfst ((#) c) (sh_word True s)"
  by (cases s) simp_all

lemma escape_quotes_Cons:
  "escape_quotes (c # s) = (if c = squote then [squote, CHR 0x5C, squote, squote] else [c]) @ escape_quotes s"
  by (simp add: escape_quotes_def)

lemma sh_word_escape:
  "rest \<noteq> [] \<Longrightarrow> sh_word True (escape_quotes cmd @ squote # CHR '' '' # rest) = (cmd, CHR '' '' # rest)"
proof (induction cmd)
  case Nil
  then show ?case by (cases rest) (simp_all add: escape_quotes_def squote_def)
next
  case (Cons c cmd)
  let ?t = "escape_quotes cmd @ squote # CHR '' '' # rest"
  have t: "?t \<noteq> []" by simp
  show ?case
  proof (cases "c = squote")
    case True
    have "sh_word False (squote # ?t) = sh_word True ?t"
      using t by (cases ?t) simp_all
    then have "sh_word True ([squote, CHR 0x5C, squote, squote] @ ?t) = (squote # cmd, CHR '' '' # rest)"
      using Cons by (simp add: squote_def)
    then show ?thesis using True by (simp add: escape_quotes_Cons)
  next
    case False
    then show ?thesis using Cons t by (simp add: escape_quotes_Cons sh_word_plain)
  qed
qed

section \<open>Properties\<close>

text \<open>A recorded output is the output itself when it fits in the limit, and otherwise a head and
  a tail of it around a marker that names how many bytes are missing; no character is cut or
  changed, and head and tail fill their halves of the limit up to at most three bytes each.\<close>

lemma truncate_exact:
  assumes "list_all scalar cs" and "2 \<le> limit"
  shows "if length (utf8_encode cs) \<le> limit then truncate_points limit cs = (cs, False)
         else \<exists>front gap back. cs = front @ gap @ back \<and>
           truncate_points limit cs =
             (front @ map of_char (truncation_marker (length (utf8_encode gap))) @ back, True) \<and>
           length (utf8_encode front) \<le> limit div 2 \<and> limit div 2 < length (utf8_encode front) + 4 \<and>
           length (utf8_encode back) \<le> limit div 2 \<and> limit div 2 < length (utf8_encode back) + 4"
proof (cases "length (utf8_encode cs) \<le> limit")
  case True
  then show ?thesis by (simp add: truncate_points_def)
next
  case False
  let ?d = "utf8_encode cs" and ?h = "limit div 2"
  have h: "?h \<le> length ?d" "0 < ?h" "length ?d - ?h \<le> length ?d" using False assms(2) by auto
  obtain a r where a: "cs = a @ r" "decode_ignore (take ?h ?d) = a" "length (utf8_encode a) \<le> ?h"
    "?h < length (utf8_encode a) + 4"
    using decode_take [OF assms(1) h(1)] by blast
  obtain l b where b: "cs = l @ b" "decode_ignore (drop (length ?d - ?h) ?d) = b"
    "length (utf8_encode b) \<le> length ?d - (length ?d - ?h)" "length ?d - (length ?d - ?h) < length (utf8_encode b) + 4"
    using decode_drop [OF assms(1) h(3)] by blast
  have len: "length (utf8_encode a) \<le> length (utf8_encode l)"
  proof -
    have "length ?d = length (utf8_encode l) + length (utf8_encode b)" unfolding b(1) by simp
    then show ?thesis using a(3) b(3) False by linarith
  qed
  have "\<exists>g. l = a @ g"
  proof -
    obtain us where "(a = l @ us \<and> us @ r = b) \<or> (a @ us = l \<and> r = us @ b)"
      using a(1) b(1) append_eq_append_conv2 [of a r l b] by auto
    then show ?thesis
    proof (elim disjE conjE)
      assume us: "a = l @ us" "us @ r = b"
      have "list_all scalar us" using assms(1) a(1) us(1) by simp
      then have "us = []" using len us(1) char_bytes by (cases us) (auto simp: encode_Cons)
      then show ?thesis using us by simp
    qed auto
  qed
  then obtain g where g: "l = a @ g" by blast
  have cs: "cs = a @ g @ b" using b(1) g by simp
  have "length ?d - length (utf8_encode a) - length (utf8_encode b) = length (utf8_encode g)"
    unfolding cs by simp
  then have "truncate_points limit cs = (a @ map of_char (truncation_marker (length (utf8_encode g))) @ b, True)"
    using False h(2) by (simp add: truncate_points_def Let_def last_bytes_def a(2) b(2))
  moreover have "length (utf8_encode b) \<le> ?h" "?h < length (utf8_encode b) + 4" using b(3,4) h by simp_all
  ultimately show ?thesis using False cs a(3,4) by auto
qed

lemma truncate_exact_witness:
  "\<exists>front gap back. [0x61, 0x20AC, 0x62] = front @ gap @ back \<and>
     truncate_points 4 [0x61, 0x20AC, 0x62] =
       (front @ map of_char (truncation_marker (length (utf8_encode gap))) @ back, True)"
proof -
  have s: "list_all scalar [0x61, 0x20AC, 0x62]" and n: "(2::nat) \<le> 4" by (simp_all add: scalar_def surrogate_def)
  have "\<not> length (utf8_encode [0x61, 0x20AC, 0x62]) \<le> 4" by (simp add: utf8_encode_def utf8_char_def)
  then show ?thesis using truncate_exact [OF s n] by auto
qed

text \<open>The script a drain writes its requests with quotes each of them exactly: the word the shell
  reads after \<open>printf '%s'\<close> is the request's command, whatever characters it has, and what
  follows it is the redirection to the request's own file.\<close>

lemma batch_quotes_exactly:
  "\<exists>rest. write_exec (i, cmd) = ''printf '' @ [squote] @ ''%s'' @ [squote] @ '' '' @ rest \<and>
     sh_word False rest = (cmd, '' > /tmp/exec/'' @ str_nat i @ ''.txt'')"
proof -
  let ?tail = "''> /tmp/exec/'' @ str_nat i @ ''.txt''"
  have "sh_word False (squote # escape_quotes cmd @ squote # CHR '' '' # ?tail) = (cmd, CHR '' '' # ?tail)"
    using sh_word_escape [of ?tail cmd] by (cases "escape_quotes cmd @ squote # CHR '' '' # ?tail") simp_all
  then show ?thesis
    by (intro exI [of _ "squote # escape_quotes cmd @ squote # CHR '' '' # ?tail"]) (simp add: write_exec_def)
qed

text \<open>A drain takes every queued request of its label exactly once, in one batch, whatever then
  happens to the computer they run on: afterwards the queue holds the requests of the other
  labels and no others. The account plays no part in it.\<close>

lemma drain_takes_label:
  "w_deferred (run_state (drain_deferred E account l) w) = filter (\<lambda>d. d_label d \<noteq> l) (w_deferred w)"
proof -
  let ?Q = "filter (\<lambda>d. d_label d \<noteq> l) (w_deferred w)"
  let ?is = "sort_key d_created_at (sort_key d_id (filter (\<lambda>d. d_label d = l) (w_deferred w)))"
  have k: "keeps (queue_is ?Q) (suppress (drain_batch E account l ps))" for ps
    by (intro keeps_suppress batch_keeps queue.outsider_axioms)
  have run: "run_state (drain_deferred E account l) w =
      run_state (if ?is = [] then ret () else suppress (drain_batch E account l (map d_request_payload ?is)))
        (w_deferred_update (filter (\<lambda>d. d_label d \<noteq> l)) w)"
    by (simp add: run_state_def drain_deferred_def claim_deferred_by_label_def bindE_def seqE_def reads_def writes_def ret_def)
  have "queue_is ?Q (run_state (drain_deferred E account l) w)"
    unfolding run by (rule keepsD) (intro keeps_if keeps_ret k, simp add: queue_is_def)
  then show ?thesis by (simp add: queue_is_def)
qed


text \<open>C15: a run with self-destruct on a running computer, once its command has returned, is on record
  whatever the machine does next. If it returns, the chain has exactly one new checkpoint, of the
  run's label and computer, the record and the result name it, and the computer is destroyed; if
  it raises, the record of the command and its output is still there.\<close>

theorem run_ephemeral_settles:
  fixes source :: "checkpoint option"
  defines "label \<equiv> (\<lambda>spec. case source of Some s \<Rightarrow> ck_label s | None \<Rightarrow> es_label spec)"
  assumes "es_command spec = Some command" and "es_self_destruct spec" and "running_at (c_id c) slot w"
    and "get_exec_log (c_id c) w = None" and "outcome (exec_in E c command 300) w = Inr result"
  shows "case outcome (run_ephemeral E account c spec source) w of
           Inr r \<Rightarrow> er_exec_stdout r = Some (x_stdout result) \<and>
             (\<exists>i. er_created_checkpoint_id r = Some i \<and>
                  run_ended c command result source (label spec) (w_checkpoints w) i
                    (run_state (run_ephemeral E account c spec source) w))
         | Inl e \<Rightarrow> record_kept c command result source (label spec)
                      (run_state (run_ephemeral E account c spec source) w)"
proof -
  let ?l = "label spec"
  let ?Q = "\<lambda>r v. er_exec_stdout r = Some (x_stdout result) \<and> (\<exists>i. er_created_checkpoint_id r = Some i \<and>
      run_ended c command result source ?l (w_checkpoints w) i v)"
  let ?R = "\<lambda>_. record_kept c command result source ?l"
  obtain w1 where x: "exec_in E c command 300 w = (Inr result, w1)"
    using assms(6) by (cases "exec_in E c command 300 w") (simp add: outcome_def)
  have p: "parts (w_exec_logs w) (w_checkpoints w) w1"
    using parts.exec_keeps [of "w_exec_logs w" "w_checkpoints w" E c command 300] x
    by (auto simp: keeps_def parts_def dest!: spec [of _ w])
  have r: "running_at (c_id c) slot w1"
    using running_exec [of "c_id c" slot E c command 300] assms(4) x by (auto simp: keeps_def dest!: spec [of _ w])
  have n: "get_exec_log (c_id c) w1 = None" using p assms(5) by (simp add: parts_def get_exec_log_def)
  have sd: "wp (self_destruct E account c spec source ?l result) (run_ended c command result source ?l (w_checkpoints w)) ?R v"
    if "logged c command result source ?l None v \<and> running_at (c_id c) slot v \<and> w_checkpoints v = w_checkpoints w" for v
    using that by (intro self_destruct_wp [where slot = slot]) simp_all
  have "wp (record_run E c command result source ?l)
     (\<lambda>_. wp (self_destruct E account c spec source ?l result) (run_ended c command result source ?l (w_checkpoints w)) ?R) ?R w1"
    by (rule wp_mono [OF record_run_wp [OF p r n]]) (erule sd, simp)
  then have body: "wp (record_run E c command result source ?l)
     (\<lambda>_. wp (self_destruct E account c spec source ?l result)
        (\<lambda>i. ?Q \<lparr>er_computer_id = c_id c, er_exec_exit_code = Some (x_exit_code result),
                er_exec_exit_signal = x_exit_signal result, er_exec_stdout = Some (x_stdout result),
                er_exec_stderr = Some (x_stderr result), er_created_checkpoint_id = Some i\<rparr>) ?R) ?R w1"
    by (rule wp_mono) (erule wp_mono, simp_all)
  have "wp (run_ephemeral E account c spec source) ?Q ?R w"
    using body assms(2,3) x by (simp add: run_ephemeral_def Let_def label_def wp_def [of "exec_in _ _ _ _"] wp_bindE wp_seqE wp_ret)
  then show ?thesis by (simp add: wp_outcome split: sum.splits)
qed

definition ls_spec :: exec_spec where
  "ls_spec = \<lparr>es_command = Some ''ls'', es_self_destruct = True, es_callback_url = None,
              es_label = Some ''main'', es_meta_exec = None\<rparr>"

lemma run_ephemeral_settles_witness:
  "case outcome (run_ephemeral fake_env demo_account demo_computer ls_spec None) one_computer of
     Inr r \<Rightarrow> er_exec_stdout r = Some (x_stdout default_exec) \<and>
       (\<exists>i. er_created_checkpoint_id r = Some i \<and>
            run_ended demo_computer ''ls'' default_exec None (Some ''main'') (w_checkpoints one_computer) i
              (run_state (run_ephemeral fake_env demo_account demo_computer ls_spec None) one_computer))
   | Inl e \<Rightarrow> record_kept demo_computer ''ls'' default_exec None (Some ''main'')
                (run_state (run_ephemeral fake_env demo_account demo_computer ls_spec None) one_computer)"
proof -
  have r: "running_at (c_id demo_computer) 1 one_computer"
    using one_computer_alloc demo_slot
    by (simp add: running_at_def get_computer_def computers.keyed_def) (simp add: one_computer_def demo_computer_def)
  have n: "get_exec_log (c_id demo_computer) one_computer = None"
    by (simp add: get_exec_log_def one_computer_def new_world_def)
  have x: "outcome (exec_in fake_env demo_computer ''ls'' 300) one_computer = Inr default_exec"
    by code_simp
  have l: "es_command ls_spec = Some ''ls''" "es_self_destruct ls_spec" "es_label ls_spec = Some ''main''"
    by (simp_all add: ls_spec_def)
  show ?thesis
    using run_ephemeral_settles [where source = None, OF l(1,2) r n x, of demo_account] unfolding option.case l(3) .
qed

text \<open>With retention set, expiring the execution logs deletes exactly those that were made more than
  the retention before now, and says how many: comparing the texts of the times in SQL is comparing
  the times.\<close>

lemma expire_exact:
  assumes "0 < cf_exec_log_retention_seconds (e_config E)" and "list_all stamped (map el_created_at (w_exec_logs w))"
    and "os_now (h_os (e_host E)) (w_host w) = (now, h)"
    and "seconds_before now (cf_exec_log_retention_seconds (e_config E)) = Some t"
  shows "w_exec_logs (run_state (expire_exec_logs E) w) =
           filter (\<lambda>l. t \<le> the (moment_of (el_created_at l))) (w_exec_logs w) \<and>
         outcome (expire_exec_logs E) w =
           Inr (int (length (filter (\<lambda>l. the (moment_of (el_created_at l)) < t) (w_exec_logs w))))"
proof -
  have t: "0 \<le> t" "t < last_moment" using assms(4) by (auto simp: seconds_before_def Let_def split: if_splits)
  have less: "el_created_at l < iso_text t \<longleftrightarrow> the (moment_of (el_created_at l)) < t" if "l \<in> set (w_exec_logs w)" for l
    using that assms(2) stamped_less [OF _ t] by (simp add: list_all_iff)
  let ?w = "w\<lparr>w_host := h\<rparr>"
  have run: "expire_exec_logs E w = delete_exec_logs_before (iso_text t) ?w"
    using assms(1,3,4)
    by (simp add: expire_exec_logs_def Let_def cutoff_text_def utc_moment_def hostop_def bindE_def ret_def)
  have "filter (\<lambda>l. \<not> el_created_at l < iso_text t) (w_exec_logs w) = filter (\<lambda>l. t \<le> the (moment_of (el_created_at l))) (w_exec_logs w)"
    by (rule filter_cong) (auto simp: less)
  moreover have "filter (\<lambda>l. el_created_at l < iso_text t) (w_exec_logs w) = filter (\<lambda>l. the (moment_of (el_created_at l)) < t) (w_exec_logs w)"
    by (rule filter_cong) (auto simp: less)
  ultimately show ?thesis
    by (simp add: run_state_def outcome_def run delete_exec_logs_before_def bindE_def seqE_def reads_def writes_def ret_def)
qed


definition old_log :: "int \<Rightarrow> exec_log" where
  "old_log t = (run_log demo_computer ''ls'' default_exec None None (iso_text t))"

definition logs_world :: "fake world" where
  "logs_world = new_world\<lparr>w_host := new_fake\<lparr>fk_clock := 700000000000\<rparr>, w_exec_logs := [old_log 1, old_log 650000000000]\<rparr>"

lemma expire_exact_witness:
  "w_exec_logs (run_state (expire_exec_logs fake_env) logs_world) = [old_log 650000000000]"
proof -
  have l: "last_moment = 315537897600000000" by (simp add: last_moment_def micros_per_day_def days_before_year_def)
  have s: "list_all stamped (map el_created_at (w_exec_logs logs_world))"
    by (simp add: logs_world_def old_log_def run_log_def stamped_iso_text l)
  have r: "cf_exec_log_retention_seconds (e_config fake_env) = 604800" by (simp add: fake_env_def fake_config_def)
  have n: "os_now (h_os (e_host fake_env)) (w_host logs_world) = (700000000000, new_fake\<lparr>fk_clock := 700000000001\<rparr>)"
    by (simp add: fake_env_def fake_host_def fake_os_def logs_world_def)
  have b: "seconds_before 700000000000 604800 = Some 95200000000" by (simp add: seconds_before_def l)
  have m: "moment_of (iso_text 1) = Some 1" "moment_of (iso_text 650000000000) = Some 650000000000"
    by (simp_all add: moment_of_iso_text l)
  show ?thesis
    using expire_exact [OF _ s n, unfolded r, OF _ b] m by (simp add: logs_world_def old_log_def run_log_def)
qed

text \<open>The queue of a label is drained across accounts: a request another account queued under the same
  label runs on the computer of the account that drains.\<close>

definition other_request :: deferred_request where
  "other_request =
     \<lparr>d_id = ''def-9'', d_label = ''main'', d_account_id = ''acct-2'',
      d_request_payload = deferred_payload main_head (ls_spec\<lparr>es_command := Some ''cat secret'', es_self_destruct := False\<rparr>) None,
      d_created_at = ''1''\<rparr>"

text \<open>C40: the batch a drain of an account runs on its computer holds every request queued under the
  label, those of other accounts too.\<close>

theorem drain_crosses_accounts:
  assumes "d \<in> set (w_deferred w)" and "d_label d = l" and "d_account_id d \<noteq> a_id account"
  shows "\<exists>ps w'. drain_deferred E account l w = suppress (drain_batch E account l ps) w' \<and>
           d_request_payload d \<in> set ps"
proof -
  let ?is = "sort_key d_created_at (sort_key d_id (filter (\<lambda>d. d_label d = l) (w_deferred w)))"
  have m: "d \<in> set ?is" using assms by simp
  then have "?is \<noteq> []" by (metis empty_iff list.set(1))
  then have "drain_deferred E account l w =
      suppress (drain_batch E account l (map d_request_payload ?is)) (w_deferred_update (filter (\<lambda>d. d_label d \<noteq> l)) w)"
    by (simp add: drain_deferred_def claim_deferred_by_label_def bindE_def seqE_def reads_def writes_def ret_def)
  moreover have "d_request_payload d \<in> set (map d_request_payload ?is)" using m by simp
  ultimately show ?thesis by blast
qed

lemma drain_crosses_accounts_witness:
  "\<exists>ps w'. drain_deferred fake_env demo_account ''main'' (pruned_world\<lparr>w_deferred := [other_request]\<rparr>) =
       suppress (drain_batch fake_env demo_account ''main'' ps) w' \<and> d_request_payload other_request \<in> set ps"
  by (rule drain_crosses_accounts) (simp_all add: other_request_def demo_account_def)

end
