(* ===== verification/Ssrf.thy ===== *)
theory Ssrf
  imports World
begin

text \<open>
  The relay's guard against calls into private networks, src/src/mshkn/services/ssrf.py: a target
  is http or https, and neither a raw address nor any address its name resolves to is in a blocked
  range. Addresses and URLs are those of theory \<open>Net\<close>; the resolver is the environment's. A scope
  id of an IPv6 address is dropped, in the reasons given too.
\<close>

section \<open>The guard\<close>

definition allowed_schemes :: "string list" where
  "allowed_schemes = [''http'', ''https'']"

definition blocked_ranges :: "network list" where
  "blocked_ranges =
     [Net4 0x00000000 8, Net4 0x0A000000 8, Net4 0x7F000000 8, Net4 0xA9FE0000 16, Net4 0xAC100000 12,
      Net4 0xC0A80000 16, Net6 1 128, Net6 0xFC000000000000000000000000000000 7,
      Net6 0xFE800000000000000000000000000000 10]"

definition parse_address :: "string \<Rightarrow> address option" where
  "parse_address s =
     (case ip_address s of
        Some (V6 a) \<Rightarrow> (case ipv4_mapped a of Some b \<Rightarrow> Some (V4 b) | None \<Rightarrow> Some (V6 a))
      | r \<Rightarrow> r)"

definition blocked_reason :: "address \<Rightarrow> string option" where
  "blocked_reason a =
     map_option (\<lambda>n. address_text a @ '' is in the blocked range '' @ network_text n)
       (find (address_in a) blocked_ranges)"

text \<open>The host name and the reason the URL is refused for, if any.\<close>

definition check_url :: "string \<Rightarrow> string \<times> string option" where
  "check_url url =
     (case urlsplit url of
        None \<Rightarrow> ([], Some ''invalid URL'')
      | Some parts \<Rightarrow>
          if lower (su_scheme parts) \<notin> set allowed_schemes
          then ([], Some (''blocked scheme '' @
                 py_repr (if su_scheme parts = [] then ''(none)'' else su_scheme parts) @ '': only http and https''))
          else (case hostname_of parts of
                  None \<Rightarrow> ([], Some ''invalid URL: no host'')
                | Some [] \<Rightarrow> ([], Some ''invalid URL: no host'')
                | Some host \<Rightarrow>
                    (case parse_address host of
                       None \<Rightarrow> (host, None)
                     | Some a \<Rightarrow> (case blocked_reason a of
                                   None \<Rightarrow> (host, None)
                                 | Some r \<Rightarrow> (host, Some (''blocked address: '' @ r))))))"

text \<open>Every address \<open>getaddrinfo\<close> reports, once each, in the order of its first report.\<close>

definition resolve_host :: "(string \<Rightarrow> ('h, string list) act) \<Rightarrow> string \<Rightarrow> ('h, string list) act" where
  "resolve_host getaddrinfo hostname =
     bindE (getaddrinfo hostname) (\<lambda>infos.
     ret (foldl (\<lambda>seen a. if a \<in> set seen then seen else seen @ [a]) [] infos))"

text \<open>\<open>OSError\<close> and its subclasses by name.\<close>

definition os_error_names :: "string list" where
  "os_error_names =
     [''OSError'', ''gaierror'', ''herror'', ''TimeoutError'', ''ConnectionError'', ''ConnectionRefusedError'',
      ''ConnectionResetError'', ''ConnectionAbortedError'', ''BrokenPipeError'', ''FileNotFoundError'',
      ''FileExistsError'', ''PermissionError'', ''IsADirectoryError'', ''NotADirectoryError'',
      ''BlockingIOError'', ''ChildProcessError'', ''InterruptedError'', ''ProcessLookupError'', ''SSLError'']"

fun is_os_error :: "exc \<Rightarrow> bool" where
  "is_os_error (PyError n _) = (n \<in> set os_error_names)"
| "is_os_error _ = False"

fun address_reason :: "string \<Rightarrow> string list \<Rightarrow> string option" where
  "address_reason hostname [] = None"
| "address_reason hostname (t # ts) =
     (case parse_address t of
        None \<Rightarrow> Some (hostname @ '' resolves to an unparseable address '' @ py_repr t)
      | Some a \<Rightarrow> (case blocked_reason a of
                    Some r \<Rightarrow> Some (hostname @ '' resolves to a blocked address: '' @ r)
                  | None \<Rightarrow> address_reason hostname ts))"

definition guard :: "'h env \<Rightarrow> string \<Rightarrow> ('h, string option) st" where
  "guard E url =
     (case check_url url of
        (hostname, Some reason) \<Rightarrow> ret (Some reason)
      | (hostname, None) \<Rightarrow>
          if parse_address hostname \<noteq> None then ret None
          else catchE
            (bindE (hostop (wb_resolve (e_web E) hostname)) (\<lambda>addresses.
             ret (if addresses = [] then Some (hostname @ '' does not resolve to any address'')
                  else address_reason hostname addresses)))
            (\<lambda>e. if is_os_error e then ret (Some (hostname @ '' does not resolve: '' @ exc_str e)) else raise e))"

section \<open>What is blocked\<close>

text \<open>An IPv4 address by its number.\<close>

definition private_v4 :: "nat \<Rightarrow> bool" where
  "private_v4 n \<longleftrightarrow>
     n div 2 ^ 24 \<in> {0, 10, 127} \<or> n div 2 ^ 16 = 169 * 256 + 254 \<or> n div 2 ^ 20 = 172 * 16 + 1 \<or>
     n div 2 ^ 16 = 192 * 256 + 168"

definition private_v6 :: "nat \<Rightarrow> bool" where
  "private_v6 n \<longleftrightarrow> n = 1 \<or> n div 2 ^ 121 = 0xFC div 2 \<or> n div 2 ^ 118 = 0xFE80 div 64"

definition allowed_address :: "address \<Rightarrow> bool" where
  "allowed_address a \<longleftrightarrow> (case a of V4 x \<Rightarrow> \<not> private_v4 (unat x) | V6 x \<Rightarrow> \<not> private_v6 (unat x))"

lemma blocked_None: "blocked_reason a = None \<longleftrightarrow> (\<forall>n\<in>set blocked_ranges. \<not> address_in a n)"
  by (auto simp: blocked_reason_def find_None_iff)

lemma allowed_iff: "blocked_reason a = None \<longleftrightarrow> allowed_address a"
proof (cases a)
  case (V4 x)
  have "(\<forall>n\<in>set blocked_ranges. \<not> address_in (V4 x) n) \<longleftrightarrow> \<not> private_v4 (unat x)"
    by (simp add: blocked_ranges_def address_in_v4 private_v4_def del: address_in.simps(1))
  then show ?thesis by (simp add: blocked_None V4 allowed_address_def)
next
  case (V6 x)
  have "(\<forall>n\<in>set blocked_ranges. \<not> address_in (V6 x) n) \<longleftrightarrow> \<not> private_v6 (unat x)"
    by (simp add: blocked_ranges_def address_in_v6 private_v6_def del: address_in.simps(2))
  then show ?thesis by (simp add: blocked_None V6 allowed_address_def)
qed

lemma address_reason_None:
  "address_reason h ts = None \<longleftrightarrow> (\<forall>t\<in>set ts. \<exists>a. parse_address t = Some a \<and> allowed_address a)"
  by (induction ts) (auto simp: allowed_iff [symmetric] split: option.splits)

lemma check_url_None:
  "check_url url = (h, None) \<longleftrightarrow>
     (\<exists>parts. urlsplit url = Some parts \<and> lower (su_scheme parts) \<in> set allowed_schemes \<and>
        hostname_of parts = Some h \<and> h \<noteq> [] \<and> (\<forall>a. parse_address h = Some a \<longrightarrow> allowed_address a))"
  by (auto simp: check_url_def allowed_iff [symmetric] split: option.splits list.splits if_splits)

lemma guard_iff:
  "outcome (guard E url) w = Inr None \<longleftrightarrow>
     (\<exists>parts h. urlsplit url = Some parts \<and> lower (su_scheme parts) \<in> {''http'', ''https''} \<and>
        hostname_of parts = Some h \<and> h \<noteq> [] \<and>
        (case parse_address h of
           Some a \<Rightarrow> allowed_address a
         | None \<Rightarrow> \<exists>ts. outcome (hostop (wb_resolve (e_web E) h)) w = Inr ts \<and> ts \<noteq> [] \<and>
                     (\<forall>t\<in>set ts. \<exists>a. parse_address t = Some a \<and> allowed_address a)))"
proof -
  obtain h r where c: "check_url url = (h, r)" by fastforce
  have resolved: "outcome (catchE
            (bindE (hostop (wb_resolve (e_web E) h)) (\<lambda>addresses.
             ret (if addresses = [] then Some (h @ '' does not resolve to any address'')
                  else address_reason h addresses)))
            (\<lambda>e. if is_os_error e then ret (Some (h @ '' does not resolve: '' @ exc_str e)) else raise e)) w = Inr None \<longleftrightarrow>
     (\<exists>ts. outcome (hostop (wb_resolve (e_web E) h)) w = Inr ts \<and> ts \<noteq> [] \<and>
        (\<forall>t\<in>set ts. \<exists>a. parse_address t = Some a \<and> allowed_address a))" for h
    by (auto simp: outcome_def catchE_def tryE_def bindE_def ret_def raise_def address_reason_None
        split: prod.splits sum.splits if_splits)
  show ?thesis
  proof (cases r)
    case (Some reason)
    then have no: "check_url url \<noteq> (h, None)" for h using c by simp
    have "\<not> (\<exists>parts h. urlsplit url = Some parts \<and> lower (su_scheme parts) \<in> {''http'', ''https''} \<and>
        hostname_of parts = Some h \<and> h \<noteq> [] \<and> (\<forall>a. parse_address h = Some a \<longrightarrow> allowed_address a))"
      using no unfolding check_url_None allowed_schemes_def by auto
    moreover have "outcome (guard E url) w \<noteq> Inr None" using c Some by (simp add: guard_def outcome_def ret_def)
    ultimately show ?thesis by (force split: option.splits)
  next
    case None
    then have p: "\<exists>parts. urlsplit url = Some parts \<and> lower (su_scheme parts) \<in> {''http'', ''https''} \<and>
        hostname_of parts = Some h \<and> h \<noteq> [] \<and> (\<forall>a. parse_address h = Some a \<longrightarrow> allowed_address a)"
      using c check_url_None [of url h] by (simp add: allowed_schemes_def)
    show ?thesis
    proof (cases "parse_address h")
      case a: None
      have "outcome (guard E url) w = Inr None \<longleftrightarrow> (\<exists>ts. outcome (hostop (wb_resolve (e_web E) h)) w = Inr ts \<and> ts \<noteq> [] \<and>
        (\<forall>t\<in>set ts. \<exists>a. parse_address t = Some a \<and> allowed_address a))"
        using c None a resolved [of h] by (simp add: guard_def)
      then show ?thesis using p a by auto
    next
      case (Some a)
      then have "outcome (guard E url) w = Inr None" using c None by (simp add: guard_def outcome_def ret_def)
      then show ?thesis using p Some by auto
    qed
  qed
qed

section \<open>Properties\<close>


text \<open>The unspecified IPv6 address, which a Linux host connects to itself, is in none of the ranges:
  the guard passes a target at \<open>[::]\<close> although it refuses \<open>0.0.0.0\<close> and \<open>[::1]\<close>.\<close>

lemma guard_passes_unspecified:
  "outcome (guard E ''http://[::]:8000/'') w = Inr None \<and>
   outcome (guard E ''http://[::1]:8000/'') w \<noteq> Inr None \<and> outcome (guard E ''http://0.0.0.0:8000/'') w \<noteq> Inr None"
proof -
  have p: "parse_ipv6 ''::'' = Some 0" "parse_ipv6 ''::1'' = Some 1"
    by (simp_all add: parse_ipv6_def partition_at_def expand_ipv4_suffix_def assemble_ipv6_def inner_empties_def upt_rec
        parse_hextet_def hex_value_def)
  have q: "parse_ipv4 ''::'' = None" "parse_ipv4 ''::1'' = None" "parse_ipv4 ''0.0.0.0'' = Some 0"
    by (simp_all add: parse_ipv4_def parse_octet_def is_digit_def digits_value_def digit_value_def)
  have a: "ip_address ''::'' = Some (V6 0)" "ip_address ''::1'' = Some (V6 1)" "ip_address ''0.0.0.0'' = Some (V4 0)"
    by (simp_all add: ip_address_def p q)
  have m: "ipv4_mapped 0 = None" "ipv4_mapped 1 = None" by (simp_all add: ipv4_mapped_def)
  have u: "urlsplit ''http://[::]:8000/'' = Some \<lparr>su_scheme = ''http'', su_netloc = ''[::]:8000'', su_path = ''/''\<rparr>"
    "urlsplit ''http://[::1]:8000/'' = Some \<lparr>su_scheme = ''http'', su_netloc = ''[::1]:8000'', su_path = ''/''\<rparr>"
    "urlsplit ''http://0.0.0.0:8000/'' = Some \<lparr>su_scheme = ''http'', su_netloc = ''0.0.0.0:8000'', su_path = ''/''\<rparr>"
    by (simp_all add: urlsplit_def clean_url_def is_c0_or_space_def split_scheme_def partition_at_def is_ascii_alpha_def
        is_scheme_char_def lower_def ascii_lower_char_def split_netloc_def netloc_ok_def hostinfo_of_def rpartition_at_def
        bracketed_host_ok_def a)
  have h: "hostname_of \<lparr>su_scheme = ''http'', su_netloc = ''[::]:8000'', su_path = ''/''\<rparr> = Some ''::''"
    "hostname_of \<lparr>su_scheme = ''http'', su_netloc = ''[::1]:8000'', su_path = ''/''\<rparr> = Some ''::1''"
    "hostname_of \<lparr>su_scheme = ''http'', su_netloc = ''0.0.0.0:8000'', su_path = ''/''\<rparr> = Some ''0.0.0.0''"
    by (simp_all add: hostname_of_def hostinfo_def hostinfo_of_def rpartition_at_def partition_at_def lower_def
        ascii_lower_char_def)
  have s: "lower ''http'' = ''http''" by (simp add: lower_def ascii_lower_char_def)
  have b: "allowed_address (V6 0)" "\<not> allowed_address (V6 1)" "\<not> allowed_address (V4 0)"
    by (simp_all add: allowed_address_def private_v6_def private_v4_def)
  have pa: "parse_address ''::'' = Some (V6 0)" "parse_address ''::1'' = Some (V6 1)" "parse_address ''0.0.0.0'' = Some (V4 0)"
    by (simp_all add: parse_address_def a m)
  show ?thesis
    unfolding guard_iff u using h s b pa by simp
qed

end
