(* ===== verification/Sse.thy ===== *)
theory Sse
  imports Errors
begin

text \<open>
  src/src/mshkn/services/sse.py: an event stream of the Messages API put together into the final
  message. The source works on dictionaries that came out of \<open>json.loads\<close>; here they are
  \<^typ>\<open>json\<close> objects, the key of an entry occurs once, and \<open>json.loads\<close> is the argument
  \<open>loads\<close>. What Python does with values of another type than the code expects is written out: the
  KeyErrors, TypeErrors, AttributeErrors and ValueErrors end the reassembly as the two exceptions of
  the module do. One thing is left out: \<open>dict\<close> of a list of pairs, which raises here.
\<close>

section \<open>Python on JSON values\<close>

fun falsy :: "json \<Rightarrow> bool" where
  "falsy JNull = True"
| "falsy (JBool b) = (\<not> b)"
| "falsy (JInt i) = (i = 0)"
| "falsy (JStr s) = (s = [])"
| "falsy (JArr xs) = (xs = [])"
| "falsy (JObj kvs) = (kvs = [])"

fun json_repr :: "json \<Rightarrow> string" where
  "json_repr JNull = ''None''"
| "json_repr (JBool b) = (if b then ''True'' else ''False'')"
| "json_repr (JInt i) = str_int i"
| "json_repr (JStr s) = py_repr s"
| "json_repr (JArr xs) = ''['' @ join '', '' (map json_repr xs) @ '']''"
| "json_repr (JObj kvs) = ''{'' @ join '', '' (map (\<lambda>(k, v). py_repr k @ '': '' @ json_repr v) kvs) @ ''}''"

definition json_str :: "json \<Rightarrow> string" where
  "json_str v = (case v of JStr s \<Rightarrow> s | _ \<Rightarrow> json_repr v)"

fun type_name :: "json \<Rightarrow> string" where
  "type_name JNull = ''NoneType''"
| "type_name (JBool _) = ''bool''"
| "type_name (JInt _) = ''int''"
| "type_name (JStr _) = ''str''"
| "type_name (JArr _) = ''list''"
| "type_name (JObj _) = ''dict''"

text \<open>How a reassembly fails: the module's two exceptions, or any other.\<close>

datatype stream_failure =
    StreamError string string
  | IncompleteStream string
  | Raised exc

type_synonym 'a reading = "stream_failure + 'a"

definition bindR :: "'a reading \<Rightarrow> ('a \<Rightarrow> 'b reading) \<Rightarrow> 'b reading" where
  "bindR r f = (case r of Inl e \<Rightarrow> Inl e | Inr a \<Rightarrow> f a)"

definition py_raise :: "string \<Rightarrow> string \<Rightarrow> 'a reading" where
  "py_raise cls msg = Inl (Raised (PyError cls msg))"

definition put :: "string \<Rightarrow> 'v \<Rightarrow> (string \<times> 'v) list \<Rightarrow> (string \<times> 'v) list" where
  "put k v kvs = (if k \<in> fst ` set kvs then map (\<lambda>(k', u). (k', if k' = k then v else u)) kvs else kvs @ [(k, v)])"

text \<open>\<open>d[k]\<close>, \<open>x.get(k)\<close>, \<open>dict(x)\<close>, \<open>list(x)\<close>, \<open>int(x)\<close>, \<open>x + y\<close> and \<open>"".join(xs)\<close>.\<close>

definition item :: "(string \<times> json) list \<Rightarrow> string \<Rightarrow> json reading" where
  "item kvs k = (case map_of kvs k of None \<Rightarrow> py_raise ''KeyError'' (py_repr k) | Some v \<Rightarrow> Inr v)"

fun get_attr :: "json \<Rightarrow> string \<Rightarrow> json reading" where
  "get_attr (JObj kvs) k = Inr (case map_of kvs k of None \<Rightarrow> JNull | Some v \<Rightarrow> v)"
| "get_attr v k = py_raise ''AttributeError'' ([squote] @ type_name v @ [squote] @ '' object has no attribute '' @ py_repr ''get'')"

fun to_dict :: "json \<Rightarrow> (string \<times> json) list reading" where
  "to_dict (JObj kvs) = Inr kvs"
| "to_dict (JArr []) = Inr []"
| "to_dict (JStr []) = Inr []"
| "to_dict v = py_raise ''TypeError'' ([squote] @ type_name v @ [squote] @ '' object is not a mapping'')"

fun to_list :: "json \<Rightarrow> json list reading" where
  "to_list (JArr xs) = Inr xs"
| "to_list (JStr s) = Inr (map (\<lambda>c. JStr [c]) s)"
| "to_list (JObj kvs) = Inr (map (JStr \<circ> fst) kvs)"
| "to_list v = py_raise ''TypeError'' ([squote] @ type_name v @ [squote] @ '' object is not iterable'')"

fun to_int :: "json \<Rightarrow> int reading" where
  "to_int (JInt i) = Inr i"
| "to_int (JBool b) = Inr (if b then 1 else 0)"
| "to_int (JStr s) = (case py_int s of
      None \<Rightarrow> py_raise ''ValueError'' (''invalid literal for int() with base 10: '' @ py_repr s)
    | Some i \<Rightarrow> Inr i)"
| "to_int v = py_raise ''TypeError'' (''int() argument must be a string, a bytes-like object or a real number, not ''
                                       @ [squote] @ type_name v @ [squote])"

fun as_number :: "json \<Rightarrow> int option" where
  "as_number (JInt i) = Some i"
| "as_number (JBool b) = Some (if b then 1 else 0)"
| "as_number _ = None"

definition py_add :: "json \<Rightarrow> json \<Rightarrow> json reading" where
  "py_add v u =
     (case (v, u) of
        (JStr s, JStr t) \<Rightarrow> Inr (JStr (s @ t))
      | (JArr xs, JArr ys) \<Rightarrow> Inr (JArr (xs @ ys))
      | _ \<Rightarrow> (case (as_number v, as_number u) of
               (Some i, Some j) \<Rightarrow> Inr (JInt (i + j))
             | _ \<Rightarrow> py_raise ''TypeError'' ''unsupported operand types''))"

fun join_strings :: "json list \<Rightarrow> string reading" where
  "join_strings [] = Inr []"
| "join_strings (JStr s # vs) = bindR (join_strings vs) (\<lambda>t. Inr (s @ t))"
| "join_strings (v # vs) = py_raise ''TypeError'' ''sequence item: expected str instance''"

text \<open>A list index, which may count from the end.\<close>

definition py_index :: "int \<Rightarrow> 'a list \<Rightarrow> nat reading" where
  "py_index i xs =
     (if 0 \<le> i \<and> i < int (length xs) then Inr (nat i)
      else if i < 0 \<and> - i \<le> int (length xs) then Inr (nat (int (length xs) + i))
      else py_raise ''IndexError'' ''list index out of range'')"

definition set_item :: "json \<Rightarrow> string \<Rightarrow> json \<Rightarrow> json reading" where
  "set_item v k x =
     (case v of JObj kvs \<Rightarrow> Inr (JObj (put k x kvs))
      | _ \<Rightarrow> py_raise ''TypeError'' ([squote] @ type_name v @ [squote] @ '' object does not support item assignment''))"

section \<open>Events\<close>

fun unix_newlines :: "string \<Rightarrow> string" where
  "unix_newlines (c # d # s) =
     (if c = CHR 0x0D \<and> d = CHR 0x0A then CHR 0x0A # unix_newlines s else c # unix_newlines (d # s))"
| "unix_newlines s = s"

text \<open>\<open>text.split("\n\n")\<close>.\<close>

fun split_blocks :: "string \<Rightarrow> string list" where
  "split_blocks (c # d # s) =
     (if c = CHR 0x0A \<and> d = CHR 0x0A then [] # split_blocks s
      else case split_blocks (d # s) of [] \<Rightarrow> [[c]] | b # bs \<Rightarrow> (c # b) # bs)"
| "split_blocks s = [s]"

definition block_data :: "string \<Rightarrow> string list" where
  "block_data block =
     map (\<lambda>line. lstrip (drop 5 line)) (filter (prefix ''data:'') (split_on (CHR 0x0A) block))"

definition block_event :: "(string \<Rightarrow> json option) \<Rightarrow> string \<Rightarrow> (string \<times> json) list option" where
  "block_event loads block =
     (let data = block_data block
      in if data = [] then None
         else case loads (join newline data) of Some (JObj kvs) \<Rightarrow> Some kvs | _ \<Rightarrow> None)"

definition parse_events :: "(string \<Rightarrow> json option) \<Rightarrow> string \<Rightarrow> (string \<times> json) list list" where
  "parse_events loads s = List.map_filter (block_event loads) (split_blocks (unix_newlines s))"

section \<open>Reassembly\<close>

text \<open>The message so far (its content apart, as the code's alias \<open>content\<close> names it), the pieces of
  input JSON by block, and whether \<open>message_stop\<close> was seen. The content stands under its own key
  in the message; \<open>assembled\<close> puts it back.\<close>

record assembly =
  as_message :: "(string \<times> json) list option"
  as_content :: "json list"
  as_partial :: "(int \<times> json list) list"

definition start_assembly :: assembly where
  "start_assembly = \<lparr>as_message = None, as_content = [], as_partial = []\<rparr>"

definition or_empty :: "json \<Rightarrow> json" where
  "or_empty v = (if falsy v then JObj [] else v)"

definition get :: "(string \<times> json) list \<Rightarrow> string \<Rightarrow> json" where
  "get kvs k = (case map_of kvs k of None \<Rightarrow> JNull | Some v \<Rightarrow> v)"

definition get_or :: "json \<Rightarrow> string \<Rightarrow> json \<Rightarrow> json reading" where
  "get_or v k dflt =
     (case v of JObj kvs \<Rightarrow> Inr (case map_of kvs k of None \<Rightarrow> dflt | Some x \<Rightarrow> x) | _ \<Rightarrow> get_attr v k)"

definition on_error :: "(string \<times> json) list \<Rightarrow> 'a reading" where
  "on_error event =
     (let err = or_empty (get event ''error'')
      in bindR (get_or err ''type'' (JStr ''error'')) (\<lambda>t.
         bindR (get_or err ''message'' (JStr [])) (\<lambda>m. Inl (StreamError (json_str t) (json_str m)))))"

definition on_start :: "(string \<times> json) list \<Rightarrow> assembly \<Rightarrow> assembly reading" where
  "on_start event a =
     bindR (item event ''message'') (\<lambda>v.
     bindR (to_dict v) (\<lambda>message.
     bindR (if falsy (get message ''content'') then Inr [] else to_list (get message ''content'')) (\<lambda>content.
     Inr (a\<lparr>as_message := Some (put ''content'' (JArr []) message), as_content := content\<rparr>))))"

definition set_partial :: "int \<Rightarrow> json list \<Rightarrow> (int \<times> json list) list \<Rightarrow> (int \<times> json list) list" where
  "set_partial i ps partial = (i, ps) # filter (\<lambda>(j, _). j \<noteq> i) partial"

definition on_block_start :: "(string \<times> json) list \<Rightarrow> assembly \<Rightarrow> assembly reading" where
  "on_block_start event a =
     bindR (item event ''index'') (\<lambda>v. bindR (to_int v) (\<lambda>index.
     if index \<noteq> int (length (as_content a))
     then Inl (IncompleteStream (''content_block_start at index '' @ str_int index @ '', expected '' @
                                 str_nat (length (as_content a))))
     else
       bindR (item event ''content_block'') (\<lambda>b. bindR (to_dict b) (\<lambda>block.
       Inr (a\<lparr>as_content := as_content a @ [JObj block],
             as_partial := (if get block ''type'' = JStr ''tool_use''
                            then set_partial index [] (as_partial a) else as_partial a)\<rparr>)))))"

definition update_block :: "nat \<Rightarrow> (json \<Rightarrow> json reading) \<Rightarrow> assembly \<Rightarrow> assembly reading" where
  "update_block n f a = bindR (f (as_content a ! n)) (\<lambda>b. Inr (a\<lparr>as_content := (as_content a)[n := b]\<rparr>))"

definition append_field :: "string \<Rightarrow> json \<Rightarrow> json \<Rightarrow> json reading" where
  "append_field field delta block =
     bindR (get_or block field (JStr [])) (\<lambda>old.
     bindR (case delta of JObj kvs \<Rightarrow> item kvs field | _ \<Rightarrow> get_attr delta field) (\<lambda>new.
     bindR (py_add old new) (set_item block field)))"

definition on_delta :: "(string \<times> json) list \<Rightarrow> assembly \<Rightarrow> assembly reading" where
  "on_delta event a =
     bindR (item event ''index'') (\<lambda>v. bindR (to_int v) (\<lambda>index.
     if index \<ge> int (length (as_content a))
     then Inl (IncompleteStream (''content_block_delta for index '' @ str_int index @ '', never started''))
     else
       bindR (py_index index (as_content a)) (\<lambda>n.
       let delta = or_empty (get event ''delta'') in
       bindR (get_attr delta ''type'') (\<lambda>kind.
       if kind = JStr ''text_delta'' then update_block n (append_field ''text'' delta) a
       else if kind = JStr ''thinking_delta'' then update_block n (append_field ''thinking'' delta) a
       else if kind = JStr ''signature_delta''
       then bindR (case delta of JObj kvs \<Rightarrow> item kvs ''signature'' | _ \<Rightarrow> get_attr delta ''signature'')
              (\<lambda>s. update_block n (\<lambda>b. set_item b ''signature'' s) a)
       else if kind = JStr ''input_json_delta''
       then bindR (case delta of JObj kvs \<Rightarrow> item kvs ''partial_json'' | _ \<Rightarrow> get_attr delta ''partial_json'')
              (\<lambda>p. Inr (a\<lparr>as_partial :=
                 set_partial index ((case map_of (as_partial a) index of None \<Rightarrow> [] | Some ps \<Rightarrow> ps) @ [p])
                   (as_partial a)\<rparr>))
       else Inr a))))"

definition decode_error :: exc where
  "decode_error = PyError ''JSONDecodeError'' ''invalid JSON''"

definition on_stop :: "(string \<Rightarrow> json option) \<Rightarrow> (string \<times> json) list \<Rightarrow> assembly \<Rightarrow> assembly reading" where
  "on_stop loads event a =
     bindR (item event ''index'') (\<lambda>v. bindR (to_int v) (\<lambda>index.
     if index \<ge> int (length (as_content a))
     then Inl (IncompleteStream (''content_block_stop for index '' @ str_int index @ '', never started''))
     else
       (case map_of (as_partial a) index of
          None \<Rightarrow> Inr a
        | Some ps \<Rightarrow>
            bindR (join_strings ps) (\<lambda>raw.
            bindR (if strip raw = [] then Inr (JObj [])
                   else case loads raw of None \<Rightarrow> Inl (Raised decode_error) | Some x \<Rightarrow> Inr x) (\<lambda>input.
            bindR (py_index index (as_content a)) (\<lambda>n.
            update_block n (\<lambda>b. set_item b ''input'' input)
              (a\<lparr>as_partial := filter (\<lambda>(j, _). j \<noteq> index) (as_partial a)\<rparr>)))))))"

text \<open>\<open>if field in stop: message[field] = stop[field]\<close> for any value of \<open>stop\<close>.\<close>

definition copy_field :: "string \<Rightarrow> json \<Rightarrow> (string \<times> json) list \<Rightarrow> (string \<times> json) list reading" where
  "copy_field field stop message =
     (case stop of
        JObj kvs \<Rightarrow> Inr (case map_of kvs field of None \<Rightarrow> message | Some v \<Rightarrow> put field v message)
      | JArr xs \<Rightarrow> if JStr field \<in> set xs then py_raise ''TypeError'' ''list indices must be integers or slices, not str''
                   else Inr message
      | JStr s \<Rightarrow> if sublist field s then py_raise ''TypeError'' ''string indices must be integers''
                  else Inr message
      | v \<Rightarrow> py_raise ''TypeError'' (''argument of type '' @ [squote] @ type_name v @ [squote] @ '' is not iterable''))"

fun merge_dicts :: "(string \<times> json) list \<Rightarrow> (string \<times> json) list \<Rightarrow> (string \<times> json) list" where
  "merge_dicts old [] = old"
| "merge_dicts old ((k, v) # new) = merge_dicts (put k v old) new"

definition mapping :: "json \<Rightarrow> (string \<times> json) list reading" where
  "mapping v = (case v of JObj kvs \<Rightarrow> Inr kvs
                | _ \<Rightarrow> py_raise ''TypeError'' ([squote] @ type_name v @ [squote] @ '' object is not a mapping''))"

definition on_message_delta :: "(string \<times> json) list \<Rightarrow> (string \<times> json) list \<Rightarrow> assembly \<Rightarrow> assembly reading" where
  "on_message_delta event message a =
     (let stop = or_empty (get event ''delta'') in
      bindR (copy_field ''stop_reason'' stop message) (\<lambda>message.
      bindR (copy_field ''stop_sequence'' stop message) (\<lambda>message.
      let usage = get event ''usage'' in
      if falsy usage then Inr (a\<lparr>as_message := Some message\<rparr>)
      else bindR (mapping (or_empty (get message ''usage''))) (\<lambda>old.
           bindR (mapping usage) (\<lambda>new.
           Inr (a\<lparr>as_message := Some (put ''usage'' (JObj (merge_dicts old new)) message)\<rparr>))))))"

text \<open>One event; the flag says that it was \<open>message_stop\<close>.\<close>

definition on_event :: "(string \<Rightarrow> json option) \<Rightarrow> (string \<times> json) list \<Rightarrow> assembly \<Rightarrow> (assembly \<times> bool) reading" where
  "on_event loads event a =
     (let kind = get event ''type'';
          continue = (\<lambda>r. bindR r (\<lambda>a. Inr (a, False))) in
      if kind = JStr ''error'' then on_error event
      else if kind = JStr ''message_start'' then continue (on_start event a)
      else case as_message a of
        None \<Rightarrow> Inl (IncompleteStream ''events before message_start'')
      | Some message \<Rightarrow>
          if kind = JStr ''content_block_start'' then continue (on_block_start event a)
          else if kind = JStr ''content_block_delta'' then continue (on_delta event a)
          else if kind = JStr ''content_block_stop'' then continue (on_stop loads event a)
          else if kind = JStr ''message_delta'' then continue (on_message_delta event message a)
          else Inr (a, kind = JStr ''message_stop''))"

definition assembled :: "assembly \<Rightarrow> json reading" where
  "assembled a =
     (case as_message a of
        None \<Rightarrow> Inl (IncompleteStream ''stream ended before message_stop'')
      | Some message \<Rightarrow> Inr (JObj (put ''content'' (JArr (as_content a)) message)))"

fun reassemble_events :: "(string \<Rightarrow> json option) \<Rightarrow> (string \<times> json) list list \<Rightarrow> assembly \<Rightarrow> json reading" where
  "reassemble_events loads [] a = Inl (IncompleteStream ''stream ended before message_stop'')"
| "reassemble_events loads (e # es) a =
     bindR (on_event loads e a) (\<lambda>(a, stopped).
     if stopped then assembled a else reassemble_events loads es a)"

definition reassemble :: "(string \<Rightarrow> json option) \<Rightarrow> string \<Rightarrow> json reading" where
  "reassemble loads s = reassemble_events loads (parse_events loads s) start_assembly"

definition retryable_stream_errors :: "string list" where
  "retryable_stream_errors = [''overloaded_error'', ''api_error'']"


section \<open>What the API sends\<close>

text \<open>The stream of a finished message: its blocks in pieces, the last of them the stop reason and the
  usage; and the block each script stands for.\<close>

datatype block_script =
    TextScript "string list"
  | ThinkingScript "string list" string
  | ToolScript string string "string list" json

definition ev :: "string \<Rightarrow> (string \<times> json) list \<Rightarrow> (string \<times> json) list" where
  "ev kind entries = (''type'', JStr kind) # entries"

definition ev_start :: "nat \<Rightarrow> (string \<times> json) list \<Rightarrow> (string \<times> json) list" where
  "ev_start i block = ev ''content_block_start'' [(''index'', JInt (int i)), (''content_block'', JObj block)]"

definition ev_delta :: "nat \<Rightarrow> string \<Rightarrow> string \<Rightarrow> string \<Rightarrow> (string \<times> json) list" where
  "ev_delta i kind field piece =
     ev ''content_block_delta'' [(''index'', JInt (int i)), (''delta'', JObj [(''type'', JStr kind), (field, JStr piece)])]"

definition ev_stop :: "nat \<Rightarrow> (string \<times> json) list" where
  "ev_stop i = ev ''content_block_stop'' [(''index'', JInt (int i))]"

fun block_events :: "nat \<Rightarrow> block_script \<Rightarrow> (string \<times> json) list list" where
  "block_events i (TextScript ps) =
     ev_start i [(''type'', JStr ''text''), (''text'', JStr [])] #
     map (ev_delta i ''text_delta'' ''text'') ps @ [ev_stop i]"
| "block_events i (ThinkingScript ps sig) =
     ev_start i [(''type'', JStr ''thinking''), (''thinking'', JStr []), (''signature'', JStr [])] #
     map (ev_delta i ''thinking_delta'' ''thinking'') ps @ [ev_delta i ''signature_delta'' ''signature'' sig, ev_stop i]"
| "block_events i (ToolScript ident name ps input) =
     ev_start i [(''type'', JStr ''tool_use''), (''id'', JStr ident), (''name'', JStr name), (''input'', JObj [])] #
     map (ev_delta i ''input_json_delta'' ''partial_json'') ps @ [ev_stop i]"

fun script_block :: "block_script \<Rightarrow> json" where
  "script_block (TextScript ps) = JObj [(''type'', JStr ''text''), (''text'', JStr (concat ps))]"
| "script_block (ThinkingScript ps sig) =
     JObj [(''type'', JStr ''thinking''), (''thinking'', JStr (concat ps)), (''signature'', JStr sig)]"
| "script_block (ToolScript ident name ps input) =
     JObj [(''type'', JStr ''tool_use''), (''id'', JStr ident), (''name'', JStr name), (''input'', input)]"

text \<open>The pieces of a tool's input are its JSON; no pieces, or blank ones, are the empty object.\<close>

fun script_ok :: "(string \<Rightarrow> json option) \<Rightarrow> block_script \<Rightarrow> bool" where
  "script_ok loads (ToolScript ident name ps input) =
     (if strip (concat ps) = [] then input = JObj [] else loads (concat ps) = Some input)"
| "script_ok loads _ = True"

fun blocks_events :: "nat \<Rightarrow> block_script list \<Rightarrow> (string \<times> json) list list" where
  "blocks_events i [] = []"
| "blocks_events i (b # bs) = block_events i b @ blocks_events (Suc i) bs"

definition stream_events ::
  "(string \<times> json) list \<Rightarrow> block_script list \<Rightarrow> json \<Rightarrow> json \<Rightarrow> (string \<times> json) list \<Rightarrow> (string \<times> json) list list" where
  "stream_events message bs reason sequence usage =
     ev ''message_start'' [(''message'', JObj message)] # blocks_events 0 bs @
     [ev ''message_delta'' [(''delta'', JObj [(''stop_reason'', reason), (''stop_sequence'', sequence)]),
                            (''usage'', JObj usage)],
      ev ''message_stop'' []]"

text \<open>The text of a stream: one frame of two lines per event, with an empty line after it.\<close>

definition frame :: "(json \<Rightarrow> string) \<Rightarrow> (string \<times> json) list \<Rightarrow> string" where
  "frame dumps event =
     ''event: '' @ json_str (get event ''type'') @ newline @ ''data: '' @ dumps (JObj event) @ newline @ newline"

section \<open>Reassembling it\<close>

lemma bindR_Inr [simp]: "bindR (Inr a) f = f a"
  by (simp add: bindR_def)

lemma map_of_put: "map_of (put k v kvs) k' = (if k' = k then Some v else map_of kvs k')"
proof -
  have "map_of (map (\<lambda>(k', u). (k', if k' = k then v else u)) kvs) k' =
      map_option (\<lambda>u. if k' = k then v else u) (map_of kvs k')"
    by (induction kvs) auto
  moreover have "k \<in> fst ` set kvs \<longleftrightarrow> (\<exists>u. map_of kvs k = Some u)" by (metis map_of_eq_None_iff not_None_eq)
  ultimately show ?thesis by (cases "k' = k"; cases "map_of kvs k"; cases "k \<in> fst ` set kvs"; cases "map_of kvs k'")
       (simp_all add: put_def map_add_def)
qed

lemma map_of_merge:
  "distinct (map fst new) \<Longrightarrow>
   map_of (merge_dicts old new) k = (case map_of new k of None \<Rightarrow> map_of old k | Some v \<Rightarrow> Some v)"
proof (induction old new rule: merge_dicts.induct)
  case (2 old k' v new)
  then have "map_of new k' = None" by (simp add: map_of_eq_None_iff)
  with 2 show ?case by (auto simp: map_of_put split: option.splits)
qed simp

lemmas event_simps = on_event_def get_def item_def ev_def ev_start_def ev_delta_def ev_stop_def Let_def

lemma block_start_step:
  assumes "as_message a = Some m"
  shows "reassemble_events loads (ev_start (length (as_content a)) block # es) a =
    reassemble_events loads es (a\<lparr>as_content := as_content a @ [JObj block],
       as_partial := (if map_of block ''type'' = Some (JStr ''tool_use'')
                      then set_partial (int (length (as_content a))) [] (as_partial a) else as_partial a)\<rparr>)"
  using assms by (simp add: event_simps on_block_start_def split: option.splits)

lemma plain_start_step:
  assumes "as_message a = Some m" and "map_of block ''type'' \<noteq> Some (JStr ''tool_use'')"
  shows "reassemble_events loads (ev_start (length (as_content a)) block # es) a =
    reassemble_events loads es (a\<lparr>as_content := as_content a @ [JObj block]\<rparr>)"
proof -
  have "a\<lparr>as_content := c, as_partial := as_partial a\<rparr> = a\<lparr>as_content := c\<rparr>" for c by (cases a) simp
  then show ?thesis using block_start_step [OF assms(1)] assms(2) by simp
qed

lemma put_mid:
  assumes "k \<notin> fst ` set pre" and "k \<notin> fst ` set post"
  shows "put k v (pre @ (k, u) # post) = pre @ (k, v) # post"
proof -
  have "map (\<lambda>(k', u). (k', if k' = k then v else u)) kvs = kvs" if "k \<notin> fst ` set kvs" for kvs
    using that by (induction kvs) auto
  then show ?thesis using assms by (simp add: put_def)
qed

lemma map_of_mid: "k \<notin> fst ` set pre \<Longrightarrow> map_of (pre @ (k, u) # post) k = Some u"
  by (induction pre) auto

lemma same_content: "as_content a = x \<Longrightarrow> a\<lparr>as_content := x\<rparr> = a"
  by (cases a) simp

lemma same_partial: "as_partial a = x \<Longrightarrow> a\<lparr>as_partial := x\<rparr> = a"
  by (cases a) simp

text \<open>A run of pieces for one field of the last block.\<close>

lemma delta_step:
  assumes "as_message a = Some m" and "as_content a = c @ [JObj (pre @ (field, JStr t) # post)]"
    and "field \<notin> fst ` set pre" "field \<notin> fst ` set post"
    and "(kind, field) \<in> {(''text_delta'', ''text''), (''thinking_delta'', ''thinking'')}"
  shows "reassemble_events loads (ev_delta (length c) kind field p # es) a =
    reassemble_events loads es (a\<lparr>as_content := c @ [JObj (pre @ (field, JStr (t @ p)) # post)]\<rparr>)"
  using assms(5) map_of_mid [OF assms(3), of "JStr t" post]
  by (auto simp: assms(1,2) event_simps on_delta_def py_index_def or_empty_def update_block_def append_field_def
      get_or_def py_add_def set_item_def put_mid [OF assms(3,4)])

lemma deltas_step:
  assumes "as_message a = Some m" and "as_content a = c @ [JObj (pre @ (field, JStr t) # post)]"
    and "field \<notin> fst ` set pre" "field \<notin> fst ` set post"
    and "(kind, field) \<in> {(''text_delta'', ''text''), (''thinking_delta'', ''thinking'')}"
  shows "reassemble_events loads (map (ev_delta (length c) kind field) ps @ es) a =
    reassemble_events loads es (a\<lparr>as_content := c @ [JObj (pre @ (field, JStr (t @ concat ps)) # post)]\<rparr>)"
  using assms
proof (induction ps arbitrary: a t)
  case Nil
  then show ?case by (simp add: same_content)
next
  case (Cons p ps)
  then show ?case
    using delta_step [OF Cons.prems(1,2,3,4,5)] by (simp del: reassemble_events.simps)
qed

lemma signature_step:
  assumes "as_message a = Some m" and "as_content a = c @ [JObj (pre @ (''signature'', x) # post)]"
    and "''signature'' \<notin> fst ` set pre" "''signature'' \<notin> fst ` set post"
  shows "reassemble_events loads (ev_delta (length c) ''signature_delta'' ''signature'' s # es) a =
    reassemble_events loads es (a\<lparr>as_content := c @ [JObj (pre @ (''signature'', JStr s) # post)]\<rparr>)"
  by (simp add: assms(1,2) event_simps on_delta_def py_index_def or_empty_def update_block_def set_item_def
      put_mid [OF assms(3,4)])

lemma plain_stop_step:
  assumes "as_message a = Some m" and "i < length (as_content a)" and "map_of (as_partial a) (int i) = None"
  shows "reassemble_events loads (ev_stop i # es) a = reassemble_events loads es a"
  using assms by (simp add: event_simps on_stop_def)

lemma inputs_step:
  assumes "as_message a = Some m" and "i < length (as_content a)" and "as_partial a = [(int i, map JStr qs)]"
  shows "reassemble_events loads (map (ev_delta i ''input_json_delta'' ''partial_json'') ps @ es) a =
    reassemble_events loads es (a\<lparr>as_partial := [(int i, map JStr (qs @ ps))]\<rparr>)"
  using assms
proof (induction ps arbitrary: a qs)
  case Nil
  then show ?case by (simp add: same_partial)
next
  case (Cons p ps)
  have "reassemble_events loads (ev_delta i ''input_json_delta'' ''partial_json'' p # fs) a =
      reassemble_events loads fs (a\<lparr>as_partial := [(int i, map JStr (qs @ [p]))]\<rparr>)" for fs
    using Cons.prems by (simp add: event_simps on_delta_def py_index_def or_empty_def set_partial_def)
  then show ?case using Cons.prems Cons.IH [of "a\<lparr>as_partial := [(int i, map JStr (qs @ [p]))]\<rparr>" "qs @ [p]"]
    by (simp del: reassemble_events.simps)
qed

lemma join_strings_map [simp]: "join_strings (map JStr ps) = Inr (concat ps)"
  by (induction ps) simp_all

lemma input_stop_step:
  assumes "as_message a = Some m" and "as_content a = c @ [JObj (pre @ (''input'', x) # post)]"
    and "''input'' \<notin> fst ` set pre" "''input'' \<notin> fst ` set post"
    and "as_partial a = [(int (length c), map JStr ps)]"
    and "if strip (concat ps) = [] then y = JObj [] else loads (concat ps) = Some y"
  shows "reassemble_events loads (ev_stop (length c) # es) a =
    reassemble_events loads es (a\<lparr>as_partial := [], as_content := c @ [JObj (pre @ (''input'', y) # post)]\<rparr>)"
proof -
  have "(if strip (concat ps) = [] then Inr (JObj [])
         else case loads (concat ps) of None \<Rightarrow> Inl (Raised decode_error) | Some x \<Rightarrow> Inr x) = (Inr y :: json reading)"
    using assms(6) by (auto split: if_splits)
  then show ?thesis
    by (simp add: assms(1,2,5) event_simps on_stop_def py_index_def update_block_def set_item_def put_mid [OF assms(3,4)]
        cong: if_cong)
qed

text \<open>A block's events append the block.\<close>

lemma block_step:
  assumes m: "as_message a = Some m" and i: "i = length (as_content a)" and p: "as_partial a = []" and ok: "script_ok loads b"
  shows "reassemble_events loads (block_events i b @ es) a =
    reassemble_events loads es (a\<lparr>as_content := as_content a @ [script_block b]\<rparr>)"
proof (cases b)
  case (TextScript ps)
  let ?pre = "[(''type'', JStr ''text'')]"
  let ?a = "a\<lparr>as_content := as_content a @ [JObj (?pre @ (''text'', JStr []) # [])]\<rparr>"
  let ?b = "a\<lparr>as_content := as_content a @ [JObj (?pre @ (''text'', JStr (concat ps)) # [])]\<rparr>"
  have "reassemble_events loads (block_events i b @ es) a =
      reassemble_events loads (map (ev_delta (length (as_content a)) ''text_delta'' ''text'') ps @ ev_stop i # es) ?a"
    unfolding TextScript i by (simp add: plain_start_step [OF m] del: reassemble_events.simps)
  also have "\<dots> = reassemble_events loads (ev_stop i # es) ?b"
    using deltas_step [where a = ?a and m = m and c = "as_content a" and pre = ?pre and post = "[]" and t = "[]"] m
    by (simp del: reassemble_events.simps)
  also have "\<dots> = reassemble_events loads es ?b" by (rule plain_stop_step) (simp_all add: m i p)
  finally show ?thesis using TextScript by simp
next
  case (ThinkingScript ps sig)
  let ?pre = "[(''type'', JStr ''thinking'')]"
  let ?post = "[(''signature'', JStr [])]"
  let ?a = "a\<lparr>as_content := as_content a @ [JObj (?pre @ (''thinking'', JStr []) # ?post)]\<rparr>"
  let ?b = "a\<lparr>as_content := as_content a @ [JObj (?pre @ (''thinking'', JStr (concat ps)) # ?post)]\<rparr>"
  let ?pre' = "[(''type'', JStr ''thinking''), (''thinking'', JStr (concat ps))]"
  let ?c = "a\<lparr>as_content := as_content a @ [JObj (?pre' @ (''signature'', JStr sig) # [])]\<rparr>"
  have "reassemble_events loads (block_events i b @ es) a =
      reassemble_events loads (map (ev_delta (length (as_content a)) ''thinking_delta'' ''thinking'') ps @
        ev_delta (length (as_content a)) ''signature_delta'' ''signature'' sig # ev_stop i # es) ?a"
    unfolding ThinkingScript i by (simp add: plain_start_step [OF m] del: reassemble_events.simps)
  also have "\<dots> = reassemble_events loads
      (ev_delta (length (as_content a)) ''signature_delta'' ''signature'' sig # ev_stop i # es) ?b"
    using deltas_step [where a = ?a and m = m and c = "as_content a" and pre = ?pre and post = ?post and t = "[]"] m
    by (simp del: reassemble_events.simps)
  also have "\<dots> = reassemble_events loads (ev_stop i # es) ?c"
    using signature_step [where a = ?b and m = m and c = "as_content a" and pre = ?pre' and post = "[]"] m
    by (simp del: reassemble_events.simps)
  also have "\<dots> = reassemble_events loads es ?c" by (rule plain_stop_step) (simp_all add: m i p)
  finally show ?thesis using ThinkingScript by simp
next
  case (ToolScript ident name ps input)
  let ?pre = "[(''type'', JStr ''tool_use''), (''id'', JStr ident), (''name'', JStr name)]"
  let ?a = "a\<lparr>as_content := as_content a @ [JObj (?pre @ (''input'', JObj []) # [])], as_partial := [(int i, map JStr [])]\<rparr>"
  let ?b = "?a\<lparr>as_partial := [(int i, map JStr ps)]\<rparr>"
  have "reassemble_events loads (block_events i b @ es) a =
      reassemble_events loads (map (ev_delta i ''input_json_delta'' ''partial_json'') ps @ ev_stop i # es) ?a"
    unfolding ToolScript i by (simp add: block_start_step [OF m] p set_partial_def del: reassemble_events.simps)
  also have "\<dots> = reassemble_events loads (ev_stop (length (as_content a)) # es) ?b"
    using inputs_step [where a = ?a and m = m and i = i and qs = "[]"] m i by (simp del: reassemble_events.simps)
  also have "\<dots> = reassemble_events loads es
      (?b\<lparr>as_partial := [], as_content := as_content a @ [JObj (?pre @ (''input'', input) # [])]\<rparr>)"
    by (rule input_stop_step) (use m i ok ToolScript in simp_all)
  also have "?b\<lparr>as_partial := [], as_content := as_content a @ [JObj (?pre @ (''input'', input) # [])]\<rparr> =
      a\<lparr>as_content := as_content a @ [JObj (?pre @ (''input'', input) # [])]\<rparr>"
    using p by (cases a) simp
  finally show ?thesis using ToolScript by simp
qed

lemma blocks_step:
  assumes "as_message a = Some m" and "i = length (as_content a)" and "as_partial a = []" and "list_all (script_ok loads) bs"
  shows "reassemble_events loads (blocks_events i bs @ es) a =
    reassemble_events loads es (a\<lparr>as_content := as_content a @ map script_block bs\<rparr>)"
  using assms
proof (induction bs arbitrary: a i)
  case Nil
  then show ?case by (simp add: same_content)
next
  case (Cons b bs)
  let ?a = "a\<lparr>as_content := as_content a @ [script_block b]\<rparr>"
  have "reassemble_events loads (blocks_events i (b # bs) @ es) a = reassemble_events loads (blocks_events (Suc i) bs @ es) ?a"
    using block_step [OF Cons.prems(1,2,3)] Cons.prems(4) by simp
  also have "\<dots> = reassemble_events loads es (?a\<lparr>as_content := as_content ?a @ map script_block bs\<rparr>)"
    by (rule Cons.IH) (use Cons.prems in simp_all)
  finally show ?case by simp
qed

definition message_of :: "(string \<times> json) list \<Rightarrow> block_script list \<Rightarrow> json \<Rightarrow> json \<Rightarrow> (string \<times> json) list \<Rightarrow> (string \<times> json) list" where
  "message_of message bs reason sequence usage =
     (let m = put ''stop_sequence'' sequence (put ''stop_reason'' reason (put ''content'' (JArr []) message));
          old = (case get message ''usage'' of JObj kvs \<Rightarrow> kvs | _ \<Rightarrow> [])
      in put ''content'' (JArr (map script_block bs))
           (if usage = [] then m else put ''usage'' (JObj (merge_dicts old usage)) m))"

lemma stream_reassembled:
  assumes "falsy (get message ''content'')" and "\<exists>old. get message ''usage'' = JObj old" and "list_all (script_ok loads) bs"
  shows "reassemble_events loads (stream_events message bs reason sequence usage) start_assembly =
    Inr (JObj (message_of message bs reason sequence usage))"
proof -
  let ?m = "put ''content'' (JArr []) message"
  let ?a = "\<lparr>as_message = Some ?m, as_content = [], as_partial = []\<rparr>"
  let ?closing = "[ev ''message_delta'' [(''delta'', JObj [(''stop_reason'', reason), (''stop_sequence'', sequence)]),
                            (''usage'', JObj usage)],
      ev ''message_stop'' []]"
  obtain old where old: "get message ''usage'' = JObj old" using assms(2) by blast
  have u: "get (put ''stop_sequence'' sequence (put ''stop_reason'' reason ?m)) ''usage'' = JObj old"
    using old by (simp add: get_def map_of_put)
  have "reassemble_events loads (stream_events message bs reason sequence usage) start_assembly =
      reassemble_events loads (blocks_events 0 bs @ ?closing) ?a"
    using assms(1) by (simp add: stream_events_def event_simps on_start_def start_assembly_def)
  also have "\<dots> = reassemble_events loads ?closing (?a\<lparr>as_content := as_content ?a @ map script_block bs\<rparr>)"
    by (rule blocks_step) (use assms(3) in simp_all)
  also have "\<dots> = Inr (JObj (message_of message bs reason sequence usage))"
    using u old
    by (simp add: event_simps on_message_delta_def or_empty_def copy_field_def mapping_def assembled_def message_of_def)
  finally show ?thesis .
qed


section \<open>Frames\<close>

definition one_line :: "string \<Rightarrow> bool" where
  "one_line s \<longleftrightarrow> CHR 0x0A \<notin> set s \<and> CHR 0x0D \<notin> set s"

text \<open>What the wire format needs of \<open>json.dumps\<close> and \<open>json.loads\<close>: the text of an event is one line
  that begins with no space and is read back as the event.\<close>

definition frame_ok :: "(string \<Rightarrow> json option) \<Rightarrow> (json \<Rightarrow> string) \<Rightarrow> (string \<times> json) list \<Rightarrow> bool" where
  "frame_ok loads dumps event \<longleftrightarrow>
     one_line (json_str (get event ''type'')) \<and> one_line (dumps (JObj event)) \<and>
     lstrip (dumps (JObj event)) = dumps (JObj event) \<and> loads (dumps (JObj event)) = Some (JObj event)"

lemma unix_newlines_same: "CHR 0x0D \<notin> set s \<Longrightarrow> unix_newlines s = s"
  by (induction s rule: unix_newlines.induct) auto

lemma split_blocks_nonempty [simp]: "split_blocks s \<noteq> []"
  by (induction s rule: split_blocks.induct) (auto split: list.splits)

lemma split_blocks_line:
  "CHR 0x0A \<notin> set l \<Longrightarrow> s \<noteq> [] \<Longrightarrow>
   split_blocks (l @ s) = (l @ hd (split_blocks s)) # tl (split_blocks s)"
proof (induction l)
  case (Cons c l)
  obtain d t where t: "l @ s = d # t" using Cons.prems(2) by (cases "l @ s") simp_all
  have "split_blocks (l @ s) = (l @ hd (split_blocks s)) # tl (split_blocks s)" using Cons by simp
  then show ?case using Cons.prems(1) t by auto
qed simp

lemma split_blocks_newline: "d \<noteq> CHR 0x0A \<Longrightarrow>
   split_blocks (CHR 0x0A # d # s) = (CHR 0x0A # hd (split_blocks (d # s))) # tl (split_blocks (d # s))"
  by (cases "split_blocks (d # s)") simp_all

lemma split_blocks_frame:
  assumes "CHR 0x0A \<notin> set l" and "CHR 0x0A \<notin> set k" and "k = d # k'"
  shows "split_blocks (l @ CHR 0x0A # k @ CHR 0x0A # CHR 0x0A # s) = (l @ CHR 0x0A # k) # split_blocks s"
proof -
  have 1: "split_blocks (k @ CHR 0x0A # CHR 0x0A # s) = k # split_blocks s"
    using split_blocks_line [OF assms(2), of "CHR 0x0A # CHR 0x0A # s"] by simp
  have "d \<noteq> CHR 0x0A" using assms(2,3) by auto
  then have 2: "split_blocks (CHR 0x0A # k @ CHR 0x0A # CHR 0x0A # s) = (CHR 0x0A # k) # split_blocks s"
    using split_blocks_newline [of d "k' @ CHR 0x0A # CHR 0x0A # s"] 1 assms(3) by simp
  show ?thesis using split_blocks_line [OF assms(1)] 2 by simp
qed

lemma split_on_line: "c \<notin> set l \<Longrightarrow> split_on c (l @ c # s) = l # split_on c s"
  by (induction l) auto

lemma split_on_none: "c \<notin> set l \<Longrightarrow> split_on c l = [l]"
  by (induction l) auto

lemma frame_event:
  assumes "frame_ok loads dumps e"
  shows "block_event loads (''event: '' @ json_str (get e ''type'') @ CHR 0x0A # ''data: '' @ dumps (JObj e)) = Some e"
proof -
  let ?l = "''event: '' @ json_str (get e ''type'')" and ?k = "''data: '' @ dumps (JObj e)"
  have n: "CHR 0x0A \<notin> set ?l" "CHR 0x0A \<notin> set ?k" using assms by (auto simp: frame_ok_def one_line_def)
  have "split_on (CHR 0x0A) (?l @ CHR 0x0A # ?k) = [?l, ?k]"
    unfolding split_on_line [OF n(1)] split_on_none [OF n(2)] ..
  moreover have "lstrip ('' '' @ dumps (JObj e)) = dumps (JObj e)"
    using assms by (simp add: frame_ok_def lstrip_def is_space_def)
  ultimately have "block_data (?l @ CHR 0x0A # ?k) = [dumps (JObj e)]"
    by (simp add: block_data_def)
  then show ?thesis using assms by (simp add: block_event_def frame_ok_def)
qed

lemma frames_parsed:
  assumes "list_all (frame_ok loads dumps) es"
  shows "parse_events loads (concat (map (frame dumps) es)) = es"
proof -
  have cr: "CHR 0x0D \<notin> set (concat (map (frame dumps) es))"
    using assms by (auto simp: list_all_iff frame_ok_def one_line_def frame_def newline_def)
  have "List.map_filter (block_event loads) (split_blocks (concat (map (frame dumps) es))) = es"
    using assms
  proof (induction es)
    case Nil
    then show ?case by (simp add: block_event_def block_data_def map_filter_simps)
  next
    case (Cons e es)
    have ok: "frame_ok loads dumps e" using Cons.prems by simp
    let ?l = "''event: '' @ json_str (get e ''type'')" and ?k = "''data: '' @ dumps (JObj e)"
    have n: "CHR 0x0A \<notin> set ?l" "CHR 0x0A \<notin> set ?k" using ok by (auto simp: frame_ok_def one_line_def)
    have "split_blocks (concat (map (frame dumps) (e # es))) = (?l @ CHR 0x0A # ?k) # split_blocks (concat (map (frame dumps) es))"
      using split_blocks_frame [OF n, of "CHR ''d''" "''ata: '' @ dumps (JObj e)" "concat (map (frame dumps) es)"]
      by (simp add: frame_def newline_def)
    then show ?case using frame_event [OF ok] Cons by (simp add: map_filter_simps)
  qed
  then show ?thesis by (simp add: parse_events_def unix_newlines_same [OF cr])
qed

section \<open>Properties\<close>

text \<open>C30: the reassembly inverts the wire format. The stream of a message, block by block in any pieces,
  reads back as that message: its content is the blocks with their pieces joined and the tool
  inputs parsed, the stop fields are those of the last delta, the usage is the first one with the
  last one's entries over it, and every other field is the first event's.\<close>

theorem reassemble_round_trip:
  assumes "falsy (get message ''content'')" and "get message ''usage'' = JObj old" and "list_all (script_ok loads) bs"
    and "usage \<noteq> []" and "distinct (map fst usage)"
    and "list_all (frame_ok loads dumps) (stream_events message bs reason sequence usage)"
  shows "\<exists>r u. reassemble loads (concat (map (frame dumps) (stream_events message bs reason sequence usage))) = Inr (JObj r) \<and>
     map_of r ''content'' = Some (JArr (map script_block bs)) \<and>
     map_of r ''stop_reason'' = Some reason \<and> map_of r ''stop_sequence'' = Some sequence \<and>
     map_of r ''usage'' = Some (JObj u) \<and>
     (\<forall>k. map_of u k = (case map_of usage k of None \<Rightarrow> map_of old k | Some v \<Rightarrow> Some v)) \<and>
     (\<forall>k. k \<notin> {''content'', ''stop_reason'', ''stop_sequence'', ''usage''} \<longrightarrow> map_of r k = map_of message k)"
proof -
  have u: "get (put ''stop_sequence'' sequence (put ''stop_reason'' reason (put ''content'' (JArr []) message))) ''usage'' = JObj old"
    using assms(2) by (simp add: get_def map_of_put)
  have "reassemble loads (concat (map (frame dumps) (stream_events message bs reason sequence usage))) =
      Inr (JObj (message_of message bs reason sequence usage))"
    unfolding reassemble_def frames_parsed [OF assms(6)]
    by (rule stream_reassembled) (use assms(1-3) in auto)
  then show ?thesis
    using assms(2,4) by (intro exI [of _ "message_of message bs reason sequence usage"] exI [of _ "merge_dicts old usage"])
      (simp add: message_of_def Let_def map_of_put map_of_merge [OF assms(5)])
qed


definition hello_message :: "(string \<times> json) list" where
  "hello_message = [(''id'', JStr ''msg_1''), (''content'', JArr []), (''usage'', JObj [(''input_tokens'', JInt 5)])]"

definition hello_blocks :: "block_script list" where
  "hello_blocks = [TextScript [''Hel'', ''lo''], ToolScript ''t1'' ''clock'' [] (JObj [])]"

definition hello_events :: "(string \<times> json) list list" where
  "hello_events = stream_events hello_message hello_blocks (JStr ''tool_use'') JNull [(''output_tokens'', JInt 9)]"

text \<open>A codec that numbers the events.\<close>

definition hello_dumps :: "json \<Rightarrow> string" where
  "hello_dumps v = [digit_char (length (takeWhile (\<lambda>e. JObj e \<noteq> v) hello_events))]"

definition hello_loads :: "string \<Rightarrow> json option" where
  "hello_loads s = (case s of [c] \<Rightarrow> Some (JObj (hello_events ! digit_value c)) | _ \<Rightarrow> None)"

lemma reassemble_round_trip_witness:
  "\<exists>r. reassemble hello_loads (concat (map (frame hello_dumps) hello_events)) = Inr (JObj r) \<and>
     map_of r ''content'' = Some (JArr [JObj [(''type'', JStr ''text''), (''text'', JStr ''Hello'')],
       JObj [(''type'', JStr ''tool_use''), (''id'', JStr ''t1''), (''name'', JStr ''clock''), (''input'', JObj [])]])"
proof -
  have c: "falsy (get hello_message ''content'')" "get hello_message ''usage'' = JObj [(''input_tokens'', JInt 5)]"
    "list_all (script_ok hello_loads) hello_blocks"
    by (simp_all add: hello_message_def get_def hello_blocks_def strip_def lstrip_def rstrip_def)
  have u: "[(''output_tokens'', JInt 9)] \<noteq> []" "distinct (map fst [(''output_tokens'', JInt 9)])" by simp_all
  have f: "list_all (frame_ok hello_loads hello_dumps)
      (stream_events hello_message hello_blocks (JStr ''tool_use'') JNull [(''output_tokens'', JInt 9)])"
    by code_simp
  from reassemble_round_trip [OF c u f] show ?thesis
    unfolding hello_events_def by (auto simp: hello_blocks_def)
qed

end
