(* ===== verification/Relay.thy ===== *)
theory Relay
  imports Lifecycle Ssrf Sse
begin

text \<open>
  src/src/mshkn/services/relay.py: a job is one upstream HTTP call, retried by its policy, and at most
  one delivery, which wakes a labelled chain. The source changes a job object in place and saves it;
  here the object is the local variable of the actions below, and the table row is what was saved
  last. The two private exceptions of the module are exceptions of those names. Response headers
  are the client's dictionary: lower-case names, one value each. Sleeps are in milliseconds.
\<close>

section \<open>Requests\<close>

definition retry_statuses :: "int list" where
  "retry_statuses = [408, 409, 429]"

definition bodyless_methods :: "string list" where
  "bodyless_methods = [''GET'', ''HEAD'']"

record relay_request =
  rq_target :: string
  rq_method :: string
  rq_forward_headers :: "(string \<times> string) list"
  rq_body :: json
  rq_retry :: retry_policy
  rq_timeout_seconds :: "int option"
  rq_deliver :: "relay_delivery option"

record upstream =
  us_status :: int
  us_headers :: "(string \<times> string) list"
  us_body :: json

definition transient_error :: "string \<Rightarrow> exc" where
  "transient_error m = PyError ''_TransientError'' m"

definition final_error :: "string \<Rightarrow> exc" where
  "final_error m = PyError ''_FinalError'' m"

definition utf8_bytes :: "string \<Rightarrow> string" where
  "utf8_bytes s = map char_of (utf8_encode (map of_char s))"

definition encode_body :: "'h env \<Rightarrow> json \<Rightarrow> string" where
  "encode_body E body = utf8_bytes (case body of JStr s \<Rightarrow> s | v \<Rightarrow> lib_dumps (e_lib E) v)"

definition relay_task_key :: "string \<Rightarrow> string" where
  "relay_task_key job_id = ''relay:'' @ job_id"

section \<open>Submit and read\<close>

definition new_job :: "string \<Rightarrow> account \<Rightarrow> relay_request \<Rightarrow> int \<Rightarrow> string option \<Rightarrow> string \<Rightarrow> relay_job" where
  "new_job i account request timeout api_key_id now =
     \<lparr>rj_id = i, rj_account_id = a_id account, rj_api_key_id = api_key_id, rj_status = RelayQueued,
      rj_target = rq_target request, rj_method = rq_method request,
      rj_forward_headers = Some (rq_forward_headers request), rj_body = rq_body request,
      rj_retry = rq_retry request, rj_timeout_seconds = timeout, rj_deliver = rq_deliver request,
      rj_attempts = 0, rj_error = None, rj_response_status = None, rj_response_headers = None,
      rj_response_body = JNull,
      rj_delivery_status = (case rq_deliver request of None \<Rightarrow> None | Some _ \<Rightarrow> Some DeliveryPending),
      rj_delivery_attempts = 0, rj_delivery_computer_id = None, rj_delivery_deferred_id = None,
      rj_delivery_error = None, rj_created_at = now, rj_updated_at = now\<rparr>"

definition spawn_job :: "relay_job \<Rightarrow> ('h, unit) st" where
  "spawn_job job = spawn (TRelayRun job) (relay_task_key (rj_id job)) (Some (relay_task_key (rj_id job)))"

definition submit ::
  "'h env \<Rightarrow> account \<Rightarrow> relay_request \<Rightarrow> string option \<Rightarrow> ('h, relay_job) st" where
  "submit E account request api_key_id =
     bindE (guard E (rq_target request)) (\<lambda>reason.
     case reason of
       Some r \<Rightarrow> raise_domain InvalidInput (''target refused: '' @ r)
     | None \<Rightarrow>
         (let cap = cf_relay_timeout_seconds (e_config E);
              timeout = (case rq_timeout_seconds request of None \<Rightarrow> cap | Some t \<Rightarrow> t);
              limit = cf_relay_body_bytes (e_config E)
          in if timeout > cap
             then raise_domain InvalidInput (''timeout_seconds must be at most '' @ str_int cap)
             else if rq_body request \<noteq> JNull \<and> int (length (encode_body E (rq_body request))) > limit
             then raise_domain PayloadTooLarge (''body exceeds '' @ str_int limit @ '' bytes'')
             else bindE (utcnow E) (\<lambda>now.
                  bindE (uuid4_hex E) (\<lambda>hex.
                  let job = new_job (''rj-'' @ take 12 hex) account request timeout api_key_id now in
                  seqE (insert_relay_job job) (seqE (spawn_job job) (ret job))))))"

definition get_owned_job :: "account \<Rightarrow> string \<Rightarrow> ('h, relay_job) st" where
  "get_owned_job account job_id =
     bindE (reads (get_relay_job job_id)) (\<lambda>job.
     case job of
       None \<Rightarrow> raise_domain NotFound ''Relay job not found''
     | Some j \<Rightarrow> if rj_account_id j \<noteq> a_id account then raise_domain NotFound ''Relay job not found'' else ret j)"

definition resume_jobs :: "('h, int) st" where
  "resume_jobs =
     bindE (reads (list_relay_jobs_by_status [RelayQueued, RelayInProgress])) (\<lambda>jobs.
     seqE (for_each jobs spawn_job) (ret (int (length jobs))))"

section \<open>The upstream call\<close>

type_synonym ('h, 'a) jobact = "('h world \<times> relay_job, 'a) act"

definition save :: "'h env \<Rightarrow> ('h, unit) jobact" where
  "save E =
     bindE (lifted (utcnow E)) (\<lambda>now.
     seqE (assign (rj_updated_at_update (\<lambda>_. now))) (bindE local (\<lambda>job. lifted (update_relay_job job))))"

definition timeout_names :: "string list" where
  "timeout_names = [''TimeoutException'', ''ConnectTimeout'', ''ReadTimeout'', ''WriteTimeout'', ''PoolTimeout'']"

definition http_error_names :: "string list" where
  "http_error_names =
     [''HTTPError'', ''RequestError'', ''TransportError'', ''NetworkError'', ''ConnectError'', ''ReadError'',
      ''WriteError'', ''CloseError'', ''ProxyError'', ''UnsupportedProtocol'', ''ProtocolError'',
      ''LocalProtocolError'', ''RemoteProtocolError'', ''DecodingError'', ''TooManyRedirects'',
      ''HTTPStatusError'', ''InvalidURL'']"

text \<open>The \<open>except\<close> clauses around the request.\<close>

definition attempt_error :: "relay_job \<Rightarrow> exc \<Rightarrow> exc" where
  "attempt_error job e =
     (if exc_name e = ''TimeoutError''
      then final_error (''timeout after '' @ str_int (rj_timeout_seconds job) @ '' s'')
      else if exc_name e \<in> set timeout_names
      then final_error (''timeout after '' @ str_int (rj_timeout_seconds job) @ '' s: '' @ exc_name e)
      else if exc_name e \<in> set http_error_names \<or> is_os_error e
      then transient_error (describe_exc e) else e)"

definition request_of :: "'h env \<Rightarrow> relay_job \<Rightarrow> http_request" where
  "request_of E job =
     (let headers = (case rj_forward_headers job of None \<Rightarrow> [] | Some hs \<Rightarrow> hs);
          has_body = (rj_method job \<notin> set bodyless_methods \<and> rj_body job \<noteq> JNull);
          is_text = (case rj_body job of JStr _ \<Rightarrow> True | _ \<Rightarrow> False);
          typed = list_ex (\<lambda>(k, _). lower k = ''content-type'') headers
      in \<lparr>hq_method = rj_method job, hq_url = rj_target job,
          hq_headers = (if has_body \<and> \<not> is_text \<and> \<not> typed
                        then headers @ [(''content-type'', ''application/json'')] else headers),
          hq_content = (if has_body then Some (encode_body E (rj_body job)) else None),
          hq_timeout_seconds = rj_timeout_seconds job\<rparr>)"

text \<open>The chunks as they arrive: the limit is checked at each, before an error that comes later.\<close>

fun read_chunks :: "int \<Rightarrow> int \<Rightarrow> string list \<Rightarrow> exc option \<Rightarrow> exc + string list" where
  "read_chunks limit received [] failure = (case failure of None \<Rightarrow> Inr [] | Some e \<Rightarrow> Inl e)"
| "read_chunks limit received (c # cs) failure =
     (let received = received + int (length c)
      in if received > limit then Inl (final_error (''upstream body exceeds '' @ str_int limit @ '' bytes''))
         else case read_chunks limit received cs failure of Inl e \<Rightarrow> Inl e | Inr ds \<Rightarrow> Inr (c # ds))"

definition stream_error :: "stream_failure \<Rightarrow> exc" where
  "stream_error f =
     (case f of
        StreamError t m \<Rightarrow> if t \<in> set retryable_stream_errors then transient_error (t @ '': '' @ m)
                           else final_error (t @ '': '' @ m)
      | IncompleteStream m \<Rightarrow> transient_error m
      | Raised e \<Rightarrow> e)"

definition response_body :: "libraries \<Rightarrow> string \<Rightarrow> string \<Rightarrow> exc + json" where
  "response_body L content_type body =
     (if sublist ''text/event-stream'' content_type
      then (case reassemble (lib_loads L) body of Inl f \<Rightarrow> Inl (stream_error f) | Inr v \<Rightarrow> Inr v)
      else if sublist ''json'' content_type
      then (case lib_loads L body of None \<Rightarrow> Inr (JStr body) | Some v \<Rightarrow> Inr v)
      else Inr (JStr body))"

definition upstream_attempt :: "'h env \<Rightarrow> relay_job \<Rightarrow> ('h, upstream) st" where
  "upstream_attempt E job =
     bindE (catchE
       (bindE (hostop (wb_stream (e_web E) (request_of E job))) (\<lambda>s.
        bindE (from_result (read_chunks (cf_relay_body_bytes (e_config E)) 0 (hs_chunks s) (hs_end s))) (\<lambda>chunks.
        ret (s, chunks))))
       (\<lambda>e. raise (attempt_error job e))) (\<lambda>(s, chunks).
     let content_type = (case map_of (hs_headers s) ''content-type'' of None \<Rightarrow> [] | Some t \<Rightarrow> t) in
     bindE (from_result (response_body (e_lib E) content_type (lib_decode (e_lib E) (concat chunks)))) (\<lambda>body.
     ret \<lparr>us_status = hs_status s, us_headers = hs_headers s, us_body = body\<rparr>))"

definition fail_job :: "string option \<Rightarrow> ('h, unit) jobact" where
  "fail_job error = assign (\<lambda>j. j\<lparr>rj_status := RelayFailed, rj_error := error\<rparr>)"

definition set_status :: "relay_status \<Rightarrow> ('h, unit) jobact" where
  "set_status s = assign (rj_status_update (\<lambda>_. s))"

definition pause :: "'h env \<Rightarrow> nat \<Rightarrow> ('h, unit) jobact" where
  "pause E attempt =
     bindE local (\<lambda>job. lifted (hostop (wb_sleep (e_web E) (retry_delay_ms (rj_retry job) attempt))))"

text \<open>Whether to go on with the next attempt, after a transient failure or a status to retry.\<close>

definition retry_or_fail :: "'h env \<Rightarrow> nat \<Rightarrow> ('h, bool) jobact" where
  "retry_or_fail E attempt =
     bindE local (\<lambda>job.
     if int attempt + 1 < rp_attempts (rj_retry job) then seqE (pause E attempt) (ret True)
     else seqE (set_status RelayFailed) (ret False))"

definition record_upstream :: "upstream \<Rightarrow> relay_job \<Rightarrow> relay_job" where
  "record_upstream u j =
     j\<lparr>rj_response_status := Some (us_status u), rj_response_headers := Some (us_headers u),
       rj_response_body := us_body u\<rparr>"

definition after_attempt :: "'h env \<Rightarrow> nat \<Rightarrow> exc + upstream \<Rightarrow> ('h, bool) jobact" where
  "after_attempt E attempt r =
     (case r of
        Inl e \<Rightarrow>
          if exc_name e = ''_FinalError'' then seqE (fail_job (Some (exc_str e))) (ret False)
          else if exc_name e = ''_TransientError''
          then seqE (assign (rj_error_update (\<lambda>_. Some (exc_str e)))) (retry_or_fail E attempt)
          else raise e
      | Inr u \<Rightarrow>
          seqE (assign (record_upstream u))
          (if us_status u \<in> set retry_statuses \<or> us_status u \<ge> 500
           then seqE (assign (rj_error_update (\<lambda>_. Some (''HTTP '' @ str_int (us_status u)))))
                     (retry_or_fail E attempt)
           else seqE (assign (\<lambda>j. j\<lparr>rj_status := RelayCompleted, rj_error := None\<rparr>)) (ret False)))"

definition one_attempt :: "'h env \<Rightarrow> nat \<Rightarrow> ('h, bool) jobact" where
  "one_attempt E attempt =
     seqE (assign (\<lambda>j. j\<lparr>rj_attempts := int attempt + 1, rj_status := RelayInProgress\<rparr>))
     (seqE (save E)
     (bindE local (\<lambda>job.
      bindE (tryE (lifted (upstream_attempt E job))) (after_attempt E attempt))))"

fun call_loop :: "'h env \<Rightarrow> nat list \<Rightarrow> ('h, unit) jobact" where
  "call_loop E [] =
     assign (\<lambda>j. j\<lparr>rj_status := RelayFailed,
       rj_error := (case truthy (rj_error j) of None \<Rightarrow> Some ''attempts exhausted'' | Some e \<Rightarrow> Some e)\<rparr>)"
| "call_loop E (attempt # rest) =
     bindE (one_attempt E attempt) (\<lambda>again. if again then call_loop E rest else ret ())"

definition call_upstream :: "'h env \<Rightarrow> ('h, unit) jobact" where
  "call_upstream E =
     bindE local (\<lambda>job. call_loop E [nat (rj_attempts job)..<nat (rp_attempts (rj_retry job))])"

section \<open>Delivery\<close>

definition delivery_spec :: "relay_job \<Rightarrow> relay_delivery \<Rightarrow> exec_spec" where
  "delivery_spec job d =
     \<lparr>es_command = Some (rd_exec d @ '' '' @ rj_id job), es_self_destruct = True, es_callback_url = None,
      es_label = None, es_meta_exec = None\<rparr>"

fun delivered_to :: "admitted \<Rightarrow> relay_job \<Rightarrow> relay_job" where
  "delivered_to (Deferred i) j =
     j\<lparr>rj_delivery_deferred_id := Some i, rj_delivery_computer_id := None,
       rj_delivery_status := Some DeliveryDelivered, rj_delivery_error := None\<rparr>"
| "delivered_to (Forked c) j =
     j\<lparr>rj_delivery_computer_id := Some (c_id c), rj_delivery_deferred_id := None,
       rj_delivery_status := Some DeliveryDelivered, rj_delivery_error := None\<rparr>"

fun deliver_loop ::
  "'h env \<Rightarrow> account \<Rightarrow> string \<Rightarrow> exec_spec \<Rightarrow> nat list \<Rightarrow> ('h, (checkpoint \<times> admitted) option) jobact" where
  "deliver_loop E account label spec [] =
     seqE (assign (rj_delivery_status_update (\<lambda>_. Some DeliveryFailed))) (seqE (save E) (ret None))"
| "deliver_loop E account label spec (attempt # rest) =
     seqE (assign (rj_delivery_attempts_update (\<lambda>_. int attempt + 1)))
     (bindE (tryE (lifted (fork_by_label E account label spec (Some DeferOnConflict) None None))) (\<lambda>r.
      case r of
        Inl e \<Rightarrow>
          if \<not> is_exception e then raise e
          else seqE (assign (rj_delivery_error_update (\<lambda>_. Some (describe_exc e))))
               (seqE (save E)
               (bindE local (\<lambda>job.
                seqE (whenE (int attempt + 1 < rp_attempts (rj_retry job)) (pause E attempt))
                     (deliver_loop E account label spec rest))))
      | Inr (head, forked) \<Rightarrow>
          seqE (assign (delivered_to forked)) (seqE (save E) (ret (Some (head, forked))))))"

definition deliver_on :: "'h env \<Rightarrow> account \<Rightarrow> relay_delivery \<Rightarrow> ('h, unit) jobact" where
  "deliver_on E account d =
     bindE local (\<lambda>job.
     bindE (deliver_loop E account (rd_label d) (delivery_spec job d) [0..<nat (rp_attempts (rj_retry job))]) (\<lambda>r.
     case r of
       None \<Rightarrow> ret ()
     | Some (head, Deferred i) \<Rightarrow> ret ()
     | Some (head, Forked c) \<Rightarrow>
         catch_exception
           (bindE (lifted (run_ephemeral E account c (delivery_spec job d) (Some head))) (\<lambda>_. ret ()))
           (\<lambda>e. seqE (assign (rj_delivery_error_update (\<lambda>_. Some (describe_exc e)))) (save E))))"

definition deliver :: "'h env \<Rightarrow> relay_delivery \<Rightarrow> ('h, unit) jobact" where
  "deliver E d =
     bindE local (\<lambda>job.
     bindE (lifted (reads (get_account_by_id (rj_account_id job)))) (\<lambda>account.
     case account of
       None \<Rightarrow>
         seqE (assign (\<lambda>j. j\<lparr>rj_delivery_status := Some DeliveryFailed, rj_delivery_error := Some ''account not found''\<rparr>))
              (save E)
     | Some a \<Rightarrow> deliver_on E a d))"

definition run_job :: "'h env \<Rightarrow> ('h, unit) jobact" where
  "run_job E =
     seqE (catch_exception (call_upstream E) (\<lambda>e. fail_job (Some (describe_exc e))))
     (seqE (assign (rj_forward_headers_update (\<lambda>_. None)))
     (seqE (save E)
     (bindE local (\<lambda>job. case rj_deliver job of None \<Rightarrow> ret () | Some d \<Rightarrow> deliver E d))))"

definition run_relay :: "'h env \<Rightarrow> relay_job \<Rightarrow> ('h, unit) st" where
  "run_relay E job = with_locals job (run_job E)"


section \<open>What a relay leaves alone\<close>

text \<open>A predicate that survives a delivery too: the fork may be put on the queue.\<close>

locale relayed = outsider I for I :: "'h world \<Rightarrow> bool" +
  assumes of_deferred: "I w \<Longrightarrow> I (w_deferred_update f w)"
begin

lemma defer_keeps: "keeps I (defer_request E account c label spec recipe_id)"
proof -
  have "keeps I (insert_deferred i l a p t)" for i l a p t
    by (auto simp: keeps_def insert_deferred_def insert_row_def of_deferred)
  then show ?thesis
    unfolding defer_request_def Let_def by (intro keeps_bindE keeps_seqE keeps_ret host_steps)
qed

lemma fork_deferring_keeps: "keeps I (fork_by_label E account l spec x r key)"
  unfolding fork_by_label_def latest_for_label_def admit_def fork_admitted_def
  by (auto intro!: keeps_bindE keeps_reads keeps_ret keeps_option keeps_raise_domain keeps_if fork_keeps defer_keeps
      split: option.splits exclusive_mode.splits)

end

definition jobs_are :: "relay_job list \<Rightarrow> 'h world \<Rightarrow> bool" where
  "jobs_are J w \<longleftrightarrow> w_relay_jobs w = J"

interpretation jobs: relayed "jobs_are J" for J
  by unfold_locales (simp_all add: jobs_are_def ignores_host_def)

section \<open>The row of a job\<close>

text \<open>The table with the row of the job replaced by what was saved last.\<close>

definition saved :: "relay_job list \<Rightarrow> relay_job \<Rightarrow> 'h world \<Rightarrow> bool" where
  "saved J k w \<longleftrightarrow> jobs_are (update_where (\<lambda>r. rj_id r = rj_id k) (\<lambda>_. k) J) w"

definition job_table :: "relay_job list \<Rightarrow> string \<Rightarrow> 'h world \<Rightarrow> bool" where
  "job_table J i w \<longleftrightarrow> jobs_are J w \<or> (\<exists>k. rj_id k = i \<and> saved J k w)"

lemma saved_table: "saved J k w \<Longrightarrow> rj_id k = i \<Longrightarrow> job_table J i w"
  by (auto simp: job_table_def)

lemma update_where_again:
  "rj_id k = i \<Longrightarrow> update_where (\<lambda>r. rj_id r = i) (\<lambda>_. k') (update_where (\<lambda>r. rj_id r = i) (\<lambda>_. k) J) =
   update_where (\<lambda>r. rj_id r = i) (\<lambda>_. k') J"
  by (induction J) (auto simp: update_where_def)

lemma save_wp:
  assumes "job_table J (rj_id j) w"
  shows "wp (save E) (\<lambda>_ (w', j'). (\<exists>t. j' = j\<lparr>rj_updated_at := t\<rparr>) \<and> saved J j' w') (\<lambda>_ _. False) (w, j)"
proof -
  have "job_table J (rj_id j) (w\<lparr>w_host := h\<rparr>)" for h
    using assms by (simp add: job_table_def saved_def jobs_are_def)
  then have "saved J (j\<lparr>rj_updated_at := t\<rparr>)
      (w_relay_jobs_update (update_where (\<lambda>r. rj_id r = rj_id j) (\<lambda>_. j\<lparr>rj_updated_at := t\<rparr>)) (w\<lparr>w_host := h\<rparr>))" for t h
    by (auto simp: job_table_def saved_def jobs_are_def update_where_again)
  then show ?thesis
    by (auto simp: save_def utcnow_def update_relay_job_def wp_simps wp_def split: prod.splits sum.splits)
qed

lemma saved_keeps: "(\<And>J. keeps (jobs_are J) m) \<Longrightarrow> keeps (saved J k) m"
  unfolding saved_def [abs_def] .


section \<open>The call settles the job\<close>

text \<open>What no step of the call changes of the job; a row that \<open>resume\<close> would run again; and a settled
  job: with its credentials gone, completed by a response that is not to be retried, or failed with
  an error.\<close>

definition same_job :: "relay_job \<Rightarrow> relay_job \<Rightarrow> bool" where
  "same_job j0 j \<longleftrightarrow> rj_id j = rj_id j0 \<and> rj_deliver j = rj_deliver j0 \<and> rj_retry j = rj_retry j0 \<and>
     rj_forward_headers j = rj_forward_headers j0 \<and> rj_delivery_status j = rj_delivery_status j0 \<and>
     rj_attempts j \<le> max (rj_attempts j0) (rp_attempts (rj_retry j0))"

definition resumable :: "relay_job \<Rightarrow> relay_job \<Rightarrow> bool" where
  "resumable j0 k \<longleftrightarrow> rj_id k = rj_id j0 \<and> rj_status k = RelayInProgress \<and> rj_forward_headers k = rj_forward_headers j0 \<and>
     rj_attempts k \<le> max (rj_attempts j0) (rp_attempts (rj_retry j0))"

definition call_ended :: "relay_job \<Rightarrow> bool" where
  "call_ended k \<longleftrightarrow>
     (rj_status k = RelayCompleted \<and> rj_error k = None \<and>
        (\<exists>s. rj_response_status k = Some s \<and> s < 500 \<and> s \<notin> set retry_statuses)) \<or>
     (rj_status k = RelayFailed \<and> rj_error k \<noteq> None)"

definition job_done :: "relay_job \<Rightarrow> relay_job \<Rightarrow> bool" where
  "job_done j0 k \<longleftrightarrow> rj_id k = rj_id j0 \<and> rj_forward_headers k = None \<and> call_ended k \<and>
     rj_attempts k \<le> max (rj_attempts j0) (rp_attempts (rj_retry j0))"

definition in_flight :: "relay_job list \<Rightarrow> relay_job \<Rightarrow> 'h world \<times> relay_job \<Rightarrow> bool" where
  "in_flight J j0 p \<longleftrightarrow> (\<exists>k. resumable j0 k \<and> saved J k (fst p)) \<and> same_job j0 (snd p)"

lemma keeps_in_flight: "keeps (in_flight J j0) (lifted (hostop f))"
  unfolding keeps_def in_flight_def
  by (auto simp: lifted_def hostop_def saved_def jobs_are_def split: prod.splits)

lemma keeps_upstream: "keeps (jobs_are J) (upstream_attempt E job)"
  unfolding upstream_attempt_def Let_def
  by (intro keeps_bindE keeps_catchE keeps_prod keeps_from_result keeps_ret keeps_raise jobs.host_steps)

lemma in_flight_error: "in_flight J j0 (w, j) \<Longrightarrow> in_flight J j0 (w, j\<lparr>rj_error := e\<rparr>)"
  by (simp add: in_flight_def same_job_def)

lemma retry_or_fail_wp:
  assumes "in_flight J j0 (w, j)" and "rj_error j \<noteq> None"
  shows "wp (retry_or_fail E attempt)
     (\<lambda>again (w', j'). in_flight J j0 (w', j') \<and> (\<not> again \<longrightarrow> call_ended j'))
     (\<lambda>e. in_flight J j0) (w, j)"
proof -
  have "wp (lifted (hostop f)) (\<lambda>_ p. in_flight J j0 p) (\<lambda>_. in_flight J j0) (w, j)" for f :: "('a, unit) act"
    by (rule keeps_wp [OF keeps_in_flight assms(1)])
  moreover have "in_flight J j0 (w, j\<lparr>rj_status := RelayFailed\<rparr>)" "call_ended (j\<lparr>rj_status := RelayFailed\<rparr>)"
    using assms by (simp_all add: in_flight_def same_job_def call_ended_def)
  ultimately show ?thesis
    by (simp add: retry_or_fail_def pause_def set_status_def wp_bindE wp_seqE wp_local wp_ret wp_assign cong: if_cong)
qed


lemma after_attempt_wp:
  assumes f: "in_flight J j0 (w, j)"
  shows "wp (after_attempt E attempt r)
     (\<lambda>again (w', j'). in_flight J j0 (w', j') \<and> (\<not> again \<longrightarrow> call_ended j'))
     (\<lambda>e. in_flight J j0) (w, j)"
proof (cases r)
  case (Inl e)
  have "in_flight J j0 (w, j\<lparr>rj_status := RelayFailed, rj_error := x\<rparr>)" for x
    using f by (simp add: in_flight_def same_job_def)
  moreover have "wp (retry_or_fail E attempt)
     (\<lambda>again (w', j'). in_flight J j0 (w', j') \<and> (\<not> again \<longrightarrow> call_ended j'))
     (\<lambda>e. in_flight J j0) (w, j\<lparr>rj_error := Some (exc_str e)\<rparr>)"
    by (rule retry_or_fail_wp) (simp_all add: in_flight_error f)
  ultimately show ?thesis
    using f Inl by (simp add: after_attempt_def fail_job_def wp_seqE wp_assign wp_ret wp_raise call_ended_def)
next
  case (Inr u)
  have g: "in_flight J j0 (w, record_upstream u j)"
    using f by (simp add: in_flight_def same_job_def record_upstream_def)
  then have "in_flight J j0 (w, (record_upstream u j)\<lparr>rj_status := RelayCompleted, rj_error := None\<rparr>)"
    by (simp add: in_flight_def same_job_def)
  moreover have "wp (retry_or_fail E attempt)
     (\<lambda>again (w', j'). in_flight J j0 (w', j') \<and> (\<not> again \<longrightarrow> call_ended j'))
     (\<lambda>e. in_flight J j0) (w, (record_upstream u j)\<lparr>rj_error := Some x\<rparr>)" for x
    by (rule retry_or_fail_wp) (simp_all add: in_flight_error g)
  ultimately show ?thesis
    using Inr by (auto simp: after_attempt_def wp_seqE wp_assign wp_ret call_ended_def record_upstream_def)
qed

lemma upstream_wp:
  assumes f: "in_flight J j0 (w, j)"
  shows "wp (upstream_attempt E i) (\<lambda>_ w'. in_flight J j0 (w', j)) (\<lambda>_ w'. in_flight J j0 (w', j)) w"
proof -
  obtain k where k: "resumable j0 k" "saved J k w" "same_job j0 j" using f by (auto simp: in_flight_def)
  have "wp (upstream_attempt E i) (\<lambda>_. saved J k) (\<lambda>_. saved J k) w"
    by (rule keeps_wp [OF saved_keeps [OF keeps_upstream] k(2)])
  then show ?thesis by (rule wp_mono) (use k in \<open>auto simp: in_flight_def\<close>)
qed

lemma one_attempt_wp:
  assumes t: "job_table J (rj_id j0) w" and s: "same_job j0 j" and a: "int attempt < rp_attempts (rj_retry j0)"
  shows "wp (one_attempt E attempt)
     (\<lambda>again (w', j'). in_flight J j0 (w', j') \<and> (\<not> again \<longrightarrow> call_ended j'))
     (\<lambda>e. in_flight J j0) (w, j)"
proof -
  let ?j = "j\<lparr>rj_attempts := int attempt + 1, rj_status := RelayInProgress\<rparr>"
  have t': "job_table J (rj_id ?j) w" using t s by (simp add: same_job_def)
  have start: "resumable j0 (?j\<lparr>rj_updated_at := x\<rparr>) \<and> same_job j0 (?j\<lparr>rj_updated_at := x\<rparr>)" for x
    using s a by (auto simp: same_job_def resumable_def)
  have "wp (save E) (\<lambda>_ p. in_flight J j0 p) (\<lambda>_ p. in_flight J j0 p) (w, ?j)"
  proof (rule wp_mono [OF save_wp [OF t']])
    fix x p assume "case p of (w', j') \<Rightarrow> (\<exists>t. j' = ?j\<lparr>rj_updated_at := t\<rparr>) \<and> saved J j' w'"
    then obtain w' t where p: "p = (w', ?j\<lparr>rj_updated_at := t\<rparr>)" "saved J (?j\<lparr>rj_updated_at := t\<rparr>) w'" by auto
    show "in_flight J j0 p"
      using start [of t] p(2) unfolding p(1) in_flight_def fst_conv snd_conv by blast
  qed simp
  then show ?thesis
    unfolding one_attempt_def wp_seqE wp_assign wp_bindE wp_local wp_tryE wp_lifted prod.case
    by (rule wp_mono) (clarsimp simp: wp_mono [OF upstream_wp] after_attempt_wp)+
qed

lemma call_loop_wp:
  assumes "job_table J (rj_id j0) w" and "same_job j0 j" and "\<forall>a\<in>set xs. int a < rp_attempts (rj_retry j0)"
  shows "wp (call_loop E xs)
     (\<lambda>_ (w', j'). job_table J (rj_id j0) w' \<and> same_job j0 j' \<and> call_ended j') (\<lambda>e. in_flight J j0) (w, j)"
  using assms
proof (induction xs arbitrary: w j)
  case Nil
  have "call_ended (j\<lparr>rj_status := RelayFailed,
       rj_error := (case truthy (rj_error j) of None \<Rightarrow> Some ''attempts exhausted'' | Some e \<Rightarrow> Some e)\<rparr>)"
    by (simp add: call_ended_def split: option.splits)
  then show ?case using Nil.prems(1,2) by (simp add: wp_assign same_job_def)
next
  case (Cons a xs)
  have "int a < rp_attempts (rj_retry j0)" using Cons.prems by simp
  have next_up: "wp (if again then call_loop E xs else ret ())
      (\<lambda>_ (w', j'). job_table J (rj_id j0) w' \<and> same_job j0 j' \<and> call_ended j') (\<lambda>e. in_flight J j0) (w', j')"
    if f: "in_flight J j0 (w', j')" and e: "\<not> again \<longrightarrow> call_ended j'" for again w' j'
  proof -
    have t: "job_table J (rj_id j0) w'" "same_job j0 j'"
      using f by (auto simp: in_flight_def resumable_def intro: saved_table)
    show ?thesis
    proof (cases again)
      case True
      then show ?thesis using Cons.IH [OF t] Cons.prems(3) by simp
    next
      case False
      then show ?thesis using t e by (simp add: wp_ret)
    qed
  qed
  show ?case
    unfolding call_loop.simps wp_bindE
    by (rule wp_mono [OF one_attempt_wp [OF Cons.prems(1,2) \<open>int a < _\<close>]])
       (simp_all only: split_paired_all prod.case, elim conjE, rule next_up, assumption+)
qed


section \<open>The delivery ends, and the settled job stays settled\<close>

definition settled_at :: "relay_job list \<Rightarrow> relay_job \<Rightarrow> 'h world \<times> relay_job \<Rightarrow> bool" where
  "settled_at J j0 p \<longleftrightarrow>
     (\<exists>k. saved J k (fst p) \<and> job_done j0 k \<and> rj_deliver k = rj_deliver j0) \<and>
     job_done j0 (snd p) \<and> rj_deliver (snd p) = rj_deliver j0"

definition delivery_ended :: "relay_job list \<Rightarrow> relay_job \<Rightarrow> 'h world \<times> relay_job \<Rightarrow> bool" where
  "delivery_ended J j0 p \<longleftrightarrow>
     (\<exists>k. saved J k (fst p) \<and> job_done j0 k \<and> rj_deliver k = rj_deliver j0 \<and>
        rj_delivery_status k \<in> {Some DeliveryDelivered, Some DeliveryFailed}) \<and>
     job_done j0 (snd p) \<and> rj_deliver (snd p) = rj_deliver j0 \<and>
     rj_delivery_status (snd p) \<in> {Some DeliveryDelivered, Some DeliveryFailed}"

definition delivery_fields :: "(relay_job \<Rightarrow> relay_job) \<Rightarrow> bool" where
  "delivery_fields f \<longleftrightarrow>
     (\<forall>j0 j. job_done j0 (f j) = job_done j0 j \<and> rj_deliver (f j) = rj_deliver j)"

lemma delivery_field_updates [simp]:
  "delivery_fields (rj_delivery_attempts_update (\<lambda>_. n))"
  "delivery_fields (rj_delivery_error_update (\<lambda>_. e))"
  "delivery_fields (rj_delivery_status_update (\<lambda>_. s))"
  "delivery_fields (\<lambda>j. j\<lparr>rj_delivery_status := s, rj_delivery_error := e\<rparr>)"
  by (simp_all add: delivery_fields_def job_done_def call_ended_def)

lemma delivery_fields_to [simp]: "delivery_fields (delivered_to a)"
  unfolding delivery_fields_def by (cases a) (simp_all add: job_done_def call_ended_def)

lemma settled_assign: "delivery_fields f \<Longrightarrow> settled_at J j0 (w, j) \<Longrightarrow> settled_at J j0 (w, f j)"
  by (simp add: settled_at_def delivery_fields_def)

lemma settled_updated [simp]: "job_done j0 (k\<lparr>rj_updated_at := t\<rparr>) = job_done j0 k"
  by (simp add: job_done_def call_ended_def)

lemma settled_save:
  assumes "settled_at J j0 (w, j)"
  shows "wp (save E) (\<lambda>_ p. settled_at J j0 p \<and>
      (rj_delivery_status j \<in> {Some DeliveryDelivered, Some DeliveryFailed} \<longrightarrow> delivery_ended J j0 p)) (\<lambda>_ _. False) (w, j)"
proof -
  have "job_table J (rj_id j) w"
    using assms by (auto simp: settled_at_def job_done_def intro: saved_table)
  then show ?thesis
    by (rule wp_mono [OF save_wp]) (use assms in \<open>auto simp: settled_at_def delivery_ended_def\<close>)
qed

lemma keeps_settled:
  fixes m :: "('h, 'a) st"
  assumes k: "\<And>J. keeps (jobs_are J) m"
  shows "keeps (settled_at J j0) (lifted m)"
  unfolding keeps_def [of "settled_at J j0"]
proof (intro allI impI)
  fix p :: "'h world \<times> relay_job" assume s: "settled_at J j0 p"
  obtain w j where p: "p = (w, j)" by (cases p)
  obtain r w' where m: "m w = (r, w')" by (cases "m w")
  have "saved J k w \<Longrightarrow> saved J k w'" for k
    using keepsD [OF saved_keeps [OF k], where w = w] m by (simp add: run_state_def)
  then show "settled_at J j0 (snd (lifted m p))"
    using s by (auto simp: p lifted_def m settled_at_def)
qed


lemma settled_lifted:
  "settled_at J j0 p \<Longrightarrow> (\<And>J. keeps (jobs_are J) m) \<Longrightarrow>
   wp (lifted m) (\<lambda>_. settled_at J j0) (\<lambda>_. settled_at J j0) p"
  by (rule keeps_wp [OF keeps_settled])

lemma deliver_loop_wp:
  "settled_at J j0 (w, j) \<Longrightarrow>
   wp (deliver_loop E account label spec xs) (\<lambda>_. delivery_ended J j0) (\<lambda>_. settled_at J j0) (w, j)"
proof (induction xs arbitrary: w j)
  case Nil
  have s: "settled_at J j0 (w, j\<lparr>rj_delivery_status := Some DeliveryFailed\<rparr>)"
    by (rule settled_assign) (simp_all add: Nil)
  show ?case
    unfolding deliver_loop.simps wp_seqE wp_assign prod.case wp_ret
    by (rule wp_mono [OF settled_save [OF s]]) simp_all
next
  case (Cons a xs)
  have s: "settled_at J j0 (w, j\<lparr>rj_delivery_attempts := int a + 1\<rparr>)"
    by (rule settled_assign) (simp_all add: Cons.prems)
  have ok: "wp (save E) (\<lambda>_. delivery_ended J j0) (\<lambda>_. settled_at J j0) (v, delivered_to forked i)"
    if "settled_at J j0 (v, i)" for v i forked
  proof -
    have "settled_at J j0 (v, delivered_to forked i)" by (rule settled_assign) (simp_all add: that)
    then show ?thesis
      by (rule wp_mono [OF settled_save]) (cases forked; simp)+
  qed
  have rest: "wp (seqE (whenE b (pause E a)) (deliver_loop E account label spec xs))
      (\<lambda>_. delivery_ended J j0) (\<lambda>_. settled_at J j0) (v, i)"
    if "settled_at J j0 (v, i)" for v i b
  proof -
    have "wp (whenE b (pause E a)) (\<lambda>_. settled_at J j0) (\<lambda>_. settled_at J j0) (v, i)"
      using that by (simp add: wp_whenE pause_def wp_bindE wp_local settled_lifted jobs.host_steps)
    then show ?thesis
      unfolding wp_seqE by (rule wp_mono) (simp_all only: split_paired_all Cons.IH)
  qed
  have bad: "wp (seqE (save E) (bindE local (\<lambda>job.
        seqE (whenE (int a + 1 < rp_attempts (rj_retry job)) (pause E a)) (deliver_loop E account label spec xs))))
      (\<lambda>_. delivery_ended J j0) (\<lambda>_. settled_at J j0) (v, i\<lparr>rj_delivery_error := e\<rparr>)"
    if "settled_at J j0 (v, i)" for v i e
  proof -
    have "settled_at J j0 (v, i\<lparr>rj_delivery_error := e\<rparr>)" by (rule settled_assign) (simp_all add: that)
    then show ?thesis
      unfolding wp_seqE [of "save E"] wp_bindE wp_local
      by (rule wp_mono [OF settled_save]) (auto intro: rest)
  qed
  have fork: "wp (lifted (fork_by_label E account label spec (Some DeferOnConflict) None None))
      (\<lambda>_. settled_at J j0) (\<lambda>_. settled_at J j0) (w, j\<lparr>rj_delivery_attempts := int a + 1\<rparr>)"
    by (rule settled_lifted [OF s jobs.fork_deferring_keeps])
  show ?case
    unfolding deliver_loop.simps wp_seqE [of "assign _"] wp_assign prod.case wp_bindE [of "tryE _"] wp_tryE
    by (rule wp_mono [OF fork]) (auto simp: wp_seqE [of "assign _"] wp_assign wp_raise wp_seqE [of "save E" "ret _"] wp_ret ok bad split: prod.splits)
qed


lemma ended_settled: "delivery_ended J j0 p \<Longrightarrow> settled_at J j0 p"
  by (auto simp: delivery_ended_def settled_at_def)

lemma keeps_ended:
  fixes m :: "('h, 'a) st"
  assumes k: "\<And>J. keeps (jobs_are J) m"
  shows "keeps (delivery_ended J j0) (lifted m)"
  unfolding keeps_def [of "delivery_ended J j0"]
proof (intro allI impI)
  fix p :: "'h world \<times> relay_job" assume s: "delivery_ended J j0 p"
  obtain w j where p: "p = (w, j)" by (cases p)
  obtain r w' where m: "m w = (r, w')" by (cases "m w")
  have "saved J k w \<Longrightarrow> saved J k w'" for k
    using keepsD [OF saved_keeps [OF k], where w = w] m by (simp add: run_state_def)
  then show "delivery_ended J j0 (snd (lifted m p))"
    using s by (auto simp: p lifted_def m delivery_ended_def)
qed

lemma ended_error_save:
  assumes e: "delivery_ended J j0 (w, j)"
  shows "wp (save E) (\<lambda>_. delivery_ended J j0) (\<lambda>_ _. False) (w, j\<lparr>rj_delivery_error := x\<rparr>)"
proof -
  have "settled_at J j0 (w, j\<lparr>rj_delivery_error := x\<rparr>)"
    by (rule settled_assign) (simp_all add: ended_settled [OF e])
  then show ?thesis
    by (rule wp_mono [OF settled_save]) (use e in \<open>auto simp: delivery_ended_def [of J j0 "(w, j)"]\<close>)
qed

lemma run_delivered_wp:
  fixes p :: "'h world \<times> relay_job"
  assumes "delivery_ended J j0 p"
  shows "wp (catch_exception (bindE (lifted (run_ephemeral E account c spec src)) (\<lambda>_. ret ()))
           (\<lambda>e. seqE (assign (rj_delivery_error_update (\<lambda>_. Some (describe_exc e)))) (save E)))
         (\<lambda>_. delivery_ended J j0) (\<lambda>_. settled_at J j0) p"
  unfolding wp_catch_exception wp_bindE wp_ret
proof (rule wp_mono [OF keeps_wp [OF keeps_ended [OF jobs.run_keeps] assms]])
  fix e and p' :: "'h world \<times> relay_job" assume e: "delivery_ended J j0 p'"
  obtain v i where p': "p' = (v, i)" by (cases p')
  have "wp (save E) (\<lambda>_. delivery_ended J j0) (\<lambda>_. settled_at J j0) (v, i\<lparr>rj_delivery_error := Some (describe_exc e)\<rparr>)"
    by (rule wp_mono [OF ended_error_save [OF e [unfolded p']]]) simp_all
  then show "(if is_exception e
      then wp (seqE (assign (rj_delivery_error_update (\<lambda>_. Some (describe_exc e)))) (save E))
             (\<lambda>_. delivery_ended J j0) (\<lambda>_. settled_at J j0)
      else settled_at J j0) p'"
    using ended_settled [OF e] by (simp add: p' wp_seqE wp_assign)
qed simp

lemma deliver_on_wp:
  assumes s: "settled_at J j0 (w, j)"
  shows "wp (deliver_on E account d) (\<lambda>_. delivery_ended J j0) (\<lambda>_. settled_at J j0) (w, j)"
  unfolding deliver_on_def wp_bindE wp_local prod.case
  by (rule wp_mono [OF deliver_loop_wp [OF s]])
     (auto simp: wp_ret run_delivered_wp split: option.splits prod.splits admitted.splits)

lemma deliver_wp:
  assumes s: "settled_at J j0 (w, j)"
  shows "wp (deliver E d) (\<lambda>_. delivery_ended J j0) (\<lambda>_. settled_at J j0) (w, j)"
proof -
  have "settled_at J j0 (w, j\<lparr>rj_delivery_status := Some DeliveryFailed, rj_delivery_error := e\<rparr>)" for e
    by (rule settled_assign) (simp_all add: s)
  then have gone: "wp (save E) (\<lambda>_. delivery_ended J j0) (\<lambda>_. settled_at J j0)
      (w, j\<lparr>rj_delivery_status := Some DeliveryFailed, rj_delivery_error := e\<rparr>)" for e
    by (rule wp_mono [OF settled_save]) simp_all
  show ?thesis
    using gone deliver_on_wp [OF s]
    by (auto simp: deliver_def wp_bindE wp_local wp_lifted wp_reads wp_seqE wp_assign split: option.splits)
qed

section \<open>A job settles\<close>

lemma call_upstream_wp:
  assumes "job_table J (rj_id j) w"
  shows "wp (call_upstream E) (\<lambda>_ (w', j'). job_table J (rj_id j) w' \<and> same_job j j' \<and> call_ended j')
     (\<lambda>e. in_flight J j) (w, j)"
proof -
  have "same_job j j" by (simp add: same_job_def)
  then have "wp (call_loop E [nat (rj_attempts j)..<nat (rp_attempts (rj_retry j))])
      (\<lambda>_ (w', j'). job_table J (rj_id j) w' \<and> same_job j j' \<and> call_ended j') (\<lambda>e. in_flight J j) (w, j)"
    by (rule call_loop_wp [OF assms]) auto
  then show ?thesis by (simp add: call_upstream_def wp_bindE wp_local)
qed

definition job_settled :: "relay_job list \<Rightarrow> relay_job \<Rightarrow> exc + unit \<Rightarrow> relay_job list \<Rightarrow> bool" where
  "job_settled J j0 r J' \<longleftrightarrow>
     (\<exists>k. J' = update_where (\<lambda>q. rj_id q = rj_id k) (\<lambda>_. k) J \<and>
        (case r of
           Inr _ \<Rightarrow> job_done j0 k \<and>
             (rj_deliver j0 \<noteq> None \<longrightarrow> rj_delivery_status k \<in> {Some DeliveryDelivered, Some DeliveryFailed})
         | Inl e \<Rightarrow> job_done j0 k \<or> (\<not> is_exception e \<and> resumable j0 k)))"

lemma settledI:
  assumes "saved J k w"
    and "case r of Inr _ \<Rightarrow> job_done j0 k \<and>
             (rj_deliver j0 \<noteq> None \<longrightarrow> rj_delivery_status k \<in> {Some DeliveryDelivered, Some DeliveryFailed})
         | Inl e \<Rightarrow> job_done j0 k \<or> (\<not> is_exception e \<and> resumable j0 k)"
  shows "job_settled J j0 r (w_relay_jobs w)"
  unfolding job_settled_def
  by (rule exI [of _ k]) (use assms(2) assms(1) [unfolded saved_def jobs_are_def] in \<open>intro conjI\<close>)

lemma at_settled: "settled_at J j0 p \<Longrightarrow> job_settled J j0 (Inl e) (w_relay_jobs (fst p))"
  unfolding settled_at_def by (elim exE conjE, rule settledI, assumption) simp

lemma ended_settles: "delivery_ended J j0 p \<Longrightarrow> job_settled J j0 (Inr ()) (w_relay_jobs (fst p))"
  unfolding delivery_ended_def by (elim exE conjE, rule settledI, assumption) simp

lemma undelivered_settles:
  "settled_at J j0 p \<Longrightarrow> rj_deliver (snd p) = None \<Longrightarrow> job_settled J j0 (Inr ()) (w_relay_jobs (fst p))"
  unfolding settled_at_def by (elim exE conjE, rule settledI, assumption) simp

lemma settle_wp:
  assumes "job_table J (rj_id j0) w" and "same_job j0 j" and "call_ended j"
  shows "wp (seqE (assign (rj_forward_headers_update (\<lambda>_. None))) (seqE (save E)
     (bindE local (\<lambda>job. case rj_deliver job of None \<Rightarrow> ret () | Some d \<Rightarrow> deliver E d))))
     (\<lambda>_ p. job_settled J j0 (Inr ()) (w_relay_jobs (fst p))) (\<lambda>e p. job_settled J j0 (Inl e) (w_relay_jobs (fst p))) (w, j)"
proof -
  let ?j = "j\<lparr>rj_forward_headers := None\<rparr>"
  have s: "job_done j0 (?j\<lparr>rj_updated_at := t\<rparr>)" "rj_deliver ?j = rj_deliver j0" for t
    using assms(2,3) by (simp_all add: job_done_def same_job_def call_ended_def)
  have "job_table J (rj_id ?j) w" using assms(1,2) by (simp add: same_job_def)
  then have "wp (save E) (\<lambda>_. settled_at J j0) (\<lambda>_ _. False) (w, ?j)"
    by (rule wp_mono [OF save_wp]) (use s in \<open>auto simp: settled_at_def\<close>)
  moreover have "wp (bindE local (\<lambda>job. case rj_deliver job of None \<Rightarrow> ret () | Some d \<Rightarrow> deliver E d))
     (\<lambda>_ p. job_settled J j0 (Inr ()) (w_relay_jobs (fst p))) (\<lambda>e p. job_settled J j0 (Inl e) (w_relay_jobs (fst p))) (v, i)"
    if t: "settled_at J j0 (v, i)" for v i
  proof (cases "rj_deliver i")
    case None
    then show ?thesis
      using undelivered_settles [OF t] by (simp add: wp_bindE wp_local wp_ret)
  next
    case (Some d)
    have "wp (deliver E d) (\<lambda>_ p. job_settled J j0 (Inr ()) (w_relay_jobs (fst p)))
       (\<lambda>e p. job_settled J j0 (Inl e) (w_relay_jobs (fst p))) (v, i)"
      by (rule wp_mono [OF deliver_wp [OF t]]) (erule ended_settles, erule at_settled)
    with Some show ?thesis by (simp add: wp_bindE wp_local)
  qed
  ultimately show ?thesis
    unfolding wp_seqE wp_assign prod.case
    by (elim wp_mono) (simp_all only: split_paired_all)
qed


lemma in_flight_settled:
  "in_flight J j0 p \<Longrightarrow> \<not> is_exception e \<Longrightarrow> job_settled J j0 (Inl e) (w_relay_jobs (fst p))"
  unfolding in_flight_def by (elim exE conjE, rule settledI, assumption) simp

lemma run_job_wp:
  assumes "job_table J (rj_id j0) w"
  shows "wp (run_job E) (\<lambda>_ p. job_settled J j0 (Inr ()) (w_relay_jobs (fst p)))
     (\<lambda>e p. job_settled J j0 (Inl e) (w_relay_jobs (fst p))) (w, j0)"
proof -
  let ?Q = "\<lambda>_ (w', j'). job_table J (rj_id j0) w' \<and> same_job j0 j' \<and> call_ended j'"
  let ?R = "\<lambda>e p. job_settled J j0 (Inl e) (w_relay_jobs (fst p))"
  have failed: "job_table J (rj_id j0) v \<and> same_job j0 (i\<lparr>rj_status := RelayFailed, rj_error := Some x\<rparr>) \<and>
      call_ended (i\<lparr>rj_status := RelayFailed, rj_error := Some x\<rparr>)" if "in_flight J j0 (v, i)" for v i x
    using that by (auto simp: in_flight_def resumable_def same_job_def call_ended_def intro: saved_table)
  have handled: "(if is_exception e then wp (fail_job (Some (describe_exc e))) ?Q ?R else ?R e) p"
    if f: "in_flight J j0 p" for e p
  proof (cases p)
    case (Pair v i)
    then show ?thesis
      using f failed [of v i] in_flight_settled [OF f] by (simp add: fail_job_def wp_assign)
  qed
  have "wp (catch_exception (call_upstream E) (\<lambda>e. fail_job (Some (describe_exc e)))) ?Q ?R (w, j0)"
    unfolding wp_catch_exception by (rule wp_mono [OF call_upstream_wp [OF assms]]) (assumption, erule handled)
  then show ?thesis
    unfolding run_job_def wp_seqE [of "catch_exception _ _"]
    by (rule wp_mono) (simp_all only: split_paired_all prod.case settle_wp)
qed


lemma relay_settles_all:
  "job_settled (w_relay_jobs w) job (outcome (run_relay E job) w) (w_relay_jobs (run_state (run_relay E job) w))"
proof -
  have "job_table (w_relay_jobs w) (rj_id job) w" by (simp add: job_table_def jobs_are_def)
  then have "wp (run_relay E job) (\<lambda>_ w'. job_settled (w_relay_jobs w) job (Inr ()) (w_relay_jobs w'))
      (\<lambda>e w'. job_settled (w_relay_jobs w) job (Inl e) (w_relay_jobs w')) w"
    unfolding run_relay_def wp_with_locals by (rule wp_mono [OF run_job_wp]) (simp_all add: split_paired_all)
  then show ?thesis by (simp add: wp_outcome split: sum.splits)
qed

section \<open>Resuming\<close>

definition task_list :: "'h world \<Rightarrow> task list" where
  "task_list w = map (\<lambda>(_, _, t). t) (bg_tasks (w_tasks w))"

lemma task_list_spawn:
  "run_state (spawn t n k) w = w\<lparr>w_tasks := bg_spawn t n k (w_tasks w)\<rparr>"
  "outcome (spawn t n k) w = Inr ()"
  "task_list (w\<lparr>w_tasks := bg_spawn t n k (w_tasks w)\<rparr>) = task_list w @ [t]"
  by (simp_all add: spawn_def run_state_def outcome_def writes_def task_list_def bg_spawn_def)

lemma spawn_each:
  fixes w :: "'a world"
  shows "\<exists>t. for_each jobs spawn_job w = (Inr (), w\<lparr>w_tasks := t\<rparr>) \<and>
     task_list (w\<lparr>w_tasks := t\<rparr>) = task_list w @ map TRelayRun jobs"
proof (induction jobs arbitrary: w)
  case Nil
  show ?case by (rule exI [of _ "w_tasks w"]) (simp add: ret_def)
next
  case (Cons j jobs)
  let ?t = "bg_spawn (TRelayRun j) (relay_task_key (rj_id j)) (Some (relay_task_key (rj_id j))) (w_tasks w)"
  obtain t where t: "for_each jobs spawn_job (w\<lparr>w_tasks := ?t\<rparr>) = (Inr (), w\<lparr>w_tasks := ?t, w_tasks := t\<rparr>)"
    "task_list (w\<lparr>w_tasks := ?t, w_tasks := t\<rparr>) = task_list (w\<lparr>w_tasks := ?t\<rparr>) @ map TRelayRun jobs"
    using Cons.IH [of "w\<lparr>w_tasks := ?t\<rparr>"] by blast
  have "seqE (spawn_job j) n w = n (w\<lparr>w_tasks := ?t\<rparr>)" for n :: "('a, unit) st"
    by (simp add: spawn_job_def spawn_def seqE_def bindE_def writes_def)
  then show ?case
    using t by (intro exI [of _ t]) (simp add: task_list_spawn(3))
qed

lemma resume_run:
  "\<exists>t. resume_jobs w = (Inr (int (length (list_relay_jobs_by_status [RelayQueued, RelayInProgress] w))), w\<lparr>w_tasks := t\<rparr>) \<and>
     task_list (w\<lparr>w_tasks := t\<rparr>) =
       task_list w @ map TRelayRun (list_relay_jobs_by_status [RelayQueued, RelayInProgress] w)"
  using spawn_each [of "list_relay_jobs_by_status [RelayQueued, RelayInProgress] w" w]
  by (auto simp: resume_jobs_def bindE_def seqE_def reads_def ret_def)

text \<open>The process goes down, and with it the tasks; the database stays.\<close>

definition restarted :: "'h world \<Rightarrow> 'h world" where
  "restarted w = w\<lparr>w_alloc := new_allocator, w_busy := {}, w_tasks := no_tasks, w_gauge := 0, w_metrics := [],
     w_alerts := [], w_reaper_failures := 0, w_last_failure := None\<rparr>"

lemma resumed_tasks:
  "set (task_list (run_state resume_jobs (restarted w))) =
     TRelayRun ` {j \<in> set (w_relay_jobs w). rj_status j \<in> {RelayQueued, RelayInProgress}}"
proof -
  obtain t where t: "run_state resume_jobs (restarted w) = (restarted w)\<lparr>w_tasks := t\<rparr>"
    "task_list ((restarted w)\<lparr>w_tasks := t\<rparr>) =
       task_list (restarted w) @ map TRelayRun (list_relay_jobs_by_status [RelayQueued, RelayInProgress] (restarted w))"
    using resume_run [of "restarted w"] by (auto simp: run_state_def)
  have e: "task_list (restarted w) = []" by (simp add: task_list_def restarted_def no_tasks_def)
  have l: "set (list_relay_jobs_by_status [RelayQueued, RelayInProgress] (restarted w)) =
      {j \<in> set (w_relay_jobs w). rj_status j \<in> {RelayQueued, RelayInProgress}}"
    by (auto simp: list_relay_jobs_by_status_def restarted_def)
  show ?thesis unfolding t(1) t(2) e by (simp add: l)
qed

section \<open>Properties\<close>




definition cancelling_env :: "fake env" where
  "cancelling_env = fake_env\<lparr>e_web := (e_web fake_env)\<lparr>wb_stream := (\<lambda>_. raise cancelled_error)\<rparr>\<rparr>"

definition demo_job :: relay_job where
  "demo_job = new_job ''rj-1'' demo_account
     \<lparr>rq_target = ''https://api.example.com/v1'', rq_method = ''GET'', rq_forward_headers = [(''x-api-key'', ''secret'')],
      rq_body = JNull, rq_retry = \<lparr>rp_attempts = 2, rp_initial_delay_ms = 500, rp_max_delay_ms = 8000\<rparr>,
      rq_timeout_seconds = None, rq_deliver = None\<rparr> 60 None ''t''"

definition job_world :: "fake world" where
  "job_world = new_world\<lparr>w_relay_jobs := [demo_job]\<rparr>"

lemma cancelled_run: "outcome (run_relay cancelling_env demo_job) job_world = Inl cancelled_error"
  by (simp add: run_relay_def with_locals_def run_job_def call_upstream_def demo_job_def new_job_def outcome_def bindE_def
      seqE_def local_def reads_def catch_exception_def catchE_def tryE_def one_attempt_def assign_def writes_def save_def
      lifted_def utcnow_def hostop_def update_relay_job_def upstream_attempt_def raise_def ret_def after_attempt_def
      cancelling_env_def cancelled_error_def attempt_error_def timeout_names_def http_error_names_def upt_rec
      split: prod.splits)


text \<open>Submitting a job admits it exactly when its target passes the guard, its timeout is within the
  configured cap and its encoded body within the size limit; then its row, queued and with no attempt
  made, is the one new row and running it is the one new task. Otherwise nothing is stored or started.\<close>

definition nothing_submitted :: "'h world \<Rightarrow> 'h world \<Rightarrow> bool" where
  "nothing_submitted w w' \<longleftrightarrow> w_relay_jobs w' = w_relay_jobs w \<and> w_tasks w' = w_tasks w"

definition submitted :: "'h env \<Rightarrow> account \<Rightarrow> relay_request \<Rightarrow> string option \<Rightarrow> 'h world \<Rightarrow> relay_job \<Rightarrow> 'h world \<Rightarrow> bool" where
  "submitted E account request key w job w' \<longleftrightarrow>
     outcome (guard E (rq_target request)) w = Inr None \<and>
     rj_timeout_seconds job \<le> cf_relay_timeout_seconds (e_config E) \<and>
     (rq_body request = JNull \<or> int (length (encode_body E (rq_body request))) \<le> cf_relay_body_bytes (e_config E)) \<and>
     (\<exists>i t now. job = new_job i account request t key now \<and>
        t = (case rq_timeout_seconds request of None \<Rightarrow> cf_relay_timeout_seconds (e_config E) | Some s \<Rightarrow> s)) \<and>
     w_relay_jobs w' = w_relay_jobs w @ [job] \<and> task_list w' = task_list w @ [TRelayRun job]"

lemma submit_exact:
  "case outcome (submit E account request key) w of
     Inr job \<Rightarrow> submitted E account request key w job (run_state (submit E account request key) w)
   | Inl e \<Rightarrow> nothing_submitted w (run_state (submit E account request key) w)"
proof -
  let ?same = "\<lambda>v. w_relay_jobs v = w_relay_jobs w \<and> w_tasks v = w_tasks w"
  let ?Q = "submitted E account request key w" and ?R = "\<lambda>e. nothing_submitted w"
  define t where "t = (case rq_timeout_seconds request of None \<Rightarrow> cf_relay_timeout_seconds (e_config E) | Some s \<Rightarrow> s)"
  let ?job = "\<lambda>hex now. new_job (''rj-'' @ take 12 hex) account request t key now"
  have k: "keeps ?same (guard E (rq_target request))"
    unfolding guard_def
    by (intro keeps_prod keeps_option keeps_ret keeps_if keeps_catchE keeps_bindE keeps_hostop keeps_raise) simp_all
  have g: "wp (guard E (rq_target request)) (\<lambda>r v. outcome (guard E (rq_target request)) w = Inr r \<and> ?same v) (\<lambda>e. ?same) w"
    using keepsD [OF k, of w] by (simp add: wp_outcome split: sum.splits)
  have stored: "wp (seqE (insert_relay_job (?job hex now)) (seqE (spawn_job (?job hex now)) (ret (?job hex now)))) ?Q ?R v"
    if "?same v" "outcome (guard E (rq_target request)) w = Inr None" "t \<le> cf_relay_timeout_seconds (e_config E)"
      "rq_body request = JNull \<or> int (length (encode_body E (rq_body request))) \<le> cf_relay_body_bytes (e_config E)"
    for v hex now
  proof -
    have "rj_timeout_seconds (?job hex now) = t" by (simp add: new_job_def)
    then have "?Q (?job hex now) (w_tasks_update (\<lambda>_. bg_spawn (TRelayRun (?job hex now)) n x (w_tasks v))
        (w_relay_jobs_update (\<lambda>rows. rows @ [?job hex now]) v))" for n x
      using that unfolding submitted_def t_def [symmetric] by (auto simp: task_list_def bg_spawn_def)
    moreover have "nothing_submitted w v" using that by (simp add: nothing_submitted_def)
    ultimately show ?thesis
      by (simp add: wp_seqE wp_ret insert_relay_job_def wp_insert_row spawn_job_def spawn_def wp_writes)
  qed
  have timed: "wp (bindE (utcnow E) (\<lambda>now. bindE (uuid4_hex E) (\<lambda>hex.
        seqE (insert_relay_job (?job hex now)) (seqE (spawn_job (?job hex now)) (ret (?job hex now)))))) ?Q ?R v"
    if "?same v" "outcome (guard E (rq_target request)) w = Inr None" "t \<le> cf_relay_timeout_seconds (e_config E)"
      "rq_body request = JNull \<or> int (length (encode_body E (rq_body request))) \<le> cf_relay_body_bytes (e_config E)" for v
  proof -
    have n: "wp (utcnow E) (\<lambda>_. ?same) (\<lambda>_ _. False) v" "wp (uuid4_hex E) (\<lambda>_. ?same) (\<lambda>_ _. False) v'"
      if "?same v'" for v'
      using that \<open>?same v\<close> by (auto simp: utcnow_def uuid4_hex_def wp_hostop wp_def split: prod.splits)
    show ?thesis
      unfolding wp_bindE
      by (rule wp_mono [OF n(1) [OF that(1)]], rule wp_mono [OF n(2)])
         (assumption, rule stored, assumption, rule that, rule that, rule that, (erule FalseE)+)
  qed
  have "wp (submit E account request key) ?Q ?R w"
    unfolding submit_def wp_bindE [of "guard _ _"]
    by (rule wp_mono [OF g])
       (auto simp: wp_raise_domain Let_def nothing_submitted_def timed t_def [symmetric] simp del: append.simps append_Cons
         split: option.splits)
  then show ?thesis by (simp add: wp_outcome split: sum.splits)
qed

end
