(* ===== verification/Resources.thy ===== *)
theory Resources
  imports Host "HOL-Library.Log_Nat"
begin

text \<open>
  src/src/mshkn/resources.py: the parser of the API's \<open>needs\<close> field and its bounds. \<open>float(text)\<close>
  is read by the grammar of Python's float literals and rounded to the nearest double (ties to
  even), with the infinities and NaN it accepts; \<open>int()\<close> of those raises as Python's does.
\<close>

section \<open>Python floats\<close>

datatype py_float = Fin rat | Inf bool | NaN

definition pow2 :: "int \<Rightarrow> rat" where
  "pow2 e = (if 0 \<le> e then 2 ^ nat e else 1 / 2 ^ nat (- e))"

text \<open>The exponent of a positive fraction: the greatest \<open>k\<close> with \<open>2^k\<close> at most \<open>n/d\<close>.\<close>

definition exponent_of :: "nat \<Rightarrow> nat \<Rightarrow> int" where
  "exponent_of n d =
     (let k = int (floorlog 2 n) - int (floorlog 2 d)
      in if pow2 k \<le> of_nat n / of_nat d then k else k - 1)"

definition round_half_even :: "rat \<Rightarrow> int" where
  "round_half_even q =
     (let f = \<lfloor>q\<rfloor>; r = q - of_int f
      in if r < 1/2 then f else if r > 1/2 then f + 1 else if even f then f else f + 1)"

definition to_double :: "nat \<Rightarrow> nat \<Rightarrow> py_float" where
  "to_double n d =
     (if n = 0 then Fin 0
      else let e = max (exponent_of n d - 52) (- 1074);
               r = of_int (round_half_even (of_nat n / of_nat d / pow2 e)) * pow2 e
           in if r \<ge> pow2 1024 then Inf False else Fin r)"

definition neg_float :: "py_float \<Rightarrow> py_float" where
  "neg_float x = (case x of Fin q \<Rightarrow> Fin (- q) | Inf b \<Rightarrow> Inf (\<not> b) | NaN \<Rightarrow> NaN)"

definition opt_digits :: "string \<Rightarrow> bool" where
  "opt_digits s \<longleftrightarrow> s = [] \<or> underscored_digits s"

definition plain_value :: "string \<Rightarrow> nat" where
  "plain_value s = digits_value (filter (\<lambda>c. c \<noteq> CHR ''_'') s)"

text \<open>An unsigned literal: digits, a point, digits, an exponent; None is the ValueError.\<close>

definition float_literal :: "string \<Rightarrow> py_float option" where
  "float_literal body =
     (let mant = takeWhile (\<lambda>c. c \<noteq> CHR ''e'') body;
          rest = drop (length mant) body;
          ipart = takeWhile (\<lambda>c. c \<noteq> CHR ''.'') mant;
          fpart = drop (Suc (length ipart)) mant;
          ex = (if rest = [] then Some 0
                else if rest \<noteq> [] \<and> underscored_digits
                          (if tl rest \<noteq> [] \<and> hd (tl rest) \<in> {CHR ''+'', CHR ''-''} then tl (tl rest) else tl rest)
                then py_int (tl rest) else None)
      in if opt_digits ipart \<and> opt_digits fpart \<and> (ipart \<noteq> [] \<or> fpart \<noteq> [])
         then (case ex of
                 None \<Rightarrow> None
               | Some x \<Rightarrow>
                   (let k = x - int (length (filter (\<lambda>c. c \<noteq> CHR ''_'') fpart));
                        n = plain_value (ipart @ fpart)
                    in Some (if 0 \<le> k then to_double (n * 10 ^ nat k) 1 else to_double n (10 ^ nat (- k)))))
         else None)"

definition py_float_of :: "string \<Rightarrow> py_float option" where
  "py_float_of text =
     (let s = lower (strip text);
          (neg, body) = (case s of [] \<Rightarrow> (False, [])
                         | c # cs \<Rightarrow> if c = CHR ''-'' then (True, cs)
                                     else if c = CHR ''+'' then (False, cs) else (False, s));
          v = (if body \<in> {''inf'', ''infinity''} then Some (Inf False)
               else if body = ''nan'' then Some NaN else float_literal body)
      in map_option (\<lambda>x. if neg then neg_float x else x) v)"

section \<open>The needs of a request\<close>

definition min_mem_mib :: int where "min_mem_mib = 128"
definition max_mem_mib :: int where "max_mem_mib = 32 * 1024"
definition min_vcpus :: int where "min_vcpus = 1"
definition max_vcpus :: int where "max_vcpus = 16"

definition invalid :: "string \<Rightarrow> exc + 'a" where
  "invalid message = Inl (MshknError InvalidInput message None)"

definition overflow_error :: exc where
  "overflow_error = PyError ''OverflowError'' ''cannot convert float infinity to integer''"

definition nan_error :: exc where
  "nan_error = PyError ''ValueError'' ''cannot convert float NaN to integer''"

text \<open>\<open>int(amount * scale)\<close> for a scale that is a power of two, where the product is exact unless
  it leaves the range of a double. NaN compares false with everything, so it passes the sign test.\<close>

definition scaled_int :: "py_float \<Rightarrow> int \<Rightarrow> exc + int" where
  "scaled_int amount scale =
     (case amount of
        Inf b \<Rightarrow> if b then invalid ''ram must be positive'' else Inl overflow_error
      | NaN \<Rightarrow> Inl nan_error
      | Fin q \<Rightarrow>
          if q \<le> 0 then invalid ''ram must be positive''
          else if q * of_int scale \<ge> pow2 1024 then Inl overflow_error
          else Inr \<lfloor>q * of_int scale\<rfloor>)"

definition parse_ram :: "json \<Rightarrow> exc + int" where
  "parse_ram value =
     (case value of
        JStr v \<Rightarrow>
          (let raw = upper (strip v)
           in if suffix ''GB'' raw \<or> suffix ''MB'' raw
              then (case py_float_of (take (length raw - 2) raw) of
                      None \<Rightarrow> invalid (''ram value '' @ py_repr v @ '' is not a number'')
                    | Some amount \<Rightarrow> scaled_int amount (if suffix ''GB'' raw then 1024 else 1))
              else invalid ''ram must end with MB or GB'')
      | _ \<Rightarrow> invalid (''ram must be a string like '' @ py_repr ''512MB'' @ '' or '' @ py_repr ''8GB''))"

text \<open>\<open>str.isdigit()\<close> also accepts the superscripts two, three and one, which \<open>int()\<close> does not.\<close>

definition py_isdigit :: "string \<Rightarrow> bool" where
  "py_isdigit s \<longleftrightarrow> s \<noteq> [] \<and> (\<forall>c\<in>set s. is_digit c \<or> c \<in> {CHR 0xB2, CHR 0xB3, CHR 0xB9})"

definition parse_cores :: "json \<Rightarrow> exc + int" where
  "parse_cores value =
     (case value of
        JInt i \<Rightarrow> Inr i
      | JStr s \<Rightarrow>
          if py_isdigit (strip s)
          then (case py_int (strip s) of
                  Some i \<Rightarrow> Inr i
                | None \<Rightarrow> Inl (PyError ''ValueError''
                    (''invalid literal for int() with base 10: '' @ py_repr (strip s))))
          else invalid ''cores must be an integer''
      | _ \<Rightarrow> invalid ''cores must be an integer'')"

definition from_needs :: "(string \<times> json) list option \<Rightarrow> exc + resources" where
  "from_needs needs =
     (case needs of
        None \<Rightarrow> Inr default_resources
      | Some n \<Rightarrow>
          if n = [] then Inr default_resources
          else let unknown = unknown_keys n [''ram'', ''cores''] in
          if unknown \<noteq> [] then invalid (''unknown needs field(s): '' @ join '', '' unknown)
          else
            bind_sum (case map_of n ''ram'' of Some v \<Rightarrow> parse_ram v
                      | None \<Rightarrow> Inr (mem_mib default_resources)) (\<lambda>mem.
            bind_sum (case map_of n ''cores'' of Some v \<Rightarrow> parse_cores v
                      | None \<Rightarrow> Inr (vcpus default_resources)) (\<lambda>cores.
            if \<not> (min_mem_mib \<le> mem \<and> mem \<le> max_mem_mib)
            then invalid (''ram must be between '' @ str_int min_mem_mib @ ''MB and '' @
                          str_int (max_mem_mib div 1024) @ ''GB'')
            else if \<not> (min_vcpus \<le> cores \<and> cores \<le> max_vcpus)
            then invalid (''cores must be between '' @ str_int min_vcpus @ '' and '' @ str_int max_vcpus)
            else Inr \<lparr>mem_mib = mem, vcpus = cores\<rparr>)))"

section \<open>Bounds, round trip and errors\<close>

lemma from_needs_bounded:
  assumes "from_needs needs = Inr r"
  shows "min_mem_mib \<le> mem_mib r \<and> mem_mib r \<le> max_mem_mib \<and> min_vcpus \<le> vcpus r \<and> vcpus r \<le> max_vcpus"
  using assms
  by (auto simp: from_needs_def Let_def bind_sum_def invalid_def default_resources_def min_mem_mib_def
      max_mem_mib_def min_vcpus_def max_vcpus_def split: option.splits if_splits sum.splits)

lemma pow2_nat: "pow2 (int n) = 2 ^ n"
  by (simp add: pow2_def)

lemma pow2_neg: "0 < n \<Longrightarrow> pow2 (- int n) = 1 / 2 ^ n"
  by (simp add: pow2_def)

lemma round_half_even_of_int [simp]: "round_half_even (of_int i) = i"
  by (simp add: round_half_even_def)

text \<open>Every whole number below 2^53 is a double.\<close>

lemma to_double_exact:
  assumes "0 < n" and "n < 2 ^ 53"
  shows "to_double n 1 = Fin (of_nat n)"
proof -
  define L where "L = floorlog 2 n - 1"
  have f: "floorlog 2 n = Suc L" "2 ^ L \<le> n" "n < 2 ^ Suc L"
    using floorlog_bounds [of n 2] assms(1) by (auto simp: L_def floorlog_def)
  then have "(2::nat) ^ L < 2 ^ 53" using assms(2) by simp
  then have L: "L \<le> 52" using power_less_imp_less_exp [of "2::nat" L 53] by simp
  have ex: "exponent_of n 1 = int L"
  proof -
    have "(2::rat) ^ L \<le> of_nat n" using f(2) by (metis of_nat_le_iff of_nat_numeral of_nat_power)
    moreover have "floorlog 2 1 = 1" by (simp add: floorlog_def)
    ultimately show ?thesis by (simp add: exponent_of_def f(1) pow2_nat)
  qed
  have e: "int L - 52 = - int (52 - L)" using L by simp
  have pw: "pow2 (int L - 52) = 1 / 2 ^ (52 - L)"
    unfolding e using pow2_neg [of "52 - L"] by (cases "52 - L = 0") (simp_all add: pow2_def)
  have "of_nat n / pow2 (int L - 52) = (of_int (int n * 2 ^ (52 - L)) :: rat)"
    by (simp add: pw)
  then have "round_half_even (of_nat n / pow2 (int L - 52)) = int n * 2 ^ (52 - L)"
    by (simp only: round_half_even_of_int)
  then have r: "of_int (round_half_even (of_nat n / pow2 (int L - 52))) * pow2 (int L - 52) = (of_nat n :: rat)"
    by (simp add: pw)
  have "(of_nat n :: rat) < 2 ^ 53" using assms(2) by (metis of_nat_less_iff of_nat_numeral of_nat_power)
  also have "\<dots> < 2 ^ 1024" by (rule power_strict_increasing) simp_all
  finally have "\<not> (of_nat n :: rat) \<ge> pow2 1024" by (simp add: pow2_def)
  moreover have "max (int L - 52) (- 1074) = int L - 52" by simp
  ultimately show ?thesis
    using assms(1) r by (simp add: to_double_def ex [unfolded One_nat_def] Let_def)
qed

lemma digit_chars_plain:
  assumes "c \<in> set (str_nat n)"
  shows "c \<noteq> CHR ''e''" "c \<noteq> CHR ''.''" "c \<noteq> CHR ''_''" "c \<noteq> CHR ''-''" "c \<noteq> CHR ''+''"
    "\<not> is_space c" "ascii_lower_char c = c" "ascii_upper_char c = c"
proof -
  have d: "is_digit c" using assms by (rule str_nat_digits)
  then have n: "48 \<le> (of_char c :: nat)" "(of_char c :: nat) \<le> 57" by (simp_all add: is_digit_def)
  show "c \<noteq> CHR ''e''" "c \<noteq> CHR ''.''" "c \<noteq> CHR ''_''" "c \<noteq> CHR ''-''" "c \<noteq> CHR ''+''"
    using n by auto
  show "\<not> is_space c" using d by (rule digit_not_space)
  show "ascii_lower_char c = c" "ascii_upper_char c = c"
    using n by (simp_all add: ascii_lower_char_def ascii_upper_char_def Let_def)
qed

lemma py_float_of_str_nat:
  assumes "0 < n" and "n < 2 ^ 53"
  shows "py_float_of (str_nat n) = Some (Fin (of_nat n))"
proof -
  have st: "strip (str_nat n) = str_nat n" by (rule strip_digits) (rule str_nat_digits)
  have lo: "lower (str_nat n) = str_nat n"
    unfolding lower_def by (rule map_idI) (rule digit_chars_plain)
  obtain c cs where s: "str_nat n = c # cs" by (cases "str_nat n") simp_all
  have c: "c \<noteq> CHR ''-''" "c \<noteq> CHR ''+''" using digit_chars_plain [of c n] s by simp_all
  have nm: "str_nat n \<notin> {''inf'', ''infinity'', ''nan''}"
    using str_nat_digits [of "CHR ''n''" n] by (auto simp: is_digit_def)
  have te: "takeWhile (\<lambda>c. c \<noteq> CHR ''e'') (str_nat n) = str_nat n"
    by (simp add: takeWhile_eq_all_conv digit_chars_plain)
  have tp: "takeWhile (\<lambda>c. c \<noteq> CHR ''.'') (str_nat n) = str_nat n"
    by (simp add: takeWhile_eq_all_conv digit_chars_plain)
  have fu: "filter (\<lambda>c. c \<noteq> CHR ''_'') (str_nat n) = str_nat n"
    by (simp add: filter_id_conv digit_chars_plain)
  have u: "underscored_digits (str_nat n)" by (rule underscored_all_digits) (simp_all add: str_nat_digits)
  have "float_literal (str_nat n) = Some (to_double n 1)"
    by (simp add: float_literal_def te tp fu u opt_digits_def plain_value_def Let_def)
  then have "float_literal (str_nat n) = Some (Fin (of_nat n))" using to_double_exact [OF assms] by simp
  then show ?thesis
    using nm c unfolding py_float_of_def st lo unfolding s by (simp add: Let_def)
qed

lemma strip_str_nat_unit:
  assumes "u \<in> {''MB'', ''GB''}"
  shows "strip (str_nat n @ u) = str_nat n @ u" and "upper (str_nat n @ u) = str_nat n @ u"
proof -
  obtain c cs where s: "str_nat n = c # cs" by (cases "str_nat n") simp_all
  have c: "\<not> is_space c" using digit_chars_plain(6) [of c n] s by simp
  show "strip (str_nat n @ u) = str_nat n @ u"
    using assms c by (auto simp: strip_def lstrip_def rstrip_def s is_space_def)
  have "map ascii_upper_char (str_nat n) = str_nat n"
    by (rule map_idI) (rule digit_chars_plain)
  then show "upper (str_nat n @ u) = str_nat n @ u"
    using assms by (auto simp: upper_def ascii_upper_char_def)
qed

lemma parse_ram_mb:
  assumes "0 < n" and "n < 2 ^ 53"
  shows "parse_ram (JStr (str_nat n @ ''MB'')) = Inr (int n)"
proof -
  have "(of_nat n :: rat) < 2 ^ 53" using assms(2) by (metis of_nat_less_iff of_nat_numeral of_nat_power)
  also have "\<dots> < 2 ^ 1024" by (rule power_strict_increasing) simp_all
  finally have "\<not> pow2 1024 \<le> (of_nat n :: rat)" by (simp add: pow2_def)
  then have "scaled_int (Fin (of_nat n)) 1 = Inr (int n)"
    using assms(1) by (simp add: scaled_int_def)
  then show ?thesis
    using assms strip_str_nat_unit [of "''MB''" n]
    by (simp add: parse_ram_def Let_def py_float_of_str_nat suffix_def)
qed

lemma parse_ram_gb:
  assumes "0 < n" and "n < 2 ^ 53"
  shows "parse_ram (JStr (str_nat n @ ''GB'')) = Inr (1024 * int n)"
proof -
  have "(of_nat n :: rat) < 2 ^ 53" using assms(2) by (metis of_nat_less_iff of_nat_numeral of_nat_power)
  then have "of_nat n * 1024 < (2 :: rat) ^ 63" by simp
  also have "\<dots> < 2 ^ 1024" by (rule power_strict_increasing) simp_all
  finally have "\<not> pow2 1024 \<le> (of_nat n * 1024 :: rat)" by (simp add: pow2_def)
  moreover have "\<lfloor>of_nat n * 1024 :: rat\<rfloor> = int n * 1024"
    by (metis floor_of_int of_int_mult of_int_numeral of_int_of_nat_eq)
  ultimately have "scaled_int (Fin (of_nat n)) 1024 = Inr (1024 * int n)"
    using assms(1) by (simp add: scaled_int_def)
  then show ?thesis
    using assms strip_str_nat_unit [of "''GB''" n]
    by (simp add: parse_ram_def Let_def py_float_of_str_nat suffix_def)
qed

text \<open>What the parser raises that is not a domain error: an infinite or NaN amount, and cores
  written in superscript digits. They reach the client as an internal error, not as a 422.\<close>

lemma from_needs_overflow: "from_needs (Some [(''ram'', JStr ''infGB'')]) = Inl overflow_error"
  by code_simp

lemma from_needs_nan: "from_needs (Some [(''ram'', JStr ''nanMB'')]) = Inl nan_error"
  by code_simp

lemma from_needs_superscript:
  "\<not> (\<exists>m d. from_needs (Some [(''cores'', JStr [CHR 0xB2])]) = Inl (MshknError InvalidInput m d)) \<and>
   (\<exists>n m. from_needs (Some [(''cores'', JStr [CHR 0xB2])]) = Inl (PyError n m))"
proof -
  have "from_needs (Some [(''cores'', JStr [CHR 0xB2])]) =
     Inl (PyError ''ValueError'' (''invalid literal for int() with base 10: '' @ py_repr [CHR 0xB2]))"
    by code_simp
  then show ?thesis by simp
qed

section \<open>Properties\<close>

text \<open>Every resource request the parser accepts is within the bounds: between 128 MiB and 32 GiB
  of memory and between 1 and 16 cores.\<close>

lemma needs_within_bounds:
  assumes "from_needs needs = Inr r"
  shows "128 \<le> mem_mib r \<and> mem_mib r \<le> 32768 \<and> 1 \<le> vcpus r \<and> vcpus r \<le> 16"
  using from_needs_bounded [OF assms]
  by (simp add: min_mem_mib_def max_mem_mib_def min_vcpus_def max_vcpus_def)

lemma needs_within_bounds_witness: "128 \<le> mem_mib default_resources \<and> vcpus default_resources \<le> 16"
  using needs_within_bounds [of None default_resources] by (simp add: from_needs_def)

text \<open>Memory written in whole megabytes or gigabytes is read as that many mebibytes, through the
  double-precision arithmetic of the source, for every amount below 2^53.\<close>

lemma ram_units:
  assumes "0 < n" and "n < 2 ^ 53"
  shows "parse_ram (JStr (str_nat n @ ''MB'')) = Inr (int n) \<and>
         parse_ram (JStr (str_nat n @ ''GB'')) = Inr (1024 * int n)"
  using parse_ram_mb [OF assms] parse_ram_gb [OF assms] by simp

lemma ram_units_witness:
  "parse_ram (JStr (str_nat 8 @ ''MB'')) = Inr 8 \<and> parse_ram (JStr (str_nat 8 @ ''GB'')) = Inr 8192"
  using ram_units [of 8] by simp

text \<open>The parser raises errors that are not domain errors on an infinite or NaN amount and on a
  superscript digit, so such a request is answered 500 and not 422.\<close>

lemma needs_uncaught_errors:
  "\<not> is_mshkn_error overflow_error \<and> from_needs (Some [(''ram'', JStr ''infGB'')]) = Inl overflow_error \<and>
   \<not> is_mshkn_error nan_error \<and> from_needs (Some [(''ram'', JStr ''nanMB'')]) = Inl nan_error \<and>
   (\<exists>n m. from_needs (Some [(''cores'', JStr [CHR 0xB2])]) = Inl (PyError n m))"
  using from_needs_overflow from_needs_nan from_needs_superscript
  by (simp add: overflow_error_def nan_error_def)

end
