(* ===== verification/Reaper.thy ===== *)
theory Reaper
  imports Relay Resources
begin

text \<open>
  src/src/mshkn/services/reaper.py: the maintenance cycle. The idle computers are reaped five at a
  time in the source; here one after the other. A reading of the clock is a number of microseconds,
  and \<open>total_seconds() >= timeout\<close> is compared in them (the double is exact to the microsecond for
  spans under 270 years). Gauges other than that of the active computers and log lines are left out.
\<close>

definition idle_label :: string where
  "idle_label = ''auto-idle-timeout''"

definition running_computers :: "'h world \<Rightarrow> computer list" where
  "running_computers w = filter (\<lambda>c. c_status c = Running) (list_all_computers w)"

definition count_true :: "bool list \<Rightarrow> int" where
  "count_true bs = int (length (filter (\<lambda>b. b) bs))"

section \<open>Dead computers\<close>

definition reap_one_dead :: "'h env \<Rightarrow> computer \<Rightarrow> ('h, bool) st" where
  "reap_one_dead E c =
     (case c_firecracker_pid c of
        None \<Rightarrow> ret False
      | Some pid \<Rightarrow>
          bindE (reads (\<lambda>w. hv_is_alive (hypervisor_of E) pid (w_host w))) (\<lambda>alive.
          if alive then ret False
          else catch_exception (cleanup_dead E c) (\<lambda>_. ret False)))"

definition reap_dead :: "'h env \<Rightarrow> ('h, int) st" where
  "reap_dead E =
     bindE (reads running_computers) (\<lambda>cs.
     bindE (map_each cs (reap_one_dead E)) (\<lambda>bs. ret (count_true bs)))"

section \<open>Idle computers\<close>

definition idle_reference :: "computer \<Rightarrow> string" where
  "idle_reference c = (case truthy (c_last_exec_at c) of Some t \<Rightarrow> t | None \<Rightarrow> c_created_at c)"

definition is_idle :: "int \<Rightarrow> int \<Rightarrow> string set \<Rightarrow> computer \<Rightarrow> bool" where
  "is_idle timeout now busy c \<longleftrightarrow>
     c_id c \<notin> busy \<and>
     (case moment_of (idle_reference c) of None \<Rightarrow> False | Some t \<Rightarrow> now - t \<ge> timeout * 1000000)"

definition effective_label :: "string option \<Rightarrow> string" where
  "effective_label label = (case truthy label of Some l \<Rightarrow> l | None \<Rightarrow> idle_label)"

definition checkpoint_and_destroy :: "'h env \<Rightarrow> computer \<Rightarrow> ('h, unit) st" where
  "checkpoint_and_destroy E c =
     bindE (source_label (c_account_id c) c) (\<lambda>label.
     seqE (suppress (bindE (create_checkpoint E c (Some (effective_label label)) False TriggerIdle) (\<lambda>_. ret ())))
     (seqE (destroy E (c_id c))
     (bindE (reads (get_account_by_id (c_account_id c))) (\<lambda>account.
      case account of None \<Rightarrow> ret () | Some a \<Rightarrow> spawn_drain a (effective_label label)))))"

definition reap_one_idle :: "'h env \<Rightarrow> computer \<Rightarrow> ('h, bool) st" where
  "reap_one_idle E c = catch_exception (seqE (checkpoint_and_destroy E c) (ret True)) (\<lambda>_. ret False)"

definition reap_idle :: "'h env \<Rightarrow> ('h, int) st" where
  "reap_idle E =
     (let timeout = cf_idle_timeout_seconds (e_config E) in
      if timeout \<le> 0 then ret 0
      else bindE (utc_moment E) (\<lambda>now.
           bindE (reads (\<lambda>w. filter (is_idle timeout now (w_busy w)) (running_computers w))) (\<lambda>idle.
           bindE (map_each idle (reap_one_idle E)) (\<lambda>bs. ret (count_true bs)))))"

section \<open>Stale routes and relay jobs\<close>

definition computer_route_prefix :: string where
  "computer_route_prefix = ''route-comp-''"

definition stale_routes :: "string list \<Rightarrow> computer list \<Rightarrow> string list" where
  "stale_routes route_ids live =
     map (drop (length ''route-''))
       (filter (\<lambda>r. prefix computer_route_prefix r \<and> drop (length ''route-'') r \<notin> c_id ` set live) route_ids)"

definition sweep_routes :: "'h env \<Rightarrow> ('h, int) st" where
  "sweep_routes E =
     bindE (hostop (pr_list_route_ids (proxy_of E))) (\<lambda>route_ids.
     if route_ids = [] then ret 0
     else bindE (reads list_all_computers) (\<lambda>live.
          let stale = stale_routes route_ids live in
          seqE (for_each stale (\<lambda>i. hostop (pr_remove_route (proxy_of E) i))) (ret (int (length stale)))))"

definition expire_relay_jobs :: "'h env \<Rightarrow> ('h, int) st" where
  "expire_relay_jobs E =
     (let retention = cf_exec_log_retention_seconds (e_config E) in
      if retention \<le> 0 then ret 0
      else bindE (cutoff_text E retention) delete_relay_jobs_before)"

section \<open>Host checks\<close>

text \<open>Python's \<open>/\<close> and \<open>*\<close> on doubles in their finite range, \<open>round(x, n)\<close> and \<open>f"{x:.1f}"\<close> of a number
  that is not negative.\<close>

definition double :: "rat \<Rightarrow> rat" where
  "double q =
     (case quotient_of q of (n, d) \<Rightarrow>
        (case to_double (nat \<bar>n\<bar>) (nat d) of Fin r \<Rightarrow> if n < 0 then - r else r | _ \<Rightarrow> 0))"

definition true_div :: "int \<Rightarrow> int \<Rightarrow> exc + rat" where
  "true_div a b =
     (if b = 0 then Inl (PyError ''ZeroDivisionError'' ''division by zero'')
      else Inr (double (of_int a / of_int b)))"

definition round_places :: "nat \<Rightarrow> rat \<Rightarrow> rat" where
  "round_places n q = double (of_int (round_half_even (q * 10 ^ n)) / 10 ^ n)"

definition one_decimal :: "rat \<Rightarrow> string" where
  "one_decimal q =
     (let t = nat (round_half_even (q * 10)) in str_nat (t div 10) @ ''.'' @ [digit_char (t mod 10)])"

definition pool_warning :: rat where
  "pool_warning = double (4 / 5)"

definition pool_critical :: rat where
  "pool_critical = double (19 / 20)"

definition new_alert :: "bool \<Rightarrow> string \<Rightarrow> string \<Rightarrow> rat \<Rightarrow> rat \<Rightarrow> string \<Rightarrow> alert" where
  "new_alert critical source message value threshold now =
     \<lparr>al_level = (if critical then ''critical'' else ''warning''), al_source = source, al_message = message,
      al_value = value, al_threshold = threshold, al_timestamp = now\<rparr>"

definition disk_alert :: "'h env \<Rightarrow> string \<Rightarrow> ('h, alert list) st" where
  "disk_alert E now =
     bindE (hostop (os_disk_usage (h_os (e_host E)) [])) (\<lambda>(used, all).
     bindE (from_result (true_div used all)) (\<lambda>ratio.
     let pct = double (ratio * 100) in
     ret (if pct > 80
          then [new_alert (pct > 95) ''nvme'' (''NVMe usage at '' @ one_decimal pct @ ''%'') (round_places 1 pct) 80 now]
          else [])))"

definition rstrip_colon :: "string \<Rightarrow> string" where
  "rstrip_colon s = rev (dropWhile (\<lambda>c. c = CHR '':'') (rev s))"

text \<open>A later line of the same name wins.\<close>

fun read_meminfo :: "string list \<Rightarrow> (string \<times> int) list \<Rightarrow> exc + (string \<times> int) list" where
  "read_meminfo [] info = Inr info"
| "read_meminfo (l # ls) info =
     (case words l of
        name # value # rest \<Rightarrow>
          (case py_int value of
             None \<Rightarrow> Inl (PyError ''ValueError'' (''invalid literal for int() with base 10: '' @ py_repr value))
           | Some v \<Rightarrow> read_meminfo ls ((rstrip_colon name, v) # info))
      | _ \<Rightarrow> read_meminfo ls info)"

definition meminfo_value :: "(string \<times> int) list \<Rightarrow> string \<Rightarrow> int" where
  "meminfo_value info name = (case map_of info name of None \<Rightarrow> 0 | Some v \<Rightarrow> v)"

definition ram_alert :: "'h env \<Rightarrow> string \<Rightarrow> ('h, alert list) st" where
  "ram_alert E now =
     bindE (fsop E (read_text [''proc'', ''meminfo''])) (\<lambda>content.
     bindE (from_result (read_meminfo (splitlines content) [])) (\<lambda>info.
     let all = meminfo_value info ''MemTotal''; available = meminfo_value info ''MemAvailable'' in
     if all \<le> 0 then ret []
     else bindE (from_result (true_div (all - available) all)) (\<lambda>ratio.
          let pct = double (ratio * 100) in
          ret (if pct > 90
               then [new_alert True ''ram'' (''Host RAM usage at '' @ one_decimal pct @ ''%'') (round_places 1 pct) 90 now]
               else []))))"

definition pool_alert :: "string \<Rightarrow> string \<times> rat \<Rightarrow> alert list" where
  "pool_alert now kr =
     (case kr of (kind, ratio) \<Rightarrow>
        if ratio > pool_warning
        then [new_alert (ratio > pool_critical) (''thin_pool_'' @ kind)
                (''thin pool '' @ kind @ '' at '' @ one_decimal (double (ratio * 100)) @ ''%'')
                (round_places 3 ratio) pool_warning now]
        else [])"

definition pool_alerts :: "'h env \<Rightarrow> string \<Rightarrow> ('h, alert list) st" where
  "pool_alerts E now =
     bindE (hostop (bs_usage (blocks_of E))) (\<lambda>usage.
     ret (concat (map (pool_alert now)
       [(''data'', pu_data_used_ratio usage), (''metadata'', pu_metadata_used_ratio usage)])))"

text \<open>The alert history is a deque of the last hundred.\<close>

definition alert_history_size :: nat where
  "alert_history_size = 100"

definition push_alerts :: "alert list \<Rightarrow> ('h, unit) st" where
  "push_alerts found =
     writes (\<lambda>w. w\<lparr>w_alerts := (let all = w_alerts w @ found in drop (length all - alert_history_size) all)\<rparr>)"

definition no_alerts_on_error :: "('h, alert list) st \<Rightarrow> ('h, alert list) st" where
  "no_alerts_on_error m = catch_exception m (\<lambda>_. ret [])"

definition check_host :: "'h env \<Rightarrow> ('h, alert list) st" where
  "check_host E =
     bindE (utcnow E) (\<lambda>now.
     bindE (no_alerts_on_error (disk_alert E now)) (\<lambda>disk.
     bindE (no_alerts_on_error (ram_alert E now)) (\<lambda>ram.
     bindE (no_alerts_on_error (pool_alerts E now)) (\<lambda>pool.
     let found = disk @ ram @ pool in seqE (push_alerts found) (ret found)))))"

section \<open>The cycle\<close>

definition reaper_cycle :: "'h env \<Rightarrow> ('h, unit) st" where
  "reaper_cycle E =
     bindE (reap_dead E) (\<lambda>dead.
     bindE (reap_idle E) (\<lambda>idle.
     bindE (prune E) (\<lambda>pruned.
     bindE (expire_exec_logs E) (\<lambda>expired.
     bindE (expire_relay_jobs E) (\<lambda>expired_jobs.
     bindE (sweep_routes E) (\<lambda>routes.
     bindE (check_host E) (\<lambda>alerts.
     refresh_active_gauge)))))))"

definition note_failure :: "exc \<Rightarrow> ('h, unit) st" where
  "note_failure e =
     writes (\<lambda>w. w\<lparr>w_reaper_failures := w_reaper_failures w + 1, w_last_failure := Some (describe_exc e)\<rparr>)"

definition note_success :: "('h, unit) st" where
  "note_success = writes (\<lambda>w. w\<lparr>w_reaper_failures := 0, w_last_failure := None\<rparr>)"

text \<open>One pass of the loop, after its sleep; and the loop for a number of passes (it has no end of its
  own: only the cancellation of its task stops it).\<close>

definition reaper_pass :: "'h env \<Rightarrow> ('h, unit) st" where
  "reaper_pass E =
     bindE (tryE (reaper_cycle E)) (\<lambda>r.
     case r of
       Inl e \<Rightarrow> if is_exception e then note_failure e else raise e
     | Inr _ \<Rightarrow> note_success)"

fun reaper_run :: "'h env \<Rightarrow> nat \<Rightarrow> ('h, unit) st" where
  "reaper_run E 0 = ret ()"
| "reaper_run E (Suc n) = seqE (reaper_pass E) (reaper_run E n)"


section \<open>The fleet after reaping\<close>

text \<open>The computers and the held slots; and a table with some of its computers destroyed.\<close>

definition fleet :: "computer list \<Rightarrow> int set \<Rightarrow> 'h world \<Rightarrow> bool" where
  "fleet C H w \<longleftrightarrow> w_computers w = C \<and> held (w_alloc w) = H \<and> alloc_inv (w_alloc w)"

definition downed :: "string set \<Rightarrow> computer list \<Rightarrow> computer list" where
  "downed I C = update_where (\<lambda>c. c_id c \<in> I) (c_status_update (\<lambda>_. Destroyed)) C"

definition slots_of :: "computer list \<Rightarrow> int set" where
  "slots_of cs = {s. \<exists>c\<in>set cs. computer_slot c = Some s}"

interpretation fleet: snapshotting "fleet C H" for C H
  by unfold_locales (simp_all add: fleet_def ignores_host_def held_def alloc_inv_def)

lemma downed_downed: "downed I (downed J C) = downed (I \<union> J) C"
  by (auto simp: downed_def update_where_def)

lemma downed_empty [simp]: "downed {} C = C"
  by (simp add: downed_def update_where_def)

lemma ids_downed [simp]: "map c_id (downed I C) = map c_id C"
  by (simp add: downed_def update_where_key)

lemma downed_other: "c \<in> set C \<Longrightarrow> c_id c \<notin> I \<Longrightarrow> c \<in> set (downed I C)"
  unfolding downed_def update_where_def by force

lemma torn_down_fleet: "torn_down i s C A w \<Longrightarrow> fleet (downed {i} C) (held A - {s}) w"
  by (simp add: torn_down_def fleet_def downed_def)

lemma get_of_fleet:
  "fleet C H w \<Longrightarrow> distinct (map c_id C) \<Longrightarrow> c \<in> set C \<Longrightarrow> get_computer (c_id c) w = Some c"
  unfolding get_computer_def fleet_def by (auto intro: find_first_key)

lemma destroy_fleet:
  assumes f: "fleet C H w" and d: "distinct (map c_id C)" and c: "c \<in> set C" "c_status c = Running" "computer_slot c = Some s"
  shows "wp (destroy E (c_id c)) (\<lambda>_. fleet (downed {c_id c} C) (H - {s})) (\<lambda>_. fleet (downed {c_id c} C) (H - {s})) w"
proof -
  have k: "computers.keyed w" "alloc_inv (w_alloc w)" "w_computers w = C" "held (w_alloc w) = H"
    using f d by (simp_all add: fleet_def computers.keyed_def)
  show ?thesis
    by (rule wp_mono [OF destroy_wp [OF get_of_fleet [OF f d c(1)] c(2) k(1) c(3) k(2)]])
       (simp_all add: torn_down_fleet [where C = C and A = "w_alloc w", unfolded k(4)] k(3))
qed

lemma source_label_wp: "wp (source_label a c) (\<lambda>_ w'. w' = w) (\<lambda>_ _. False) w"
  by (simp add: source_label_def wp_ret wp_bindE wp_reads split: option.splits)

lemma reap_one_idle_wp:
  assumes f: "fleet C H w" and d: "distinct (map c_id C)" and c: "c \<in> set C" "c_status c = Running" "computer_slot c = Some s"
  shows "wp (reap_one_idle E c) (\<lambda>_. fleet (downed {c_id c} C) (H - {s})) (\<lambda>e _. \<not> is_exception e) w"
proof -
  let ?D = "fleet (downed {c_id c} C) (H - {s})"
  let ?tail = "\<lambda>l. bindE (reads (get_account_by_id (c_account_id c))) (\<lambda>account.
      case account of None \<Rightarrow> ret () | Some a \<Rightarrow> spawn_drain a (effective_label l))"
  have last: "keeps ?D (?tail l)" for l
    unfolding spawn_drain_def by (intro keeps_bindE keeps_reads keeps_option keeps_ret fleet.spawn_step)
  have rest: "wp (seqE (destroy E (c_id c)) (?tail l)) (\<lambda>_. ?D) (\<lambda>_. ?D) v" if "fleet C H v" for l v
    unfolding wp_seqE by (rule wp_mono [OF destroy_fleet [OF that d c]]) (simp_all add: keeps_wp [OF last])
  have create: "wp (suppress (bindE (create_checkpoint E c (Some l) False TriggerIdle) (\<lambda>_. ret ())))
      (\<lambda>_. fleet C H) (\<lambda>e _. \<not> is_exception e) w" for l
  proof -
    have "keeps (fleet C H) (bindE (create_checkpoint E c (Some l) False TriggerIdle) (\<lambda>_. ret ()))"
      by (intro keeps_bindE fleet.create_keeps keeps_ret)
    then have "wp (bindE (create_checkpoint E c (Some l) False TriggerIdle) (\<lambda>_. ret ())) (\<lambda>_. fleet C H) (\<lambda>_. fleet C H) w"
      by (rule keeps_wp) (rule f)
    then show ?thesis unfolding wp_suppress by (rule wp_mono) auto
  qed
  have body: "wp (checkpoint_and_destroy E c) (\<lambda>_. ?D) (\<lambda>e w'. is_exception e \<longrightarrow> ?D w') w"
    unfolding checkpoint_and_destroy_def wp_bindE [of "source_label _ _"]
  proof (rule wp_mono [OF source_label_wp])
    fix l w' assume "w' = w"
    then show "wp (seqE (suppress (bindE (create_checkpoint E c (Some (effective_label l)) False TriggerIdle) (\<lambda>_. ret ())))
       (seqE (destroy E (c_id c)) (?tail l))) (\<lambda>_. ?D) (\<lambda>e w'. is_exception e \<longrightarrow> ?D w') w'"
      unfolding wp_seqE [of "suppress _"] by (simp, intro wp_mono [OF create]) (auto intro: wp_mono [OF rest])
  qed simp
  show ?thesis
    unfolding reap_one_idle_def wp_catch_exception wp_seqE wp_ret
    by (rule wp_mono [OF body]) auto
qed

definition reapable :: "computer list \<Rightarrow> computer list \<Rightarrow> bool" where
  "reapable C cs \<longleftrightarrow>
     distinct (map c_id C) \<and> distinct (map c_id cs) \<and>
     (\<forall>c\<in>set cs. c \<in> set C \<and> c_status c = Running \<and> computer_slot c \<noteq> None)"

lemma reapable_downed: "reapable C (c # cs) \<Longrightarrow> reapable (downed {c_id c} C) cs"
  unfolding reapable_def
proof (intro conjI ballI)
  assume r: "distinct (map c_id C) \<and> distinct (map c_id (c # cs)) \<and>
     (\<forall>c\<in>set (c # cs). c \<in> set C \<and> c_status c = Running \<and> computer_slot c \<noteq> None)"
  fix q assume q: "q \<in> set cs"
  then have "c_id q \<noteq> c_id c" using r by (auto simp: image_iff)
  then show "q \<in> set (downed {c_id c} C)" "c_status q = Running" "computer_slot q \<noteq> None"
    using r q by (simp_all add: downed_other)
qed simp_all

lemma reapable_tail: "reapable C (c # cs) \<Longrightarrow> reapable C cs"
  by (simp add: reapable_def)

lemma slots_of_Cons: "computer_slot c = Some s \<Longrightarrow> slots_of (c # cs) = insert s (slots_of cs)"
  by (auto simp: slots_of_def)

lemma reap_each_wp:
  "fleet C H w \<Longrightarrow> reapable C cs \<Longrightarrow>
   wp (map_each cs (reap_one_idle E)) (\<lambda>_. fleet (downed (c_id ` set cs) C) (H - slots_of cs))
     (\<lambda>e _. \<not> is_exception e) w"
proof (induction cs arbitrary: C H w)
  case Nil
  then show ?case by (simp add: wp_ret slots_of_def)
next
  case (Cons c cs)
  obtain s where c: "distinct (map c_id C)" "c \<in> set C" "c_status c = Running" "computer_slot c = Some s"
    using Cons.prems(2) by (auto simp: reapable_def)
  have r: "reapable (downed {c_id c} C) cs" by (rule reapable_downed [OF Cons.prems(2)])
  have "wp (bindE (map_each cs (reap_one_idle E)) (\<lambda>ys. ret (y # ys)))
      (\<lambda>_. fleet (downed (c_id ` set (c # cs)) C) (H - slots_of (c # cs))) (\<lambda>e _. \<not> is_exception e) v"
    if "fleet (downed {c_id c} C) (H - {s}) v" for y v
  proof -
    have e: "downed (c_id ` set cs) (downed {c_id c} C) = downed (c_id ` set (c # cs)) C"
      "H - {s} - slots_of cs = H - slots_of (c # cs)"
      by (simp_all add: downed_downed slots_of_Cons [OF c(4)] Un_commute) blast
    show ?thesis
      unfolding wp_bindE wp_ret using Cons.IH [OF that r] unfolding e .
  qed
  then show ?case
    unfolding map_each.simps wp_bindE [of "reap_one_idle E c"]
    by (intro wp_mono [OF reap_one_idle_wp [OF Cons.prems(1) c]]) simp_all
qed


section \<open>Properties\<close>

definition idle_at :: "int \<Rightarrow> int \<Rightarrow> string set \<Rightarrow> computer \<Rightarrow> bool" where
  "idle_at timeout now busy c \<longleftrightarrow> 0 < timeout \<and> c_status c = Running \<and> is_idle timeout now busy c"

text \<open>C13: a pass over the idle computers returns unless it is interrupted, and then it has destroyed
  exactly the running computers that were not busy and had gone unused for the timeout, and freed
  exactly their slots, whatever the machine did and whether or not they could be checkpointed; every
  other row is as it was. With no timeout it touches nothing.\<close>

theorem reap_idle_exact:
  assumes "distinct (map c_id (w_computers w))" and "alloc_inv (w_alloc w)"
    and "list_all (\<lambda>c. computer_slot c \<noteq> None) (w_computers w)"
    and "fst (os_now (h_os (e_host E)) (w_host w)) = now"
  shows "case outcome (reap_idle E) w of
         Inl e \<Rightarrow> \<not> is_exception e
       | Inr n \<Rightarrow> w_computers (run_state (reap_idle E) w) =
           update_where (idle_at (cf_idle_timeout_seconds (e_config E)) now (w_busy w)) (c_status_update (\<lambda>_. Destroyed)) (w_computers w) \<and>
         held (w_alloc (run_state (reap_idle E) w)) =
           held (w_alloc w) - slots_of (filter (idle_at (cf_idle_timeout_seconds (e_config E)) now (w_busy w)) (w_computers w))"
proof -
  let ?t = "cf_idle_timeout_seconds (e_config E)" and ?C = "w_computers w"
  let ?P = "idle_at ?t now (w_busy w)"
  show ?thesis
  proof (cases "0 < ?t")
    case False
    then show ?thesis
      by (simp add: reap_idle_def run_state_def outcome_def ret_def idle_at_def update_where_def slots_of_def)
  next
    case True
    obtain h where h: "os_now (h_os (e_host E)) (w_host w) = (now, h)"
      using assms(4) by (cases "os_now (h_os (e_host E)) (w_host w)") simp
    let ?w = "w\<lparr>w_host := h\<rparr>"
    let ?cs = "filter (is_idle ?t now (w_busy w)) (running_computers w)"
    have cs: "?cs = filter ?P ?C"
      using True by (auto simp: running_computers_def list_all_computers_def idle_at_def intro: filter_cong)
    have r: "reapable ?C ?cs"
      unfolding cs using assms(1,3)
      by (auto simp: reapable_def idle_at_def list_all_iff distinct_map_filter)
    have down: "downed (c_id ` set ?cs) ?C = update_where ?P (c_status_update (\<lambda>_. Destroyed)) ?C"
    proof -
      have "c_id c \<in> c_id ` set ?cs \<longleftrightarrow> ?P c" if "c \<in> set ?C" for c
        using that assms(1) unfolding cs by (auto simp: distinct_map dest: inj_onD)
      then show ?thesis by (simp add: downed_def update_where_def)
    qed
    have f: "fleet ?C (held (w_alloc w)) ?w" using assms(2) by (simp add: fleet_def)
    have "wp (bindE (map_each ?cs (reap_one_idle E)) (\<lambda>bs. ret (count_true bs)))
        (\<lambda>_. fleet (downed (c_id ` set ?cs) ?C) (held (w_alloc w) - slots_of ?cs)) (\<lambda>e _. \<not> is_exception e) ?w"
      unfolding wp_bindE wp_ret by (rule reap_each_wp [OF f r])
    moreover have "reap_idle E w = bindE (map_each ?cs (reap_one_idle E)) (\<lambda>bs. ret (count_true bs)) ?w"
      using True h
      by (simp add: reap_idle_def utc_moment_def hostop_def reads_def running_computers_def list_all_computers_def bindE_def)
    ultimately have "wp (reap_idle E) (\<lambda>_. fleet (downed (c_id ` set ?cs) ?C) (held (w_alloc w) - slots_of ?cs))
        (\<lambda>e _. \<not> is_exception e) w"
      by (simp add: wp_def)
    then show ?thesis
      unfolding wp_outcome down by (simp add: fleet_def cs split: sum.splits)
  qed
qed

definition idle_world :: "fake world" where
  "idle_world = one_computer\<lparr>w_host := new_fake\<lparr>fk_clock := 2000000000\<rparr>,
     w_computers := [demo_computer\<lparr>c_created_at := iso_text 0\<rparr>, demo_computer\<lparr>c_id := ''comp-2'', c_created_at := iso_text 1999000000, c_tap_device := ''tap2''\<rparr>],
     w_alloc := \<lparr>sa_next_slot = 3, sa_free_slots = {}, sa_next_volume_id = 101\<rparr>\<rparr>"

lemma slots_of_single: "map computer_slot cs = [Some s] \<Longrightarrow> slots_of cs = {s}"
  by (auto simp: slots_of_def)

lemma reap_idle_exact_witness:
  "case outcome (reap_idle fake_env) idle_world of
     Inl e \<Rightarrow> \<not> is_exception e
   | Inr n \<Rightarrow> map c_status (w_computers (run_state (reap_idle fake_env) idle_world)) = [Destroyed, Running] \<and>
      held (w_alloc (run_state (reap_idle fake_env) idle_world)) = {2}"
proof -
  let ?P = "idle_at (cf_idle_timeout_seconds (e_config fake_env)) 2000000000 (w_busy idle_world)"
  have "map c_status (update_where ?P (c_status_update (\<lambda>_. Destroyed)) (w_computers idle_world)) = [Destroyed, Running]"
    by code_simp
  moreover have "map computer_slot (filter ?P (w_computers idle_world)) = [Some 1]" by code_simp
  from slots_of_single [OF this] have "slots_of (filter ?P (w_computers idle_world)) = {1}" .
  moreover have "held (w_alloc idle_world) = {1, 2}" by (auto simp: idle_world_def held_def staging_slot_def)
  moreover have "distinct (map c_id (w_computers idle_world))" by code_simp
  moreover have "list_all (\<lambda>c. computer_slot c \<noteq> None) (w_computers idle_world)" by code_simp
  moreover have "alloc_inv (w_alloc idle_world)" by (simp add: idle_world_def alloc_inv_def last_slot_def)
  moreover have "fst (os_now (h_os (e_host fake_env)) (w_host idle_world)) = 2000000000" by code_simp
  ultimately show ?thesis using reap_idle_exact [of idle_world fake_env 2000000000] by (simp split: sum.splits)
qed

end
