(* ===== verification/Runtime.thy ===== *)
theory Runtime
  imports Reaper
begin

text \<open>
  src/src/mshkn/runtime.py: starting the process on the state the last one left, and the invariant of
  the whole fleet over everything the services do from there: every computer that is not destroyed
  has a slot of its own, and the slots the allocator holds are exactly theirs.
\<close>

section \<open>Start\<close>

text \<open>\<open>SlotAllocator.initialize\<close>: a row whose tap device names no slot stops it before the pool is asked.\<close>

definition initialize_allocator :: "'h env \<Rightarrow> ('h, unit) st" where
  "initialize_allocator E =
     bindE (reads list_all_computers) (\<lambda>cs.
     seqE (for_each cs (\<lambda>c. bindE (slot_of c) (\<lambda>_. ret ())))
     (bindE (reads (\<lambda>w. (get_max_checkpoint_volume_id w, get_max_recipe_volume_id w))) (\<lambda>(ck, rec).
      bindE (hostop (bs_max_volume_id (blocks_of E))) (\<lambda>pool.
      allocop (initialize cs [ck, rec, pool])))))"

definition start :: "'h env \<Rightarrow> ('h, unit) st" where
  "start E =
     seqE (hostop (pr_ensure_terminal_route (proxy_of E)))
     (seqE (initialize_allocator E)
     (bindE (resume_teardowns E) (\<lambda>resumed.
      bindE (reap_dead E) (\<lambda>reaped.
      bindE (recover_staging E) (\<lambda>persisted.
      bindE resume_jobs (\<lambda>resumed_jobs.
      seqE refresh_active_gauge
           (spawn TReaper ''reaper'' (Some ''reaper''))))))))"

section \<open>The fleet\<close>

definition own_slots :: "computer list \<Rightarrow> bool" where
  "own_slots C \<longleftrightarrow>
     distinct (map c_id C) \<and> (\<forall>c\<in>set (active C). computer_slot c \<noteq> None) \<and> inj_on computer_slot (set (active C))"

definition fleet_ok :: "'h world \<Rightarrow> bool" where
  "fleet_ok w \<longleftrightarrow>
     own_slots (w_computers w) \<and> alloc_inv (w_alloc w) \<and> held (w_alloc w) = slots_of (active (w_computers w))"

lemma fleet_ok_fleet: "fleet_ok w \<longleftrightarrow> own_slots (w_computers w) \<and> fleet (w_computers w) (slots_of (active (w_computers w))) w"
  by (auto simp: fleet_ok_def fleet_def)

lemma fleet_okI: "own_slots C \<Longrightarrow> fleet C (slots_of (active C)) w \<Longrightarrow> fleet_ok w"
  by (simp add: fleet_ok_def fleet_def)

lemma active_downed: "active (downed I C) = filter (\<lambda>c. c_id c \<notin> I) (active C)"
  by (induction C) (auto simp: active_def downed_def update_where_def)

lemma own_slots_downed: "own_slots C \<Longrightarrow> own_slots (downed I C)"
  unfolding own_slots_def active_downed by (auto intro: inj_on_subset)

lemma slots_downed:
  assumes "own_slots C" and "set ds \<subseteq> set (active C)"
  shows "slots_of (active (downed (c_id ` set ds) C)) = slots_of (active C) - slots_of ds"
proof -
  have same: "c = d" if "c \<in> set (active C)" "d \<in> set ds" "computer_slot c = Some x" "computer_slot d = Some x" for c d x
  proof (rule inj_onD)
    show "inj_on computer_slot (set (active C))" using assms(1) by (simp add: own_slots_def)
    show "d \<in> set (active C)" using that(2) assms(2) by blast
  qed (simp_all add: that)
  have ids: "c_id c \<in> c_id ` set ds \<longleftrightarrow> c \<in> set ds" if "c \<in> set (active C)" for c
  proof -
    have "inj_on c_id (set C)" using assms(1) by (simp add: own_slots_def distinct_map)
    moreover have "set (active C) \<subseteq> set C" by (simp add: active_def)
    ultimately show ?thesis using that assms(2) by (auto dest: inj_onD)
  qed
  have "active (downed (c_id ` set ds) C) = filter (\<lambda>c. c \<notin> set ds) (active C)"
    unfolding active_downed by (rule filter_cong) (simp_all add: ids)
  then show ?thesis unfolding slots_of_def using same by auto
qed


lemma fleet_down:
  assumes "own_slots C" and "set ds \<subseteq> set (active C)" and "fleet (downed (c_id ` set ds) C) (slots_of (active C) - slots_of ds) w"
  shows "fleet_ok w"
proof (rule fleet_okI [OF own_slots_downed [OF assms(1)]])
  show "fleet (downed (c_id ` set ds) C) (slots_of (active (downed (c_id ` set ds) C))) w"
    using assms(3) slots_downed [OF assms(1,2)] by simp
qed

section \<open>Teardowns at the start\<close>

lemma teardown_fleet:
  assumes f: "fleet C H w" and s: "computer_slot c = Some s"
  shows "wp (teardown E c) (\<lambda>_. fleet (downed {c_id c} C) (H - {s})) (\<lambda>e w'. fleet (downed {c_id c} C) (H - {s}) w' \<and> \<not> is_exception e) w"
proof -
  have k: "alloc_inv (w_alloc w)" "w_computers w = C" "held (w_alloc w) = H" using f by (simp_all add: fleet_def)
  show ?thesis
    by (rule wp_mono [OF teardown_wp [OF s k(1)]])
       (simp_all add: torn_down_fleet [where C = C and A = "w_alloc w", unfolded k(3)] k(2))
qed

text \<open>Of a list of computers, some have been destroyed and their slots freed.\<close>

definition some_down :: "computer list \<Rightarrow> int set \<Rightarrow> computer list \<Rightarrow> 'h world \<Rightarrow> bool" where
  "some_down C H cs w \<longleftrightarrow> (\<exists>ds. set ds \<subseteq> set cs \<and> fleet (downed (c_id ` set ds) C) (H - slots_of ds) w)"

lemma some_down_Cons:
  assumes s: "computer_slot c = Some s"
  shows "some_down (downed {c_id c} C) (H - {s}) cs v \<Longrightarrow> some_down C H (c # cs) v"
    and "some_down C H cs v \<Longrightarrow> some_down C H (c # cs) v"
    and "fleet (downed {c_id c} C) (H - {s}) v \<Longrightarrow> some_down C H (c # cs) v"
proof -
  have e: "downed (c_id ` set ds) (downed {c_id c} C) = downed (c_id ` set (c # ds)) C"
    "H - {s} - slots_of ds = H - slots_of (c # ds)" for ds
    by (simp_all add: downed_downed slots_of_Cons [OF s] Un_commute) blast
  show "some_down C H (c # cs) v" if d: "some_down (downed {c_id c} C) (H - {s}) cs v"
  proof -
    obtain ds where "set ds \<subseteq> set cs" "fleet (downed (c_id ` set (c # ds)) C) (H - slots_of (c # ds)) v"
      using d unfolding some_down_def e by (elim exE conjE) (rule that)
    then show ?thesis unfolding some_down_def by (intro exI [of _ "c # ds"] conjI) (simp add: subset_insertI2, assumption)
  qed
  show "some_down C H (c # cs) v" if d: "some_down C H cs v"
    using d unfolding some_down_def by (elim exE conjE) (rule exI, rule conjI, erule order_trans, auto)
  show "some_down C H (c # cs) v" if d: "fleet (downed {c_id c} C) (H - {s}) v"
    unfolding some_down_def by (rule exI [of _ "[c]"]) (use d in \<open>simp add: slots_of_def s\<close>)
qed

lemma all_torn_down:
  "fleet C H w \<Longrightarrow> (\<forall>c\<in>set cs. computer_slot c \<noteq> None) \<Longrightarrow>
   wp (for_each cs (\<lambda>c. bindE (teardown E c) (\<lambda>_. ret ()))) (\<lambda>_. fleet (downed (c_id ` set cs) C) (H - slots_of cs))
     (\<lambda>e w'. some_down C H cs w' \<and> \<not> is_exception e) w"
proof (induction cs arbitrary: C H w)
  case Nil
  then show ?case by (simp add: wp_ret slots_of_def)
next
  case (Cons c cs)
  obtain s where s: "computer_slot c = Some s" using Cons.prems(2) by auto
  have e: "downed (c_id ` set ds) (downed {c_id c} C) = downed (c_id ` set (c # ds)) C"
    "H - {s} - slots_of ds = H - slots_of (c # ds)" for ds
    by (simp_all add: downed_downed slots_of_Cons [OF s] Un_commute) blast
  have rest: "wp (for_each cs (\<lambda>c. bindE (teardown E c) (\<lambda>_. ret ())))
      (\<lambda>_. fleet (downed (c_id ` set (c # cs)) C) (H - slots_of (c # cs)))
      (\<lambda>e w'. some_down C H (c # cs) w' \<and> \<not> is_exception e) v"
    if "fleet (downed {c_id c} C) (H - {s}) v" for v
  proof -
    have "\<forall>c\<in>set cs. computer_slot c \<noteq> None" using Cons.prems(2) by simp
    from Cons.IH [OF that this] show ?thesis unfolding e by (rule wp_mono) (simp_all add: some_down_Cons(1) [OF s])
  qed
  show ?case
    unfolding for_each.simps wp_seqE wp_bindE wp_ret
    by (rule wp_mono [OF teardown_fleet [OF Cons.prems(1) s]]) (rule rest, assumption, simp add: some_down_Cons(3) [OF s])
qed


section \<open>Dead computers at the start\<close>

lemma cleanup_dead_wp:
  assumes f: "fleet C H w" and d: "distinct (map c_id C)" and c: "c \<in> set C" "c_status c = Running" "computer_slot c = Some s"
  shows "wp (cleanup_dead E c) (\<lambda>_. fleet (downed {c_id c} C) (H - {s}))
     (\<lambda>e w'. fleet (downed {c_id c} C) (H - {s}) w' \<and> \<not> is_exception e) w"
proof -
  let ?P = "\<lambda>q. c_id q = c_id c \<and> c_status q = Running"
  let ?C = "update_where ?P (c_status_update (\<lambda>_. Destroying)) C"
  have one: "length (filter ?P C) = 1"
  proof -
    have "filter (\<lambda>q. c_id q = c_id c) C = [c]" by (rule filter_key [OF d c(1)])
    then have "filter (\<lambda>q. c_status q = Running) (filter (\<lambda>q. c_id q = c_id c) C) = [c]" using c(2) by simp
    then show ?thesis by (simp add: filter_filter conj_commute)
  qed
  have "downed {c_id c} ?C = downed {c_id c} C" by (simp add: downed_def claim_rows_id)
  moreover have "fleet ?C H (w_computers_update (update_where ?P (c_status_update (\<lambda>_. Destroying))) w)"
    using f by (simp add: fleet_def)
  note teardown_fleet [OF this c(3), of E]
  ultimately have t: "wp (teardown E c) (\<lambda>_. fleet (downed {c_id c} C) (H - {s}))
     (\<lambda>e w'. fleet (downed {c_id c} C) (H - {s}) w' \<and> \<not> is_exception e)
     (w_computers_update (update_where ?P (c_status_update (\<lambda>_. Destroying))) w)"
    by simp
  have C: "w_computers w = C" using f by (simp add: fleet_def)
  show ?thesis
    unfolding cleanup_dead_def wp_bindE claim_teardown_wp C using one t by (simp add: wp_bindE wp_ret)
qed

lemma reap_one_dead_wp:
  assumes f: "fleet C H w" and d: "distinct (map c_id C)" and c: "c \<in> set C" "c_status c = Running" "computer_slot c = Some s"
  shows "wp (reap_one_dead E c) (\<lambda>_ w'. fleet C H w' \<or> fleet (downed {c_id c} C) (H - {s}) w')
     (\<lambda>e w'. fleet (downed {c_id c} C) (H - {s}) w' \<and> \<not> is_exception e) w"
proof -
  have "wp (catch_exception (cleanup_dead E c) (\<lambda>_. ret False)) (\<lambda>_ w'. fleet C H w' \<or> fleet (downed {c_id c} C) (H - {s}) w')
     (\<lambda>e w'. fleet (downed {c_id c} C) (H - {s}) w' \<and> \<not> is_exception e) w"
    unfolding wp_catch_exception by (rule wp_mono [OF cleanup_dead_wp [OF f d c]]) (simp_all add: wp_ret)
  then show ?thesis
    using f by (simp add: reap_one_dead_def wp_ret wp_bindE wp_reads split: option.splits)
qed

lemma reap_dead_each_wp:
  "fleet C H w \<Longrightarrow> reapable C cs \<Longrightarrow>
   wp (map_each cs (reap_one_dead E)) (\<lambda>_. some_down C H cs) (\<lambda>e w'. some_down C H cs w' \<and> \<not> is_exception e) w"
proof (induction cs arbitrary: C H w)
  case Nil
  then show ?case by (auto simp: wp_ret some_down_def slots_of_def)
next
  case (Cons c cs)
  obtain s where c: "distinct (map c_id C)" "c \<in> set C" "c_status c = Running" "computer_slot c = Some s"
    using Cons.prems(2) by (auto simp: reapable_def)
  note r = reapable_tail [OF Cons.prems(2)] and r' = reapable_downed [OF Cons.prems(2)]
  have rest: "wp (bindE (map_each cs (reap_one_dead E)) (\<lambda>ys. ret (y # ys))) (\<lambda>_. some_down C H (c # cs))
      (\<lambda>e w'. some_down C H (c # cs) w' \<and> \<not> is_exception e) v"
    if "fleet C H v \<or> fleet (downed {c_id c} C) (H - {s}) v" for y v
    using that
  proof
    assume "fleet C H v"
    from Cons.IH [OF this r] show ?thesis
      unfolding wp_bindE wp_ret by (rule wp_mono) (simp_all add: some_down_Cons(2) [OF c(4)])
  next
    assume "fleet (downed {c_id c} C) (H - {s}) v"
    from Cons.IH [OF this r'] show ?thesis
      unfolding wp_bindE wp_ret by (rule wp_mono) (simp_all add: some_down_Cons(1) [OF c(4)])
  qed
  show ?case
    unfolding map_each.simps wp_bindE [of "reap_one_dead E c"]
    by (rule wp_mono [OF reap_one_dead_wp [OF Cons.prems(1) c]]) (simp_all add: rest some_down_Cons(3) [OF c(4)])
qed


section \<open>The start as a whole\<close>

text \<open>A table a start accepts: own slots, all in the allocator's range.\<close>

definition startable :: "computer list \<Rightarrow> bool" where
  "startable C \<longleftrightarrow> own_slots C \<and> (\<forall>c\<in>set (active C). \<exists>s. computer_slot c = Some s \<and> s \<in> all_slots)"

lemma startable_downed: "startable C \<Longrightarrow> startable (downed I C)"
  unfolding startable_def by (auto simp: own_slots_downed) (simp add: active_downed)

lemma list_all_active: "list_all_computers w = active (w_computers w)"
  by (simp add: list_all_computers_def active_def)

lemma slot_checks_wp:
  "(\<forall>c\<in>set cs. computer_slot c \<noteq> None) \<Longrightarrow> wp (for_each cs (\<lambda>c. bindE (slot_of c) (\<lambda>_. ret ()))) (\<lambda>_ w'. w' = w) R w"
  by (induction cs) (auto simp: wp_ret wp_seqE wp_bindE slot_of_def)

lemma initialize_allocator_wp:
  assumes "startable C" and "w_computers w = C"
  shows "wp (initialize_allocator E) (\<lambda>_. fleet C (slots_of (active C))) (\<lambda>_ w'. w_computers w' = C) w"
proof -
  have s: "\<And>c. c \<in> set (active C) \<Longrightarrow> \<exists>s. computer_slot c = Some s \<and> s \<in> all_slots"
    using assms(1) by (simp add: startable_def)
  have n: "\<forall>c\<in>set (active C). computer_slot c \<noteq> None" using s by force
  have pool: "wp (hostop (bs_max_volume_id (blocks_of E))) (\<lambda>_ v. w_computers v = C) (\<lambda>_ v. w_computers v = C) w"
    unfolding wp_hostop by (rule wp_any) (simp_all add: assms(2))
  have init: "wp (allocop (initialize (active C) ms)) (\<lambda>_. fleet C (slots_of (active C))) (\<lambda>_ w'. w_computers w' = C) v"
    if "w_computers v = C" for ms v
    unfolding wp_allocop
    by (rule wp_mono [OF initialize_wp [OF s, where R = "\<lambda>_ _. False"]]) (use that in \<open>auto simp: fleet_def slots_of_def\<close>)
  show ?thesis
    unfolding initialize_allocator_def wp_bindE [of "reads _"] wp_reads list_all_active assms(2) wp_seqE
    by (rule wp_mono [OF slot_checks_wp [OF n, where R = "\<lambda>_ _. False"]])
       (simp add: wp_bindE wp_reads, rule wp_mono [OF pool], erule init, assumption, erule FalseE)
qed

definition none_destroying :: "computer list \<Rightarrow> bool" where
  "none_destroying C \<longleftrightarrow> (\<forall>c\<in>set C. c_status c \<noteq> Destroying)"

lemma none_destroying_downed: "none_destroying C \<Longrightarrow> none_destroying (downed I C)"
  by (auto simp: none_destroying_def downed_def update_where_def)

lemma all_resumed: "none_destroying (downed (c_id ` set (filter (\<lambda>c. c_status c = Destroying) (active C))) C)"
  by (auto simp: none_destroying_def downed_def update_where_def active_def)

text \<open>The database of a start that stopped, and the fleet of one that went on.\<close>

definition stopped :: "'h world \<Rightarrow> bool" where
  "stopped w \<longleftrightarrow> startable (w_computers w)"

definition recovered :: "'h world \<Rightarrow> bool" where
  "recovered w \<longleftrightarrow> fleet_ok w \<and> startable (w_computers w) \<and> none_destroying (w_computers w)"

lemma some_down_ok:
  assumes "startable C" and "set cs \<subseteq> set (active C)" and "some_down C (slots_of (active C)) cs w"
  shows "fleet_ok w \<and> startable (w_computers w) \<and> (none_destroying C \<longrightarrow> none_destroying (w_computers w))"
proof -
  obtain ds where ds: "set ds \<subseteq> set cs" "fleet (downed (c_id ` set ds) C) (slots_of (active C) - slots_of ds) w"
    using assms(3) by (auto simp: some_down_def)
  have o: "own_slots C" using assms(1) by (simp add: startable_def)
  have "fleet_ok w" by (rule fleet_down [OF o _ ds(2)]) (use ds(1) assms(2) in blast)
  moreover have "w_computers w = downed (c_id ` set ds) C" using ds(2) by (simp add: fleet_def)
  ultimately show ?thesis using startable_downed [OF assms(1)] none_destroying_downed by metis
qed

lemma resume_teardowns_wp:
  assumes C: "startable C" and f: "fleet C (slots_of (active C)) w"
  shows "wp (resume_teardowns E) (\<lambda>_. recovered) (\<lambda>_. stopped) w"
proof -
  let ?cs = "filter (\<lambda>c. c_status c = Destroying) (active C)"
  have o: "own_slots C" using C by (simp add: startable_def)
  have n: "\<forall>c\<in>set ?cs. computer_slot c \<noteq> None" using o by (auto simp: own_slots_def)
  have sub: "set ?cs \<subseteq> set (active C)" by auto
  have w: "w_computers w = C" using f by (simp add: fleet_def)
  show ?thesis
    unfolding resume_teardowns_def wp_bindE wp_reads list_all_active w wp_seqE wp_ret
  proof (rule wp_mono [OF all_torn_down [OF f n]])
    fix x v assume v: "fleet (downed (c_id ` set ?cs) C) (slots_of (active C) - slots_of ?cs) v"
    then have "w_computers v = downed (c_id ` set ?cs) C" by (simp add: fleet_def)
    then show "recovered v"
      using fleet_down [OF o sub v] startable_downed [OF C] all_resumed [of C] by (simp add: recovered_def)
  next
    fix e v assume "some_down C (slots_of (active C)) ?cs v \<and> \<not> is_exception e"
    then show "stopped v" using some_down_ok [OF C sub] by (auto simp: stopped_def)
  qed
qed

lemma running_reapable:
  assumes o: "own_slots (w_computers w)"
  shows "reapable (w_computers w) (running_computers w)"
proof -
  let ?C = "w_computers w"
  have cs: "running_computers w = filter (\<lambda>c. c_status c = Running) (active ?C)"
    by (simp add: running_computers_def list_all_active)
  have "set (active ?C) \<subseteq> set ?C" by (auto simp: active_def)
  moreover have "distinct (map c_id (running_computers w))"
    using o by (simp add: cs active_def own_slots_def distinct_map_filter)
  ultimately show ?thesis using o unfolding cs by (auto simp: reapable_def own_slots_def)
qed

lemma reap_dead_wp:
  assumes r: "recovered w"
  shows "wp (reap_dead E) (\<lambda>_. recovered) (\<lambda>_. stopped) w"
proof -
  let ?C = "w_computers w" and ?cs = "running_computers w"
  have C: "startable ?C" "own_slots ?C" "none_destroying ?C" "fleet_ok w" using r by (simp_all add: recovered_def startable_def)
  have f: "fleet ?C (slots_of (active ?C)) w" using C(4) by (simp add: fleet_ok_fleet)
  have cs: "?cs = filter (\<lambda>c. c_status c = Running) (active ?C)"
    by (simp add: running_computers_def list_all_active)
  have sub: "set ?cs \<subseteq> set (active ?C)" unfolding cs by auto
  note ready = running_reapable [OF C(2)]
  show ?thesis
    unfolding reap_dead_def wp_bindE wp_reads wp_ret
  proof (rule wp_mono [OF reap_dead_each_wp [OF f ready]])
    fix v assume "some_down ?C (slots_of (active ?C)) ?cs v"
    from some_down_ok [OF C(1) sub this] C(3) show "recovered v" by (simp add: recovered_def)
  next
    fix e v assume "some_down ?C (slots_of (active ?C)) ?cs v \<and> \<not> is_exception e"
    then show "stopped v" using some_down_ok [OF C(1) sub] by (auto simp: stopped_def)
  qed
qed


text \<open>What the steps between have no business with: the tasks and the relay jobs.\<close>

definition still :: "background \<Rightarrow> relay_job list \<Rightarrow> 'h world \<Rightarrow> bool" where
  "still T J w \<longleftrightarrow> w_tasks w = T \<and> w_relay_jobs w = J"

interpretation still: bystander "still T J" for T J
  by unfold_locales (simp_all add: still_def ignores_host_def)

lemma still_resume: "keeps (still T J) (resume_teardowns E)"
  unfolding resume_teardowns_def
  by (intro keeps_bindE keeps_reads keeps_seqE keeps_for_each still.teardown_keeps keeps_ret)

lemma still_dead: "keeps (still T J) (reap_dead E)"
proof -
  have "keeps (still T J) (claim_teardown i)" for i
    unfolding claim_teardown_def Let_def
    by (intro keeps_bindE keeps_reads keeps_seqE keeps_ret keeps_writes) (simp add: still_def)
  then show ?thesis
    unfolding reap_dead_def reap_one_dead_def cleanup_dead_def
    by (intro keeps_bindE keeps_reads keeps_map_each keeps_option keeps_if keeps_catch_exception still.teardown_keeps keeps_ret)
qed

lemma still_initialize: "keeps (still T J) (initialize_allocator E)"
  unfolding initialize_allocator_def slot_of_def
  by (intro keeps_bindE keeps_reads keeps_seqE keeps_for_each keeps_option keeps_ret keeps_raise keeps_prod
      still.host_steps still.alloc_step)

lemma recover_keeps:
  assumes "ignores_host I"
  shows "keeps I (recover_staging E)"
proof -
  note h = keeps_host_steps [OF assms]
  have "keeps I (recover_entry E p)" for p
    unfolding recover_entry_def Let_def
    by (intro keeps_bindE keeps_reads keeps_if keeps_catch_exception keeps_seqE keeps_ret h)
  then have "keeps I (recover_entries E ps n)" for ps n
    by (induction ps arbitrary: n) (simp_all add: keeps_ret keeps_bindE)
  then show ?thesis
    unfolding recover_staging_def Let_def by (intro keeps_bindE keeps_if keeps_ret h)
qed

definition started :: "'h world \<Rightarrow> 'h world \<Rightarrow> bool" where
  "started w w' \<longleftrightarrow>
     recovered w' \<and> w_gauge w' = count_active_computers w' \<and>
     task_list w' = task_list w @ map TRelayRun (list_relay_jobs_by_status [RelayQueued, RelayInProgress] w) @ [TReaper]"

section \<open>Every operation keeps the fleet\<close>

interpretation fleet_ok: snapshotting fleet_ok
  by unfold_locales (simp_all add: fleet_ok_def ignores_host_def held_def alloc_inv_def)

lemma destroy_keeps_ok: "keeps fleet_ok (destroy E i)"
proof (rule keepsI_wp)
  fix w :: "'a world" assume ok: "fleet_ok w"
  let ?C = "w_computers w"
  have o: "own_slots ?C" and f: "fleet ?C (slots_of (active ?C)) w" using ok by (simp_all add: fleet_ok_fleet)
  show "wp (destroy E i) (\<lambda>_. fleet_ok) (\<lambda>_. fleet_ok) w"
  proof (cases "\<exists>c. get_computer i w = Some c \<and> c_status c = Running")
    case True
    then obtain c where c: "get_computer i w = Some c" "c_status c = Running" by blast
    have m: "c \<in> set ?C" "c_id c = i" using c(1) by (auto dest: get_computer_SomeD)
    then have a: "c \<in> set (active ?C)" using c(2) by (simp add: active_def)
    then obtain s where s: "computer_slot c = Some s" using o by (auto simp: own_slots_def)
    have d: "distinct (map c_id ?C)" using o by (simp add: own_slots_def)
    have "fleet_ok v" if "fleet (downed {c_id c} ?C) (slots_of (active ?C) - {s}) v" for v
      using fleet_down [OF o, of "[c]" v] that a by (simp add: slots_of_def s)
    then show ?thesis
      unfolding m(2) [symmetric]
      by (intro wp_mono [OF destroy_fleet [OF f d m(1) c(2) s]])
  next
    case False
    have "claim_teardown i w = (Inr False, w)"
    proof (rule claim_loses)
      fix c assume c: "c \<in> set ?C" "c_id c = i"
      have "find (\<lambda>x. c_id x = c_id c) ?C = Some c"
        by (rule find_first_key) (use o c(1) in \<open>simp_all add: own_slots_def\<close>)
      then have "get_computer i w = Some c" by (simp add: get_computer_def c(2))
      with False show "c_status c \<noteq> Running" by blast
    qed
    then have "run_state (destroy E i) w = w"
      by (auto simp: destroy_def run_state_def bindE_def reads_def raise_domain_def raise_def ret_def split: option.splits)
    then show ?thesis using ok by (simp add: wp_outcome split: sum.splits)
  qed
qed

lemma touch_keeps_ok: "keeps fleet_ok (update_last_exec_at i t)"
  unfolding update_last_exec_at_def
proof (rule keeps_writes)
  fix w :: "'a world" assume ok: "fleet_ok w"
  let ?C = "w_computers w"
  let ?g = "\<lambda>c. if c_id c = i then c_last_exec_at_update (\<lambda>_. Some t) c else c"
  have slot: "computer_slot (?g c) = computer_slot c" for c by (simp add: computer_slot_def)
  have act: "active (map ?g C) = map ?g (active C)" for C by (induction C) (auto simp: active_def)
  have slots: "slots_of (active (map ?g ?C)) = slots_of (active ?C)"
    by (simp only: slots_of_def act set_map bex_simps slot)
  have ids: "map c_id (map ?g ?C) = map c_id ?C" by simp
  have own: "own_slots ?C" using ok by (simp add: fleet_ok_def)
  have "inj_on computer_slot (?g ` set (active ?C))"
  proof (rule inj_onI)
    fix x y assume "x \<in> ?g ` set (active ?C)" "y \<in> ?g ` set (active ?C)" and e: "computer_slot x = computer_slot y"
    then obtain c d where cd: "c \<in> set (active ?C)" "d \<in> set (active ?C)" "x = ?g c" "y = ?g d" by (elim imageE) (rule that)
    have "computer_slot c = computer_slot d" using e unfolding cd(3,4) slot .
    moreover have "inj_on computer_slot (set (active ?C))" using own by (simp add: own_slots_def)
    ultimately have "c = d" using cd(1,2) by (metis inj_onD)
    then show "x = y" using cd(3,4) by simp
  qed
  moreover have "\<forall>c\<in>set (active ?C). computer_slot (?g c) \<noteq> None"
    using own unfolding own_slots_def slot by (elim conjE)
  ultimately have "own_slots (map ?g ?C)"
    using own unfolding own_slots_def ids act set_map ball_simps by (elim conjE) (intro conjI)
  then show "fleet_ok (w_computers_update (update_where (\<lambda>c. c_id c = i) (c_last_exec_at_update (\<lambda>_. Some t))) w)"
    using ok slots by (simp add: fleet_ok_def update_where_def)
qed

lemma reap_dead_keeps_ok: "keeps fleet_ok (reap_dead E)"
proof (rule keepsI_wp)
  fix w :: "'a world" assume ok: "fleet_ok w"
  let ?C = "w_computers w" and ?cs = "running_computers w"
  have o: "own_slots ?C" and f: "fleet ?C (slots_of (active ?C)) w" using ok by (simp_all add: fleet_ok_fleet)
  have sub: "set ?cs \<subseteq> set (active ?C)" by (auto simp: running_computers_def list_all_active)
  have ok': "fleet_ok v" if "some_down ?C (slots_of (active ?C)) ?cs v" for v
  proof -
    obtain ds where ds: "set ds \<subseteq> set ?cs" "fleet (downed (c_id ` set ds) ?C) (slots_of (active ?C) - slots_of ds) v"
      using \<open>some_down _ _ _ v\<close> by (auto simp: some_down_def)
    then show ?thesis using sub by (intro fleet_down [OF o _ ds(2)]) blast
  qed
  show "wp (reap_dead E) (\<lambda>_. fleet_ok) (\<lambda>_. fleet_ok) w"
    unfolding reap_dead_def wp_bindE wp_reads wp_ret
    by (rule wp_mono [OF reap_dead_each_wp [OF f running_reapable [OF o]]]) (simp_all add: ok')
qed

lemma exec_keeps_ok: "keeps fleet_ok (exec_in E c command timeout)"
proof -
  have "keeps fleet_ok (touch_computer E c)"
    unfolding touch_computer_def by (intro keeps_bindE fleet_ok.snap_steps touch_keeps_ok)
  moreover have "keeps fleet_ok (set_busy i b)" for i b
    unfolding set_busy_def by (rule keeps_writes) (simp add: fleet_ok_def)
  ultimately show ?thesis
    unfolding exec_in_def
    by (intro keeps_seqE keeps_finallyE keeps_timed fleet_ok.snap_steps fleet_ok.snap_metrics)
qed

lemma run_keeps_ok: "keeps fleet_ok (run_ephemeral E account c spec source)"
proof -
  have "keeps fleet_ok (record_run E c command result source label)" for command result label
    unfolding record_run_def
    by (intro keeps_bindE fleet_ok.snap_steps) (auto simp: keeps_def insert_exec_log_def insert_row_def fleet_ok_def)
  moreover have "keeps fleet_ok (set_exec_log_checkpoint i k)" for i k
    unfolding set_exec_log_checkpoint_def by (rule keeps_writes) (simp add: fleet_ok_def)
  ultimately show ?thesis
    unfolding run_ephemeral_def self_destruct_def spawn_drain_def Let_def
    by (intro keeps_option keeps_bindE keeps_seqE keeps_if keeps_ret exec_keeps_ok destroy_keeps_ok
        fleet_ok.create_keeps fleet_ok.spawn_step)
qed

lemma reap_idle_keeps_ok: "keeps fleet_ok (reap_idle E)"
  unfolding reap_idle_def reap_one_idle_def checkpoint_and_destroy_def source_label_def spawn_drain_def utc_moment_def Let_def
  by (intro keeps_if keeps_ret keeps_bindE keeps_reads keeps_map_each keeps_catch_exception keeps_seqE keeps_suppress
      keeps_option destroy_keeps_ok fleet_ok.create_keeps fleet_ok.snap_steps fleet_ok.spawn_step)

section \<open>The service as a state machine\<close>

lemma startable_ok: "fleet_ok w \<Longrightarrow> startable (w_computers w)"
proof -
  assume f: "fleet_ok w"
  then have "slots_of (active (w_computers w)) \<subseteq> all_slots"
    unfolding fleet_ok_def using held_in_range by fastforce
  then show ?thesis
    using f by (fastforce simp: startable_def fleet_ok_def own_slots_def slots_of_def)
qed

lemma came_up_ok:
  assumes ok: "fleet_ok w" and taps: "names_taps E" and up: "came_up E account w c w'"
  shows "fleet_ok w'"
proof -
  let ?C = "w_computers w"
  obtain s where s: "computer_slot c = Some s" "s \<notin> slots_of (active ?C)" "held (w_alloc w') = insert s (slots_of (active ?C))"
    using up ok taps by (auto simp: came_up_def fleet_ok_def)
  have C: "w_computers w' = ?C @ [c]" and act: "active (?C @ [c]) = active ?C @ [c]" and new: "c_id c \<notin> c_id ` set ?C"
    and inv: "alloc_inv (w_alloc w')"
    using up by (simp_all add: came_up_def active_def)
  have o: "own_slots ?C" using ok by (simp add: fleet_ok_def)
  have "computer_slot d \<noteq> Some s" if "d \<in> set (active ?C)" for d using s(2) that by (auto simp: slots_of_def)
  then have "own_slots (?C @ [c])"
    using o new s(1) unfolding own_slots_def act by (auto simp: inj_on_def)
  moreover have "slots_of (active ?C @ [c]) = insert s (slots_of (active ?C))"
    using s(1) by (auto simp: slots_of_def)
  ultimately show ?thesis unfolding fleet_ok_def C act using inv s(3) by simp
qed

lemma left_alone_ok: "fleet_ok w \<Longrightarrow> left_alone w w' \<Longrightarrow> fleet_ok w'"
  by (simp add: fleet_ok_def left_alone_def own_slots_def)

text \<open>The service over time: each operation runs to its end, returning or raising; the machine changes
  by itself; the process dies, and starts again on the database it left. \<open>Up\<close> and \<open>Down\<close> say
  whether a start has gone through.\<close>

datatype 'h service = Up "'h world" | Down "'h world"

primrec database :: "'h service \<Rightarrow> 'h world" where
  "database (Up w) = w"
| "database (Down w) = w"

inductive service_step :: "'h env \<Rightarrow> 'h service \<Rightarrow> 'h service \<Rightarrow> bool" for E where
  Create: "fresh_id E w \<Longrightarrow> service_step E (Up w) (Up (run_state (create_computer E account r res key) w))"
| Fork: "fresh_id E w \<Longrightarrow> service_step E (Up w) (Up (run_state (fork_computer E account ck r key) w))"
| Destroy: "service_step E (Up w) (Up (run_state (destroy E i) w))"
| Exec: "service_step E (Up w) (Up (run_state (exec_in E c command timeout) w))"
| RunEphemeral: "service_step E (Up w) (Up (run_state (run_ephemeral E account c spec source) w))"
| TakeCheckpoint: "service_step E (Up w) (Up (run_state (create_checkpoint E c label pin trigger) w))"
| ReapDead: "service_step E (Up w) (Up (run_state (reap_dead E) w))"
| ReapIdle: "service_step E (Up w) (Up (run_state (reap_idle E) w))"
| Machine: "service_step E (Up w) (Up (w\<lparr>w_host := h\<rparr>))"
| Offline: "service_step E (Down w) (Down (w\<lparr>w_host := h\<rparr>))"
| Crash: "service_step E (Up w) (Down w)"
| Start: "outcome (start E) (restarted w) = Inr u \<Longrightarrow>
    service_step E (Down w) (Up (run_state (start E) (restarted w)))"
| StartFails: "outcome (start E) (restarted w) = Inl e \<Longrightarrow>
    service_step E (Down w) (Down (run_state (start E) (restarted w)))"

inductive_cases up_stepE: "service_step E (Up w) s"
inductive_cases down_stepE: "service_step E (Down w) s"

fun fleet_safe :: "'h service \<Rightarrow> bool" where
  "fleet_safe (Up w) = fleet_ok w"
| "fleet_safe (Down w) = startable (w_computers w)"

lemma start_wp:
  fixes w :: "'h world"
  assumes "startable (w_computers w)"
  shows "wp (start E) (\<lambda>_. started w) (\<lambda>_. stopped) w"
proof -
  let ?I = "still (w_tasks w) (w_relay_jobs w)"
  let ?jobs = "list_relay_jobs_by_status [RelayQueued, RelayInProgress] w"
  have still: "wp m (\<lambda>a v. Q a v \<and> ?I v) R v" if "keeps ?I m" "wp m Q R v" "?I v" for m :: "('a, 'b) st" and Q R v
    by (rule wp_mono [OF wp_conj [OF that(2) keeps_wp [OF that(1,3)]]]) simp_all
  have last: "wp (bindE resume_jobs (\<lambda>n. seqE refresh_active_gauge (spawn TReaper ''reaper'' (Some ''reaper''))))
     (\<lambda>_. started w) (\<lambda>_. stopped) v" if v: "recovered v" "?I v" for v
  proof -
    obtain t where t: "resume_jobs v = (Inr (int (length ?jobs)), v\<lparr>w_tasks := t\<rparr>)"
      "task_list (v\<lparr>w_tasks := t\<rparr>) = task_list v @ map TRelayRun ?jobs"
      using resume_run [of v] v(2) by (auto simp: still_def list_relay_jobs_by_status_def)
    have "task_list v = task_list w" using v(2) by (simp add: still_def task_list_def)
    then have "started w (v\<lparr>w_gauge := count_active_computers v, w_tasks := bg_spawn TReaper ''reaper'' (Some ''reaper'') t\<rparr>)"
      using v(1) t(2)
      by (simp add: started_def recovered_def fleet_ok_def count_active_computers_def task_list_def bg_spawn_def)
    then show ?thesis
      by (simp add: wp_def bindE_def t(1) seqE_def refresh_active_gauge_def spawn_def writes_def count_active_computers_def)
  qed
  have staged: "wp (bindE (recover_staging E) (\<lambda>p. bindE resume_jobs (\<lambda>n.
      seqE refresh_active_gauge (spawn TReaper ''reaper'' (Some ''reaper''))))) (\<lambda>_. started w) (\<lambda>_. stopped) v"
    if v: "recovered v \<and> ?I v" for v
  proof (rule wp_bind_keeps [where I = "\<lambda>v. recovered v \<and> ?I v"])
    have "ignores_host (\<lambda>v. recovered v \<and> ?I v)"
      by (simp add: ignores_host_def recovered_def fleet_ok_def still_def)
    then show "keeps (\<lambda>v. recovered v \<and> ?I v) (recover_staging E)" by (rule recover_keeps)
  qed (use v last in \<open>auto simp: recovered_def stopped_def\<close>)
  show ?thesis
    unfolding start_def wp_seqE [of "hostop _"] wp_hostop
  proof (rule wp_any)
    fix a h
    let ?w = "w\<lparr>w_host := h\<rparr>"
    have w: "w_computers ?w = w_computers w" "?I ?w" by (simp_all add: still_def)
    show "wp (seqE (initialize_allocator E) (bindE (resume_teardowns E) (\<lambda>resumed. bindE (reap_dead E) (\<lambda>reaped.
        bindE (recover_staging E) (\<lambda>persisted. bindE resume_jobs (\<lambda>resumed_jobs.
        seqE refresh_active_gauge (spawn TReaper ''reaper'' (Some ''reaper'')))))))) (\<lambda>_. started w) (\<lambda>_. stopped) ?w"
      unfolding wp_seqE [of "initialize_allocator E"] wp_bindE [of "resume_teardowns E"] wp_bindE [of "reap_dead E"]
    proof (rule wp_mono [OF still [OF still_initialize initialize_allocator_wp [OF assms w(1)] w(2)]], elim conjE)
      fix b and v :: "'h world" assume v: "fleet (w_computers w) (slots_of (active (w_computers w))) v" "?I v"
      show "wp (resume_teardowns E) (\<lambda>resumed. wp (reap_dead E) (\<lambda>reaped. wp (bindE (recover_staging E) (\<lambda>persisted.
          bindE resume_jobs (\<lambda>resumed_jobs. seqE refresh_active_gauge (spawn TReaper ''reaper'' (Some ''reaper'')))))
          (\<lambda>_. started w) (\<lambda>_. stopped)) (\<lambda>_. stopped)) (\<lambda>_. stopped) v"
        by (rule wp_mono [OF still [OF still_resume resume_teardowns_wp [OF assms v(1)] v(2)]], elim conjE,
            rule wp_mono [OF still [OF still_dead reap_dead_wp]], assumption, assumption, rule staged)
    qed (simp add: stopped_def assms)
  qed (simp add: stopped_def assms)
qed

lemma step_safe:
  assumes "service_step E s s'" and taps: "names_taps E" and pop: "pop_ok (e_pop E)" and "fleet_safe s"
  shows "fleet_safe s'"
  using assms(1,4)
proof (cases rule: service_step.cases)
  case (Create w account r res key)
  then have ok: "fleet_ok w" using assms(4) by simp
  then have "alloc_inv (w_alloc w)" by (simp add: fleet_ok_def)
  note c = create_computer_wp [OF this pop Create(3), of account r res key]
  show ?thesis
    using c came_up_ok [OF ok taps] left_alone_ok [OF ok] Create by (auto simp: wp_outcome split: sum.splits)
next
  case (Fork w account ck r key)
  then have ok: "fleet_ok w" using assms(4) by simp
  then have "alloc_inv (w_alloc w)" by (simp add: fleet_ok_def)
  note c = fork_computer_wp [OF this pop Fork(3), of account ck r key]
  show ?thesis
    using c came_up_ok [OF ok taps] left_alone_ok [OF ok] Fork by (auto simp: wp_outcome split: sum.splits)
next
  case (Start w u)
  then have "startable (w_computers (restarted w))" using assms(4) by (simp add: restarted_def)
  from start_wp [OF this, of E] Start show ?thesis by (simp add: wp_outcome started_def recovered_def)
next
  case (StartFails w e)
  then have "startable (w_computers (restarted w))" using assms(4) by (simp add: restarted_def)
  from start_wp [OF this, of E] StartFails show ?thesis by (simp add: wp_outcome stopped_def)
qed (simp_all add: keeps_run [OF destroy_keeps_ok] keeps_run [OF exec_keeps_ok] keeps_run [OF run_keeps_ok]
      keeps_run [OF fleet_ok.create_keeps] keeps_run [OF reap_dead_keeps_ok] keeps_run [OF reap_idle_keeps_ok]
      startable_ok, simp add: fleet_ok_def)

lemma steps_safe:
  assumes "(service_step E)\<^sup>*\<^sup>* s s'" and "names_taps E" and "pop_ok (e_pop E)" and "fleet_safe s"
  shows "fleet_safe s'"
  using assms(1,4) by (induction rule: rtranclp_induct) (simp_all add: step_safe [OF _ assms(2,3)])

section \<open>Properties\<close>

text \<open>C12: a start that goes through, on any database whose computers name slots of their own, finishes
  every interrupted teardown and leaves no computer half destroyed, with the allocator holding
  exactly the slots of the computers that are left, and has started every unsettled relay job and the reaper.
  A start that stops, whatever stopped it, leaves a database the next start accepts.\<close>

theorem start_recovers:
  assumes "startable (w_computers w)"
  shows "case outcome (start E) w of
           Inr _ \<Rightarrow> started w (run_state (start E) w) | Inl _ \<Rightarrow> startable (w_computers (run_state (start E) w))"
  using start_wp [OF assms, of E] by (simp add: wp_outcome stopped_def split: sum.splits)

lemma fake_taps: "names_taps fake_env"
proof -
  have "returns (\<lambda>vm. vm_tap_device vm = tap_name s) (fake_vm s n)" for s n
    unfolding fake_vm_def Let_def by (intro returns_bind returns_seq returns_ret) (simp add: slot_to_tap_def tap_name_def)
  then show ?thesis
    by (simp add: names_taps_def fake_env_def fake_host_def hypervisor_of_def fake_hypervisor_def fake_boot_def
        fake_restore_def returns_seq)
qed

lemma one_startable: "startable (w_computers one_computer)"
proof -
  have "active [demo_computer] = [demo_computer]" by (simp add: active_def demo_computer_def)
  moreover have "1 \<in> all_slots" by (simp add: all_slots_def last_slot_def staging_slot_def)
  ultimately show ?thesis by (simp add: one_computer_def startable_def own_slots_def demo_slot)
qed

lemma start_recovers_witness:
  "started one_computer (run_state (start fake_env) one_computer)"
proof -
  have "case outcome (start fake_env) one_computer of Inr _ \<Rightarrow> True | Inl _ \<Rightarrow> False" by code_simp
  then show ?thesis using start_recovers [OF one_startable, of fake_env] by (simp split: sum.splits)
qed

text \<open>C11: whatever the services do from a first start on - creating, forking, destroying, running
  commands, taking checkpoints, reaping, dying and starting again, in any order, with any machine and
  whatever fails - no two computers that are not destroyed share a slot, every one has a slot in
  range, and while the service is up the slots held are exactly theirs, so that the slot the next
  computer gets is in nobody's use.\<close>

theorem fleet_invariant:
  assumes "(service_step E)\<^sup>*\<^sup>* (Down w) s" and "names_taps E" and "pop_ok (e_pop E)"
    and "startable (w_computers w)"
  shows "startable (w_computers (database s)) \<and>
     (case s of Up v \<Rightarrow> alloc_inv (w_alloc v) \<and> held (w_alloc v) = slots_of (active (w_computers v)) | Down _ \<Rightarrow> True)"
  using steps_safe [OF assms(1-3)] assms(4)
  by (cases s) (auto simp: startable_ok fleet_ok_def)

lemma fleet_invariant_witness:
  "let s = Up (run_state (destroy fake_env ''comp-1'') (run_state (start fake_env) (restarted one_computer))) in
   startable (w_computers (database s)) \<and>
     (case s of Up v \<Rightarrow> alloc_inv (w_alloc v) \<and> held (w_alloc v) = slots_of (active (w_computers v)) | Down _ \<Rightarrow> True)"
proof -
  let ?v = "run_state (start fake_env) (restarted one_computer)"
  have "case outcome (start fake_env) (restarted one_computer) of Inr _ \<Rightarrow> True | Inl _ \<Rightarrow> False" by code_simp
  then have "service_step fake_env (Down one_computer) (Up ?v)"
    by (auto intro: service_step.Start split: sum.splits)
  moreover have "service_step fake_env (Up ?v) (Up (run_state (destroy fake_env ''comp-1'') ?v))" by (rule service_step.Destroy)
  ultimately have "(service_step fake_env)\<^sup>*\<^sup>* (Down one_computer) (Up (run_state (destroy fake_env ''comp-1'') ?v))"
    by (meson rtranclp.rtrancl_refl rtranclp.rtrancl_into_rtrancl)
  from fleet_invariant [OF this fake_taps _ one_startable] show ?thesis
    unfolding Let_def by (simp add: fake_env_def pop_ok_Min)
qed

end
