(* ===== verification/RateLimit.thy ===== *)
theory RateLimit
  imports Prelude
begin

text \<open>
  The sliding-window rate limiter of src/src/mshkn/ratelimit.py. A limiter keeps, per key, the
  times of the requests it allowed; the clock's reading is an argument of a check (it is
  monotonic). Times are rationals.
\<close>

record rate_limiter =
  rl_max_requests :: int
  rl_window_seconds :: rat
  rl_timestamps :: "string \<Rightarrow> rat list"

definition new_limiter :: "int \<Rightarrow> rat \<Rightarrow> rate_limiter" where
  "new_limiter max_requests window_seconds =
     \<lparr>rl_max_requests = max_requests, rl_window_seconds = window_seconds, rl_timestamps = (\<lambda>_. [])\<rparr>"

definition check_rate :: "string \<Rightarrow> rat \<Rightarrow> rate_limiter \<Rightarrow> bool \<times> rate_limiter" where
  "check_rate key now l =
     (let cutoff = now - rl_window_seconds l;
          timestamps = filter (\<lambda>t. t > cutoff) (rl_timestamps l key)
      in if int (length timestamps) \<ge> rl_max_requests l
         then (False, l\<lparr>rl_timestamps := (rl_timestamps l)(key := timestamps)\<rparr>)
         else (True, l\<lparr>rl_timestamps := (rl_timestamps l)(key := timestamps @ [now])\<rparr>))"

text \<open>A history of checks: the key and the clock's reading of each, with the answers.\<close>

fun checks :: "(string \<times> rat) list \<Rightarrow> rate_limiter \<Rightarrow> bool list \<times> rate_limiter" where
  "checks [] l = ([], l)"
| "checks ((k, t) # rest) l =
     (let (b, l') = check_rate k t l; (bs, l'') = checks rest l' in (b # bs, l''))"

text \<open>The times at which a history allowed a request of the key, oldest first.\<close>

definition allowed_times :: "string \<Rightarrow> (string \<times> rat) list \<Rightarrow> bool list \<Rightarrow> rat list" where
  "allowed_times key h bs =
     List.map_filter (\<lambda>((k, t), b). if b \<and> k = key then Some t else None) (zip h bs)"

definition in_window :: "rat \<Rightarrow> rat \<Rightarrow> rat list \<Rightarrow> rat list" where
  "in_window window now ts = filter (\<lambda>t. now - window < t \<and> t \<le> now) ts"

section \<open>The reference\<close>

text \<open>The same limiter over the full log of allowed requests, nothing forgotten.\<close>

definition recent :: "string \<Rightarrow> rat \<Rightarrow> (string \<times> rat) list \<Rightarrow> rat list" where
  "recent key cutoff past = filter (\<lambda>x. cutoff < x) (map snd (filter (\<lambda>p. fst p = key) past))"

fun spec_checks :: "int \<Rightarrow> rat \<Rightarrow> (string \<times> rat) list \<Rightarrow> (string \<times> rat) list \<Rightarrow> bool list" where
  "spec_checks m w past [] = []"
| "spec_checks m w past ((k, t) # rest) =
     (let b = int (length (recent k (t - w) past)) < m
      in b # spec_checks m w (if b then past @ [(k, t)] else past) rest)"

definition same_recent :: "rate_limiter \<Rightarrow> (string \<times> rat) list \<Rightarrow> rat \<Rightarrow> bool" where
  "same_recent l past now \<longleftrightarrow>
     (\<forall>key t. now \<le> t \<longrightarrow>
        filter (\<lambda>x. t - rl_window_seconds l < x) (rl_timestamps l key) =
        recent key (t - rl_window_seconds l) past)"

lemma check_params [simp]:
  "rl_max_requests (snd (check_rate k t l)) = rl_max_requests l"
  "rl_window_seconds (snd (check_rate k t l)) = rl_window_seconds l"
  by (simp_all add: check_rate_def Let_def)

lemma filter_later:
  "(c0::rat) \<le> c0' \<Longrightarrow> filter (\<lambda>t. c0' < t) (filter (\<lambda>t. c0 < t) xs) = filter (\<lambda>t. c0' < t) xs"
  by (induction xs) auto

lemma recent_append [simp]:
  "recent key c (past @ [(k, t)]) = recent key c past @ (if k = key \<and> c < t then [t] else [])"
  by (simp add: recent_def)

lemma check_spec:
  assumes same: "same_recent l past now" and t: "now \<le> t"
  shows "fst (check_rate k t l) \<longleftrightarrow> int (length (recent k (t - rl_window_seconds l) past)) < rl_max_requests l"
    and "same_recent (snd (check_rate k t l)) (if fst (check_rate k t l) then past @ [(k, t)] else past) t"
proof -
  let ?w = "rl_window_seconds l"
  have f: "filter (\<lambda>x. t - ?w < x) (rl_timestamps l k) = recent k (t - ?w) past"
    using same t by (simp add: same_recent_def)
  then show "fst (check_rate k t l) \<longleftrightarrow> int (length (recent k (t - ?w) past)) < rl_max_requests l"
    by (auto simp: check_rate_def Let_def)
  have old: "filter (\<lambda>x. u - ?w < x) (rl_timestamps l key) = recent key (u - ?w) past" if "t \<le> u" for key u
    using same t that by (simp add: same_recent_def)
  have later: "filter (\<lambda>x. u - ?w < x) (recent k (t - ?w) past) = recent k (u - ?w) past" if "t \<le> u" for u
    unfolding recent_def by (rule filter_later) (use that in simp)
  show "same_recent (snd (check_rate k t l)) (if fst (check_rate k t l) then past @ [(k, t)] else past) t"
    unfolding same_recent_def
    using old later by (auto simp: check_rate_def Let_def f)
qed

lemma checks_spec:
  "same_recent l past now \<Longrightarrow> sorted (map snd h) \<Longrightarrow> (\<forall>p\<in>set h. now \<le> snd p) \<Longrightarrow>
   fst (checks h l) = spec_checks (rl_max_requests l) (rl_window_seconds l) past h"
proof (induction h arbitrary: l past now)
  case (Cons p h)
  obtain k t where p: "p = (k, t)" by (cases p)
  have t: "now \<le> t" using Cons.prems p by simp
  note step = check_spec [OF Cons.prems(1) t, of k]
  have "fst (checks h (snd (check_rate k t l))) =
      spec_checks (rl_max_requests l) (rl_window_seconds l) (if fst (check_rate k t l) then past @ [(k, t)] else past) h"
    using Cons.IH [OF step(2)] Cons.prems p by simp
  with step(1) show ?case
    by (simp add: p Let_def case_prod_beta)
qed simp

lemma same_recent_new: "same_recent (new_limiter m w) [] now"
  by (simp add: same_recent_def new_limiter_def recent_def)

section \<open>The bound\<close>

fun spec_log :: "int \<Rightarrow> rat \<Rightarrow> (string \<times> rat) list \<Rightarrow> (string \<times> rat) list \<Rightarrow> (string \<times> rat) list" where
  "spec_log m w past [] = past"
| "spec_log m w past ((k, t) # rest) =
     spec_log m w (if int (length (recent k (t - w) past)) < m then past @ [(k, t)] else past) rest"

definition within_limit :: "int \<Rightarrow> rat \<Rightarrow> (string \<times> rat) list \<Rightarrow> bool" where
  "within_limit m w past \<longleftrightarrow>
     (\<forall>key now. int (length (filter (\<lambda>x. x \<le> now) (recent key (now - w) past))) \<le> max m 0)"

lemma length_filter_mono: "(\<And>x. x \<in> set xs \<Longrightarrow> P x \<Longrightarrow> Q x) \<Longrightarrow> length (filter P xs) \<le> length (filter Q xs)"
  by (induction xs) (auto simp: le_SucI)

lemma recent_mono: "c \<le> c' \<Longrightarrow> length (recent key c' past) \<le> length (recent key c past)"
  unfolding recent_def by (rule length_filter_mono) simp

lemma within_limit_step:
  assumes "within_limit m w past" and "int (length (recent k (t - w) past)) < m"
  shows "within_limit m w (past @ [(k, t)])"
  unfolding within_limit_def
proof (intro allI)
  fix key now
  let ?old = "filter (\<lambda>x. x \<le> now) (recent key (now - w) past)"
  have old: "int (length ?old) \<le> max m 0" using assms(1) by (simp add: within_limit_def)
  show "int (length (filter (\<lambda>x. x \<le> now) (recent key (now - w) (past @ [(k, t)])))) \<le> max m 0"
  proof (cases "k = key \<and> now - w < t \<and> t \<le> now")
    case True
    have "length ?old \<le> length (recent key (now - w) past)" by (rule length_filter_le)
    also have "\<dots> \<le> length (recent key (t - w) past)" by (rule recent_mono) (use True in simp)
    finally have le: "length ?old \<le> length (recent key (t - w) past)" .
    have "int (length (recent key (t - w) past)) < m" using assms(2) True by simp
    with le have "int (length ?old) < m" by linarith
    with True assms(2) show ?thesis by simp
  next
    case False
    then show ?thesis using old by auto
  qed
qed

lemma within_limit_log: "within_limit m w past \<Longrightarrow> within_limit m w (spec_log m w past h)"
  by (induction m w past h rule: spec_log.induct) (simp_all add: within_limit_step)

lemma allowed_times_Cons:
  "allowed_times key ((k, t) # h) (b # bs) = (if b \<and> k = key then [t] else []) @ allowed_times key h bs"
  by (simp add: allowed_times_def map_filter_simps)

lemma allowed_times_log:
  "map snd (filter (\<lambda>p. fst p = key) past) @ allowed_times key h (spec_checks m w past h) =
   map snd (filter (\<lambda>p. fst p = key) (spec_log m w past h))"
proof (induction h arbitrary: past)
  case Nil
  then show ?case by (simp add: allowed_times_def map_filter_simps)
next
  case (Cons p h)
  obtain k t where p: "p = (k, t)" by (cases p)
  show ?case
    using Cons.IH [of "past @ [(k, t)]"] Cons.IH [of past]
    by (cases "int (length (recent k (t - w) past)) < m"; cases "k = key")
       (simp_all add: p allowed_times_Cons)
qed

lemma window_bound:
  "int (length (in_window w now (allowed_times key h (spec_checks m w [] h)))) \<le> max m 0"
proof -
  have e: "allowed_times key h (spec_checks m w [] h) = map snd (filter (\<lambda>p. fst p = key) (spec_log m w [] h))"
    using allowed_times_log [of key "[]" h m w] by simp
  have "within_limit m w (spec_log m w [] h)"
    by (rule within_limit_log) (simp add: within_limit_def recent_def)
  then have "int (length (filter (\<lambda>x. x \<le> now) (recent key (now - w) (spec_log m w [] h)))) \<le> max m 0"
    by (simp add: within_limit_def)
  then show ?thesis
    unfolding e in_window_def recent_def by (simp add: filter_filter conj_commute)
qed

text \<open>Over any window length a key is allowed at most the maximum number of requests, for any
  history of checks made at nondecreasing clock readings.\<close>

lemma rate_limit_window:
  assumes "sorted (map snd h)"
  shows "int (length (in_window w now (allowed_times key h (fst (checks h (new_limiter m w)))))) \<le> max m 0"
proof (cases h)
  case Nil
  then show ?thesis by (simp add: allowed_times_def map_filter_simps in_window_def)
next
  case (Cons p h')
  have "\<forall>q\<in>set h. snd p \<le> snd q" using assms Cons by auto
  then have "fst (checks h (new_limiter m w)) = spec_checks m w [] h"
    using checks_spec [OF same_recent_new [of m w "snd p"] assms] by (simp add: new_limiter_def)
  then show ?thesis by (simp add: window_bound)
qed

section \<open>Properties\<close>

lemma rate_limit_window_witness:
  "int (length (in_window 10 3 (allowed_times ''k'' [(''k'', 0), (''k'', 1), (''k'', 2)]
     (fst (checks [(''k'', 0), (''k'', 1), (''k'', 2)] (new_limiter 2 10)))))) \<le> 2"
  using rate_limit_window [of "[(''k'', 0), (''k'', 1), (''k'', 2)]" 10 3 "''k''" 2] by simp

text \<open>Forgetting old times changes no answer: every check answers as a limiter does that keeps the
  full log of allowed requests and counts those of the key inside the window.\<close>

lemma rate_limiter_refines_log:
  assumes "sorted (map snd h)" and "\<forall>p\<in>set h. start \<le> snd p"
  shows "fst (checks h (new_limiter m w)) = spec_checks m w [] h"
  using checks_spec [OF same_recent_new [of m w start] assms] by (simp add: new_limiter_def)

lemma rate_limiter_refines_log_witness:
  "fst (checks [(''k'', 0), (''k'', 1), (''k'', 20)] (new_limiter 1 10)) = [True, False, True]"
  using rate_limiter_refines_log [of "[(''k'', 0), (''k'', 1), (''k'', 20)]" 0 1 10]
  by (simp add: recent_def)

end
