(* ===== verification/Ingress.thy ===== *)
theory Ingress
  imports Runtime RateLimit
begin

text \<open>
  Ingress rules and the trigger path (src/src/mshkn/services/ingress.py, services/starlark.py): the
  literal a request becomes, the validation of a transform's result, the rules and their limiters,
  the trigger in its two modes and the log.

  The Starlark interpreter is a parameter (\<open>lib_starlark_exec\<close>, \<open>lib_starlark_eval\<close>). Of Pydantic, how one
  value is checked against one annotation is a parameter too (\<open>coercion\<close>); what a model class does with
  it is written out: fields in the order of the class, defaults for the missing ones, a field's own
  validator after its annotation, every key that is no field refused, the model's validator last.
\<close>

section \<open>Starlark\<close>

text \<open>\<open>_to_starlark_literal\<close>. On these values it is also Python's \<open>repr\<close>.\<close>

lemma size_snd_list [termination_simp]: "p \<in> set kvs \<Longrightarrow> size (snd p) < Suc (size_list (size_prod (\<lambda>x. 0) size) kvs)"
  by (induction kvs) auto

fun starlark_literal :: "json \<Rightarrow> string" where
  "starlark_literal JNull = ''None''"
| "starlark_literal (JBool b) = (if b then ''True'' else ''False'')"
| "starlark_literal (JInt i) = str_int i"
| "starlark_literal (JStr s) = py_repr s"
| "starlark_literal (JArr xs) = ''['' @ join '', '' (map starlark_literal xs) @ '']''"
| "starlark_literal (JObj kvs) =
     ''{'' @ join '', '' (map (\<lambda>p. py_repr (fst p) @ '': '' @ starlark_literal (snd p)) kvs) @ ''}''"

definition starlark_error :: "exc \<Rightarrow> exc" where
  "starlark_error e = (if is_exception e then PyError ''StarlarkError'' (exc_str e) else e)"

definition is_starlark_error :: "exc \<Rightarrow> bool" where
  "is_starlark_error e = (case e of PyError n _ \<Rightarrow> n = ''StarlarkError'' | _ \<Rightarrow> False)"

definition validate_starlark :: "libraries \<Rightarrow> string \<Rightarrow> exc + string list" where
  "validate_starlark L source =
     (case lib_starlark_exec L source of
        Inl e \<Rightarrow> if is_exception e then Inr [exc_str e] else Inl e
      | Inr globals \<Rightarrow> Inr (if ''transform'' \<in> set globals then [] else [''source must define a '' @ py_repr ''transform'' @ '' function'']))"

definition execute_transform :: "libraries \<Rightarrow> string \<Rightarrow> json \<Rightarrow> exc + json" where
  "execute_transform L source request =
     (case lib_starlark_exec L source of
        Inl e \<Rightarrow> Inl (starlark_error e)
      | Inr _ \<Rightarrow>
          (case lib_starlark_eval L source (''transform('' @ starlark_literal request @ '')'') of
             Inl e \<Rightarrow> Inl (starlark_error e)
           | Inr v \<Rightarrow> Inr v))"

section \<open>Validated models\<close>

datatype annotation = AStr | ABool | ADict | ALiteral "string list" | AOptional annotation

record field_error =
  fe_type :: string
  fe_loc :: "string list"
  fe_msg :: string

text \<open>A value that is refused has at least one error.\<close>

type_synonym coercion = "annotation \<Rightarrow> json \<Rightarrow> (field_error \<times> field_error list) + json"

text \<open>A field: its annotation, its default (None when it is required) and its validator, which may raise
  something that is not a validation error, or give the message of the ValueError it raises.\<close>

record model_field =
  mf_name :: string
  mf_type :: annotation
  mf_default :: "json option"
  mf_validator :: "json \<Rightarrow> exc + string option"

definition no_validator :: "json \<Rightarrow> exc + string option" where
  "no_validator v = Inr None"

definition value_error :: "string list \<Rightarrow> string \<Rightarrow> field_error" where
  "value_error loc message = \<lparr>fe_type = ''value_error'', fe_loc = loc, fe_msg = ''Value error, '' @ message\<rparr>"

definition in_field :: "string \<Rightarrow> field_error \<Rightarrow> field_error" where
  "in_field name e = e\<lparr>fe_loc := name # fe_loc e\<rparr>"

definition read_field ::
  "coercion \<Rightarrow> (string \<times> json) list \<Rightarrow> model_field \<Rightarrow> exc + field_error list + json" where
  "read_field V kvs fd =
     (case map_of kvs (mf_name fd) of
        None \<Rightarrow>
          (case mf_default fd of
             None \<Rightarrow> Inr (Inl [\<lparr>fe_type = ''missing'', fe_loc = [mf_name fd], fe_msg = ''Field required''\<rparr>])
           | Some v \<Rightarrow> Inr (Inr v))
      | Some j \<Rightarrow>
          (case V (mf_type fd) j of
             Inl (e, es) \<Rightarrow> Inr (Inl (map (in_field (mf_name fd)) (e # es)))
           | Inr v \<Rightarrow>
               (case mf_validator fd v of
                  Inl e \<Rightarrow> Inl e
                | Inr None \<Rightarrow> Inr (Inr v)
                | Inr (Some m) \<Rightarrow> Inr (Inl [value_error [mf_name fd] m]))))"

fun read_fields ::
  "coercion \<Rightarrow> (string \<times> json) list \<Rightarrow> model_field list \<Rightarrow> exc + field_error list \<times> (string \<times> json) list" where
  "read_fields V kvs [] = Inr ([], [])"
| "read_fields V kvs (fd # fds) =
     bind_sum (read_field V kvs fd) (\<lambda>r.
     bind_sum (read_fields V kvs fds) (\<lambda>(es, vs).
     Inr (case r of Inl es' \<Rightarrow> (es' @ es, vs) | Inr v \<Rightarrow> (es, (mf_name fd, v) # vs))))"

definition extra_errors :: "model_field list \<Rightarrow> (string \<times> json) list \<Rightarrow> field_error list" where
  "extra_errors fds kvs =
     map (\<lambda>k. \<lparr>fe_type = ''extra_forbidden'', fe_loc = [k], fe_msg = ''Extra inputs are not permitted''\<rparr>)
       (filter (\<lambda>k. k \<notin> mf_name ` set fds) (map fst kvs))"

text \<open>A class with \<open>extra="forbid"\<close>: what it reads out of a dict, or the errors.\<close>

definition validate_model ::
  "coercion \<Rightarrow> model_field list \<Rightarrow> ((string \<times> json) list \<Rightarrow> 'm) \<Rightarrow> ('m \<Rightarrow> field_error list) \<Rightarrow>
   (string \<times> json) list \<Rightarrow> exc + field_error list + 'm" where
  "validate_model V fds build_model after kvs =
     bind_sum (read_fields V kvs fds) (\<lambda>(es, vs).
     let errors = es @ extra_errors fds kvs; m = build_model vs
     in Inr (if errors \<noteq> [] then Inl errors else if after m \<noteq> [] then Inl (after m) else Inr m))"

section \<open>The two actions\<close>

fun str_of_json :: "json \<Rightarrow> string option" where
  "str_of_json (JStr s) = Some s"
| "str_of_json _ = None"

fun bool_of_json :: "json \<Rightarrow> bool" where
  "bool_of_json (JBool b) = b"
| "bool_of_json _ = False"

fun dict_of_json :: "json \<Rightarrow> (string \<times> json) list option" where
  "dict_of_json (JObj kvs) = Some kvs"
| "dict_of_json _ = None"

definition value_of :: "string \<Rightarrow> (string \<times> json) list \<Rightarrow> json" where
  "value_of name vs = (case map_of vs name of None \<Rightarrow> JNull | Some v \<Rightarrow> v)"

definition str_field :: "string \<Rightarrow> (string \<times> json) list \<Rightarrow> string option" where
  "str_field name vs = str_of_json (value_of name vs)"

record fork_action =
  fa_checkpoint_id :: "string option"
  fa_label :: "string option"
  fa_exec :: "string option"
  fa_self_destruct :: bool
  fa_exclusive :: "exclusive_mode option"
  fa_callback_url :: "string option"
  fa_meta_exec :: "string option"

record create_action =
  ca_recipe_id :: "string option"
  ca_needs :: "(string \<times> json) list option"
  ca_exec :: "string option"
  ca_self_destruct :: bool
  ca_callback_url :: "string option"
  ca_label :: "string option"
  ca_meta_exec :: "string option"

definition plain_field :: "string \<Rightarrow> annotation \<Rightarrow> json option \<Rightarrow> model_field" where
  "plain_field name t d = \<lparr>mf_name = name, mf_type = t, mf_default = d, mf_validator = no_validator\<rparr>"

definition optional_str :: "string \<Rightarrow> model_field" where
  "optional_str name = plain_field name (AOptional AStr) (Some JNull)"

definition fork_fields :: "model_field list" where
  "fork_fields =
     [plain_field ''action'' (ALiteral [''fork'']) None, optional_str ''checkpoint_id'', optional_str ''label'',
      optional_str ''exec'', plain_field ''self_destruct'' ABool (Some (JBool False)),
      plain_field ''exclusive'' (AOptional (ALiteral [''error_on_conflict'', ''defer_on_conflict''])) (Some JNull),
      optional_str ''callback_url'', optional_str ''meta_exec'']"

definition exclusive_of :: "string option \<Rightarrow> exclusive_mode option" where
  "exclusive_of s =
     (if s = Some ''error_on_conflict'' then Some ErrorOnConflict
      else if s = Some ''defer_on_conflict'' then Some DeferOnConflict else None)"

definition fork_of :: "(string \<times> json) list \<Rightarrow> fork_action" where
  "fork_of vs =
     \<lparr>fa_checkpoint_id = str_field ''checkpoint_id'' vs, fa_label = str_field ''label'' vs, fa_exec = str_field ''exec'' vs,
      fa_self_destruct = bool_of_json (value_of ''self_destruct'' vs),
      fa_exclusive = exclusive_of (str_field ''exclusive'' vs),
      fa_callback_url = str_field ''callback_url'' vs, fa_meta_exec = str_field ''meta_exec'' vs\<rparr>"

definition fork_target :: "fork_action \<Rightarrow> field_error list" where
  "fork_target f =
     (if fa_checkpoint_id f = None \<and> fa_label f = None
      then [value_error [] (''fork action requires '' @ py_repr ''checkpoint_id'' @ '' or '' @ py_repr ''label'')] else [])"

definition validate_fork :: "coercion \<Rightarrow> (string \<times> json) list \<Rightarrow> exc + field_error list + fork_action" where
  "validate_fork V kvs = validate_model V fork_fields fork_of fork_target kvs"

text \<open>The validator of \<open>needs\<close>: an InvalidInput becomes a ValueError, and a ValueError is one already.\<close>

definition check_needs :: "json \<Rightarrow> exc + string option" where
  "check_needs v =
     (case from_needs (dict_of_json v) of
        Inr _ \<Rightarrow> Inr None
      | Inl e \<Rightarrow> if is_class InvalidInput e \<or> exc_name e = ''ValueError'' then Inr (Some (exc_str e)) else Inl e)"

definition create_fields :: "model_field list" where
  "create_fields =
     [plain_field ''action'' (ALiteral [''create'']) None, optional_str ''recipe_id'',
      (plain_field ''needs'' (AOptional ADict) (Some JNull))\<lparr>mf_validator := check_needs\<rparr>,
      optional_str ''exec'', plain_field ''self_destruct'' ABool (Some (JBool False)),
      optional_str ''callback_url'', optional_str ''label'', optional_str ''meta_exec'']"

definition create_of :: "(string \<times> json) list \<Rightarrow> create_action" where
  "create_of vs =
     \<lparr>ca_recipe_id = str_field ''recipe_id'' vs, ca_needs = dict_of_json (value_of ''needs'' vs),
      ca_exec = str_field ''exec'' vs, ca_self_destruct = bool_of_json (value_of ''self_destruct'' vs),
      ca_callback_url = str_field ''callback_url'' vs, ca_label = str_field ''label'' vs,
      ca_meta_exec = str_field ''meta_exec'' vs\<rparr>"

definition validate_create :: "coercion \<Rightarrow> (string \<times> json) list \<Rightarrow> exc + field_error list + create_action" where
  "validate_create V kvs = validate_model V create_fields create_of (\<lambda>_. []) kvs"

definition describe_error :: "field_error \<Rightarrow> string" where
  "describe_error e =
     (let loc = join ''.'' (fe_loc e)
      in if fe_type e = ''extra_forbidden'' then ''unknown field for this action: '' @ loc
         else if loc \<noteq> [] then loc @ '': '' @ fe_msg e else fe_msg e)"

definition error_list :: "field_error list + 'a \<Rightarrow> string list" where
  "error_list r = (case r of Inl es \<Rightarrow> map describe_error es | Inr _ \<Rightarrow> [])"

definition validate_action :: "coercion \<Rightarrow> (string \<times> json) list \<Rightarrow> exc + string list" where
  "validate_action V kvs =
     (if map_of kvs ''action'' = Some (JStr ''fork'') then bind_sum (validate_fork V kvs) (\<lambda>r. Inr (error_list r))
      else if map_of kvs ''action'' = Some (JStr ''create'') then bind_sum (validate_create V kvs) (\<lambda>r. Inr (error_list r))
      else Inr [''action must be '' @ py_repr ''fork'' @ '' or '' @ py_repr ''create'' @ '', got '' @
                starlark_literal (value_of ''action'' kvs)])"

definition validate_transform_result :: "coercion \<Rightarrow> json \<Rightarrow> exc + string list" where
  "validate_transform_result V result =
     (case result of
        JNull \<Rightarrow> Inr []
      | JObj kvs \<Rightarrow> validate_action V kvs
      | _ \<Rightarrow> Inr [''transform must return a dict or None''])"

section \<open>Rules\<close>

definition check_source :: "'h env \<Rightarrow> string \<Rightarrow> ('h, unit) st" where
  "check_source E source =
     bindE (from_result (validate_starlark (e_lib E) source)) (\<lambda>errors.
     if errors \<noteq> []
     then raise (MshknError InvalidInput ''invalid starlark'' (Some (JObj [(''starlark_errors'', JArr (map JStr errors))])))
     else ret ())"

record rule_request =
  rr_name :: string
  rr_starlark_source :: string
  rr_response_mode :: string
  rr_max_body_bytes :: int
  rr_rate_limit_rpm :: int

definition new_rule :: "string \<Rightarrow> string \<Rightarrow> account \<Rightarrow> rule_request \<Rightarrow> string \<Rightarrow> ingress_rule" where
  "new_rule internal_id token account r now =
     \<lparr>ir_internal_id = internal_id, ir_id = ''ir_'' @ token, ir_account_id = a_id account, ir_name = rr_name r,
      ir_starlark_source = rr_starlark_source r, ir_response_mode = rr_response_mode r,
      ir_max_body_bytes = rr_max_body_bytes r, ir_rate_limit_rpm = rr_rate_limit_rpm r, ir_enabled = True,
      ir_created_at = now, ir_updated_at = now\<rparr>"

text \<open>\<open>str(uuid.uuid4())\<close>: the hex digits in groups of 8, 4, 4, 4 and 12.\<close>

definition uuid_text :: "string \<Rightarrow> string" where
  "uuid_text hex =
     join ''-'' [take 8 hex, take 4 (drop 8 hex), take 4 (drop 12 hex), take 4 (drop 16 hex), drop 20 hex]"

definition create_rule :: "'h env \<Rightarrow> account \<Rightarrow> rule_request \<Rightarrow> ('h, ingress_rule) st" where
  "create_rule E account r =
     seqE (check_source E (rr_starlark_source r))
     (bindE (utcnow E) (\<lambda>now.
      bindE (uuid4_hex E) (\<lambda>hex.
      bindE (token_urlsafe E 20) (\<lambda>token.
      let rule = new_rule (uuid_text hex) token account r now
      in seqE (insert_ingress_rule rule) (ret rule)))))"

definition list_rules :: "account \<Rightarrow> ('h, ingress_rule list) st" where
  "list_rules account = reads (list_ingress_rules_by_account (a_id account))"

definition get_rule :: "account \<Rightarrow> string \<Rightarrow> ('h, ingress_rule) st" where
  "get_rule account rule_id =
     bindE (reads (get_ingress_rule_by_id rule_id)) (\<lambda>rule.
     case rule of
       None \<Rightarrow> raise_domain NotFound ''Ingress rule not found''
     | Some r \<Rightarrow> if ir_account_id r \<noteq> a_id account then raise_domain NotFound ''Ingress rule not found'' else ret r)"

record rule_update =
  ru_name :: "string option"
  ru_starlark_source :: "string option"
  ru_response_mode :: "string option"
  ru_max_body_bytes :: "int option"
  ru_rate_limit_rpm :: "int option"
  ru_enabled :: "bool option"

definition given :: "'a option \<Rightarrow> 'a \<Rightarrow> 'a" where
  "given new old = (case new of None \<Rightarrow> old | Some v \<Rightarrow> v)"

definition apply_update :: "rule_update \<Rightarrow> string \<Rightarrow> ingress_rule \<Rightarrow> ingress_rule" where
  "apply_update u now r =
     r\<lparr>ir_name := given (ru_name u) (ir_name r),
       ir_starlark_source := given (ru_starlark_source u) (ir_starlark_source r),
       ir_response_mode := given (ru_response_mode u) (ir_response_mode r),
       ir_max_body_bytes := given (ru_max_body_bytes u) (ir_max_body_bytes r),
       ir_rate_limit_rpm := given (ru_rate_limit_rpm u) (ir_rate_limit_rpm r),
       ir_enabled := given (ru_enabled u) (ir_enabled r), ir_updated_at := now\<rparr>"

definition update_rule :: "'h env \<Rightarrow> account \<Rightarrow> string \<Rightarrow> rule_update \<Rightarrow> ('h, ingress_rule) st" where
  "update_rule E account rule_id u =
     bindE (get_rule account rule_id) (\<lambda>rule.
     seqE (case ru_starlark_source u of None \<Rightarrow> ret () | Some source \<Rightarrow> check_source E source)
     (bindE (utcnow E) (\<lambda>now.
      let rule = apply_update u now rule
      in seqE (update_ingress_rule rule) (ret rule))))"

text \<open>The limiters are the service's own state, a dict from internal ids. \<open>now\<close> is SQLite's clock where a
  rule is rotated and the monotonic clock where a limiter is asked.\<close>

type_synonym limiters = "(string \<times> rate_limiter) list"
type_synonym ('h, 'a) ingress = "('h world \<times> limiters, 'a) act"

definition delete_rule :: "account \<Rightarrow> string \<Rightarrow> ('h, unit) ingress" where
  "delete_rule account rule_id =
     bindE (lifted (get_rule account rule_id)) (\<lambda>rule.
     seqE (lifted (delete_ingress_rule rule_id)) (assign (dict_pop (ir_internal_id rule))))"

definition rotate_rule :: "'h env \<Rightarrow> string \<Rightarrow> account \<Rightarrow> string \<Rightarrow> ('h, ingress_rule) st" where
  "rotate_rule E sql_now account rule_id =
     bindE (get_rule account rule_id) (\<lambda>rule.
     bindE (token_urlsafe E 20) (\<lambda>token.
     let new_id = ''ir_'' @ token
     in seqE (rotate_ingress_rule_id sql_now (ir_internal_id rule) new_id)
        (bindE (utcnow E) (\<lambda>now. ret (rule\<lparr>ir_id := new_id, ir_updated_at := now\<rparr>)))))"

definition rule_logs :: "account \<Rightarrow> string \<Rightarrow> ('h, ingress_log list) st" where
  "rule_logs account rule_id =
     bindE (get_rule account rule_id) (\<lambda>rule. reads (list_ingress_logs (ir_internal_id rule)))"

text \<open>The dry run; its third component, the time it took, is left out.\<close>

definition test_rule :: "libraries \<Rightarrow> coercion \<Rightarrow> ingress_rule \<Rightarrow> json \<Rightarrow> exc + json option \<times> string list" where
  "test_rule L V rule request =
     (case execute_transform L (ir_starlark_source rule) request of
        Inl e \<Rightarrow> if is_starlark_error e then Inr (None, [exc_str e]) else Inl e
      | Inr result \<Rightarrow> bind_sum (validate_transform_result V result) (\<lambda>errors. Inr (Some result, errors)))"

definition enabled_rule :: "string \<Rightarrow> ('h, ingress_rule) st" where
  "enabled_rule rule_id =
     bindE (reads (get_ingress_rule_by_id rule_id)) (\<lambda>rule.
     case rule of
       None \<Rightarrow> raise_domain NotFound ''Ingress rule not found''
     | Some r \<Rightarrow> if \<not> ir_enabled r then raise_domain NotFound ''Ingress rule not found'' else ret r)"

section \<open>Limiters\<close>

definition limiter_for :: "ingress_rule \<Rightarrow> limiters \<Rightarrow> rate_limiter \<times> limiters" where
  "limiter_for rule ls =
     (let fresh = new_limiter (ir_rate_limit_rpm rule) 60
      in case map_of ls (ir_internal_id rule) of
           None \<Rightarrow> (fresh, dict_set (ir_internal_id rule) fresh ls)
         | Some l \<Rightarrow> if rl_max_requests l \<noteq> ir_rate_limit_rpm rule
                     then (fresh, dict_set (ir_internal_id rule) fresh ls) else (l, ls))"

text \<open>\<open>limiter_for(rule).check(rule.internal_id)\<close>: the limiter in the dict is the one that is changed.\<close>

definition allow_request :: "ingress_rule \<Rightarrow> rat \<Rightarrow> limiters \<Rightarrow> bool \<times> limiters" where
  "allow_request rule now ls =
     (let (l, ls') = limiter_for rule ls; (ok, l') = check_rate (ir_internal_id rule) now l
      in (ok, dict_set (ir_internal_id rule) l' ls'))"

section \<open>Running an action\<close>

datatype ingress_result =
    IrDeferred string
  | IrForked computer checkpoint ephemeral_result
  | IrCreated computer ephemeral_result

definition validation_error :: "field_error list \<Rightarrow> exc" where
  "validation_error es = PyError ''ValidationError'' (join newline (map describe_error es))"

definition validated :: "exc + field_error list + 'm \<Rightarrow> ('h, 'm) st" where
  "validated r = bindE (from_result r) (\<lambda>v. case v of Inl es \<Rightarrow> raise (validation_error es) | Inr m \<Rightarrow> ret m)"

definition fork_spec :: "fork_action \<Rightarrow> exec_spec" where
  "fork_spec f =
     \<lparr>es_command = fa_exec f, es_self_destruct = fa_self_destruct f, es_callback_url = fa_callback_url f,
      es_label = None, es_meta_exec = fa_meta_exec f\<rparr>"

definition execute_fork :: "'h env \<Rightarrow> account \<Rightarrow> fork_action \<Rightarrow> ('h, ingress_result) st" where
  "execute_fork E account f =
     bindE (case fa_checkpoint_id f of
              Some i \<Rightarrow>
                bindE (get_owned_checkpoint account i) (\<lambda>ckpt.
                bindE (fork_or_defer E account ckpt (fork_spec f) (ck_recipe_id ckpt) (fa_exclusive f) None)
                  (\<lambda>r. ret (ckpt, r)))
            | None \<Rightarrow>
                (case fa_label f of
                   None \<Rightarrow> raise assertion_error
                 | Some l \<Rightarrow> fork_by_label E account l (fork_spec f) (fa_exclusive f) None None)) (\<lambda>(ckpt, r).
     case r of
       Deferred i \<Rightarrow> ret (IrDeferred i)
     | Forked c \<Rightarrow>
         bindE (run_ephemeral E account c (fork_spec f) (Some ckpt)) (\<lambda>result. ret (IrForked c ckpt result)))"

definition create_spec :: "create_action \<Rightarrow> exec_spec" where
  "create_spec a =
     \<lparr>es_command = ca_exec a, es_self_destruct = ca_self_destruct a, es_callback_url = ca_callback_url a,
      es_label = ca_label a, es_meta_exec = ca_meta_exec a\<rparr>"

definition execute_create :: "'h env \<Rightarrow> account \<Rightarrow> create_action \<Rightarrow> ('h, ingress_result) st" where
  "execute_create E account a =
     bindE (from_result (from_needs (ca_needs a))) (\<lambda>res.
     bindE (create_computer E account (ca_recipe_id a) res None) (\<lambda>c.
     bindE (run_ephemeral E account c (create_spec a) None) (\<lambda>result. ret (IrCreated c result))))"

definition execute_action :: "'h env \<Rightarrow> coercion \<Rightarrow> account \<Rightarrow> (string \<times> json) list \<Rightarrow> ('h, ingress_result) st" where
  "execute_action E V account kvs =
     (if map_of kvs ''action'' = Some (JStr ''fork'')
      then bindE (validated (validate_fork V kvs)) (execute_fork E account)
      else bindE (validated (validate_create V kvs)) (execute_create E account))"

section \<open>The log\<close>

definition log_ingress ::
  "'h env \<Rightarrow> ingress_rule \<Rightarrow> ingress_log_status \<Rightarrow> json option \<Rightarrow> string option \<Rightarrow> string option \<Rightarrow> ('h, ingress_log) st" where
  "log_ingress E rule status result error computer_id =
     bindE (uuid4_hex E) (\<lambda>hex.
     bindE (utcnow E) (\<lambda>now.
     let row = \<lparr>il_id = ''ilog-'' @ take 12 hex, il_rule_internal_id = ir_internal_id rule, il_status = status,
                il_starlark_result = result, il_error_message = error, il_created_at = now,
                il_computer_id = computer_id\<rparr>
     in seqE (suppress (insert_ingress_log row)) (ret row)))"

definition finish_log :: "string \<Rightarrow> ingress_log_status \<Rightarrow> string option \<Rightarrow> string option \<Rightarrow> ('h, unit) st" where
  "finish_log log_id status error computer_id = suppress (update_ingress_log log_id status error computer_id)"

fun result_computer :: "ingress_result \<Rightarrow> string option" where
  "result_computer (IrDeferred _) = None"
| "result_computer (IrForked c _ _) = Some (c_id c)"
| "result_computer (IrCreated c _) = Some (c_id c)"

text \<open>Every exception but the domain errors has no \<open>message\<close>; an empty one falls back to \<open>str(exc)\<close>.\<close>

definition error_text :: "exc \<Rightarrow> string" where
  "error_text e = exc_str e"

definition execute_and_log ::
  "'h env \<Rightarrow> coercion \<Rightarrow> account \<Rightarrow> string \<Rightarrow> (string \<times> json) list \<Rightarrow> ('h, unit) st" where
  "execute_and_log E V account log_id action =
     bindE (catch_exception (bindE (execute_action E V account action) (\<lambda>r. ret (Inr r))) (\<lambda>e. ret (Inl e))) (\<lambda>r.
     case r of
       Inl e \<Rightarrow> finish_log log_id LogFailed (Some (error_text e)) None
     | Inr executed \<Rightarrow> finish_log log_id LogCompleted None (result_computer executed))"

section \<open>The trigger\<close>

record trigger_outcome =
  to_status_code :: int
  to_result :: "ingress_result option"

definition no_action :: trigger_outcome where
  "no_action = \<lparr>to_status_code = 204, to_result = None\<rparr>"

definition run_now :: "'h env \<Rightarrow> coercion \<Rightarrow> ingress_rule \<Rightarrow> account \<Rightarrow> (string \<times> json) list \<Rightarrow> ('h, trigger_outcome) st" where
  "run_now E V rule account action =
     bindE (catch_exception (execute_action E V account action) (\<lambda>e.
              bindE (log_ingress E rule LogFailed (Some (JObj action)) (Some (error_text e)) None) (\<lambda>_. raise e)))
     (\<lambda>executed.
      bindE (log_ingress E rule LogCompleted (Some (JObj action)) None (result_computer executed)) (\<lambda>_.
      ret \<lparr>to_status_code = 200, to_result = Some executed\<rparr>))"

definition run_later :: "'h env \<Rightarrow> ingress_rule \<Rightarrow> account \<Rightarrow> json \<Rightarrow> ('h, trigger_outcome) st" where
  "run_later E rule account action =
     bindE (log_ingress E rule LogAccepted (Some action) None None) (\<lambda>row.
     seqE (spawn (TIngressAction account (il_id row) action) (''ingress:'' @ ir_id rule) None)
          (ret \<lparr>to_status_code = 202, to_result = None\<rparr>))"

definition transform_errors :: "string list \<Rightarrow> json \<Rightarrow> exc" where
  "transform_errors errors result =
     MshknError TransformError ''invalid transform result''
       (Some (JObj [(''errors'', JArr (map JStr errors)), (''starlark_result'', result)]))"

text \<open>\<open>validate_transform_result\<close> accepts dicts only.\<close>

definition run_result :: "'h env \<Rightarrow> coercion \<Rightarrow> ingress_rule \<Rightarrow> json \<Rightarrow> ('h, trigger_outcome) st" where
  "run_result E V rule result =
     bindE (from_result (validate_transform_result V result)) (\<lambda>errors.
     if errors \<noteq> []
     then bindE (log_ingress E rule LogFailed (Some result) (Some (join ''; '' errors)) None) (\<lambda>_.
          raise (transform_errors errors result))
     else bindE (reads (get_account_by_id (ir_account_id rule))) (\<lambda>account.
     case account of
       None \<Rightarrow> raise_domain NotFound (''Ingress rule'' @ [squote] @ ''s account not found'')
     | Some a \<Rightarrow>
         if ir_response_mode rule = ''async'' then run_later E rule a result
         else run_now E V rule a (case result of JObj kvs \<Rightarrow> kvs | _ \<Rightarrow> [])))"

definition run_transform :: "'h env \<Rightarrow> coercion \<Rightarrow> ingress_rule \<Rightarrow> json \<Rightarrow> ('h, trigger_outcome) st" where
  "run_transform E V rule request =
     (case execute_transform (e_lib E) (ir_starlark_source rule) request of
        Inl e \<Rightarrow>
          if is_starlark_error e
          then bindE (log_ingress E rule LogFailed None (Some (exc_str e)) None) (\<lambda>_.
               raise (MshknError TransformError ''starlark failed'' (Some (JStr (''Starlark execution error: '' @ exc_str e)))))
          else raise e
      | Inr result \<Rightarrow>
          if result = JNull then bindE (log_ingress E rule LogCompleted None None None) (\<lambda>_. ret no_action)
          else run_result E V rule result)"

definition trigger :: "'h env \<Rightarrow> coercion \<Rightarrow> rat \<Rightarrow> ingress_rule \<Rightarrow> json \<Rightarrow> ('h, trigger_outcome) ingress" where
  "trigger E V now rule request =
     bindE local (\<lambda>ls.
     let (ok, ls') = allow_request rule now ls
     in seqE (assign (\<lambda>_. ls'))
        (if \<not> ok then raise_domain LimitExceeded ''Rate limit exceeded'' else lifted (run_transform E V rule request)))"

section \<open>What running an action leaves alone\<close>

text \<open>A predicate that survives a create as well, with the template it may build.\<close>

lemma keeps_validated: "keeps I (validated r)"
  unfolding validated_def by (intro keeps_bindE keeps_from_result) (auto intro: keeps_ret keeps_raise split: sum.splits)

locale serving = relayed I for I :: "'h world \<Rightarrow> bool" +
  assumes of_recipes: "I w \<Longrightarrow> I (w_recipes_update f'' w)"
    and of_bare: "I w \<Longrightarrow> I (w\<lparr>w_bare_template := t'\<rparr>)"
begin

lemma template_keeps: "keeps I (template_for E r res)"
proof -
  have "keeps I (update_recipe_template i v m)" "keeps I (cache_bare_template v m)" for i v m
    unfolding update_recipe_template_def cache_bare_template_def
    by (rule keeps_writes, rule of_recipes, assumption) (rule keeps_writes, rule of_bare)
  then show ?thesis
    unfolding template_for_def ensure_template_def Let_def by (intro keeps_intros host_steps)
qed

lemma create_computer_keeps: "keeps I (create_computer E account r res key)"
  unfolding create_computer_def resolve_def
  by (intro keeps_bindE keeps_seqE keeps_if keeps_option keeps_ret keeps_reads keeps_raise_domain timed_step metric_step
      bring_up_keeps template_keeps)

lemma execute_keeps: "keeps I (execute_action E V account kvs)"
proof -
  have "keeps I (get_owned_checkpoint a i)" for a i
    unfolding get_owned_checkpoint_def by (intro keeps_intros)
  moreover have "keeps I (fork_or_defer E account c spec r x key)" for c spec r x key
    unfolding fork_or_defer_def admit_def fork_admitted_def
    by (auto intro!: keeps_bindE keeps_reads keeps_ret keeps_raise_domain keeps_if fork_keeps defer_keeps
        split: option.splits exclusive_mode.splits)
  ultimately have "keeps I (execute_fork E account f)" for f
    unfolding execute_fork_def
    by (auto intro!: keeps_bindE keeps_ret keeps_raise fork_deferring_keeps run_keeps split: option.splits admitted.splits)
  moreover have "keeps I (execute_create E account a)" for a
    unfolding execute_create_def by (intro keeps_bindE keeps_from_result create_computer_keeps run_keeps keeps_ret)
  ultimately show ?thesis unfolding execute_action_def by (intro keeps_if keeps_bindE keeps_validated)
qed

end

definition ilogs_are :: "ingress_log list \<Rightarrow> 'h world \<Rightarrow> bool" where
  "ilogs_are L w \<longleftrightarrow> w_ingress_logs w = L"

interpretation ilogs: serving "ilogs_are L" for L
  by unfold_locales (simp_all add: ilogs_are_def ignores_host_def)

section \<open>The log of a trigger\<close>

text \<open>Exactly one row was added, with this rule, status, result, error and computer. (An id that is
  taken already, 12 hex digits of a UUID, makes the insert fail, which the code ignores.)\<close>

definition log_row ::
  "ingress_rule \<Rightarrow> ingress_log_status \<Rightarrow> json option \<Rightarrow> string option \<Rightarrow> string option \<Rightarrow> ingress_log \<Rightarrow> bool" where
  "log_row rule status result error computer_id row \<longleftrightarrow>
     il_rule_internal_id row = ir_internal_id rule \<and> il_status row = status \<and> il_starlark_result row = result \<and>
     il_error_message row = error \<and> il_computer_id row = computer_id"

definition row_added :: "ingress_log list \<Rightarrow> ingress_log \<Rightarrow> 'h world \<Rightarrow> bool" where
  "row_added L row w \<longleftrightarrow>
     (if list_ex (\<lambda>l. il_id row = il_id l) L then w_ingress_logs w = L else w_ingress_logs w = L @ [row])"

definition one_log ::
  "ingress_log list \<Rightarrow> ingress_rule \<Rightarrow> ingress_log_status \<Rightarrow> json option \<Rightarrow> string option \<Rightarrow> string option \<Rightarrow> 'h world \<Rightarrow> bool" where
  "one_log L rule status result error computer_id w \<longleftrightarrow>
     (\<exists>row. log_row rule status result error computer_id row \<and> row_added L row w)"

lemma log_ingress_wp:
  fixes w :: "'h world"
  assumes "w_ingress_logs w = L"
  shows "wp (log_ingress E rule status result error computer_id)
     (\<lambda>row w'. log_row rule status result error computer_id row \<and> row_added L row w' \<and> w_tasks w' = w_tasks w) R w"
proof -
  obtain x h where x: "os_uuid (h_os (e_host E)) (w_host w) = (x, h)" by fastforce
  obtain n h' where n: "os_now (h_os (e_host E)) h = (n, h')" by fastforce
  show ?thesis
    using assms
    by (simp add: wp_def log_ingress_def bindE_def seqE_def uuid4_hex_def utcnow_def hostop_def x n Let_def suppress_def
        catch_exception_def catchE_def tryE_def insert_ingress_log_def insert_row_def ret_def integrity_error_def
        log_row_def row_added_def)
qed

lemma logged_wp:
  fixes w :: "'h world"
  assumes "w_ingress_logs w = L"
    and "\<And>row w'. log_row rule status result error computer_id row \<Longrightarrow> row_added L row w' \<Longrightarrow> w_tasks w' = w_tasks w \<Longrightarrow>
      wp (f row) Q R w'"
  shows "wp (bindE (log_ingress E rule status result error computer_id) f) Q R w"
  unfolding wp_bindE
  by (rule wp_mono [OF log_ingress_wp [OF assms(1), where R = "\<lambda>_ _. False"]]) (use assms(2) in auto)

lemma execute_logs_wp:
  fixes w :: "'h world"
  shows "w_ingress_logs w = L \<Longrightarrow>
   wp (execute_action E V account kvs) (\<lambda>_ v. w_ingress_logs v = L) (\<lambda>_ v. w_ingress_logs v = L) w"
  by (rule wp_mono [OF keeps_wp [OF ilogs.execute_keeps]]) (simp_all add: ilogs_are_def)

definition answered ::
  "ingress_rule \<Rightarrow> ingress_log list \<Rightarrow> background \<Rightarrow> trigger_outcome \<Rightarrow> 'h world \<Rightarrow> bool" where
  "answered rule L T o' w \<longleftrightarrow>
     (case to_result o' of
        Some r \<Rightarrow> to_status_code o' = 200 \<and> (\<exists>result. one_log L rule LogCompleted (Some result) None (result_computer r) w)
      | None \<Rightarrow>
          to_status_code o' = 204 \<and> one_log L rule LogCompleted None None None w \<or>
          to_status_code o' = 202 \<and>
            (\<exists>row result account. log_row rule LogAccepted (Some result) None None row \<and> row_added L row w \<and>
               w_tasks w = bg_spawn (TIngressAction account (il_id row) result) (''ingress:'' @ ir_id rule) None T))"

definition failure_logged :: "ingress_rule \<Rightarrow> ingress_log list \<Rightarrow> 'h world \<Rightarrow> bool" where
  "failure_logged rule L w \<longleftrightarrow> (\<exists>result error. one_log L rule LogFailed result (Some error) None w)"

definition unlogged :: "'h env \<Rightarrow> coercion \<Rightarrow> ingress_rule \<Rightarrow> json \<Rightarrow> 'h world \<Rightarrow> exc \<Rightarrow> bool" where
  "unlogged E V rule request w e \<longleftrightarrow>
     \<not> is_exception e \<or> get_account_by_id (ir_account_id rule) w = None \<or>
     (\<exists>result. execute_transform (e_lib E) (ir_starlark_source rule) request = Inr result \<and>
        validate_transform_result V result = Inl e)"

lemma run_now_wp:
  fixes w :: "'h world"
  assumes "w_ingress_logs w = L"
  shows "wp (run_now E V rule account action) (answered rule L T)
     (\<lambda>e v. failure_logged rule L v \<or> w_ingress_logs v = L \<and> \<not> is_exception e) w"
proof -
  have ok: "wp (bindE (log_ingress E rule LogCompleted (Some (JObj action)) None (result_computer executed)) (\<lambda>_.
      ret \<lparr>to_status_code = 200, to_result = Some executed\<rparr>)) (answered rule L T) R v"
    if "w_ingress_logs v = L" for executed v R
    by (rule logged_wp [OF that]) (auto simp: wp_ret answered_def one_log_def)
  have bad: "wp (bindE (log_ingress E rule LogFailed (Some (JObj action)) (Some (error_text e)) None) (\<lambda>_. raise e)) Q
      (\<lambda>e v. failure_logged rule L v \<or> w_ingress_logs v = L \<and> \<not> is_exception e) v"
    if "w_ingress_logs v = L" for e v Q
    by (rule logged_wp [OF that]) (auto simp: wp_raise failure_logged_def one_log_def)
  show ?thesis
    unfolding run_now_def wp_bindE [of "catch_exception _ _"] wp_catch_exception
    by (rule wp_mono [OF execute_logs_wp [OF assms]]) (simp_all add: ok bad)
qed

lemma run_result_wp:
  fixes w :: "'h world"
  assumes L: "w_ingress_logs w = L" and x: "execute_transform (e_lib E) (ir_starlark_source rule) request = Inr result"
  shows "wp (run_result E V rule result) (answered rule L (w_tasks w))
     (\<lambda>e v. failure_logged rule L v \<or> w_ingress_logs v = L \<and> unlogged E V rule request w e) w"
proof (cases "validate_transform_result V result")
  case (Inl e)
  then show ?thesis using L x by (auto simp: run_result_def wp_bindE wp_from_result unlogged_def)
next
  case (Inr errors)
  have bad: "wp (bindE (log_ingress E rule LogFailed (Some result) (Some (join ''; '' errors)) None) (\<lambda>_.
      raise (transform_errors errors result))) Q (\<lambda>e v. failure_logged rule L v \<or> w_ingress_logs v = L \<and> unlogged E V rule request w e) w" for Q
    by (rule logged_wp [OF L]) (auto simp: wp_raise failure_logged_def one_log_def)
  have later: "wp (run_later E rule a result) (answered rule L (w_tasks w)) R w" for a R
    unfolding run_later_def
  proof (rule logged_wp [OF L])
    fix row and v :: "'h world"
    assume r: "log_row rule LogAccepted (Some result) None None row" "row_added L row v" "w_tasks v = w_tasks w"
    let ?v = "v\<lparr>w_tasks := bg_spawn (TIngressAction a (il_id row) result) (''ingress:'' @ ir_id rule) None (w_tasks v)\<rparr>"
    have "row_added L row ?v" using r(2) by (simp add: row_added_def)
    then have "\<exists>row result account. log_row rule LogAccepted (Some result) None None row \<and> row_added L row ?v \<and>
        w_tasks ?v = bg_spawn (TIngressAction account (il_id row) result) (''ingress:'' @ ir_id rule) None (w_tasks w)"
      using r(1,3) by (intro exI [of _ row] exI [of _ result] exI [of _ a]) simp
    then show "wp (seqE (spawn (TIngressAction a (il_id row) result) (''ingress:'' @ ir_id rule) None)
        (ret \<lparr>to_status_code = 202, to_result = None\<rparr>)) (answered rule L (w_tasks w)) R v"
      by (simp add: wp_seqE wp_ret spawn_def wp_writes answered_def del: append.simps append_Cons)
  qed
  have now: "wp (run_now E V rule a kvs) (answered rule L (w_tasks w))
      (\<lambda>e v. failure_logged rule L v \<or> w_ingress_logs v = L \<and> unlogged E V rule request w e) w" for a kvs
    by (rule wp_mono [OF run_now_wp [OF L]]) (auto simp: unlogged_def)
  show ?thesis
    unfolding run_result_def wp_bindE [of "from_result _"] wp_from_result Inr sum.case
    using bad later now L
    by (auto simp: wp_bindE wp_reads wp_raise_domain unlogged_def split: option.splits)
qed

lemma run_transform_wp:
  fixes w :: "'h world"
  assumes L: "w_ingress_logs w = L"
    and only: "\<And>e. execute_transform (e_lib E) (ir_starlark_source rule) request = Inl e \<Longrightarrow> is_exception e \<Longrightarrow> is_starlark_error e"
  shows "wp (run_transform E V rule request) (answered rule L (w_tasks w))
     (\<lambda>e v. failure_logged rule L v \<or> w_ingress_logs v = L \<and> unlogged E V rule request w e) w"
proof (cases "execute_transform (e_lib E) (ir_starlark_source rule) request")
  case (Inl e)
  have "wp (bindE (log_ingress E rule LogFailed None (Some (exc_str e)) None) (\<lambda>_. raise x)) Q
      (\<lambda>e v. failure_logged rule L v \<or> w_ingress_logs v = L \<and> unlogged E V rule request w e) w" for x Q
    by (rule logged_wp [OF L]) (auto simp: wp_raise failure_logged_def one_log_def)
  then show ?thesis using L only [OF Inl] by (auto simp: run_transform_def Inl wp_raise unlogged_def)
next
  case (Inr result)
  have "wp (bindE (log_ingress E rule LogCompleted None None None) (\<lambda>_. ret no_action)) (answered rule L (w_tasks w)) R w" for R
    by (rule logged_wp [OF L]) (auto simp: wp_ret answered_def one_log_def no_action_def)
  then show ?thesis using run_result_wp [OF L Inr] by (simp add: run_transform_def Inr)
qed

lemma transform_errors_only:
  "execute_transform L source request = Inl e \<Longrightarrow> is_exception e \<Longrightarrow> is_starlark_error e"
  by (auto simp: execute_transform_def starlark_error_def is_starlark_error_def split: sum.splits if_splits)


section \<open>An accepted action\<close>

text \<open>The rows of the log with one brought to its final status.\<close>

definition finished :: "ingress_log list \<Rightarrow> string \<Rightarrow> 'h world \<Rightarrow> bool" where
  "finished L i w \<longleftrightarrow>
     (\<exists>status error computer_id.
       (status = LogCompleted \<and> error = None \<or> status = LogFailed \<and> error \<noteq> None \<and> computer_id = None) \<and>
       w_ingress_logs w = update_where (\<lambda>l. il_id l = i)
         (\<lambda>l. l\<lparr>il_status := status, il_error_message := error, il_computer_id := computer_id\<rparr>) L)"

text \<open>C17: the task of an accepted action brings its row, and no other, to completed with the computer it
  ran on or to failed with the error, whatever the machine does; and raises nothing but an
  interruption, which leaves the row accepted.\<close>

theorem accepted_action_finishes:
  "case outcome (execute_and_log E V account i action) w of
     Inr _ \<Rightarrow> finished (w_ingress_logs w) i (run_state (execute_and_log E V account i action) w)
   | Inl e \<Rightarrow> \<not> is_exception e \<and>
       w_ingress_logs (run_state (execute_and_log E V account i action) w) = w_ingress_logs w"
proof -
  have finish: "wp (finish_log i status error computer_id) (\<lambda>_. finished (w_ingress_logs w) i) R v"
    if "w_ingress_logs v = w_ingress_logs w"
      "status = LogCompleted \<and> error = None \<or> status = LogFailed \<and> error \<noteq> None \<and> computer_id = None"
    for status error computer_id v R
    unfolding finish_log_def update_ingress_log_def wp_suppress wp_writes finished_def
    by (intro exI [of _ status] exI [of _ error] exI [of _ computer_id] conjI, rule that(2)) (simp add: that(1))
  have "wp (execute_and_log E V account i action) (\<lambda>_. finished (w_ingress_logs w) i)
      (\<lambda>e v. \<not> is_exception e \<and> w_ingress_logs v = w_ingress_logs w) w"
    unfolding execute_and_log_def wp_bindE wp_catch_exception
    by (rule wp_mono [OF execute_logs_wp [OF refl]]) (simp_all add: wp_ret finish)
  then show ?thesis unfolding wp_outcome .
qed

section \<open>Validation\<close>

lemma read_fields_value:
  assumes "read_fields V kvs fds = Inr ([], vs)" and "fd \<in> set fds" and "distinct (map mf_name fds)"
  shows "\<exists>v. map_of vs (mf_name fd) = Some v \<and> (case map_of kvs (mf_name fd) of
      None \<Rightarrow> mf_default fd = Some v | Some j \<Rightarrow> V (mf_type fd) j = Inr v \<and> mf_validator fd v = Inr None)"
  using assms
proof (induction fds arbitrary: vs)
  case (Cons f fds)
  obtain r es ws where r: "read_field V kvs f = Inr r" "read_fields V kvs fds = Inr (es, ws)"
    using Cons.prems(1) by (auto simp: bind_sum_def split: sum.splits)
  have "r \<noteq> Inl []" using r(1) by (auto simp: read_field_def split: option.splits sum.splits)
  then obtain v where v: "r = Inr v" "es = []" "vs = (mf_name f, v) # ws"
    using Cons.prems(1) r by (auto simp: bind_sum_def split: sum.splits)
  show ?case
  proof (cases "fd = f")
    case True
    have "case map_of kvs (mf_name f) of
      None \<Rightarrow> mf_default f = Some v | Some j \<Rightarrow> V (mf_type f) j = Inr v \<and> mf_validator f v = Inr None"
      using r(1) v(1) by (auto simp: read_field_def split: option.splits sum.splits)
    then show ?thesis unfolding True v(3) by simp
  next
    case False
    then have m: "fd \<in> set fds" "mf_name fd \<noteq> mf_name f" using Cons.prems(2,3) by (auto simp: image_iff)
    have "read_fields V kvs fds = Inr ([], ws)" using r(2) v(2) by simp
    from Cons.IH [OF this m(1)] Cons.prems(3) show ?thesis using m(2) by (simp add: v(3))
  qed
qed simp

lemma validate_model_Inr:
  "validate_model V fds build_model after kvs = Inr (Inr m) \<Longrightarrow>
   \<exists>vs. read_fields V kvs fds = Inr ([], vs) \<and> extra_errors fds kvs = [] \<and> m = build_model vs \<and> after m = []"
  by (auto simp: validate_model_def bind_sum_def Let_def split: sum.splits if_splits)

lemma created_needs:
  assumes "validate_create V kvs = Inr (Inr a)"
  shows "\<exists>res. from_needs (ca_needs a) = Inr res"
proof -
  let ?fd = "(plain_field ''needs'' (AOptional ADict) (Some JNull))\<lparr>mf_validator := check_needs\<rparr>"
  obtain vs where vs: "read_fields V kvs create_fields = Inr ([], vs)" "a = create_of vs"
    using validate_model_Inr [OF assms [unfolded validate_create_def]] by blast
  have "?fd \<in> set create_fields" "distinct (map mf_name create_fields)"
    by (simp_all add: create_fields_def plain_field_def optional_str_def)
  from read_fields_value [OF vs(1) this] obtain v where v: "map_of vs ''needs'' = Some v"
    "case map_of kvs ''needs'' of None \<Rightarrow> v = JNull | Some j \<Rightarrow> check_needs v = Inr None"
    by (auto simp: plain_field_def split: option.splits)
  have n: "ca_needs a = dict_of_json v" by (simp add: vs(2) create_of_def value_of_def v(1))
  show ?thesis
  proof (cases "map_of kvs ''needs''")
    case None
    then show ?thesis using v(2) n by (simp add: from_needs_def)
  next
    case (Some j)
    then have "check_needs v = Inr None" using v(2) by simp
    then show ?thesis unfolding n by (auto simp: check_needs_def split: sum.splits if_splits)
  qed
qed

lemma validate_model_refused: "validate_model V fds build_model after kvs = Inr (Inl es) \<Longrightarrow> es \<noteq> []"
  by (auto simp: validate_model_def bind_sum_def Let_def split: sum.splits if_splits)

lemma fork_refused: "validate_fork V kvs = Inr (Inl es) \<Longrightarrow> es \<noteq> []"
  unfolding validate_fork_def by (rule validate_model_refused)

lemma create_refused: "validate_create V kvs = Inr (Inl es) \<Longrightarrow> es \<noteq> []"
  unfolding validate_create_def by (rule validate_model_refused)

lemma fork_targets: "validate_fork V kvs = Inr (Inr f) \<Longrightarrow> fa_checkpoint_id f \<noteq> None \<or> fa_label f \<noteq> None"
  using validate_model_Inr [of V fork_fields fork_of fork_target kvs f]
  by (auto simp: validate_fork_def fork_target_def split: if_splits)

definition runnable :: "coercion \<Rightarrow> (string \<times> json) list \<Rightarrow> bool" where
  "runnable V kvs \<longleftrightarrow>
     (\<exists>f. map_of kvs ''action'' = Some (JStr ''fork'') \<and> validate_fork V kvs = Inr (Inr f) \<and>
        (fa_checkpoint_id f \<noteq> None \<or> fa_label f \<noteq> None)) \<or>
     (\<exists>a res. map_of kvs ''action'' = Some (JStr ''create'') \<and> validate_create V kvs = Inr (Inr a) \<and>
        from_needs (ca_needs a) = Inr res)"

definition no_errors :: "exc + string list \<Rightarrow> bool" where
  "no_errors r \<longleftrightarrow> r = Inr []"

text \<open>C18: what the validation of a transform's result accepts is what the trigger can run, whatever
  Pydantic makes of the values: nothing, or a fork with a checkpoint or a label, or a create whose \<open>needs\<close>
  are within the bounds; running it raises no validation error. So the dry run reports every
  result the trigger would refuse as invalid.\<close>

theorem validated_actions_run:
  "no_errors (validate_transform_result V result) \<longleftrightarrow>
     (case result of JNull \<Rightarrow> True | JObj kvs \<Rightarrow> runnable V kvs | _ \<Rightarrow> False)"
proof -
  have "no_errors (validate_action V kvs) \<longleftrightarrow> runnable V kvs" for kvs
  proof -
    have "no_errors (bind_sum (validate_fork V kvs) (\<lambda>r. Inr (error_list r))) \<longleftrightarrow> (\<exists>f. validate_fork V kvs = Inr (Inr f))"
      using fork_refused [of V kvs] by (auto simp: no_errors_def bind_sum_def error_list_def split: sum.splits)
    moreover have "no_errors (bind_sum (validate_create V kvs) (\<lambda>r. Inr (error_list r))) \<longleftrightarrow> (\<exists>a. validate_create V kvs = Inr (Inr a))"
      using create_refused [of V kvs] by (auto simp: no_errors_def bind_sum_def error_list_def split: sum.splits)
    ultimately show ?thesis
      using fork_targets [of V kvs] created_needs [of V kvs] by (auto simp: validate_action_def runnable_def no_errors_def)
  qed
  then show ?thesis by (simp add: validate_transform_result_def no_errors_def split: json.splits)
qed

section \<open>The limit of a rule\<close>

text \<open>A history of triggers, each with the rule as its row then was and the clock's reading.\<close>

fun allow_all :: "(ingress_rule \<times> rat) list \<Rightarrow> limiters \<Rightarrow> bool list \<times> limiters" where
  "allow_all [] ls = ([], ls)"
| "allow_all ((r, t) # rest) ls =
     (let (b, ls') = allow_request r t ls; (bs, ls'') = allow_all rest ls' in (b # bs, ls''))"

definition rule_times :: "string \<Rightarrow> (ingress_rule \<times> rat) list \<Rightarrow> bool list \<Rightarrow> rat list" where
  "rule_times i h bs =
     List.map_filter (\<lambda>((r, t), b). if b \<and> ir_internal_id r = i then Some t else None) (zip h bs)"

definition same_rate :: "string \<Rightarrow> int \<Rightarrow> (ingress_rule \<times> rat) list \<Rightarrow> bool" where
  "same_rate i m h \<longleftrightarrow> list_all (\<lambda>(r, t). ir_internal_id r = i \<longrightarrow> ir_rate_limit_rpm r = m) h"

definition rule_checks :: "string \<Rightarrow> (ingress_rule \<times> rat) list \<Rightarrow> (string \<times> rat) list" where
  "rule_checks i h = map (\<lambda>(r, t). (i, t)) (filter (\<lambda>(r, t). ir_internal_id r = i) h)"

definition limiter_of :: "int \<Rightarrow> string \<Rightarrow> limiters \<Rightarrow> rate_limiter" where
  "limiter_of m i ls = (case map_of ls i of None \<Rightarrow> new_limiter m 60 | Some l \<Rightarrow> l)"

lemma allow_request_own:
  assumes "ir_internal_id r = i" and "ir_rate_limit_rpm r = m" and "rl_max_requests (limiter_of m i ls) = m"
  shows "fst (allow_request r t ls) = fst (check_rate i t (limiter_of m i ls))"
    and "limiter_of m i (snd (allow_request r t ls)) = snd (check_rate i t (limiter_of m i ls))"
  using assms by (auto simp: allow_request_def limiter_for_def limiter_of_def case_prod_beta Let_def split: option.splits)

lemma allow_request_other:
  "ir_internal_id r \<noteq> i \<Longrightarrow> limiter_of m i (snd (allow_request r t ls)) = limiter_of m i ls"
  by (auto simp: allow_request_def limiter_for_def limiter_of_def case_prod_beta Let_def split: option.splits)

lemma rule_times_checks:
  "same_rate i m h \<Longrightarrow> rl_max_requests (limiter_of m i ls) = m \<Longrightarrow>
   rule_times i h (fst (allow_all h ls)) =
     allowed_times i (rule_checks i h) (fst (checks (rule_checks i h) (limiter_of m i ls)))"
proof (induction h arbitrary: ls)
  case (Cons p h)
  obtain r t where p: "p = (r, t)" by (cases p)
  have rest: "same_rate i m h" using Cons.prems(1) by (simp add: same_rate_def)
  show ?case
  proof (cases "ir_internal_id r = i")
    case True
    have m: "ir_rate_limit_rpm r = m" using Cons.prems(1) True by (simp add: same_rate_def p)
    note own = allow_request_own [OF True m Cons.prems(2), of t]
    have "rl_max_requests (limiter_of m i (snd (allow_request r t ls))) = m" using Cons.prems(2) by (simp add: own(2))
    from Cons.IH [OF rest this] show ?thesis
      using True own
      by (auto simp: p rule_times_def rule_checks_def allowed_times_Cons map_filter_simps case_prod_beta Let_def)
  next
    case False
    have "rl_max_requests (limiter_of m i (snd (allow_request r t ls))) = m"
      using Cons.prems(2) by (simp add: allow_request_other [OF False])
    from Cons.IH [OF rest this] show ?thesis
      using False by (simp add: p rule_times_def rule_checks_def map_filter_simps case_prod_beta Let_def allow_request_other)
  qed
qed (simp add: rule_times_def rule_checks_def allowed_times_def map_filter_simps)

text \<open>C19: in any minute a rule takes at most its number of requests, whatever the other rules take and
  however often its public id is rotated between them.\<close>

theorem rule_rate_window:
  assumes "sorted (map snd h)" and "same_rate i m h"
  shows "int (length (in_window 60 now (rule_times i h (fst (allow_all h []))))) \<le> max m 0"
proof -
  have "limiter_of m i [] = new_limiter m 60" by (simp add: limiter_of_def)
  moreover have "rl_max_requests (new_limiter m 60) = m" by (simp add: new_limiter_def)
  moreover have "sorted (map snd (rule_checks i h))"
    using sorted_filter [OF assms(1), of "\<lambda>(r, t). ir_internal_id r = i"]
    by (simp add: rule_checks_def comp_def case_prod_beta)
  ultimately show ?thesis
    using rule_times_checks [OF assms(2), of "[]"] rate_limit_window [of "rule_checks i h" 60 now i m] by simp
qed

definition demo_rule :: ingress_rule where
  "demo_rule = new_rule ''u-1'' ''t-1'' demo_account
     \<lparr>rr_name = ''hook'', rr_starlark_source = ''s'', rr_response_mode = ''sync'', rr_max_body_bytes = 1024,
      rr_rate_limit_rpm = 2\<rparr> ''0''"

lemma rule_rate_window_witness:
  "let h = [(demo_rule, 0), (demo_rule\<lparr>ir_id := ''ir_2''\<rparr>, 1), (demo_rule\<lparr>ir_id := ''ir_3''\<rparr>, 2)]
   in rule_times ''u-1'' h (fst (allow_all h [])) = [0, 1] \<and>
      int (length (in_window 60 3 (rule_times ''u-1'' h (fst (allow_all h []))))) \<le> 2"
proof -
  let ?h = "[(demo_rule, 0), (demo_rule\<lparr>ir_id := ''ir_2''\<rparr>, 1), (demo_rule\<lparr>ir_id := ''ir_3''\<rparr>, 2)] :: (ingress_rule \<times> rat) list"
  have "sorted (map snd ?h)" "same_rate ''u-1'' 2 ?h" by (simp_all add: same_rate_def demo_rule_def new_rule_def)
  from rule_rate_window [OF this, of 3] have "int (length (in_window 60 3 (rule_times ''u-1'' ?h (fst (allow_all ?h []))))) \<le> 2"
    by simp
  moreover have "rule_times ''u-1'' ?h (fst (allow_all ?h [])) = [0, 1]" by code_simp
  ultimately show ?thesis unfolding Let_def by blast
qed

end
