(* ===== verification/Schemas.thy ===== *)
theory Schemas
  imports Ingress
begin

text \<open>
  The request and response models of the HTTP layer (src/src/mshkn/api/schemas.py and the small
  constructors of the routers): a request body that passed its model is a record, a response is the
  JSON of its model. CPU percentages, which are floats, are left out of the status response.
\<close>

section \<open>Request bodies\<close>

record create_body =
  cb_recipe_id :: "string option"
  cb_needs :: "(string \<times> json) list option"
  cb_exec :: "string option"
  cb_self_destruct :: bool
  cb_callback_url :: "string option"
  cb_label :: "string option"
  cb_meta_exec :: "string option"

record exec_body =
  xb_command :: string
  xb_timeout_seconds :: int

record checkpoint_body =
  kb_label :: "string option"
  kb_pin :: bool

record fork_body =
  fb_recipe_id :: "string option"
  fb_exec :: "string option"
  fb_self_destruct :: bool
  fb_callback_url :: "string option"
  fb_exclusive :: "exclusive_mode option"
  fb_meta_exec :: "string option"

definition empty_fork :: fork_body where
  "empty_fork = \<lparr>fb_recipe_id = None, fb_exec = None, fb_self_destruct = False, fb_callback_url = None,
                 fb_exclusive = None, fb_meta_exec = None\<rparr>"

record relay_body =
  rb_target :: string
  rb_method :: string
  rb_forward_headers :: "(string \<times> string) list"
  rb_body :: json
  rb_retry :: retry_policy
  rb_timeout_seconds :: "int option"
  rb_deliver :: "relay_delivery option"

text \<open>The bounds the models put on their numbers and texts.\<close>

definition exec_body_ok :: "exec_body \<Rightarrow> bool" where
  "exec_body_ok b \<longleftrightarrow> 1 \<le> xb_timeout_seconds b \<and> xb_timeout_seconds b \<le> 600"

definition retry_ok :: "retry_policy \<Rightarrow> bool" where
  "retry_ok r \<longleftrightarrow> 1 \<le> rp_attempts r \<and> rp_attempts r \<le> 10 \<and> 100 \<le> rp_initial_delay_ms r \<and> 1 \<le> rp_max_delay_ms r"

definition relay_methods :: "string list" where
  "relay_methods = [''GET'', ''POST'', ''PUT'', ''PATCH'', ''DELETE'', ''HEAD'']"

definition at_least_one :: "int option \<Rightarrow> bool" where
  "at_least_one n = (case n of None \<Rightarrow> True | Some k \<Rightarrow> 1 \<le> k)"

definition delivery_ok :: "relay_delivery option \<Rightarrow> bool" where
  "delivery_ok d = (case d of None \<Rightarrow> True | Some d \<Rightarrow> rd_label d \<noteq> [] \<and> rd_exec d \<noteq> [])"

definition relay_body_ok :: "relay_body \<Rightarrow> bool" where
  "relay_body_ok b \<longleftrightarrow>
     rb_target b \<noteq> [] \<and> rb_method b \<in> set relay_methods \<and> retry_ok (rb_retry b) \<and>
     at_least_one (rb_timeout_seconds b) \<and> delivery_ok (rb_deliver b)"

definition rule_request_ok :: "rule_request \<Rightarrow> bool" where
  "rule_request_ok r \<longleftrightarrow>
     rr_name r \<noteq> [] \<and> length (rr_name r) \<le> 255 \<and> rr_starlark_source r \<noteq> [] \<and>
     rr_response_mode r \<in> {''async'', ''sync''} \<and> 1024 \<le> rr_max_body_bytes r \<and> rr_max_body_bytes r \<le> 104857600 \<and>
     1 \<le> rr_rate_limit_rpm r \<and> rr_rate_limit_rpm r \<le> 10000"

definition opt_ok :: "('a \<Rightarrow> bool) \<Rightarrow> 'a option \<Rightarrow> bool" where
  "opt_ok P v = (case v of None \<Rightarrow> True | Some a \<Rightarrow> P a)"

definition rule_update_ok :: "rule_update \<Rightarrow> bool" where
  "rule_update_ok u \<longleftrightarrow>
     opt_ok (\<lambda>n. n \<noteq> [] \<and> length n \<le> 255) (ru_name u) \<and> opt_ok (\<lambda>s. s \<noteq> []) (ru_starlark_source u) \<and>
     opt_ok (\<lambda>m. m \<in> {''async'', ''sync''}) (ru_response_mode u) \<and>
     opt_ok (\<lambda>n. 1024 \<le> n \<and> n \<le> 104857600) (ru_max_body_bytes u) \<and>
     opt_ok (\<lambda>n. 1 \<le> n \<and> n \<le> 10000) (ru_rate_limit_rpm u)"

section \<open>Responses\<close>

definition json_int_opt :: "int option \<Rightarrow> json" where
  "json_int_opt n = (case n of None \<Rightarrow> JNull | Some i \<Rightarrow> JInt i)"

definition json_map :: "(string \<times> string) list \<Rightarrow> json" where
  "json_map kvs = JObj (map (\<lambda>(k, v). (k, JStr v)) kvs)"

definition computer_url :: "string \<Rightarrow> string \<Rightarrow> string" where
  "computer_url computer_id domain = ''https://'' @ computer_id @ ''.'' @ domain"

definition run_fields :: "ephemeral_result \<Rightarrow> (string \<times> json) list" where
  "run_fields r =
     [(''exec_exit_code'', json_int_opt (er_exec_exit_code r)), (''exec_exit_signal'', json_opt (er_exec_exit_signal r)),
      (''exec_stdout'', json_opt (er_exec_stdout r)), (''exec_stderr'', json_opt (er_exec_stderr r)),
      (''created_checkpoint_id'', json_opt (er_created_checkpoint_id r))]"

definition create_response :: "computer \<Rightarrow> ephemeral_result \<Rightarrow> string \<Rightarrow> json" where
  "create_response c r domain =
     JObj ([(''computer_id'', JStr (c_id c)), (''url'', JStr (computer_url (c_id c) domain)),
            (''recipe_id'', json_opt (c_recipe_id c))] @ run_fields r)"

definition fork_response :: "computer \<Rightarrow> string \<Rightarrow> ephemeral_result \<Rightarrow> json" where
  "fork_response c checkpoint_id r =
     JObj ([(''computer_id'', JStr (c_id c)), (''checkpoint_id'', JStr checkpoint_id)] @ run_fields r)"

definition deferred_response :: "string \<Rightarrow> json" where
  "deferred_response deferred_id = JObj [(''deferred_id'', JStr deferred_id), (''status'', JStr ''queued'')]"

definition exec_log_response :: "exec_log \<Rightarrow> json" where
  "exec_log_response l =
     JObj [(''computer_id'', JStr (el_computer_id l)), (''source_checkpoint_id'', json_opt (el_source_checkpoint_id l)),
           (''created_checkpoint_id'', json_opt (el_created_checkpoint_id l)), (''label'', json_opt (el_label l)),
           (''command'', JStr (el_command l)), (''exit_code'', JInt (el_exit_code l)),
           (''exit_signal'', json_opt (el_exit_signal l)), (''stdout'', JStr (el_stdout l)),
           (''stderr'', JStr (el_stderr l)), (''stdout_truncated'', JBool (el_stdout_truncated l)),
           (''stderr_truncated'', JBool (el_stderr_truncated l)), (''created_at'', JStr (el_created_at l))]"

definition metrics_fields :: "vm_metrics option \<Rightarrow> (string \<times> json) list" where
  "metrics_fields m =
     (let field = (\<lambda>f. case m of None \<Rightarrow> JNull | Some v \<Rightarrow> f v)
      in [(''ram_usage_mb'', field (\<lambda>v. JInt (m_ram_usage_mb v))), (''ram_total_mb'', field (\<lambda>v. JInt (m_ram_total_mb v))),
          (''disk_usage_mb'', field (\<lambda>v. JInt (m_disk_usage_mb v))), (''disk_total_mb'', field (\<lambda>v. JInt (m_disk_total_mb v))),
          (''processes'', field (\<lambda>v. JArr (m_processes v)))])"

definition status_response :: "computer \<Rightarrow> string \<Rightarrow> vm_metrics option \<Rightarrow> json" where
  "status_response c domain m =
     JObj ([(''computer_id'', JStr (c_id c)), (''status'', JStr (computer_status_text (c_status c))),
            (''url'', JStr (computer_url (c_id c) domain)), (''vm_ip'', JStr (c_vm_ip c)),
            (''recipe_id'', json_opt (c_recipe_id c)), (''created_at'', JStr (c_created_at c)),
            (''last_exec_at'', json_opt (c_last_exec_at c))] @ metrics_fields m)"

definition checkpoint_summary :: "checkpoint \<Rightarrow> json" where
  "checkpoint_summary c =
     JObj [(''id'', JStr (ck_id c)), (''checkpoint_id'', JStr (ck_id c)), (''parent_id'', json_opt (ck_parent_id c)),
           (''computer_id'', json_opt (ck_computer_id c)), (''recipe_id'', json_opt (ck_recipe_id c)),
           (''r2_prefix'', JStr (ck_r2_prefix c)), (''disk_delta_size_bytes'', json_int_opt (ck_disk_delta_size_bytes c)),
           (''memory_size_bytes'', json_int_opt (ck_memory_size_bytes c)), (''label'', json_opt (ck_label c)),
           (''pinned'', JBool (ck_pinned c)), (''created_at'', JStr (ck_created_at c))]"

definition merge_response :: "merge_outcome \<Rightarrow> json" where
  "merge_response m =
     JObj [(''checkpoint_id'', JStr (ck_id (mo_checkpoint m))),
           (''conflicts'', JArr (map (\<lambda>p. JObj [(''path'', JStr (join ''/'' p)), (''resolution'', JStr ''fork_a'')]) (mo_conflicts m))),
           (''auto_merged'', JInt (mo_auto_merged m)), (''unchanged'', JInt (mo_unchanged m))]"

definition recipe_response :: "recipe \<Rightarrow> json" where
  "recipe_response r =
     JObj [(''recipe_id'', JStr (r_id r)), (''status'', JStr (recipe_status_text (r_status r))),
           (''content_hash'', JStr (r_content_hash r)), (''build_log'', json_opt (r_build_log r)),
           (''base_volume_id'', json_int_opt (r_base_volume_id r)), (''created_at'', JStr (r_created_at r)),
           (''built_at'', json_opt (r_built_at r))]"

definition rule_fields :: "ingress_rule \<Rightarrow> string \<Rightarrow> (string \<times> json) list" where
  "rule_fields r domain =
     [(''id'', JStr (ir_id r)), (''name'', JStr (ir_name r)),
      (''ingress_url'', JStr (''https://'' @ domain @ ''/ingress/'' @ ir_id r)), (''response_mode'', JStr (ir_response_mode r)),
      (''max_body_bytes'', JInt (ir_max_body_bytes r)), (''rate_limit_rpm'', JInt (ir_rate_limit_rpm r)),
      (''enabled'', JBool (ir_enabled r)), (''created_at'', JStr (ir_created_at r)), (''updated_at'', JStr (ir_updated_at r))]"

definition rule_response :: "ingress_rule \<Rightarrow> string \<Rightarrow> json" where
  "rule_response r domain = JObj (rule_fields r domain)"

definition rule_detail :: "ingress_rule \<Rightarrow> string \<Rightarrow> json" where
  "rule_detail r domain = JObj (rule_fields r domain @ [(''starlark_source'', JStr (ir_starlark_source r))])"

fun log_status_text :: "ingress_log_status \<Rightarrow> string" where
  "log_status_text LogAccepted = ''accepted''"
| "log_status_text LogCompleted = ''completed''"
| "log_status_text LogFailed = ''failed''"

text \<open>The field \<open>starlark_result\<close> of a response is a dict or None: building a response from any other
  value raises Pydantic's ValidationError.\<close>

fun is_dict :: "json \<Rightarrow> bool" where
  "is_dict (JObj _) = True"
| "is_dict JNull = True"
| "is_dict _ = False"

definition not_a_dict :: exc where
  "not_a_dict = PyError ''ValidationError'' ''starlark_result: Input should be a valid dictionary''"

definition dict_field :: "json option \<Rightarrow> exc + json" where
  "dict_field v = (case v of None \<Rightarrow> Inr JNull | Some j \<Rightarrow> if is_dict j then Inr j else Inl not_a_dict)"

definition ingress_log_response :: "ingress_log \<Rightarrow> exc + json" where
  "ingress_log_response l =
     bind_sum (dict_field (il_starlark_result l)) (\<lambda>result.
     Inr (JObj [(''id'', JStr (il_id l)), (''status'', JStr (log_status_text (il_status l))),
                (''starlark_result'', result),
                (''error_message'', json_opt (il_error_message l)), (''created_at'', JStr (il_created_at l)),
                (''computer_id'', json_opt (il_computer_id l))]))"

fun each_response :: "('a \<Rightarrow> exc + json) \<Rightarrow> 'a list \<Rightarrow> exc + json list" where
  "each_response f [] = Inr []"
| "each_response f (a # as) = bind_sum (f a) (\<lambda>j. bind_sum (each_response f as) (\<lambda>js. Inr (j # js)))"

lemma each_response_fails:
  assumes "a \<in> set as" "f a = Inl e" "\<And>b e'. f b = Inl e' \<Longrightarrow> e' = e"
  shows "each_response f as = Inl e"
  using assms(1)
proof (induction as)
  case (Cons b bs)
  show ?case
  proof (cases "f b")
    case (Inl e') with assms(3) show ?thesis by (simp add: bind_sum_def)
  next
    case (Inr j)
    then have "a \<in> set bs" using Cons.prems assms(2) by auto
    from Cons.IH [OF this] Inr show ?thesis by (simp add: bind_sum_def)
  qed
qed simp

definition key_fields :: "api_key \<Rightarrow> (string \<times> json) list" where
  "key_fields k =
     [(''id'', JStr (k_id k)), (''label'', json_opt (k_label k)), (''scopes'', scopes_to_document (k_scopes k)),
      (''created_at'', JStr (k_created_at k))]"

definition key_response :: "api_key \<Rightarrow> json" where
  "key_response k = JObj (key_fields k)"

definition key_created_response :: "api_key \<Rightarrow> json" where
  "key_created_response k = JObj (key_fields k @ [(''secret'', JStr (k_secret k))])"

fun relay_status_text :: "relay_status \<Rightarrow> string" where
  "relay_status_text RelayQueued = ''queued''"
| "relay_status_text RelayInProgress = ''in_progress''"
| "relay_status_text RelayCompleted = ''completed''"
| "relay_status_text RelayFailed = ''failed''"

fun delivery_status_text :: "delivery_status option \<Rightarrow> string" where
  "delivery_status_text (Some DeliveryPending) = ''pending''"
| "delivery_status_text (Some DeliveryDelivered) = ''delivered''"
| "delivery_status_text (Some DeliveryFailed) = ''failed''"
| "delivery_status_text None = ''None''"

definition relay_job_response :: "relay_job \<Rightarrow> json" where
  "relay_job_response j =
     (let response = (case rj_response_status j of
                        None \<Rightarrow> JNull
                      | Some s \<Rightarrow> JObj [(''status'', JInt s),
                                       (''headers'', json_map (case rj_response_headers j of None \<Rightarrow> [] | Some h \<Rightarrow> h)),
                                       (''body'', rj_response_body j)]);
          delivery = (case rj_deliver j of
                        None \<Rightarrow> JNull
                      | Some d \<Rightarrow> JObj [(''label'', JStr (rd_label d)), (''exec'', JStr (rd_exec d)),
                                       (''status'', JStr (delivery_status_text (rj_delivery_status j))),
                                       (''attempts'', JInt (rj_delivery_attempts j)),
                                       (''computer_id'', json_opt (rj_delivery_computer_id j)),
                                       (''deferred_id'', json_opt (rj_delivery_deferred_id j)),
                                       (''error'', json_opt (rj_delivery_error j))])
      in JObj [(''job_id'', JStr (rj_id j)), (''status'', JStr (relay_status_text (rj_status j))),
               (''target'', JStr (rj_target j)), (''method'', JStr (rj_method j)), (''created_at'', JStr (rj_created_at j)),
               (''updated_at'', JStr (rj_updated_at j)), (''attempts'', JInt (rj_attempts j)),
               (''error'', json_opt (rj_error j)), (''response'', response), (''delivery'', delivery)])"

end
