(* ===== verification/Keys.thy ===== *)
theory Keys
  imports Computers
begin

text \<open>
  src/src/mshkn/services/keys.py: the scoped keys of an account, and the credential check of
  src/src/mshkn/api/deps.py that turns a bearer token into a principal.
\<close>

definition new_key :: "string \<Rightarrow> account \<Rightarrow> string \<Rightarrow> scopes \<Rightarrow> string option \<Rightarrow> string \<Rightarrow> api_key" where
  "new_key hex account token scopes label now =
     \<lparr>k_id = ''key-'' @ take 12 hex, k_account_id = a_id account, k_secret = ''mk-'' @ token, k_scopes = scopes,
      k_label = label, k_created_at = now\<rparr>"

definition create_key :: "'h env \<Rightarrow> account \<Rightarrow> scopes \<Rightarrow> string option \<Rightarrow> ('h, api_key) st" where
  "create_key E account scopes label =
     bindE (uuid4_hex E) (\<lambda>hex.
     bindE (token_urlsafe E 32) (\<lambda>token.
     bindE (utcnow E) (\<lambda>now.
     let key = new_key hex account token scopes label now in
     seqE (insert_api_key key) (ret key))))"

definition list_keys :: "account \<Rightarrow> ('h, api_key list) st" where
  "list_keys account = reads (list_api_keys_by_account (a_id account))"

definition delete_key :: "account \<Rightarrow> string \<Rightarrow> ('h, unit) st" where
  "delete_key account i =
     bindE (reads (get_api_key i)) (\<lambda>key.
     case key of
       None \<Rightarrow> raise_domain NotFound ''Key not found''
     | Some k \<Rightarrow> if k_account_id k \<noteq> a_id account then raise_domain NotFound ''Key not found''
                 else delete_api_key i)"


section \<open>Authentication\<close>

text \<open>The value of the Authorization header, if there is one. HTTPException is FastAPI's.\<close>

definition unauthorized :: "string \<Rightarrow> exc" where
  "unauthorized detail = PyError ''HTTPException'' (''401: '' @ detail)"

definition bearer :: "string option \<Rightarrow> string option" where
  "bearer header =
     (let auth = (case header of None \<Rightarrow> [] | Some a \<Rightarrow> a)
      in if prefix ''Bearer '' auth then Some (drop 7 auth) else None)"

definition require_principal :: "string option \<Rightarrow> ('h, principal) st" where
  "require_principal header =
     (case bearer header of
        None \<Rightarrow> raise (unauthorized ''Missing or invalid Authorization header'')
      | Some secret \<Rightarrow>
          bindE (reads (get_account_by_key secret)) (\<lambda>account.
          case account of
            Some a \<Rightarrow> ret \<lparr>p_account = a, p_key = None\<rparr>
          | None \<Rightarrow>
              bindE (reads (get_api_key_by_secret secret)) (\<lambda>key.
              case key of
                None \<Rightarrow> raise (unauthorized ''Invalid API key'')
              | Some k \<Rightarrow>
                  bindE (reads (get_account_by_id (k_account_id k))) (\<lambda>owner.
                  case owner of
                    None \<Rightarrow> raise (unauthorized ''Invalid API key'')
                  | Some a \<Rightarrow> ret \<lparr>p_account = a, p_key = Some k\<rparr>))))"

definition require_account_key :: "principal \<Rightarrow> ('h, account) st" where
  "require_account_key p =
     (case p_key p of
        Some _ \<Rightarrow> raise_domain Forbidden ''This route requires the account key''
      | None \<Rightarrow> ret (p_account p))"

section \<open>Properties\<close>

text \<open>Who a secret is, and the keys that are no account's.\<close>

definition authenticates :: "string \<Rightarrow> principal \<Rightarrow> 'h world \<Rightarrow> bool" where
  "authenticates secret p w \<longleftrightarrow> outcome (require_principal (Some (''Bearer '' @ secret))) w = Inr p"

lemma authenticates_key:
  assumes "get_account_by_key s w = None"
  shows "authenticates s p w \<longleftrightarrow>
     (\<exists>k a. get_api_key_by_secret s w = Some k \<and> get_account_by_id (k_account_id k) w = Some a \<and>
        p = \<lparr>p_account = a, p_key = Some k\<rparr>)"
  using assms
  by (auto simp: authenticates_def require_principal_def bearer_def outcome_def bindE_def reads_def ret_def raise_def
      split: option.splits)

lemma create_key_eq:
  "\<exists>x t n h. create_key E account scopes label w =
     (let k = new_key x account t scopes label n; v = w\<lparr>w_host := h\<rparr>
      in if list_ex (\<lambda>q. k_id k = k_id q \<or> k_secret k = k_secret q) (w_api_keys w) then (Inl integrity_error, v)
         else (Inr k, w_api_keys_update (\<lambda>rows. rows @ [k]) v))"
proof -
  obtain x h1 where x: "os_uuid (h_os (e_host E)) (w_host w) = (x, h1)" by fastforce
  obtain t h2 where t: "os_token (h_os (e_host E)) 32 h1 = (t, h2)" by fastforce
  obtain n h3 where n: "os_now (h_os (e_host E)) h2 = (n, h3)" by fastforce
  show ?thesis
    by (intro exI [of _ x] exI [of _ t] exI [of _ "iso_text n"] exI [of _ h3])
       (simp add: create_key_def bindE_def seqE_def ret_def uuid4_hex_def token_urlsafe_def utcnow_def hostop_def x t n
        insert_api_key_def insert_row_def Let_def)
qed

lemma create_key_run:
  assumes "create_key E account scopes label w = (Inr k, w')"
  shows "\<exists>h. w' = w_api_keys_update (\<lambda>rows. rows @ [k]) (w\<lparr>w_host := h\<rparr>)" and "k_account_id k = a_id account"
    and "k_scopes k = scopes" and "\<not> list_ex (\<lambda>q. k_id k = k_id q \<or> k_secret k = k_secret q) (w_api_keys w)"
    and "\<exists>t. k_secret k = ''mk-'' @ t"
proof -
  obtain x t n h where e: "create_key E account scopes label w =
     (let k = new_key x account t scopes label n; v = w\<lparr>w_host := h\<rparr>
      in if list_ex (\<lambda>q. k_id k = k_id q \<or> k_secret k = k_secret q) (w_api_keys w) then (Inl integrity_error, v)
         else (Inr k, w_api_keys_update (\<lambda>rows. rows @ [k]) v))"
    using create_key_eq [of E account scopes label w] by (elim exE) (rule that)
  have k: "k = new_key x account t scopes label n" "w' = w_api_keys_update (\<lambda>rows. rows @ [k]) (w\<lparr>w_host := h\<rparr>)"
    "\<not> list_ex (\<lambda>q. k_id k = k_id q \<or> k_secret k = k_secret q) (w_api_keys w)"
    using assms unfolding e Let_def by (auto split: if_splits)
  show "\<exists>h. w' = w_api_keys_update (\<lambda>rows. rows @ [k]) (w\<lparr>w_host := h\<rparr>)" using k(2) by blast
  show "\<not> list_ex (\<lambda>q. k_id k = k_id q \<or> k_secret k = k_secret q) (w_api_keys w)" by (rule k(3))
  show "k_account_id k = a_id account" "k_scopes k = scopes" "\<exists>t. k_secret k = ''mk-'' @ t"
    by (simp_all add: k(1) new_key_def)
qed

lemma find_last:
  assumes "\<not> list_ex P xs" and "P x"
  shows "find P (xs @ [x]) = Some x" and "filter (\<lambda>y. \<not> P y) (xs @ [x]) = xs"
  using assms by (induction xs) auto

lemma find_other: "\<not> P x \<Longrightarrow> find P (xs @ [x]) = find P xs"
  by (induction xs) auto

definition demo_scopes :: scopes where
  "demo_scopes = \<lparr>sc_recipes_create = False, sc_recipes_read = True, sc_create_from = FromRecipes [], sc_labels = [''ci-''],
                  sc_relay_targets = [], sc_relay_deliver = None\<rparr>"




end
