(* ===== verification/Api.thy ===== *)
theory Api
  imports Schemas Keys
begin

text \<open>
  The routes of src/src/mshkn/api: every authenticated route as a function of the principal and the
  parsed request, and the unauthenticated ingress trigger. A route resolves its row, asks the scope
  checks, calls one service operation and shapes the response; an exception becomes a response in
  one place. A response is a status and a JSON body; a stream of events is the list of its events.

  What a request may do is stated apart from the routes (\<open>authorized\<close>), and it is proved that no
  route does anything for a request that may not.
\<close>

section \<open>The process\<close>

text \<open>The rate limiter of the exec route and the limiters of the ingress rules are kept in memory.\<close>

record services =
  sv_limiter :: rate_limiter
  sv_ingress :: limiters

type_synonym ('h, 'a) route = "('h world \<times> services, 'a) act"

text \<open>The process a route runs in: its environment, the public domain, Pydantic's coercions, and the
  readings of the monotonic clock and of SQLite's clock; and \<open>urllib.parse.parse_qs\<close>.\<close>

record 'h process =
  pc_env :: "'h env"
  pc_domain :: string
  pc_coercion :: coercion
  pc_now :: rat
  pc_sql_now :: string
  pc_parse_qs :: "string \<Rightarrow> (string \<times> string list) list"

definition with_ingress :: "('h, 'a) ingress \<Rightarrow> ('h, 'a) route" where
  "with_ingress m =
     (\<lambda>(w, s). case m (w, sv_ingress s) of (r, (w', ls)) \<Rightarrow> (r, (w', s\<lparr>sv_ingress := ls\<rparr>)))"

definition ok_json :: "json \<Rightarrow> http_response" where
  "ok_json j = \<lparr>hr_status = 200, hr_detail = j\<rparr>"

definition with_status :: "int \<Rightarrow> json \<Rightarrow> http_response" where
  "with_status s j = \<lparr>hr_status = s, hr_detail = j\<rparr>"

definition status_only :: "string \<Rightarrow> json" where
  "status_only s = JObj [(''status'', JStr s)]"

definition too_many :: exc where
  "too_many = PyError ''HTTPException'' ''429: Rate limit exceeded''"

section \<open>Computers\<close>

definition body_spec :: "create_body \<Rightarrow> exec_spec" where
  "body_spec b =
     \<lparr>es_command = cb_exec b, es_self_destruct = cb_self_destruct b, es_callback_url = cb_callback_url b,
      es_label = cb_label b, es_meta_exec = cb_meta_exec b\<rparr>"

definition create_route :: "'h process \<Rightarrow> principal \<Rightarrow> create_body \<Rightarrow> ('h, http_response) st" where
  "create_route P p b =
     seqE (from_result (require_create_from p (cb_recipe_id b)))
     (seqE (from_result (require_label p (cb_label b)))
     (bindE (from_result (from_needs (cb_needs b))) (\<lambda>res.
      bindE (create_computer (pc_env P) (p_account p) (cb_recipe_id b) res (key_id p)) (\<lambda>c.
      bindE (run_ephemeral (pc_env P) (p_account p) c (body_spec b) None) (\<lambda>r.
      ret (ok_json (create_response c r (pc_domain P))))))))"

text \<open>A running computer of the account that the key created: what most routes start with.\<close>

definition running_for :: "principal \<Rightarrow> string \<Rightarrow> ('h, computer) st" where
  "running_for p i =
     bindE (get_running (p_account p) i) (\<lambda>c. seqE (from_result (require_computer_owner p c)) (ret c))"

definition owned_for :: "principal \<Rightarrow> string \<Rightarrow> ('h, computer) st" where
  "owned_for p i =
     bindE (get_owned (p_account p) i) (\<lambda>c. seqE (from_result (require_computer_owner p c)) (ret c))"

definition event :: "string \<Rightarrow> string \<Rightarrow> json" where
  "event name data = JObj [(''event'', JStr name), (''data'', JStr data)]"

text \<open>The stream of an exec: its lines, or the error event and exit code 255 (the lines a stream
  yielded before it failed are not kept).\<close>

definition exec_events :: "'h env \<Rightarrow> computer \<Rightarrow> exec_body \<Rightarrow> ('h, http_response) st" where
  "exec_events E c b =
     catch_exception
       (bindE (timed ''exec'' (stream_in E c (xb_command b) (xb_timeout_seconds b))) (\<lambda>lines.
        ret (ok_json (JArr (map (\<lambda>(stream, line). event stream line) lines)))))
       (\<lambda>e. ret (ok_json (JArr [event ''error'' (describe_exc e), event ''exit'' ''255''])))"

definition check_exec_rate :: "'h process \<Rightarrow> string \<Rightarrow> ('h, unit) route" where
  "check_exec_rate P secret =
     bindE local (\<lambda>s.
     let (ok, l) = check_rate secret (pc_now P) (sv_limiter s)
     in seqE (assign (sv_limiter_update (\<lambda>_. l))) (if ok then ret () else raise too_many))"

definition exec_route :: "'h process \<Rightarrow> string \<Rightarrow> principal \<Rightarrow> string \<Rightarrow> exec_body \<Rightarrow> ('h, http_response) route" where
  "exec_route P secret p i b =
     seqE (check_exec_rate P secret)
          (lifted (bindE (running_for p i) (\<lambda>c. exec_events (pc_env P) c b)))"

definition exec_bg_route :: "'h process \<Rightarrow> principal \<Rightarrow> string \<Rightarrow> exec_body \<Rightarrow> ('h, http_response) st" where
  "exec_bg_route P p i b =
     bindE (running_for p i) (\<lambda>c.
     bindE (exec_bg_in (pc_env P) c (xb_command b)) (\<lambda>pid. ret (ok_json (JObj [(''pid'', JInt pid)]))))"

definition exec_logs_route :: "'h process \<Rightarrow> principal \<Rightarrow> string \<Rightarrow> int \<Rightarrow> ('h, http_response) st" where
  "exec_logs_route P p i pid =
     bindE (running_for p i) (\<lambda>c.
     bindE (exec_logs_of (pc_env P) c pid) (\<lambda>lines.
     ret (ok_json (JArr (map (event ''stdout'') lines @ [event ''exit'' ''0''])))))"

definition exec_kill_route :: "'h process \<Rightarrow> principal \<Rightarrow> string \<Rightarrow> int \<Rightarrow> ('h, http_response) st" where
  "exec_kill_route P p i pid =
     bindE (running_for p i) (\<lambda>c.
     bindE (exec_kill (pc_env P) c pid) (\<lambda>r.
     ret (ok_json (if x_exit_code r \<noteq> 0
                   then JObj [(''status'', JStr ''not_found''), (''stderr'', JStr (x_stderr r))]
                   else JObj [(''status'', JStr ''killed''), (''stderr'', JNull)]))))"

definition exec_log_route :: "principal \<Rightarrow> string \<Rightarrow> ('h, http_response) st" where
  "exec_log_route p i =
     bindE (get_record (p_account p) i) (\<lambda>c.
     seqE (from_result (require_computer_owner p c))
     (bindE (exec_log_of (p_account p) i) (\<lambda>l. ret (ok_json (exec_log_response l)))))"

definition upload_route :: "'h process \<Rightarrow> principal \<Rightarrow> string \<Rightarrow> string \<Rightarrow> string \<Rightarrow> ('h, http_response) st" where
  "upload_route P p i remote_path data =
     bindE (running_for p i) (\<lambda>c.
     seqE (upload_to (pc_env P) c remote_path data)
          (ret (ok_json (JObj [(''status'', JStr ''uploaded''), (''path'', JStr remote_path)]))))"

definition download_route :: "'h process \<Rightarrow> principal \<Rightarrow> string \<Rightarrow> string \<Rightarrow> ('h, http_response) st" where
  "download_route P p i remote_path =
     bindE (running_for p i) (\<lambda>c.
     bindE (download_from (pc_env P) c remote_path) (\<lambda>data. ret (ok_json (JStr data))))"

definition status_route :: "'h process \<Rightarrow> principal \<Rightarrow> string \<Rightarrow> ('h, http_response) st" where
  "status_route P p i =
     bindE (owned_for p i) (\<lambda>c.
     bindE (if c_status c = Running \<and> c_vm_ip c \<noteq> [] then metrics_of (pc_env P) c else ret None) (\<lambda>m.
     ret (ok_json (status_response c (pc_domain P) m))))"

definition checkpoint_route ::
  "'h process \<Rightarrow> principal \<Rightarrow> string \<Rightarrow> checkpoint_body option \<Rightarrow> ('h, http_response) st" where
  "checkpoint_route P p i body =
     (let label = (case body of None \<Rightarrow> None | Some b \<Rightarrow> kb_label b);
          pin = (case body of None \<Rightarrow> False | Some b \<Rightarrow> kb_pin b) in
      seqE (from_result (require_label p label))
      (bindE (running_for p i) (\<lambda>c.
       bindE (create_checkpoint (pc_env P) c label pin TriggerApi) (\<lambda>k.
       ret (ok_json (JObj [(''checkpoint_id'', JStr (ck_id k)), (''recipe_id'', json_opt (ck_recipe_id k))]))))))"

definition destroy_route :: "'h process \<Rightarrow> principal \<Rightarrow> string \<Rightarrow> ('h, http_response) st" where
  "destroy_route P p i =
     bindE (owned_for p i) (\<lambda>c.
     seqE (destroy (pc_env P) (c_id c))
     (seqE (drain_after_destroy (p_account p) c)
           (ret (ok_json (status_only (computer_status_text Destroyed))))))"

section \<open>Checkpoints\<close>

definition fork_body_spec :: "fork_body \<Rightarrow> exec_spec" where
  "fork_body_spec b =
     \<lparr>es_command = fb_exec b, es_self_destruct = fb_self_destruct b, es_callback_url = fb_callback_url b,
      es_label = None, es_meta_exec = fb_meta_exec b\<rparr>"

definition after_fork ::
  "'h process \<Rightarrow> principal \<Rightarrow> fork_body \<Rightarrow> checkpoint \<Rightarrow> admitted \<Rightarrow> ('h, http_response) st" where
  "after_fork P p b ckpt forked =
     (case forked of
        Deferred i \<Rightarrow> ret (with_status 202 (deferred_response i))
      | Forked c \<Rightarrow>
          bindE (run_ephemeral (pc_env P) (p_account p) c (fork_body_spec b) (Some ckpt)) (\<lambda>r.
          ret (ok_json (fork_response c (ck_id ckpt) r))))"

definition fork_label_route :: "'h process \<Rightarrow> principal \<Rightarrow> string \<Rightarrow> fork_body \<Rightarrow> ('h, http_response) st" where
  "fork_label_route P p label b =
     seqE (from_result (require_label p (Some label)))
     (bindE (fork_by_label (pc_env P) (p_account p) label (fork_body_spec b) (fb_exclusive b) (fb_recipe_id b) (key_id p))
        (\<lambda>(head, forked). after_fork P p b head forked))"

text \<open>A checkpoint of the account under the key's labels.\<close>

definition checkpoint_for :: "principal \<Rightarrow> string \<Rightarrow> ('h, checkpoint) st" where
  "checkpoint_for p i =
     bindE (get_owned_checkpoint (p_account p) i) (\<lambda>k. seqE (from_result (require_checkpoint_label p k)) (ret k))"

definition fork_route :: "'h process \<Rightarrow> principal \<Rightarrow> string \<Rightarrow> fork_body option \<Rightarrow> ('h, http_response) st" where
  "fork_route P p i body =
     (let b = (case body of None \<Rightarrow> empty_fork | Some b \<Rightarrow> b) in
      bindE (checkpoint_for p i) (\<lambda>k.
      bindE (fork_or_defer (pc_env P) (p_account p) k (fork_body_spec b) (fb_recipe_id b) (fb_exclusive b) (key_id p))
        (after_fork P p b k)))"

definition merge_route :: "'h process \<Rightarrow> principal \<Rightarrow> string \<Rightarrow> string \<Rightarrow> string \<Rightarrow> ('h, http_response) st" where
  "merge_route P p parent_id a b =
     seqE (from_result (Scopes.require_account_key p))
     (bindE (merge_checkpoints (pc_env P) (p_account p) parent_id a b) (\<lambda>m. ret (ok_json (merge_response m))))"

definition list_checkpoints_route :: "principal \<Rightarrow> string option \<Rightarrow> ('h, http_response) st" where
  "list_checkpoints_route p label =
     bindE (list_checkpoints (p_account p) label) (\<lambda>ks.
     ret (ok_json (JArr (map checkpoint_summary (visible_checkpoints p ks)))))"

definition delete_checkpoint_route :: "'h process \<Rightarrow> principal \<Rightarrow> string \<Rightarrow> ('h, http_response) st" where
  "delete_checkpoint_route P p i =
     bindE (checkpoint_for p i) (\<lambda>k.
     seqE (delete_checkpoint_of (pc_env P) k) (ret (ok_json (status_only ''deleted''))))"

section \<open>Recipes\<close>

definition create_recipe_route :: "'h process \<Rightarrow> principal \<Rightarrow> string \<Rightarrow> ('h, http_response) st" where
  "create_recipe_route P p dockerfile =
     seqE (from_result (require_recipes_create p))
     (bindE (create_recipe (pc_env P) (p_account p) dockerfile) (\<lambda>(r, created).
      ret (with_status (if created then 202 else 200) (recipe_response r))))"

definition get_recipe_route :: "principal \<Rightarrow> string \<Rightarrow> ('h, http_response) st" where
  "get_recipe_route p i =
     seqE (from_result (require_recipes_read p))
     (bindE (get_owned_recipe (p_account p) i) (\<lambda>r. ret (ok_json (recipe_response r))))"

definition list_recipes_route :: "principal \<Rightarrow> ('h, http_response) st" where
  "list_recipes_route p =
     seqE (from_result (require_recipes_read p))
     (bindE (reads (list_recipes (p_account p))) (\<lambda>rs. ret (ok_json (JArr (map recipe_response rs)))))"

definition delete_recipe_route :: "'h process \<Rightarrow> principal \<Rightarrow> string \<Rightarrow> ('h, http_response) st" where
  "delete_recipe_route P p i =
     seqE (from_result (Scopes.require_account_key p))
     (seqE (delete_owned_recipe (pc_env P) (p_account p) i) (ret (ok_json (status_only ''deleted''))))"

section \<open>The relay\<close>

definition pinned_delivery :: "principal \<Rightarrow> relay_body \<Rightarrow> relay_delivery option" where
  "pinned_delivery p b = (case principal_scopes p of Some sc \<Rightarrow> sc_relay_deliver sc | None \<Rightarrow> rb_deliver b)"

definition body_request :: "principal \<Rightarrow> relay_body \<Rightarrow> relay_request" where
  "body_request p b =
     \<lparr>rq_target = rb_target b, rq_method = rb_method b, rq_forward_headers = rb_forward_headers b, rq_body = rb_body b,
      rq_retry = rb_retry b, rq_timeout_seconds = rb_timeout_seconds b, rq_deliver = pinned_delivery p b\<rparr>"

definition submit_route :: "'h process \<Rightarrow> principal \<Rightarrow> relay_body \<Rightarrow> ('h, http_response) st" where
  "submit_route P p b =
     seqE (from_result (require_relay p (rb_target b) (rb_deliver b \<noteq> None)))
     (bindE (submit (pc_env P) (p_account p) (body_request p b) (key_id p)) (\<lambda>job.
      ret (with_status 202 (JObj [(''job_id'', JStr (rj_id job)), (''status'', JStr (relay_status_text (rj_status job)))]))))"

definition get_job_route :: "principal \<Rightarrow> string \<Rightarrow> ('h, http_response) st" where
  "get_job_route p i =
     bindE (get_owned_job (p_account p) i) (\<lambda>job.
     seqE (from_result (require_relay_job_owner p job)) (ret (ok_json (relay_job_response job))))"

section \<open>Keys and ingress rules: the account key only\<close>

definition create_key_route :: "'h process \<Rightarrow> principal \<Rightarrow> json \<Rightarrow> string option \<Rightarrow> ('h, http_response) st" where
  "create_key_route P p document label =
     bindE (Keys.require_account_key p) (\<lambda>account.
     bindE (from_result (parse_scopes document)) (\<lambda>sc.
     bindE (create_key (pc_env P) account sc label) (\<lambda>k. ret (ok_json (key_created_response k)))))"

definition list_keys_route :: "principal \<Rightarrow> ('h, http_response) st" where
  "list_keys_route p =
     bindE (Keys.require_account_key p) (\<lambda>account.
     bindE (list_keys account) (\<lambda>ks. ret (ok_json (JArr (map key_response ks)))))"

definition delete_key_route :: "principal \<Rightarrow> string \<Rightarrow> ('h, http_response) st" where
  "delete_key_route p i =
     bindE (Keys.require_account_key p) (\<lambda>account.
     seqE (delete_key account i) (ret (ok_json (status_only ''deleted''))))"

definition create_rule_route :: "'h process \<Rightarrow> principal \<Rightarrow> rule_request \<Rightarrow> ('h, http_response) st" where
  "create_rule_route P p r =
     bindE (Keys.require_account_key p) (\<lambda>account.
     bindE (create_rule (pc_env P) account r) (\<lambda>rule. ret (ok_json (rule_response rule (pc_domain P)))))"

definition list_rules_route :: "'h process \<Rightarrow> principal \<Rightarrow> ('h, http_response) st" where
  "list_rules_route P p =
     bindE (Keys.require_account_key p) (\<lambda>account.
     bindE (list_rules account) (\<lambda>rs. ret (ok_json (JArr (map (\<lambda>r. rule_response r (pc_domain P)) rs)))))"

definition get_rule_route :: "'h process \<Rightarrow> principal \<Rightarrow> string \<Rightarrow> ('h, http_response) st" where
  "get_rule_route P p i =
     bindE (Keys.require_account_key p) (\<lambda>account.
     bindE (get_rule account i) (\<lambda>r. ret (ok_json (rule_detail r (pc_domain P)))))"

definition update_rule_route :: "'h process \<Rightarrow> principal \<Rightarrow> string \<Rightarrow> rule_update \<Rightarrow> ('h, http_response) st" where
  "update_rule_route P p i u =
     bindE (Keys.require_account_key p) (\<lambda>account.
     bindE (update_rule (pc_env P) account i u) (\<lambda>r. ret (ok_json (rule_response r (pc_domain P)))))"

definition delete_rule_route :: "principal \<Rightarrow> string \<Rightarrow> ('h, http_response) route" where
  "delete_rule_route p i =
     bindE (lifted (Keys.require_account_key p)) (\<lambda>account.
     seqE (with_ingress (delete_rule account i)) (ret (with_status 204 JNull)))"

definition rotate_rule_route :: "'h process \<Rightarrow> principal \<Rightarrow> string \<Rightarrow> ('h, http_response) st" where
  "rotate_rule_route P p i =
     bindE (Keys.require_account_key p) (\<lambda>account.
     bindE (rotate_rule (pc_env P) (pc_sql_now P) account i) (\<lambda>r. ret (ok_json (rule_response r (pc_domain P)))))"

record test_body =
  tb_method :: string
  tb_path :: string
  tb_headers :: "(string \<times> string) list"
  tb_query_params :: "(string \<times> string) list"
  tb_body :: "string option"

definition header_of :: "string \<Rightarrow> (string \<times> string) list \<Rightarrow> string" where
  "header_of name hs = (case map_of hs name of None \<Rightarrow> [] | Some v \<Rightarrow> v)"

definition request_dict ::
  "string \<Rightarrow> string \<Rightarrow> (string \<times> string) list \<Rightarrow> (string \<times> string) list \<Rightarrow> json \<Rightarrow> json \<Rightarrow> string \<Rightarrow> json" where
  "request_dict method target_path headers query body_json body_form body_raw =
     JObj [(''method'', JStr method), (''path'', JStr target_path), (''headers'', json_map headers),
           (''query_params'', json_map query), (''body_json'', body_json), (''body_form'', body_form),
           (''body_raw'', JStr body_raw), (''content_type'', JStr (header_of ''content-type'' headers))]"

definition test_dict :: "libraries \<Rightarrow> test_body \<Rightarrow> json" where
  "test_dict L b =
     (let raw = (case tb_body b of None \<Rightarrow> [] | Some t \<Rightarrow> t);
          parsed = (if raw = [] then JNull else case lib_loads L raw of None \<Rightarrow> JNull | Some j \<Rightarrow> j)
      in request_dict (tb_method b) (tb_path b) (tb_headers b) (tb_query_params b) parsed JNull raw)"

definition test_response :: "json option \<times> string list \<Rightarrow> exc + json" where
  "test_response r =
     bind_sum (dict_field (fst r)) (\<lambda>result.
     Inr (JObj [(''starlark_result'', result), (''validation_errors'', JArr (map JStr (snd r)))]))"

definition test_rule_route :: "'h process \<Rightarrow> principal \<Rightarrow> string \<Rightarrow> test_body \<Rightarrow> ('h, http_response) st" where
  "test_rule_route P p i b =
     bindE (Keys.require_account_key p) (\<lambda>account.
     bindE (get_rule account i) (\<lambda>rule.
     bindE (from_result (test_rule (e_lib (pc_env P)) (pc_coercion P) rule (test_dict (e_lib (pc_env P)) b))) (\<lambda>r.
     bindE (from_result (test_response r)) (\<lambda>j. ret (ok_json j)))))"

definition rule_logs_route :: "principal \<Rightarrow> string \<Rightarrow> ('h, http_response) st" where
  "rule_logs_route p i =
     bindE (Keys.require_account_key p) (\<lambda>account.
     bindE (rule_logs account i) (\<lambda>ls.
     bindE (from_result (each_response ingress_log_response ls)) (\<lambda>js. ret (ok_json (JArr js)))))"

section \<open>The ingress trigger\<close>

text \<open>The request as it arrives: its headers by lower-case name and the chunks of its body. \<open>parse_qs\<close> is the
  process's function.\<close>

record http_in =
  hi_method :: string
  hi_path :: string
  hi_headers :: "(string \<times> string) list"
  hi_query :: "(string \<times> string) list"
  hi_chunks :: "string list"

definition too_large :: exc where
  "too_large = MshknError PayloadTooLarge ''Request body too large'' None"

fun read_body :: "int \<Rightarrow> int \<Rightarrow> string list \<Rightarrow> exc + string" where
  "read_body max_bytes received [] = Inr []"
| "read_body max_bytes received (c # cs) =
     (let received = received + int (length c)
      in if received > max_bytes then Inl too_large
         else bind_sum (read_body max_bytes received cs) (\<lambda>rest. Inr (c @ rest)))"

definition declared_bytes :: "string \<Rightarrow> int" where
  "declared_bytes declared = (if declared = [] then 0 else case py_int declared of None \<Rightarrow> 0 | Some n \<Rightarrow> n)"

definition form_value :: "string list \<Rightarrow> json" where
  "form_value vs = (case vs of [v] \<Rightarrow> JStr v | _ \<Rightarrow> JArr (map JStr vs))"

definition parse_ingress_body :: "'h process \<Rightarrow> http_in \<Rightarrow> int \<Rightarrow> exc + json" where
  "parse_ingress_body P q max_bytes =
     (let L = e_lib (pc_env P); content_type = header_of ''content-type'' (hi_headers q);
          dict = request_dict (hi_method q) (hi_path q) (hi_headers q) (hi_query q)
      in if hi_method q = ''GET'' then Inr (dict JNull JNull [])
         else if declared_bytes (header_of ''content-length'' (hi_headers q)) > max_bytes then Inl too_large
         else bind_sum (read_body max_bytes 0 (hi_chunks q)) (\<lambda>body.
           let raw = lib_decode L body
           in Inr (if sublist ''application/json'' content_type
                   then dict (case lib_loads L body of None \<Rightarrow> JNull | Some j \<Rightarrow> j) JNull raw
                   else if sublist ''application/x-www-form-urlencoded'' content_type
                   then dict JNull (JObj (map (\<lambda>(k, vs). (k, form_value vs)) (pc_parse_qs P raw))) raw
                   else dict JNull JNull raw)))"

definition parse_failure :: "exc \<Rightarrow> exc" where
  "parse_failure e =
     (if is_class PayloadTooLarge e \<or> \<not> is_exception e then e
      else MshknError InvalidInput ''Failed to parse request body'' None)"

definition trigger_response :: "'h process \<Rightarrow> trigger_outcome \<Rightarrow> http_response" where
  "trigger_response P o' =
     with_status (to_status_code o')
       (case to_result o' of
          None \<Rightarrow> if to_status_code o' = 204 then JNull else status_only (log_status_text LogAccepted)
        | Some (IrDeferred i) \<Rightarrow> deferred_response i
        | Some (IrForked c k r) \<Rightarrow> fork_response c (ck_id k) r
        | Some (IrCreated c r) \<Rightarrow> create_response c r (pc_domain P))"

definition handle_ingress :: "'h process \<Rightarrow> string \<Rightarrow> http_in \<Rightarrow> ('h, http_response) route" where
  "handle_ingress P rule_id q =
     bindE (lifted (enabled_rule rule_id)) (\<lambda>rule.
     bindE (case parse_ingress_body P q (ir_max_body_bytes rule) of
              Inl e \<Rightarrow> raise (parse_failure e)
            | Inr d \<Rightarrow> ret d) (\<lambda>d.
     bindE (with_ingress (trigger (pc_env P) (pc_coercion P) (pc_now P) rule d)) (\<lambda>o'.
     ret (trigger_response P o'))))"

lemma read_body_within: "read_body m t cs = Inr b \<Longrightarrow> b = concat cs \<and> (cs = [] \<or> t + int (length b) \<le> m)"
proof (induction cs arbitrary: t b)
  case (Cons c cs)
  then obtain r where r: "t + int (length c) \<le> m" "read_body m (t + int (length c)) cs = Inr r" "b = c @ r"
    by (auto simp: Let_def bind_sum_def split: if_splits sum.splits)
  from Cons.IH [OF r(2)] r(1,3) show ?case by (cases cs) auto
qed simp

section \<open>The requests\<close>

datatype request =
    PostComputer create_body
  | PostExec string exec_body
  | PostExecBg string exec_body
  | GetExecLogs string int
  | PostExecKill string int
  | GetExecLog string
  | PostUpload string string string
  | GetDownload string string
  | GetStatus string
  | PostCheckpoint string "checkpoint_body option"
  | DeleteComputer string
  | PostForkLabel string fork_body
  | PostFork string "fork_body option"
  | PostMerge string string string
  | ListCheckpoints "string option"
  | DeleteCheckpoint string
  | PostRecipe string
  | GetRecipe string
  | ListRecipes
  | DeleteRecipe string
  | PostRelay relay_body
  | GetRelayJob string
  | PostKey json "string option"
  | ListKeys
  | DeleteKey string
  | PostRule rule_request
  | ListRules
  | GetRule string
  | PutRule string rule_update
  | DeleteRule string
  | PostRotate string
  | PostRuleTest string test_body
  | GetRuleLogs string

text \<open>The models' bounds on a body.\<close>

fun body_ok :: "request \<Rightarrow> bool" where
  "body_ok (PostExec _ b) = exec_body_ok b"
| "body_ok (PostExecBg _ b) = exec_body_ok b"
| "body_ok (PostRelay b) = relay_body_ok b"
| "body_ok (PostRule r) = rule_request_ok r"
| "body_ok (PutRule _ u) = rule_update_ok u"
| "body_ok _ = True"

fun serve :: "'h process \<Rightarrow> string \<Rightarrow> principal \<Rightarrow> request \<Rightarrow> ('h, http_response) route" where
  "serve P secret p (PostComputer b) = lifted (create_route P p b)"
| "serve P secret p (PostExec i b) = exec_route P secret p i b"
| "serve P secret p (PostExecBg i b) = lifted (exec_bg_route P p i b)"
| "serve P secret p (GetExecLogs i pid) = lifted (exec_logs_route P p i pid)"
| "serve P secret p (PostExecKill i pid) = lifted (exec_kill_route P p i pid)"
| "serve P secret p (GetExecLog i) = lifted (exec_log_route p i)"
| "serve P secret p (PostUpload i remote_path data) = lifted (upload_route P p i remote_path data)"
| "serve P secret p (GetDownload i remote_path) = lifted (download_route P p i remote_path)"
| "serve P secret p (GetStatus i) = lifted (status_route P p i)"
| "serve P secret p (PostCheckpoint i b) = lifted (checkpoint_route P p i b)"
| "serve P secret p (DeleteComputer i) = lifted (destroy_route P p i)"
| "serve P secret p (PostForkLabel l b) = lifted (fork_label_route P p l b)"
| "serve P secret p (PostFork i b) = lifted (fork_route P p i b)"
| "serve P secret p (PostMerge i a b) = lifted (merge_route P p i a b)"
| "serve P secret p (ListCheckpoints l) = lifted (list_checkpoints_route p l)"
| "serve P secret p (DeleteCheckpoint i) = lifted (delete_checkpoint_route P p i)"
| "serve P secret p (PostRecipe d) = lifted (create_recipe_route P p d)"
| "serve P secret p (GetRecipe i) = lifted (get_recipe_route p i)"
| "serve P secret p ListRecipes = lifted (list_recipes_route p)"
| "serve P secret p (DeleteRecipe i) = lifted (delete_recipe_route P p i)"
| "serve P secret p (PostRelay b) = lifted (submit_route P p b)"
| "serve P secret p (GetRelayJob i) = lifted (get_job_route p i)"
| "serve P secret p (PostKey d l) = lifted (create_key_route P p d l)"
| "serve P secret p ListKeys = lifted (list_keys_route p)"
| "serve P secret p (DeleteKey i) = lifted (delete_key_route p i)"
| "serve P secret p (PostRule r) = lifted (create_rule_route P p r)"
| "serve P secret p ListRules = lifted (list_rules_route P p)"
| "serve P secret p (GetRule i) = lifted (get_rule_route P p i)"
| "serve P secret p (PutRule i u) = lifted (update_rule_route P p i u)"
| "serve P secret p (DeleteRule i) = delete_rule_route p i"
| "serve P secret p (PostRotate i) = lifted (rotate_rule_route P p i)"
| "serve P secret p (PostRuleTest i b) = lifted (test_rule_route P p i b)"
| "serve P secret p (GetRuleLogs i) = lifted (rule_logs_route p i)"

text \<open>A request as it arrives: the bearer's principal first, then the route; an exception becomes a
  response, and an interruption (the client went away) gets none.\<close>

definition unprocessable :: http_response where
  "unprocessable = with_status 422 (JStr ''validation error'')"

definition error_response :: "exc \<Rightarrow> http_response" where
  "error_response e =
     (case e of
        MshknError _ _ _ \<Rightarrow> handle_domain_error e
      | PyError n m \<Rightarrow>
          if n = ''HTTPException''
          then with_status (case py_int (take 3 m) of Some s \<Rightarrow> s | None \<Rightarrow> 500) (JStr (drop 5 m))
          else with_status 500 (JStr ''Internal Server Error'')
      | Interrupt _ \<Rightarrow> with_status 500 (JStr ''Internal Server Error''))"

definition secret_of :: "string option \<Rightarrow> string" where
  "secret_of header = drop 7 (case header of None \<Rightarrow> [] | Some a \<Rightarrow> a)"

definition handle_request :: "'h process \<Rightarrow> string option \<Rightarrow> request \<Rightarrow> ('h, http_response) route" where
  "handle_request P header r =
     catch_exception
       (bindE (lifted (require_principal header)) (\<lambda>p.
        if \<not> body_ok r then ret unprocessable else serve P (secret_of header) p r))
       (\<lambda>e. ret (error_response e))"

section \<open>What a principal may do\<close>

text \<open>Stated over the tables, apart from the routes.\<close>

definition created_by :: "principal \<Rightarrow> computer \<Rightarrow> bool" where
  "created_by p c \<longleftrightarrow> c_account_id c = a_id (p_account p) \<and>
     (case p_key p of None \<Rightarrow> True | Some k \<Rightarrow> c_api_key_id c = Some (k_id k))"

definition may_reach :: "principal \<Rightarrow> (computer_status \<Rightarrow> bool) \<Rightarrow> string \<Rightarrow> 'h world \<Rightarrow> bool" where
  "may_reach p ok i w \<longleftrightarrow> (\<exists>c. get_computer i w = Some c \<and> created_by p c \<and> ok (c_status c))"

definition label_granted :: "principal \<Rightarrow> string option \<Rightarrow> bool" where
  "label_granted p label = (case principal_scopes p of None \<Rightarrow> True | Some sc \<Rightarrow> covers_label sc label)"

definition may_use_checkpoint :: "principal \<Rightarrow> string \<Rightarrow> 'h world \<Rightarrow> bool" where
  "may_use_checkpoint p i w \<longleftrightarrow>
     (\<exists>k. get_checkpoint i w = Some k \<and> ck_account_id k = a_id (p_account p) \<and> label_granted p (ck_label k))"

definition owns_recipe :: "principal \<Rightarrow> string \<Rightarrow> 'h world \<Rightarrow> bool" where
  "owns_recipe p i w \<longleftrightarrow> (\<exists>r. get_recipe i w = Some r \<and> r_account_id r = a_id (p_account p))"

definition owns_rule :: "principal \<Rightarrow> string \<Rightarrow> 'h world \<Rightarrow> bool" where
  "owns_rule p i w \<longleftrightarrow> (\<exists>r. get_ingress_rule_by_id i w = Some r \<and> ir_account_id r = a_id (p_account p))"

definition owns_key :: "principal \<Rightarrow> string \<Rightarrow> 'h world \<Rightarrow> bool" where
  "owns_key p i w \<longleftrightarrow> (\<exists>k. get_api_key i w = Some k \<and> k_account_id k = a_id (p_account p))"

definition may_see_job :: "principal \<Rightarrow> string \<Rightarrow> 'h world \<Rightarrow> bool" where
  "may_see_job p i w \<longleftrightarrow>
     (\<exists>j. get_relay_job i w = Some j \<and> rj_account_id j = a_id (p_account p) \<and>
        (case p_key p of None \<Rightarrow> True | Some k \<Rightarrow> rj_api_key_id j = Some (k_id k)))"

definition scope_allows :: "principal \<Rightarrow> (scopes \<Rightarrow> bool) \<Rightarrow> bool" where
  "scope_allows p ok = (case principal_scopes p of None \<Rightarrow> True | Some sc \<Rightarrow> ok sc)"

definition optional_label_granted :: "principal \<Rightarrow> string option \<Rightarrow> bool" where
  "optional_label_granted p label = (case label of None \<Rightarrow> True | Some l \<Rightarrow> label_granted p (Some l))"

definition account_key :: "principal \<Rightarrow> bool" where
  "account_key p \<longleftrightarrow> p_key p = None"

fun authorized :: "principal \<Rightarrow> request \<Rightarrow> 'h world \<Rightarrow> bool" where
  "authorized p (PostComputer b) w \<longleftrightarrow>
     scope_allows p (\<lambda>sc. may_create_from sc (cb_recipe_id b)) \<and> optional_label_granted p (cb_label b)"
| "authorized p (PostExec i _) w \<longleftrightarrow> may_reach p (\<lambda>s. s = Running) i w"
| "authorized p (PostExecBg i _) w \<longleftrightarrow> may_reach p (\<lambda>s. s = Running) i w"
| "authorized p (GetExecLogs i _) w \<longleftrightarrow> may_reach p (\<lambda>s. s = Running) i w"
| "authorized p (PostExecKill i _) w \<longleftrightarrow> may_reach p (\<lambda>s. s = Running) i w"
| "authorized p (GetExecLog i) w \<longleftrightarrow> may_reach p (\<lambda>s. True) i w"
| "authorized p (PostUpload i _ _) w \<longleftrightarrow> may_reach p (\<lambda>s. s = Running) i w"
| "authorized p (GetDownload i _) w \<longleftrightarrow> may_reach p (\<lambda>s. s = Running) i w"
| "authorized p (GetStatus i) w \<longleftrightarrow> may_reach p (\<lambda>s. s \<noteq> Destroyed) i w"
| "authorized p (PostCheckpoint i b) w \<longleftrightarrow>
     optional_label_granted p (case b of None \<Rightarrow> None | Some b \<Rightarrow> kb_label b) \<and> may_reach p (\<lambda>s. s = Running) i w"
| "authorized p (DeleteComputer i) w \<longleftrightarrow> may_reach p (\<lambda>s. s \<noteq> Destroyed) i w"
| "authorized p (PostForkLabel l _) w \<longleftrightarrow> label_granted p (Some l)"
| "authorized p (PostFork i _) w \<longleftrightarrow> may_use_checkpoint p i w"
| "authorized p (PostMerge _ _ _) w \<longleftrightarrow> account_key p"
| "authorized p (ListCheckpoints _) w \<longleftrightarrow> True"
| "authorized p (DeleteCheckpoint i) w \<longleftrightarrow> may_use_checkpoint p i w"
| "authorized p (PostRecipe _) w \<longleftrightarrow> scope_allows p sc_recipes_create"
| "authorized p (GetRecipe i) w \<longleftrightarrow> scope_allows p sc_recipes_read \<and> owns_recipe p i w"
| "authorized p ListRecipes w \<longleftrightarrow> scope_allows p sc_recipes_read"
| "authorized p (DeleteRecipe i) w \<longleftrightarrow> account_key p \<and> owns_recipe p i w"
| "authorized p (PostRelay b) w \<longleftrightarrow>
     scope_allows p (\<lambda>sc. has_relay sc \<and> may_relay_to sc (rb_target b) \<and> rb_deliver b = None)"
| "authorized p (GetRelayJob i) w \<longleftrightarrow> may_see_job p i w"
| "authorized p (PostKey _ _) w \<longleftrightarrow> account_key p"
| "authorized p ListKeys w \<longleftrightarrow> account_key p"
| "authorized p (DeleteKey i) w \<longleftrightarrow> account_key p \<and> owns_key p i w"
| "authorized p (PostRule _) w \<longleftrightarrow> account_key p"
| "authorized p ListRules w \<longleftrightarrow> account_key p"
| "authorized p (GetRule i) w \<longleftrightarrow> account_key p \<and> owns_rule p i w"
| "authorized p (PutRule i _) w \<longleftrightarrow> account_key p \<and> owns_rule p i w"
| "authorized p (DeleteRule i) w \<longleftrightarrow> account_key p \<and> owns_rule p i w"
| "authorized p (PostRotate i) w \<longleftrightarrow> account_key p \<and> owns_rule p i w"
| "authorized p (PostRuleTest i _) w \<longleftrightarrow> account_key p \<and> owns_rule p i w"
| "authorized p (GetRuleLogs i) w \<longleftrightarrow> account_key p \<and> owns_rule p i w"

section \<open>Refusals\<close>

text \<open>An action that is refused: it raises a domain error a client can be told, and changes nothing.\<close>

definition refusal :: "exc \<Rightarrow> bool" where
  "refusal e \<longleftrightarrow> (\<exists>c m. e = MshknError c m None \<and> c \<in> {NotFound, Forbidden, BadRequest, InvalidInput})"

definition refused :: "('w, 'a) act \<Rightarrow> 'w \<Rightarrow> bool" where
  "refused m w \<longleftrightarrow> (\<exists>e. m w = (Inl e, w) \<and> refusal e)"

lemma refused_bind: "refused m w \<Longrightarrow> refused (bindE m f) w"
  by (auto simp: refused_def bindE_def)

lemma refused_seq: "refused m w \<Longrightarrow> refused (seqE m n) w"
  unfolding seqE_def by (rule refused_bind)

lemma refused_from: "r = Inl e \<Longrightarrow> refusal e \<Longrightarrow> refused (from_result r) w"
  by (simp add: refused_def from_result_def raise_def)

lemma refused_after: "m w = (Inr a, w) \<Longrightarrow> refused (f a) w \<Longrightarrow> refused (bindE m f) w"
  by (simp add: refused_def bindE_def)

lemma refused_lifted: "refused m w \<Longrightarrow> refused (lifted m) (w, s)"
  by (auto simp: refused_def lifted_def)

lemma checked_cases:
  "seqE (from_result (check ok c m)) f = (if ok then f else raise (MshknError c m None))"
  by (auto simp: check_def from_result_def seqE_def bindE_def ret_def raise_def fun_eq_iff)

lemma from_unit: "seqE (from_result (Inr ())) f = f" "seqE (from_result (Inl e)) f = raise e"
  by (auto simp: from_result_def seqE_def bindE_def ret_def raise_def fun_eq_iff)

lemma refused_raise: "refused (raise e) w \<longleftrightarrow> refusal e"
  by (simp add: refused_def raise_def)

lemma running_for_refused: "\<not> may_reach p (\<lambda>s. s = Running) i w \<Longrightarrow> refused (running_for p i) w"
  by (auto simp: running_for_def get_running_def refused_def refusal_def may_reach_def created_by_def bindE_def reads_def
      raise_domain_def raise_def ret_def require_computer_owner_def check_def from_result_def seqE_def
      split: option.splits)

lemma owned_for_refused: "\<not> may_reach p (\<lambda>s. s \<noteq> Destroyed) i w \<Longrightarrow> refused (owned_for p i) w"
  by (auto simp: owned_for_def get_owned_def refused_def refusal_def may_reach_def created_by_def bindE_def reads_def
      raise_domain_def raise_def ret_def require_computer_owner_def check_def from_result_def seqE_def
      split: option.splits)

lemma checkpoint_for_refused: "\<not> may_use_checkpoint p i w \<Longrightarrow> refused (checkpoint_for p i) w"
  by (auto simp: checkpoint_for_def get_owned_checkpoint_def refused_def refusal_def may_use_checkpoint_def label_granted_def
      bindE_def reads_def raise_domain_def raise_def ret_def require_checkpoint_label_def check_def from_result_def seqE_def
      split: option.splits)

lemma record_refused: "\<not> may_reach p (\<lambda>s. True) i w \<Longrightarrow> refused (exec_log_route p i) w"
  by (auto simp: exec_log_route_def get_record_def refused_def refusal_def may_reach_def created_by_def bindE_def reads_def
      raise_domain_def raise_def ret_def require_computer_owner_def check_def from_result_def seqE_def
      split: option.splits)

lemma account_key_refused: "\<not> account_key p \<Longrightarrow> refused (Keys.require_account_key p) w"
  by (auto simp: account_key_def Keys.require_account_key_def refused_def refusal_def raise_domain_def raise_def
      split: option.splits)

lemma account_key_scope_refused: "\<not> account_key p \<Longrightarrow> refused (from_result (Scopes.require_account_key p)) w"
  by (auto simp: account_key_def Scopes.require_account_key_def check_def from_result_def refused_raise refusal_def)

lemma account_key_passes:
  "account_key p \<Longrightarrow> Keys.require_account_key p w = (Inr (p_account p), w)"
  "account_key p \<Longrightarrow> from_result (Scopes.require_account_key p) w = (Inr (), w)"
  by (auto simp: account_key_def Keys.require_account_key_def Scopes.require_account_key_def check_def from_result_def ret_def)

lemma owned_recipe_refused: "\<not> owns_recipe p i w \<Longrightarrow> refused (get_owned_recipe (p_account p) i) w"
  by (auto simp: get_owned_recipe_def owns_recipe_def refused_def refusal_def bindE_def reads_def raise_domain_def raise_def ret_def
      split: option.splits)

lemma owned_rule_refused: "\<not> owns_rule p i w \<Longrightarrow> refused (get_rule (p_account p) i) w"
  by (auto simp: get_rule_def owns_rule_def refused_def refusal_def bindE_def reads_def raise_domain_def raise_def ret_def
      split: option.splits)

lemma owned_key_refused: "\<not> owns_key p i w \<Longrightarrow> refused (delete_key (p_account p) i) w"
  by (auto simp: delete_key_def owns_key_def refused_def refusal_def bindE_def reads_def raise_domain_def raise_def ret_def
      split: option.splits)

lemma job_refused: "\<not> may_see_job p i w \<Longrightarrow> refused (get_job_route p i) w"
  by (auto simp: get_job_route_def get_owned_job_def may_see_job_def refused_def refusal_def bindE_def reads_def
      raise_domain_def raise_def ret_def require_relay_job_owner_def check_def from_result_def seqE_def split: option.splits)

lemma scope_refused:
  "\<not> scope_allows p sc_recipes_create \<Longrightarrow> refused (from_result (require_recipes_create p)) w"
  "\<not> scope_allows p sc_recipes_read \<Longrightarrow> refused (from_result (require_recipes_read p)) w"
  "\<not> scope_allows p (\<lambda>sc. may_create_from sc r) \<Longrightarrow> refused (from_result (require_create_from p r)) w"
  "\<not> optional_label_granted p l \<Longrightarrow> refused (from_result (require_label p l)) w"
  "\<not> scope_allows p (\<lambda>sc. has_relay sc \<and> may_relay_to sc t \<and> \<not> d) \<Longrightarrow> refused (from_result (require_relay p t d)) w"
  by (cases "p_key p"; auto simp: scope_allows_def optional_label_granted_def label_granted_def route_checks check_def
      from_result_def refused_raise refusal_def principal_scopes_def split: option.splits)+

lemma scope_passes:
  "scope_allows p (\<lambda>sc. may_create_from sc r) \<Longrightarrow> require_create_from p r = Inr ()"
  "scope_allows p sc_recipes_read \<Longrightarrow> require_recipes_read p = Inr ()"
  "optional_label_granted p l \<Longrightarrow> require_label p l = Inr ()"
  by (cases "p_key p"; auto simp: scope_allows_def optional_label_granted_def label_granted_def route_checks check_def
      principal_scopes_def split: option.splits)+

text \<open>The route of each request refuses it when it may not; only an exec asks its rate limiter first.\<close>

definition denied :: "('h world \<times> services, 'a) act \<Rightarrow> 'h world \<Rightarrow> services \<Rightarrow> bool" where
  "denied m w s \<longleftrightarrow> (\<exists>e s'. m (w, s) = (Inl e, (w, s')) \<and> (refusal e \<or> e = too_many))"

lemma denied_lifted: "refused m w \<Longrightarrow> denied (lifted m) w s"
  by (auto simp: refused_def denied_def lifted_def)

lemma exec_denied: "\<not> may_reach p (\<lambda>s. s = Running) i w \<Longrightarrow> denied (exec_route P secret p i b) w s"
proof -
  assume "\<not> may_reach p (\<lambda>s. s = Running) i w"
  then have r: "refused (bindE (running_for p i) (\<lambda>c. exec_events (pc_env P) c b)) w"
    by (intro refused_bind running_for_refused)
  obtain ok l where l: "check_rate secret (pc_now P) (sv_limiter s) = (ok, l)" by fastforce
  have "exec_route P secret p i b (w, s) =
      (if ok then lifted (bindE (running_for p i) (\<lambda>c. exec_events (pc_env P) c b)) (w, s\<lparr>sv_limiter := l\<rparr>)
       else (Inl too_many, (w, s\<lparr>sv_limiter := l\<rparr>)))"
    by (simp add: exec_route_def check_exec_rate_def seqE_def bindE_def local_def reads_def assign_def writes_def l ret_def raise_def)
  then show ?thesis using denied_lifted [OF r, of "s\<lparr>sv_limiter := l\<rparr>"] by (cases ok) (auto simp: denied_def)
qed

lemma account_routes_refused:
  "\<not> (account_key p \<and> Q) \<Longrightarrow> (\<not> Q \<Longrightarrow> refused (f (p_account p)) w) \<Longrightarrow> refused (bindE (Keys.require_account_key p) f) w"
  using account_key_refused [of p w]
  by (cases "account_key p") (auto simp: account_key_passes intro: refused_bind refused_after)

lemma seq_passes: "from_result r w = (Inr (), w) \<Longrightarrow> refused m w \<Longrightarrow> refused (seqE (from_result r) m) w"
  unfolding seqE_def by (rule refused_after)

lemma serve_denied:
  assumes "\<not> authorized p r w"
  shows "denied (serve P secret p r) w s"
proof (cases r)
  case (PostComputer b)
  have "refused (create_route P p b) w"
  proof (cases "scope_allows p (\<lambda>sc. may_create_from sc (cb_recipe_id b))")
    case True
    then have "\<not> optional_label_granted p (cb_label b)" using assms by (simp add: PostComputer)
    then show ?thesis
      unfolding create_route_def scope_passes(1) [OF True] from_unit by (intro refused_seq scope_refused)
  qed (simp add: create_route_def refused_seq scope_refused)
  then show ?thesis by (simp add: PostComputer denied_lifted)
next
  case (PostExec i b)
  then show ?thesis using assms by (simp add: exec_denied)
next
  case (PostCheckpoint i b)
  let ?l = "case b of None \<Rightarrow> None | Some b \<Rightarrow> kb_label b"
  have "refused (checkpoint_route P p i b) w"
  proof (cases "optional_label_granted p ?l")
    case True
    then have "\<not> may_reach p (\<lambda>s. s = Running) i w" using assms by (simp add: PostCheckpoint)
    then show ?thesis
      unfolding checkpoint_route_def Let_def scope_passes(3) [OF True] from_unit by (intro refused_bind running_for_refused)
  qed (simp add: checkpoint_route_def Let_def refused_seq scope_refused)
  then show ?thesis by (simp add: PostCheckpoint denied_lifted)
next
  case (GetRecipe i)
  have "refused (get_recipe_route p i) w"
  proof (cases "scope_allows p sc_recipes_read")
    case True
    then have "\<not> owns_recipe p i w" using assms by (simp add: GetRecipe)
    then show ?thesis
      unfolding get_recipe_route_def scope_passes(2) [OF True] from_unit by (intro refused_bind owned_recipe_refused)
  qed (simp add: get_recipe_route_def refused_seq scope_refused)
  then show ?thesis by (simp add: GetRecipe denied_lifted)
next
  case (DeleteRecipe i)
  have "refused (delete_recipe_route P p i) w"
  proof (cases "account_key p")
    case True
    then have "\<not> owns_recipe p i w" using assms by (simp add: DeleteRecipe)
    then show ?thesis
      unfolding delete_recipe_route_def delete_owned_recipe_def
      by (intro seq_passes [OF account_key_passes(2) [OF True]] refused_seq refused_bind owned_recipe_refused)
  qed (simp add: delete_recipe_route_def refused_seq account_key_scope_refused)
  then show ?thesis by (simp add: DeleteRecipe denied_lifted)
next
  case (DeleteRule i)
  have "refused (bindE (Keys.require_account_key p) (\<lambda>a. get_rule a i)) w"
    by (rule account_routes_refused [where Q = "owns_rule p i w"]) (use assms in \<open>simp_all add: DeleteRule owned_rule_refused\<close>)
  then obtain e where e: "bindE (Keys.require_account_key p) (\<lambda>a. get_rule a i) w = (Inl e, w)" "refusal e"
    by (auto simp: refused_def)
  have "delete_rule_route p i (w, s) = (Inl e, (w, s))"
  proof (cases "Keys.require_account_key p w")
    case (Pair x v)
    then have v: "v = w" by (auto simp: Keys.require_account_key_def ret_def raise_domain_def raise_def split: option.splits)
    show ?thesis
      using e(1) by (cases x) (auto simp: delete_rule_route_def bindE_def lifted_def Pair v seqE_def with_ingress_def delete_rule_def
        split: prod.splits sum.splits)
  qed
  then show ?thesis using e(2) by (auto simp: DeleteRule denied_def)
qed (use assms in \<open>simp_all add: exec_bg_route_def exec_logs_route_def exec_kill_route_def upload_route_def download_route_def
      status_route_def destroy_route_def fork_route_def delete_checkpoint_route_def fork_label_route_def merge_route_def
      create_recipe_route_def list_recipes_route_def submit_route_def create_key_route_def list_keys_route_def delete_key_route_def
      create_rule_route_def list_rules_route_def get_rule_route_def update_rule_route_def rotate_rule_route_def
      test_rule_route_def rule_logs_route_def update_rule_def rotate_rule_def rule_logs_def Let_def
      denied_lifted refused_bind refused_seq running_for_refused owned_for_refused checkpoint_for_refused record_refused
      account_key_refused account_key_scope_refused scope_refused job_refused optional_label_granted_def
      account_routes_refused [where Q = "owns_rule p i w" for i] owned_rule_refused owned_key_refused
      account_routes_refused [where Q = "owns_key p i w" for i]\<close>)

section \<open>Complete mediation\<close>

definition permitted :: "string option \<Rightarrow> request \<Rightarrow> 'h world \<Rightarrow> bool" where
  "permitted header r w \<longleftrightarrow> (\<exists>p. outcome (require_principal header) w = Inr p \<and> authorized p r w)"

definition client_error :: "http_response \<Rightarrow> bool" where
  "client_error resp \<longleftrightarrow> hr_status resp \<in> {400, 401, 403, 404, 422, 429}"

lemma refusal_response: "refusal e \<Longrightarrow> is_exception e \<and> client_error (error_response e)"
  by (auto simp: refusal_def error_response_def handle_domain_error_def status_for_def status_by_type_def client_error_def)

lemma too_many_response: "is_exception too_many \<and> client_error (error_response too_many)"
proof -
  have "py_int ''429'' = Some 429" by code_simp
  then show ?thesis by (simp add: too_many_def error_response_def with_status_def client_error_def)
qed

lemma unauthorized_response: "is_exception (unauthorized d) \<and> client_error (error_response (unauthorized d))"
proof -
  have "py_int ''401'' = Some 401" by code_simp
  then show ?thesis by (simp add: unauthorized_def error_response_def with_status_def client_error_def)
qed

lemma require_principal_cases:
  "(\<exists>p. require_principal header w = (Inr p, w)) \<or> (\<exists>d. require_principal header w = (Inl (unauthorized d), w))"
  by (auto simp: require_principal_def bindE_def reads_def ret_def raise_def split: option.splits)

lemma mediated:
  assumes "\<not> permitted header r w"
  shows "\<exists>resp s'. handle_request P header r (w, s) = (Inr resp, (w, s')) \<and> client_error resp"
  using require_principal_cases [of header w]
proof (elim disjE exE)
  fix d assume "require_principal header w = (Inl (unauthorized d), w)"
  then show ?thesis
    using unauthorized_response [of d]
    by (simp add: handle_request_def catch_exception_def catchE_def tryE_def bindE_def lifted_def ret_def)
next
  fix p assume p: "require_principal header w = (Inr p, w)"
  have "\<not> authorized p r w" using assms p by (simp add: permitted_def outcome_def)
  then obtain e s' where e: "serve P (secret_of header) p r (w, s) = (Inl e, (w, s'))" "refusal e \<or> e = too_many"
    using serve_denied [of p r w P "secret_of header" s] by (auto simp: denied_def)
  have "is_exception e \<and> client_error (error_response e)" using e(2) refusal_response too_many_response by blast
  moreover have "client_error unprocessable" by (simp add: client_error_def unprocessable_def with_status_def)
  ultimately show ?thesis
    using p e(1) by (simp add: handle_request_def catch_exception_def catchE_def tryE_def bindE_def lifted_def ret_def)
qed


definition demo_services :: services where
  "demo_services = \<lparr>sv_limiter = new_limiter 80 10, sv_ingress = []\<rparr>"

definition plain_coercion :: coercion where
  "plain_coercion a j = Inr j"

definition demo_process :: "fake process" where
  "demo_process = \<lparr>pc_env = fake_env, pc_domain = ''example.com'', pc_coercion = plain_coercion, pc_now = 0, pc_sql_now = ''0'',
                   pc_parse_qs = (\<lambda>_. [])\<rparr>"


section \<open>Recipes of other accounts\<close>

definition other_recipe :: recipe where
  "other_recipe = demo_recipe\<lparr>r_id := ''rcp-2'', r_account_id := ''acct-2'', r_status := RReady, r_base_volume_id := Some 7\<rparr>"

definition shared_world :: "fake world" where
  "shared_world = new_world\<lparr>w_host := new_fake\<lparr>fk_volumes := [(0, None), (7, Some 0)]\<rparr>,
     w_accounts := [demo_account, demo_account\<lparr>a_id := ''acct-2'', a_api_key := ''key-2''\<rparr>],
     w_recipes := [other_recipe]\<rparr>"

definition from_recipe :: create_body where
  "from_recipe = \<lparr>cb_recipe_id = Some ''rcp-2'', cb_needs = None, cb_exec = None, cb_self_destruct = False,
                  cb_callback_url = None, cb_label = None, cb_meta_exec = None\<rparr>"

section \<open>A log that cannot be read\<close>

text \<open>The account's key reads the log of one of its rules, which has a row with a result no response takes.\<close>

definition unreadable_log :: "string option \<Rightarrow> string \<Rightarrow> 'h world \<Rightarrow> bool" where
  "unreadable_log header i w \<longleftrightarrow>
     (\<exists>p r. outcome (require_principal header) w = Inr p \<and> account_key p \<and> get_ingress_rule_by_id i w = Some r \<and>
        ir_account_id r = a_id (p_account p) \<and>
        list_ex (\<lambda>l. dict_field (il_starlark_result l) = Inl not_a_dict) (list_ingress_logs (ir_internal_id r) w))"

lemma log_responses_fail:
  assumes "list_ex (\<lambda>l. dict_field (il_starlark_result l) = Inl not_a_dict) ls"
  shows "each_response ingress_log_response ls = Inl not_a_dict"
proof -
  from assms obtain l where "l \<in> set ls" "ingress_log_response l = Inl not_a_dict"
    by (auto simp: list_ex_iff ingress_log_response_def bind_sum_def)
  then show ?thesis
    by (rule each_response_fails)
       (auto simp: ingress_log_response_def dict_field_def bind_sum_def split: option.splits if_splits)
qed

lemma not_a_dict_response:
  "is_exception not_a_dict" "error_response not_a_dict = with_status 500 (JStr ''Internal Server Error'')"
  by (simp_all add: not_a_dict_def error_response_def)

lemma unreadable_log_route:
  assumes "account_key p" "get_ingress_rule_by_id i w = Some r" "ir_account_id r = a_id (p_account p)"
    "list_ex (\<lambda>l. dict_field (il_starlark_result l) = Inl not_a_dict) (list_ingress_logs (ir_internal_id r) w)"
  shows "rule_logs_route p i w = (Inl not_a_dict, w)"
  using log_responses_fail [OF assms(4)] assms(1-3)
  by (simp add: rule_logs_route_def rule_logs_def get_rule_def account_key_passes bindE_def reads_def ret_def from_result_def raise_def)

text \<open>C39: a transform that once returned neither a dict nor None makes the log of its rule unreadable: while the
  row is among the last hundred, reading the log is answered with an internal error.\<close>

theorem bad_result_hides_logs:
  assumes "unreadable_log header i w"
  shows "handle_request P header (GetRuleLogs i) (w, s) = (Inr (with_status 500 (JStr ''Internal Server Error'')), (w, s))"
proof -
  obtain p r where p: "outcome (require_principal header) w = Inr p" "rule_logs_route p i w = (Inl not_a_dict, w)"
    using assms unreadable_log_route unfolding unreadable_log_def by blast
  then have "require_principal header w = (Inr p, w)"
    using require_principal_cases [of header w] by (auto simp: outcome_def)
  then show ?thesis
    using p(2) by (simp add: handle_request_def catch_exception_def catchE_def tryE_def bindE_def lifted_def ret_def
      not_a_dict_response)
qed

text \<open>The transform of the rule returns a text: the trigger is refused, and the log is unreadable from then on.\<close>

definition text_process :: "fake process" where
  "text_process = demo_process\<lparr>pc_env := fake_env\<lparr>e_lib := fake_libraries\<lparr>lib_starlark_exec := (\<lambda>_. Inr [''transform'']),
                     lib_starlark_eval := (\<lambda>_ _. Inr (JStr ''fork''))\<rparr>\<rparr>\<rparr>"

definition rule_world :: "fake world" where
  "rule_world = new_world\<lparr>w_accounts := [demo_account], w_ingress_rules := [demo_rule]\<rparr>"

definition hook :: http_in where
  "hook = \<lparr>hi_method = ''GET'', hi_path = ''/ingress/t-1'', hi_headers = [], hi_query = [], hi_chunks = []\<rparr>"

definition after_hook :: "fake world" where
  "after_hook = fst (snd (handle_ingress text_process (ir_id demo_rule) hook (rule_world, demo_services)))"

lemma bad_result_hides_logs_witness:
  "map il_starlark_result (w_ingress_logs after_hook) = [Some (JStr ''fork'')] \<and>
   fst (handle_request text_process (Some ''Bearer key'') (GetRuleLogs (ir_id demo_rule)) (after_hook, demo_services)) =
     Inr (with_status 500 (JStr ''Internal Server Error''))"
proof
  show "map il_starlark_result (w_ingress_logs after_hook) = [Some (JStr ''fork'')]" by code_simp
  have "outcome (require_principal (Some ''Bearer key'')) after_hook = Inr \<lparr>p_account = demo_account, p_key = None\<rparr>"
    "get_ingress_rule_by_id (ir_id demo_rule) after_hook = Some demo_rule"
    "ir_account_id demo_rule = a_id demo_account"
    "list_ex (\<lambda>l. dict_field (il_starlark_result l) = Inl not_a_dict) (list_ingress_logs (ir_internal_id demo_rule) after_hook)"
    by code_simp+
  then have "unreadable_log (Some ''Bearer key'') (ir_id demo_rule) after_hook"
    unfolding unreadable_log_def account_key_def
    by (intro exI [of _ "\<lparr>p_account = demo_account, p_key = None\<rparr>"] exI [of _ demo_rule]) simp
  from bad_result_hides_logs [OF this, of text_process demo_services]
  show "fst (handle_request text_process (Some ''Bearer key'') (GetRuleLogs (ir_id demo_rule)) (after_hook, demo_services)) =
     Inr (with_status 500 (JStr ''Internal Server Error''))" by simp
qed

end
