(* ===== verification/Machine.thy ===== *)
theory Machine
  imports World
begin

text \<open>
  The machine below the host boundary, as src/src/mshkn/host uses it: shell commands
  (host/shell.py), processes and sockets, the event loop's clock, the API of a Firecracker process, and
  the guest's port, vsock and SSH session. These are operations of the machine, about which nothing is
  known; the drivers of the host boundary (theories \<open>DmThin\<close>, \<open>Firecracker\<close>) are written over them.

  A loop that polls until a deadline of the clock is \<open>rounds\<close>: it runs at most \<open>mc_fuel\<close> rounds, and its value is
  None when they are used up. That they suffice when every sleep takes its time is
  \<open>rounds_end\<close>.
\<close>

section \<open>The machine\<close>

datatype presence = Present | Absent | Denied

datatype pid_wait = ExitSeen | ExitUnseen | NoPidfd | AlreadyGone

datatype stream_read = Line string | ReadTimeout | Partial string

record 's machine =
  mc_proc :: "string \<Rightarrow> ('s, int \<times> string \<times> string) act"
  mc_spawn :: "string \<Rightarrow> string \<Rightarrow> ('s, int) act"
  mc_kill :: "int \<Rightarrow> ('s, bool) act"
  mc_reap :: "int \<Rightarrow> ('s, unit) act"
  mc_presence :: "int \<Rightarrow> 's \<Rightarrow> presence"
  mc_wait_pid :: "int \<Rightarrow> rat \<Rightarrow> ('s, pid_wait) act"
  mc_exists :: "string \<Rightarrow> ('s, bool) act"
  mc_unlink :: "string \<Rightarrow> ('s, unit) act"
  mc_mkdirs :: "path \<Rightarrow> ('s, unit) act"
  mc_mkdtemp :: "string \<Rightarrow> ('s, path) act"
  mc_rmdir :: "path \<Rightarrow> ('s, unit) act"
  mc_time :: "('s, rat) act"
  mc_sleep :: "rat \<Rightarrow> ('s, unit) act"
  mc_wall_clock :: "('s, int) act"
  mc_api :: "string \<Rightarrow> string \<Rightarrow> string \<Rightarrow> json \<Rightarrow> ('s, int \<times> string) act"
  mc_port_open :: "string \<Rightarrow> int \<Rightarrow> ('s, bool) act"
  mc_ssh :: "string \<Rightarrow> string \<Rightarrow> ('s, unit) act"
  mc_vsock_open :: "string \<Rightarrow> ('s, unit) act"
  mc_vsock_write :: "string \<Rightarrow> ('s, unit) act"
  mc_vsock_line :: "rat \<Rightarrow> ('s, stream_read) act"
  mc_vsock_until :: "string \<Rightarrow> rat \<Rightarrow> ('s, stream_read) act"
  mc_vsock_close :: "('s, unit) act"
  mc_os_error :: "exc \<Rightarrow> bool"
  mc_transport_error :: "exc \<Rightarrow> bool"
  mc_start_done :: "'s \<Rightarrow> bool"
  mc_fuel :: nat

text \<open>
  \<open>mc_kill\<close> is SIGKILL and says whether the process was there; \<open>mc_wait_pid\<close> waits for the exit on a
  pidfd; \<open>mc_unlink\<close> does not mind a missing file; \<open>mc_time\<close> is the event loop's clock and
  \<open>mc_wall_clock\<close> \<open>int(time.time())\<close>; \<open>mc_port_open\<close> is one attempt to connect; \<open>mc_ssh\<close> connects and runs
  one command with \<open>check=True\<close>; \<open>mc_os_error\<close> and \<open>mc_transport_error\<close> are the \<open>isinstance\<close> tests against
  OSError and against \<open>_WRAPPED\<close>; \<open>mc_start_done\<close> is the event loop's schedule where it matters, whether a
  process being started has been waited for before another step fails.
\<close>

section \<open>Shell commands\<close>

text \<open>The detail of a ShellError stands for its field \<open>stderr\<close>; the response to a host error never shows it.\<close>

definition shell_error :: "string \<Rightarrow> int \<Rightarrow> string \<Rightarrow> exc" where
  "shell_error cmd returncode stderr =
     MshknError ShellError (''Command failed ('' @ str_int returncode @ ''): '' @ cmd @ newline @ stderr) (Some (JStr stderr))"

fun stderr_of :: "exc \<Rightarrow> string" where
  "stderr_of (MshknError _ _ (Some (JStr s))) = s"
| "stderr_of _ = []"

definition run_shell :: "'s machine \<Rightarrow> string \<Rightarrow> bool \<Rightarrow> ('s, string) act" where
  "run_shell M cmd check_status =
     bindE (mc_proc M cmd) (\<lambda>(returncode, stdout, stderr).
     if check_status \<and> returncode \<noteq> 0 then raise (shell_error cmd returncode stderr) else ret stdout)"

definition sh :: "'s machine \<Rightarrow> string \<Rightarrow> ('s, unit) act" where
  "sh M cmd = bindE (run_shell M cmd True) (\<lambda>_. ret ())"

definition sh_quiet :: "'s machine \<Rightarrow> string \<Rightarrow> ('s, unit) act" where
  "sh_quiet M cmd = bindE (run_shell M cmd False) (\<lambda>_. ret ())"

text \<open>\<open>try: m except ShellError as e: h\<close>, and the same for any HostError.\<close>

definition on_shell_error :: "('s, 'a) act \<Rightarrow> (exc \<Rightarrow> ('s, 'a) act) \<Rightarrow> ('s, 'a) act" where
  "on_shell_error m h = catchE m (\<lambda>e. if is_class ShellError e then h e else raise e)"

definition on_host_error :: "('s, 'a) act \<Rightarrow> (exc \<Rightarrow> ('s, 'a) act) \<Rightarrow> ('s, 'a) act" where
  "on_host_error m h = catchE m (\<lambda>e. if is_host_error e then h e else raise e)"

lemma wp_on_shell_error [wp_simps]:
  "wp (on_shell_error m h) Q R = wp m Q (\<lambda>e. if is_class ShellError e then wp (h e) Q R else R e)"
  by (simp add: on_shell_error_def wp_catchE wp_raise wp_if cong: if_cong)

lemma wp_on_host_error [wp_simps]:
  "wp (on_host_error m h) Q R = wp m Q (\<lambda>e. if is_host_error e then wp (h e) Q R else R e)"
  by (simp add: on_host_error_def wp_catchE wp_raise wp_if cong: if_cong)

lemma shell_error_class [simp]:
  "is_class ShellError (shell_error c r s)" "is_exception (shell_error c r s)" "stderr_of (shell_error c r s) = s"
  by (simp_all add: shell_error_def)

section \<open>Rounds of a waiting loop\<close>

fun rounds :: "nat \<Rightarrow> ('s, 'a option) act \<Rightarrow> ('s, 'a option) act" where
  "rounds 0 r = ret None"
| "rounds (Suc n) r = bindE r (\<lambda>x. case x of None \<Rightarrow> rounds n r | Some a \<Rightarrow> ret (Some a))"

text \<open>A loop whose rounds are used up is as good as interrupted there.\<close>

definition still_waiting :: exc where
  "still_waiting = Interrupt ''still waiting''"

definition waiting :: "'s machine \<Rightarrow> ('s, 'a option) act \<Rightarrow> ('s, 'a) act" where
  "waiting M r = bindE (rounds (mc_fuel M) r) (\<lambda>x. case x of None \<Rightarrow> raise still_waiting | Some a \<Rightarrow> ret a)"

text \<open>The clock never goes back, whatever is done between two readings, and a sleep takes its time.\<close>

definition steady :: "('s \<Rightarrow> rat) \<Rightarrow> ('s, 'a) act \<Rightarrow> bool" where
  "steady T m \<longleftrightarrow> (\<forall>t. keeps (\<lambda>s. t \<le> T s) m)"

definition keeps_time :: "'s machine \<Rightarrow> ('s \<Rightarrow> rat) \<Rightarrow> bool" where
  "keeps_time M T \<longleftrightarrow>
     (\<forall>s. mc_time M s = (Inr (T s), s)) \<and>
     (\<forall>d s. 0 \<le> d \<longrightarrow> T s + d \<le> T (snd (mc_sleep M d s))) \<and>
     (\<forall>p. steady T (mc_exists M p)) \<and> (\<forall>i p. steady T (mc_port_open M i p)) \<and>
     (\<forall>p. steady T (mc_vsock_open M p)) \<and> (\<forall>t. steady T (mc_vsock_write M t)) \<and>
     (\<forall>d. steady T (mc_vsock_line M d)) \<and> (\<forall>t d. steady T (mc_vsock_until M t d)) \<and> steady T (mc_vsock_close M)"

text \<open>One round either ends the loop or takes \<open>d\<close>, and after the deadline it ends it.\<close>

definition paced :: "('s \<Rightarrow> rat) \<Rightarrow> rat \<Rightarrow> rat \<Rightarrow> ('s, 'a option) act \<Rightarrow> bool" where
  "paced T d deadline r \<longleftrightarrow>
     (\<forall>s. wp r (\<lambda>x s'. x = None \<longrightarrow> T s < deadline \<and> T s + d \<le> T s') (\<lambda>_ _. True) s)"

lemma rounds_end:
  fixes r :: "('s, 'a option) act"
  assumes "paced T d deadline r" and "0 < d"
  shows "deadline \<le> T s + of_nat n * d \<Longrightarrow> wp (rounds (Suc n) r) (\<lambda>x _. x \<noteq> None) (\<lambda>_ _. True) s"
proof (induction n arbitrary: s)
  case 0
  have "wp r (\<lambda>x s'. x = None \<longrightarrow> T s < deadline \<and> T s + d \<le> T s') (\<lambda>_ _. True) s"
    using assms(1) by (simp add: paced_def)
  then show ?case
    using 0 by (auto simp: wp_bindE wp_ret intro: wp_mono split: option.splits)
next
  case (Suc n)
  have "wp r (\<lambda>x s'. x = None \<longrightarrow> T s < deadline \<and> T s + d \<le> T s') (\<lambda>_ _. True) s"
    using assms(1) by (simp add: paced_def)
  then show ?case
    unfolding rounds.simps(2) [of "Suc n"] wp_bindE
  proof (rule wp_mono)
    fix x :: "'a option" and s' :: 's
    assume x: "x = None \<longrightarrow> T s < deadline \<and> T s + d \<le> T s'"
    show "wp (case x of None \<Rightarrow> rounds (Suc n) r | Some a \<Rightarrow> ret (Some a)) (\<lambda>x _. x \<noteq> None) (\<lambda>_ _. True) s'"
    proof (cases x)
      case None
      with x have "T s + d \<le> T s'" by simp
      then have "deadline \<le> T s' + of_nat n * d" using Suc.prems by (simp add: algebra_simps)
      from Suc.IH [OF this] show ?thesis by (simp add: None del: rounds.simps)
    qed (simp add: wp_ret)
  qed simp
qed

text \<open>No deadline of the drivers is more than thirty seconds away and no sleep shorter than two milliseconds,
  so 15001 rounds are enough for any of their loops.\<close>

definition ends :: "nat \<Rightarrow> ('s, 'a option) act \<Rightarrow> 's \<Rightarrow> bool" where
  "ends fuel r s \<longleftrightarrow> (case outcome (rounds fuel r) s of Inr None \<Rightarrow> False | _ \<Rightarrow> True)"

lemma paced_ends:
  assumes "paced T (1 / 500) deadline r" and "deadline \<le> T s + 30" and "15001 \<le> fuel"
  shows "ends fuel r s"
proof -
  obtain n where n: "fuel = Suc n" "15000 \<le> n" using assms(3) by (cases fuel) auto
  have "(15000 :: rat) \<le> of_nat n" using n(2) of_nat_mono [of 15000 n, where 'a = rat] by simp
  then have "deadline \<le> T s + of_nat n * (1 / 500)" using assms(2) by simp
  then have "wp (rounds fuel r) (\<lambda>x _. x \<noteq> None) (\<lambda>_ _. True) s"
    unfolding n(1) by (intro rounds_end [OF assms(1)]) simp_all
  then show ?thesis by (auto simp: ends_def wp_outcome split: sum.splits option.splits)
qed

text \<open>The loop "while the deadline is not reached: look, and sleep".\<close>

definition look_round :: "'s machine \<Rightarrow> ('s, bool) act \<Rightarrow> rat \<Rightarrow> rat \<Rightarrow> ('s, bool option) act" where
  "look_round M look deadline interval =
     bindE (mc_time M) (\<lambda>now.
     if now < deadline
     then bindE look (\<lambda>found. if found then ret (Some True) else seqE (mc_sleep M interval) (ret None))
     else ret (Some False))"

lemma wp_time: "keeps_time M T \<Longrightarrow> wp (mc_time M) Q R s \<longleftrightarrow> Q (T s) s"
  by (simp add: keeps_time_def wp_def)

lemma wp_steady: "steady T m \<Longrightarrow> wp m (\<lambda>_ s'. T s \<le> T s') (\<lambda>_ s'. T s \<le> T s') s"
  by (rule keeps_wp [where I = "\<lambda>s'. T s \<le> T s'"]) (simp_all add: steady_def)

lemma wp_sleep:
  assumes "keeps_time M T" and "0 \<le> d" and "\<And>s'. T s + d \<le> T s' \<Longrightarrow> Q () s'"
  shows "wp (mc_sleep M d) Q (\<lambda>_ _. True) s"
proof -
  have "T s + d \<le> T (snd (mc_sleep M d s))" using assms(1,2) by (simp add: keeps_time_def)
  then show ?thesis using assms(3) by (auto simp: wp_def split: prod.splits sum.splits)
qed

lemma look_round_paced:
  assumes t: "keeps_time M T" and l: "steady T look" and d: "1 / 500 \<le> interval"
  shows "paced T (1 / 500) deadline (look_round M look deadline interval)"
  unfolding paced_def
proof
  fix s
  have "wp look (\<lambda>found. wp (if found then ret (Some True) else seqE (mc_sleep M interval) (ret None))
          (\<lambda>x s'. x = None \<longrightarrow> T s < deadline \<and> T s + 1 / 500 \<le> T s') (\<lambda>_ _. True)) (\<lambda>_ _. True) s"
    if "T s < deadline"
  proof (rule wp_mono [OF wp_steady [OF l]])
    fix found s'
    assume s': "T s \<le> T s'"
    have "wp (mc_sleep M interval) (\<lambda>_ s'. T s < deadline \<and> T s + 1 / 500 \<le> T s') (\<lambda>_ _. True) s'"
      by (rule wp_sleep [OF t]) (use d s' that in auto)
    then show "wp (if found then ret (Some True) else seqE (mc_sleep M interval) (ret None))
        (\<lambda>x s'. x = None \<longrightarrow> T s < deadline \<and> T s + 1 / 500 \<le> T s') (\<lambda>_ _. True) s'"
      by (simp add: wp_ret wp_seqE)
  qed simp
  then show "wp (look_round M look deadline interval)
      (\<lambda>x s'. x = None \<longrightarrow> T s < deadline \<and> T s + 1 / 500 \<le> T s') (\<lambda>_ _. True) s"
    by (simp add: look_round_def wp_bindE wp_time [OF t] wp_ret del: not_None_eq)
qed

end
