(* ===== verification/DmThin.thy ===== *)
theory DmThin
  imports Machine FakeHost Reaper
begin

text \<open>
  The drivers of the host boundary that are chains of shell commands: the dm-thin block store
  (src/src/mshkn/host/dmthin.py), the tap devices of the slots (host/network.py) and the rclone object
  store (host/r2.py), over the machine of theory \<open>Machine\<close>. \<open>dm_blocks\<close> and \<open>rclone_objects\<close> are the
  protocols of theory \<open>Host\<close> filled with them, so whatever is proved of the services for any host holds with
  these. Log lines are left out.
\<close>

section \<open>The block store\<close>

record pool =
  pl_name :: string
  pl_sectors :: int

definition dq :: "string \<Rightarrow> string" where
  "dq s = [squote] @ s @ [squote]"

text \<open>\<open>split("/")\<close> of a pair of counts and the ValueErrors on the way: another number of parts, or no number.\<close>

definition value_error_of :: "string \<Rightarrow> exc" where
  "value_error_of m = PyError ''ValueError'' m"

definition count_pair :: "string \<Rightarrow> exc + int \<times> int" where
  "count_pair t =
     (case split_on (CHR ''/'') t of
        [a, b] \<Rightarrow> (case (py_int a, py_int b) of (Some x, Some y) \<Rightarrow> Inr (x, y)
                  | _ \<Rightarrow> Inl (value_error_of ''invalid literal for int() with base 10''))
      | _ \<Rightarrow> Inl (value_error_of ''wrong number of values to unpack''))"

definition used_ratio :: "int \<times> int \<Rightarrow> exc + rat" where
  "used_ratio c = (if snd c = 0 then Inr 0 else true_div (fst c) (snd c))"

definition parse_pool_status :: "string \<Rightarrow> exc + pool_usage" where
  "parse_pool_status text =
     (let parts = words text in
      if length parts < 6 \<or> parts ! 2 \<noteq> ''thin-pool'' then Inl (value_error_of (''not a thin-pool status line: '' @ py_repr text))
      else bind_sum (count_pair (parts ! 4)) (\<lambda>meta.
           bind_sum (count_pair (parts ! 5)) (\<lambda>data.
           bind_sum (used_ratio data) (\<lambda>d.
           bind_sum (used_ratio meta) (\<lambda>m.
           Inr \<lparr>pu_data_used_ratio = d, pu_metadata_used_ratio = m\<rparr>)))))"

definition dm_message :: "pool \<Rightarrow> string \<Rightarrow> string" where
  "dm_message p m = ''dmsetup message '' @ pl_name p @ '' 0 '' @ dq m"

definition exists_already :: "exc \<Rightarrow> bool" where
  "exists_already e \<longleftrightarrow> occurs ''File exists'' (stderr_of e) \<or> occurs ''already exists'' (stderr_of e)"

definition dm_snap :: "'s machine \<Rightarrow> pool \<Rightarrow> int \<Rightarrow> int \<Rightarrow> ('s, unit) act" where
  "dm_snap M p source_volume_id new_volume_id =
     (let cmd = dm_message p (''create_snap '' @ str_int new_volume_id @ '' '' @ str_int source_volume_id) in
      on_shell_error (sh M cmd)
        (\<lambda>e. if \<not> exists_already e then raise e
             else seqE (sh M (dm_message p (''delete '' @ str_int new_volume_id))) (sh M cmd)))"

definition thin_table :: "pool \<Rightarrow> int \<Rightarrow> string" where
  "thin_table p volume_id =
     ''0 '' @ str_int (pl_sectors p) @ '' thin /dev/mapper/'' @ pl_name p @ '' '' @ str_int volume_id"

definition dm_activate :: "'s machine \<Rightarrow> pool \<Rightarrow> int \<Rightarrow> string \<Rightarrow> ('s, unit) act" where
  "dm_activate M p volume_id name =
     (let cmd = ''dmsetup create '' @ name @ '' --table '' @ dq (thin_table p volume_id) in
      on_shell_error (sh M cmd)
        (\<lambda>e. if \<not> exists_already e then raise e
             else seqE (sh_quiet M (''dmsetup remove '' @ name)) (sh M cmd)))"

definition dm_deactivate :: "'s machine \<Rightarrow> string \<Rightarrow> ('s, unit) act" where
  "dm_deactivate M name = sh M (''dmsetup remove '' @ name)"

text \<open>\<open>for attempt in range(n): try \<dots> break; except ShellError: sleep unless it was the last\<close>.\<close>

fun attempts :: "'s machine \<Rightarrow> ('s, unit) act \<Rightarrow> nat \<Rightarrow> ('s, unit) act" where
  "attempts M m 0 = ret ()"
| "attempts M m (Suc n) = on_shell_error m (\<lambda>_. if n = 0 then ret () else seqE (mc_sleep M (1 / 2)) (attempts M m n))"

definition remove_retries :: nat where "remove_retries = 5"

definition umount_retries :: nat where "umount_retries = 3"

definition dm_remove :: "'s machine \<Rightarrow> pool \<Rightarrow> int \<Rightarrow> string \<Rightarrow> ('s, unit) act" where
  "dm_remove M p volume_id name =
     seqE (attempts M (sh M (''dmsetup remove '' @ name)) remove_retries)
          (on_shell_error (sh M (dm_message p (''delete '' @ str_int volume_id))) (\<lambda>_. ret ()))"

definition dm_mkfs :: "'s machine \<Rightarrow> string \<Rightarrow> ('s, unit) act" where
  "dm_mkfs M name = sh M (''mkfs.ext4 -F /dev/mapper/'' @ name)"

text \<open>\<open>mounted\<close>: entering (what follows runs with the mount point), and leaving.\<close>

definition rmdir_quiet :: "'s machine \<Rightarrow> path \<Rightarrow> ('s, unit) act" where
  "rmdir_quiet M p = catchE (mc_rmdir M p) (\<lambda>e. if mc_os_error M e then ret () else raise e)"

definition dm_mount :: "'s machine \<Rightarrow> string \<Rightarrow> bool \<Rightarrow> ('s, path) act" where
  "dm_mount M name readonly =
     bindE (mc_mkdtemp M ''mshkn-mnt-'') (\<lambda>mount_point.
     seqE (catchE (sh M (''mount'' @ (if readonly then '' -o ro'' else []) @ '' /dev/mapper/'' @ name @ '' '' @ path_text mount_point))
             (\<lambda>e. seqE (rmdir_quiet M mount_point) (raise e)))
          (ret mount_point))"

definition dm_unmount :: "'s machine \<Rightarrow> path \<Rightarrow> ('s, unit) act" where
  "dm_unmount M mount_point =
     seqE (attempts M (sh M (''umount '' @ path_text mount_point)) umount_retries) (rmdir_quiet M mount_point)"

definition dm_mounted :: "'s machine \<Rightarrow> string \<Rightarrow> bool \<Rightarrow> (path \<Rightarrow> ('s, 'a) act) \<Rightarrow> ('s, 'a) act" where
  "dm_mounted M name readonly body =
     bindE (dm_mount M name readonly) (\<lambda>mount_point. finallyE (body mount_point) (dm_unmount M mount_point))"

definition greater_id :: "int option \<Rightarrow> int \<Rightarrow> int option" where
  "greater_id m v = (case m of None \<Rightarrow> Some v | Some k \<Rightarrow> Some (if v > k then v else k))"

definition line_volume :: "int option \<Rightarrow> string \<Rightarrow> int option" where
  "line_volume m line =
     (let parts = words line in
      if 6 \<le> length parts \<and> parts ! 3 = ''thin''
      then case py_int (parts ! 5) of None \<Rightarrow> m | Some v \<Rightarrow> greater_id m v
      else m)"

definition max_mapped :: "string \<Rightarrow> int option" where
  "max_mapped output = foldl line_volume None (splitlines (strip output))"

definition dm_max_volume_id :: "'s machine \<Rightarrow> ('s, int option) act" where
  "dm_max_volume_id M =
     on_shell_error (bindE (run_shell M ''dmsetup table --target thin'' True) (\<lambda>output. ret (max_mapped output)))
       (\<lambda>_. ret None)"

definition dm_usage :: "'s machine \<Rightarrow> pool \<Rightarrow> ('s, pool_usage) act" where
  "dm_usage M p = bindE (run_shell M (''dmsetup status '' @ pl_name p) True) (\<lambda>t. from_result (parse_pool_status t))"

section \<open>Tap devices\<close>

definition tap_exists :: "'s machine \<Rightarrow> string \<Rightarrow> ('s, bool) act" where
  "tap_exists M tap = bindE (run_shell M (''ip link show '' @ tap @ '' 2>/dev/null'') False) (\<lambda>t. ret (strip t \<noteq> []))"

fun add_tap :: "'s machine \<Rightarrow> string \<Rightarrow> nat \<Rightarrow> ('s, unit) act" where
  "add_tap M tap 0 = ret ()"
| "add_tap M tap (Suc n) =
     on_shell_error (sh M (''ip tuntap add dev '' @ tap @ '' mode tap''))
       (\<lambda>e. if n = 0 then raise e
            else seqE (mc_sleep M (1 / 2)) (seqE (sh_quiet M (''ip link del '' @ tap)) (add_tap M tap n)))"

definition forward_accept :: "string \<Rightarrow> string \<Rightarrow> string" where
  "forward_accept tap ip = ''FORWARD -i '' @ tap @ '' -s '' @ ip @ '' ! -d 172.16.0.0/12 -j ACCEPT''"

definition forward_drop :: "string \<Rightarrow> string \<Rightarrow> string" where
  "forward_drop tap ip = ''FORWARD -i '' @ tap @ '' -s '' @ ip @ '' -d 172.16.0.0/12 -j DROP''"

definition create_tap :: "'s machine \<Rightarrow> int \<Rightarrow> ('s, unit) act" where
  "create_tap M slot =
     (let tap = slot_to_tap slot; (host_ip, guest_ip) = slot_to_ip slot in
      seqE (sh_quiet M (''ip link del '' @ tap))
      (seqE (add_tap M tap 3)
            (sh M (''ip addr add '' @ host_ip @ ''/30 dev '' @ tap @ '' && ip link set '' @ tap @ '' up && '' @
                   ''ip neigh replace '' @ guest_ip @ '' lladdr '' @ slot_to_mac slot @ '' dev '' @ tap @ '' nud permanent && '' @
                   ''iptables -I '' @ forward_accept tap guest_ip @ '' && iptables -I '' @ forward_drop tap guest_ip))))"

definition destroy_tap :: "'s machine \<Rightarrow> int \<Rightarrow> ('s, unit) act" where
  "destroy_tap M slot =
     (let tap = slot_to_tap slot; guest_ip = snd (slot_to_ip slot) in
      seqE (sh_quiet M (''iptables -D '' @ forward_accept tap guest_ip))
      (seqE (sh_quiet M (''iptables -D '' @ forward_drop tap guest_ip))
      (bindE (tap_exists M tap) (\<lambda>there.
       if \<not> there then ret () else on_shell_error (sh M (''ip link del '' @ tap)) (\<lambda>_. ret ())))))"

section \<open>The object store\<close>

record bucket =
  bu_name :: string
  bu_remote :: string

definition object_url :: "bucket \<Rightarrow> string \<Rightarrow> string" where
  "object_url b key_prefix = bu_remote b @ '':'' @ bu_name b @ ''/'' @ key_prefix @ ''/''"

definition rclone_upload_dir :: "'s machine \<Rightarrow> bucket \<Rightarrow> path \<Rightarrow> string \<Rightarrow> ('s, unit) act" where
  "rclone_upload_dir M b local_dir key_prefix =
     sh M (''nice -n 19 ionice -c 3 rclone copy '' @ path_text local_dir @ ''/ '' @ object_url b key_prefix)"

definition rclone_download_dir :: "'s machine \<Rightarrow> bucket \<Rightarrow> string \<Rightarrow> path \<Rightarrow> ('s, unit) act" where
  "rclone_download_dir M b key_prefix local_dir =
     seqE (mc_mkdirs M local_dir) (sh M (''rclone copy '' @ object_url b key_prefix @ '' '' @ path_text local_dir @ ''/''))"

definition rclone_delete_prefix :: "'s machine \<Rightarrow> bucket \<Rightarrow> string \<Rightarrow> ('s, unit) act" where
  "rclone_delete_prefix M b key_prefix = sh_quiet M (''rclone purge '' @ object_url b key_prefix)"

section \<open>The protocols\<close>

text \<open>What the drivers keep beside the machine: the mount points of the context managers entered, by device,
  and whether something may be left on the staging slot (theory \<open>Firecracker\<close>).\<close>

record drivers =
  dr_mounts :: "(string \<times> path) list"
  dr_staging_dirty :: bool

type_synonym ('s, 'a) driver = "('s \<times> drivers, 'a) act"

definition enter_mount :: "'s machine \<Rightarrow> string \<Rightarrow> bool \<Rightarrow> ('s, path) driver" where
  "enter_mount M name readonly =
     bindE (lifted (dm_mount M name readonly)) (\<lambda>mount_point.
     seqE (assign (dr_mounts_update (\<lambda>ms. (name, mount_point) # ms))) (ret mount_point))"

definition leave_mount :: "'s machine \<Rightarrow> string \<Rightarrow> ('s, unit) driver" where
  "leave_mount M name =
     bindE local (\<lambda>d.
     case map_of (dr_mounts d) name of
       None \<Rightarrow> ret ()
     | Some mount_point \<Rightarrow>
         seqE (assign (dr_mounts_update (filter (\<lambda>(n, _). n \<noteq> name)))) (lifted (dm_unmount M mount_point)))"

definition dm_blocks :: "'s machine \<Rightarrow> pool \<Rightarrow> ('s \<times> drivers) block_store" where
  "dm_blocks M p =
     \<lparr>bs_snap = (\<lambda>s n. lifted (dm_snap M p s n)), bs_activate = (\<lambda>v n. lifted (dm_activate M p v n)),
      bs_deactivate = (\<lambda>n. lifted (dm_deactivate M n)), bs_remove = (\<lambda>v n. lifted (dm_remove M p v n)),
      bs_mkfs = (\<lambda>n. lifted (dm_mkfs M n)), bs_mount = enter_mount M, bs_unmount = leave_mount M,
      bs_max_volume_id = lifted (dm_max_volume_id M), bs_usage = lifted (dm_usage M p)\<rparr>"

definition rclone_objects :: "'s machine \<Rightarrow> bucket \<Rightarrow> ('s \<times> drivers) object_store" where
  "rclone_objects M b =
     \<lparr>ob_upload_dir = (\<lambda>d k. lifted (rclone_upload_dir M b d k)),
      ob_download_dir = (\<lambda>k d. lifted (rclone_download_dir M b k d)),
      ob_delete_prefix = (\<lambda>k. lifted (rclone_delete_prefix M b k))\<rparr>"

section \<open>The greatest volume id\<close>

definition token :: "string \<Rightarrow> bool" where
  "token t \<longleftrightarrow> t \<noteq> [] \<and> list_all (\<lambda>c. \<not> is_space c) t"

lemma space_char: "is_space (CHR '' '')"
  by (simp add: is_space_def)

lemma words_token: "token t \<Longrightarrow> words (t @ CHR '' '' # r) = t # words r"
proof (induction t)
  case (Cons c t)
  show ?case
  proof (cases t)
    case Nil
    then show ?thesis using Cons.prems by (cases r) (auto simp: token_def space_char)
  next
    case (Cons d t')
    then have "words (t @ CHR '' '' # r) = t # words r" using Cons.IH Cons.prems by (simp add: token_def)
    then show ?thesis using Cons Cons.prems by (auto simp: token_def)
  qed
qed (simp add: token_def)

lemma words_last: "token t \<Longrightarrow> words t = [t]"
proof (induction t)
  case (Cons c t)
  then show ?case by (cases t) (auto simp: token_def)
qed (simp add: token_def)

lemma line_end_space: "is_line_end c \<Longrightarrow> is_space c"
  unfolding is_line_end_def is_space_def Let_def by presburger

text \<open>A line of text: something without ends of line.\<close>

definition one_line :: "string \<Rightarrow> bool" where
  "one_line l \<longleftrightarrow> l \<noteq> [] \<and> list_all (\<lambda>c. \<not> is_line_end c) l"

lemma newline_end: "is_line_end (CHR 0x0A)"
  by (simp add: is_line_end_def)

lemma splitlines_line: "one_line l \<Longrightarrow> splitlines (l @ CHR 0x0A # r) = l # splitlines r"
proof (induction l)
  case (Cons c l)
  show ?case
  proof (cases l)
    case Nil
    then show ?thesis using Cons.prems by (cases r) (auto simp: one_line_def newline_end)
  next
    case (Cons d l')
    then have "splitlines (l @ CHR 0x0A # r) = l # splitlines r" using Cons.IH Cons.prems by (simp add: one_line_def)
    then show ?thesis using Cons Cons.prems by (simp add: one_line_def)
  qed
qed (simp add: one_line_def)

lemma splitlines_last: "one_line l \<Longrightarrow> splitlines l = [l]"
proof (induction l)
  case (Cons c l)
  then show ?case by (cases l) (auto simp: one_line_def)
qed (simp add: one_line_def)

lemma splitlines_join: "list_all one_line ls \<Longrightarrow> splitlines (join newline ls) = ls"
proof (induction newline ls rule: join.induct)
  case (2 l)
  then show ?case by (simp add: splitlines_last)
next
  case (3 l m ls)
  have "splitlines (l @ CHR 0x0A # join newline (m # ls)) = l # splitlines (join newline (m # ls))"
    using "3.prems" by (intro splitlines_line) simp
  then show ?case using 3 by (simp add: newline_def)
qed simp

lemma strip_trailing:
  assumes "s \<noteq> []" "\<not> is_space (hd s)" "\<not> is_space (last s)"
  shows "strip (s @ newline) = s"
proof -
  have "lstrip (s @ newline) = s @ newline" using assms(1,2) by (cases s) (simp_all add: lstrip_def)
  moreover have "is_space (CHR 0x0A)" by (simp add: is_space_def)
  moreover have "dropWhile is_space (rev s) = rev s"
    using assms(1,3) by (cases s rule: rev_cases) simp_all
  ultimately show ?thesis by (simp add: strip_def rstrip_def newline_def)
qed

text \<open>The table as dmsetup prints it: a line for every thin device.\<close>

definition device_line :: "string \<Rightarrow> pool \<Rightarrow> string \<times> nat \<Rightarrow> string" where
  "device_line dev p row =
     fst row @ '': 0 '' @ str_int (pl_sectors p) @ '' thin '' @ dev @ '' '' @ str_nat (snd row)"

definition device_table :: "string \<Rightarrow> pool \<Rightarrow> (string \<times> nat) list \<Rightarrow> string" where
  "device_table dev p rows = (if rows = [] then ''No devices found'' else join newline (map (device_line dev p) rows)) @ newline"

lemma token_digits: "token (str_nat n)"
  by (auto simp: token_def list_all_iff digit_not_space str_nat_digits)

lemma token_int: "token (str_int i)"
proof -
  have "\<not> is_space (CHR ''-'')" by (simp add: is_space_def)
  then show ?thesis using token_digits by (simp add: str_int_def token_def)
qed

lemma device_line_words:
  assumes "token name" "token dev"
  shows "words (device_line dev p (name, v)) = [name @ '':'', ''0'', str_int (pl_sectors p), ''thin'', dev, str_nat v]"
proof -
  have c: "\<not> is_space (CHR '':'')" by (simp add: is_space_def)
  have n: "token (name @ '':'')" using assms(1) c by (simp add: token_def)
  have t: "token ''0''" "token ''thin''" by (simp_all add: token_def is_space_def)
  have "device_line dev p (name, v) =
      (name @ '':'') @ CHR '' '' # ''0'' @ CHR '' '' # str_int (pl_sectors p) @ CHR '' '' # ''thin'' @ CHR '' '' #
      dev @ CHR '' '' # str_nat v"
    by (simp add: device_line_def)
  then show ?thesis
    by (simp only: words_token [OF n] words_token [OF t(1)] words_token [OF t(2)] words_token [OF token_int]
        words_token [OF assms(2)] words_last [OF token_digits])
qed

lemma line_volume_device:
  "token name \<Longrightarrow> token dev \<Longrightarrow> line_volume m (device_line dev p (name, v)) = greater_id m (int v)"
  by (simp add: line_volume_def device_line_words Let_def)

lemma token_line: "token t \<Longrightarrow> list_all (\<lambda>c. \<not> is_line_end c) t"
  by (auto simp: token_def list_all_iff dest: line_end_space)

lemma device_line_one: "token name \<Longrightarrow> token dev \<Longrightarrow> one_line (device_line dev p (name, v))"
  using token_line [of name] token_line [of dev] token_line [OF token_int, of "pl_sectors p"] token_line [OF token_digits, of v]
  by (simp add: one_line_def device_line_def is_line_end_def)

lemma foldl_greater: "foldl greater_id (Some k) vs = Some (foldl max k vs)"
  by (induction vs arbitrary: k) (auto simp: greater_id_def max_def)

lemma foldl_max: "foldl max k vs = Max (insert k (set vs))" for k :: int
proof (induction vs arbitrary: k)
  case (Cons v vs)
  then show ?case by (cases "vs = []") (auto simp: Max_insert max.assoc)
qed simp

definition thin_rows :: "string \<Rightarrow> (string \<times> nat) list \<Rightarrow> bool" where
  "thin_rows dev rows \<longleftrightarrow> token dev \<and> list_all (\<lambda>(name, v). token name) rows"

lemma last_join: "ls \<noteq> [] \<Longrightarrow> last ls \<noteq> [] \<Longrightarrow> join sep ls \<noteq> [] \<and> last (join sep ls) = last (last ls)"
  by (induction sep ls rule: join.induct) (auto simp: last_append)

lemma hd_join: "l \<noteq> [] \<Longrightarrow> hd (join sep (l # ls)) = hd l \<and> join sep (l # ls) \<noteq> []"
  by (cases ls) simp_all

lemma strip_table:
  assumes "thin_rows dev rows" and "rows \<noteq> []"
  shows "strip (device_table dev p rows) = join newline (map (device_line dev p) rows)"
proof -
  let ?ls = "map (device_line dev p) rows"
  obtain n v rs where r: "rows = (n, v) # rs" using assms(2) by (cases rows) auto
  have n: "token n" using assms(1) r by (simp add: thin_rows_def)
  then have hd: "device_line dev p (n, v) \<noteq> []" "\<not> is_space (hd (device_line dev p (n, v)))"
    by (auto simp: device_line_def token_def list_all_iff hd_append)
  have "last ?ls = device_line dev p (last rows)" using assms(2) by (simp add: last_map)
  moreover have "last (device_line dev p (last rows)) = last (str_nat (snd (last rows)))"
    by (simp add: device_line_def)
  moreover have "\<not> is_space (last (str_nat (snd (last rows))))"
    by (rule digit_not_space, rule str_nat_digits, rule last_in_set) simp
  moreover have "last ?ls \<noteq> []" using assms(2) by (simp add: last_map device_line_def)
  ultimately have l: "\<not> is_space (last (join newline ?ls))" using last_join [of ?ls newline] assms(2) by simp
  have "hd (join newline ?ls) = hd (device_line dev p (n, v)) \<and> join newline ?ls \<noteq> []"
    using hd_join [OF hd(1), of newline "map (device_line dev p) rs"] by (simp add: r)
  then have "strip (join newline ?ls @ newline) = join newline ?ls" using hd(2) l by (intro strip_trailing) auto
  then show ?thesis using assms(2) by (simp add: device_table_def)
qed

text \<open>The search for the greatest mapped volume finds it: of the table dmsetup prints, whatever the
  devices are called, the greatest volume id, and none of an empty table.\<close>

lemma max_mapped_exact:
  assumes "thin_rows dev rows"
  shows "max_mapped (device_table dev p rows) = (if rows = [] then None else Some (Max (int ` snd ` set rows)))"
proof (cases rows)
  case Nil
  then show ?thesis by (simp add: device_table_def) code_simp
next
  case (Cons r rs)
  then have ne: "rows \<noteq> []" by simp
  have lines: "list_all one_line (map (device_line dev p) rows)"
    using assms by (auto simp: thin_rows_def list_all_iff intro: device_line_one)
  have "foldl line_volume m (map (device_line dev p) rows') = foldl greater_id m (map (int \<circ> snd) rows')"
    if "list_all (\<lambda>(name, v). token name) rows'" for m rows'
    using that assms by (induction rows' arbitrary: m) (auto simp: thin_rows_def line_volume_device)
  then have "max_mapped (device_table dev p rows) = foldl greater_id None (map (int \<circ> snd) rows)"
    using assms unfolding max_mapped_def strip_table [OF assms ne] splitlines_join [OF lines] by (simp add: thin_rows_def)
  also have "\<dots> = Some (Max (int ` snd ` set rows))"
    by (simp add: Cons greater_id_def foldl_greater foldl_max image_comp comp_def)
  finally show ?thesis using ne by simp
qed

lemma max_mapped_exact_witness:
  "max_mapped (device_table ''253:2'' \<lparr>pl_name = ''p'', pl_sectors = 8\<rparr> [(''mshkn-comp-1'', 12), (''mshkn-ckpt-2'', 7)]) = Some 12"
proof -
  have "thin_rows ''253:2'' [(''mshkn-comp-1'', 12), (''mshkn-ckpt-2'', 7)]" by code_simp
  from max_mapped_exact [OF this, of "\<lparr>pl_name = ''p'', pl_sectors = 8\<rparr>"] show ?thesis by simp
qed

end
