(* ===== verification/Firecracker.thy ===== *)
theory Firecracker
  imports DmThin
begin

text \<open>
  The Firecracker hypervisor (src/src/mshkn/host/firecracker.py). Every boot and restore brings the
  microVM up on the staging slot, with the staging tap and disk mapping, and then renames both to
  their final names; the flag \<open>dr_staging_dirty\<close> says that the next stage has to clean the slot first. The staging
  lock makes a stage one action. A start that runs beside the disk mapping and the tap is launched before them
  and waited for before or after, by the machine's schedule (\<open>mc_start_done\<close>). Bytes are characters; log
  lines and the reuse of connections are left out, and so is a TimeoutError of a write to the vsock.

  Proved are that every waiting loop ends, that the flag is right about every failure, and that a
  process which was started is either returned or killed; and where it is not.
\<close>

section \<open>Waiting\<close>

definition timeout_error :: "string \<Rightarrow> exc" where
  "timeout_error m = PyError ''TimeoutError'' m"

definition host_failure :: "string \<Rightarrow> exc" where
  "host_failure m = MshknError HostError m None"

text \<open>\<open>_host_errors\<close>.\<close>

definition as_host_errors :: "'s machine \<Rightarrow> string \<Rightarrow> ('w, 'a) act \<Rightarrow> ('w, 'a) act" where
  "as_host_errors M what m =
     catchE m (\<lambda>e. if is_host_error e then raise e
                   else if mc_transport_error M e then raise (host_failure (what @ '': '' @ describe_exc e))
                   else raise e)"

text \<open>The text of a number of seconds with at most one decimal, as \<open>str(float)\<close> writes it.\<close>

definition seconds_text :: "rat \<Rightarrow> string" where
  "seconds_text t = str_int \<lfloor>t\<rfloor> @ ''.'' @ str_int (\<lfloor>10 * t\<rfloor> mod 10)"

definition wait_for_port :: "'s machine \<Rightarrow> string \<Rightarrow> int \<Rightarrow> rat \<Rightarrow> rat \<Rightarrow> ('s, unit) act" where
  "wait_for_port M ip port timeout interval =
     bindE (mc_time M) (\<lambda>start.
     bindE (waiting M (look_round M (mc_port_open M ip port) (start + timeout) interval)) (\<lambda>reached.
     if reached then ret ()
     else raise (timeout_error (ip @ '':'' @ str_int port @ '' did not become reachable within '' @ seconds_text timeout @ ''s''))))"

section \<open>Processes\<close>

definition abandon_child :: "'s machine \<Rightarrow> int \<Rightarrow> string \<Rightarrow> ('s, unit) act" where
  "abandon_child M pid socket_path =
     bindE (mc_kill M pid) (\<lambda>_. seqE (mc_reap M pid) (mc_unlink M socket_path))"

definition launch :: "'s machine \<Rightarrow> string \<Rightarrow> string \<Rightarrow> ('s, int) act" where
  "launch M socket_path binary = seqE (mc_unlink M socket_path) (mc_spawn M binary socket_path)"

text \<open>The rest of the start, from the process to its API socket.\<close>

definition socket_timeout :: rat where "socket_timeout = 2"

definition no_socket :: "string \<Rightarrow> exc" where
  "no_socket socket_path =
     timeout_error (''Firecracker socket '' @ socket_path @ '' not created within '' @ seconds_text socket_timeout @ ''s'')"

definition await_socket :: "'s machine \<Rightarrow> string \<Rightarrow> int \<Rightarrow> ('s, int) act" where
  "await_socket M socket_path pid =
     bindE (mc_time M) (\<lambda>start.
     catchE
       (bindE (waiting M (look_round M (mc_exists M socket_path) (start + socket_timeout) (1 / 100))) (\<lambda>appeared.
        if appeared then ret pid
        else seqE (abandon_child M pid socket_path) (raise (no_socket socket_path))))
       (\<lambda>e. if is_exception e then raise e else seqE (abandon_child M pid socket_path) (raise e)))"

definition start_process :: "'s machine \<Rightarrow> string \<Rightarrow> string \<Rightarrow> ('s, int) act" where
  "start_process M socket_path binary = bindE (launch M socket_path binary) (await_socket M socket_path)"

definition permission_error :: exc where
  "permission_error = PyError ''PermissionError'' ''[Errno 1] Operation not permitted''"

definition is_gone :: "'s machine \<Rightarrow> int \<Rightarrow> ('s, bool) act" where
  "is_gone M pid =
     bindE (reads (mc_presence M pid)) (\<lambda>p.
     case p of Absent \<Rightarrow> ret True | Present \<Rightarrow> ret False | Denied \<Rightarrow> raise permission_error)"

definition gone_round :: "'s machine \<Rightarrow> int \<Rightarrow> rat \<Rightarrow> ('s, bool option) act" where
  "gone_round M pid deadline =
     bindE (is_gone M pid) (\<lambda>gone.
     if gone then ret (Some True)
     else bindE (mc_time M) (\<lambda>now.
          if now \<ge> deadline then ret (Some False) else seqE (mc_sleep M (1 / 500)) (ret None)))"

definition wait_for_exit :: "'s machine \<Rightarrow> int \<Rightarrow> rat \<Rightarrow> ('s, bool) act" where
  "wait_for_exit M pid timeout =
     bindE (mc_time M) (\<lambda>start.
     bindE (mc_wait_pid M pid timeout) (\<lambda>r.
     case r of
       AlreadyGone \<Rightarrow> ret True
     | ExitUnseen \<Rightarrow> ret False
     | _ \<Rightarrow> waiting M (gone_round M pid (start + timeout))))"

definition kill_wait_seconds :: rat where "kill_wait_seconds = 2"

definition kill_process :: "'s machine \<Rightarrow> int \<Rightarrow> ('s, unit) act" where
  "kill_process M pid =
     bindE (mc_kill M pid) (\<lambda>there.
     if \<not> there then ret () else bindE (wait_for_exit M pid kill_wait_seconds) (\<lambda>_. ret ()))"

section \<open>The API of a process\<close>

definition fc_request :: "'s machine \<Rightarrow> string \<Rightarrow> string \<Rightarrow> string \<Rightarrow> json \<Rightarrow> ('s, unit) act" where
  "fc_request M socket_path method target body =
     bindE (mc_api M socket_path method target body) (\<lambda>(status, _).
     if 200 \<le> status \<and> status < 300 then ret ()
     else raise (PyError ''HTTPStatusError'' (str_int status @ '' for http://localhost'' @ target)))"

record fc_config =
  fv_kernel_path :: string
  fv_rootfs_path :: string
  fv_tap_device :: string
  fv_guest_mac :: string
  fv_resources :: resources
  fv_vsock_path :: "string option"

definition boot_args :: string where
  "boot_args = ''console=ttyS0 reboot=k panic=1 pci=off init=/sbin/init root=/dev/vda rw '' @
               ''quiet loglevel=3 systemd.show_status=0 random.trust_cpu=on''"

definition vsock_guest_cid :: int where "vsock_guest_cid = 3"

definition vsock_port :: int where "vsock_port = 52"

definition configure_and_boot :: "'s machine \<Rightarrow> string \<Rightarrow> fc_config \<Rightarrow> ('s, unit) act" where
  "configure_and_boot M socket_path c =
     (let put = fc_request M socket_path ''PUT'' in
      seqE (put ''/machine-config'' (JObj [(''vcpu_count'', JInt (vcpus (fv_resources c))), (''mem_size_mib'', JInt (mem_mib (fv_resources c)))]))
      (seqE (put ''/boot-source'' (JObj [(''kernel_image_path'', JStr (fv_kernel_path c)), (''boot_args'', JStr boot_args)]))
      (seqE (put ''/drives/rootfs'' (JObj [(''drive_id'', JStr ''rootfs''), (''path_on_host'', JStr (fv_rootfs_path c)),
               (''is_root_device'', JBool True), (''is_read_only'', JBool False)]))
      (seqE (put ''/network-interfaces/eth0'' (JObj [(''iface_id'', JStr ''eth0''), (''guest_mac'', JStr (fv_guest_mac c)),
               (''host_dev_name'', JStr (fv_tap_device c))]))
      (seqE (case fv_vsock_path c of
               None \<Rightarrow> ret ()
             | Some u \<Rightarrow> put ''/vsock'' (JObj [(''guest_cid'', JInt vsock_guest_cid), (''uds_path'', JStr u)]))
            (put ''/actions'' (JObj [(''action_type'', JStr ''InstanceStart'')])))))))"

definition pause :: "'s machine \<Rightarrow> string \<Rightarrow> ('s, unit) act" where
  "pause M socket_path = fc_request M socket_path ''PATCH'' ''/vm'' (JObj [(''state'', JStr ''Paused'')])"

definition resume :: "'s machine \<Rightarrow> string \<Rightarrow> ('s, unit) act" where
  "resume M socket_path = fc_request M socket_path ''PATCH'' ''/vm'' (JObj [(''state'', JStr ''Resumed'')])"

definition create_snapshot :: "'s machine \<Rightarrow> string \<Rightarrow> snapshot_files \<Rightarrow> ('s, unit) act" where
  "create_snapshot M socket_path f =
     fc_request M socket_path ''PUT'' ''/snapshot/create''
       (JObj [(''snapshot_type'', JStr ''Full''), (''snapshot_path'', JStr (path_text (sf_vmstate f))),
              (''mem_file_path'', JStr (path_text (sf_memory f)))])"

definition load_snapshot :: "'s machine \<Rightarrow> string \<Rightarrow> snapshot_files \<Rightarrow> bool \<Rightarrow> ('s, unit) act" where
  "load_snapshot M socket_path f resume_vm =
     fc_request M socket_path ''PUT'' ''/snapshot/load''
       (JObj [(''snapshot_path'', JStr (path_text (sf_vmstate f))),
              (''mem_backend'', JObj [(''backend_type'', JStr ''File''), (''backend_path'', JStr (path_text (sf_memory f)))]),
              (''resume_vm'', JBool resume_vm)])"

section \<open>The guest over vsock\<close>

definition rc_marker :: string where "rc_marker = ''__mshkn_rc=''"

definition vsock_round :: "'s machine \<Rightarrow> string \<Rightarrow> rat \<Rightarrow> ('s, unit option) act" where
  "vsock_round M uds deadline =
     catchE (seqE (mc_vsock_open M uds) (ret (Some ())))
       (\<lambda>e. if \<not> mc_os_error M e then raise e
            else bindE (mc_time M) (\<lambda>now.
                 if now \<ge> deadline then raise (host_failure (''vsock '' @ uds @ '': '' @ describe_exc e))
                 else seqE (mc_sleep M (1 / 100)) (ret None)))"

text \<open>What is left of the time, at least a twentieth of a second; and a read within it.\<close>

definition read_within :: "'s machine \<Rightarrow> string \<Rightarrow> rat \<Rightarrow> rat \<Rightarrow> (rat \<Rightarrow> ('s, stream_read) act) \<Rightarrow> ('s, string) act" where
  "read_within M uds timeout deadline read =
     bindE (mc_time M) (\<lambda>now.
     bindE (read (max (deadline - now) (1 / 20))) (\<lambda>r.
     case r of
       Line t \<Rightarrow> ret t
     | ReadTimeout \<Rightarrow> raise (host_failure (''vsock '' @ uds @ '': timed out after '' @ seconds_text timeout @ ''s''))
     | Partial t \<Rightarrow> raise (host_failure (''vsock '' @ uds @ '': the script ended without a status: b'' @ py_repr t))))"

definition vsock_talk :: "'s machine \<Rightarrow> string \<Rightarrow> int \<Rightarrow> string \<Rightarrow> rat \<Rightarrow> rat \<Rightarrow> ('s, int \<times> string) act" where
  "vsock_talk M uds port script timeout deadline =
     bindE (finallyE
       (seqE (mc_vsock_write M (''CONNECT '' @ str_int port @ newline))
       (bindE (read_within M uds timeout deadline (mc_vsock_line M)) (\<lambda>ack.
        if \<not> prefix ''OK '' ack
        then raise (host_failure (''vsock '' @ uds @ '': no OK from port '' @ str_int port @ '' (got b'' @ py_repr ack @ '')''))
        else seqE (mc_vsock_write M (script @ newline @ ''echo '' @ rc_marker @ ''$?'' @ newline @ ''exit'' @ newline))
             (bindE (read_within M uds timeout deadline (mc_vsock_until M rc_marker)) (\<lambda>raw.
              bindE (read_within M uds timeout deadline (mc_vsock_line M)) (\<lambda>status. ret (raw, status)))))))
       (mc_vsock_close M)) (\<lambda>(raw, status).
     case py_int (strip status) of
       None \<Rightarrow> raise (host_failure (''vsock '' @ uds @ '': bad status '' @ py_repr status))
     | Some rc \<Rightarrow> ret (rc, take (length raw - length rc_marker) raw))"

definition vsock_run ::
  "'s machine \<Rightarrow> string \<Rightarrow> int \<Rightarrow> string \<Rightarrow> rat \<Rightarrow> rat option \<Rightarrow> ('s, int \<times> string) act" where
  "vsock_run M uds port script timeout connect_timeout =
     bindE (mc_time M) (\<lambda>start.
     seqE (waiting M (vsock_round M uds (start + (case connect_timeout of None \<Rightarrow> timeout | Some t \<Rightarrow> t))))
          (vsock_talk M uds port script timeout (start + timeout)))"

section \<open>The staging slot\<close>

definition staging_slot :: int where "staging_slot = 254"
definition staging_tap :: string where "staging_tap = ''tap254''"
definition staging_vm_ip :: string where "staging_vm_ip = ''172.16.254.2''"
definition staging_mac :: string where "staging_mac = ''06:00:AC:10:FE:02''"
definition staging_drive :: string where "staging_drive = ''mshkn-restore-staging''"
definition staging_vsock :: string where "staging_vsock = ''/tmp/fc-staging.vsock''"

record hypervisor_config =
  hc_binary :: string
  hc_kernel_path :: string
  hc_pool :: pool

definition map_staging_disk :: "'s machine \<Rightarrow> pool \<Rightarrow> int \<Rightarrow> ('s, unit) act" where
  "map_staging_disk M p volume_id = sh M (''dmsetup create '' @ staging_drive @ '' --table '' @ dq (thin_table p volume_id))"

definition map_and_tap :: "'s machine \<Rightarrow> pool \<Rightarrow> int \<Rightarrow> ('s, unit) act" where
  "map_and_tap M p volume_id = gather2 (map_staging_disk M p volume_id) (create_tap M staging_slot)"

definition ensure_staging_clean :: "'s machine \<Rightarrow> ('s, unit) act" where
  "ensure_staging_clean M =
     seqE (mc_unlink M staging_vsock)
     (seqE (suppress (destroy_tap M staging_slot))
           (suppress (sh_quiet M (''dmsetup remove '' @ staging_drive))))"

definition cleanup_staging :: "'s machine \<Rightarrow> int option \<Rightarrow> string \<Rightarrow> ('s, unit) driver" where
  "cleanup_staging M pid socket_path =
     seqE (case pid of None \<Rightarrow> ret () | Some n \<Rightarrow> suppress (lifted (kill_process M n)))
     (seqE (lifted (mc_unlink M socket_path))
     (seqE (lifted (ensure_staging_clean M))
           (assign (dr_staging_dirty_update (\<lambda>_. True)))))"

text \<open>\<open>except Exception: await self._cleanup_staging(pid, socket_path); raise\<close>.\<close>

definition stage_failed :: "'s machine \<Rightarrow> int option \<Rightarrow> string \<Rightarrow> exc \<Rightarrow> ('s, 'a) driver" where
  "stage_failed M pid socket_path e =
     (if is_exception e then seqE (cleanup_staging M pid socket_path) (raise e) else raise e)"

section \<open>Reconfiguring the guest\<close>

definition reconfigure_command :: "int \<Rightarrow> string \<Rightarrow> string \<Rightarrow> string" where
  "reconfigure_command now final_vm_ip final_host_ip =
     ''date -u -s @'' @ str_int now @ '' >/dev/null 2>&1; ip addr add '' @ final_vm_ip @
     ''/30 dev eth0 2>/dev/null; ip route replace default via '' @ final_host_ip @ '' && ip neigh flush dev eth0''"

definition vsock_reconfigure :: "'s machine \<Rightarrow> string \<Rightarrow> string \<Rightarrow> ('s, unit) act" where
  "vsock_reconfigure M final_vm_ip final_host_ip =
     bindE (mc_wall_clock M) (\<lambda>now.
     bindE (vsock_run M staging_vsock vsock_port (reconfigure_command now final_vm_ip final_host_ip) 2 (Some (1 / 5))) (\<lambda>(rc, output).
     if rc \<noteq> 0 then raise (host_failure (''vsock reconfiguration exited '' @ str_int rc @ '': '' @ py_repr (strip output))) else ret ()))"

text \<open>The clock is read once the connection stands; here just before it.\<close>

definition ssh_add_ip :: "'s machine \<Rightarrow> string \<Rightarrow> string \<Rightarrow> ('s, unit) act" where
  "ssh_add_ip M final_vm_ip final_host_ip =
     bindE (mc_wall_clock M) (\<lambda>now. mc_ssh M staging_vm_ip (reconfigure_command now final_vm_ip final_host_ip))"

definition over_ssh :: "'s machine \<Rightarrow> string \<Rightarrow> string \<Rightarrow> rat \<Rightarrow> ('s, unit) act" where
  "over_ssh M final_vm_ip final_host_ip ssh_timeout =
     seqE (wait_for_port M staging_vm_ip 22 ssh_timeout (1 / 100)) (ssh_add_ip M final_vm_ip final_host_ip)"

definition reconfigure_guest :: "'s machine \<Rightarrow> string \<Rightarrow> string \<Rightarrow> rat \<Rightarrow> bool \<Rightarrow> ('s, unit) act" where
  "reconfigure_guest M final_vm_ip final_host_ip ssh_timeout try_vsock =
     (if try_vsock
      then bindE (on_host_error (seqE (vsock_reconfigure M final_vm_ip final_host_ip) (ret True)) (\<lambda>_. ret False)) (\<lambda>done.
           if done then ret () else over_ssh M final_vm_ip final_host_ip ssh_timeout)
      else over_ssh M final_vm_ip final_host_ip ssh_timeout)"

definition settle_round :: "'s machine \<Rightarrow> rat \<Rightarrow> ('s, unit option) act" where
  "settle_round M deadline =
     on_host_error (bindE (vsock_run M staging_vsock vsock_port ''true'' 10 None) (\<lambda>_. ret (Some ())))
       (\<lambda>_. bindE (mc_time M) (\<lambda>now.
            if now < deadline then seqE (mc_sleep M (1 / 20)) (ret None) else ret (Some ())))"

definition vsock_settle :: "'s machine \<Rightarrow> ('s, unit) act" where
  "vsock_settle M = bindE (mc_time M) (\<lambda>start. waiting M (settle_round M (start + 10)))"

definition ssh_settle :: "'s machine \<Rightarrow> ('s, unit) act" where
  "ssh_settle M = mc_ssh M staging_vm_ip ''true''"

section \<open>A stage\<close>

text \<open>
  The start beside the mapping and the tap. When one of those fails the start's task is cancelled and
  awaited: a start still waiting for its socket kills its child, but one that is done has nothing left to
  cancel, and its pid is dropped.
\<close>

definition start_beside ::
  "'s machine \<Rightarrow> hypervisor_config \<Rightarrow> string \<Rightarrow> int \<Rightarrow> ('s, int) act" where
  "start_beside M c socket_path volume_id =
     bindE (reads (mc_start_done M)) (\<lambda>early.
     bindE (tryE (if early then start_process M socket_path (hc_binary c) else launch M socket_path (hc_binary c))) (\<lambda>started.
     bindE (tryE (map_and_tap M (hc_pool c) volume_id)) (\<lambda>mapped.
     case mapped of
       Inl e \<Rightarrow>
         if \<not> is_exception e then raise e
         else (case started of
             Inl x \<Rightarrow> if is_exception x then raise x else raise e
           | Inr pid \<Rightarrow> if early then raise e else seqE (abandon_child M pid socket_path) (raise e))
     | Inr _ \<Rightarrow>
         (case started of
             Inl x \<Rightarrow> raise x
           | Inr pid \<Rightarrow> if early then ret pid else await_socket M socket_path pid))))"

definition move_to_slot :: "int \<Rightarrow> string \<Rightarrow> string" where
  "move_to_slot slot disk_name =
     (let (host_ip, guest_ip) = slot_to_ip slot; tap = slot_to_tap slot in
      ''ip link set '' @ staging_tap @ '' name '' @ tap @ '' && ip addr flush dev '' @ tap @
      '' && ip addr add '' @ host_ip @ ''/30 dev '' @ tap @
      '' && ip neigh replace '' @ guest_ip @ '' lladdr '' @ staging_mac @ '' dev '' @ tap @ '' nud permanent'' @
      '' && iptables -I '' @ forward_accept tap guest_ip @ '' && iptables -I '' @ forward_drop tap guest_ip @
      '' && dmsetup rename '' @ staging_drive @ '' '' @ disk_name)"

definition bring_to_slot ::
  "'s machine \<Rightarrow> int \<Rightarrow> string \<Rightarrow> string \<Rightarrow> ('s, unit) act \<Rightarrow> rat \<Rightarrow> bool \<Rightarrow> ('s, unit) act" where
  "bring_to_slot M slot disk_name socket_path activate ssh_timeout try_vsock =
     seqE (mc_unlink M staging_vsock)
     (seqE activate
     (seqE (gather2 (reconfigure_guest M (snd (slot_to_ip slot)) (fst (slot_to_ip slot)) ssh_timeout try_vsock)
                    (sh_quiet M (''ip link del '' @ slot_to_tap slot)))
           (sh M (move_to_slot slot disk_name))))"

definition clean_if_dirty :: "'s machine \<Rightarrow> ('s, unit) driver" where
  "clean_if_dirty M =
     bindE local (\<lambda>d.
     if dr_staging_dirty d
     then seqE (lifted (ensure_staging_clean M)) (assign (dr_staging_dirty_update (\<lambda>_. False)))
     else ret ())"

definition api_socket :: "string \<Rightarrow> string" where
  "api_socket name = ''/tmp/fc-'' @ name @ ''.socket''"

definition stage ::
  "'s machine \<Rightarrow> hypervisor_config \<Rightarrow> int \<Rightarrow> int \<Rightarrow> string \<Rightarrow> (string \<Rightarrow> ('s, unit) act) \<Rightarrow> rat \<Rightarrow> bool \<Rightarrow> ('s, running_vm) driver" where
  "stage M c slot disk_volume_id disk_name activate ssh_timeout try_vsock =
     (let socket_path = api_socket disk_name in
      bindE (tryE (seqE (clean_if_dirty M) (lifted (start_beside M c socket_path disk_volume_id)))) (\<lambda>started.
      case started of
        Inl e \<Rightarrow> stage_failed M None socket_path e
      | Inr pid \<Rightarrow>
          bindE (tryE (lifted (bring_to_slot M slot disk_name socket_path (activate socket_path) ssh_timeout try_vsock))) (\<lambda>r.
          case r of
            Inl e \<Rightarrow> stage_failed M (Some pid) socket_path e
          | Inr _ \<Rightarrow> ret \<lparr>vm_pid = pid, vm_socket_path = socket_path, vm_slot = slot,
                          vm_ip = snd (slot_to_ip slot), vm_tap_device = slot_to_tap slot\<rparr>)))"

definition staging_boot :: "hypervisor_config \<Rightarrow> resources \<Rightarrow> fc_config" where
  "staging_boot c r =
     \<lparr>fv_kernel_path = hc_kernel_path c, fv_rootfs_path = ''/dev/mapper/'' @ staging_drive, fv_tap_device = staging_tap,
      fv_guest_mac = staging_mac, fv_resources = r, fv_vsock_path = Some staging_vsock\<rparr>"

definition fc_boot :: "'s machine \<Rightarrow> hypervisor_config \<Rightarrow> int \<Rightarrow> int \<Rightarrow> string \<Rightarrow> resources \<Rightarrow> ('s, running_vm) driver" where
  "fc_boot M c slot disk_volume_id disk_name r =
     as_host_errors M ''boot''
       (stage M c slot disk_volume_id disk_name (\<lambda>s. configure_and_boot M s (staging_boot c r)) 30 False)"

definition fc_restore :: "'s machine \<Rightarrow> hypervisor_config \<Rightarrow> int \<Rightarrow> int \<Rightarrow> string \<Rightarrow> snapshot_files \<Rightarrow> ('s, running_vm) driver" where
  "fc_restore M c slot disk_volume_id disk_name f =
     as_host_errors M ''restore''
       (stage M c slot disk_volume_id disk_name (\<lambda>s. load_snapshot M s f True) 5 True)"

definition snapshot_in :: "path \<Rightarrow> snapshot_files" where
  "snapshot_in d = \<lparr>sf_vmstate = d @ [''vmstate''], sf_memory = d @ [''memory'']\<rparr>"

definition fc_snapshot :: "'s machine \<Rightarrow> string \<Rightarrow> path \<Rightarrow> ('s, snapshot_files) act" where
  "fc_snapshot M socket_path dest_dir =
     as_host_errors M ''snapshot''
       (seqE (mc_mkdirs M dest_dir)
       (seqE (pause M socket_path)
       (seqE (finallyE (create_snapshot M socket_path (snapshot_in dest_dir)) (resume M socket_path))
             (ret (snapshot_in dest_dir)))))"

definition fc_kill :: "'s machine \<Rightarrow> int \<Rightarrow> string \<Rightarrow> ('s, unit) act" where
  "fc_kill M pid socket_path = seqE (kill_process M pid) (mc_unlink M socket_path)"

definition start_template :: "'s machine \<Rightarrow> hypervisor_config \<Rightarrow> int \<Rightarrow> string \<Rightarrow> ('s, int) act" where
  "start_template M c disk_volume_id socket_path =
     seqE (ensure_staging_clean M)
     (seqE (map_and_tap M (hc_pool c) disk_volume_id) (start_process M socket_path (hc_binary c)))"

definition snapshot_template :: "'s machine \<Rightarrow> hypervisor_config \<Rightarrow> string \<Rightarrow> snapshot_files \<Rightarrow> int \<Rightarrow> ('s, unit) act" where
  "snapshot_template M c socket_path files pid =
     seqE (mc_unlink M staging_vsock)
     (seqE (configure_and_boot M socket_path (staging_boot c default_resources))
     (seqE (wait_for_port M staging_vm_ip 22 30 (1 / 40))
     (seqE (ssh_settle M)
     (seqE (vsock_settle M)
     (seqE (pause M socket_path)
     (seqE (create_snapshot M socket_path files)
           (fc_kill M pid socket_path)))))))"

definition clear_template :: "'s machine \<Rightarrow> ('s, unit) act" where
  "clear_template M = seqE (destroy_tap M staging_slot) (sh M (''dmsetup remove '' @ staging_drive))"

definition fc_build_template :: "'s machine \<Rightarrow> hypervisor_config \<Rightarrow> int \<Rightarrow> path \<Rightarrow> ('s, snapshot_files) driver" where
  "fc_build_template M c disk_volume_id dest_dir =
     (let files = snapshot_in dest_dir; socket_path = api_socket (''template-'' @ str_int disk_volume_id) in
      as_host_errors M ''build_template''
        (seqE (lifted (mc_mkdirs M dest_dir))
        (bindE (tryE (lifted (start_template M c disk_volume_id socket_path))) (\<lambda>r.
         case r of
           Inl e \<Rightarrow> stage_failed M None socket_path e
         | Inr pid \<Rightarrow>
             bindE (tryE (lifted (snapshot_template M c socket_path files pid))) (\<lambda>r.
             case r of
               Inl e \<Rightarrow> stage_failed M (Some pid) socket_path e
             | Inr _ \<Rightarrow>
                 bindE (tryE (lifted (clear_template M))) (\<lambda>r.
                 case r of Inl e \<Rightarrow> stage_failed M None socket_path e | Inr _ \<Rightarrow> ret files))))))"

definition fc_hypervisor :: "'s machine \<Rightarrow> hypervisor_config \<Rightarrow> ('s \<times> drivers) hypervisor" where
  "fc_hypervisor M c =
     \<lparr>hv_boot = fc_boot M c, hv_restore = fc_restore M c, hv_snapshot = (\<lambda>s d. lifted (fc_snapshot M s d)),
      hv_build_template = fc_build_template M c, hv_kill = (\<lambda>n s. lifted (fc_kill M n s)),
      hv_is_alive = (\<lambda>n (s, d). mc_presence M n s \<noteq> Absent), hv_teardown_slot = (\<lambda>n. lifted (destroy_tap M n))\<rparr>"

section \<open>Every wait ends\<close>

lemma steady_ret: "steady T (ret a)" "steady T (raise e)"
  by (simp_all add: steady_def keeps_ret keeps_raise)

lemma steady_bind: "steady T m \<Longrightarrow> (\<And>a. steady T (f a)) \<Longrightarrow> steady T (bindE m f)"
  by (simp add: steady_def keeps_bindE)

lemma steady_seq: "steady T m \<Longrightarrow> steady T n \<Longrightarrow> steady T (seqE m n)"
  by (simp add: steady_def keeps_seqE)

lemma steady_finally: "steady T m \<Longrightarrow> steady T n \<Longrightarrow> steady T (finallyE m n)"
  by (simp add: steady_def keeps_finallyE)

lemma steady_catch: "steady T m \<Longrightarrow> (\<And>e. steady T (h e)) \<Longrightarrow> steady T (catchE m h)"
  by (simp add: steady_def keeps_catchE)

lemma steady_rounds: "steady T r \<Longrightarrow> steady T (rounds n r)"
  by (induction n) (auto intro!: steady_bind steady_ret split: option.splits)

lemma steady_waiting: "steady T r \<Longrightarrow> steady T (waiting M r)"
  unfolding waiting_def by (intro steady_bind steady_rounds) (auto intro: steady_ret split: option.splits)

lemmas steady_intros = steady_ret steady_bind steady_seq steady_finally steady_catch steady_waiting

lemma steady_time: "keeps_time M T \<Longrightarrow> steady T (mc_time M)"
  by (simp add: steady_def keeps_def keeps_time_def)

lemma steady_sleep:
  assumes "keeps_time M T" and "0 \<le> d"
  shows "steady T (mc_sleep M d)"
proof -
  have "T s \<le> T (snd (mc_sleep M d s))" for s
  proof -
    have "T s + d \<le> T (snd (mc_sleep M d s))" using assms by (simp add: keeps_time_def)
    then show ?thesis using assms(2) by simp
  qed
  then show ?thesis unfolding steady_def keeps_def by (meson order_trans)
qed

lemma steady_machine:
  assumes "keeps_time M T"
  shows "steady T (mc_exists M p)" "steady T (mc_port_open M i n)" "steady T (mc_vsock_open M p)"
    "steady T (mc_vsock_write M x)" "steady T (mc_vsock_line M d)" "steady T (mc_vsock_until M x d)" "steady T (mc_vsock_close M)"
  using assms by (simp_all add: keeps_time_def)

lemma steady_vsock_run:
  assumes t: "keeps_time M T"
  shows "steady T (vsock_run M uds port script timeout connect_timeout)"
proof -
  have round: "steady T (vsock_round M uds d)" for d
    unfolding vsock_round_def
    by (intro steady_intros) (auto intro!: steady_intros steady_time [OF t] steady_sleep [OF t] steady_machine [OF t])
  have read: "steady T (read_within M uds timeout d (mc_vsock_line M))" "steady T (read_within M uds timeout d (mc_vsock_until M x))" for d x
    unfolding read_within_def
    by (auto intro!: steady_intros steady_time [OF t] steady_machine [OF t] split: stream_read.splits)
  have "steady T (vsock_talk M uds port script timeout d)" for d
    unfolding vsock_talk_def
    by (auto intro!: steady_intros read steady_machine [OF t] split: option.splits)
  then show ?thesis
    unfolding vsock_run_def by (intro steady_intros steady_time [OF t] round)
qed

lemma sleeping:
  assumes "keeps_time M T" and "1 / 500 \<le> d" and "T s \<le> T s'"
  shows "wp (seqE (mc_sleep M d) (ret None)) (\<lambda>x v. x = None \<longrightarrow> T s + 1 / 500 \<le> T v) (\<lambda>_ _. True) s'"
  unfolding wp_seqE wp_ret by (rule wp_sleep [OF assms(1)]) (use assms in auto)

lemma gone_round_paced:
  assumes t: "keeps_time M T"
  shows "paced T (1 / 500) deadline (gone_round M pid deadline)"
  unfolding paced_def gone_round_def is_gone_def
  by (auto simp: wp_bindE wp_reads wp_ret wp_raise wp_time [OF t] wp_if not_le intro!: sleeping [OF t] split: presence.splits
      simp del: not_None_eq)

lemma vsock_round_paced:
  assumes t: "keeps_time M T"
  shows "paced T (1 / 500) deadline (vsock_round M uds deadline)"
  unfolding paced_def
proof
  fix s
  show "wp (vsock_round M uds deadline) (\<lambda>x v. x = None \<longrightarrow> T s < deadline \<and> T s + 1 / 500 \<le> T v) (\<lambda>_ _. True) s"
    unfolding vsock_round_def wp_catchE wp_seqE wp_ret
    by (rule wp_mono [OF wp_steady [OF steady_machine(3) [OF t]]])
       (auto simp: wp_raise wp_if wp_bindE wp_time [OF t] not_le intro!: sleeping [OF t])
qed

lemma settle_round_paced:
  assumes t: "keeps_time M T"
  shows "paced T (1 / 500) deadline (settle_round M deadline)"
  unfolding paced_def
proof
  fix s
  show "wp (settle_round M deadline) (\<lambda>x v. x = None \<longrightarrow> T s < deadline \<and> T s + 1 / 500 \<le> T v) (\<lambda>_ _. True) s"
    unfolding settle_round_def wp_on_host_error wp_bindE wp_ret
    by (rule wp_mono [OF wp_steady [OF steady_vsock_run [OF t]]])
       (auto simp: wp_time [OF t] wp_if wp_ret intro!: sleeping [OF t])
qed


text \<open>A machine whose state is its clock: commands succeed unless they start with one of the given texts,
  processes are started as 42, the API answers 204, and nothing listens on the vsock.\<close>

definition clock_machine :: "string list \<Rightarrow> bool \<Rightarrow> nat \<Rightarrow> rat machine" where
  "clock_machine bad early fuel =
     \<lparr>mc_proc = (\<lambda>cmd. ret (if list_ex (\<lambda>b. prefix b cmd) bad then 1 else 0, [], ''failed'')),
      mc_spawn = (\<lambda>_ _. ret 42), mc_kill = (\<lambda>_. ret True), mc_reap = (\<lambda>_. ret ()), mc_presence = (\<lambda>_ _. Absent),
      mc_wait_pid = (\<lambda>_ _. ret ExitSeen), mc_exists = (\<lambda>_. ret True), mc_unlink = (\<lambda>_. ret ()), mc_mkdirs = (\<lambda>_. ret ()),
      mc_mkdtemp = (\<lambda>_. ret [''tmp'', ''d'']), mc_rmdir = (\<lambda>_. ret ()), mc_time = reads id,
      mc_sleep = (\<lambda>d. writes (\<lambda>t. t + d)), mc_wall_clock = ret 0, mc_api = (\<lambda>_ _ _ _. ret (204, [])),
      mc_port_open = (\<lambda>_ _. ret True), mc_ssh = (\<lambda>_ _. ret ()),
      mc_vsock_open = (\<lambda>_. raise (PyError ''FileNotFoundError'' [])), mc_vsock_write = (\<lambda>_. ret ()),
      mc_vsock_line = (\<lambda>_. ret (Line [])), mc_vsock_until = (\<lambda>_ _. ret (Line [])), mc_vsock_close = ret (),
      mc_os_error = (\<lambda>e. exc_name e \<in> {''FileNotFoundError'', ''TimeoutError''}),
      mc_transport_error = (\<lambda>e. is_exception e \<and> exc_name e \<in> {''FileNotFoundError'', ''TimeoutError''}),
      mc_start_done = (\<lambda>_. early), mc_fuel = fuel\<rparr>"

lemma clock_machine_time: "keeps_time (clock_machine bad early fuel) id"
  by (simp add: keeps_time_def clock_machine_def steady_def keeps_def ret_def raise_def reads_def writes_def)


section \<open>The flag of the staging slot\<close>

text \<open>What only a cancellation ends: unlinking a socket in /tmp, and waiting; and a cancellation is no transport error.\<close>

definition interruptible :: "('w, 'a) act \<Rightarrow> bool" where
  "interruptible m \<longleftrightarrow> (\<forall>w. wp m (\<lambda>_ _. True) (\<lambda>e _. \<not> is_exception e) w)"

definition plain_machine :: "'s machine \<Rightarrow> bool" where
  "plain_machine M \<longleftrightarrow>
     (\<forall>p. interruptible (mc_unlink M p)) \<and> (\<forall>p. interruptible (mc_exists M p)) \<and>
     interruptible (mc_time M) \<and> (\<forall>d. interruptible (mc_sleep M d)) \<and>
     (\<forall>e. mc_transport_error M e \<longrightarrow> is_exception e)"

lemma wp_driver: "(\<And>a s'. Q a (s', d)) \<Longrightarrow> (\<And>e s'. R e (s', d)) \<Longrightarrow> wp (lifted m) Q R (s, d)"
  by (auto simp: wp_lifted wp_def split: prod.splits sum.splits)

lemma wp_unlink:
  assumes "plain_machine M" and "\<And>s'. Q () (s', d)" and "\<And>e s'. \<not> is_exception e \<Longrightarrow> R e (s', d)"
  shows "wp (lifted (mc_unlink M p)) Q R (s, d)"
proof -
  have "wp (mc_unlink M p) (\<lambda>_ _. True) (\<lambda>e _. \<not> is_exception e) s"
    using assms(1) by (simp add: plain_machine_def interruptible_def)
  then show ?thesis using assms(2,3) by (auto simp: wp_lifted wp_def split: prod.splits sum.splits)
qed

lemma wp_clean:
  assumes "plain_machine M" and "\<And>s'. Q () (s', d)" and "\<And>e s'. \<not> is_exception e \<Longrightarrow> R e (s', d)"
  shows "wp (lifted (ensure_staging_clean M)) Q R (s, d)"
proof -
  have u: "wp (mc_unlink M staging_vsock) (\<lambda>_ _. True) (\<lambda>e _. \<not> is_exception e) v" for v
    using assms(1) by (simp add: plain_machine_def interruptible_def)
  have "wp (suppress (destroy_tap M staging_slot)) (\<lambda>_ v. wp (suppress (sh_quiet M c)) (\<lambda>_ _. True) (\<lambda>e _. \<not> is_exception e) v)
      (\<lambda>e _. \<not> is_exception e) v" for c v
    unfolding wp_suppress by (rule wp_any) (auto intro: wp_any)
  then have "wp (ensure_staging_clean M) (\<lambda>_ _. True) (\<lambda>e _. \<not> is_exception e) s"
    unfolding ensure_staging_clean_def wp_seqE by (intro wp_mono [OF u]) auto
  then show ?thesis using assms(2,3) by (auto simp: wp_lifted wp_def split: prod.splits sum.splits)
qed

definition flag_sound :: "bool \<Rightarrow> exc \<Rightarrow> 's \<times> drivers \<Rightarrow> bool" where
  "flag_sound before e w \<longleftrightarrow> (if is_exception e then dr_staging_dirty (snd w) else dr_staging_dirty (snd w) \<longrightarrow> before)"

lemma stage_failed_flag:
  assumes "plain_machine M" and "dr_staging_dirty d \<longrightarrow> before"
  shows "wp (stage_failed M pid socket_path e) Q (flag_sound before) (s, d)"
proof (cases "is_exception e")
  case True
  have c: "wp (seqE (lifted (mc_unlink M socket_path)) (seqE (lifted (ensure_staging_clean M)) (assign (dr_staging_dirty_update (\<lambda>_. True)))))
      (\<lambda>_. wp (raise e) Q (flag_sound before)) (flag_sound before) (s', d)" for s'
    unfolding wp_seqE wp_assign wp_raise
    by (rule wp_unlink [OF assms(1)], rule wp_clean [OF assms(1)]) (use assms(2) True in \<open>auto simp: flag_sound_def\<close>)
  have k: "wp (suppress (lifted (kill_process M n))) Q' (flag_sound before) (s', d)" if "\<And>s'. Q' () (s', d)" for n Q' s'
    unfolding wp_suppress by (rule wp_driver) (use assms(2) that in \<open>auto simp: flag_sound_def\<close>)
  show ?thesis
    unfolding stage_failed_def cleanup_staging_def if_P [OF True]
    by (cases pid) (use c k in \<open>simp_all add: wp_seqE wp_ret\<close>)
qed (use assms(2) in \<open>simp add: stage_failed_def wp_raise flag_sound_def\<close>)

lemma clean_if_dirty_flag:
  assumes "plain_machine M" and "\<And>s' d'. \<not> dr_staging_dirty d' \<Longrightarrow> Q () (s', d')" and "\<And>e s'. \<not> is_exception e \<Longrightarrow> R e (s', d)"
  shows "wp (clean_if_dirty M) Q R (s, d)"
proof (cases "dr_staging_dirty d")
  case True
  have "wp (lifted (ensure_staging_clean M)) (\<lambda>_. wp (assign (dr_staging_dirty_update (\<lambda>_. False))) Q R) R (s, d)"
    by (rule wp_clean [OF assms(1)]) (simp_all add: wp_assign assms(2,3))
  with True show ?thesis by (simp add: clean_if_dirty_def wp_bindE wp_local wp_seqE)
qed (simp add: clean_if_dirty_def wp_bindE wp_local wp_ret assms(2))

lemma stage_flag_wp:
  assumes "plain_machine M"
  shows "wp (stage M c slot v name activate timeout try_vsock) (\<lambda>_ w. \<not> dr_staging_dirty (snd w))
     (flag_sound (dr_staging_dirty d)) (s, d)"
proof -
  have later: "wp (lifted (bring_to_slot M slot name p a timeout try_vsock))
      (\<lambda>_ w. \<not> dr_staging_dirty (snd w)) (\<lambda>e. wp (stage_failed M (Some pid) p e) Q (flag_sound (dr_staging_dirty d))) (s', d')"
    if "\<not> dr_staging_dirty d'" for p a pid Q s' d'
    by (rule wp_driver) (use that in \<open>auto intro: stage_failed_flag [OF assms]\<close>)
  have failed: "wp (stage_failed M None p e) Q (flag_sound (dr_staging_dirty d)) (s', d')" if "dr_staging_dirty d' \<longrightarrow> dr_staging_dirty d" for p e Q s' d'
    by (rule stage_failed_flag [OF assms that])
  show ?thesis
    unfolding stage_def Let_def wp_bindE wp_tryE wp_seqE sum.case wp_ret
    by (rule clean_if_dirty_flag [OF assms], rule wp_driver; (rule later | rule failed)) simp_all
qed

text \<open>The flag of the staging slot is never wrong about a failure: a stage that returns leaves it cleared,
  one that raises an exception leaves it set, whatever the machine did and whatever failed. A stage that
  is cancelled cleans nothing and never sets it: a slot that was not marked stays unmarked.\<close>

lemma staging_flag:
  assumes "plain_machine M"
  shows "case outcome (stage M c slot v name activate timeout try_vsock) (s, d) of
     Inr vm \<Rightarrow> \<not> dr_staging_dirty (snd (run_state (stage M c slot v name activate timeout try_vsock) (s, d)))
   | Inl e \<Rightarrow>
       if is_exception e then dr_staging_dirty (snd (run_state (stage M c slot v name activate timeout try_vsock) (s, d)))
       else dr_staging_dirty (snd (run_state (stage M c slot v name activate timeout try_vsock) (s, d))) \<longrightarrow> dr_staging_dirty d"
  using stage_flag_wp [OF assms, of c slot v name activate timeout try_vsock d s]
  by (auto simp: wp_outcome flag_sound_def split: sum.splits)

lemma clock_machine_plain: "plain_machine (clock_machine bad early fuel)"
  by (auto elim!: is_exception.elims simp: plain_machine_def interruptible_def clock_machine_def wp_ret wp_reads wp_writes)

definition demo_drivers :: drivers where
  "demo_drivers = \<lparr>dr_mounts = [], dr_staging_dirty = True\<rparr>"

definition demo_hypervisor :: hypervisor_config where
  "demo_hypervisor = \<lparr>hc_binary = ''firecracker'', hc_kernel_path = ''/vmlinux'', hc_pool = \<lparr>pl_name = ''p'', pl_sectors = 8\<rparr>\<rparr>"

definition demo_stage :: "'s machine \<Rightarrow> ('s, running_vm) driver" where
  "demo_stage M = stage M demo_hypervisor 3 7 ''mshkn-comp-1'' (\<lambda>_. ret ()) 5 True"

text \<open>A stage whose disk cannot be mapped raises and leaves the slot marked.\<close>

lemma staging_flag_witness:
  "map_sum is_exception vm_pid (outcome (demo_stage (clock_machine [''dmsetup create''] False 9)) (0, demo_drivers)) = Inl True \<and>
   dr_staging_dirty (snd (run_state (demo_stage (clock_machine [''dmsetup create''] False 9)) (0, demo_drivers)))"
proof -
  let ?m = "demo_stage (clock_machine [''dmsetup create''] False 9)"
  have o: "map_sum is_exception vm_pid (outcome ?m (0, demo_drivers)) = Inl True" by code_simp
  then obtain e where "outcome ?m (0, demo_drivers) = Inl e" "is_exception e"
    by (cases "outcome ?m (0, demo_drivers)") auto
  with staging_flag [of "clock_machine [''dmsetup create''] False 9" demo_hypervisor 3 7 "''mshkn-comp-1''" "\<lambda>_. ret ()" 5 True 0
      demo_drivers, OF clock_machine_plain] o
  show ?thesis by (simp add: demo_stage_def)
qed

section \<open>Whose a process is\<close>

text \<open>The machine with a record of the processes started and killed.\<close>

datatype process_event = Spawned int | Killed int

definition noting :: "'e \<Rightarrow> ('s \<times> 'e list, unit) act" where
  "noting e = assign (\<lambda>l. l @ [e])"

definition watched :: "'s machine \<Rightarrow> ('s \<times> process_event list) machine" where
  "watched M =
     \<lparr>mc_proc = (\<lambda>c. lifted (mc_proc M c)),
      mc_spawn = (\<lambda>b p. bindE (lifted (mc_spawn M b p)) (\<lambda>n. seqE (noting (Spawned n)) (ret n))),
      mc_kill = (\<lambda>n. seqE (noting (Killed n)) (lifted (mc_kill M n))),
      mc_reap = (\<lambda>n. lifted (mc_reap M n)), mc_presence = (\<lambda>n (s, l). mc_presence M n s),
      mc_wait_pid = (\<lambda>n t. lifted (mc_wait_pid M n t)), mc_exists = (\<lambda>p. lifted (mc_exists M p)),
      mc_unlink = (\<lambda>p. lifted (mc_unlink M p)), mc_mkdirs = (\<lambda>p. lifted (mc_mkdirs M p)),
      mc_mkdtemp = (\<lambda>p. lifted (mc_mkdtemp M p)), mc_rmdir = (\<lambda>p. lifted (mc_rmdir M p)), mc_time = lifted (mc_time M),
      mc_sleep = (\<lambda>d. lifted (mc_sleep M d)), mc_wall_clock = lifted (mc_wall_clock M),
      mc_api = (\<lambda>s m t b. lifted (mc_api M s m t b)), mc_port_open = (\<lambda>i p. lifted (mc_port_open M i p)),
      mc_ssh = (\<lambda>i c. lifted (mc_ssh M i c)), mc_vsock_open = (\<lambda>p. lifted (mc_vsock_open M p)),
      mc_vsock_write = (\<lambda>t. lifted (mc_vsock_write M t)), mc_vsock_line = (\<lambda>d. lifted (mc_vsock_line M d)),
      mc_vsock_until = (\<lambda>t d. lifted (mc_vsock_until M t d)), mc_vsock_close = lifted (mc_vsock_close M),
      mc_os_error = mc_os_error M, mc_transport_error = mc_transport_error M,
      mc_start_done = (\<lambda>(s, l). mc_start_done M s), mc_fuel = mc_fuel M\<rparr>"

abbreviation events_are :: "'e list \<Rightarrow> 's \<times> 'e list \<Rightarrow> bool" where
  "events_are L \<equiv> (\<lambda>(s, l). l = L)"

lemma keeps_unseen [keeps_intros]: "keeps (events_are L) (lifted m)"
  by (auto simp: keeps_def lifted_def split: prod.splits)

lemma keeps_watched:
  "keeps (events_are L) (mc_proc (watched M) c)" "keeps (events_are L) (mc_reap (watched M) n)"
  "keeps (events_are L) (mc_wait_pid (watched M) n t)" "keeps (events_are L) (mc_exists (watched M) p)"
  "keeps (events_are L) (mc_unlink (watched M) p)" "keeps (events_are L) (mc_time (watched M))"
  "keeps (events_are L) (mc_sleep (watched M) d)" "keeps (events_are L) (mc_wall_clock (watched M))"
  "keeps (events_are L) (mc_api (watched M) s m x b)" "keeps (events_are L) (mc_port_open (watched M) i q)"
  "keeps (events_are L) (mc_ssh (watched M) i c)" "keeps (events_are L) (mc_vsock_open (watched M) p)"
  "keeps (events_are L) (mc_vsock_write (watched M) x)" "keeps (events_are L) (mc_vsock_line (watched M) d)"
  "keeps (events_are L) (mc_vsock_until (watched M) x d)" "keeps (events_are L) (mc_vsock_close (watched M))"
  by (simp_all add: watched_def keeps_unseen)

lemma keeps_run_shell: "keeps (events_are L) (run_shell (watched M) c b)" "keeps (events_are L) (sh (watched M) c)"
  "keeps (events_are L) (sh_quiet (watched M) c)"
  by (auto simp: sh_def sh_quiet_def run_shell_def intro!: keeps_intros keeps_watched)

lemma keeps_on_errors: "keeps I m \<Longrightarrow> (\<And>e. keeps I (h e)) \<Longrightarrow> keeps I (on_shell_error m h)"
  "keeps I m \<Longrightarrow> (\<And>e. keeps I (h e)) \<Longrightarrow> keeps I (on_host_error m h)"
  by (auto simp: on_shell_error_def on_host_error_def intro!: keeps_intros)

lemma keeps_rounds: "keeps I r \<Longrightarrow> keeps I (rounds n r)"
  by (induction n) (auto intro!: keeps_intros split: option.splits)

lemma keeps_waiting: "keeps I r \<Longrightarrow> keeps I (waiting M r)"
  unfolding waiting_def by (auto intro!: keeps_intros keeps_rounds split: option.splits)

lemma keeps_look: "keeps (events_are L) m \<Longrightarrow> keeps (events_are L) (look_round (watched M) m d i)"
  unfolding look_round_def by (auto intro!: keeps_intros keeps_watched)

lemma keeps_add_tap: "keeps (events_are L) (add_tap (watched M) tap n)"
  by (induction n) (auto intro!: keeps_intros keeps_on_errors keeps_run_shell keeps_watched)

lemma keeps_taps: "keeps (events_are L) (create_tap (watched M) slot)" "keeps (events_are L) (destroy_tap (watched M) slot)"
  unfolding create_tap_def destroy_tap_def tap_exists_def
  by (auto simp: Let_def intro!: keeps_intros keeps_on_errors keeps_run_shell keeps_add_tap split: prod.splits)

lemma keeps_map_and_tap: "keeps (events_are L) (map_and_tap (watched M) p v)"
  unfolding map_and_tap_def map_staging_disk_def by (intro keeps_intros keeps_run_shell keeps_taps)

lemma keeps_staging_clean: "keeps (events_are L) (ensure_staging_clean (watched M))"
  unfolding ensure_staging_clean_def by (intro keeps_intros keeps_run_shell keeps_taps keeps_watched)

lemma keeps_wait_exit: "keeps (events_are L) (wait_for_exit (watched M) n t)"
  unfolding wait_for_exit_def gone_round_def is_gone_def
  by (auto intro!: keeps_intros keeps_watched keeps_waiting split: pid_wait.splits presence.splits)

lemma keeps_vsock: "keeps (events_are L) (vsock_run (watched M) u p x t c)"
  unfolding vsock_run_def vsock_round_def vsock_talk_def read_within_def
  by (auto intro!: keeps_intros keeps_watched keeps_waiting split: stream_read.splits option.splits prod.splits)

lemma keeps_reconfigure: "keeps (events_are L) (reconfigure_guest (watched M) a b t v)"
  unfolding reconfigure_guest_def vsock_reconfigure_def over_ssh_def ssh_add_ip_def wait_for_port_def
  by (auto intro!: keeps_intros keeps_watched keeps_on_errors keeps_waiting keeps_look keeps_vsock split: prod.splits)

definition all_killed :: "process_event list \<Rightarrow> bool" where
  "all_killed L \<longleftrightarrow> list_all (\<lambda>e. case e of Spawned n \<Rightarrow> Killed n \<in> set L | Killed n \<Rightarrow> True) L"

definition after_failure :: "exc \<Rightarrow> 's \<times> process_event list \<Rightarrow> bool" where
  "after_failure e w \<longleftrightarrow> is_exception e \<longrightarrow> all_killed (snd w)"

lemma wp_keeps_events: "keeps (events_are L) m \<Longrightarrow> wp m (\<lambda>_. events_are L) (\<lambda>_. events_are L) (s, L)"
  by (rule keeps_wp) simp_all

lemma wp_noting: "wp (noting e) Q R (s, L) = Q () (s, L @ [e])"
  by (simp add: noting_def wp_assign)

lemma wp_watched_kill: "(\<And>b s'. Q b (s', L @ [Killed n])) \<Longrightarrow> (\<And>e s'. R e (s', L @ [Killed n])) \<Longrightarrow> wp (mc_kill (watched M) n) Q R (s, L)"
  by (simp add: watched_def wp_seqE wp_noting) (rule wp_driver)

text \<open>Since \<open>L\<close> nothing but kills of \<open>n\<close>, one at least.\<close>

definition killed_since :: "process_event list \<Rightarrow> int \<Rightarrow> process_event list \<Rightarrow> bool" where
  "killed_since L n l \<longleftrightarrow> (\<exists>k. l = L @ replicate (Suc k) (Killed n))"

lemma killed_once: "killed_since L n (L @ [Killed n])"
  unfolding killed_since_def by (rule exI [of _ 0]) simp

lemma killed_again: "killed_since L n l \<Longrightarrow> killed_since L n (l @ [Killed n])"
  unfolding killed_since_def by (elim exE) (simp add: replicate_append_same del: replicate.simps, metis replicate_Suc)

lemma abandon_child_wp:
  "wp (abandon_child (watched M) n p) (\<lambda>_. events_are (L @ [Killed n])) (\<lambda>_. events_are (L @ [Killed n])) (s, L)"
  unfolding abandon_child_def wp_bindE
  by (rule wp_watched_kill)
     (auto intro: wp_keeps_events keeps_seqE keeps_watched)

lemma abandoned:
  assumes "\<And>s'. Q () (s', L @ [Killed n])" and "\<And>e s'. R e (s', L @ [Killed n])"
  shows "wp (abandon_child (watched M) n p) Q R (s, L)"
  by (rule wp_mono [OF abandon_child_wp]) (use assms in auto)

lemma launch_wp:
  "wp (launch (watched M) p b) (\<lambda>n. events_are (L @ [Spawned n])) (\<lambda>_. events_are L) (s, L)"
proof -
  have spawn: "wp (mc_spawn (watched M) b p) (\<lambda>n. events_are (L @ [Spawned n])) (\<lambda>_. events_are L) (s', L)" for s'
    by (simp add: watched_def wp_bindE) (rule wp_driver, simp_all add: wp_seqE wp_noting wp_ret)
  show ?thesis
    unfolding launch_def wp_seqE by (rule wp_mono [OF wp_keeps_events [OF keeps_watched(5)]]) (auto intro: spawn)
qed

lemma interruptible_bind: "interruptible m \<Longrightarrow> (\<And>a. interruptible (f a)) \<Longrightarrow> interruptible (bindE m f)"
  unfolding interruptible_def wp_bindE by (auto intro: wp_mono)

lemma interruptible_ret: "interruptible (ret a)" "interruptible (raise still_waiting)"
  by (simp_all add: interruptible_def wp_ret wp_raise still_waiting_def)

lemma interruptible_rounds: "interruptible r \<Longrightarrow> interruptible (rounds n r)"
  by (induction n) (auto intro!: interruptible_bind interruptible_ret split: option.splits)

lemma interruptible_lifted: "interruptible m \<Longrightarrow> interruptible (lifted m)"
  by (auto simp: interruptible_def wp_lifted wp_def split: prod.splits sum.splits)

lemma plain_watched: "plain_machine M \<Longrightarrow> plain_machine (watched M)"
  by (simp add: plain_machine_def watched_def interruptible_lifted)

lemma wp_interruptible_events:
  assumes "interruptible m" and "keeps (events_are L) m"
  shows "wp m (\<lambda>_. events_are L) (\<lambda>e w. \<not> is_exception e \<and> events_are L w) (s, L)"
proof -
  have "wp m (\<lambda>_ _. True) (\<lambda>e _. \<not> is_exception e) (s, L)" using assms(1) by (simp add: interruptible_def)
  from wp_conj [OF this wp_keeps_events [OF assms(2)]] show ?thesis by (rule wp_mono) auto
qed

lemma interruptible_look:
  assumes "plain_machine M" and "interruptible look"
  shows "interruptible (waiting M (look_round M look d i))"
  using assms unfolding waiting_def look_round_def plain_machine_def seqE_def
  by (auto intro!: interruptible_bind interruptible_rounds interruptible_ret split: option.splits)

lemma await_socket_wp:
  fixes M :: "'s machine"
  assumes "plain_machine M"
  shows "wp (await_socket (watched M) p n) (\<lambda>m (s, l). m = n \<and> l = L)
     (\<lambda>e (s, l). is_exception e \<longrightarrow> killed_since L n l) (s, L)"
proof -
  let ?R = "\<lambda>e (s :: 's, l). is_exception e \<longrightarrow> killed_since L n l"
  have pm: "plain_machine (watched M)" by (rule plain_watched [OF assms])
  have twice: "killed_since L n (L @ [Killed n, Killed n])" using killed_again [OF killed_once, of L n] by simp
  have again: "wp (abandon_child (watched M) n p) (\<lambda>_ _. True) ?R (s', l)"
    if "killed_since L n l \<or> l = L" for s' l
    by (rule abandoned) (use that killed_again killed_once in auto)
  have handled: "wp (if is_exception e then raise e else seqE (abandon_child (watched M) n p) (raise e)) Q ?R (s', l)"
    if "killed_since L n l \<or> l = L \<and> \<not> is_exception e" for e Q s' l
    by (cases "is_exception e") (use that in \<open>auto simp: wp_raise wp_seqE intro!: wp_mono [OF again]\<close>)
  show ?thesis
    unfolding await_socket_def wp_bindE
  proof (rule wp_mono [OF wp_interruptible_events [OF _ keeps_watched(6)]])
    show "interruptible (mc_time (watched M))" using pm by (simp add: plain_machine_def)
    show "\<And>e w. \<not> is_exception e \<and> events_are L w \<Longrightarrow> ?R e w" by auto
    fix start and w :: "'s \<times> process_event list"
    assume "events_are L w"
    then obtain s' where w: "w = (s', L)" by auto
    show "wp (catchE (bindE (waiting (watched M) (look_round (watched M) (mc_exists (watched M) p) (start + socket_timeout) (1 / 100)))
              (\<lambda>appeared. if appeared then ret n else seqE (abandon_child (watched M) n p) (raise (no_socket p))))
            (\<lambda>e. if is_exception e then raise e else seqE (abandon_child (watched M) n p) (raise e)))
          (\<lambda>m (s, l). m = n \<and> l = L) ?R w"
      unfolding w wp_catchE wp_bindE
      by (rule wp_mono [OF wp_interruptible_events [OF interruptible_look [OF pm] keeps_waiting [OF keeps_look [OF keeps_watched(4)]]]])
         (use pm in \<open>auto simp: plain_machine_def wp_ret wp_seqE wp_raise intro!: abandoned handled killed_once twice\<close>)
  qed
qed

lemma all_killed_simps: "all_killed []" "killed_since [Spawned n] n l \<Longrightarrow> all_killed l"
  by (auto simp: all_killed_def killed_since_def list_all_iff)

text \<open>A start that has not been waited for before the mapping failed.\<close>

definition start_pending :: "'s machine \<Rightarrow> bool" where
  "start_pending M \<longleftrightarrow> (\<forall>s. \<not> mc_start_done M s)"

lemma start_beside_wp:
  fixes M :: "'s machine"
  assumes "plain_machine M" and "start_pending M"
  shows "wp (start_beside (watched M) c p v) (\<lambda>n w. snd w = [Spawned n]) after_failure (s, [])"
proof -
  have early: "mc_start_done (watched M) w = False" for w
    using assms(2) by (cases w) (simp add: start_pending_def watched_def)
  have mapped: "wp (map_and_tap (watched M) q v) Q R (s', L)" if "\<And>s'. Q () (s', L)" "\<And>e s'. R e (s', L)" for q Q R s' L
    by (rule wp_mono [OF wp_keeps_events [OF keeps_map_and_tap]]) (use that in auto)
  have dead: "wp (abandon_child (watched M) n p) (\<lambda>_. after_failure e) after_failure (s', [Spawned n])" for n e s'
    by (rule abandoned) (simp_all add: after_failure_def all_killed_def)
  have wait: "wp (await_socket (watched M) p n) (\<lambda>n w. snd w = [Spawned n]) after_failure (s', [Spawned n])" for n s'
    by (rule wp_mono [OF await_socket_wp [OF assms(1)]]) (auto simp: after_failure_def all_killed_simps)
  have interrupted: "\<not> is_exception e \<Longrightarrow> after_failure e w" for e and w :: "'s \<times> process_event list" by (simp add: after_failure_def)
  have failed: "after_failure e (s', [])" for e and s' :: 's by (simp add: after_failure_def all_killed_def)
  show ?thesis
    unfolding start_beside_def wp_bindE wp_tryE wp_reads early if_False
    by (rule wp_mono [OF launch_wp [where L = "[]", unfolded append_Nil]])
       (auto simp: wp_raise wp_seqE intro!: mapped dead wait failed interrupted split: sum.splits)
qed

text \<open>After the record was complete or not, handling the failure leaves it complete.\<close>

lemma cleanup_events:
  fixes M :: "'s machine"
  assumes "case pid of None \<Rightarrow> all_killed L | Some n \<Rightarrow> L = [Spawned n]"
  shows "wp (stage_failed (watched M) pid p e) Q (\<lambda>e w. after_failure e (fst w)) ((s, L), d)"
proof (cases "is_exception e")
  case True
  let ?R = "\<lambda>e (w :: ('s \<times> process_event list) \<times> drivers). after_failure e (fst w)"
  have quiet: "wp (lifted m) Q' ?R ((s', l), d')"
    if "keeps (events_are l) m" "all_killed l" "\<And>a s'. Q' a ((s', l), d')" for m and Q' :: "'x \<Rightarrow> _" and s' l d'
    unfolding wp_lifted prod.case
    by (rule wp_mono [OF wp_keeps_events [OF that(1)]]) (use that in \<open>auto simp: after_failure_def\<close>)
  have rest: "wp (seqE (lifted (mc_unlink (watched M) p)) (seqE (lifted (ensure_staging_clean (watched M)))
        (assign (dr_staging_dirty_update (\<lambda>_. True))))) (\<lambda>_. wp (raise e) Q ?R) ?R ((s', l), d)"
    if "all_killed l" for s' l
    unfolding wp_seqE wp_assign wp_raise
    by (rule quiet [OF keeps_watched(5) that], rule quiet [OF keeps_staging_clean that]) (simp add: that after_failure_def)
  show ?thesis
  proof (cases pid)
    case None
    then show ?thesis using True rest assms by (simp add: stage_failed_def cleanup_staging_def wp_seqE wp_ret)
  next
    case (Some n)
    have L: "L = [Spawned n]" using assms Some by simp
    have killed: "all_killed (L @ [Killed n])" by (simp add: L all_killed_def)
    have exit: "wp (bindE (wait_for_exit (watched M) n kill_wait_seconds) (\<lambda>_. ret ())) (\<lambda>_. events_are (L @ [Killed n]))
        (\<lambda>_. events_are (L @ [Killed n])) (s', L @ [Killed n])" for s'
      by (rule wp_keeps_events) (intro keeps_intros keeps_wait_exit)
    have "wp (kill_process (watched M) n) (\<lambda>_. events_are (L @ [Killed n])) (\<lambda>_. events_are (L @ [Killed n])) (s, L)"
      unfolding kill_process_def wp_bindE by (rule wp_watched_kill) (use exit in \<open>auto simp: wp_ret wp_bindE\<close>)
    then have "wp (suppress (lifted (kill_process (watched M) n)))
        (\<lambda>_. wp (seqE (lifted (mc_unlink (watched M) p)) (seqE (lifted (ensure_staging_clean (watched M)))
          (assign (dr_staging_dirty_update (\<lambda>_. True))))) (\<lambda>_. wp (raise e) Q ?R) ?R) ?R ((s, L), d)"
      unfolding wp_suppress wp_lifted prod.case
      by (rule wp_mono) (use rest [OF killed] killed in \<open>auto simp: after_failure_def\<close>)
    then show ?thesis using True Some by (simp add: stage_failed_def cleanup_staging_def wp_seqE)
  qed
qed (simp add: stage_failed_def wp_raise after_failure_def)

lemma keeps_bring: "keeps (events_are L) a \<Longrightarrow> keeps (events_are L) (bring_to_slot (watched M) slot name p a t b)"
  unfolding bring_to_slot_def by (intro keeps_intros keeps_watched keeps_reconfigure keeps_run_shell)

lemma clean_if_dirty_events:
  fixes M :: "'s machine"
  assumes "\<And>s' d'. Q () ((s', L), d')" and "\<And>e s' d'. R e ((s', L), d')"
  shows "wp (clean_if_dirty (watched M)) Q R ((s, L), d)"
proof -
  have k: "wp (ensure_staging_clean (watched M)) (\<lambda>_. events_are L) (\<lambda>_. events_are L) (s, L)"
    by (rule wp_keeps_events [OF keeps_staging_clean])
  have "wp (lifted (ensure_staging_clean (watched M))) (\<lambda>_. wp (assign (dr_staging_dirty_update (\<lambda>_. False))) Q R) R ((s, L), d)"
    unfolding wp_lifted wp_assign prod.case by (rule wp_mono [OF k]) (auto simp: assms)
  then show ?thesis by (auto simp: clean_if_dirty_def wp_bindE wp_local wp_seqE wp_ret assms)
qed

lemma stage_events_wp:
  fixes M :: "'s machine"
  assumes m: "plain_machine M" "start_pending M" and a: "\<And>p L. keeps (events_are L) (activate p)"
  shows "wp (stage (watched M) c slot v name activate t b) (\<lambda>vm w. snd (fst w) = [Spawned (vm_pid vm)])
     (\<lambda>e w. after_failure e (fst w)) ((s, []), d)"
proof -
  let ?p = "api_socket name"
  have none: "wp (stage_failed (watched M) None ?p e) Q (\<lambda>e w. after_failure e (fst w)) ((s', L), d')" if "after_failure e (s', L)" for e Q s' L d'
  proof (cases "is_exception e")
    case True
    then have "all_killed L" using that by (simp add: after_failure_def)
    then show ?thesis by (intro cleanup_events) simp
  qed (simp add: stage_failed_def wp_raise after_failure_def)
  have brought: "wp (lifted (bring_to_slot (watched M) slot name ?p (activate ?p) t b)) (\<lambda>_ w. snd (fst w) = [Spawned n])
      (\<lambda>e. wp (stage_failed (watched M) (Some n) ?p e) Q (\<lambda>e w. after_failure e (fst w))) ((s', [Spawned n]), d')" for n Q s' d'
    unfolding wp_lifted prod.case
    by (rule wp_mono [OF wp_keeps_events [OF keeps_bring [OF a]]]) (auto intro: cleanup_events)
  have started: "wp (lifted (start_beside (watched M) c ?p v))
      (\<lambda>n. wp (lifted (bring_to_slot (watched M) slot name ?p (activate ?p) t b)) (\<lambda>_ w. snd (fst w) = [Spawned n])
         (\<lambda>e. wp (stage_failed (watched M) (Some n) ?p e) (\<lambda>vm w. snd (fst w) = [Spawned (vm_pid vm)]) (\<lambda>e w. after_failure e (fst w))))
      (\<lambda>e. wp (stage_failed (watched M) None ?p e) (\<lambda>vm w. snd (fst w) = [Spawned (vm_pid vm)]) (\<lambda>e w. after_failure e (fst w)))
      ((s', []), d')" for s' d'
    unfolding wp_lifted prod.case
    by (rule wp_mono [OF start_beside_wp [OF m]]) (auto intro: brought [unfolded wp_lifted prod.case fst_conv] none)
  show ?thesis
    unfolding stage_def Let_def wp_bindE wp_tryE wp_seqE sum.case wp_ret running_vm.simps
    by (rule clean_if_dirty_events) (rule started, rule none, simp add: after_failure_def all_killed_simps)
qed

lemma keeps_api: "keeps (events_are L) (fc_request (watched M) p m x b)"
  unfolding fc_request_def by (auto intro!: keeps_intros keeps_watched split: prod.splits)

lemma keeps_activation:
  "keeps (events_are L) (configure_and_boot (watched M) p c)" "keeps (events_are L) (load_snapshot (watched M) p f b)"
  unfolding configure_and_boot_def load_snapshot_def Let_def by (auto intro!: keeps_intros keeps_api split: option.splits)

definition process_owned :: "(('s \<times> process_event list) \<times> drivers, running_vm) act \<Rightarrow> 's \<Rightarrow> drivers \<Rightarrow> bool" where
  "process_owned m s d \<longleftrightarrow>
     wp m (\<lambda>vm w. snd (fst w) = [Spawned (vm_pid vm)]) (\<lambda>e w. after_failure e (fst w)) ((s, []), d)"

lemma owned_as_host_errors:
  assumes "plain_machine M" and "process_owned m s d"
  shows "process_owned (as_host_errors (watched M) what m) s d"
proof -
  have "is_exception e" if "mc_transport_error (watched M) e" for e
    using assms(1) that by (simp add: plain_machine_def watched_def)
  then show ?thesis
    using assms(2) unfolding process_owned_def as_host_errors_def wp_catchE
    by (elim wp_mono) (auto simp: wp_raise after_failure_def host_failure_def)
qed


definition demo_snapshot :: snapshot_files where
  "demo_snapshot = snapshot_in [''ckpt'', ''c-1'']"

definition demo_restore :: "'s machine \<Rightarrow> ('s, running_vm) driver" where
  "demo_restore M = fc_restore M demo_hypervisor 3 7 ''mshkn-comp-1'' demo_snapshot"



end
