(* ===== verification/Caddy.thy ===== *)
theory Caddy
  imports DmThin
begin

text \<open>
  The reverse proxy (src/src/mshkn/host/caddy.py): the routes of the computers, kept in the Caddy server
  through its admin API. The API is a parameter, a request answered with a status and a text or failing
  with an exception; what is relied on is how each request changes the list of routes
  (\<open>admin_api\<close>), and a request may be applied although its answer never came. The lock on mutations makes
  each one step. \<open>caddy_proxy\<close> is the protocol of theory \<open>Host\<close> filled with it. Log lines are left out.
\<close>

section \<open>The driver\<close>

record 's admin =
  ad_request :: "string \<Rightarrow> string \<Rightarrow> json option \<Rightarrow> ('s, int \<times> string) act"
  ad_sleep :: "rat \<Rightarrow> ('s, unit) act"
  ad_loads :: "string \<Rightarrow> json option"
  ad_re_escape :: "string \<Rightarrow> string"
  ad_transient :: "exc \<Rightarrow> bool"
  ad_http_error :: "exc \<Rightarrow> bool"
  ad_domain :: string
  ad_closed :: "'s \<Rightarrow> bool"

text \<open>\<open>ad_transient\<close> is the \<open>isinstance\<close> test against RemoteProtocolError and ConnectError, \<open>ad_http_error\<close>
  the one against their base class HTTPError; \<open>ad_re_escape\<close> is \<open>re.escape\<close>.\<close>

definition routes_path :: string where
  "routes_path = ''/config/apps/http/servers/main/routes''"

definition terminal_route_id :: string where
  "terminal_route_id = ''route-terminal''"

definition terminal_route :: json where
  "terminal_route =
     JObj [(''@id'', JStr terminal_route_id),
           (''handle'', JArr [JObj [(''handler'', JStr ''static_response''), (''status_code'', JInt 404),
              (''body'', JStr (''no such computer route'' @ newline))]])]"

definition route_id_of :: "string \<Rightarrow> string" where
  "route_id_of computer_id = ''route-'' @ computer_id"

definition backslash :: char where
  "backslash = CHR 0x5C"

definition computer_route :: "'s admin \<Rightarrow> string \<Rightarrow> string \<Rightarrow> json" where
  "computer_route A computer_id ip =
     JObj [(''@id'', JStr (route_id_of computer_id)),
           (''match'', JArr [JObj [(''header_regexp'', JObj [(''Host'', JObj [(''name'', JStr ''port_match''),
              (''pattern'', JStr (''^('' @ [backslash] @ ''d+)-'' @ ad_re_escape A computer_id @ [backslash] @ ''.'' @ ad_re_escape A (ad_domain A) @ ''$''))])])]]),
           (''handle'', JArr [JObj [(''handler'', JStr ''reverse_proxy''),
              (''upstreams'', JArr [JObj [(''dial'', JStr (ip @ '':{http.regexp.port_match.1}''))]])]])]"

definition proxy_failure :: "string \<Rightarrow> exc" where
  "proxy_failure m = MshknError HostError m None"

definition delete_id :: "'s admin \<Rightarrow> string \<Rightarrow> ('s, int \<times> string) act" where
  "delete_id A i = ad_request A ''DELETE'' (''/id/'' @ i) None"

text \<open>The status of the delete is not looked at.\<close>

definition ensure_terminal_route :: "'s admin \<Rightarrow> ('s, unit) act" where
  "ensure_terminal_route A =
     seqE (catchE (bindE (delete_id A terminal_route_id) (\<lambda>_. ret ())) (\<lambda>e. if ad_http_error A e then ret () else raise e))
     (bindE (catchE (ad_request A ''POST'' routes_path (Some terminal_route))
              (\<lambda>e. if ad_http_error A e then raise (proxy_failure (''Caddy ensure_terminal_route failed: '' @ describe_exc e)) else raise e))
        (\<lambda>(status, text).
         if status \<ge> 400 then raise (proxy_failure (''Caddy ensure_terminal_route failed: '' @ str_int status @ '' '' @ text))
         else ret ()))"

text \<open>\<open>for attempt in range(3)\<close>; the argument counts the attempts left.\<close>

fun put_route :: "'s admin \<Rightarrow> json \<Rightarrow> nat \<Rightarrow> ('s, unit) act" where
  "put_route A route 0 = ret ()"
| "put_route A route (Suc n) =
     bindE (tryE (ad_request A ''PUT'' (routes_path @ ''/0'') (Some route))) (\<lambda>r.
     case r of
       Inr (status, text) \<Rightarrow>
         if status \<ge> 400 then raise (proxy_failure (''Caddy add_route failed: '' @ str_int status @ '' '' @ text)) else ret ()
     | Inl e \<Rightarrow>
         if ad_transient A e
         then (if n = 0 then raise (proxy_failure (''Caddy add_route failed after retries: '' @ exc_str e))
               else seqE (ad_sleep A (of_nat (3 - n) / 10)) (put_route A route n))
         else if ad_http_error A e then raise (proxy_failure (''Caddy add_route failed: '' @ describe_exc e))
         else raise e)"

definition add_route :: "'s admin \<Rightarrow> string \<Rightarrow> string \<Rightarrow> ('s, unit) act" where
  "add_route A computer_id ip = put_route A (computer_route A computer_id ip) 3"

definition index_race :: string where
  "index_race = ''array index out of bounds''"

definition remove_attempts :: nat where "remove_attempts = 3"

text \<open>Sleeping before every attempt but the first.\<close>

fun drop_route :: "'s admin \<Rightarrow> string \<Rightarrow> nat \<Rightarrow> ('s, unit) act" where
  "drop_route A i 0 = ret ()"
| "drop_route A i (Suc n) =
     seqE (if remove_attempts - Suc n = 0 then ret () else ad_sleep A (of_nat (remove_attempts - Suc n) / 20))
     (bindE (tryE (delete_id A i)) (\<lambda>r.
      case r of
        Inl e \<Rightarrow>
          if ad_transient A e then drop_route A i n
          else if ad_http_error A e then ret ()
          else raise e
      | Inr (status, text) \<Rightarrow>
          if status = 404 \<or> status < 400 then ret ()
          else if \<not> sublist index_race text then ret ()
          else drop_route A i n))"

definition remove_route :: "'s admin \<Rightarrow> string \<Rightarrow> ('s, unit) act" where
  "remove_route A computer_id = drop_route A (route_id_of computer_id) remove_attempts"

fun id_of_route :: "json \<Rightarrow> string option" where
  "id_of_route (JObj kvs) = (case map_of kvs ''@id'' of Some (JStr i) \<Rightarrow> Some i | _ \<Rightarrow> None)"
| "id_of_route _ = None"

fun route_ids :: "json \<Rightarrow> string list" where
  "route_ids (JArr rs) = List.map_filter id_of_route rs"
| "route_ids _ = []"

definition list_route_ids :: "'s admin \<Rightarrow> ('s, string list) act" where
  "list_route_ids A =
     bindE (tryE (ad_request A ''GET'' routes_path None)) (\<lambda>r.
     case r of
       Inl e \<Rightarrow> if ad_http_error A e then ret [] else raise e
     | Inr (status, text) \<Rightarrow>
         if status \<ge> 400 then ret []
         else ret (case ad_loads A text of None \<Rightarrow> [] | Some j \<Rightarrow> route_ids j))"

definition proxy_healthy :: "'s admin \<Rightarrow> ('s, bool) act" where
  "proxy_healthy A =
     bindE (reads (ad_closed A)) (\<lambda>closed.
     if closed then ret False
     else bindE (tryE (ad_request A ''GET'' ''/config/'' None)) (\<lambda>r.
          case r of
            Inl e \<Rightarrow> if ad_http_error A e then ret False else raise e
          | Inr (status, _) \<Rightarrow> ret (status = 200)))"

definition caddy_proxy :: "'s admin \<Rightarrow> ('s \<times> drivers) proxy" where
  "caddy_proxy A =
     \<lparr>pr_ensure_terminal_route = lifted (ensure_terminal_route A), pr_add_route = (\<lambda>c ip. lifted (add_route A c ip)),
      pr_remove_route = (\<lambda>c. lifted (remove_route A c)), pr_list_route_ids = lifted (list_route_ids A)\<rparr>"

section \<open>The admin API\<close>

text \<open>Removing the first route with an id.\<close>

fun without_id :: "string \<Rightarrow> json list \<Rightarrow> json list" where
  "without_id i [] = []"
| "without_id i (r # rs) = (if id_of_route r = Some i then rs else r # without_id i rs)"

text \<open>
  What Caddy documents of the requests the driver makes, over the list \<open>R s\<close> of the routes: a delete by id takes
  out one route with that id, a PUT at index 0 inserts at the head, a POST to the list appends, a GET
  changes nothing; a request that is answered with an error changes nothing, and one without an answer
  may have been applied or not.
\<close>

definition applied :: "('s \<Rightarrow> json list) \<Rightarrow> (json list \<Rightarrow> json list) \<Rightarrow> ('s, int \<times> string) act \<Rightarrow> bool" where
  "applied R change m \<longleftrightarrow>
     (\<forall>s. wp m (\<lambda>(status, _) s'. R s' = (if status < 400 then change (R s) else R s))
            (\<lambda>_ s'. R s' = R s \<or> R s' = change (R s)) s)"

definition admin_api :: "'s admin \<Rightarrow> ('s \<Rightarrow> json list) \<Rightarrow> bool" where
  "admin_api A R \<longleftrightarrow>
     (\<forall>i. applied R (without_id i) (delete_id A i)) \<and>
     (\<forall>r. applied R (\<lambda>rs. r # rs) (ad_request A ''PUT'' (routes_path @ ''/0'') (Some r))) \<and>
     (\<forall>r. applied R (\<lambda>rs. rs @ [r]) (ad_request A ''POST'' routes_path (Some r))) \<and>
     (\<forall>p. applied R (\<lambda>rs. rs) (ad_request A ''GET'' p None)) \<and>
     (\<forall>d L. keeps (\<lambda>s. R s = L) (ad_sleep A d))"

lemma applied_wp:
  assumes "applied R change m" and "\<And>a s'. R s' = R s \<or> R s' = change (R s) \<Longrightarrow> Q a s'"
    and "\<And>e s'. R s' = R s \<or> R s' = change (R s) \<Longrightarrow> E e s'"
  shows "wp m Q E s"
proof -
  have "wp m (\<lambda>(status, _) s'. R s' = (if status < 400 then change (R s) else R s))
      (\<lambda>_ s'. R s' = R s \<or> R s' = change (R s)) s"
    using assms(1) by (simp add: applied_def)
  then show ?thesis by (rule wp_mono) (use assms(2,3) in \<open>auto split: if_splits\<close>)
qed

text \<open>A predicate of the list that a change preserves is kept by a request for it, and by the loops over it.\<close>

lemma keeps_applied: "applied R change m \<Longrightarrow> (\<And>rs. P rs \<Longrightarrow> P (change rs)) \<Longrightarrow> keeps (\<lambda>s. P (R s)) m"
  by (rule keepsI_wp) (auto elim!: applied_wp)

lemma keeps_routes_sleep: "admin_api A R \<Longrightarrow> keeps (\<lambda>s. P (R s)) (ad_sleep A d)"
  unfolding admin_api_def keeps_def by metis

lemma keeps_drop:
  assumes "admin_api A R" and "\<And>rs. P rs \<Longrightarrow> P (without_id i rs)"
  shows "keeps (\<lambda>s. P (R s)) (drop_route A i n)"
proof -
  have "keeps (\<lambda>s. P (R s)) (delete_id A i)" using assms by (auto simp: admin_api_def intro: keeps_applied)
  then show ?thesis
    by (induction n) (auto intro!: keeps_intros keeps_routes_sleep [OF assms(1)] split: sum.splits)
qed

lemma keeps_put:
  assumes "admin_api A R" and "\<And>rs. P rs \<Longrightarrow> P (r # rs)"
  shows "keeps (\<lambda>s. P (R s)) (put_route A r n)"
proof -
  have "keeps (\<lambda>s. P (R s)) (ad_request A ''PUT'' (routes_path @ ''/0'') (Some r))"
    using assms by (auto simp: admin_api_def intro: keeps_applied)
  then show ?thesis
    by (induction n) (auto intro!: keeps_intros keeps_routes_sleep [OF assms(1)] split: sum.splits)
qed

section \<open>Any history of routes\<close>

datatype route_change = AddRoute string string | RemoveRoute string

fun proxy_call :: "'s admin \<Rightarrow> route_change \<Rightarrow> ('s, unit) act" where
  "proxy_call A (AddRoute c ip) = add_route A c ip"
| "proxy_call A (RemoveRoute c) = remove_route A c"

fun call_route :: "route_change \<Rightarrow> string" where
  "call_route (AddRoute c ip) = route_id_of c"
| "call_route (RemoveRoute c) = route_id_of c"

definition proxy_history :: "'s admin \<Rightarrow> route_change list \<Rightarrow> ('s, unit) act" where
  "proxy_history A cs = for_each cs (\<lambda>c. bindE (tryE (proxy_call A c)) (\<lambda>_. ret ()))"

definition ends_terminal :: "json list \<Rightarrow> bool" where
  "ends_terminal rs \<longleftrightarrow> rs \<noteq> [] \<and> last rs = terminal_route"

lemma terminal_id: "id_of_route terminal_route = Some terminal_route_id"
  by (simp add: terminal_route_def)

lemma computer_route_id: "id_of_route (computer_route A c ip) = Some (route_id_of c)"
  by (simp add: computer_route_def)

lemma without_terminal: "ends_terminal rs \<Longrightarrow> i \<noteq> terminal_route_id \<Longrightarrow> ends_terminal (without_id i rs)"
proof (induction rs)
  case (Cons r rs)
  then show ?case by (cases "rs = []") (auto simp: ends_terminal_def terminal_id split: if_splits)
qed simp

lemma others_without: "Some i \<in> I \<Longrightarrow> filter (\<lambda>r. id_of_route r \<notin> I) (without_id i rs) = filter (\<lambda>r. id_of_route r \<notin> I) rs"
  by (induction rs) auto

lemma keeps_call:
  assumes a: "admin_api A R" and d: "\<And>rs. P rs \<Longrightarrow> P (without_id (call_route c) rs)"
    and u: "\<And>r rs. id_of_route r = Some (call_route c) \<Longrightarrow> P rs \<Longrightarrow> P (r # rs)"
  shows "keeps (\<lambda>s. P (R s)) (proxy_call A c)"
  using assms(2,3)
  by (cases c) (auto simp: add_route_def remove_route_def computer_route_id intro!: keeps_drop [OF a] keeps_put [OF a])

lemma keeps_each_call: "(\<And>x. x \<in> set xs \<Longrightarrow> keeps I (f x)) \<Longrightarrow> keeps I (for_each xs f)"
  by (induction xs) (auto intro: keeps_ret keeps_seqE)

lemma keeps_history:
  assumes "admin_api A R" and "\<And>c rs. c \<in> set cs \<Longrightarrow> P rs \<Longrightarrow> P (without_id (call_route c) rs)"
    and "\<And>c r rs. c \<in> set cs \<Longrightarrow> id_of_route r = Some (call_route c) \<Longrightarrow> P rs \<Longrightarrow> P (r # rs)"
  shows "keeps (\<lambda>s. P (R s)) (proxy_history A cs)"
proof -
  have "keeps (\<lambda>s. P (R s)) (proxy_call A c)" if "c \<in> set cs" for c
    by (rule keeps_call [OF assms(1)]) (rule assms(2,3) [OF that], assumption+)+
  then have "\<And>c. c \<in> set cs \<Longrightarrow> keeps (\<lambda>s. P (R s)) (bindE (tryE (proxy_call A c)) (\<lambda>_. ret ()))"
    by (intro keeps_intros)
  then show ?thesis unfolding proxy_history_def by (rule keeps_each_call)
qed

lemma ensured:
  assumes "admin_api A R" and "outcome (ensure_terminal_route A) s = Inr ()"
  shows "ends_terminal (R (run_state (ensure_terminal_route A) s))"
proof -
  have p: "applied R (\<lambda>rs. rs @ [terminal_route]) (ad_request A ''POST'' routes_path (Some terminal_route))"
    using assms(1) by (simp add: admin_api_def)
  have "wp (ensure_terminal_route A) (\<lambda>_ s'. ends_terminal (R s')) (\<lambda>_ _. True) s"
  proof -
    have "wp (bindE (catchE (ad_request A ''POST'' routes_path (Some terminal_route))
              (\<lambda>e. if ad_http_error A e then raise (proxy_failure (x e)) else raise e))
            (\<lambda>(status, text). if status \<ge> 400 then raise (proxy_failure (y status text)) else ret ()))
          (\<lambda>_ s'. ends_terminal (R s')) (\<lambda>_ _. True) s'" for s' x y
    proof -
      have "wp (ad_request A ''POST'' routes_path (Some terminal_route))
          (\<lambda>(status, _) v. R v = (if status < 400 then R s' @ [terminal_route] else R s')) (\<lambda>_ _. True) s'"
        using p by (auto simp: applied_def elim: wp_mono)
      then show ?thesis
        unfolding wp_bindE wp_catchE by (rule wp_mono) (auto simp: wp_raise wp_ret ends_terminal_def)
    qed
    then show ?thesis
      unfolding ensure_terminal_route_def wp_seqE by (rule wp_any) (auto intro: wp_any)
  qed
  then show ?thesis using assms(2) by (simp add: wp_outcome)
qed

definition computer_calls :: "route_change list \<Rightarrow> bool" where
  "computer_calls cs \<longleftrightarrow> list_all (\<lambda>c. call_route c \<noteq> terminal_route_id) cs"

text \<open>C35: once the terminal route is installed, the list of routes ends with it after any history of
  routes added and removed, whichever of the requests fail or go unanswered: an unrouted name is answered
  404 and never an empty 200. And no request touches a route of a computer it does not name.\<close>

theorem terminal_route_stays:
  assumes "admin_api A R" and "outcome (ensure_terminal_route A) s = Inr ()" and "computer_calls cs"
  shows "let s1 = run_state (ensure_terminal_route A) s; s2 = run_state (proxy_history A cs) s1
         in ends_terminal (R s2) \<and>
            filter (\<lambda>r. id_of_route r \<notin> Some ` call_route ` set cs) (R s2) =
            filter (\<lambda>r. id_of_route r \<notin> Some ` call_route ` set cs) (R s1)"
proof -
  let ?s1 = "run_state (ensure_terminal_route A) s"
  let ?f = "filter (\<lambda>r. id_of_route r \<notin> Some ` call_route ` set cs)"
  have n: "c \<in> set cs \<Longrightarrow> call_route c \<noteq> terminal_route_id" for c
    using assms(3) by (auto simp: computer_calls_def list_all_iff)
  have "keeps (\<lambda>s. ends_terminal (R s)) (proxy_history A cs)"
    by (rule keeps_history [OF assms(1)]) (auto simp: without_terminal n, auto simp: ends_terminal_def)
  moreover have "keeps (\<lambda>s. ?f (R s) = ?f (R ?s1)) (proxy_history A cs)"
    by (rule keeps_history [OF assms(1)]) (auto simp: others_without)
  ultimately show ?thesis
    using ensured [OF assms(1,2)] by (auto simp: Let_def dest: keepsD)
qed

text \<open>A server whose state is the list, and which never answers a PUT although it applies it.\<close>

definition demo_admin :: "json list admin" where
  "demo_admin =
     \<lparr>ad_request = (\<lambda>method target body.
        if method = ''DELETE'' then seqE (writes (without_id (drop 4 target))) (ret (200, []))
        else if method = ''PUT'' then seqE (writes (\<lambda>rs. case body of None \<Rightarrow> rs | Some r \<Rightarrow> r # rs))
               (raise (PyError ''ReadTimeout'' []))
        else if method = ''POST'' then seqE (writes (\<lambda>rs. case body of None \<Rightarrow> rs | Some r \<Rightarrow> rs @ [r])) (ret (200, []))
        else ret (200, [])),
      ad_sleep = (\<lambda>_. ret ()), ad_loads = (\<lambda>_. None), ad_re_escape = (\<lambda>t. t),
      ad_transient = (\<lambda>e. exc_name e = ''ConnectError''), ad_http_error = (\<lambda>e. exc_name e \<in> {''ConnectError'', ''ReadTimeout''}),
      ad_domain = ''example.com'', ad_closed = (\<lambda>_. False)\<rparr>"

lemma demo_admin_api: "admin_api demo_admin id"
  by (simp add: admin_api_def applied_def delete_id_def demo_admin_def wp_seqE wp_writes wp_ret wp_raise keeps_ret)

lemma terminal_route_stays_witness:
  "let s1 = run_state (ensure_terminal_route demo_admin) [JNull];
       cs = [AddRoute ''comp-1'' ''172.16.1.2'', AddRoute ''comp-2'' ''172.16.2.2'', RemoveRoute ''comp-1'', RemoveRoute ''comp-3'']
   in map id_of_route (run_state (proxy_history demo_admin cs) s1) = [Some ''route-comp-2'', None, Some ''route-terminal''] \<and>
      ends_terminal (run_state (proxy_history demo_admin cs) s1)"
proof -
  let ?s1 = "run_state (ensure_terminal_route demo_admin) [JNull]"
  let ?cs = "[AddRoute ''comp-1'' ''172.16.1.2'', AddRoute ''comp-2'' ''172.16.2.2'', RemoveRoute ''comp-1'', RemoveRoute ''comp-3'']"
  have e: "outcome (ensure_terminal_route demo_admin) [JNull] = Inr ()" and c: "computer_calls ?cs" by code_simp+
  have "ends_terminal (run_state (proxy_history demo_admin ?cs) ?s1)"
    using terminal_route_stays [OF demo_admin_api e c] by (simp only: Let_def id_apply)
  moreover have "map id_of_route (run_state (proxy_history demo_admin ?cs) ?s1) = [Some ''route-comp-2'', None, Some ''route-terminal'']"
    by code_simp
  ultimately show ?thesis unfolding Let_def by blast
qed

end
