(* ===== verification/Quoting.thy ===== *)
theory Quoting
  imports Prelude
begin

text \<open>
  \<open>shlex.quote\<close> and a POSIX shell's reading of a word, with the lemma that the word a text is quoted
  to is read as that text. The command lines of src/src/mshkn/host/ssh.py and of the embryo's verbs
  (src/embryo/membrane/declarations.py) rest on it.
\<close>

section \<open>Quoting\<close>

definition dquote :: char where
  "dquote = CHR 0x22"

definition shell_safe :: "char \<Rightarrow> bool" where
  "shell_safe c \<longleftrightarrow>
     (let n = (of_char c :: nat) in (48 \<le> n \<and> n \<le> 57) \<or> (65 \<le> n \<and> n \<le> 90) \<or> (97 \<le> n \<and> n \<le> 122)) \<or>
     c \<in> set ''_@%+=:,./-''"

text \<open>\<open>shlex.quote\<close>.\<close>

definition double_quoted :: string where
  "double_quoted = [squote, dquote, squote, dquote, squote]"

definition shlex_quote :: "string \<Rightarrow> string" where
  "shlex_quote s =
     (if s \<noteq> [] \<and> list_all shell_safe s then s
      else [squote] @ concat (map (\<lambda>c. if c = squote then double_quoted else [c]) s) @ [squote])"

section \<open>The quoted command is the command\<close>

text \<open>A POSIX shell's reading of one word: outside quotes only characters that mean nothing to it, between
  single quotes anything, between double quotes anything but what it expands there. None is any other text.\<close>

datatype quoting = Plain | Single | Double

fun sh_arg :: "quoting \<Rightarrow> string \<Rightarrow> string option" where
  "sh_arg m [] = (if m = Plain then Some [] else None)"
| "sh_arg Plain (c # s) =
     (if c = squote then sh_arg Single s
      else if c = dquote then sh_arg Double s
      else if shell_safe c then map_option ((#) c) (sh_arg Plain s) else None)"
| "sh_arg Single (c # s) = (if c = squote then sh_arg Plain s else map_option ((#) c) (sh_arg Single s))"
| "sh_arg Double (c # s) =
     (if c = dquote then sh_arg Plain s
      else if c \<in> {CHR ''$'', CHR 0x60, CHR 0x5C, CHR ''!''} then None else map_option ((#) c) (sh_arg Double s))"

lemma shell_safe_quotes: "\<not> shell_safe squote" "\<not> shell_safe dquote"
  by (simp_all add: shell_safe_def squote_def dquote_def)

lemma sh_arg_safe: "list_all shell_safe s \<Longrightarrow> sh_arg Plain s = Some s"
  using shell_safe_quotes by (induction s) auto

lemma sh_arg_quoted:
  "sh_arg Single (concat (map (\<lambda>c. if c = squote then double_quoted else [c]) s) @ [squote]) = Some s"
  by (induction s) (auto simp: double_quoted_def squote_def dquote_def)

lemma shlex_quote_read: "sh_arg Plain (shlex_quote s) = Some s"
  using sh_arg_quoted [of s] by (auto simp: shlex_quote_def sh_arg_safe)

end
