(* ===== verification/Ssh.thy ===== *)
theory Ssh
  imports Machine Quoting
begin

text \<open>
  Guest access over SSH (src/src/mshkn/host/ssh.py): the command line a streamed command runs under, the exit
  code of a process, the parser of the metrics, and the pool of connections, one per VM address, as
  a step relation over the tasks that use it. The pool's danger is that an address is recycled: a connection
  that was opened to a machine that is gone must never be handed out for the one that has its address now.

  Not modelled: the event loop of a stream (\<open>_pump\<close>), SFTP, and \<open>close\<close>, which runs when the service stops.
  CPU percentages, which are floats, are left out of the metrics.
\<close>

definition guest_timeout_command :: "string \<Rightarrow> rat \<Rightarrow> string" where
  "guest_timeout_command command timeout =
     ''timeout --preserve-status -s KILL '' @ str_int (max 1 \<lceil>timeout\<rceil>) @ '' bash -c '' @ shlex_quote command"

section \<open>Results\<close>

definition exit_code_of :: "int option \<Rightarrow> int option \<Rightarrow> int" where
  "exit_code_of returncode exit_status =
     (case returncode of
        Some r \<Rightarrow> if r < 0 then 128 - r else (case exit_status of Some s \<Rightarrow> if s \<ge> 0 then s else 255 | None \<Rightarrow> 255)
      | None \<Rightarrow> (case exit_status of Some s \<Rightarrow> if s \<ge> 0 then s else 255 | None \<Rightarrow> 255))"

text \<open>Two numbers at the head of a line; a bad second one keeps the first.\<close>

definition two_numbers :: "string list \<Rightarrow> nat \<Rightarrow> int \<times> int" where
  "two_numbers lines n =
     (if n < length lines then
        (case words (lines ! n) of
           a # b # _ \<Rightarrow> (case py_int a of None \<Rightarrow> (0, 0) | Some x \<Rightarrow> (x, case py_int b of None \<Rightarrow> 0 | Some y \<Rightarrow> y))
         | _ \<Rightarrow> (0, 0))
      else (0, 0))"

text \<open>\<open>line.strip().split(None, 1)\<close> in two parts.\<close>

definition process_of :: "string \<Rightarrow> json option" where
  "process_of line =
     (let l = strip line; pid = takeWhile (\<lambda>c. \<not> is_space c) l; command = dropWhile is_space (dropWhile (\<lambda>c. \<not> is_space c) l)
      in if command = [] then None
         else case py_int pid of None \<Rightarrow> None | Some n \<Rightarrow> Some (JObj [(''pid'', JInt n), (''command'', JStr command)]))"

definition parse_metrics :: "string \<Rightarrow> vm_metrics" where
  "parse_metrics stdout =
     (let lines = splitlines (strip stdout); ram = two_numbers lines 1; disk = two_numbers lines 2
      in \<lparr>m_ram_usage_mb = snd ram, m_ram_total_mb = fst ram, m_disk_usage_mb = snd disk, m_disk_total_mb = fst disk,
          m_processes = List.map_filter process_of (drop 3 lines)\<rparr>)"

text \<open>The command of \<open>exec_bg\<close>, and its reading of the answer.\<close>

definition background_command :: "string \<Rightarrow> string" where
  "background_command command =
     ''nohup bash -c '' @ [squote] @ concat (map (\<lambda>c. if c = squote then [squote, CHR 0x5C, squote, squote] else [c]) command) @ [squote] @
     '' > /tmp/bg-tmp-$$.log 2>&1 & BG=$!; ln -sf /tmp/bg-tmp-$$.log /tmp/bg-$BG.log; echo $BG''"

definition background_pid :: "exec_result \<Rightarrow> exc + int" where
  "background_pid r =
     (let pid = strip (x_stdout r) in
      if pid = [] then Inl (PyError ''RuntimeError'' (''Failed to get PID for background command: stderr='' @ py_repr (x_stderr r)))
      else case py_int pid of
             None \<Rightarrow> Inl (PyError ''ValueError'' (''invalid literal for int() with base 10: '' @ py_repr pid))
           | Some n \<Rightarrow> Inr n)"

section \<open>The quoted command is the command\<close>

text \<open>C36: the guest runs exactly the command it is given: what stands after \<open>bash -c\<close> is one word for the shell, and
  the word is the command, whatever characters it has; and the time it gets is at least a second.\<close>

theorem guest_runs_command:
  "\<exists>n w. guest_timeout_command command timeout = ''timeout --preserve-status -s KILL '' @ str_int n @ '' bash -c '' @ w \<and>
     w \<noteq> [] \<and> sh_arg Plain w = Some command \<and> 1 \<le> n \<and> timeout \<le> of_int n"
proof (intro exI conjI)
  show "guest_timeout_command command timeout =
      ''timeout --preserve-status -s KILL '' @ str_int (max 1 \<lceil>timeout\<rceil>) @ '' bash -c '' @ shlex_quote command"
    by (simp add: guest_timeout_command_def)
  show "shlex_quote command \<noteq> []" by (auto simp: shlex_quote_def)
  show "sh_arg Plain (shlex_quote command) = Some command" by (rule shlex_quote_read)
  show "1 \<le> max 1 \<lceil>timeout\<rceil>" by simp
  have "timeout \<le> of_int \<lceil>timeout\<rceil>" by (rule le_of_int_ceiling)
  also have "\<dots> \<le> of_int (max 1 \<lceil>timeout\<rceil>)" by simp
  finally show "timeout \<le> of_int (max 1 \<lceil>timeout\<rceil>)" .
qed

section \<open>The pool\<close>

text \<open>
  A connection is a number; it remembers the address it was opened to and the address's generation
  when its opening began, which the code does not keep: the invariant is about it. What a task inside
  \<open>_pooled\<close> does is its phase; the lock of an address is held from its first phase to its last.
\<close>

record connection =
  cn_ip :: string
  cn_generation :: nat

datatype phase =
    Probing string nat nat
  | Connecting string nat

fun phase_ip :: "phase \<Rightarrow> string" where
  "phase_ip (Probing ip c g) = ip"
| "phase_ip (Connecting ip g) = ip"

record ssh_pool =
  sp_conns :: "string \<rightharpoonup> nat"
  sp_gen :: "string \<Rightarrow> nat"
  sp_all :: "nat \<rightharpoonup> connection"
  sp_tasks :: "nat \<rightharpoonup> phase"

definition new_pool :: ssh_pool where
  "new_pool = \<lparr>sp_conns = Map.empty, sp_gen = (\<lambda>_. 0), sp_all = Map.empty, sp_tasks = Map.empty\<rparr>"

definition lock_free :: "string \<Rightarrow> ssh_pool \<Rightarrow> bool" where
  "lock_free ip p \<longleftrightarrow> (\<forall>t ph. sp_tasks p t = Some ph \<longrightarrow> phase_ip ph \<noteq> ip)"

text \<open>Between two awaits of \<open>_pooled\<close>: from the lock to the probe or the connect (\<open>fresh\<close> says whether the
  connection was used within the health-check interval), from a healthy probe, from the failed probe to the connect,
  and from the connect to the end. A step that ends \<open>_pooled\<close> says what it returned, None being ConnectionLost.\<close>

definition enter_pooled :: "nat \<Rightarrow> string \<Rightarrow> bool \<Rightarrow> ssh_pool \<Rightarrow> nat option option \<times> ssh_pool" where
  "enter_pooled t ip fresh p =
     (case sp_conns p ip of
        Some c \<Rightarrow> if fresh then (Some (Some c), p) else (None, p\<lparr>sp_tasks := (sp_tasks p)(t \<mapsto> Probing ip c (sp_gen p ip))\<rparr>)
      | None \<Rightarrow> (None, p\<lparr>sp_tasks := (sp_tasks p)(t \<mapsto> Connecting ip (sp_gen p ip))\<rparr>))"

definition drop_pooled :: "nat \<Rightarrow> string \<Rightarrow> nat \<Rightarrow> ssh_pool \<Rightarrow> ssh_pool" where
  "drop_pooled t ip c p =
     p\<lparr>sp_conns := (if sp_conns p ip = Some c then (sp_conns p)(ip := None) else sp_conns p),
       sp_tasks := (sp_tasks p)(t \<mapsto> Connecting ip (sp_gen p ip))\<rparr>"

definition probed :: "nat \<Rightarrow> string \<Rightarrow> nat \<Rightarrow> nat \<Rightarrow> bool \<Rightarrow> ssh_pool \<Rightarrow> nat option option \<times> ssh_pool" where
  "probed t ip c seen_gen healthy p =
     (if healthy \<and> sp_gen p ip = seen_gen then (Some (Some c), p\<lparr>sp_tasks := (sp_tasks p)(t := None)\<rparr>)
      else (None, drop_pooled t ip c p))"

definition connected :: "nat \<Rightarrow> string \<Rightarrow> nat \<Rightarrow> nat \<Rightarrow> ssh_pool \<Rightarrow> nat option option \<times> ssh_pool" where
  "connected t ip gen c p =
     (let q = p\<lparr>sp_all := (sp_all p)(c \<mapsto> \<lparr>cn_ip = ip, cn_generation = gen\<rparr>), sp_tasks := (sp_tasks p)(t := None)\<rparr> in
      if sp_gen p ip \<noteq> gen then (Some None, q) else (Some (Some c), q\<lparr>sp_conns := (sp_conns p)(ip \<mapsto> c)\<rparr>))"

definition evict :: "string \<Rightarrow> ssh_pool \<Rightarrow> ssh_pool" where
  "evict ip p = p\<lparr>sp_gen := (sp_gen p)(ip := Suc (sp_gen p ip)), sp_conns := (sp_conns p)(ip := None)\<rparr>"

text \<open>\<open>step p r p'\<close>: one step of some task, \<open>r\<close> being what a call of \<open>_pooled\<close> returned in it, if one did, and
  the address it was called for. A task may be cancelled, and a connect may fail, at any time.\<close>

inductive pool_step :: "ssh_pool \<Rightarrow> (string \<times> nat) option \<Rightarrow> ssh_pool \<Rightarrow> bool" where
  enter: "sp_tasks p t = None \<Longrightarrow> lock_free ip p \<Longrightarrow> enter_pooled t ip fresh p = (r, p') \<Longrightarrow>
    pool_step p (case r of Some (Some c) \<Rightarrow> Some (ip, c) | _ \<Rightarrow> None) p'"
| probe: "sp_tasks p t = Some (Probing ip c g) \<Longrightarrow> probed t ip c g healthy p = (r, p') \<Longrightarrow>
    pool_step p (case r of Some (Some c) \<Rightarrow> Some (ip, c) | _ \<Rightarrow> None) p'"
| connect: "sp_tasks p t = Some (Connecting ip g) \<Longrightarrow> sp_all p c = None \<Longrightarrow> connected t ip g c p = (r, p') \<Longrightarrow>
    pool_step p (case r of Some (Some c) \<Rightarrow> Some (ip, c) | _ \<Rightarrow> None) p'"
| leave: "sp_tasks p t = Some ph \<Longrightarrow> pool_step p None (p\<lparr>sp_tasks := (sp_tasks p)(t := None)\<rparr>)"
| evict: "pool_step p None (evict ip p)"

inductive pool_reachable :: "ssh_pool \<Rightarrow> bool" where
  start: "pool_reachable new_pool"
| step: "pool_reachable p \<Longrightarrow> pool_step p r p' \<Longrightarrow> pool_reachable p'"

text \<open>A connection that no eviction of its address has followed since its opening began.\<close>

definition current :: "ssh_pool \<Rightarrow> string \<Rightarrow> nat \<Rightarrow> bool" where
  "current p ip c \<longleftrightarrow> (\<exists>cn. sp_all p c = Some cn \<and> cn_ip cn = ip \<and> cn_generation cn = sp_gen p ip)"

fun phase_sound :: "ssh_pool \<Rightarrow> phase \<Rightarrow> bool" where
  "phase_sound p (Probing ip c g) \<longleftrightarrow> (\<exists>cn. sp_all p c = Some cn \<and> cn_ip cn = ip \<and> cn_generation cn = g) \<and> g \<le> sp_gen p ip"
| "phase_sound p (Connecting ip g) \<longleftrightarrow> g \<le> sp_gen p ip"

definition pool_sound :: "ssh_pool \<Rightarrow> bool" where
  "pool_sound p \<longleftrightarrow>
     (\<forall>ip c. sp_conns p ip = Some c \<longrightarrow> current p ip c) \<and>
     (\<forall>t ph. sp_tasks p t = Some ph \<longrightarrow> phase_sound p ph) \<and>
     (\<forall>t u ph ph'. sp_tasks p t = Some ph \<longrightarrow> sp_tasks p u = Some ph' \<longrightarrow> phase_ip ph = phase_ip ph' \<longrightarrow> t = u)"

inductive_cases pool_stepE: "pool_step p r p'"

lemma sound_task:
  assumes "pool_sound p" and "sp_tasks p t = Some ph"
  shows "phase_sound p ph"
  using assms by (simp add: pool_sound_def)

text \<open>A step that only moves a task to another phase of the same address, or out.\<close>

lemma sound_phase:
  assumes s: "pool_sound p" and "phase_sound p ph"
    and "lock_free (phase_ip ph) p \<or> (\<exists>old. sp_tasks p t = Some old \<and> phase_ip old = phase_ip ph)"
  shows "pool_sound (p\<lparr>sp_tasks := (sp_tasks p)(t \<mapsto> ph)\<rparr>)"
proof -
  have other: "u = t" if "sp_tasks p u = Some ph'" "phase_ip ph' = phase_ip ph" for u ph'
    using assms(3) that s unfolding pool_sound_def lock_free_def by metis
  have same: "phase_sound (p\<lparr>sp_tasks := x\<rparr>) ph' = phase_sound p ph'" for x ph'
    by (cases ph') simp_all
  show ?thesis
    unfolding pool_sound_def
  proof (intro conjI allI impI)
    fix u v a b
    assume h: "sp_tasks (p\<lparr>sp_tasks := (sp_tasks p)(t \<mapsto> ph)\<rparr>) u = Some a"
      "sp_tasks (p\<lparr>sp_tasks := (sp_tasks p)(t \<mapsto> ph)\<rparr>) v = Some b" "phase_ip a = phase_ip b"
    show "u = v"
      using h other s unfolding pool_sound_def by (auto split: if_splits)
  qed (use s assms(2) in \<open>auto simp: pool_sound_def current_def same split: if_splits\<close>)
qed

lemma sound_leave:
  assumes "pool_sound p"
  shows "pool_sound (p\<lparr>sp_tasks := (sp_tasks p)(t := None)\<rparr>)"
proof -
  have same: "phase_sound (p\<lparr>sp_tasks := x\<rparr>) ph = phase_sound p ph" for x ph
    by (cases ph) simp_all
  have one: "\<And>u v a b. sp_tasks p u = Some a \<Longrightarrow> sp_tasks p v = Some b \<Longrightarrow> phase_ip a = phase_ip b \<Longrightarrow> u = v"
    using assms unfolding pool_sound_def by blast
  show ?thesis
    unfolding pool_sound_def
    by (intro conjI allI impI)
       (use assms one in \<open>auto simp: pool_sound_def current_def same split: if_splits\<close>)
qed

lemma sound_conns:
  assumes "pool_sound p" and "\<And>ip c. f ip = Some c \<Longrightarrow> current p ip c"
  shows "pool_sound (p\<lparr>sp_conns := f\<rparr>)"
proof -
  have same: "phase_sound (p\<lparr>sp_conns := f\<rparr>) ph = phase_sound p ph" for ph
    by (cases ph) simp_all
  show ?thesis using assms by (auto simp: pool_sound_def current_def same)
qed

lemma sound_evict:
  assumes "pool_sound p"
  shows "pool_sound (evict ip p)"
proof -
  have ph: "phase_sound p ph \<Longrightarrow> phase_sound (evict ip p) ph" for ph
    by (cases ph) (auto simp: evict_def)
  have cur: "current p i c \<Longrightarrow> i \<noteq> ip \<Longrightarrow> current (evict ip p) i c" for i c
    by (simp add: current_def evict_def)
  have tasks: "sp_tasks (evict ip p) = sp_tasks p" and conns: "sp_conns (evict ip p) = (sp_conns p)(ip := None)"
    by (simp_all add: evict_def)
  show ?thesis
    using assms ph cur unfolding pool_sound_def tasks conns by auto
qed

lemma sound_open:
  assumes "pool_sound p" and "sp_all p c = None"
  shows "pool_sound (p\<lparr>sp_all := (sp_all p)(c \<mapsto> cn)\<rparr>)"
proof -
  have ph: "phase_sound p ph \<Longrightarrow> phase_sound (p\<lparr>sp_all := (sp_all p)(c \<mapsto> cn)\<rparr>) ph" for ph
    using assms(2) by (cases ph) auto
  have cur: "current p i d \<Longrightarrow> current (p\<lparr>sp_all := (sp_all p)(c \<mapsto> cn)\<rparr>) i d" for i d
    using assms(2) by (auto simp: current_def)
  show ?thesis using assms(1) ph cur unfolding pool_sound_def by auto
qed


lemma current_of_task:
  assumes "pool_sound p" and "sp_tasks p t = Some (Probing ip c (sp_gen p ip))"
  shows "current p ip c"
  using sound_task[OF assms] by (simp add: current_def)

lemma current_cong:
  "sp_all q = sp_all p \<Longrightarrow> sp_gen q = sp_gen p \<Longrightarrow> current q = current p"
  by (simp add: current_def fun_eq_iff)

lemma sound_enter:
  assumes s: "pool_sound p" and free: "lock_free ip p" and e: "enter_pooled t ip fresh p = (r, p')"
  shows "pool_sound p' \<and> (\<forall>c. r = Some (Some c) \<longrightarrow> current p' ip c)"
proof (cases "sp_conns p ip")
  case None
  then have "p' = p\<lparr>sp_tasks := (sp_tasks p)(t \<mapsto> Connecting ip (sp_gen p ip))\<rparr>" and "r = None"
    using e by (simp_all add: enter_pooled_def)
  then show ?thesis using sound_phase[OF s, of "Connecting ip (sp_gen p ip)" t] free by simp
next
  case (Some c)
  then have cur: "current p ip c" using s by (simp add: pool_sound_def)
  then have ph: "phase_sound p (Probing ip c (sp_gen p ip))" by (simp add: current_def)
  show ?thesis
  proof (cases fresh)
    case True
    then show ?thesis using e Some s cur by (auto simp: enter_pooled_def)
  next
    case False
    then have "p' = p\<lparr>sp_tasks := (sp_tasks p)(t \<mapsto> Probing ip c (sp_gen p ip))\<rparr>" and "r = None"
      using e Some by (simp_all add: enter_pooled_def)
    then show ?thesis using sound_phase[OF s ph, of t] free by simp
  qed
qed

lemma sound_drop:
  assumes s: "pool_sound p" and t: "sp_tasks p t = Some (Probing ip c g)"
  shows "pool_sound (drop_pooled t ip c p)"
proof -
  let ?f = "if sp_conns p ip = Some c then (sp_conns p)(ip := None) else sp_conns p"
  have "pool_sound (p\<lparr>sp_conns := ?f\<rparr>)"
    using s by (intro sound_conns) (auto simp: pool_sound_def split: if_splits)
  then have "pool_sound (p\<lparr>sp_conns := ?f, sp_tasks := (sp_tasks (p\<lparr>sp_conns := ?f\<rparr>))(t \<mapsto> Connecting ip (sp_gen p ip))\<rparr>)"
    by (rule sound_phase) (simp_all add: t)
  then show ?thesis by (simp add: drop_pooled_def)
qed

lemma sound_probed:
  assumes s: "pool_sound p" and t: "sp_tasks p t = Some (Probing ip c g)" and e: "probed t ip c g healthy p = (r, p')"
  shows "pool_sound p' \<and> (\<forall>d. r = Some (Some d) \<longrightarrow> current p' ip d)"
proof (cases "healthy \<and> sp_gen p ip = g")
  case True
  then have r: "r = Some (Some c)" and p': "p' = p\<lparr>sp_tasks := (sp_tasks p)(t := None)\<rparr>"
    using e by (simp_all add: probed_def)
  have "current p ip c" using current_of_task[OF s] t True by simp
  then show ?thesis using sound_leave[OF s] current_cong[of p' p] by (simp add: r p')
next
  case False
  then have "r = None" "p' = drop_pooled t ip c p" using e by (auto simp: probed_def)
  then show ?thesis using sound_drop[OF s t] by simp
qed

lemma sound_connected:
  assumes s: "pool_sound p" and t: "sp_tasks p t = Some (Connecting ip g)" and new: "sp_all p c = None"
    and e: "connected t ip g c p = (r, p')"
  shows "pool_sound p' \<and> (\<forall>d. r = Some (Some d) \<longrightarrow> current p' ip d)"
proof -
  define q where "q = p\<lparr>sp_all := (sp_all p)(c \<mapsto> \<lparr>cn_ip = ip, cn_generation = g\<rparr>), sp_tasks := (sp_tasks p)(t := None)\<rparr>"
  have s': "pool_sound q"
    using sound_leave[OF sound_open[OF s new, of "\<lparr>cn_ip = ip, cn_generation = g\<rparr>"], of t] by (simp add: q_def)
  have conns: "sp_conns q = sp_conns p" by (simp add: q_def)
  have e': "(r, p') = (if sp_gen p ip \<noteq> g then (Some None, q) else (Some (Some c), q\<lparr>sp_conns := (sp_conns q)(ip \<mapsto> c)\<rparr>))"
    using e unfolding connected_def Let_def q_def[symmetric] conns by simp
  show ?thesis
  proof (cases "sp_gen p ip = g")
    case True
    then have r: "r = Some (Some c)" and p': "p' = q\<lparr>sp_conns := (sp_conns q)(ip \<mapsto> c)\<rparr>"
      using e' by simp_all
    have cur: "current q ip c" by (simp add: current_def q_def True)
    have "current q i d" if "((sp_conns q)(ip \<mapsto> c)) i = Some d" for i d
    proof (cases "i = ip")
      case True
      then show ?thesis using that cur by simp
    next
      case False
      then show ?thesis using that s' by (simp add: pool_sound_def)
    qed
    then have "pool_sound p'"
      unfolding p' using s' by (rule sound_conns[rotated])
    moreover have "current p' ip c" using cur current_cong[of p' q] by (simp add: p')
    ultimately show ?thesis by (simp add: r)
  next
    case False
    then have "r = Some None" "p' = q" using e' by simp_all
    then show ?thesis using s' by simp
  qed
qed

lemma sound_step:
  assumes "pool_step p r p'" and "pool_sound p"
  shows "pool_sound p' \<and> (\<forall>ip c. r = Some (ip, c) \<longrightarrow> current p' ip c)"
  using assms
proof (induction rule: pool_step.induct)
  case (enter p t ip fresh r p')
  from sound_enter[OF enter(4,2,3)] show ?case by (auto split: option.splits)
next
  case (probe p t ip c g healthy r p')
  from sound_probed[OF probe(3,1,2)] show ?case by (auto split: option.splits)
next
  case (connect p t ip g c r p')
  from sound_connected[OF connect(4,1,2,3)] show ?case by (auto split: option.splits)
next
  case (leave p t ph)
  then show ?case using sound_leave by simp
next
  case (evict p ip)
  then show ?case using sound_evict by simp
qed

lemma reachable_sound: "pool_reachable p \<Longrightarrow> pool_sound p"
proof (induction rule: pool_reachable.induct)
  case start
  show ?case by (simp add: pool_sound_def new_pool_def)
next
  case (step p r p')
  then show ?case using sound_step by blast
qed

text \<open>C34: in every pool that the calls of \<open>_pooled\<close> and \<open>evict\<close> reach, in any interleaving of their awaits,
  with any probe outcome, failed connect or cancellation, no address has two tasks inside \<open>_pooled\<close> (so none opens
  a second connection behind the first), a pooled connection is one opened to that very address with no eviction
  since its opening began, and so is the connection a call returns: a recycled slot never inherits a
  connection to the machine that was there before.
\<close>

theorem pool_never_stale:
  assumes "pool_reachable p"
  shows "(\<forall>ip c. sp_conns p ip = Some c \<longrightarrow> current p ip c)
    \<and> (\<forall>t u ph ph'. sp_tasks p t = Some ph \<longrightarrow> sp_tasks p u = Some ph' \<longrightarrow> phase_ip ph = phase_ip ph' \<longrightarrow> t = u)
    \<and> (\<forall>r p' ip c. pool_step p r p' \<longrightarrow> r = Some (ip, c) \<longrightarrow> current p' ip c)"
  using reachable_sound[OF assms] sound_step[OF _ reachable_sound[OF assms]]
  unfolding pool_sound_def by blast

text \<open>A task connects to the guest of a slot (\<open>racing\<close>) and pools the connection (\<open>settled\<close>); or, the race the
  generation is for, the slot's computer is destroyed and its address evicted before the connect completes: then
  the call raises, and nothing is pooled.\<close>

definition racing :: ssh_pool where
  "racing = snd (enter_pooled 0 ''172.16.1.2'' False new_pool)"

definition settled :: ssh_pool where
  "settled = snd (connected 0 ''172.16.1.2'' 0 7 racing)"

lemma racing_reachable: "pool_reachable racing"
proof -
  have "pool_step new_pool (case None of Some (Some c) \<Rightarrow> Some (''172.16.1.2'', c) | _ \<Rightarrow> None) racing"
    by (rule pool_step.enter[where t = 0 and fresh = False])
       (simp_all add: new_pool_def lock_free_def racing_def enter_pooled_def)
  then show ?thesis using pool_reachable.intros by blast
qed

lemma settled_reachable: "pool_reachable settled"
proof -
  have "pool_step racing (case Some (Some 7) of Some (Some c) \<Rightarrow> Some (''172.16.1.2'', c) | _ \<Rightarrow> None) settled"
    by (rule pool_step.connect[where t = 0 and g = 0])
       (simp_all add: new_pool_def racing_def enter_pooled_def settled_def connected_def)
  then show ?thesis using racing_reachable pool_reachable.step by blast
qed

lemma pool_never_stale_witness:
  "current settled ''172.16.1.2'' 7
    \<and> sp_conns (snd (connected 0 ''172.16.1.2'' 0 7 (evict ''172.16.1.2'' racing))) ''172.16.1.2'' = None
    \<and> fst (connected 0 ''172.16.1.2'' 0 7 (evict ''172.16.1.2'' racing)) = Some None"
proof -
  have "sp_conns settled ''172.16.1.2'' = Some 7"
    by (simp add: settled_def connected_def racing_def enter_pooled_def new_pool_def)
  then have "current settled ''172.16.1.2'' 7" using pool_never_stale[OF settled_reachable] by blast
  moreover have "sp_conns (snd (connected 0 ''172.16.1.2'' 0 7 (evict ''172.16.1.2'' racing))) ''172.16.1.2'' = None"
    "fst (connected 0 ''172.16.1.2'' 0 7 (evict ''172.16.1.2'' racing)) = Some None"
    by (simp_all add: connected_def evict_def racing_def enter_pooled_def new_pool_def)
  ultimately show ?thesis by blast
qed

end
