(* ===== verification/Declarations.thy ===== *)
theory Declarations
  imports Models Quoting
begin

text \<open>
  The documents of the embryo (src/embryo/membrane/declarations.py): verbs, policies and proposals, parsed
  from JSON into values, written back, and a verb's command line. Parsing gives a value or the exception
  that was raised: a DeclarationError, the refusal that is meant, or the TypeError of testing
  whether a list or an object is in a set. JSON objects have pairwise different keys, in the order of the document.
\<close>

section \<open>Documents\<close>

type_synonym doc = "(string \<times> json) list"

type_synonym 'a parsed = "exc + 'a"

definition declaration_error :: "string \<Rightarrow> exc" where
  "declaration_error m = PyError ''DeclarationError'' m"

definition refuse :: "string \<Rightarrow> 'a parsed" where
  "refuse m = Inl (declaration_error m)"

definition is_declaration_error :: "exc \<Rightarrow> bool" where
  "is_declaration_error e \<longleftrightarrow> exc_name e = ''DeclarationError''"

definition refuse_if :: "bool \<Rightarrow> string \<Rightarrow> 'a parsed \<Rightarrow> 'a parsed" where
  "refuse_if b m r = (if b then refuse m else r)"

text \<open>\<open>value in frozenset\<close> hashes the value.\<close>

fun hashable :: "json \<Rightarrow> bool" where
  "hashable (JArr _) = False"
| "hashable (JObj _) = False"
| "hashable _ = True"

definition unhashable :: "json \<Rightarrow> exc" where
  "unhashable j = PyError ''TypeError'' (''unhashable type: '' @ (case j of JArr _ \<Rightarrow> py_repr ''list'' | _ \<Rightarrow> py_repr ''dict''))"

definition in_set :: "json \<Rightarrow> (json \<Rightarrow> 'a option) \<Rightarrow> string \<Rightarrow> 'a parsed" where
  "in_set j member m =
     (if \<not> hashable j then Inl (unhashable j) else case member j of None \<Rightarrow> refuse m | Some a \<Rightarrow> Inr a)"

text \<open>\<open>doc.get(key)\<close> is None for a missing key and for null; \<open>doc.get(key, default)\<close> is the default for a
  missing key only.\<close>

definition get :: "doc \<Rightarrow> string \<Rightarrow> json" where
  "get d k = (case map_of d k of None \<Rightarrow> JNull | Some v \<Rightarrow> v)"

definition get_or :: "doc \<Rightarrow> string \<Rightarrow> json \<Rightarrow> json" where
  "get_or d k v = (case map_of d k of None \<Rightarrow> v | Some x \<Rightarrow> x)"

definition as_obj :: "json \<Rightarrow> string \<Rightarrow> doc parsed" where
  "as_obj j what = (case j of JObj d \<Rightarrow> Inr d | _ \<Rightarrow> refuse (what @ '' must be a JSON object''))"

definition blank :: "string \<Rightarrow> bool" where
  "blank s \<longleftrightarrow> strip s = []"

definition str_opt :: "doc \<Rightarrow> string \<Rightarrow> string \<Rightarrow> string option parsed" where
  "str_opt d key what =
     (case get d key of
        JNull \<Rightarrow> Inr None
      | JStr s \<Rightarrow> (if blank s then refuse (what @ ''.'' @ key @ '' must be a non-empty string'') else Inr (Some s))
      | _ \<Rightarrow> refuse (what @ ''.'' @ key @ '' must be a non-empty string''))"

definition str_req :: "doc \<Rightarrow> string \<Rightarrow> string \<Rightarrow> string parsed" where
  "str_req d key what =
     bind_sum (str_opt d key what) (\<lambda>v. case v of None \<Rightarrow> refuse (what @ ''.'' @ key @ '' is required'') | Some s \<Rightarrow> Inr s)"

definition require :: "doc \<Rightarrow> string \<Rightarrow> string list \<Rightarrow> unit parsed" where
  "require d what names =
     (let missing = filter (\<lambda>f. get d f = JNull) names
      in if missing = [] then Inr ()
         else refuse (what @ '' is missing '' @ py_repr_list missing @ ''; '' @ what @ '' requires '' @ py_repr_list names))"

section \<open>Names\<close>

text \<open>A pattern \<open>^[...]+$\<close> under \<open>re.match\<close>: \<open>$\<close> also stands before a newline that ends the text.\<close>

definition chop_newline :: "string \<Rightarrow> string" where
  "chop_newline s = (if s \<noteq> [] \<and> last s = CHR 0x0A then butlast s else s)"

definition is_lower :: "char \<Rightarrow> bool" where
  "is_lower c \<longleftrightarrow> 97 \<le> (of_char c :: nat) \<and> (of_char c :: nat) \<le> 122"

definition is_upper :: "char \<Rightarrow> bool" where
  "is_upper c \<longleftrightarrow> 65 \<le> (of_char c :: nat) \<and> (of_char c :: nat) \<le> 90"

definition word_char :: "char \<Rightarrow> bool" where
  "word_char c \<longleftrightarrow> is_lower c \<or> is_upper c \<or> is_digit c \<or> c = CHR ''_''"

definition name_char :: "char \<Rightarrow> bool" where
  "name_char c \<longleftrightarrow> is_lower c \<or> is_digit c \<or> c = CHR ''_''"

definition principal_char :: "char \<Rightarrow> bool" where
  "principal_char c \<longleftrightarrow> word_char c \<or> c \<in> set ''.@+-''"

definition all_of :: "(char \<Rightarrow> bool) \<Rightarrow> string \<Rightarrow> bool" where
  "all_of P s \<longleftrightarrow> s \<noteq> [] \<and> list_all P s"

definition name_re :: "string \<Rightarrow> bool" where
  "name_re s \<longleftrightarrow> all_of name_char (chop_newline s)"

definition namespace_ok :: "string \<Rightarrow> bool" where
  "namespace_ok s \<longleftrightarrow> s \<noteq> [] \<and> is_lower (hd s) \<and> list_all name_char s"

definition namespace_re :: "string \<Rightarrow> bool" where
  "namespace_re s \<longleftrightarrow> namespace_ok (chop_newline s)"

definition namespaced_principal_re :: "string \<Rightarrow> bool" where
  "namespaced_principal_re s \<longleftrightarrow>
     (case partition_at (CHR '':'') (chop_newline s) of (ns, found, n) \<Rightarrow> found \<and> namespace_ok ns \<and> all_of principal_char n)"

definition principal_re :: "string \<Rightarrow> bool" where
  "principal_re s \<longleftrightarrow> chop_newline s \<in> {''root'', ''anonymous''} \<or> namespaced_principal_re s"

definition reserved_tool_names :: "string list" where
  "reserved_tool_names = [''effort'', ''propose'', ''remember'', ''try'']"

definition reserved_namespaces :: "string list" where
  "reserved_namespaces = [''root'', ''system'']"

text \<open>The placeholders of an entrypoint: two braces, a word, two braces. The word is the longest one, since no brace
  is a word character.\<close>

datatype piece = Text char | Hole string

lemma template_shorter: "length (drop 2 (dropWhile word_char (drop 2 (c # s)))) < length (c # s)"
proof -
  have "length (dropWhile word_char (drop 2 (c # s))) \<le> length (drop 2 (c # s))" by (rule length_dropWhile_le)
  then show ?thesis by simp
qed

function template :: "string \<Rightarrow> piece list" where
  "template s =
     (case s of
        [] \<Rightarrow> []
      | c # rest \<Rightarrow>
          (let w = takeWhile word_char (drop 2 s); tail = dropWhile word_char (drop 2 s) in
           if prefix ''{{'' s \<and> w \<noteq> [] \<and> prefix ''}}'' tail then Hole w # template (drop 2 tail)
           else Text c # template rest))"
  by pat_completeness auto

termination
proof (relation "measure length", goal_cases)
  case (2 s c rest w tail)
  then show ?case using template_shorter [of c rest] by simp
qed simp_all

declare template.simps [simp del]

fun holes :: "piece list \<Rightarrow> string list" where
  "holes [] = []"
| "holes (Text c # ps) = holes ps"
| "holes (Hole w # ps) = w # holes ps"

section \<open>Verbs\<close>

datatype effect = EffLocal | EffRead | EffCommunicate | EffTransact | EffAdminister

fun effect_text :: "effect \<Rightarrow> string" where
  "effect_text EffLocal = ''local''"
| "effect_text EffRead = ''read''"
| "effect_text EffCommunicate = ''communicate''"
| "effect_text EffTransact = ''transact''"
| "effect_text EffAdminister = ''administer''"

definition effects :: "effect list" where
  "effects = [EffAdminister, EffCommunicate, EffLocal, EffRead, EffTransact]"

definition effect_of :: "json \<Rightarrow> effect option" where
  "effect_of j = (case j of JStr s \<Rightarrow> find (\<lambda>e. effect_text e = s) effects | _ \<Rightarrow> None)"

definition embryo_effects :: "effect set" where
  "embryo_effects = {EffLocal, EffRead}"

datatype state_kind = Ephemeral | Chain

fun state_kind_text :: "state_kind \<Rightarrow> string" where
  "state_kind_text Ephemeral = ''ephemeral''"
| "state_kind_text Chain = ''chain''"

definition state_kind_of :: "json \<Rightarrow> state_kind option" where
  "state_kind_of j = (case j of JStr s \<Rightarrow> find (\<lambda>k. state_kind_text k = s) [Chain, Ephemeral] | _ \<Rightarrow> None)"

record requirement =
  rq_kind :: string
  rq_name :: string
  rq_scope :: "string option"

record verb =
  vb_name :: string
  vb_description :: string
  vb_params :: doc
  vb_dockerfile :: string
  vb_entrypoint :: string
  vb_effect :: effect
  vb_state :: state_kind
  vb_chain :: string
  vb_asserts :: "string option"
  vb_needs :: doc
  vb_timeout_seconds :: int
  vb_allow :: "string list"
  vb_requires :: "requirement list"

definition chain_prefix :: string where "chain_prefix = ''verb/''"
definition trial_chain_prefix :: string where "trial_chain_prefix = ''verb/trial/''"
definition timeout_default :: int where "timeout_default = 60"
definition timeout_max :: int where "timeout_max = 200"

definition default_needs :: doc where
  "default_needs = [(''ram'', JStr ''256MB''), (''cores'', JInt 1)]"

definition verb_required :: "string list" where
  "verb_required = [''name'', ''description'', ''params'', ''dockerfile'', ''entrypoint'', ''effect'', ''state'']"

definition requirement_doc :: "requirement \<Rightarrow> json" where
  "requirement_doc r =
     JObj ([(''kind'', JStr (rq_kind r)), (''name'', JStr (rq_name r))] @
           (case rq_scope r of None \<Rightarrow> [] | Some s \<Rightarrow> [(''scope'', JStr s)]))"

definition str_list :: "string list \<Rightarrow> json" where
  "str_list xs = JArr (map JStr xs)"

definition verb_doc :: "verb \<Rightarrow> json" where
  "verb_doc v =
     JObj ([(''name'', JStr (vb_name v)), (''description'', JStr (vb_description v)), (''params'', JObj (vb_params v)),
            (''dockerfile'', JStr (vb_dockerfile v)), (''entrypoint'', JStr (vb_entrypoint v)),
            (''effect'', JStr (effect_text (vb_effect v))), (''state'', JStr (state_kind_text (vb_state v))),
            (''chain'', JStr (vb_chain v)), (''needs'', JObj (vb_needs v)), (''timeout_seconds'', JInt (vb_timeout_seconds v)),
            (''allow'', str_list (vb_allow v)), (''requires'', JArr (map requirement_doc (vb_requires v)))] @
           (case vb_asserts v of None \<Rightarrow> [] | Some a \<Rightarrow> [(''asserts'', JStr a)]))"

definition verb_tool :: "verb \<Rightarrow> json" where
  "verb_tool v = JObj [(''name'', JStr (vb_name v)), (''description'', JStr (vb_description v)), (''input_schema'', JObj (vb_params v))]"

definition parse_requirement :: "json \<Rightarrow> requirement parsed" where
  "parse_requirement j =
     bind_sum (as_obj j ''verb.requires[]'') (\<lambda>d.
     bind_sum (str_req d ''kind'' ''verb.requires[]'') (\<lambda>kind.
     bind_sum (str_req d ''name'' ''verb.requires[]'') (\<lambda>name.
     bind_sum (str_opt d ''scope'' ''verb.requires[]'') (\<lambda>scope.
     Inr \<lparr>rq_kind = kind, rq_name = name, rq_scope = scope\<rparr>))))"

fun parse_each :: "('x \<Rightarrow> 'a parsed) \<Rightarrow> 'x list \<Rightarrow> 'a list parsed" where
  "parse_each f [] = Inr []"
| "parse_each f (x # xs) = bind_sum (f x) (\<lambda>y. bind_sum (parse_each f xs) (\<lambda>ys. Inr (y # ys)))"

definition requirements :: "json \<Rightarrow> requirement list parsed" where
  "requirements raw =
     (case raw of
        JNull \<Rightarrow> Inr []
      | JArr xs \<Rightarrow> parse_each parse_requirement xs
      | _ \<Rightarrow> refuse ''verb.requires must be a list of objects with kind, name and optional scope'')"

text \<open>The texts of a list of texts.\<close>

fun strs :: "json list \<Rightarrow> string list option" where
  "strs [] = Some []"
| "strs (JStr s # xs) = map_option ((#) s) (strs xs)"
| "strs (_ # xs) = None"

definition namespaced_principals :: "json \<Rightarrow> string \<Rightarrow> string list parsed" where
  "namespaced_principals raw place =
     (case raw of
        JNull \<Rightarrow> Inr []
      | JArr xs \<Rightarrow>
          (case strs xs of
             None \<Rightarrow> refuse (place @ '' must be a list of principals'')
           | Some ps \<Rightarrow>
               (case find (\<lambda>p. \<not> namespaced_principal_re p) ps of
                  Some p \<Rightarrow> refuse (place @ '': '' @ py_repr p @ '' is not a namespaced principal (<ns>:<name>)'')
                | None \<Rightarrow> Inr ps))
      | _ \<Rightarrow> refuse (place @ '' must be a list of principals''))"


definition section_sign :: string where
  "section_sign = [CHR 0xA7]"

definition parse_verb_name :: "doc \<Rightarrow> string parsed" where
  "parse_verb_name d =
     bind_sum (str_req d ''name'' ''verb'') (\<lambda>name.
     refuse_if (\<not> name_re name) (''verb.name '' @ py_repr name @ '' must match [a-z0-9_]+'')
     (refuse_if (name \<in> set reserved_tool_names)
        (''verb.name '' @ py_repr name @ '' is reserved; the reserved names are '' @ py_repr_list reserved_tool_names)
     (Inr name)))"

definition parse_params :: "doc \<Rightarrow> (doc \<times> doc) parsed" where
  "parse_params d =
     (case get d ''params'' of
        JObj params \<Rightarrow>
          refuse_if (get params ''type'' \<noteq> JStr ''object'') ''verb.params must be a JSON schema of type object''
          (case get_or params ''properties'' (JObj []) of
             JObj props \<Rightarrow> Inr (params, props)
           | _ \<Rightarrow> refuse ''verb.params.properties must be an object'')
      | _ \<Rightarrow> refuse ''verb.params must be a JSON schema of type object'')"

definition check_holes :: "string \<Rightarrow> doc \<Rightarrow> unit parsed" where
  "check_holes entrypoint props =
     (case find (\<lambda>w. w \<notin> fst ` set props) (holes (template entrypoint)) of
        None \<Rightarrow> Inr ()
      | Some w \<Rightarrow> refuse (''verb.entrypoint names '' @ py_repr w @ '', which is not a param; the params are '' @
                          py_repr_list (sort (map fst props))))"

definition parse_state :: "doc \<Rightarrow> state_kind parsed" where
  "parse_state d =
     refuse_if (get d ''state'' = JStr ''event'')
       (''verb.state event is specified but not in the embryo (spec '' @ section_sign @ ''4); must be one of '' @
        py_repr_list [''chain'', ''ephemeral''])
     (in_set (get d ''state'') state_kind_of (''verb.state must be one of '' @ py_repr_list [''chain'', ''ephemeral'']))"

definition parse_chain :: "string \<Rightarrow> doc \<Rightarrow> string parsed" where
  "parse_chain name d =
     (case get_or d ''chain'' (JStr (chain_prefix @ name)) of
        JStr chain \<Rightarrow>
          refuse_if (\<not> prefix chain_prefix chain \<or> length chain \<le> length chain_prefix) (''verb.chain must start with '' @ py_repr chain_prefix)
          (refuse_if (prefix trial_chain_prefix chain)
             (''verb.chain may not start with '' @ py_repr trial_chain_prefix @ '', which trials use for their own scratch chains; name a chain under '' @
              py_repr chain_prefix @ '' instead'')
          (Inr chain))
      | _ \<Rightarrow> refuse (''verb.chain must start with '' @ py_repr chain_prefix))"

definition parse_asserts :: "string \<Rightarrow> doc \<Rightarrow> doc \<Rightarrow> string option parsed" where
  "parse_asserts name props d =
     bind_sum (str_opt d ''asserts'' ''verb'') (\<lambda>a.
     case a of
       None \<Rightarrow> Inr None
     | Some ns \<Rightarrow>
         refuse_if (ns \<in> set reserved_namespaces)
           (''verb.asserts '' @ py_repr ns @ '' is a reserved namespace; the reserved namespaces are '' @ py_repr_list reserved_namespaces)
         (refuse_if (\<not> namespace_re ns) ''verb.asserts must be a lower-case identifier''
         (refuse_if (length props \<noteq> 1)
            (''verb.asserts makes '' @ py_repr name @ '' a pre-turn hook, and a hook takes exactly one parameter, which receives the decoded payload; it declares '' @
             py_repr_list (sort (map fst props)))
         (Inr (Some ns)))))"

definition parse_timeout :: "doc \<Rightarrow> int parsed" where
  "parse_timeout d =
     (case get_or d ''timeout_seconds'' (JInt timeout_default) of
        JInt n \<Rightarrow>
          refuse_if (\<not> (1 \<le> n \<and> n \<le> timeout_max)) (''verb.timeout_seconds must be an integer from 1 to '' @ str_int timeout_max) (Inr n)
      | _ \<Rightarrow> refuse (''verb.timeout_seconds must be an integer from 1 to '' @ str_int timeout_max))"

definition parse_needs :: "doc \<Rightarrow> doc parsed" where
  "parse_needs d = (case get_or d ''needs'' (JObj default_needs) of JObj n \<Rightarrow> Inr n | _ \<Rightarrow> refuse ''verb.needs must be an object'')"

definition parse_verb :: "json \<Rightarrow> verb parsed" where
  "parse_verb j =
     bind_sum (as_obj j ''verb'') (\<lambda>d.
     bind_sum (require d ''verb'' verb_required) (\<lambda>_.
     bind_sum (parse_verb_name d) (\<lambda>name.
     bind_sum (str_req d ''description'' ''verb'') (\<lambda>description.
     bind_sum (str_req d ''dockerfile'' ''verb'') (\<lambda>dockerfile.
     bind_sum (str_req d ''entrypoint'' ''verb'') (\<lambda>entrypoint.
     bind_sum (parse_params d) (\<lambda>(params, props).
     bind_sum (check_holes entrypoint props) (\<lambda>_.
     bind_sum (in_set (get d ''effect'') effect_of (''verb.effect must be one of '' @ py_repr_list (map effect_text effects))) (\<lambda>effect.
     bind_sum (parse_state d) (\<lambda>state.
     bind_sum (parse_chain name d) (\<lambda>chain.
     bind_sum (parse_asserts name props d) (\<lambda>asserts.
     bind_sum (parse_needs d) (\<lambda>needs.
     bind_sum (parse_timeout d) (\<lambda>timeout.
     bind_sum (requirements (get d ''requires'')) (\<lambda>requires.
     refuse_if (requires \<noteq> [] \<and> state = Ephemeral)
       (''verb.requires needs state chain: root places what a verb requires on the verb'' @ [squote] @ ''s chain '' @ chain_prefix @
        ''<name>, and an ephemeral invocation runs from the recipe alone and never sees it'')
     (bind_sum (namespaced_principals (get d ''allow'') ''verb.allow'') (\<lambda>allow.
     Inr \<lparr>vb_name = name, vb_description = description, vb_params = params, vb_dockerfile = dockerfile,
          vb_entrypoint = entrypoint, vb_effect = effect, vb_state = state, vb_chain = chain, vb_asserts = asserts,
          vb_needs = needs, vb_timeout_seconds = timeout, vb_allow = allow, vb_requires = requires\<rparr>)))))))))))))))))"

definition parse_runs :: "json \<Rightarrow> json \<Rightarrow> doc list parsed" where
  "parse_runs params runs =
     (if params \<noteq> JNull \<and> runs \<noteq> JNull
      then refuse ''give params for one invocation or runs for several, not both; runs is a list of parameter objects, one per invocation, in order''
      else case runs of
        JNull \<Rightarrow> (if params = JNull then Inr [[]] else bind_sum (as_obj params ''params'') (\<lambda>d. Inr [d]))
      | JArr rs \<Rightarrow>
          (if rs = [] then refuse ''runs must name at least one invocation''
           else parse_each (\<lambda>(i, r). as_obj r (''runs['' @ str_nat i @ '']'')) (enumerate 0 rs))
      | _ \<Rightarrow> refuse ''runs must be a list of parameter objects, one per invocation'')"

text \<open>\<open>dumps\<close> is \<open>json.dumps\<close>.\<close>

definition value_text :: "(json \<Rightarrow> string) \<Rightarrow> json \<Rightarrow> string" where
  "value_text dumps j = (case j of JStr s \<Rightarrow> s | _ \<Rightarrow> dumps j)"

fun render :: "(json \<Rightarrow> string) \<Rightarrow> doc \<Rightarrow> piece list \<Rightarrow> string parsed" where
  "render dumps params [] = Inr []"
| "render dumps params (Text c # ps) = bind_sum (render dumps params ps) (\<lambda>s. Inr (c # s))"
| "render dumps params (Hole w # ps) =
     (case map_of params w of
        None \<Rightarrow> refuse (''param '' @ py_repr w @ '' is required by the entrypoint'')
      | Some j \<Rightarrow> bind_sum (render dumps params ps) (\<lambda>s. Inr (shlex_quote (value_text dumps j) @ s)))"

definition render_command :: "(json \<Rightarrow> string) \<Rightarrow> verb \<Rightarrow> doc \<Rightarrow> string parsed" where
  "render_command dumps v params =
     bind_sum (render dumps params (template (vb_entrypoint v))) (\<lambda>rendered.
     Inr (''timeout --preserve-status -s KILL '' @ str_int (vb_timeout_seconds v) @ '' bash -c '' @ shlex_quote rendered))"


section \<open>Policies\<close>

datatype invoke = InvokeAll | InvokeOnly "string list"

record grant =
  gr_invoke :: invoke
  gr_propose :: bool

definition nothing :: grant where
  "nothing = \<lparr>gr_invoke = InvokeOnly [], gr_propose = False\<rparr>"

definition allows :: "grant \<Rightarrow> string \<Rightarrow> bool" where
  "allows g v = (case gr_invoke g of InvokeAll \<Rightarrow> True | InvokeOnly vs \<Rightarrow> v \<in> set vs)"

definition grant_doc :: "grant \<Rightarrow> json" where
  "grant_doc g =
     JObj [(''invoke'', case gr_invoke g of InvokeAll \<Rightarrow> JStr ''*'' | InvokeOnly vs \<Rightarrow> str_list vs), (''propose'', JBool (gr_propose g))]"

datatype door = Open | Closed

fun door_text :: "door \<Rightarrow> string" where
  "door_text Open = ''open''"
| "door_text Closed = ''closed''"

record policy =
  po_principals :: "(string \<times> grant) list"
  po_hooks :: "string list"
  po_door :: door

definition grant_of :: "policy \<Rightarrow> string \<Rightarrow> grant" where
  "grant_of p who = (case map_of (po_principals p) who of None \<Rightarrow> nothing | Some g \<Rightarrow> g)"

definition policy_doc :: "policy \<Rightarrow> json" where
  "policy_doc p =
     JObj [(''principals'', JObj (map (\<lambda>(who, g). (who, grant_doc g)) (po_principals p))), (''hooks'', str_list (po_hooks p)),
           (''door'', JStr (door_text (po_door p)))]"

definition policy_fields :: "string list" where
  "policy_fields = [''door'', ''hooks'', ''principals'']"

definition verb_names :: "json \<Rightarrow> string list option" where
  "verb_names j =
     (case j of JArr xs \<Rightarrow> (case strs xs of None \<Rightarrow> None | Some vs \<Rightarrow> if list_all name_re vs then Some vs else None) | _ \<Rightarrow> None)"

definition parse_grant :: "string \<Rightarrow> json \<Rightarrow> grant parsed" where
  "parse_grant who j =
     (let what = ''policy.principals['' @ who @ '']'' in
      bind_sum (as_obj j what) (\<lambda>d.
      bind_sum (if get_or d ''invoke'' (JArr []) = JStr ''*'' then Inr InvokeAll
                else case verb_names (get_or d ''invoke'' (JArr [])) of
                  Some vs \<Rightarrow> Inr (InvokeOnly vs)
                | None \<Rightarrow> refuse (what @ ''.invoke must be '' @ py_repr ''*'' @ '' or a list of verb names'')) (\<lambda>invoke.
      case get_or d ''propose'' (JBool False) of
        JBool b \<Rightarrow> Inr \<lparr>gr_invoke = invoke, gr_propose = b\<rparr>
      | _ \<Rightarrow> refuse (what @ ''.propose must be a boolean''))))"

definition parse_principal :: "string \<times> json \<Rightarrow> (string \<times> grant) parsed" where
  "parse_principal e =
     (case e of (who, j) \<Rightarrow>
        refuse_if (who = ''root'')
          (''policy.principals: root is fixed and is not policy'' @ [squote] @ ''s to grant or refuse ('' @ section_sign @ ''10.1)'')
        (refuse_if (\<not> principal_re who)
          (''policy.principals: '' @ py_repr who @ '' is not a principal; a principal is '' @ py_repr ''root'' @ '', '' @
           py_repr ''anonymous'' @ '' or '' @ py_repr ''<namespace>:<name>'')
        (bind_sum (parse_grant who j) (\<lambda>g. Inr (who, g)))))"

definition unknown_fields :: "doc \<Rightarrow> string list" where
  "unknown_fields d = sort (filter (\<lambda>k. k \<notin> set policy_fields) (remdups (map fst d)))"

definition parse_door :: "doc \<Rightarrow> door parsed" where
  "parse_door d =
     (let j = get_or d ''door'' (JStr ''closed'') in
      if j = JStr ''open'' then Inr Open else if j = JStr ''closed'' then Inr Closed
      else refuse ''policy.door must be open or closed'')"

definition parse_policy :: "json \<Rightarrow> policy parsed" where
  "parse_policy j =
     bind_sum (as_obj j ''policy'') (\<lambda>d.
     refuse_if (unknown_fields d \<noteq> [])
       (''policy has unknown fields '' @ py_repr_list (unknown_fields d) @ ''; policy is data, not code: the fields are '' @
        py_repr_list policy_fields)
     (bind_sum (as_obj (get_or d ''principals'' (JObj [])) ''policy.principals'') (\<lambda>raw.
     bind_sum (parse_each parse_principal raw) (\<lambda>principals.
     case verb_names (get_or d ''hooks'' (JArr [])) of
       None \<Rightarrow> refuse ''policy.hooks must be a list of verb names''
     | Some hooks \<Rightarrow>
         bind_sum (parse_door d) (\<lambda>door.
         Inr \<lparr>po_principals = principals, po_hooks = hooks, po_door = door\<rparr>)))))"

section \<open>Proposals\<close>

datatype proposal_kind = VerbKind | PolicyKind | PromptKind

fun kind_text :: "proposal_kind \<Rightarrow> string" where
  "kind_text VerbKind = ''verb''"
| "kind_text PolicyKind = ''policy''"
| "kind_text PromptKind = ''prompt''"

record proposal =
  pp_id :: string
  pp_kind :: proposal_kind
  pp_title :: string
  pp_rationale :: string
  pp_supersedes :: "string option"
  pp_verb :: "verb option"
  pp_policy :: "policy option"
  pp_prompt :: "string option"
  pp_status :: string
  pp_recipe_id :: "string option"
  pp_log :: "string option"

definition opt_str :: "string option \<Rightarrow> json" where
  "opt_str s = (case s of None \<Rightarrow> JNull | Some t \<Rightarrow> JStr t)"

definition optional_field :: "string \<Rightarrow> ('a \<Rightarrow> json) \<Rightarrow> 'a option \<Rightarrow> doc" where
  "optional_field k f v = (case v of None \<Rightarrow> [] | Some x \<Rightarrow> [(k, f x)])"

definition proposal_doc :: "proposal \<Rightarrow> json" where
  "proposal_doc p =
     JObj ([(''id'', JStr (pp_id p)), (''kind'', JStr (kind_text (pp_kind p))), (''title'', JStr (pp_title p)),
            (''rationale'', JStr (pp_rationale p)), (''supersedes'', opt_str (pp_supersedes p)), (''status'', JStr (pp_status p)),
            (''recipe_id'', opt_str (pp_recipe_id p)), (''log'', opt_str (pp_log p))] @
           optional_field ''verb'' verb_doc (pp_verb p) @ optional_field ''policy'' policy_doc (pp_policy p) @
           optional_field ''prompt'' JStr (pp_prompt p))"

definition proposal_statuses :: "string list" where
  "proposal_statuses = [''pending'', ''blocked'', ''rejected'', ''superseded'', ''disabled'', ''building'', ''ready'', ''failed'',
     ''applied'', ''reverted'']"

definition status_of :: "json \<Rightarrow> string option" where
  "status_of j = (case j of JStr s \<Rightarrow> if s \<in> set proposal_statuses then Some s else None | _ \<Rightarrow> None)"

definition kind_of :: "json \<Rightarrow> proposal_kind option" where
  "kind_of j = (case j of JStr s \<Rightarrow> find (\<lambda>k. kind_text k = s) [VerbKind, PolicyKind, PromptKind] | _ \<Rightarrow> None)"

text \<open>\<open>repr\<close> of a value that can be tested for membership.\<close>

definition repr_scalar :: "json \<Rightarrow> string" where
  "repr_scalar j =
     (case j of JStr s \<Rightarrow> py_repr s | JInt n \<Rightarrow> str_int n | JBool b \<Rightarrow> (if b then ''True'' else ''False'') | _ \<Rightarrow> ''None'')"

definition log_field :: "doc \<Rightarrow> string option" where
  "log_field d = (case get d ''log'' of JStr s \<Rightarrow> Some s | _ \<Rightarrow> None)"

definition parse_subject :: "proposal_kind \<Rightarrow> doc \<Rightarrow> (verb option \<times> policy option \<times> string option) parsed" where
  "parse_subject k d =
     (case k of
        VerbKind \<Rightarrow>
          (case map_of d ''verb'' of
             None \<Rightarrow> refuse ''proposal.verb is required for kind verb''
           | Some j \<Rightarrow> bind_sum (parse_verb j) (\<lambda>v. Inr (Some v, None, None)))
      | PolicyKind \<Rightarrow>
          (case map_of d ''policy'' of
             None \<Rightarrow> refuse ''proposal.policy is required for kind policy''
           | Some j \<Rightarrow> bind_sum (parse_policy j) (\<lambda>p. Inr (None, Some p, None)))
      | PromptKind \<Rightarrow> bind_sum (str_req d ''prompt'' ''proposal'') (\<lambda>s. Inr (None, None, Some s)))"

definition parse_proposal :: "json \<Rightarrow> string \<Rightarrow> proposal parsed" where
  "parse_proposal j i =
     bind_sum (as_obj j ''proposal'') (\<lambda>d.
     bind_sum (require d ''proposal'' [''kind'', ''title'', ''rationale'']) (\<lambda>_.
     case kind_of (get d ''kind'') of
       None \<Rightarrow> refuse ''proposal.kind must be verb, policy or prompt''
     | Some kind \<Rightarrow>
         bind_sum (str_req d ''title'' ''proposal'') (\<lambda>title.
         bind_sum (str_req d ''rationale'' ''proposal'') (\<lambda>rationale.
         bind_sum (str_opt d ''supersedes'' ''proposal'') (\<lambda>supersedes.
         bind_sum (in_set (get_or d ''status'' (JStr ''pending'')) status_of
                     (''proposal.status '' @ repr_scalar (get_or d ''status'' (JStr ''pending'')) @ '' is not a status'')) (\<lambda>status.
         bind_sum (str_opt d ''recipe_id'' ''proposal'') (\<lambda>recipe_id.
         bind_sum (parse_subject kind d) (\<lambda>(v, p, t).
         Inr \<lparr>pp_id = i, pp_kind = kind, pp_title = title, pp_rationale = rationale, pp_supersedes = supersedes,
              pp_verb = v, pp_policy = p, pp_prompt = t, pp_status = status, pp_recipe_id = recipe_id, pp_log = log_field d\<rparr>))))))))"


section \<open>What a parser accepts\<close>

named_theorems parse_simps \<open>when a parser returns a value\<close>

lemma bind_parsed_Inr [parse_simps]: "bind_sum r f = Inr b \<longleftrightarrow> (\<exists>a. r = Inr a \<and> f a = Inr b)"
  by (cases r) simp_all

lemma refuse_not_Inr [parse_simps]: "refuse m \<noteq> Inr a" "Inr a \<noteq> refuse m"
  by (simp_all add: refuse_def)

lemma refuse_if_Inr [parse_simps]: "refuse_if b m r = Inr a \<longleftrightarrow> \<not> b \<and> r = Inr a"
  by (simp add: refuse_if_def refuse_def)

lemma as_obj_Inr [parse_simps]: "as_obj j what = Inr d \<longleftrightarrow> j = JObj d"
  by (cases j) (auto simp: as_obj_def refuse_def)

lemma in_set_Inr [parse_simps]: "in_set j member m = Inr a \<longleftrightarrow> hashable j \<and> member j = Some a"
  by (auto simp: in_set_def refuse_def split: option.splits)

lemma str_opt_Inr [parse_simps]:
  "str_opt d k what = Inr v \<longleftrightarrow>
     (case v of None \<Rightarrow> get d k = JNull | Some s \<Rightarrow> get d k = JStr s \<and> \<not> blank s)"
  by (auto simp: str_opt_def refuse_def split: json.splits option.splits)

lemma str_req_Inr [parse_simps]: "str_req d k what = Inr s \<longleftrightarrow> get d k = JStr s \<and> \<not> blank s"
  by (auto simp: str_req_def parse_simps split: option.splits)

lemma require_Inr [parse_simps]: "require d what names = Inr u \<longleftrightarrow> (\<forall>f\<in>set names. get d f \<noteq> JNull)"
  by (auto simp: require_def Let_def refuse_def filter_empty_conv)

lemma strs_Some: "strs js = Some xs \<longleftrightarrow> js = map JStr xs"
proof (induction js arbitrary: xs)
  case (Cons j js)
  then show ?case by (cases j; cases xs) auto
qed auto

lemma strs_map [simp]: "strs (map JStr xs) = Some xs"
  by (simp add: strs_Some)

lemma map_JStr_inject [simp]: "map JStr xs = map JStr ys \<longleftrightarrow> xs = ys"
  by (metis strs_map option.inject)

lemma parse_each_Inr: "parse_each f xs = Inr ys \<longleftrightarrow> list_all2 (\<lambda>x y. f x = Inr y) xs ys"
proof (induction xs arbitrary: ys)
  case (Cons x xs)
  then show ?case by (cases ys) (auto simp: parse_simps)
qed auto

lemma verb_names_Some: "verb_names j = Some vs \<longleftrightarrow> j = str_list vs \<and> list_all name_re vs"
  by (cases j) (auto simp: verb_names_def str_list_def strs_Some split: option.splits)

lemma effect_of_Some [simp]: "effect_of j = Some e \<longleftrightarrow> j = JStr (effect_text e)"
  by (cases j; cases e) (auto simp: effect_of_def effects_def split: if_splits)

lemma state_kind_of_Some [simp]: "state_kind_of j = Some k \<longleftrightarrow> j = JStr (state_kind_text k)"
  by (cases j; cases k) (auto simp: state_kind_of_def split: if_splits)

lemma kind_of_Some [simp]: "kind_of j = Some k \<longleftrightarrow> j = JStr (kind_text k)"
  by (cases j; cases k) (auto simp: kind_of_def split: if_splits)

lemma status_of_Some [simp]: "status_of j = Some s \<longleftrightarrow> j = JStr s \<and> s \<in> set proposal_statuses"
  by (cases j) (auto simp: status_of_def)

text \<open>The properties of a verb's parameters, and the verbs, policies and proposals there are.\<close>

definition properties :: "verb \<Rightarrow> doc" where
  "properties v = (case get_or (vb_params v) ''properties'' (JObj []) of JObj ps \<Rightarrow> ps | _ \<Rightarrow> [])"

definition requirement_ok :: "requirement \<Rightarrow> bool" where
  "requirement_ok r \<longleftrightarrow> \<not> blank (rq_kind r) \<and> \<not> blank (rq_name r) \<and> (\<forall>s. rq_scope r = Some s \<longrightarrow> \<not> blank s)"

definition verb_ok :: "verb \<Rightarrow> bool" where
  "verb_ok v \<longleftrightarrow>
     name_re (vb_name v) \<and> \<not> blank (vb_name v) \<and> vb_name v \<notin> set reserved_tool_names \<and>
     \<not> blank (vb_description v) \<and> \<not> blank (vb_dockerfile v) \<and> \<not> blank (vb_entrypoint v) \<and>
     get (vb_params v) ''type'' = JStr ''object'' \<and> (\<exists>ps. get_or (vb_params v) ''properties'' (JObj []) = JObj ps) \<and>
     set (holes (template (vb_entrypoint v))) \<subseteq> fst ` set (properties v) \<and>
     prefix chain_prefix (vb_chain v) \<and> length chain_prefix < length (vb_chain v) \<and> \<not> prefix trial_chain_prefix (vb_chain v) \<and>
     (\<forall>ns. vb_asserts v = Some ns \<longrightarrow> ns \<notin> set reserved_namespaces \<and> namespace_re ns \<and> \<not> blank ns \<and> length (properties v) = 1) \<and>
     1 \<le> vb_timeout_seconds v \<and> vb_timeout_seconds v \<le> timeout_max \<and>
     list_all requirement_ok (vb_requires v) \<and> \<not> (vb_requires v \<noteq> [] \<and> vb_state v = Ephemeral) \<and>
     list_all namespaced_principal_re (vb_allow v)"

definition grant_ok :: "string \<times> grant \<Rightarrow> bool" where
  "grant_ok e \<longleftrightarrow> fst e \<noteq> ''root'' \<and> principal_re (fst e) \<and>
     (case gr_invoke (snd e) of InvokeAll \<Rightarrow> True | InvokeOnly vs \<Rightarrow> list_all name_re vs)"

definition policy_ok :: "policy \<Rightarrow> bool" where
  "policy_ok p \<longleftrightarrow> list_all grant_ok (po_principals p) \<and> list_all name_re (po_hooks p)"

fun subject_fits :: "proposal_kind \<Rightarrow> verb option \<Rightarrow> policy option \<Rightarrow> string option \<Rightarrow> bool" where
  "subject_fits VerbKind (Some v) None None = verb_ok v"
| "subject_fits PolicyKind None (Some p) None = policy_ok p"
| "subject_fits PromptKind None None (Some t) = (\<not> blank t)"
| "subject_fits _ _ _ _ = False"

definition subject_ok :: "proposal \<Rightarrow> bool" where
  "subject_ok p \<longleftrightarrow> subject_fits (pp_kind p) (pp_verb p) (pp_policy p) (pp_prompt p)"

definition text_ok :: "string option \<Rightarrow> bool" where
  "text_ok t \<longleftrightarrow> (\<forall>s. t = Some s \<longrightarrow> \<not> blank s)"

definition proposal_ok :: "proposal \<Rightarrow> bool" where
  "proposal_ok p \<longleftrightarrow> \<not> blank (pp_title p) \<and> \<not> blank (pp_rationale p) \<and> text_ok (pp_supersedes p) \<and>
     pp_status p \<in> set proposal_statuses \<and> text_ok (pp_recipe_id p) \<and> subject_ok p"

lemma parse_requirement_ok: "parse_requirement j = Inr r \<Longrightarrow> requirement_ok r"
  by (auto simp: parse_requirement_def parse_simps requirement_ok_def split: option.splits)

lemma requirements_ok: "requirements j = Inr rs \<Longrightarrow> list_all requirement_ok rs"
  unfolding requirements_def
  by (auto simp: parse_simps parse_each_Inr list_all_length list_all2_conv_all_nth parse_requirement_ok split: json.splits)

lemma allow_ok: "namespaced_principals j what = Inr ps \<Longrightarrow> list_all namespaced_principal_re ps"
  unfolding namespaced_principals_def
  by (auto simp: parse_simps find_None_iff list_all_iff split: json.splits option.splits)

lemma find_hole: "(case find (\<lambda>w. w \<notin> S) ws of None \<Rightarrow> Inr () | Some w \<Rightarrow> refuse (m w)) = Inr () \<longleftrightarrow> set ws \<subseteq> S"
  by (induction ws) (auto simp: refuse_def)

lemma check_holes_Inr [parse_simps]: "check_holes e ps = Inr u \<longleftrightarrow> set (holes (template e)) \<subseteq> fst ` set ps"
  by (simp add: check_holes_def find_hole)

lemma parse_params_Inr [parse_simps]:
  "parse_params d = Inr (ps, props) \<longleftrightarrow>
     get d ''params'' = JObj ps \<and> get ps ''type'' = JStr ''object'' \<and> get_or ps ''properties'' (JObj []) = JObj props"
  by (auto simp: parse_params_def refuse_def refuse_if_def split: json.splits)

lemma parse_chain_Inr [parse_simps]:
  "parse_chain name d = Inr c \<longleftrightarrow>
     get_or d ''chain'' (JStr (chain_prefix @ name)) = JStr c \<and> prefix chain_prefix c \<and> length chain_prefix < length c \<and>
     \<not> prefix trial_chain_prefix c"
  by (auto simp: parse_chain_def refuse_def refuse_if_def split: json.splits)

lemma parse_asserts_Inr [parse_simps]:
  "parse_asserts name props d = Inr a \<longleftrightarrow>
     (case a of None \<Rightarrow> get d ''asserts'' = JNull
      | Some ns \<Rightarrow> get d ''asserts'' = JStr ns \<and> \<not> blank ns \<and> ns \<notin> set reserved_namespaces \<and> namespace_re ns \<and> length props = 1)"
  by (auto simp: parse_asserts_def parse_simps split: option.splits)

lemma parse_timeout_Inr [parse_simps]:
  "parse_timeout d = Inr n \<longleftrightarrow> get_or d ''timeout_seconds'' (JInt timeout_default) = JInt n \<and> 1 \<le> n \<and> n \<le> timeout_max"
  by (auto simp: parse_timeout_def refuse_def refuse_if_def split: json.splits)

lemma parse_needs_Inr [parse_simps]: "parse_needs d = Inr n \<longleftrightarrow> get_or d ''needs'' (JObj default_needs) = JObj n"
  by (auto simp: parse_needs_def refuse_def split: json.splits)

lemma parse_state_Inr [parse_simps]: "parse_state d = Inr k \<longleftrightarrow> get d ''state'' = JStr (state_kind_text k)"
  by (cases k) (auto simp: parse_state_def parse_simps)

lemma parse_verb_name_Inr [parse_simps]:
  "parse_verb_name d = Inr n \<longleftrightarrow> get d ''name'' = JStr n \<and> \<not> blank n \<and> name_re n \<and> n \<notin> set reserved_tool_names"
  by (auto simp: parse_verb_name_def parse_simps)

lemma parse_verb_ok:
  assumes "parse_verb j = Inr v"
  shows "verb_ok v"
  using assms unfolding parse_verb_def verb_ok_def properties_def
  by (auto simp: parse_simps dest!: requirements_ok allow_ok)


section \<open>What is written reads back\<close>

lemma get_Cons [simp]: "get ((k, v) # d) x = (if x = k then v else get d x)" and get_Nil [simp]: "get [] x = JNull"
  by (simp_all add: get_def)

lemma get_or_Cons [simp]: "get_or ((k, v) # d) x j = (if x = k then v else get_or d x j)" and get_or_Nil [simp]: "get_or [] x j = j"
  by (simp_all add: get_or_def)

lemma requirement_round:
  assumes "requirement_ok r"
  shows "parse_requirement (requirement_doc r) = Inr r"
proof (cases "rq_scope r")
  case None
  then show ?thesis
    using assms by (simp add: parse_requirement_def requirement_doc_def parse_simps requirement_ok_def)
      (intro exI [of _ None], simp)
next
  case (Some t)
  then show ?thesis
    using assms by (simp add: parse_requirement_def requirement_doc_def parse_simps requirement_ok_def)
      (intro exI [of _ "Some t"], simp)
qed

lemma requirements_round: "list_all requirement_ok rs \<Longrightarrow> requirements (JArr (map requirement_doc rs)) = Inr rs"
  by (auto simp: requirements_def parse_each_Inr list_all2_map1 list_all_iff requirement_round intro!: list.rel_refl_strong)

lemma allow_round: "list_all namespaced_principal_re ps \<Longrightarrow> namespaced_principals (str_list ps) what = Inr ps"
proof -
  assume ps: "list_all namespaced_principal_re ps"
  then have "find (\<lambda>p. \<not> namespaced_principal_re p) ps = None" by (auto simp: find_None_iff list_all_iff)
  then show "namespaced_principals (str_list ps) what = Inr ps"
    by (simp add: namespaced_principals_def str_list_def)
qed

lemma text_inject [simp]:
  "effect_text e = effect_text f \<longleftrightarrow> e = f" "state_kind_text k = state_kind_text l \<longleftrightarrow> k = l"
  "kind_text p = kind_text q \<longleftrightarrow> p = q" "door_text d = door_text d' \<longleftrightarrow> d = d'"
  by ((cases e; cases f), simp_all) ((cases k; cases l), simp_all, (cases p; cases q), simp_all, (cases d; cases d'), simp_all)

lemma verb_round:
  assumes "verb_ok v"
  shows "parse_verb (verb_doc v) = Inr v"
proof -
  obtain ps where ps: "get_or (vb_params v) ''properties'' (JObj []) = JObj ps"
    using assms by (auto simp: verb_ok_def)
  have props: "properties v = ps" by (simp add: properties_def ps)
  show ?thesis
    using assms ps props
    by (cases v; cases "vb_asserts v")
       (simp_all add: parse_verb_def verb_doc_def parse_simps verb_ok_def requirements_round allow_round verb_required_def)
qed

lemma verb_names_list [simp]: "list_all name_re vs \<Longrightarrow> verb_names (JArr (map JStr vs)) = Some vs"
  by (simp add: verb_names_Some str_list_def)

lemma grant_round:
  assumes "grant_ok e"
  shows "parse_principal (fst e, grant_doc (snd e)) = Inr e"
  using assms
  by (cases e; cases "snd e"; cases "gr_invoke (snd e)")
     (auto simp: parse_principal_def parse_grant_def grant_doc_def grant_ok_def parse_simps Let_def verb_names_Some str_list_def
       split: if_splits)

lemma principals_round: "list_all grant_ok es \<Longrightarrow> parse_each parse_principal (map (\<lambda>(who, g). (who, grant_doc g)) es) = Inr es"
  using grant_round by (auto simp: parse_each_Inr list_all2_map1 list_all_iff intro!: list.rel_refl_strong)

lemma door_round: "parse_door d = Inr r \<longleftrightarrow> get_or d ''door'' (JStr ''closed'') = JStr (door_text r)"
  by (cases r) (auto simp: parse_door_def refuse_def Let_def split: if_splits)

lemma policy_round:
  assumes "policy_ok p"
  shows "parse_policy (policy_doc p) = Inr p"
proof -
  have h: "verb_names (str_list (po_hooks p)) = Some (po_hooks p)"
    using assms by (simp add: verb_names_Some policy_ok_def)
  show ?thesis
    using assms h
    by (cases p) (simp add: parse_policy_def policy_doc_def parse_simps unknown_fields_def policy_fields_def policy_ok_def principals_round door_round)
qed

lemma parse_principal_ok: "parse_principal (who, j) = Inr e \<Longrightarrow> grant_ok e"
  by (auto simp: parse_principal_def parse_grant_def parse_simps Let_def grant_ok_def verb_names_Some split: if_splits option.splits json.splits)

lemma parse_policy_ok:
  assumes "parse_policy j = Inr p"
  shows "policy_ok p"
proof -
  obtain raw where "list_all2 (\<lambda>x y. parse_principal x = Inr y) raw (po_principals p)" and "list_all name_re (po_hooks p)"
    using assms by (auto simp: parse_policy_def parse_simps parse_each_Inr verb_names_Some split: option.splits)
  then show ?thesis
    unfolding policy_ok_def
    by (auto simp: list_all2_conv_all_nth list_all_length) (metis parse_principal_ok prod.collapse)
qed

lemma subject_round:
  assumes "subject_fits k v q t"
  shows "parse_subject k (optional_field ''verb'' verb_doc v @ optional_field ''policy'' policy_doc q @ optional_field ''prompt'' JStr t)
    = Inr (v, q, t)"
  using assms
  by (induction k v q t rule: subject_fits.induct) (simp_all add: parse_subject_def optional_field_def verb_round policy_round parse_simps)

lemma parse_subject_fits: "parse_subject k d = Inr (v, q, t) \<Longrightarrow> subject_fits k v q t"
  by (cases k) (auto simp: parse_subject_def parse_simps parse_verb_ok parse_policy_ok split: option.splits)

lemma parse_proposal_ok:
  assumes "parse_proposal j i = Inr p"
  shows "proposal_ok p" and "pp_id p = i"
proof -
  obtain d k title rationale supersedes status recipe v q t where
    "\<not> blank title" "\<not> blank rationale" "text_ok supersedes" "status \<in> set proposal_statuses" "text_ok recipe"
    "parse_subject k d = Inr (v, q, t)"
    "p = \<lparr>pp_id = i, pp_kind = k, pp_title = title, pp_rationale = rationale, pp_supersedes = supersedes,
        pp_verb = v, pp_policy = q, pp_prompt = t, pp_status = status, pp_recipe_id = recipe, pp_log = log_field d\<rparr>"
    using assms unfolding parse_proposal_def
    by (auto simp: parse_simps text_ok_def split: option.splits if_splits)
  then show "proposal_ok p" "pp_id p = i"
    by (simp_all add: proposal_ok_def subject_ok_def parse_subject_fits)
qed

lemma map_of_append_none: "map_of xs k = None \<Longrightarrow> map_of (xs @ ys) k = map_of ys k"
  by (simp add: map_add_def)

lemma subject_prefix:
  assumes "get xs ''prompt'' = JNull" "map_of xs ''verb'' = None" "map_of xs ''policy'' = None" "map_of xs ''prompt'' = None"
  shows "parse_subject k (xs @ ys) = parse_subject k ys"
  using assms by (cases k) (simp_all add: parse_subject_def map_add_def str_req_def str_opt_def get_def)

lemma proposal_round:
  assumes "proposal_ok p"
  shows "parse_proposal (proposal_doc p) (pp_id p) = Inr p"
proof -
  have opt: "str_opt d k what = Inr t" if "get d k = opt_str t" "text_ok t" for d k what t
    using that by (cases t) (simp_all add: parse_simps opt_str_def text_ok_def)
  define head where "head = [(''id'', JStr (pp_id p)), (''kind'', JStr (kind_text (pp_kind p))), (''title'', JStr (pp_title p)),
      (''rationale'', JStr (pp_rationale p)), (''supersedes'', opt_str (pp_supersedes p)), (''status'', JStr (pp_status p)),
      (''recipe_id'', opt_str (pp_recipe_id p)), (''log'', opt_str (pp_log p))]"
  define tail where "tail = optional_field ''verb'' verb_doc (pp_verb p) @ optional_field ''policy'' policy_doc (pp_policy p) @
      optional_field ''prompt'' JStr (pp_prompt p)"
  have doc: "proposal_doc p = JObj (head @ tail)" by (simp add: proposal_doc_def head_def tail_def)
  have "parse_subject (pp_kind p) tail = Inr (pp_verb p, pp_policy p, pp_prompt p)"
    using assms unfolding tail_def proposal_ok_def subject_ok_def by (intro subject_round) simp
  then have subject: "parse_subject (pp_kind p) (head @ tail) = Inr (pp_verb p, pp_policy p, pp_prompt p)"
    by (subst subject_prefix) (simp_all add: head_def)
  have log: "log_field (head @ tail) = pp_log p"
    by (cases "pp_log p") (simp_all add: log_field_def head_def opt_str_def)
  have required: "require (head @ tail) ''proposal'' [''kind'', ''title'', ''rationale''] = Inr ()"
    by (simp add: parse_simps head_def)
  have fields: "str_req (head @ tail) ''title'' ''proposal'' = Inr (pp_title p)"
    "str_req (head @ tail) ''rationale'' ''proposal'' = Inr (pp_rationale p)"
    "kind_of (get (head @ tail) ''kind'') = Some (pp_kind p)"
    "in_set (get_or (head @ tail) ''status'' (JStr ''pending'')) status_of m = Inr (pp_status p)" for m
    using assms by (simp_all add: parse_simps head_def proposal_ok_def)
  have options: "str_opt (head @ tail) ''supersedes'' ''proposal'' = Inr (pp_supersedes p)"
    "str_opt (head @ tail) ''recipe_id'' ''proposal'' = Inr (pp_recipe_id p)"
    using assms by (intro opt; simp add: head_def proposal_ok_def)+
  show ?thesis
    unfolding parse_proposal_def doc
    by (simp add: as_obj_def required fields options subject log)
qed


section \<open>A verb's command line\<close>

definition filled :: "(json \<Rightarrow> string) \<Rightarrow> doc \<Rightarrow> piece list \<Rightarrow> string" where
  "filled dumps params ps =
     concat (map (\<lambda>p. case p of Text c \<Rightarrow> [c] | Hole w \<Rightarrow> shlex_quote (value_text dumps (get params w))) ps)"

lemma render_exact:
  "render dumps params ps =
     (case filter (\<lambda>w. w \<notin> fst ` set params) (holes ps) of
        [] \<Rightarrow> Inr (filled dumps params ps)
      | w # _ \<Rightarrow> refuse (''param '' @ py_repr w @ '' is required by the entrypoint''))"
proof (induction ps)
  case (Cons p ps)
  show ?case
  proof (cases p)
    case (Hole w)
    show ?thesis
    proof (cases "map_of params w")
      case None
      moreover from None have "w \<notin> fst ` set params" by (simp add: map_of_eq_None_iff)
      ultimately show ?thesis using Hole by simp
    next
      case (Some j)
      then have "w \<in> fst ` set params" by (metis map_of_eq_None_iff option.distinct(1))
      then show ?thesis using Hole Some Cons by (simp add: filled_def get_def refuse_def split: list.splits)
    qed
  qed (use Cons in \<open>simp add: filled_def refuse_def split: list.splits\<close>)
qed (simp add: filled_def)

text \<open>
  A verb's command is refused, naming the first placeholder without a parameter, or it is the
  guest's \<open>timeout\<close> around one shell word that reads back as the entrypoint with every placeholder replaced by a
  word, and that word reads back as the parameter's text: a parameter never adds a word or an operator.
\<close>
lemma verb_command_exact:
  "render_command dumps v params =
     (case filter (\<lambda>w. w \<notin> fst ` set params) (holes (template (vb_entrypoint v))) of
        w # _ \<Rightarrow> Inl (declaration_error (''param '' @ py_repr w @ '' is required by the entrypoint''))
      | [] \<Rightarrow> Inr (''timeout --preserve-status -s KILL '' @ str_int (vb_timeout_seconds v) @ '' bash -c '' @
                   shlex_quote (filled dumps params (template (vb_entrypoint v)))))
   \<and> sh_arg Plain (shlex_quote (filled dumps params (template (vb_entrypoint v)))) = Some (filled dumps params (template (vb_entrypoint v)))
   \<and> (\<forall>w. sh_arg Plain (shlex_quote (value_text dumps (get params w))) = Some (value_text dumps (get params w)))"
  by (simp add: render_command_def render_exact shlex_quote_read refuse_def split: list.splits)

text \<open>\<open>$\<close> lets a newline at the end through, so a hook's namespace can be \<open>root\<close> with a newline behind it, which
  is not among the reserved ones.\<close>

lemma newline_namespace:
  "namespace_re (''root'' @ newline) \<and> ''root'' @ newline \<notin> set reserved_namespaces"
  "name_re (''propose'' @ newline) \<and> ''propose'' @ newline \<notin> set reserved_tool_names"
  "principal_re (''anonymous'' @ newline)"
  by (code_simp, code_simp, code_simp)

end
