(* ===== verification/Brain.thy ===== *)
theory Brain
  imports Declarations
begin

text \<open>
  The embryo's state and the rules over it (src/embryo/membrane: state.py, principals.py, invariants.py,
  offering.py, effort.py, references.py, and what memory.py lets a principal see). \<open>brain\<close> is the
  document \<open>state.json\<close>; a Python dict is a list of pairs in insertion order. Everything here is pure: the
  operations on the state are in theories \<open>Proposals\<close>, \<open>Invocation\<close> and \<open>Turn\<close>.
\<close>

section \<open>The state\<close>

datatype catalog_status = VBuilding | VReady | VFailed | VDisabled

fun catalog_status_text :: "catalog_status \<Rightarrow> string" where
  "catalog_status_text VBuilding = ''building''"
| "catalog_status_text VReady = ''ready''"
| "catalog_status_text VFailed = ''failed''"
| "catalog_status_text VDisabled = ''disabled''"

record catalog_entry =
  ce_verb :: verb
  ce_status :: catalog_status
  ce_recipe_id :: "string option"
  ce_proposal_id :: string
  ce_provided :: "string list"

datatype trial_status = TBuilding | TDone | TFailed

fun trial_status_text :: "trial_status \<Rightarrow> string" where
  "trial_status_text TBuilding = ''building''"
| "trial_status_text TDone = ''done''"
| "trial_status_text TFailed = ''failed''"

record trial =
  tr_id :: string
  tr_verb :: verb
  tr_runs :: "doc list"
  tr_recipe_id :: "string option"
  tr_status :: trial_status
  tr_results :: "doc list"
  tr_build_log :: "string option"
  tr_chain :: "string option"
  tr_swept :: bool

record inbox_item =
  ii_kind :: string
  ii_text :: string

record exchange =
  ex_turn :: int
  ex_principal :: string
  ex_door :: string
  ex_input :: string
  ex_reply :: string
  ex_output :: string
  ex_audit :: doc

text \<open>The rungs of the effort ladder.\<close>

datatype effort = Low | Medium | High | XHigh | Max

record call_made =
  cm_name :: string
  cm_input :: doc
  cm_result :: doc

record pending =
  pn_turn :: int
  pn_principal :: string
  pn_door :: string
  pn_message :: string
  pn_payload :: string
  pn_messages :: "json list"
  pn_offered :: "string list"
  pn_job :: string
  pn_hooks :: "json list"
  pn_calls :: "call_made list"
  pn_made :: "string list"
  pn_model_calls :: int
  pn_usage :: "(string \<times> int) list"
  pn_forks :: int
  pn_started_at :: string
  pn_write_memory :: bool
  pn_drained :: "inbox_item list"
  pn_requested_effort :: "effort option"
  pn_efforts :: "effort option list"
  pn_said :: "string list"

record queued =
  qd_principal :: string
  qd_door :: string
  qd_message :: string
  qd_payload :: string
  qd_hooks :: "json list"

record brain =
  br_turn :: int
  br_catalog :: "(string \<times> catalog_entry) list"
  br_proposals :: "(string \<times> proposal) list"
  br_trials :: "(string \<times> trial) list"
  br_inbox :: "inbox_item list"
  br_window :: "exchange list"
  br_pending :: "pending option"
  br_queue :: "queued list"
  br_principals :: "string set"
  br_policy :: policy
  br_self_description :: string
  br_previous_policy :: "policy option"
  br_previous_prompt :: "string option"
  br_applied_policy :: "string option"
  br_applied_prompt :: "string option"
  br_next_proposal :: nat
  br_next_trial :: nat

definition window_size :: nat where "window_size = 10"

definition proposal_name :: "nat \<Rightarrow> string" where
  "proposal_name n = ''p-'' @ str_nat n"

definition trial_name :: "nat \<Rightarrow> string" where
  "trial_name n = ''t-'' @ str_nat n"

text \<open>The state before the first save: the hatched policy and nothing else.\<close>

definition hatched :: "policy \<Rightarrow> brain" where
  "hatched p =
     \<lparr>br_turn = 0, br_catalog = [], br_proposals = [], br_trials = [], br_inbox = [], br_window = [], br_pending = None,
      br_queue = [], br_principals = {}, br_policy = p, br_self_description = [], br_previous_policy = None,
      br_previous_prompt = None, br_applied_policy = None, br_applied_prompt = None, br_next_proposal = 1, br_next_trial = 1\<rparr>"

text \<open>\<open>d[k] = v\<close>, which keeps the place of a key that is there, and a change of the value of a key.\<close>

definition dict_set :: "string \<Rightarrow> 'a \<Rightarrow> (string \<times> 'a) list \<Rightarrow> (string \<times> 'a) list" where
  "dict_set k v d = (if k \<in> fst ` set d then map (\<lambda>(x, y). (x, if x = k then v else y)) d else d @ [(k, v)])"

definition dict_change :: "string \<Rightarrow> ('a \<Rightarrow> 'a) \<Rightarrow> (string \<times> 'a) list \<Rightarrow> (string \<times> 'a) list" where
  "dict_change k f d = map (\<lambda>(x, y). (x, if x = k then f y else y)) d"

lemma fst_change: "map fst (map (\<lambda>(x, y). (x, f x y)) d) = map fst d"
  by auto

lemma keys_dict_set: "fst ` set (dict_set k v d) = insert k (fst ` set d)"
proof (cases "k \<in> fst ` set d")
  case True
  then have "set (map fst (dict_set k v d)) = set (map fst d)"
    by (simp only: dict_set_def if_True fst_change)
  then show ?thesis using True by auto
qed (simp add: dict_set_def)

lemma keys_dict_change [simp]: "map fst (dict_change k f d) = map fst d"
  by (auto simp: dict_change_def)

lemma map_of_in_place: "map_of (map (\<lambda>(a, y). (a, if a = k then f y else y)) d) x = (if x = k then map_option f (map_of d x) else map_of d x)"
  by (induction d) auto

lemma dict_lookup_set [simp]: "map_of (dict_set k v d) x = (if x = k then Some v else map_of d x)"
proof (cases "map_of d k")
  case None
  then have "dict_set k v d = d @ [(k, v)]" by (simp add: dict_set_def map_of_eq_None_iff)
  then show ?thesis using None by (simp add: map_add_def split: option.split)
next
  case (Some w)
  then have "k \<in> fst ` set d" by (metis map_of_eq_None_iff option.distinct(1))
  then have "dict_set k v d = map (\<lambda>(a, y). (a, if a = k then (\<lambda>_. v) y else y)) d" by (simp add: dict_set_def)
  then show ?thesis using Some by (simp only: map_of_in_place) simp
qed

lemma map_of_dict_change [simp]: "map_of (dict_change k f d) x = (if x = k then map_option f (map_of d x) else map_of d x)"
  by (induction d) (auto simp: dict_change_def)

lemma distinct_dict_set:
  assumes "distinct (map fst d)"
  shows "distinct (map fst (dict_set k v d))"
proof (cases "k \<in> fst ` set d")
  case True
  then show ?thesis using assms by (simp only: dict_set_def if_True fst_change)
next
  case False
  then show ?thesis using assms by (simp add: dict_set_def)
qed

lemma set_dict_set: "(x, y) \<in> set (dict_set k v d) \<Longrightarrow> (x = k \<and> y = v) \<or> (x \<noteq> k \<and> (x, y) \<in> set d)"
  by (auto simp: dict_set_def image_iff split: if_splits prod.splits)

lemma set_dict_change: "(x, y) \<in> set (dict_change k f d) \<Longrightarrow> \<exists>z. (x, z) \<in> set d \<and> y = (if x = k then f z else z)"
  by (auto simp: dict_change_def)

section \<open>Principals\<close>

definition root_name :: string where "root_name = ''root''"
definition anonymous :: string where "anonymous = ''anonymous''"

definition is_authenticated :: "string \<Rightarrow> bool" where
  "is_authenticated who \<longleftrightarrow> who \<noteq> anonymous"

definition namespace_of :: "string \<Rightarrow> string option" where
  "namespace_of who = (case partition_at (CHR '':'') who of (ns, found, _) \<Rightarrow> if found then Some ns else None)"

text \<open>\<open>^[A-Za-z0-9_.@+-]+$\<close>\<close>

definition hook_name_re :: "string \<Rightarrow> bool" where
  "hook_name_re s \<longleftrightarrow> all_of principal_char (chop_newline s)"

definition principal_from_hook :: "string \<Rightarrow> string \<Rightarrow> int \<Rightarrow> string" where
  "principal_from_hook ns stdout exit_code =
     (if ns \<in> set reserved_namespaces \<or> exit_code \<noteq> 0 then anonymous
      else case filter (\<lambda>l. l \<noteq> []) (map strip (splitlines stdout)) of
        [] \<Rightarrow> anonymous
      | name # _ \<Rightarrow>
          if name \<in> set reserved_namespaces \<or> name \<in> {root_name, anonymous} \<or> \<not> hook_name_re name then anonymous
          else ns @ '':'' @ name)"

text \<open>Whose memories a principal may see; None is everyone's.\<close>

definition visible_from :: "string \<Rightarrow> string list option" where
  "visible_from who = (if who = root_name then None else if who = anonymous then Some [] else Some [who, root_name])"

section \<open>The invariants of the policy\<close>

definition door_is_open :: "policy \<Rightarrow> bool" where
  "door_is_open p \<longleftrightarrow> po_door p = Open \<and> po_hooks p \<noteq> []"

definition may_invoke :: "string \<Rightarrow> verb \<Rightarrow> policy \<Rightarrow> bool" where
  "may_invoke who v p \<longleftrightarrow>
     (if who = root_name then True
      else if who \<in> fst ` set (po_principals p) then allows (grant_of p who) (vb_name v)
      else who \<in> set (vb_allow v))"

definition may_propose :: "string \<Rightarrow> policy \<Rightarrow> bool" where
  "may_propose who p \<longleftrightarrow> (if who = root_name then True else if who = anonymous then False else gr_propose (grant_of p who))"

text \<open>\<open>len(properties)\<close> of a verb's parameters, read as the code reads them.\<close>

fun first_refusal :: "(string \<Rightarrow> string option) \<Rightarrow> string list \<Rightarrow> string option" where
  "first_refusal f [] = None"
| "first_refusal f (x # xs) = (case f x of None \<Rightarrow> first_refusal f xs | Some m \<Rightarrow> Some m)"

definition refuse_hook :: "(string \<times> catalog_entry) list \<Rightarrow> string \<Rightarrow> string option" where
  "refuse_hook catalog hook =
     (case map_of catalog hook of
        None \<Rightarrow> Some (''hook '' @ hook @ '' is not a verb in the catalog; the catalog has '' @ py_repr_list (sort (map fst catalog)))
      | Some e \<Rightarrow>
          if vb_asserts (ce_verb e) = None then Some (''hook '' @ hook @ '' declares no asserts namespace'')
          else if length (properties (ce_verb e)) \<noteq> 1
          then Some (''hook '' @ hook @ '' declares '' @ py_repr_list (sort (map fst (properties (ce_verb e)))) @
                     '' as parameters; a hook takes exactly one parameter, which receives the decoded payload'')
          else None)"

definition refuse_policy :: "policy \<Rightarrow> brain \<Rightarrow> string option" where
  "refuse_policy p b =
     (if po_door p = Open \<and> po_hooks p = []
      then Some (''the public door cannot open with no pre-turn hook ('' @ section_sign @ ''10.6)'')
      else case first_refusal (refuse_hook (br_catalog b)) (po_hooks p) of
        Some m \<Rightarrow> Some m
      | None \<Rightarrow>
          if gr_propose (grant_of p anonymous) then Some (''anonymous may never propose ('' @ section_sign @ ''10.7)'')
          else None)"

definition repr_option :: "string option \<Rightarrow> string" where
  "repr_option s = (case s of None \<Rightarrow> ''None'' | Some t \<Rightarrow> py_repr t)"

definition in_reserved :: "string option \<Rightarrow> bool" where
  "in_reserved ns = (case ns of None \<Rightarrow> False | Some s \<Rightarrow> s \<in> set reserved_namespaces)"

definition refuse_verb :: "string option \<Rightarrow> verb \<Rightarrow> brain \<Rightarrow> string option" where
  "refuse_verb supersedes v b =
     (if vb_effect v \<notin> embryo_effects
      then Some (''effect '' @ effect_text (vb_effect v) @ '' is not approved by the embryo (only local and read, '' @ section_sign @ ''10.8)'')
      else if in_reserved (vb_asserts v)
      then Some (''a hook may not assert '' @ the (vb_asserts v) @ ''; the reserved namespaces are '' @
                 py_repr_list reserved_namespaces @ '' ('' @ section_sign @ ''10.1)'')
      else case (case map_of (br_catalog b) (vb_name v) of
                   None \<Rightarrow> None
                 | Some e \<Rightarrow>
                     if ce_status e \<noteq> VDisabled \<and> supersedes \<noteq> Some (ce_proposal_id e)
                     then Some (''verb '' @ vb_name v @ '' already exists as '' @ ce_proposal_id e @ ''; propose with supersedes'')
                     else None) of
        Some m \<Rightarrow> Some m
      | None \<Rightarrow>
          if vb_name v \<in> set (po_hooks (br_policy b)) \<and> (length (properties v) \<noteq> 1 \<or> vb_asserts v = None)
          then Some (''verb '' @ vb_name v @ '' is the policy'' @ [squote] @ ''s live hook; a hook must keep exactly one parameter, '' @
                     ''which receives the decoded payload, and a non-null asserts, but this declaration has '' @
                     py_repr_list (sort (map fst (properties v))) @ '' as parameters and asserts '' @ repr_option (vb_asserts v))
          else None)"

definition refuse_approval :: "proposal \<Rightarrow> brain \<Rightarrow> string option" where
  "refuse_approval p b =
     (case (pp_kind p, pp_verb p, pp_policy p) of
        (VerbKind, Some v, _) \<Rightarrow> refuse_verb (pp_supersedes p) v b
      | (PolicyKind, _, Some new) \<Rightarrow> refuse_policy new b
      | _ \<Rightarrow> None)"

section \<open>What a principal is offered\<close>

definition offered_verbs :: "string \<Rightarrow> policy \<Rightarrow> (string \<times> catalog_entry) list \<Rightarrow> string list" where
  "offered_verbs who p catalog =
     map fst (filter (\<lambda>(n, e). ce_status e = VReady \<and> ce_recipe_id e \<noteq> None \<and> may_invoke who (ce_verb e) p) catalog)"

definition offered_names :: "string \<Rightarrow> policy \<Rightarrow> (string \<times> catalog_entry) list \<Rightarrow> string list" where
  "offered_names who p catalog =
     sort ((if is_authenticated who
            then [''remember'', ''effort''] @ (if may_propose who p then [''try'', ''propose''] else []) else []) @
           offered_verbs who p catalog)"

section \<open>Effort\<close>

fun effort_name :: "effort \<Rightarrow> string" where
  "effort_name Low = ''low''"
| "effort_name Medium = ''medium''"
| "effort_name High = ''high''"
| "effort_name XHigh = ''xhigh''"
| "effort_name Max = ''max''"

definition efforts :: "effort list" where
  "efforts = [Low, Medium, High, XHigh, Max]"

fun rung :: "effort \<Rightarrow> nat" where
  "rung Low = 0" | "rung Medium = 1" | "rung High = 2" | "rung XHigh = 3" | "rung Max = 4"

definition effort_of :: "string \<Rightarrow> effort option" where
  "effort_of s = find (\<lambda>e. effort_name e = s) efforts"

definition api_default :: effort where "api_default = High"

definition prior_for :: "effect list \<Rightarrow> effort option" where
  "prior_for es = (if \<exists>e\<in>set es. e \<notin> {EffLocal, EffRead} then Some High else None)"

definition higher :: "effort \<Rightarrow> effort \<Rightarrow> effort" where
  "higher a b = (if rung a < rung b then b else a)"

definition highest :: "effort option list \<Rightarrow> effort option" where
  "highest cs = (case List.map_filter (\<lambda>c. c) cs of [] \<Rightarrow> None | e # es \<Rightarrow> Some (foldl higher e es))"

definition resolve :: "effort option \<Rightarrow> effort option \<Rightarrow> effort option \<Rightarrow> effort option" where
  "resolve run_default prior requested =
     (let least = (case run_default of None \<Rightarrow> api_default | Some e \<Rightarrow> e); best = highest [Some least, prior, requested]
      in if best = Some least then run_default else best)"

section \<open>References\<close>

text \<open>\<open>\b([pt])-(\d+)\b\<close> without case, over Latin-1 text.\<close>

definition latin_word :: "char \<Rightarrow> bool" where
  "latin_word c \<longleftrightarrow>
     word_char c \<or> (let n = (of_char c :: nat) in (192 \<le> n \<and> n \<noteq> 215 \<and> n \<noteq> 247) \<or> n \<in> {170, 178, 179, 181, 185, 186, 188, 189, 190})"

fun idents :: "bool \<Rightarrow> string \<Rightarrow> string list" where
  "idents inside [] = []"
| "idents inside (c # s) =
     (let ds = takeWhile is_digit (tl s); rest = dropWhile is_digit (tl s) in
      if \<not> inside \<and> ascii_lower_char c \<in> {CHR ''p'', CHR ''t''} \<and> s \<noteq> [] \<and> hd s = CHR ''-'' \<and> ds \<noteq> [] \<and>
         \<not> (rest \<noteq> [] \<and> latin_word (hd rest))
      then (ascii_lower_char c # CHR ''-'' # ds) # idents (latin_word c) s
      else idents (latin_word c) s)"

definition ident_key :: "string \<Rightarrow> char \<times> nat" where
  "ident_key i = (hd i, digits_value (drop 2 i))"

definition by_ident :: "string list \<Rightarrow> string list" where
  "by_ident ids = sort_key (\<lambda>i. fst (ident_key i)) (sort_key (\<lambda>i. snd (ident_key i)) ids)"

definition unknown_references :: "string \<Rightarrow> brain \<Rightarrow> string list" where
  "unknown_references text b =
     by_ident (filter (\<lambda>i. i \<notin> fst ` set (br_proposals b) \<and> i \<notin> fst ` set (br_trials b)) (remdups (idents False text)))"

definition id_range :: "string list \<Rightarrow> string \<Rightarrow> string" where
  "id_range ids kind =
     (case by_ident ids of
        [] \<Rightarrow> ''there are no '' @ kind @ ''s''
      | [i] \<Rightarrow> ''the '' @ kind @ ''s are '' @ i
      | xs \<Rightarrow> ''the '' @ kind @ ''s are '' @ hd xs @ '' to '' @ last xs)"

definition describe_unknown :: "int \<Rightarrow> string list \<Rightarrow> brain \<Rightarrow> string" where
  "describe_unknown turn unknown b =
     (let kinds = filter (\<lambda>k. \<exists>i\<in>set unknown. hd i = hd k) [''proposal'', ''trial''] in
      join ''; ''
        ((''your reply on turn '' @ str_int turn @ '' named '' @ join '', '' unknown @ ''; no such '' @ join '' or '' kinds @ '' exists'') #
         (if ''proposal'' \<in> set kinds then [id_range (map fst (br_proposals b)) ''proposal''] else []) @
         (if ''trial'' \<in> set kinds then [id_range (map fst (br_trials b)) ''trial''] else [])))"

end
