(* ===== verification/Invocation.thy ===== *)
theory Invocation
  imports Brain Machine
begin

text \<open>
  What the embryo does on computers (src/embryo/membrane: mshkn.py, verbs.py, trials.py, hooks.py): invoking
  a verb, waiting for builds and polling them, trials with their scratch chains, and the pre-turn hooks. The
  client of the service is the record \<open>mapi\<close>: each call of the protocol \<open>MshknApi\<close> returns the
  MshknError it raised or its value, and may raise anything else; beside it stand the clock, the memory and
  the library's functions. State is the client's and the brain's; log lines are left out.
\<close>

section \<open>The client\<close>

record api_error =
  ae_status :: int
  ae_detail :: string

record recipe_info =
  ri_id :: string
  ri_status :: string
  ri_build_log :: "string option"

record run_result =
  rr_computer_id :: string
  rr_exit_code :: "int option"
  rr_stdout :: string
  rr_stderr :: string
  rr_created_checkpoint_id :: "string option"

datatype fork_result = Forked run_result | DeferredFork string

record relay_job =
  rj_id :: string
  rj_status :: string
  rj_error :: "string option"
  rj_response_status :: "int option"
  rj_response_body :: json

record provenance =
  pv_principal :: string
  pv_door :: string
  pv_turn :: int

record 's mapi =
  ma_create_recipe :: "string \<Rightarrow> ('s, api_error + recipe_info) act"
  ma_get_recipe :: "string \<Rightarrow> ('s, api_error + recipe_info) act"
  ma_create_computer :: "string \<Rightarrow> string \<Rightarrow> doc \<Rightarrow> string option \<Rightarrow> rat \<Rightarrow> ('s, api_error + run_result) act"
  ma_fork_label :: "string \<Rightarrow> string \<Rightarrow> rat \<Rightarrow> ('s, api_error + fork_result) act"
  ma_list_checkpoints :: "string \<Rightarrow> ('s, api_error + string list) act"
  ma_delete_checkpoint :: "string \<Rightarrow> ('s, api_error + unit) act"
  ma_create_relay_job :: "string \<Rightarrow> (string \<times> string) list \<Rightarrow> json \<Rightarrow> ('s, api_error + string) act"
  ma_get_relay_job :: "string \<Rightarrow> ('s, api_error + relay_job) act"
  ma_now :: "('s, rat) act"
  ma_sleep :: "rat \<Rightarrow> ('s, unit) act"
  ma_utc_now :: "('s, string) act"
  ma_search :: "string \<Rightarrow> string list option \<Rightarrow> ('s, string list) act"
  ma_remember :: "string \<Rightarrow> provenance \<Rightarrow> ('s, bool) act"
  ma_seed :: "('s, string) act"
  ma_dumps :: "json \<Rightarrow> string"
  ma_dumps_sorted :: "json \<Rightarrow> string"
  ma_dumps_indented :: "json \<Rightarrow> string"
  ma_dumps_listing :: "json \<Rightarrow> string"
  ma_str :: "json \<Rightarrow> string"
  ma_loads :: "string \<Rightarrow> json option"
  ma_b64decode :: "string \<Rightarrow> string option"
  ma_b64_reason :: "string \<Rightarrow> exc + string"
  ma_sha256 :: "string \<Rightarrow> string"
  ma_fuel :: nat

text \<open>
  \<open>ma_list_checkpoints\<close> gives the ids, newest first; \<open>ma_search\<close> is the memory's search, within the memories of
  the principals given or of all; \<open>ma_b64decode\<close> is strict base64 of UTF-8, None being its errors, and \<open>ma_b64_reason\<close> the lenient decoding of a reason; \<open>ma_dumps\<close> is \<open>json.dumps\<close>, plain,
  with \<open>sort_keys\<close>, with \<open>indent=1\<close> and with both, and \<open>ma_str\<close> Python's \<open>str\<close> of a JSON value. An
  MshknError nobody catches is an exception like any other.
\<close>

definition api_exception :: "api_error \<Rightarrow> exc" where
  "api_exception e = PyError ''MshknError'' (''mshkn '' @ str_int (ae_status e) @ '': '' @ ae_detail e)"

definition uncaught :: "('s, api_error + 'a) act \<Rightarrow> ('s, 'a) act" where
  "uncaught m = bindE m (\<lambda>r. case r of Inl e \<Rightarrow> raise (api_exception e) | Inr a \<Rightarrow> ret a)"

definition recall :: "'s mapi \<Rightarrow> string \<Rightarrow> string \<Rightarrow> ('s, string list) act" where
  "recall A query who = (if visible_from who = Some [] then ret [] else ma_search A query (visible_from who))"

section \<open>Invocations\<close>

definition log_limit :: nat where "log_limit = 2000"

definition log_tail :: "string option \<Rightarrow> string" where
  "log_tail t = (case t of None \<Rightarrow> [] | Some s \<Rightarrow> drop (length s - log_limit) s)"

definition opt_int :: "int option \<Rightarrow> json" where
  "opt_int n = (case n of None \<Rightarrow> JNull | Some i \<Rightarrow> JInt i)"

definition run_result_doc :: "run_result \<Rightarrow> doc" where
  "run_result_doc r =
     [(''status'', JStr ''ok''), (''computer_id'', JStr (rr_computer_id r)), (''exit_code'', opt_int (rr_exit_code r)),
      (''stdout'', JStr (rr_stdout r)), (''stderr'', JStr (rr_stderr r))]"

definition unprovided :: "catalog_entry \<Rightarrow> string list" where
  "unprovided e = filter (\<lambda>n. n \<notin> set (ce_provided e)) (map rq_name (vb_requires (ce_verb e)))"

definition verb_error :: "string \<Rightarrow> string \<Rightarrow> doc" where
  "verb_error name m = [(''verb'', JStr name), (''status'', JStr ''error''), (''error'', JStr m)]"

definition blocked :: "string \<Rightarrow> string list \<Rightarrow> doc" where
  "blocked name names =
     verb_error name (''blocked: '' @ name @ '' requires '' @ join '', '' names @ ''; root places it and says provide'')"

definition recipe_round :: "'s mapi \<Rightarrow> string \<Rightarrow> rat \<Rightarrow> ('s, recipe_info option) act" where
  "recipe_round A recipe_id until =
     bindE (uncaught (ma_get_recipe A recipe_id)) (\<lambda>info.
     if ri_status info \<in> {''ready'', ''failed''} then ret (Some info)
     else bindE (ma_now A) (\<lambda>now.
          if now < until then seqE (ma_sleep A 3) (ret None) else ret (Some info)))"

definition wait_for_recipe :: "'s mapi \<Rightarrow> string \<Rightarrow> rat \<Rightarrow> ('s, recipe_info) act" where
  "wait_for_recipe A recipe_id until =
     bindE (rounds (ma_fuel A) (recipe_round A recipe_id until)) (\<lambda>x.
     case x of None \<Rightarrow> raise still_waiting | Some info \<Rightarrow> ret info)"

definition chain_head :: "'s mapi \<Rightarrow> string \<Rightarrow> ('s, api_error + string option \<times> nat) act" where
  "chain_head A label =
     bindE (ma_list_checkpoints A label) (\<lambda>r.
     ret (case r of
            Inl e \<Rightarrow> Inl e
          | Inr [] \<Rightarrow> Inr (None, 0)
          | Inr (c # cs) \<Rightarrow> Inr (Some c, length (c # cs))))"

definition finished_run :: "verb \<Rightarrow> run_result \<Rightarrow> doc" where
  "finished_run v r =
     (''verb'', JStr (vb_name v)) # run_result_doc r @
     (if vb_state v = Chain then [(''chain_head'', opt_str (rr_created_checkpoint_id r))] else [])"

definition created_run :: "verb \<Rightarrow> api_error + run_result \<Rightarrow> doc" where
  "created_run v r = (case r of Inl e \<Rightarrow> verb_error (vb_name v) (ae_detail e) | Inr x \<Rightarrow> finished_run v x)"

definition forked_run :: "verb \<Rightarrow> api_error + fork_result \<Rightarrow> doc" where
  "forked_run v r =
     (case r of
        Inl e \<Rightarrow> verb_error (vb_name v) (ae_detail e)
      | Inr (DeferredFork d) \<Rightarrow> [(''verb'', JStr (vb_name v)), (''status'', JStr ''deferred''), (''deferred_id'', JStr d)]
      | Inr (Forked x) \<Rightarrow> finished_run v x)"

definition invoke_verb :: "'s mapi \<Rightarrow> verb \<Rightarrow> doc \<Rightarrow> string \<Rightarrow> rat \<Rightarrow> ('s, doc) act" where
  "invoke_verb A v params recipe_id remaining =
     (if remaining \<le> 0 then ret (verb_error (vb_name v) ''out of time'')
      else case render_command (ma_dumps A) v params of
        Inl e \<Rightarrow> if is_declaration_error e then ret (verb_error (vb_name v) (exc_str e)) else raise e
      | Inr command \<Rightarrow>
          if vb_state v = Ephemeral
          then bindE (ma_create_computer A recipe_id command (vb_needs v) None remaining) (\<lambda>r. ret (created_run v r))
          else bindE (chain_head A (vb_chain v)) (\<lambda>h.
               case h of
                 Inl e \<Rightarrow> ret (verb_error (vb_name v) (ae_detail e))
               | Inr (None, _) \<Rightarrow>
                   bindE (ma_create_computer A recipe_id command (vb_needs v) (Some (vb_chain v)) remaining) (\<lambda>r. ret (created_run v r))
               | Inr (Some _, _) \<Rightarrow>
                   bindE (ma_fork_label A (vb_chain v) command remaining) (\<lambda>r. ret (forked_run v r))))"

section \<open>Builds\<close>

type_synonym ('s, 'a) membrane = "('s \<times> brain, 'a) act"

definition item :: "string \<Rightarrow> string \<Rightarrow> inbox_item" where
  "item kind text = \<lparr>ii_kind = kind, ii_text = text\<rparr>"

definition set_entry_status :: "string \<Rightarrow> catalog_status \<Rightarrow> brain \<Rightarrow> brain" where
  "set_entry_status name st b = b\<lparr>br_catalog := dict_change name (ce_status_update (\<lambda>_. st)) (br_catalog b)\<rparr>"

definition set_proposal :: "string \<Rightarrow> (proposal \<Rightarrow> proposal) \<Rightarrow> brain \<Rightarrow> brain" where
  "set_proposal i f b = b\<lparr>br_proposals := dict_change i f (br_proposals b)\<rparr>"

definition poll_build :: "'s mapi \<Rightarrow> string \<times> catalog_entry \<Rightarrow> ('s, inbox_item list) membrane" where
  "poll_build A ne =
     (case ne of (name, e) \<Rightarrow>
      case (ce_status e, ce_recipe_id e) of
        (VBuilding, Some recipe_id) \<Rightarrow>
          bindE (lifted (uncaught (ma_get_recipe A recipe_id))) (\<lambda>info.
          if ri_status info = ''ready''
          then seqE (assign (set_entry_status name VReady))
               (seqE (assign (set_proposal (ce_proposal_id e) (pp_status_update (\<lambda>_. ''ready''))))
                     (ret [item ''build'' (''verb '' @ name @ '' is ready'')]))
          else if ri_status info = ''failed''
          then (let tail = log_tail (ri_build_log info) in
                seqE (assign (set_entry_status name VFailed))
                (seqE (assign (set_proposal (ce_proposal_id e) (\<lambda>p. p\<lparr>pp_status := ''failed'', pp_log := Some tail\<rparr>)))
                      (ret [item ''build'' (''verb '' @ name @ '' failed to build (proposal '' @ ce_proposal_id e @ ''):'' @ newline @ tail)])))
          else ret [])
      | _ \<Rightarrow> ret [])"

definition poll_builds :: "'s mapi \<Rightarrow> ('s, inbox_item list) membrane" where
  "poll_builds A =
     bindE local (\<lambda>b. bindE (map_each (br_catalog b) (poll_build A)) (\<lambda>items. ret (concat items)))"

section \<open>Trials\<close>

definition trial_margin :: rat where "trial_margin = 30"
definition run_margin :: rat where "run_margin = 20"

definition plain_error :: "string \<Rightarrow> doc" where
  "plain_error m = [(''status'', JStr ''error''), (''error'', JStr m)]"

definition trial_run_doc :: "verb \<Rightarrow> run_result \<Rightarrow> doc" where
  "trial_run_doc v r =
     run_result_doc r @ (if vb_state v = Chain then [(''chain_head'', opt_str (rr_created_checkpoint_id r))] else [])"

text \<open>One invocation of a trial with a recipe. The scratch chain is recorded before the computer is created.\<close>

definition one_run :: "'s mapi \<Rightarrow> trial \<Rightarrow> string \<Rightarrow> doc \<Rightarrow> rat \<Rightarrow> ('s, trial \<times> doc) act" where
  "one_run A t recipe_id params remaining =
     (let v = tr_verb t; failed = (\<lambda>t e. (t, plain_error (exc_str (api_exception e)))) in
      case render_command (ma_dumps A) v params of
        Inl e \<Rightarrow> if is_declaration_error e then ret (t, plain_error (exc_str e)) else raise e
      | Inr command \<Rightarrow>
          (case (vb_state v, tr_chain t) of
             (Chain, Some label) \<Rightarrow>
               bindE (ma_fork_label A label command remaining) (\<lambda>r.
               ret (case r of
                      Inl e \<Rightarrow> failed t e
                    | Inr (DeferredFork d) \<Rightarrow> (t, plain_error (''deferred '' @ d))
                    | Inr (Forked x) \<Rightarrow> (t, trial_run_doc v x)))
           | _ \<Rightarrow>
               (let label = (if vb_state v = Chain then Some (trial_chain_prefix @ tr_id t) else None); t' = t\<lparr>tr_chain := label\<rparr> in
                bindE (ma_create_computer A recipe_id command (vb_needs v) label remaining) (\<lambda>r.
                ret (case r of Inl e \<Rightarrow> failed t' e | Inr x \<Rightarrow> (t', trial_run_doc v x))))))"

fun delete_all :: "'s mapi \<Rightarrow> string list \<Rightarrow> ('s, bool) act" where
  "delete_all A [] = ret True"
| "delete_all A (c # cs) =
     bindE (ma_delete_checkpoint A c) (\<lambda>r. case r of Inl _ \<Rightarrow> ret False | Inr _ \<Rightarrow> delete_all A cs)"

definition sweep_trial :: "'s mapi \<Rightarrow> trial \<Rightarrow> ('s, trial) act" where
  "sweep_trial A t =
     (case tr_chain t of
        None \<Rightarrow> ret (t\<lparr>tr_swept := True\<rparr>)
      | Some label \<Rightarrow>
          if tr_swept t then ret t
          else bindE (ma_list_checkpoints A label) (\<lambda>r.
               case r of
                 Inl _ \<Rightarrow> ret t
               | Inr cs \<Rightarrow> bindE (delete_all A cs) (\<lambda>done. ret (if done then t\<lparr>tr_swept := True\<rparr> else t))))"

text \<open>The invocations that fit: what they returned, and whether one was an error.\<close>

fun run_each :: "'s mapi \<Rightarrow> string \<Rightarrow> rat \<Rightarrow> doc list \<Rightarrow> trial \<Rightarrow> ('s, trial \<times> doc list \<times> bool) act" where
  "run_each A recipe_id until [] t = ret (t, [], False)"
| "run_each A recipe_id until (params # rest) t =
     bindE (ma_now A) (\<lambda>now.
     if until - now < run_margin then ret (t, [], False)
     else bindE (one_run A t recipe_id params (until - now)) (\<lambda>(t', d).
          if get d ''status'' = JStr ''error'' then ret (t', [d], True)
          else bindE (run_each A recipe_id until rest t') (\<lambda>(t'', ds, stopped). ret (t'', d # ds, stopped))))"

definition docs :: "doc list \<Rightarrow> json" where
  "docs ds = JArr (map JObj ds)"

definition run_trial :: "'s mapi \<Rightarrow> trial \<Rightarrow> string \<Rightarrow> rat \<Rightarrow> ('s, trial \<times> doc) act" where
  "run_trial A t recipe_id remaining =
     bindE (ma_now A) (\<lambda>now.
     bindE (run_each A recipe_id (now + remaining) (tr_runs t) t) (\<lambda>(t', results, stopped).
     let t'' = t'\<lparr>tr_results := results\<rparr> in
     if length results < length (tr_runs t) \<and> \<not> stopped
     then ret (t'', [(''runs'', docs results), (''status'', JStr ''out of time''), (''ran'', JInt (int (length results))),
                     (''of'', JInt (int (length (tr_runs t))))])
     else bindE (if stopped then ret t'' else sweep_trial A t'') (\<lambda>t3.
          ret (t3, [(''runs'', docs results), (''status'', JStr ''done'')]))))"

definition text_of :: "json \<Rightarrow> string" where
  "text_of j = (case j of JStr s \<Rightarrow> s | _ \<Rightarrow> [])"

definition exit_text :: "json \<Rightarrow> string" where
  "exit_text j = (case j of JInt n \<Rightarrow> str_int n | _ \<Rightarrow> ''None'')"

definition describe_run :: "nat \<times> doc \<Rightarrow> string" where
  "describe_run ir =
     (case ir of (i, r) \<Rightarrow>
        if get r ''status'' \<noteq> JStr ''error''
        then ''run '' @ str_nat (i + 1) @ '': exit '' @ exit_text (get r ''exit_code'') @ newline @ ''stdout:'' @ newline @
             text_of (get r ''stdout'') @ newline @ ''stderr:'' @ newline @ text_of (get r ''stderr'')
        else ''run '' @ str_nat (i + 1) @ '': error '' @ text_of (get r ''error''))"

definition describe_trial :: "trial \<Rightarrow> doc list \<Rightarrow> string" where
  "describe_trial t runs =
     join newline
       ((''trial '' @ tr_id t @ '' of '' @ vb_name (tr_verb t) @ '': '' @ str_nat (length runs) @ '' of '' @
         str_nat (length (tr_runs t)) @ '' ran'') # map describe_run (enumerate 0 runs))"

definition put_trial :: "trial \<Rightarrow> brain \<Rightarrow> brain" where
  "put_trial t b = b\<lparr>br_trials := dict_set (tr_id t) t (br_trials b)\<rparr>"

definition new_trial :: "verb \<Rightarrow> doc list \<Rightarrow> brain \<Rightarrow> trial" where
  "new_trial v runs b =
     \<lparr>tr_id = trial_name (br_next_trial b), tr_verb = v, tr_runs = runs, tr_recipe_id = None, tr_status = TBuilding,
      tr_results = [], tr_build_log = None, tr_chain = None, tr_swept = False\<rparr>"

definition failed_build :: "trial \<Rightarrow> string \<Rightarrow> doc" where
  "failed_build t logged = [(''status'', JStr ''failed''), (''trial'', JStr (tr_id t)), (''build_log'', JStr logged)]"

definition run_built :: "'s mapi \<Rightarrow> trial \<Rightarrow> string \<Rightarrow> recipe_info \<Rightarrow> rat \<Rightarrow> ('s, doc) membrane" where
  "run_built A t recipe_id info until =
     (let logged = log_tail (ri_build_log info) in
      if ri_status info = ''failed''
      then seqE (assign (put_trial (t\<lparr>tr_status := TFailed, tr_build_log := Some logged\<rparr>))) (ret (failed_build t logged))
      else bindE (if ri_status info = ''ready'' then bindE (lifted (ma_now A)) (\<lambda>now. ret (run_margin \<le> until - now)) else ret False) (\<lambda>fits.
           if \<not> fits then ret [(''status'', JStr ''building''), (''trial'', JStr (tr_id t))]
           else bindE (lifted (ma_now A)) (\<lambda>now.
                bindE (lifted (run_trial A t recipe_id (until - now))) (\<lambda>(t', result).
                seqE (assign (put_trial (t'\<lparr>tr_status := TDone, tr_build_log := Some logged\<rparr>)))
                     (ret ([(''trial'', JStr (tr_id t)), (''build_log'', JStr logged)] @ result))))))"

definition try_verb :: "'s mapi \<Rightarrow> json \<Rightarrow> json \<Rightarrow> json \<Rightarrow> rat \<Rightarrow> ('s, doc) membrane" where
  "try_verb A d params runs until =
     (case bind_sum (parse_verb d) (\<lambda>v. bind_sum (parse_runs params runs) (\<lambda>rs. Inr (v, rs))) of
        Inl e \<Rightarrow> if is_declaration_error e then ret [(''status'', JStr ''invalid''), (''error'', JStr (exc_str e))] else raise e
      | Inr (v, rs) \<Rightarrow>
          bindE local (\<lambda>b.
          let t = new_trial v rs b in
          seqE (assign (\<lambda>b. put_trial t (b\<lparr>br_next_trial := Suc (br_next_trial b)\<rparr>)))
          (bindE (lifted (ma_create_recipe A (vb_dockerfile v))) (\<lambda>r.
           case r of
             Inl e \<Rightarrow>
               seqE (assign (put_trial (t\<lparr>tr_status := TFailed, tr_build_log := Some (ae_detail e)\<rparr>))) (ret (failed_build t (ae_detail e)))
           | Inr info \<Rightarrow>
               let t' = t\<lparr>tr_recipe_id := Some (ri_id info)\<rparr> in
               seqE (assign (put_trial t'))
               (bindE (lifted (wait_for_recipe A (ri_id info) (until - trial_margin))) (\<lambda>info'.
                run_built A t' (ri_id info) info' until))))))"

definition tried_principal :: "policy \<Rightarrow> (string \<times> catalog_entry) list \<Rightarrow> string \<Rightarrow> string \<times> json" where
  "tried_principal p catalog who =
     (who, JObj [(''offered'', str_list (offered_names who p catalog)), (''propose'', JBool (may_propose who p))])"

definition try_policy :: "brain \<Rightarrow> json \<Rightarrow> doc parsed" where
  "try_policy b d =
     (case parse_policy d of
        Inl e \<Rightarrow> if is_declaration_error e then Inr [(''status'', JStr ''invalid''), (''error'', JStr (exc_str e))] else Inl e
      | Inr p \<Rightarrow>
          (case refuse_policy p b of
             Some m \<Rightarrow> Inr [(''status'', JStr ''refused''), (''error'', JStr m)]
           | None \<Rightarrow>
               Inr [(''status'', JStr ''tried''), (''door'', JStr (if door_is_open p then ''open'' else ''closed'')),
                    (''principals'', JObj (map (tried_principal p (br_catalog b)) (sort (remdups (map fst (po_principals p) @ [anonymous])))))]))"

definition poll_trial :: "'s mapi \<Rightarrow> rat \<Rightarrow> string \<times> trial \<Rightarrow> ('s, inbox_item list) membrane" where
  "poll_trial A remaining nt =
     (let t = snd nt in
      case (tr_status t, tr_recipe_id t) of
        (TBuilding, Some recipe_id) \<Rightarrow>
          bindE (lifted (uncaught (ma_get_recipe A recipe_id))) (\<lambda>info.
          let tail = log_tail (ri_build_log info) in
          if ri_status info = ''ready''
          then if remaining < run_margin then ret []
               else bindE (lifted (run_trial A t recipe_id remaining)) (\<lambda>(t', result).
                    seqE (assign (put_trial (t'\<lparr>tr_status := TDone, tr_build_log := Some tail\<rparr>)))
                         (ret [item ''trial'' (describe_trial t' (tr_results t'))]))
          else if ri_status info = ''failed''
          then seqE (assign (put_trial (t\<lparr>tr_status := TFailed, tr_build_log := Some tail\<rparr>)))
                    (ret [item ''trial'' (''trial '' @ tr_id t @ '' of '' @ vb_name (tr_verb t) @ '' failed to build:'' @ newline @ tail)])
          else ret [])
      | _ \<Rightarrow>
          if run_margin \<le> remaining \<and> tr_chain t \<noteq> None \<and> \<not> tr_swept t
          then bindE (lifted (sweep_trial A t)) (\<lambda>t'. seqE (assign (put_trial t')) (ret []))
          else ret [])"

definition poll_trials :: "'s mapi \<Rightarrow> rat \<Rightarrow> ('s, inbox_item list) membrane" where
  "poll_trials A remaining =
     bindE local (\<lambda>b. bindE (map_each (br_trials b) (poll_trial A remaining)) (\<lambda>items. ret (concat items)))"

section \<open>Hooks\<close>

text \<open>A hook that would be run: ready, with a recipe, a namespace and one parameter.\<close>

definition usable_hook :: "(string \<times> catalog_entry) list \<Rightarrow> string \<Rightarrow> (verb \<times> string \<times> string \<times> string) option" where
  "usable_hook catalog name =
     (case map_of catalog name of
        None \<Rightarrow> None
      | Some e \<Rightarrow>
          (case (ce_status e, ce_recipe_id e, vb_asserts (ce_verb e), properties (ce_verb e)) of
             (VReady, Some r, Some ns, [(param, _)]) \<Rightarrow> Some (ce_verb e, r, ns, param)
           | _ \<Rightarrow> None))"

definition hook_principal :: "string \<Rightarrow> doc \<Rightarrow> string" where
  "hook_principal ns result =
     (if get result ''status'' \<noteq> JStr ''ok'' then anonymous
      else principal_from_hook ns (text_of (get result ''stdout'')) (case get result ''exit_code'' of JInt n \<Rightarrow> n | _ \<Rightarrow> 1))"

definition hook_run :: "string \<Rightarrow> doc \<Rightarrow> string \<Rightarrow> json" where
  "hook_run name result who =
     JObj [(''name'', JStr name), (''status'', get result ''status''), (''computer_id'', get result ''computer_id''),
           (''exit_code'', get result ''exit_code''), (''principal'', JStr who), (''error'', get result ''error'')]"

fun ask_hooks :: "'s mapi \<Rightarrow> (string \<times> catalog_entry) list \<Rightarrow> string \<Rightarrow> rat \<Rightarrow> string list \<Rightarrow> ('s, string \<times> json list) act" where
  "ask_hooks A catalog payload remaining [] = ret (anonymous, [])"
| "ask_hooks A catalog payload remaining (name # rest) =
     (case usable_hook catalog name of
        None \<Rightarrow> ask_hooks A catalog payload remaining rest
      | Some (v, recipe_id, ns, param) \<Rightarrow>
          bindE (invoke_verb A v [(param, JStr payload)] recipe_id remaining) (\<lambda>result.
          let who = hook_principal ns result; run = hook_run name result who in
          if who \<noteq> anonymous then ret (who, [run])
          else bindE (ask_hooks A catalog payload remaining rest) (\<lambda>(who', runs). ret (who', run # runs))))"

definition principal_for :: "'s mapi \<Rightarrow> brain \<Rightarrow> string \<Rightarrow> rat \<Rightarrow> ('s, string \<times> json list) act" where
  "principal_for A b payload remaining = ask_hooks A (br_catalog b) payload remaining (po_hooks (br_policy b))"

end
