(* ===== verification/Proposals.thy ===== *)
theory Proposals
  imports Invocation
begin

text \<open>
  Proposals (src/embryo/membrane/proposals.py): what the model proposes and root approves, rejects, disables,
  reverts and provides. These are the only operations that write the policy, the self-description or a verb
  of the catalog; \<open>authority\<close> is the part of the state they write.
\<close>

section \<open>Operations on the brain\<close>

definition in_brain :: "(brain, 'a) act \<Rightarrow> ('s, 'a) membrane" where
  "in_brain m = (\<lambda>(s, b). case m b of (r, b') \<Rightarrow> (r, (s, b')))"

lemma wp_in_brain [wp_simps]:
  "wp (in_brain m) Q R = (\<lambda>(s, b). wp m (\<lambda>a b'. Q a (s, b')) (\<lambda>e b'. R e (s, b')) b)"
  by (auto simp: wp_def in_brain_def fun_eq_iff split: prod.splits sum.splits)

lemma keeps_in_brain: "keeps I m \<Longrightarrow> keeps (\<lambda>(s, b). I b) (in_brain m)"
  by (auto simp: keeps_def in_brain_def split: prod.splits)

definition key_error :: "string \<Rightarrow> exc" where
  "key_error k = PyError ''KeyError'' k"

definition assertion_error :: exc where
  "assertion_error = PyError ''AssertionError'' []"

definition tell :: "inbox_item \<Rightarrow> brain \<Rightarrow> brain" where
  "tell i b = b\<lparr>br_inbox := br_inbox b @ [i]\<rparr>"

definition supersede_target :: "brain \<Rightarrow> proposal \<Rightarrow> string option" where
  "supersede_target b p =
     (case pp_supersedes p of
        None \<Rightarrow> None
      | Some i \<Rightarrow>
          (case map_of (br_proposals b) i of
             None \<Rightarrow> None
           | Some t \<Rightarrow>
               if pp_kind t \<noteq> pp_kind p then None
               else if pp_kind p = VerbKind \<and>
                       (pp_verb p = None \<or> pp_verb t = None \<or> map_option vb_name (pp_verb t) \<noteq> map_option vb_name (pp_verb p))
               then None
               else Some i))"

definition for_verb :: "proposal \<Rightarrow> string" where
  "for_verb p =
     (case (pp_kind p, pp_verb p) of (VerbKind, Some v) \<Rightarrow> '' for verb '' @ py_repr (vb_name v) | _ \<Rightarrow> [])"

definition born_pending :: "proposal \<Rightarrow> proposal" where
  "born_pending p = p\<lparr>pp_status := ''pending'', pp_recipe_id := None, pp_log := None\<rparr>"

definition propose :: "json \<Rightarrow> (brain, proposal) act" where
  "propose d =
     bindE (reads (\<lambda>b. b)) (\<lambda>b.
     bindE (from_result (parse_proposal d (proposal_name (br_next_proposal b)))) (\<lambda>parsed.
     let p = born_pending parsed in
     case (pp_supersedes p, supersede_target b p) of
       (Some i, None) \<Rightarrow>
         raise (declaration_error (''proposal.supersedes '' @ py_repr i @ '' does not name an existing '' @ kind_text (pp_kind p) @
                '' proposal'' @ for_verb p))
     | _ \<Rightarrow>
         seqE (writes (\<lambda>b. b\<lparr>br_next_proposal := Suc (br_next_proposal b), br_proposals := dict_set (pp_id p) p (br_proposals b)\<rparr>))
              (ret p)))"

definition get_proposal :: "string \<Rightarrow> (brain, proposal) act" where
  "get_proposal i =
     bindE (reads (\<lambda>b. map_of (br_proposals b) i)) (\<lambda>p. case p of None \<Rightarrow> raise (key_error i) | Some p \<Rightarrow> ret p)"

definition tell_the_model :: "proposal \<Rightarrow> string \<Rightarrow> string \<Rightarrow> (brain, string) act" where
  "tell_the_model p kind text =
     seqE (whenE (pp_log p \<noteq> Some text)
             (writes (\<lambda>b. set_proposal (pp_id p) (pp_log_update (\<lambda>_. Some text))
                (tell (item kind (''proposal '' @ pp_id p @ '' ('' @ pp_title p @ '') '' @ text)) b))))
          (ret (pp_id p @ '' '' @ text))"

definition supersede :: "proposal \<Rightarrow> brain \<Rightarrow> brain" where
  "supersede p b =
     (case supersede_target b p of None \<Rightarrow> b | Some i \<Rightarrow> set_proposal i (pp_status_update (\<lambda>_. ''superseded'')) b)"

definition new_entry :: "verb \<Rightarrow> catalog_status \<Rightarrow> string option \<Rightarrow> string \<Rightarrow> catalog_entry" where
  "new_entry v st recipe_id proposal_id =
     \<lparr>ce_verb = v, ce_status = st, ce_recipe_id = recipe_id, ce_proposal_id = proposal_id, ce_provided = []\<rparr>"

definition put_entry :: "verb \<Rightarrow> catalog_entry \<Rightarrow> brain \<Rightarrow> brain" where
  "put_entry v e b = b\<lparr>br_catalog := dict_set (vb_name v) e (br_catalog b)\<rparr>"

definition free_name :: "brain \<Rightarrow> verb \<Rightarrow> bool" where
  "free_name b v = (case map_of (br_catalog b) (vb_name v) of None \<Rightarrow> True | Some e \<Rightarrow> ce_status e = VDisabled)"

text \<open>A verb whose recipe was refused, and one whose recipe is accepted.\<close>

definition verb_refused :: "proposal \<Rightarrow> verb \<Rightarrow> string \<Rightarrow> (brain, string) act" where
  "verb_refused p v detail =
     seqE (writes (set_proposal (pp_id p) (\<lambda>p. p\<lparr>pp_status := ''failed'', pp_log := Some detail\<rparr>)))
     (seqE (writes (\<lambda>b. if free_name b v then put_entry v (new_entry v VFailed None (pp_id p)) b else b))
           (tell_the_model (p\<lparr>pp_status := ''failed'', pp_log := Some detail\<rparr>) ''build'' (''failed: '' @ detail)))"

definition verb_accepted :: "proposal \<Rightarrow> verb \<Rightarrow> recipe_info \<Rightarrow> (brain, string) act" where
  "verb_accepted p v info =
     (let st = (if ri_status info = ''ready'' then VReady else VBuilding) in
      seqE (writes (set_proposal (pp_id p) (\<lambda>p. p\<lparr>pp_status := catalog_status_text st, pp_recipe_id := Some (ri_id info)\<rparr>)))
      (seqE (writes (supersede p))
      (seqE (writes (put_entry v (new_entry v st (Some (ri_id info)) (pp_id p))))
            (ret (pp_id p @ '' '' @ catalog_status_text st @ '': verb '' @ vb_name v @ '' recipe '' @ ri_id info)))))"

definition apply_policy :: "proposal \<Rightarrow> policy \<Rightarrow> brain \<Rightarrow> brain" where
  "apply_policy p new b =
     b\<lparr>br_previous_policy := Some (br_policy b), br_policy := new, br_applied_policy := Some (pp_id p)\<rparr>"

definition apply_prompt :: "proposal \<Rightarrow> string \<Rightarrow> brain \<Rightarrow> brain" where
  "apply_prompt p new b =
     b\<lparr>br_previous_prompt := Some (br_self_description b), br_self_description := new, br_applied_prompt := Some (pp_id p)\<rparr>"

definition applied :: "proposal \<Rightarrow> (brain, string) act" where
  "applied p =
     seqE (writes (set_proposal (pp_id p) (pp_status_update (\<lambda>_. ''applied''))))
     (seqE (writes (supersede p))
           (ret (pp_id p @ '' applied: '' @ kind_text (pp_kind p) @ '' replaced; effective from the next turn'')))"

definition approve :: "'s mapi \<Rightarrow> string \<Rightarrow> ('s, string) membrane" where
  "approve A i =
     bindE (in_brain (get_proposal i)) (\<lambda>p.
     if pp_status p \<noteq> ''pending'' then ret (pp_id p @ '' is '' @ pp_status p @ '', not pending'')
     else bindE local (\<lambda>b.
     case refuse_approval p b of
       Some reason \<Rightarrow> in_brain (tell_the_model p ''refusal'' (''refused: '' @ reason))
     | None \<Rightarrow>
         (case (pp_kind p, pp_verb p, pp_policy p, pp_prompt p) of
            (VerbKind, Some v, _, _) \<Rightarrow>
              bindE (lifted (ma_create_recipe A (vb_dockerfile v))) (\<lambda>r.
              case r of
                Inl e \<Rightarrow> in_brain (verb_refused p v (ae_detail e))
              | Inr info \<Rightarrow> in_brain (verb_accepted p v info))
          | (PolicyKind, _, Some new, _) \<Rightarrow> seqE (assign (apply_policy p new)) (in_brain (applied p))
          | (PromptKind, _, _, Some new) \<Rightarrow> seqE (assign (apply_prompt p new)) (in_brain (applied p))
          | _ \<Rightarrow> raise assertion_error)))"

definition reject :: "string \<Rightarrow> string \<Rightarrow> (brain, string) act" where
  "reject i reason =
     bindE (get_proposal i) (\<lambda>p.
     if pp_status p \<notin> {''pending'', ''blocked''} then ret (pp_id p @ '' is '' @ pp_status p @ '', not pending or blocked'')
     else seqE (writes (\<lambda>b. tell (item ''rejection'' (''proposal '' @ pp_id p @ '' ('' @ pp_title p @ '') was rejected: '' @ reason))
                  (set_proposal (pp_id p) (pp_status_update (\<lambda>_. ''rejected'')) b)))
               (ret (pp_id p @ '' rejected: '' @ reason)))"

definition still_required :: "catalog_entry \<Rightarrow> string" where
  "still_required e =
     (if unprovided e = [] then ''every requirement is provided'' else ''still requires '' @ py_repr_list (unprovided e))"

definition provide :: "string \<Rightarrow> string \<Rightarrow> (brain, string) act" where
  "provide verb_name name =
     bindE (reads (\<lambda>b. map_of (br_catalog b) verb_name)) (\<lambda>found.
     case found of
       None \<Rightarrow> ret (''no verb '' @ verb_name)
     | Some e \<Rightarrow>
         let required = map rq_name (vb_requires (ce_verb e)) in
         if name \<notin> set required then ret (verb_name @ '' does not require '' @ name @ ''; it requires '' @ py_repr_list required)
         else if name \<in> set (ce_provided e) then ret (verb_name @ '': '' @ name @ '' already provided'')
         else let e' = e\<lparr>ce_provided := ce_provided e @ [name]\<rparr> in
              seqE (writes (\<lambda>b. tell (item ''provide'' (''verb '' @ verb_name @ '': root provided '' @ name @ ''; '' @ still_required e'))
                      (b\<lparr>br_catalog := dict_set verb_name e' (br_catalog b)\<rparr>)))
                   (ret (verb_name @ '': '' @ name @ '' provided ('' @ str_nat (length (ce_provided e')) @ ''/'' @ str_nat (length required) @ '')'')))"

definition disable :: "string \<Rightarrow> (brain, string) act" where
  "disable verb_name =
     bindE (reads (\<lambda>b. map_of (br_catalog b) verb_name)) (\<lambda>found.
     case found of
       None \<Rightarrow> ret (''no verb '' @ verb_name)
     | Some e \<Rightarrow>
         seqE (writes (\<lambda>b. set_proposal (ce_proposal_id e) (pp_status_update (\<lambda>_. ''disabled'')) (set_entry_status verb_name VDisabled b)))
              (ret (verb_name @ '' disabled'')))"

definition reverted :: "proposal \<Rightarrow> (brain, string) act" where
  "reverted p =
     seqE (writes (set_proposal (pp_id p) (pp_status_update (\<lambda>_. ''reverted''))))
          (ret (pp_id p @ '' reverted: '' @ kind_text (pp_kind p) @ '' restored to the previous applied one''))"

definition revert :: "string \<Rightarrow> (brain, string) act" where
  "revert i =
     bindE (get_proposal i) (\<lambda>p.
     bindE (reads (\<lambda>b. b)) (\<lambda>b.
     case (pp_kind p, br_previous_policy b, br_previous_prompt b) of
       (PolicyKind, Some old, _) \<Rightarrow>
         if br_applied_policy b = Some i
         then seqE (writes (\<lambda>b. b\<lparr>br_policy := old, br_applied_policy := None, br_previous_policy := None\<rparr>)) (reverted p)
         else ret (pp_id p @ '' is not applied; nothing to revert'')
     | (PromptKind, _, Some old) \<Rightarrow>
         if br_applied_prompt b = Some i
         then seqE (writes (\<lambda>b. b\<lparr>br_self_description := old, br_applied_prompt := None, br_previous_prompt := None\<rparr>)) (reverted p)
         else ret (pp_id p @ '' is not applied; nothing to revert'')
     | _ \<Rightarrow> ret (pp_id p @ '' is not applied; nothing to revert'')))"

end
