(* ===== verification/Turn.thy ===== *)
theory Turn
  imports Proposals
begin

text \<open>
  The embryo's turn (src/embryo/membrane: model.py, loop.py, turn.py, commands.py, cli.py). A \<open>say\<close> opens a
  turn: it names the principal, polls builds and trials, composes the request and posts it to the relay;
  \<open>resume\<close>, or any later command, finishes it with the relay's answer, running the model's calls
  and posting the next request until the turn closes; a queued message then starts the next turn. One
  command is one process: it loads the state and saves it only when it succeeded.
\<close>

section \<open>The model\<close>

definition usage_keys :: "string list" where
  "usage_keys = [''input_tokens'', ''output_tokens'', ''cache_creation_input_tokens'', ''cache_read_input_tokens'']"

definition zero_usage :: "(string \<times> int) list" where
  "zero_usage = map (\<lambda>k. (k, 0)) usage_keys"

definition count_of :: "(string \<times> int) list \<Rightarrow> string \<Rightarrow> int" where
  "count_of u k = (case map_of u k of None \<Rightarrow> 0 | Some n \<Rightarrow> n)"

definition add_usage :: "(string \<times> int) list \<Rightarrow> (string \<times> int) list \<Rightarrow> (string \<times> int) list" where
  "add_usage a b = map (\<lambda>k. (k, count_of a k + count_of b k)) usage_keys"

definition py_error :: "string \<Rightarrow> exc" where
  "py_error name = PyError name []"

text \<open>\<open>int(usage.get(key) or 0)\<close>; a value that is no number is a Python error.\<close>

fun usage_count :: "json \<Rightarrow> exc + int" where
  "usage_count JNull = Inr 0"
| "usage_count (JBool b) = Inr (if b then 1 else 0)"
| "usage_count (JInt n) = Inr n"
| "usage_count (JStr s) = (if s = [] then Inr 0 else case py_int s of None \<Rightarrow> Inl (py_error ''ValueError'') | Some n \<Rightarrow> Inr n)"
| "usage_count (JArr xs) = (if xs = [] then Inr 0 else Inl (py_error ''TypeError''))"
| "usage_count (JObj d) = (if d = [] then Inr 0 else Inl (py_error ''TypeError''))"

fun falsy :: "json \<Rightarrow> bool" where
  "falsy JNull = True"
| "falsy (JBool b) = (\<not> b)"
| "falsy (JInt n) = (n = 0)"
| "falsy (JStr s) = (s = [])"
| "falsy (JArr xs) = (xs = [])"
| "falsy (JObj d) = (d = [])"

definition usage_from :: "json \<Rightarrow> exc + (string \<times> int) list" where
  "usage_from j =
     (case (if falsy j then JObj [] else j) of
        JObj u \<Rightarrow> parse_each (\<lambda>k. bind_sum (usage_count (get u k)) (\<lambda>n. Inr (k, n))) usage_keys
      | _ \<Rightarrow> Inl (py_error ''AttributeError''))"

record tool_call =
  tc_id :: string
  tc_name :: string
  tc_input :: doc

record completion =
  co_text :: string
  co_calls :: "tool_call list"
  co_content :: "json list"
  co_usage :: "(string \<times> int) list"
  co_stop_reason :: json

text \<open>One block of a message: its texts, its calls, and what is echoed back. An input that is no object raises; that
  \<open>dict\<close> also takes a list of pairs is left out.\<close>

definition block_text :: "('j \<Rightarrow> string) \<Rightarrow> (string \<times> 'j) list \<Rightarrow> string" where
  "block_text str b = (case map_of b ''text'' of None \<Rightarrow> [] | Some j \<Rightarrow> str j)"

definition required_text :: "(json \<Rightarrow> string) \<Rightarrow> doc \<Rightarrow> string \<Rightarrow> string parsed" where
  "required_text str b k = (case map_of b k of None \<Rightarrow> Inl (key_error k) | Some j \<Rightarrow> Inr (str j))"

definition block_call :: "(json \<Rightarrow> string) \<Rightarrow> doc \<Rightarrow> tool_call parsed" where
  "block_call str b =
     bind_sum (required_text str b ''id'') (\<lambda>i.
     bind_sum (required_text str b ''name'') (\<lambda>n.
     bind_sum (if falsy (get b ''input'') then Inr [] else case get b ''input'' of JObj d \<Rightarrow> Inr d | _ \<Rightarrow> Inl (py_error ''TypeError'')) (\<lambda>d.
     Inr \<lparr>tc_id = i, tc_name = n, tc_input = d\<rparr>)))"

fun read_blocks :: "(json \<Rightarrow> string) \<Rightarrow> json list \<Rightarrow> (string list \<times> tool_call list \<times> json list) parsed" where
  "read_blocks str [] = Inr ([], [], [])"
| "read_blocks str (JObj b # rest) =
     bind_sum (if get b ''type'' = JStr ''tool_use'' then bind_sum (block_call str b) (\<lambda>c. Inr [c]) else Inr []) (\<lambda>calls.
     bind_sum (read_blocks str rest) (\<lambda>(ts, cs, bs).
     Inr ((if get b ''type'' = JStr ''text'' then [block_text str b] else []) @ ts, calls @ cs,
          JObj (filter (\<lambda>(k, _). k \<noteq> ''parsed_output'') b) # bs)))"
| "read_blocks str (_ # rest) = read_blocks str rest"

definition parse_message :: "(json \<Rightarrow> string) \<Rightarrow> doc \<Rightarrow> completion parsed" where
  "parse_message str d =
     bind_sum (case get d ''content'' of
                 JArr bs \<Rightarrow> read_blocks str bs
               | JInt n \<Rightarrow> if n = 0 then Inr ([], [], []) else Inl (py_error ''TypeError'')
               | JBool b \<Rightarrow> if b then Inl (py_error ''TypeError'') else Inr ([], [], [])
               | _ \<Rightarrow> Inr ([], [], [])) (\<lambda>(ts, cs, bs).
     bind_sum (usage_from (get d ''usage'')) (\<lambda>u.
     Inr \<lparr>co_text = join newline ts, co_calls = cs, co_content = bs, co_usage = u, co_stop_reason = get d ''stop_reason''\<rparr>))"

record settings =
  st_model_id :: string
  st_base_url :: string
  st_api_key :: "string option"
  st_default_effort :: "effort option"
  st_effort_enabled :: bool
  st_body_extra :: doc

definition composed :: "string list" where
  "composed = [''model'', ''max_tokens'', ''stream'', ''system'', ''messages'', ''tools'', ''cache_control'', ''output_config'']"

definition cache_control :: json where
  "cache_control = JObj [(''type'', JStr ''ephemeral'')]"

definition compose_request :: "settings \<Rightarrow> string \<Rightarrow> json list \<Rightarrow> json list \<Rightarrow> effort option \<Rightarrow> json parsed" where
  "compose_request S system messages tools eff =
     (case find (\<lambda>k. k \<in> set composed) (map fst (st_body_extra S)) of
        Some k \<Rightarrow> Inl (PyError ''ValueError'' (''MEMBRANE_BODY_EXTRA may not set '' @ py_repr k @ '': the membrane composes it''))
      | None \<Rightarrow>
          Inr (JObj ([(''model'', JStr (st_model_id S)), (''max_tokens'', JInt 64000), (''stream'', JBool True),
                      (''system'', JArr [JObj [(''type'', JStr ''text''), (''text'', JStr system), (''cache_control'', cache_control)]]),
                      (''messages'', JArr messages), (''cache_control'', cache_control)] @
                     (if tools = [] then [] else [(''tools'', JArr tools)]) @
                     (case eff of None \<Rightarrow> [] | Some e \<Rightarrow> [(''output_config'', JObj [(''effort'', JStr (effort_name e))])]) @
                     st_body_extra S)))"

definition request_headers :: "settings \<Rightarrow> (string \<times> string) list" where
  "request_headers S =
     [(''anthropic-version'', ''2023-06-01''), (''content-type'', ''application/json'')] @
     (case st_api_key S of None \<Rightarrow> [] | Some k \<Rightarrow> if k = [] then [] else [(''x-api-key'', k)])"


section \<open>Tools\<close>

text \<open>The descriptions of the built-in tools, prose for the model, are left out.\<close>

datatype tool_kind = RememberTool | EffortTool | TryTool | ProposeTool | VerbTool catalog_entry

record tool =
  tl_name :: string
  tl_definition :: json
  tl_effect :: effect
  tl_kind :: tool_kind

definition schema :: "(string \<times> json) list \<Rightarrow> string list \<Rightarrow> json" where
  "schema props required =
     JObj ([(''type'', JStr ''object''), (''properties'', JObj props)] @
           (if required = [] then [] else [(''required'', str_list required)]))"

definition of_type :: "string \<Rightarrow> json" where
  "of_type t = JObj [(''type'', JStr t)]"

definition definition_of :: "string \<Rightarrow> json \<Rightarrow> json" where
  "definition_of name input_schema = JObj [(''name'', JStr name), (''input_schema'', input_schema)]"

definition remember_tool :: json where
  "remember_tool = definition_of ''remember'' (schema [(''text'', of_type ''string'')] [''text''])"

definition effort_tool :: json where
  "effort_tool =
     definition_of ''effort'' (schema [(''level'', JObj [(''type'', JStr ''string''), (''enum'', str_list (map effort_name efforts))])] [''level''])"

definition try_tool :: json where
  "try_tool =
     definition_of ''try''
       (schema [(''verb'', of_type ''object''), (''params'', of_type ''object''),
                (''runs'', JObj [(''type'', JStr ''array''), (''items'', of_type ''object'')]), (''policy'', of_type ''object'')] [])"

definition propose_tool :: json where
  "propose_tool =
     definition_of ''propose''
       (schema [(''kind'', JObj [(''type'', JStr ''string''), (''enum'', str_list [''verb'', ''policy'', ''prompt''])]),
                (''title'', of_type ''string''), (''rationale'', of_type ''string''),
                (''supersedes'', JObj [(''type'', str_list [''string'', ''null''])]), (''verb'', of_type ''object''),
                (''policy'', of_type ''object''), (''prompt'', of_type ''string'')] [''kind'', ''title'', ''rationale''])"

definition builtin_tools :: "tool list" where
  "builtin_tools =
     [\<lparr>tl_name = ''remember'', tl_definition = remember_tool, tl_effect = EffLocal, tl_kind = RememberTool\<rparr>,
      \<lparr>tl_name = ''effort'', tl_definition = effort_tool, tl_effect = EffLocal, tl_kind = EffortTool\<rparr>,
      \<lparr>tl_name = ''try'', tl_definition = try_tool, tl_effect = EffLocal, tl_kind = TryTool\<rparr>,
      \<lparr>tl_name = ''propose'', tl_definition = propose_tool, tl_effect = EffLocal, tl_kind = ProposeTool\<rparr>]"

definition verb_tool_of :: "string \<times> catalog_entry \<Rightarrow> tool" where
  "verb_tool_of ne =
     \<lparr>tl_name = fst ne, tl_definition = verb_tool (ce_verb (snd ne)), tl_effect = vb_effect (ce_verb (snd ne)), tl_kind = VerbTool (snd ne)\<rparr>"

text \<open>The dict of the tools: the built-in ones, then the verbs, each under its name.\<close>

definition put_verb :: "string \<times> catalog_entry \<Rightarrow> (string \<times> tool) list \<Rightarrow> (string \<times> tool) list" where
  "put_verb ne d = dict_set (fst ne) (verb_tool_of ne) d"

definition build_tools :: "string \<Rightarrow> brain \<Rightarrow> tool list" where
  "build_tools who b =
     (let names = offered_names who (br_policy b) (br_catalog b) in
      map snd (fold put_verb (filter (\<lambda>(n, _). n \<in> set names) (br_catalog b))
                 (map (\<lambda>t. (tl_name t, t)) (filter (\<lambda>t. tl_name t \<in> set names) builtin_tools))))"

definition tool_names :: "tool list \<Rightarrow> string list" where
  "tool_names ts = sort (map tl_name ts)"

definition effort_for :: "settings \<Rightarrow> tool list \<Rightarrow> effort option \<Rightarrow> effort option" where
  "effort_for S ts requested =
     (if \<not> st_effort_enabled S then None else resolve (st_default_effort S) (prior_for (map tl_effect ts)) requested)"

definition with_pending :: "(pending \<Rightarrow> ('s, 'a) membrane) \<Rightarrow> ('s, 'a) membrane" where
  "with_pending f = bindE local (\<lambda>b. case br_pending b of None \<Rightarrow> raise assertion_error | Some p \<Rightarrow> f p)"

definition set_pending :: "(pending \<Rightarrow> pending) \<Rightarrow> brain \<Rightarrow> brain" where
  "set_pending f b = b\<lparr>br_pending := map_option f (br_pending b)\<rparr>"

definition try_one_of :: string where
  "try_one_of =
     ''try takes a verb declaration to build and run, or a policy document to report what it would offer, not both and '' @
     ''not neither: give verb (with params or runs) or give policy''"

definition do_remember :: "'s mapi \<Rightarrow> doc \<Rightarrow> ('s, doc) membrane" where
  "do_remember A inp =
     with_pending (\<lambda>p.
     bindE (lifted (ma_remember A (ma_str A (get_or inp ''text'' (JStr [])))
       \<lparr>pv_principal = pn_principal p, pv_door = pn_door p, pv_turn = pn_turn p\<rparr>)) (\<lambda>_.
     ret [(''status'', JStr ''remembered'')]))"

definition invalid :: "string \<Rightarrow> doc" where
  "invalid m = [(''status'', JStr ''invalid''), (''error'', JStr m)]"

definition do_effort :: "'s mapi \<Rightarrow> settings \<Rightarrow> tool list \<Rightarrow> doc \<Rightarrow> ('s, doc) membrane" where
  "do_effort A S ts inp =
     (let level = ma_str A (get_or inp ''level'' (JStr [])) in
      case effort_of level of
        None \<Rightarrow> ret (invalid (''effort.level must be one of '' @ join '', '' (map effort_name efforts) @ '', not '' @ py_repr level))
      | Some e \<Rightarrow>
          seqE (assign (set_pending (\<lambda>p. p\<lparr>pn_requested_effort := highest [pn_requested_effort p, Some e]\<rparr>)))
          (with_pending (\<lambda>p.
           ret [(''status'', JStr ''set''), (''requested'', JStr level),
                (''effort'', JStr (effort_name (case effort_for S ts (pn_requested_effort p) of None \<Rightarrow> api_default | Some g \<Rightarrow> g)))])))"

definition do_try :: "'s mapi \<Rightarrow> rat \<Rightarrow> doc \<Rightarrow> ('s, doc) membrane" where
  "do_try A deadline inp =
     (if (get inp ''verb'' = JNull) = (get inp ''policy'' = JNull) then ret (invalid try_one_of)
      else if get inp ''policy'' \<noteq> JNull then bindE local (\<lambda>b. from_result (try_policy b (get inp ''policy'')))
      else try_verb A (get inp ''verb'') (get inp ''params'') (get inp ''runs'') deadline)"

fun obj_of :: "json \<Rightarrow> doc" where
  "obj_of (JObj d) = d"
| "obj_of _ = []"

definition do_propose :: "doc \<Rightarrow> ('s, doc) membrane" where
  "do_propose inp =
     bindE (tryE (in_brain (propose (JObj inp)))) (\<lambda>r.
     case r of
       Inl e \<Rightarrow> if is_declaration_error e then ret (invalid (exc_str e)) else raise e
     | Inr p \<Rightarrow>
         seqE (assign (set_pending (\<lambda>q. q\<lparr>pn_made := pn_made q @ [pp_id p]\<rparr>))) (ret (obj_of (proposal_doc p))))"

definition do_verb :: "'s mapi \<Rightarrow> rat \<Rightarrow> catalog_entry \<Rightarrow> doc \<Rightarrow> ('s, doc) membrane" where
  "do_verb A deadline e inp =
     (if unprovided e \<noteq> [] then ret (blocked (vb_name (ce_verb e)) (unprovided e))
      else case ce_recipe_id e of
        None \<Rightarrow> raise assertion_error
      | Some recipe_id \<Rightarrow>
          bindE (lifted (ma_now A)) (\<lambda>now. lifted (invoke_verb A (ce_verb e) inp recipe_id (deadline - now))))"

definition handle :: "'s mapi \<Rightarrow> settings \<Rightarrow> rat \<Rightarrow> tool list \<Rightarrow> tool_kind \<Rightarrow> doc \<Rightarrow> ('s, doc) membrane" where
  "handle A S deadline ts k inp =
     (case k of
        RememberTool \<Rightarrow> do_remember A inp
      | EffortTool \<Rightarrow> do_effort A S ts inp
      | TryTool \<Rightarrow> do_try A deadline inp
      | ProposeTool \<Rightarrow> do_propose inp
      | VerbTool e \<Rightarrow> do_verb A deadline e inp)"

section \<open>The calls of a completion\<close>

definition cap :: nat where "cap = 20"

definition find_tool :: "tool list \<Rightarrow> string \<Rightarrow> tool option" where
  "find_tool ts name = find (\<lambda>t. tl_name t = name) ts"

definition run_call :: "'s mapi \<Rightarrow> settings \<Rightarrow> rat \<Rightarrow> tool list \<Rightarrow> tool_call \<Rightarrow> ('s, doc) membrane" where
  "run_call A S deadline ts c =
     (case find_tool ts (tc_name c) of
        None \<Rightarrow> ret (plain_error (''no such tool '' @ tc_name c))
      | Some t \<Rightarrow>
          bindE (lifted (ma_now A)) (\<lambda>now.
          if deadline \<le> now then ret (plain_error ''out of time'')
          else handle A S deadline ts (tl_kind t) (tc_input c)))"

definition tool_result :: "'s mapi \<Rightarrow> tool_call \<Rightarrow> doc \<Rightarrow> json" where
  "tool_result A c result =
     JObj [(''type'', JStr ''tool_result''), (''tool_use_id'', JStr (tc_id c)), (''content'', JStr (ma_dumps A (JObj result)))]"

definition note_call :: "tool_call \<Rightarrow> doc \<Rightarrow> brain \<Rightarrow> brain" where
  "note_call c result =
     set_pending (\<lambda>p. p\<lparr>pn_calls := pn_calls p @ [\<lparr>cm_name = tc_name c, cm_input = tc_input c, cm_result = result\<rparr>]\<rparr>)"

fun run_calls :: "'s mapi \<Rightarrow> settings \<Rightarrow> rat \<Rightarrow> tool list \<Rightarrow> tool_call list \<Rightarrow> ('s, json list \<times> bool) membrane" where
  "run_calls A S deadline ts [] = ret ([], False)"
| "run_calls A S deadline ts (c # cs) =
     with_pending (\<lambda>p.
     if cap \<le> length (pn_calls p) then ret ([], True)
     else bindE (run_call A S deadline ts c) (\<lambda>result.
          seqE (assign (note_call c result))
          (bindE (run_calls A S deadline ts cs) (\<lambda>(rs, capped). ret (tool_result A c result # rs, capped)))))"

section \<open>Audit lines\<close>

definition audit_line :: "'s mapi \<Rightarrow> doc \<Rightarrow> string" where
  "audit_line A d = ''audit '' @ ma_dumps_sorted A (JObj d)"

definition present :: "string list \<Rightarrow> doc \<Rightarrow> doc" where
  "present ks d = List.map_filter (\<lambda>k. map_option (\<lambda>v. (k, v)) (map_of d k)) ks"

definition run_summary :: "json \<Rightarrow> json" where
  "run_summary r =
     JObj ((''status'', get (obj_of r) ''status'') # present [''exit_code'', ''computer_id'', ''chain_head'', ''error''] (obj_of r))"

definition tool_summary :: "call_made \<Rightarrow> json" where
  "tool_summary c =
     (let r = cm_result c in
      JObj ([(''name'', JStr (cm_name c)), (''status'', get r ''status'')] @
            present [''exit_code'', ''computer_id'', ''chain_head'', ''id'', ''trial'', ''error''] r @
            (case get r ''runs'' of JArr rs \<Rightarrow> [(''runs'', JArr (map run_summary rs))] | _ \<Rightarrow> [])))"

definition excerpt :: "'s mapi \<Rightarrow> json \<Rightarrow> string" where
  "excerpt A body = take 300 (case body of JStr s \<Rightarrow> s | _ \<Rightarrow> ma_dumps A body)"

section \<open>Requests\<close>

text \<open>Composing the request and handing it to the relay: the refusal, or None when it is in flight.\<close>

definition post_request :: "'s mapi \<Rightarrow> settings \<Rightarrow> tool list \<Rightarrow> ('s, api_error option) membrane" where
  "post_request A S ts =
     with_pending (\<lambda>p.
     let eff = effort_for S ts (pn_requested_effort p) in
     bindE (lifted (ma_seed A)) (\<lambda>seed.
     bindE local (\<lambda>b.
     let system = (if br_self_description b = [] then seed else seed @ newline @ newline @ br_self_description b) in
     bindE (from_result (compose_request S system (pn_messages p) (map tl_definition ts) eff)) (\<lambda>body.
     bindE (lifted (ma_create_relay_job A (st_base_url S @ ''/v1/messages'') (request_headers S) body)) (\<lambda>r.
     case r of
       Inl e \<Rightarrow> ret (Some e)
     | Inr job \<Rightarrow>
         seqE (assign (set_pending (\<lambda>p. p\<lparr>pn_job := job, pn_model_calls := pn_model_calls p + 1, pn_efforts := pn_efforts p @ [eff]\<rparr>)))
              (ret None))))))"

definition model_failed :: string where "model_failed = ''The model service failed this turn.''"

text \<open>What a turn that could not be posted is closed with.\<close>

definition post_or_text :: "'s mapi \<Rightarrow> settings \<Rightarrow> tool list \<Rightarrow> ('s, string option) membrane" where
  "post_or_text A S ts =
     bindE (post_request A S ts) (\<lambda>r.
     ret (map_option (\<lambda>e. model_failed @ '' the relay refused: '' @ exc_str (api_exception e)) r))"

section \<open>Closing a turn\<close>

definition item_doc :: "inbox_item \<Rightarrow> json" where
  "item_doc i = JObj [(''kind'', JStr (ii_kind i)), (''text'', JStr (ii_text i))]"

definition made_doc :: "'s mapi \<Rightarrow> proposal \<Rightarrow> json" where
  "made_doc A p = JObj [(''id'', JStr (pp_id p)), (''sha256'', JStr (ma_sha256 A (ma_dumps_sorted A (proposal_doc p))))]"

definition usage_doc :: "(string \<times> int) list \<Rightarrow> json" where
  "usage_doc u = JObj (map (\<lambda>(k, n). (k, JInt n)) u)"

definition opt_effort :: "effort option \<Rightarrow> json" where
  "opt_effort e = opt_str (map_option effort_name e)"

definition closing_audit :: "pending \<Rightarrow> json list \<Rightarrow> string list \<Rightarrow> bool \<Rightarrow> string \<Rightarrow> doc" where
  "closing_audit p made refs written stopped =
     [(''turn'', JInt (pn_turn p)), (''principal'', JStr (pn_principal p)), (''door'', JStr (pn_door p)), (''hooks'', JArr (pn_hooks p)),
      (''offered'', str_list (pn_offered p)), (''tools'', JArr (map tool_summary (pn_calls p))), (''proposals'', JArr made),
      (''references'', str_list refs), (''memory_written'', JBool written), (''stopped'', JStr stopped),
      (''model_calls'', JInt (pn_model_calls p)), (''effort'', JArr (map opt_effort (pn_efforts p))), (''usage'', usage_doc (pn_usage p)),
      (''forks'', JInt (pn_forks p)), (''started_at'', JStr (pn_started_at p)), (''job'', JStr (pn_job p))]"

definition proposal_lines :: "'s mapi \<Rightarrow> proposal \<Rightarrow> string list" where
  "proposal_lines A p = [''proposal '' @ pp_id p, ma_dumps_indented A (proposal_doc p)]"

definition push_window :: "exchange \<Rightarrow> exchange list \<Rightarrow> exchange list" where
  "push_window e w = drop (length w + 1 - window_size) (w @ [e])"

definition give_back :: "pending \<Rightarrow> brain \<Rightarrow> brain" where
  "give_back p b = b\<lparr>br_inbox := pn_drained p @ br_inbox b\<rparr>"

definition write_memory :: "'s mapi \<Rightarrow> pending \<Rightarrow> string \<Rightarrow> ('s, bool) act" where
  "write_memory A p text =
     (if pn_write_memory p
      then ma_remember A (pn_principal p @ '': '' @ pn_message p @ newline @ ''embryo: '' @ text)
             \<lparr>pv_principal = pn_principal p, pv_door = pn_door p, pv_turn = pn_turn p\<rparr>
      else ret False)"

definition close_pending :: "'s mapi \<Rightarrow> string \<Rightarrow> string \<Rightarrow> ('s, string) membrane" where
  "close_pending A text stopped =
     with_pending (\<lambda>p.
     seqE (whenE (stopped = ''error'') (assign (give_back p)))
     (bindE (in_brain (map_each (pn_made p) get_proposal)) (\<lambda>made.
      bindE (lifted (write_memory A p text)) (\<lambda>written.
      bindE local (\<lambda>b.
      let refs = (if stopped = ''error'' then [] else unknown_references text b);
          audit = closing_audit p (map (made_doc A) made) refs written stopped;
          output = join newline (text # concat (map (proposal_lines A) made)) @ newline;
          closed = \<lparr>ex_turn = pn_turn p, ex_principal = pn_principal p, ex_door = pn_door p, ex_input = pn_message p, ex_reply = text,
                    ex_output = output, ex_audit = audit\<rparr> in
      seqE (whenE (refs \<noteq> []) (assign (tell (item ''reference'' (describe_unknown (pn_turn p) refs b)))))
      (seqE (assign (\<lambda>b. b\<lparr>br_window := push_window closed (br_window b), br_pending := None\<rparr>))
            (ret (audit_line A audit @ newline @ output))))))))"

section \<open>Opening a turn\<close>

definition history_from :: "exchange list \<Rightarrow> json list" where
  "history_from w =
     concat (map (\<lambda>e. [JObj [(''role'', JStr ''user''), (''content'', JStr (''['' @ ex_principal e @ '' via '' @ ex_door e @ ''] '' @ ex_input e))],
                       JObj [(''role'', JStr ''assistant''), (''content'', JStr (ex_reply e))]])
            (drop (length w - window_size) w))"

definition bullets :: "string list \<Rightarrow> string" where
  "bullets ts = concat (map (\<lambda>t. ''- '' @ t @ newline) ts)"

definition compose_input :: "'s mapi \<Rightarrow> int \<Rightarrow> string \<Rightarrow> string \<Rightarrow> policy \<Rightarrow> inbox_item list \<Rightarrow> string list \<Rightarrow> string \<Rightarrow> string" where
  "compose_input A turn who door p inbox recalled message =
     ''[turn '' @ str_int turn @ '' | principal '' @ who @ '' | door '' @ door @ '']'' @ newline @
     ''policy:'' @ newline @ ma_dumps_sorted A (policy_doc p) @ newline @
     ''inbox:'' @ newline @ bullets (map ii_text inbox) @ newline @ ''recall:'' @ newline @ bullets recalled @ newline @
     ''message:'' @ newline @ message"

definition user_message :: "string \<Rightarrow> json" where
  "user_message text = JObj [(''role'', JStr ''user''), (''content'', JStr text)]"

definition new_pending :: "brain \<Rightarrow> queued \<Rightarrow> inbox_item list \<Rightarrow> string \<Rightarrow> string \<Rightarrow> pending" where
  "new_pending b q drained input started_at =
     \<lparr>pn_turn = br_turn b, pn_principal = qd_principal q, pn_door = qd_door q, pn_message = qd_message q, pn_payload = qd_payload q,
      pn_messages = history_from (br_window b) @ [user_message input], pn_offered = tool_names (build_tools (qd_principal q) b),
      pn_job = [], pn_hooks = qd_hooks q, pn_calls = [], pn_made = [], pn_model_calls = 0, pn_usage = zero_usage, pn_forks = 1,
      pn_started_at = started_at, pn_write_memory = is_authenticated (qd_principal q), pn_drained = drained,
      pn_requested_effort = None, pn_efforts = [], pn_said = []\<rparr>"

definition open_turn :: "string \<Rightarrow> brain \<Rightarrow> brain" where
  "open_turn who b =
     b\<lparr>br_principals := (if namespace_of who \<noteq> None then insert who (br_principals b) else br_principals b), br_turn := br_turn b + 1\<rparr>"

definition to_inbox :: "inbox_item list \<Rightarrow> brain \<Rightarrow> brain" where
  "to_inbox items b = b\<lparr>br_inbox := br_inbox b @ items\<rparr>"

definition poll_all :: "'s mapi \<Rightarrow> rat \<Rightarrow> ('s, unit) membrane" where
  "poll_all A deadline =
     bindE (poll_builds A) (\<lambda>items.
     seqE (assign (to_inbox items))
     (bindE (lifted (ma_now A)) (\<lambda>now.
      bindE (poll_trials A (deadline - now)) (\<lambda>items. assign (to_inbox items)))))"

definition drain :: "string \<Rightarrow> brain \<Rightarrow> inbox_item list" where
  "drain who b = (if is_authenticated who then br_inbox b else [])"

definition started :: "'s mapi \<Rightarrow> pending \<Rightarrow> string" where
  "started A p =
     audit_line A [(''turn'', JInt (pn_turn p)), (''principal'', JStr (pn_principal p)), (''door'', JStr (pn_door p)), (''hooks'', JArr (pn_hooks p)),
       (''offered'', str_list (pn_offered p)), (''job'', JStr (pn_job p)), (''started'', JBool True)] @ newline @
     ma_dumps A (JObj [(''turn'', JInt (pn_turn p)), (''job'', JStr (pn_job p))]) @ newline"

text \<open>A turn up to its first request: what to close it with, or what the door prints.\<close>

definition start_posted :: "'s mapi \<Rightarrow> settings \<Rightarrow> rat \<Rightarrow> queued \<Rightarrow> ('s, string + string) membrane" where
  "start_posted A S deadline q =
     (let who = qd_principal q in
      seqE (assign (open_turn who))
      (seqE (poll_all A deadline)
      (bindE local (\<lambda>b.
       let drained = drain who b in
       seqE (whenE (is_authenticated who) (assign (br_inbox_update (\<lambda>_. []))))
       (bindE (if is_authenticated who then lifted (recall A (qd_message q) who) else ret []) (\<lambda>recalled.
        bindE (lifted (ma_utc_now A)) (\<lambda>now.
        let input = compose_input A (br_turn b) who (qd_door q) (br_policy b) drained recalled (qd_message q) in
        seqE (assign (\<lambda>b. b\<lparr>br_pending := Some (new_pending b q drained input now)\<rparr>))
        (bindE (post_or_text A S (build_tools who b)) (\<lambda>refused.
         case refused of
           Some text \<Rightarrow> ret (Inl text)
         | None \<Rightarrow> with_pending (\<lambda>p. ret (Inr (started A p))))))))))))"

text \<open>The turns of the queue: each that is refused is closed, and the next begins. Nothing in them adds to the queue.\<close>

fun next_turns :: "'s mapi \<Rightarrow> settings \<Rightarrow> rat \<Rightarrow> queued list \<Rightarrow> ('s, string) membrane" where
  "next_turns A S deadline [] = ret []"
| "next_turns A S deadline (q # qs) =
     seqE (assign (br_queue_update (\<lambda>_. qs)))
     (bindE (start_posted A S deadline q) (\<lambda>r.
      case r of
        Inr out \<Rightarrow> ret out
      | Inl text \<Rightarrow>
          bindE (close_pending A text ''error'') (\<lambda>out.
          bindE (next_turns A S deadline qs) (\<lambda>more. ret (out @ more)))))"

definition close_turn :: "'s mapi \<Rightarrow> settings \<Rightarrow> rat \<Rightarrow> string \<Rightarrow> string \<Rightarrow> ('s, string) membrane" where
  "close_turn A S deadline text stopped =
     bindE (close_pending A text stopped) (\<lambda>out.
     bindE local (\<lambda>b.
     bindE (next_turns A S deadline (br_queue b)) (\<lambda>more. ret (out @ more))))"

definition start_turn :: "'s mapi \<Rightarrow> settings \<Rightarrow> rat \<Rightarrow> queued \<Rightarrow> ('s, string) membrane" where
  "start_turn A S deadline q =
     bindE (start_posted A S deadline q) (\<lambda>r.
     case r of Inr out \<Rightarrow> ret out | Inl text \<Rightarrow> close_turn A S deadline text ''error'')"


section \<open>Going on with a turn\<close>

definition cap_reached :: string where "cap_reached = ''I reached the tool-call cap for this turn.''"
definition out_of_tokens :: string where "out_of_tokens = ''I ran out of output tokens before finishing this turn.''"

definition said :: "pending \<Rightarrow> string" where
  "said p = join (newline @ newline) (filter (\<lambda>t. \<not> blank t) (pn_said p))"

definition add_completion :: "completion \<Rightarrow> pending \<Rightarrow> pending" where
  "add_completion c p =
     p\<lparr>pn_usage := add_usage (pn_usage p) (co_usage c), pn_said := (if blank (co_text c) then pn_said p else pn_said p @ [co_text c])\<rparr>"

definition echo :: "completion \<Rightarrow> pending \<Rightarrow> pending" where
  "echo c p = p\<lparr>pn_messages := pn_messages p @ [JObj [(''role'', JStr ''assistant''), (''content'', JArr (co_content c))]]\<rparr>"

definition union_sorted :: "string list \<Rightarrow> string list \<Rightarrow> string list" where
  "union_sorted xs ys = sort (remdups (xs @ ys))"

definition answer :: "json list \<Rightarrow> tool list \<Rightarrow> pending \<Rightarrow> pending" where
  "answer results ts p =
     p\<lparr>pn_messages := pn_messages p @ [JObj [(''role'', JStr ''user''), (''content'', JArr results)]],
       pn_forks := pn_forks p + 1, pn_offered := union_sorted (pn_offered p) (map tl_name ts)\<rparr>"

definition continued :: "'s mapi \<Rightarrow> string \<Rightarrow> nat \<Rightarrow> pending \<Rightarrow> string" where
  "continued A previous before p =
     audit_line A [(''turn'', JInt (pn_turn p)), (''job'', JStr previous), (''calls'', JArr (map tool_summary (drop before (pn_calls p)))),
       (''next_job'', JStr (pn_job p)), (''continued'', JBool True)] @ newline"

text \<open>What becomes of a turn: closed with a text for a reason, or gone on with.\<close>

datatype turn_step = Close string string | GoOn string

definition go_on :: "'s mapi \<Rightarrow> settings \<Rightarrow> rat \<Rightarrow> completion \<Rightarrow> ('s, turn_step) membrane" where
  "go_on A S deadline c =
     with_pending (\<lambda>p0.
     seqE (assign (set_pending (echo c)))
     (bindE local (\<lambda>b.
      let ts = build_tools (pn_principal p0) b in
      bindE (run_calls A S deadline ts (co_calls c)) (\<lambda>(results, capped).
      if capped
      then with_pending (\<lambda>p. ret (Close (strip (cap_reached @ '' '' @ said p)) ''cap''))
      else seqE (assign (set_pending (answer results ts)))
           (bindE (post_or_text A S ts) (\<lambda>refused.
            case refused of
              Some text \<Rightarrow> ret (Close text ''error'')
            | None \<Rightarrow> with_pending (\<lambda>p. ret (GoOn (continued A (pn_job p0) (length (pn_calls p0)) p)))))))))"

definition read_message :: "'s mapi \<Rightarrow> settings \<Rightarrow> rat \<Rightarrow> doc \<Rightarrow> ('s, turn_step) membrane" where
  "read_message A S deadline message =
     bindE (from_result (parse_message (ma_str A) message)) (\<lambda>c.
     seqE (assign (set_pending (add_completion c)))
     (with_pending (\<lambda>p.
      if co_stop_reason c = JStr ''max_tokens'' then ret (Close (strip (out_of_tokens @ '' '' @ said p)) ''max_tokens'')
      else if co_calls c = [] then ret (Close (said p) ''done'')
      else go_on A S deadline c)))"

definition take_step :: "'s mapi \<Rightarrow> settings \<Rightarrow> rat \<Rightarrow> turn_step \<Rightarrow> ('s, string) membrane" where
  "take_step A S deadline st = (case st of Close text stopped \<Rightarrow> close_turn A S deadline text stopped | GoOn out \<Rightarrow> ret out)"

definition continue_turn :: "'s mapi \<Rightarrow> settings \<Rightarrow> rat \<Rightarrow> doc \<Rightarrow> ('s, string) membrane" where
  "continue_turn A S deadline message = bindE (read_message A S deadline message) (take_step A S deadline)"

definition opt_text :: "string option \<Rightarrow> string" where
  "opt_text t = (case t of None \<Rightarrow> ''None'' | Some s \<Rightarrow> s)"

definition finish :: "'s mapi \<Rightarrow> settings \<Rightarrow> rat \<Rightarrow> relay_job \<Rightarrow> ('s, string) membrane" where
  "finish A S deadline job =
     (let failed = (\<lambda>why. close_turn A S deadline (model_failed @ '' '' @ why) ''error'') in
      if rj_status job \<in> {''queued'', ''in_progress''} then ret []
      else if rj_status job \<noteq> ''completed'' then failed (opt_text (rj_error job))
      else case rj_response_status job of
        None \<Rightarrow> failed (''HTTP None: '' @ excerpt A (rj_response_body job))
      | Some n \<Rightarrow>
          if \<not> (200 \<le> n \<and> n < 300) then failed (''HTTP '' @ str_int n @ '': '' @ excerpt A (rj_response_body job))
          else (case rj_response_body job of
                  JObj message \<Rightarrow> continue_turn A S deadline message
                | _ \<Rightarrow> failed ''the response is not a message''))"

definition job_gone :: "'s mapi \<Rightarrow> settings \<Rightarrow> rat \<Rightarrow> string \<Rightarrow> ('s, string) membrane" where
  "job_gone A S deadline job = close_turn A S deadline (model_failed @ '' job '' @ job @ '' is gone'') ''error''"

definition resume :: "'s mapi \<Rightarrow> settings \<Rightarrow> rat \<Rightarrow> string \<Rightarrow> ('s, string) membrane" where
  "resume A S deadline job_id =
     bindE local (\<lambda>b.
     case br_pending b of
       None \<Rightarrow> ret (''no pending turn for job '' @ job_id @ newline)
     | Some p \<Rightarrow>
         if pn_job p \<noteq> job_id then ret (''no pending turn for job '' @ job_id @ newline)
         else bindE (lifted (ma_get_relay_job A job_id)) (\<lambda>r.
              case r of
                Inl e \<Rightarrow> if ae_status e = 404 then job_gone A S deadline job_id else raise (api_exception e)
              | Inr job \<Rightarrow>
                  bindE (finish A S deadline job) (\<lambda>out.
                  ret (if out = [] then ''job '' @ job_id @ '' is '' @ rj_status job @ newline else out))))"

definition settle :: "'s mapi \<Rightarrow> settings \<Rightarrow> rat \<Rightarrow> ('s, string) membrane" where
  "settle A S deadline =
     bindE local (\<lambda>b.
     case br_pending b of
       None \<Rightarrow> ret []
     | Some p \<Rightarrow>
         bindE (lifted (ma_get_relay_job A (pn_job p))) (\<lambda>r.
         case r of
           Inl e \<Rightarrow> if ae_status e = 404 then job_gone A S deadline (pn_job p) else ret []
         | Inr job \<Rightarrow> finish A S deadline job))"

section \<open>The doors\<close>

definition decode_payload :: "'s mapi \<Rightarrow> string \<Rightarrow> (string \<times> string) option" where
  "decode_payload A b64 =
     (case ma_b64decode A b64 of
        None \<Rightarrow> None
      | Some text \<Rightarrow>
          (case ma_loads A text of
             Some (JObj body) \<Rightarrow> (case get body ''msg'' of JStr m \<Rightarrow> Some (m, text) | _ \<Rightarrow> Some (text, text))
           | _ \<Rightarrow> Some (text, text)))"

definition enqueue :: "queued \<Rightarrow> brain \<Rightarrow> brain" where
  "enqueue q b = b\<lparr>br_queue := br_queue b @ [q]\<rparr>"

definition queued_line :: "'s mapi \<Rightarrow> queued \<Rightarrow> nat \<Rightarrow> string" where
  "queued_line A q position =
     audit_line A [(''door'', JStr (qd_door q)), (''principal'', JStr (qd_principal q)), (''hooks'', JArr (qd_hooks q)),
       (''queued'', JInt (int position))] @ newline @ ma_dumps A (JObj [(''queued'', JInt (int position))]) @ newline"

definition say_as :: "'s mapi \<Rightarrow> settings \<Rightarrow> rat \<Rightarrow> queued \<Rightarrow> ('s, string) membrane" where
  "say_as A S deadline q =
     bindE local (\<lambda>b.
     if br_pending b \<noteq> None
     then seqE (assign (enqueue q)) (ret (queued_line A q (length (br_queue b) + 1)))
     else start_turn A S deadline q)"

definition nobody :: "string \<Rightarrow> string \<times> json \<Rightarrow> doc" where
  "nobody door extra = [(''door'', JStr door), (''principal'', JNull), extra]"

definition say :: "'s mapi \<Rightarrow> settings \<Rightarrow> rat \<Rightarrow> string \<Rightarrow> string \<Rightarrow> ('s, string) membrane" where
  "say A S deadline b64 door =
     (case decode_payload A b64 of
        None \<Rightarrow> ret (audit_line A (nobody door (''error'', JStr ''bad payload'')) @ newline @ ''The payload is not base64.'' @ newline)
      | Some (message, payload) \<Rightarrow>
          let q = \<lparr>qd_principal = root_name, qd_door = door, qd_message = message, qd_payload = payload, qd_hooks = []\<rparr> in
          if door = ''api'' then say_as A S deadline q
          else bindE local (\<lambda>b.
               if \<not> door_is_open (br_policy b)
               then ret (audit_line A (nobody door (''closed'', JBool True)) @ newline @ ''The public door is closed.'' @ newline)
               else bindE (lifted (ma_now A)) (\<lambda>now.
                    bindE (lifted (principal_for A b payload (deadline - now))) (\<lambda>(who, runs).
                    say_as A S deadline (q\<lparr>qd_principal := who, qd_hooks := runs\<rparr>)))))"

section \<open>Root's commands\<close>

definition entry_listing :: "'s mapi \<Rightarrow> string \<times> catalog_entry \<Rightarrow> ('s, string \<times> json) act" where
  "entry_listing A ne =
     (case ne of (name, e) \<Rightarrow>
        bindE (if vb_state (ce_verb e) = Chain then uncaught (chain_head A (vb_chain (ce_verb e))) else ret (None, 0)) (\<lambda>(head, n).
        ret (name, JObj [(''status'', JStr (catalog_status_text (ce_status e))), (''effect'', JStr (effect_text (vb_effect (ce_verb e)))),
          (''state'', JStr (state_kind_text (vb_state (ce_verb e)))), (''recipe_id'', opt_str (ce_recipe_id e)),
          (''chain_head'', opt_str head), (''chain_length'', JInt (int n)), (''chain'', JStr (vb_chain (ce_verb e))),
          (''requires'', JArr (map requirement_doc (vb_requires (ce_verb e)))), (''provided'', str_list (ce_provided e))])))"

definition exchange_doc :: "exchange \<Rightarrow> json" where
  "exchange_doc e =
     JObj [(''turn'', JInt (ex_turn e)), (''principal'', JStr (ex_principal e)), (''door'', JStr (ex_door e)), (''input'', JStr (ex_input e)),
           (''reply'', JStr (ex_reply e)), (''output'', JStr (ex_output e)), (''audit'', JObj (ex_audit e))]"

definition hooks_ready :: "brain \<Rightarrow> string list" where
  "hooks_ready b =
     filter (\<lambda>h. case map_of (br_catalog b) h of None \<Rightarrow> False | Some e \<Rightarrow> ce_status e = VReady) (po_hooks (br_policy b))"

definition trial_listing :: "trial \<Rightarrow> json" where
  "trial_listing t =
     JObj [(''id'', JStr (tr_id t)), (''verb'', JStr (vb_name (tr_verb t))), (''status'', JStr (trial_status_text (tr_status t))),
           (''recipe_id'', opt_str (tr_recipe_id t))]"

definition pending_listing :: "pending \<Rightarrow> json" where
  "pending_listing p =
     JObj [(''turn'', JInt (pn_turn p)), (''principal'', JStr (pn_principal p)), (''door'', JStr (pn_door p)), (''job'', JStr (pn_job p)),
           (''started_at'', JStr (pn_started_at p)), (''forks'', JInt (pn_forks p)), (''model_calls'', JInt (pn_model_calls p)),
           (''usage'', usage_doc (pn_usage p))]"

definition queued_listing :: "queued \<Rightarrow> json" where
  "queued_listing q = JObj [(''principal'', JStr (qd_principal q)), (''door'', JStr (qd_door q)), (''message'', JStr (qd_message q))]"

definition list_state :: "'s mapi \<Rightarrow> ('s, string) membrane" where
  "list_state A =
     bindE local (\<lambda>b.
     bindE (lifted (map_each (br_catalog b) (entry_listing A))) (\<lambda>catalog.
     ret (ma_dumps_listing A (JObj
       [(''turn'', JInt (br_turn b)),
        (''door'', JObj [(''status'', JStr (if door_is_open (br_policy b) then ''open'' else ''closed'')),
           (''hooks'', str_list (po_hooks (br_policy b))), (''hooks_ready'', str_list (hooks_ready b))]),
        (''policy'', policy_doc (br_policy b)), (''principals'', str_list (sorted_list_of_set (br_principals b))), (''catalog'', JObj catalog),
        (''proposals'', JArr (map (\<lambda>(i, p). proposal_doc p) (br_proposals b))), (''trials'', JArr (map (\<lambda>(i, t). trial_listing t) (br_trials b))),
        (''inbox'', JInt (int (length (br_inbox b)))), (''pending'', case br_pending b of None \<Rightarrow> JNull | Some p \<Rightarrow> pending_listing p),
        (''queue'', JArr (map queued_listing (br_queue b))), (''window'', JArr (map exchange_doc (br_window b)))]) @ newline)))"

definition usage_text :: string where
  "usage_text =
     ''usage: membrane say <b64>'' @ newline @
     ''       membrane root say <b64> | list | approve <id> | reject <id> <b64 reason> | disable <verb> | revert <id> | provide <verb> <name>'' @ newline @
     ''       membrane resume <job_id>'' @ newline @
     ''       membrane serve [--port N]'' @ newline"

definition answered :: "('s, string) membrane \<Rightarrow> ('s, string \<times> int) membrane" where
  "answered m = bindE m (\<lambda>out. ret (out @ newline, 0))"

definition root_command :: "'s mapi \<Rightarrow> string list \<Rightarrow> ('s, string \<times> int) membrane" where
  "root_command A argv =
     (case argv of
        [c] \<Rightarrow> if c = ''list'' then bindE (list_state A) (\<lambda>out. ret (out, 0)) else ret (usage_text, 2)
      | [c, x] \<Rightarrow>
          if c = ''approve'' then answered (approve A x)
          else if c = ''disable'' then answered (in_brain (disable x))
          else if c = ''revert'' then answered (in_brain (revert x))
          else ret (usage_text, 2)
      | [c, x, y] \<Rightarrow>
          if c = ''reject'' then bindE (from_result (ma_b64_reason A y)) (\<lambda>reason. answered (in_brain (reject x reason)))
          else if c = ''provide'' then answered (in_brain (provide x y))
          else ret (usage_text, 2)
      | _ \<Rightarrow> ret (usage_text, 2))"

definition root :: "'s mapi \<Rightarrow> settings \<Rightarrow> rat \<Rightarrow> string list \<Rightarrow> ('s, string \<times> int) membrane" where
  "root A S deadline argv =
     (case argv of
        [c, b64] \<Rightarrow> if c = ''say'' then bindE (say A S deadline b64 ''api'') (\<lambda>out. ret (out, 0))
                   else seqE (poll_all A deadline)
                     (catchE (root_command A argv)
                       (\<lambda>e. if exc_name e = ''KeyError'' then ret (''no proposal '' @ exc_str e @ newline, 1) else raise e))
      | _ \<Rightarrow> seqE (poll_all A deadline)
               (catchE (root_command A argv)
                 (\<lambda>e. if exc_name e = ''KeyError'' then ret (''no proposal '' @ exc_str e @ newline, 1) else raise e)))"

section \<open>One command, one process\<close>

definition arity :: "string \<Rightarrow> nat option" where
  "arity c =
     map_of [(''say'', 1), (''list'', 0), (''approve'', 1), (''reject'', 2), (''disable'', 1), (''revert'', 1), (''provide'', 2)] c"

definition valid_argv :: "string list \<Rightarrow> bool" where
  "valid_argv argv =
     (case argv of
        c # d # rest \<Rightarrow>
          (rest = [] \<and> c \<in> {''say'', ''resume''}) \<or> (c = ''root'' \<and> arity d = Some (length rest))
      | _ \<Rightarrow> False)"

definition turn_deadline :: rat where "turn_deadline = 240"

definition command :: "'s mapi \<Rightarrow> settings \<Rightarrow> string list \<Rightarrow> ('s, string \<times> int) membrane" where
  "command A S argv =
     bindE (lifted (ma_now A)) (\<lambda>now.
     let deadline = now + turn_deadline in
     case argv of
       [c, x] \<Rightarrow>
         if c = ''resume'' then bindE (resume A S deadline x) (\<lambda>out. ret (out, 0))
         else seqE (settle A S deadline)
              (if c = ''say'' then bindE (say A S deadline x ''ingress'') (\<lambda>out. ret (out, 0)) else root A S deadline [x])
     | _ \<Rightarrow> seqE (settle A S deadline) (root A S deadline (tl argv)))"

text \<open>The state on the disk is replaced when the command returned, and only then.\<close>

definition saved :: "('s, 'a) membrane \<Rightarrow> ('s, 'a) membrane" where
  "saved m = (\<lambda>(s, disk). case m (s, disk) of (Inl e, (s', b)) \<Rightarrow> (Inl e, (s', disk)) | (Inr r, (s', b)) \<Rightarrow> (Inr r, (s', b)))"

definition run_membrane :: "'s mapi \<Rightarrow> settings \<Rightarrow> string list \<Rightarrow> ('s, string \<times> int) membrane" where
  "run_membrane A S argv = (if valid_argv argv then saved (command A S argv) else ret (usage_text, 2))"

end
