(* ===== verification/Authority.thy ===== *)
theory Authority
  imports Turn
begin

text \<open>
  What a command of the embryo may change in its state. Most of a turn only keeps books: the turn number, the
  inbox, the window, the turn in flight, the queue and the principals seen. The locale \<open>turn_writes\<close> names the few
  other writes a turn makes (the status of an entry that is building, the status of a proposal, a trial, a
  new proposal) and shows that whatever survives those survives a whole command; \<open>record_writes\<close> adds the
  writes of root's commands. They are interpreted for the authority root holds (the
  policy, the self-description and the verbs), for the contents of the proposals, and for their number.
\<close>

section \<open>Predicates of the brain\<close>

definition on_brain :: "(brain \<Rightarrow> bool) \<Rightarrow> 's \<times> brain \<Rightarrow> bool" where
  "on_brain I = (\<lambda>(s, b). I b)"

lemma on_brain_pair [simp]: "on_brain I (s, b) = I b"
  by (simp add: on_brain_def)

named_theorems brain_intros

lemma keeps_on_lifted [brain_intros]: "keeps (on_brain I) (lifted m)"
  by (auto simp: keeps_def lifted_def on_brain_def split: prod.splits)

lemma keeps_on_assign: "(\<And>b. I b \<Longrightarrow> I (f b)) \<Longrightarrow> keeps (on_brain I) (assign f)"
  by (auto simp: keeps_def assign_def writes_def on_brain_def)

lemma keeps_on_local [brain_intros]: "(\<And>b. I b \<Longrightarrow> keeps (on_brain I) (f b)) \<Longrightarrow> keeps (on_brain I) (bindE local f)"
  by (auto simp: keeps_def bindE_def local_def reads_def on_brain_def)

lemma keeps_on_pending [brain_intros]:
  "(\<And>b p. I b \<Longrightarrow> br_pending b = Some p \<Longrightarrow> keeps (on_brain I) (f p)) \<Longrightarrow> keeps (on_brain I) (with_pending f)"
  unfolding with_pending_def by (rule keeps_on_local) (auto intro: keeps_raise split: option.splits)

lemma keeps_on_in_brain: "keeps I m \<Longrightarrow> keeps (on_brain I) (in_brain m)"
  unfolding on_brain_def by (rule keeps_in_brain)

lemma keeps_map_in: "(\<And>x. x \<in> set xs \<Longrightarrow> keeps I (f x)) \<Longrightarrow> keeps I (map_each xs f)"
  by (induction xs) (simp_all add: keeps_ret keeps_bindE)

lemma keeps_bind_of:
  assumes "keeps I m" and "returns P m" and "\<And>a. P a \<Longrightarrow> keeps I (f a)"
  shows "keeps I (bindE m f)"
  using assms unfolding keeps_def returns_def bindE_def by (fastforce split: prod.splits sum.splits)

lemma returns_lifted: "returns P m \<Longrightarrow> returns P (lifted m)"
  by (auto simp: returns_def lifted_def split: prod.splits)

lemma returns_option: "returns P m \<Longrightarrow> (\<And>x. returns P (f x)) \<Longrightarrow> returns P (case v of None \<Rightarrow> m | Some x \<Rightarrow> f x)"
  by (cases v) simp_all

section \<open>From one state of the brain\<close>

definition ends_in :: "(brain \<Rightarrow> bool) \<Rightarrow> ('s, 'a) membrane \<Rightarrow> brain \<Rightarrow> bool" where
  "ends_in I m b \<longleftrightarrow> (\<forall>s. on_brain I (snd (m (s, b))))"

lemma ends_keeps: "keeps (on_brain I) m \<Longrightarrow> I b \<Longrightarrow> ends_in I m b"
  by (simp add: ends_in_def keeps_def)

lemma ends_local [simp]: "ends_in I (bindE local f) b = ends_in I (f b) b"
  by (simp add: ends_in_def bindE_def local_def reads_def)

lemma ends_pending [simp]: "ends_in I (with_pending f) b = (case br_pending b of None \<Rightarrow> I b | Some p \<Rightarrow> ends_in I (f p) b)"
  by (simp add: with_pending_def split: option.split) (simp add: ends_in_def raise_def)

lemma ends_assign [simp]: "ends_in I (seqE (assign g) n) b = ends_in I n (g b)"
  by (simp add: ends_in_def seqE_def bindE_def assign_def writes_def)

lemma ends_ret [simp]: "ends_in I (ret a) b = I b" and ends_raise [simp]: "ends_in I (raise e) b = I b"
  by (simp_all add: ends_in_def ret_def raise_def)

lemma ends_from_result [simp]: "ends_in I (bindE (from_result r) f) b = (case r of Inl e \<Rightarrow> I b | Inr a \<Rightarrow> ends_in I (f a) b)"
  by (cases r) (simp_all add: ends_in_def from_result_def bindE_def raise_def ret_def)

lemma ends_lifted: "(\<And>a. ends_in I (f a) b) \<Longrightarrow> I b \<Longrightarrow> ends_in I (bindE (lifted m) f) b"
  by (auto simp: ends_in_def bindE_def lifted_def split: prod.splits sum.splits)

lemma ends_bind: "ends_in I m b \<Longrightarrow> (\<And>a. keeps (on_brain I) (f a)) \<Longrightarrow> ends_in I (bindE m f) b"
  unfolding ends_in_def
proof
  fix s
  assume "\<forall>s. on_brain I (snd (m (s, b)))" and f: "\<And>a. keeps (on_brain I) (f a)"
  then have "on_brain I (snd (m (s, b)))" by blast
  then show "on_brain I (snd (bindE m f (s, b)))"
    using f by (cases "m (s, b)") (auto simp: bindE_def keeps_def split: sum.split)
qed

lemma ends_bind_via:
  assumes "keeps (on_brain J) m" and "J b" and "\<And>a b'. J b' \<Longrightarrow> ends_in I (f a) b'" and "\<And>b'. J b' \<Longrightarrow> I b'"
  shows "ends_in I (bindE m f) b"
  unfolding ends_in_def
proof
  fix s
  have "on_brain J (snd (m (s, b)))" using assms(1,2) by (simp add: keeps_def)
  then show "on_brain I (snd (bindE m f (s, b)))"
    using assms(3,4) by (cases "m (s, b)") (auto simp: bindE_def ends_in_def split: sum.split)
qed

lemma keeps_from: "(\<And>b. I b \<Longrightarrow> ends_in I m b) \<Longrightarrow> keeps (on_brain I) m"
  by (auto simp: keeps_def ends_in_def)

lemma keeps_on_conj: "keeps (on_brain I) m \<Longrightarrow> keeps (on_brain J) m \<Longrightarrow> keeps (on_brain (\<lambda>b. I b \<and> J b)) m"
  by (auto simp: keeps_def on_brain_def case_prod_unfold)

lemma ends_seq: "ends_in I m b \<Longrightarrow> keeps (on_brain I) n \<Longrightarrow> ends_in I (seqE m n) b"
  unfolding seqE_def by (rule ends_bind)

section \<open>A trial keeps its id\<close>

definition same_trial :: "trial \<Rightarrow> trial \<Rightarrow> bool" where
  "same_trial t t' \<longleftrightarrow> tr_id t' = tr_id t"

lemma one_run_id: "returns (\<lambda>(t', d). same_trial t t') (one_run A t r ps left)"
  unfolding one_run_def Let_def same_trial_def
  by (auto intro!: returns_ret returns_raise returns_bind split: sum.splits state_kind.splits option.splits fork_result.splits)

lemma run_each_id: "returns (\<lambda>(t', d). same_trial t t') (run_each A r until pss t)"
proof (induction pss arbitrary: t)
  case (Cons ps pss)
  have rest: "returns (\<lambda>(t2, d). same_trial t t2) (run_each A r until pss t1)" if "same_trial t t1" for t1
    using Cons.IH [of t1] that by (auto simp: returns_def same_trial_def)
  show ?case
    unfolding run_each.simps
  proof (rule returns_bind)
    fix now
    have tail: "returns (\<lambda>(t2, d). same_trial t t2)
        (bindE (run_each A r until pss t1) (\<lambda>(t2, ds, stopped). ret (t2, d # ds, stopped)))" if "same_trial t t1" for t1 d
      by (rule returns_bind_of [OF rest [OF that]]) (auto intro: returns_ret)
    have "returns (\<lambda>(t2, d). same_trial t t2)
        (bindE (one_run A t r ps (until - now)) (\<lambda>(t', d).
          if get d ''status'' = JStr ''error'' then ret (t', [d], True)
          else bindE (run_each A r until pss t') (\<lambda>(t2, ds, stopped). ret (t2, d # ds, stopped))))"
      by (rule returns_bind_of [OF one_run_id]) (auto intro: returns_ret tail)
    then show "returns (\<lambda>(t2, d). same_trial t t2)
        (if until - now < run_margin then ret (t, [], False)
         else bindE (one_run A t r ps (until - now)) (\<lambda>(t', d).
          if get d ''status'' = JStr ''error'' then ret (t', [d], True)
          else bindE (run_each A r until pss t') (\<lambda>(t2, ds, stopped). ret (t2, d # ds, stopped))))"
      by (auto intro: returns_ret simp: same_trial_def)
  qed
qed (simp add: returns_ret same_trial_def)

lemma sweep_trial_id: "returns (same_trial t) (sweep_trial A t)"
  unfolding sweep_trial_def same_trial_def
  by (auto intro!: returns_ret returns_bind split: sum.split option.split)

lemma run_trial_id: "returns (\<lambda>(t', d). same_trial t t') (run_trial A t r left)"
proof -
  have sweep: "returns (same_trial t) (if c then ret (t1\<lparr>tr_results := ds\<rparr>) else sweep_trial A (t1\<lparr>tr_results := ds\<rparr>))"
    if "same_trial t t1" for c t1 ds
    using that sweep_trial_id [of "t1\<lparr>tr_results := ds\<rparr>" A] by (auto simp: returns_def same_trial_def ret_def)
  have tail: "returns (\<lambda>(t', d). same_trial t t')
      (bindE (if c then ret (t1\<lparr>tr_results := ds\<rparr>) else sweep_trial A (t1\<lparr>tr_results := ds\<rparr>)) (\<lambda>t3. ret (t3, x)))"
    if "same_trial t t1" for c t1 ds x
    by (rule returns_bind_of [OF sweep [OF that]]) (simp add: returns_ret)
  show ?thesis
    unfolding run_trial_def Let_def
  proof (rule returns_bind, rule returns_bind_of [OF run_each_id], clarify)
    fix t1 ds stopped
    assume t1: "same_trial t t1"
    show "returns (\<lambda>(t', d). same_trial t t')
        (if length ds < length (tr_runs t) \<and> \<not> stopped
         then ret (t1\<lparr>tr_results := ds\<rparr>, [(''runs'', docs ds), (''status'', JStr ''out of time''), (''ran'', JInt (int (length ds))),
                     (''of'', JInt (int (length (tr_runs t))))])
         else bindE (if stopped then ret (t1\<lparr>tr_results := ds\<rparr>) else sweep_trial A (t1\<lparr>tr_results := ds\<rparr>)) (\<lambda>t3.
              ret (t3, [(''runs'', docs ds), (''status'', JStr ''done'')])))"
    proof (cases "length ds < length (tr_runs t) \<and> \<not> stopped")
      case True
      then show ?thesis using t1 by (simp add: returns_ret same_trial_def)
    next
      case False
      show ?thesis by (simp only: False if_False) (rule tail [OF t1])
    qed
  qed
qed

lemma keeps_list: "(v = [] \<Longrightarrow> keeps I m) \<Longrightarrow> (\<And>x xs. v = x # xs \<Longrightarrow> keeps I (f x xs)) \<Longrightarrow> keeps I (case v of [] \<Rightarrow> m | x # xs \<Rightarrow> f x xs)"
  by (cases v) simp_all

lemma keeps_cond: "(c \<Longrightarrow> keeps I m) \<Longrightarrow> (\<not> c \<Longrightarrow> keeps I n) \<Longrightarrow> keeps I (if c then m else n)"
  by simp

lemma keeps_answered: "keeps I m \<Longrightarrow> keeps I (answered m)"
  unfolding answered_def by (intro keeps_bindE keeps_ret)

section \<open>The writes of a turn\<close>

text \<open>Everything a turn may write without asking.\<close>

definition substance :: "brain \<Rightarrow> brain" where
  "substance b =
     b\<lparr>br_turn := 0, br_inbox := [], br_window := [], br_pending := None, br_queue := [], br_principals := {}\<rparr>"

definition content :: "proposal \<Rightarrow> proposal" where
  "content p = p\<lparr>pp_status := [], pp_recipe_id := None, pp_log := None\<rparr>"

definition add_proposal :: "proposal \<Rightarrow> brain \<Rightarrow> brain" where
  "add_proposal p b = b\<lparr>br_next_proposal := Suc (br_next_proposal b), br_proposals := dict_set (pp_id p) p (br_proposals b)\<rparr>"

definition adds :: "tool_kind \<Rightarrow> bool" where
  "adds k \<longleftrightarrow> k \<in> {TryTool, ProposeTool}"

text \<open>What running a call, polling and the plain commands write.\<close>

locale call_writes =
  fixes I :: "brain \<Rightarrow> bool" and may_add :: bool
  assumes inbox: "I b \<Longrightarrow> I (br_inbox_update f b)"
    and in_flight: "I b \<Longrightarrow> (\<And>p. pn_calls (g p) = pn_calls p) \<Longrightarrow> I (set_pending g b)"
    and entry: "I b0 \<Longrightarrow> I b \<Longrightarrow> (n, e) \<in> set (br_catalog b0) \<Longrightarrow> ce_status e = VBuilding \<Longrightarrow> st \<in> {VReady, VFailed} \<Longrightarrow>
                I (set_entry_status n st b)"
    and status: "I b \<Longrightarrow> (\<And>p. content (h p) = content p) \<Longrightarrow> I (set_proposal i h b)"
    and retried: "I b0 \<Longrightarrow> I b \<Longrightarrow> t \<in> snd ` set (br_trials b0) \<Longrightarrow> tr_id t' = tr_id t \<Longrightarrow> I (put_trial t' b)"
    and tried: "may_add \<Longrightarrow> I b \<Longrightarrow> I (put_trial t (b\<lparr>br_next_trial := k\<rparr>))"
    and proposed: "may_add \<Longrightarrow> I b \<Longrightarrow> parse_proposal d (proposal_name (br_next_proposal b)) = Inr q \<Longrightarrow>
                   I (add_proposal (born_pending q) b)"
begin

lemma put_tried: "may_add \<Longrightarrow> I b \<Longrightarrow> I (put_trial t b)"
  using tried [of b t "br_next_trial b"] by simp

lemma keeps_pending_write [brain_intros]: "(\<And>p. pn_calls (g p) = pn_calls p) \<Longrightarrow> keeps (on_brain I) (assign (set_pending g))"
  by (rule keeps_on_assign) (rule in_flight)

lemma keeps_inbox [brain_intros]: "keeps (on_brain I) (assign (to_inbox items))"
  by (rule keeps_on_assign) (simp add: to_inbox_def inbox)

lemma keeps_told: "I b \<Longrightarrow> I (tell t b)"
  unfolding tell_def by (rule inbox)

lemma keeps_status [brain_intros]: "(\<And>p. content (f p) = content p) \<Longrightarrow> keeps (on_brain I) (assign (set_proposal i f))"
  by (rule keeps_on_assign) (rule status)

lemma keeps_poll_build:
  assumes "I b0" and "ne \<in> set (br_catalog b0)"
  shows "keeps (on_brain I) (poll_build A ne)"
proof -
  obtain n e where ne: "ne = (n, e)" by (cases ne)
  have w: "keeps (on_brain I) (assign (set_entry_status n st))" if "ce_status e = VBuilding" "st \<in> {VReady, VFailed}" for st
    by (rule keeps_on_assign) (rule entry [OF assms(1) _ _ that], use assms(2) ne in simp_all)
  show ?thesis
    unfolding poll_build_def ne Let_def
    by (auto intro!: keeps_intros w keeps_status keeps_on_lifted simp: content_def split: catalog_status.split option.split)
qed

lemma keeps_poll_builds [brain_intros]: "keeps (on_brain I) (poll_builds A)"
  unfolding poll_builds_def by (auto intro!: keeps_on_local keeps_intros keeps_map_in keeps_poll_build)

lemma keeps_poll_trial:
  assumes "I b0" and "nt \<in> set (br_trials b0)"
  shows "keeps (on_brain I) (poll_trial A left nt)"
proof -
  have w: "keeps (on_brain I) (assign (put_trial t'))" if "tr_id t' = tr_id (snd nt)" for t'
    by (rule keeps_on_assign) (rule retried [OF assms(1) _ _ that], use assms(2) in auto)
  show ?thesis
    unfolding poll_trial_def Let_def
    by (auto intro!: keeps_intros w keeps_on_lifted keeps_bind_of [OF keeps_on_lifted returns_lifted [OF run_trial_id]]
          keeps_bind_of [OF keeps_on_lifted returns_lifted [OF sweep_trial_id]] simp: same_trial_def
        split: trial_status.split option.split)
qed

lemma keeps_poll_all [brain_intros]: "keeps (on_brain I) (poll_all A deadline)"
proof -
  have "keeps (on_brain I) (poll_trials A left)" for left
    unfolding poll_trials_def by (auto intro!: keeps_on_local keeps_intros keeps_map_in keeps_poll_trial)
  then show ?thesis
    unfolding poll_all_def by (auto intro!: keeps_intros brain_intros)
qed

lemma keeps_put_tried: "may_add \<Longrightarrow> keeps (on_brain I) (assign (put_trial t))"
  by (rule keeps_on_assign) (rule put_tried)

lemma keeps_try_verb: "may_add \<Longrightarrow> keeps (on_brain I) (try_verb A d ps rs until)"
proof -
  assume add: may_add
  have fresh: "keeps (on_brain I) (assign (\<lambda>b. put_trial t (b\<lparr>br_next_trial := Suc (br_next_trial b)\<rparr>)))" for t
    by (rule keeps_on_assign) (rule tried [OF add])
  have "keeps (on_brain I) (run_built A t r info until)" for t r info
    unfolding run_built_def Let_def
    by (auto intro!: keeps_intros keeps_put_tried [OF add] keeps_on_lifted)
  then show ?thesis
    unfolding try_verb_def Let_def
    by (auto intro!: keeps_intros keeps_on_local fresh keeps_put_tried [OF add] keeps_on_lifted split: sum.split)
qed

lemma keeps_propose: "may_add \<Longrightarrow> keeps I (propose d)"
  using proposed
  by (intro keepsI_wp)
     (auto simp: propose_def wp_simps Let_def born_pending_def add_proposal_def split: sum.split option.split)

lemma keeps_handle: "(adds k \<Longrightarrow> may_add) \<Longrightarrow> keeps (on_brain I) (handle A S deadline ts k inp)"
  unfolding handle_def adds_def
  by (cases k)
     (auto simp: do_remember_def do_effort_def do_try_def do_propose_def do_verb_def Let_def
       intro!: keeps_intros brain_intros keeps_try_verb keeps_on_in_brain keeps_propose split: option.split sum.split)

lemma found_tool: "find_tool ts name = Some t \<Longrightarrow> t \<in> set ts"
  by (auto simp: find_tool_def find_Some_iff)

lemma keeps_run_call:
  assumes "\<And>t. t \<in> set ts \<Longrightarrow> adds (tl_kind t) \<Longrightarrow> may_add"
  shows "keeps (on_brain I) (run_call A S deadline ts c)"
  unfolding run_call_def
  by (auto intro!: keeps_intros brain_intros keeps_handle split: option.split dest!: found_tool intro: assms)

lemma keeps_post [brain_intros]: "keeps (on_brain I) (post_or_text A S ts)"
  unfolding post_or_text_def post_request_def Let_def
  by (auto intro!: keeps_intros brain_intros split: sum.split)

lemma keeps_get_proposal: "keeps I (get_proposal i)"
  unfolding get_proposal_def by (auto intro!: keeps_intros split: option.split)

lemma keeps_reject: "keeps I (reject i reason)"
proof (rule keepsI_wp)
  fix b assume b: "I b"
  have "I (tell t (set_proposal i (pp_status_update (\<lambda>_. st)) b))" for t i st
    by (intro keeps_told status b) (simp add: content_def)
  then show "wp (reject i reason) (\<lambda>_. I) (\<lambda>_. I) b"
    using b by (auto simp: reject_def get_proposal_def wp_simps split: option.split)
qed

lemma keeps_list_state: "keeps (on_brain I) (list_state A)"
  unfolding list_state_def by (intro brain_intros keeps_intros)

lemma keeps_plain_command:
  assumes "hd argv \<notin> {''approve'', ''disable'', ''revert'', ''provide''}"
  shows "keeps (on_brain I) (root_command A argv)"
  unfolding root_command_def
  by (intro keeps_list keeps_cond keeps_bindE keeps_from_result keeps_ret keeps_list_state keeps_answered keeps_on_in_brain keeps_reject)
     (use assms in simp_all)

end

text \<open>The turn in flight is offered a tool that adds a trial or a proposal.\<close>

definition tools_add :: "brain \<Rightarrow> bool" where
  "tools_add b \<longleftrightarrow> (\<exists>p. br_pending b = Some p \<and> (\<exists>t\<in>set (build_tools (pn_principal p) b). adds (tl_kind t)))"

lemma tools_pending [simp]: "build_tools w (set_pending f b) = build_tools w b"
  by (simp add: build_tools_def set_pending_def)

text \<open>What a call leaves alone: the calls made, the queue and the window.\<close>

definition course where
  "course b = (map_option pn_calls (br_pending b), br_queue b, br_window b)"

lemma course_books [simp]:
  "course (br_inbox_update f b) = course b" "(\<And>p. pn_calls (g p) = pn_calls p) \<Longrightarrow> course (set_pending g b) = course b"
  "course (set_entry_status n st b) = course b" "course (set_proposal i h b) = course b" "course (put_trial t b) = course b"
  "course (b\<lparr>br_next_trial := k\<rparr>) = course b" "course (add_proposal q b) = course b"
  by (simp_all add: course_def set_pending_def set_entry_status_def set_proposal_def put_trial_def add_proposal_def option.map_comp comp_def)

interpretation course: call_writes "\<lambda>b. course b = f" True for f
  by unfold_locales simp_all

lemma no_calls_yet [simp]: "pn_calls (new_pending b q drained input now) = []"
  by (simp add: new_pending_def)

lemma push_window_bound [simp]: "length (push_window e w) \<le> window_size"
  by (simp add: push_window_def window_size_def)

definition tidy :: "brain \<Rightarrow> bool" where
  "tidy b \<longleftrightarrow> length (br_window b) \<le> window_size \<and> (\<forall>p. br_pending b = Some p \<longrightarrow> length (pn_calls p) \<le> cap)"

locale turn_writes = call_writes +
  assumes books: "substance b' = substance b \<Longrightarrow> (tidy b \<Longrightarrow> tidy b') \<Longrightarrow> I b \<Longrightarrow> I b'"
begin

lemma keeps_books [brain_intros]:
  "(\<And>b. substance (f b) = substance b) \<Longrightarrow> (\<And>b. tidy b \<Longrightarrow> tidy (f b)) \<Longrightarrow> keeps (on_brain I) (assign f)"
  by (rule keeps_on_assign) (rule books)

lemma noted:
  assumes "I b" and "course b = (Some cs, qs, w)" and "length cs < cap"
  shows "I (note_call c result b)"
  by (rule books [OF _ _ assms(1)]) (use assms(2,3) in \<open>auto simp: note_call_def set_pending_def substance_def tidy_def course_def\<close>)

lemma keeps_run_calls:
  assumes "\<And>t. t \<in> set ts \<Longrightarrow> adds (tl_kind t) \<Longrightarrow> may_add"
  shows "keeps (on_brain I) (run_calls A S deadline ts cs)"
proof (induction cs)
  case (Cons c cs)
  have "ends_in I (run_calls A S deadline ts (c # cs)) b" if "I b" for b
  proof (cases "br_pending b")
    case (Some p)
    let ?J = "\<lambda>b'. I b' \<and> course b' = course b"
    have call: "keeps (on_brain ?J) (run_call A S deadline ts c)"
      by (rule keeps_on_conj) (rule keeps_run_call course.keeps_run_call, use assms in simp)+
    have rest: "ends_in I (seqE (assign (note_call c result))
        (bindE (run_calls A S deadline ts cs) (\<lambda>(rs, capped). ret (tool_result A c result # rs, capped)))) b'"
      if "?J b'" and "length (pn_calls p) < cap" for b' result
      using that Some
      by (auto intro!: ends_keeps keeps_intros Cons noted [of b' "pn_calls p" "br_queue b" "br_window b"] simp: course_def)
    show ?thesis
      by (auto simp: Some that intro!: ends_bind_via [OF call] rest)
  qed (simp add: that)
  then show ?case by (rule keeps_from)
qed (simp add: keeps_ret)

lemma keeps_close_pending [brain_intros]: "keeps (on_brain I) (close_pending A text stopped)"
  unfolding close_pending_def Let_def
  by (auto intro!: keeps_intros brain_intros keeps_on_in_brain keeps_get_proposal simp: give_back_def tell_def substance_def tidy_def)

lemma keeps_start_posted [brain_intros]: "keeps (on_brain I) (start_posted A S deadline q)"
  unfolding start_posted_def Let_def
  by (auto intro!: keeps_intros brain_intros simp: open_turn_def substance_def tidy_def split: option.split)

lemma keeps_next_turns: "keeps (on_brain I) (next_turns A S deadline qs)"
  by (induction qs) (auto intro!: keeps_intros brain_intros simp: substance_def tidy_def split: sum.split)

lemma keeps_close_turn [brain_intros]: "keeps (on_brain I) (close_turn A S deadline text stopped)"
  unfolding close_turn_def by (auto intro!: keeps_intros brain_intros keeps_next_turns)

lemma keeps_start_turn [brain_intros]: "keeps (on_brain I) (start_turn A S deadline q)"
  unfolding start_turn_def by (auto intro!: keeps_intros brain_intros split: sum.split)

lemma keeps_say: "keeps (on_brain I) (say A S deadline b64 door)"
  unfolding say_def say_as_def Let_def
  by (auto intro!: keeps_intros brain_intros simp: enqueue_def substance_def tidy_def split: option.split)

lemma go_on_ends:
  assumes "I b" and "tools_add b \<Longrightarrow> may_add"
  shows "ends_in I (go_on A S deadline c) b"
proof (cases "br_pending b")
  case (Some p)
  let ?b = "set_pending (echo c) b"
  have b': "I ?b" by (rule in_flight [OF assms(1)]) (simp add: echo_def)
  have calls: "keeps (on_brain I) (run_calls A S deadline (build_tools (pn_principal p) b) cs)" for cs
    by (rule keeps_run_calls) (use Some assms(2) in \<open>auto simp: tools_add_def\<close>)
  show ?thesis
    unfolding go_on_def
    by (simp add: Some Let_def)
       (auto intro!: ends_bind ends_keeps [OF calls b'] keeps_intros brain_intros simp: answer_def split: option.split)
qed (simp add: go_on_def assms(1))

lemma read_message_ends:
  assumes "I b" and "tools_add b \<Longrightarrow> may_add"
  shows "ends_in I (read_message A S deadline message) b"
proof -
  have "ends_in I (go_on A S deadline c) (set_pending (add_completion c) b)" for c
  proof (rule go_on_ends)
    show "I (set_pending (add_completion c) b)"
      by (rule in_flight [OF assms(1)]) (simp add: add_completion_def)
    assume "tools_add (set_pending (add_completion c) b)"
    then have "tools_add b"
      unfolding tools_add_def tools_pending by (auto simp: set_pending_def add_completion_def)
    then show may_add by (rule assms(2))
  qed
  moreover have "I (set_pending (add_completion c) b)" for c
    by (rule in_flight [OF assms(1)]) (simp add: add_completion_def)
  ultimately show ?thesis
    using assms(1) by (auto simp: read_message_def split: sum.split option.split)
qed

lemma finish_ends:
  assumes "I b" and "tools_add b \<Longrightarrow> may_add"
  shows "ends_in I (finish A S deadline job) b"
proof -
  have "ends_in I (continue_turn A S deadline message) b" for message
    unfolding continue_turn_def take_step_def
    by (rule ends_bind [OF read_message_ends [OF assms]]) (auto intro!: keeps_intros brain_intros split: turn_step.split)
  then show ?thesis
    unfolding finish_def Let_def
    by (auto intro!: ends_keeps [OF keeps_close_turn assms(1)] simp: assms(1) split: option.split json.split)
qed

lemma resume_ends:
  assumes "I b" and "tools_add b \<Longrightarrow> may_add"
  shows "ends_in I (resume A S deadline job) b"
  unfolding resume_def job_gone_def
  by (auto intro!: ends_lifted ends_bind [OF finish_ends [OF assms]] ends_keeps [OF keeps_close_turn assms(1)] keeps_intros
      simp: assms(1) split: option.split sum.split)

lemma settle_ends:
  assumes "I b" and "tools_add b \<Longrightarrow> may_add"
  shows "ends_in I (settle A S deadline) b"
  unfolding settle_def job_gone_def
  by (auto intro!: ends_lifted finish_ends [OF assms] ends_keeps [OF keeps_close_turn assms(1)]
      simp: assms(1) split: option.split sum.split)

text \<open>A command ends in the predicate when what follows settling keeps it; an unsaved one leaves the disk.\<close>

lemma run_ends:
  assumes "I b" and "tools_add b \<Longrightarrow> may_add" and "\<And>x deadline. argv = ''root'' # x \<Longrightarrow> keeps (on_brain I) (root A S deadline x)"
  shows "on_brain I (snd (run_membrane A S argv (s, b)))"
proof -
  have "ends_in I (command A S argv) b" if valid: "valid_argv argv"
  proof -
    obtain c d rest where argv: "argv = c # d # rest" and "(rest = [] \<and> c \<in> {''say'', ''resume''}) \<or> c = ''root''"
      using valid by (auto simp: valid_argv_def split: list.splits)
    then consider "argv = [''say'', d]" | "argv = [''resume'', d]" | "argv = ''root'' # d # rest" by auto
    then show ?thesis
    proof cases
      case 1
      then show ?thesis
        unfolding command_def Let_def
        by (intro ends_lifted) (auto intro!: ends_seq settle_ends keeps_say keeps_intros simp: assms(1,2))
    next
      case 2
      then show ?thesis
        unfolding command_def Let_def
        by (intro ends_lifted) (auto intro!: ends_bind resume_ends keeps_intros simp: assms(1,2))
    next
      case 3
      have root: "rest = r \<Longrightarrow> keeps (on_brain I) (root A S deadline (d # r))" for deadline r
        by (rule assms(3)) (simp add: 3)
      show ?thesis
        unfolding command_def Let_def 3
        by (intro ends_lifted) (auto intro!: ends_seq settle_ends root simp: assms(1,2) split: list.split)
    qed
  qed
  then show ?thesis
    using assms(1)
    by (auto simp: run_membrane_def saved_def ends_in_def ret_def split: prod.splits sum.splits) (metis on_brain_pair snd_conv)+
qed

lemma keeps_root:
  assumes "keeps (on_brain I) (root_command A argv)"
  shows "keeps (on_brain I) (root A S deadline argv)"
proof -
  have other: "keeps (on_brain I) (seqE (poll_all A deadline) (catchE (root_command A argv)
      (\<lambda>e. if exc_name e = ''KeyError'' then ret (''no proposal '' @ exc_str e @ newline, 1) else raise e)))"
    by (intro keeps_seqE keeps_poll_all keeps_catchE assms keeps_if keeps_ret keeps_raise)
  have said: "keeps (on_brain I) (bindE (say A S deadline b64 ''api'') (\<lambda>out. ret (out, 0)))" for b64
    by (intro keeps_bindE keeps_say keeps_ret)
  show ?thesis
    unfolding root_def by (intro keeps_list keeps_cond other said)
qed

end

text \<open>What the commands of root decide over.\<close>

definition undecided :: "brain \<Rightarrow> brain" where
  "undecided b =
     b\<lparr>br_catalog := [], br_policy := \<lparr>po_principals = [], po_hooks = [], po_door = Closed\<rparr>, br_self_description := [],
       br_previous_policy := None, br_previous_prompt := None, br_applied_policy := None, br_applied_prompt := None\<rparr>"

locale root_writes = call_writes +
  assumes decided: "undecided b' = undecided b \<Longrightarrow> I b \<Longrightarrow> I b'"
begin

lemma keeps_set_proposal: "(\<And>p. content (f p) = content p) \<Longrightarrow> keeps I (writes (set_proposal i f))"
  by (rule keeps_writes) (rule status)

lemma keeps_decided: "(\<And>b. undecided (f b) = undecided b) \<Longrightarrow> keeps I (writes f)"
  by (rule keeps_writes) (rule decided)

lemma keeps_tell: "keeps I (tell_the_model p kind t)"
proof -
  have "I (set_proposal i (pp_log_update (\<lambda>_. x)) (tell t b))" if "I b" for i x t b
    by (rule status [OF keeps_told [OF that]]) (simp add: content_def)
  then show ?thesis
    unfolding tell_the_model_def by (intro keeps_intros keeps_writes)
qed

lemma keeps_supersede: "keeps I (writes (supersede p))"
  by (rule keeps_writes) (auto simp: supersede_def content_def intro: status split: option.split)

lemma keeps_root_applied: "keeps I (applied p)"
  unfolding applied_def by (intro keeps_intros keeps_set_proposal keeps_supersede) (simp add: content_def)

lemma keeps_verb_refused: "keeps I (verb_refused p v detail)"
  unfolding verb_refused_def
  by (intro keeps_intros keeps_set_proposal keeps_decided keeps_tell) (auto simp: content_def undecided_def put_entry_def)

lemma keeps_verb_accepted: "keeps I (verb_accepted p v info)"
  unfolding verb_accepted_def Let_def
  by (intro keeps_intros keeps_set_proposal keeps_decided keeps_supersede) (auto simp: content_def undecided_def put_entry_def)

lemma keeps_approve: "keeps (on_brain I) (approve A i)"
proof -
  have "keeps (on_brain I) (assign (apply_policy p new))" "keeps (on_brain I) (assign (apply_prompt p t))" for p new t
    by (auto intro!: keeps_on_assign elim!: decided [rotated] simp: undecided_def apply_policy_def apply_prompt_def)
  then show ?thesis
    unfolding approve_def
    by (auto intro!: keeps_intros keeps_on_local keeps_on_lifted keeps_on_in_brain keeps_get_proposal keeps_tell keeps_root_applied
          keeps_verb_refused keeps_verb_accepted
        split: option.split sum.split proposal_kind.split)
qed

lemma keeps_changes: "keeps I (disable v)" "keeps I (revert i)" "keeps I (provide v n)"
proof -
  have out: "I (set_proposal i (pp_status_update (\<lambda>_. st)) (set_entry_status n VDisabled b))" if "I b" for i st n b
    by (rule status [OF decided [OF _ that]]) (simp_all add: set_entry_status_def undecided_def content_def)
  show "keeps I (disable v)"
    unfolding disable_def by (auto intro!: keeps_intros keeps_writes out split: option.split)
  have reverted: "keeps I (reverted p)" for p
    unfolding reverted_def by (intro keeps_intros keeps_set_proposal) (simp add: content_def)
  show "keeps I (revert i)"
    unfolding revert_def
    by (auto intro!: keeps_intros reverted keeps_get_proposal keeps_decided simp: undecided_def split: proposal_kind.split option.split)
  have put: "I (tell t (b\<lparr>br_catalog := c\<rparr>))" if "I b" for b t c
    by (rule keeps_told [OF decided [OF _ that]]) (simp add: undecided_def)
  show "keeps I (provide v n)"
    unfolding provide_def Let_def by (auto intro!: keeps_intros keeps_writes put split: option.split)
qed

lemma keeps_root_command: "keeps (on_brain I) (root_command A argv)"
  unfolding root_command_def
  by (intro keeps_list keeps_cond keeps_bindE keeps_from_result keeps_ret keeps_list_state keeps_answered keeps_on_in_brain keeps_reject
        keeps_approve keeps_changes)

end

locale record_writes = turn_writes I may_add + root_writes I may_add for I may_add
begin

lemma run_records:
  assumes "I b" and "tools_add b \<Longrightarrow> may_add"
  shows "on_brain I (snd (run_membrane A S argv (s, b)))"
  by (rule run_ends [OF assms]) (auto intro: keeps_root keeps_root_command)

end

section \<open>What root holds\<close>

definition verb_state :: "string \<times> catalog_entry \<Rightarrow> string \<times> verb \<times> string option \<times> string \<times> string list \<times> bool" where
  "verb_state ne = (case ne of (n, e) \<Rightarrow> (n, ce_verb e, ce_recipe_id e, ce_proposal_id e, ce_provided e, ce_status e = VDisabled))"

definition authority where
  "authority b =
     (br_policy b, br_self_description b, br_previous_policy b, br_previous_prompt b, br_applied_policy b, br_applied_prompt b,
      map verb_state (br_catalog b))"

definition names_once :: "brain \<Rightarrow> bool" where
  "names_once b \<longleftrightarrow> distinct (map fst (br_catalog b))"

definition held where
  "held a b \<longleftrightarrow> names_once b \<and> authority b = a"

lemma in_flight_not_disabled:
  assumes "map verb_state c0 = map verb_state c" and "distinct (map fst c)" and "(n, e) \<in> set c0" and "ce_status e = VBuilding"
    and "st \<noteq> VDisabled"
  shows "map verb_state (dict_change n (ce_status_update (\<lambda>_. st)) c) = map verb_state c"
proof -
  have "verb_state (n, e) \<in> set (map verb_state c)" using assms(3) by (auto simp flip: assms(1))
  then obtain e' where e': "(n, e') \<in> set c" "ce_status e' \<noteq> VDisabled"
    using assms(4) by (auto simp: verb_state_def)
  have "verb_state (x, if x = n then ce_status_update (\<lambda>_. st) y else y) = verb_state (x, y)" if "(x, y) \<in> set c" for x y
  proof (cases "x = n")
    case True
    then have "y = e'" using that e'(1) assms(2) by (metis eq_key_imp_eq_value)
    then show ?thesis using True e'(2) assms(5) by (simp add: verb_state_def)
  qed simp
  then show ?thesis by (auto simp: dict_change_def)
qed

lemma substance_fields:
  assumes "substance b' = substance b"
  shows "br_catalog b' = br_catalog b" "br_proposals b' = br_proposals b" "br_trials b' = br_trials b" "br_policy b' = br_policy b"
    "br_next_proposal b' = br_next_proposal b" "br_next_trial b' = br_next_trial b" "br_previous_policy b' = br_previous_policy b"
    "authority b' = authority b"
  using assms by (cases b; cases b'; simp add: substance_def authority_def)+

interpretation root_holds: turn_writes "held a" True for a
proof (unfold_locales, goal_cases)
  case (3 b0 b n e st)
  then have "map verb_state (dict_change n (ce_status_update (\<lambda>_. st)) (br_catalog b)) = map verb_state (br_catalog b)"
    by (intro in_flight_not_disabled [of "br_catalog b0"]) (auto simp: held_def names_once_def authority_def)
  then show ?case using 3 by (simp add: held_def names_once_def authority_def set_entry_status_def)
next
  case (8 b' b)
  then show ?case by (simp add: held_def names_once_def substance_fields [OF 8(1)])
qed (simp_all add: held_def names_once_def authority_def set_proposal_def put_trial_def add_proposal_def set_pending_def)

definition decides :: "string list \<Rightarrow> bool" where
  "decides argv \<longleftrightarrow> take 1 argv = [''root''] \<and> hd (tl argv) \<in> {''approve'', ''disable'', ''revert'', ''provide''}"

text \<open>C22: only root's \<open>approve\<close>, \<open>disable\<close>, \<open>revert\<close> and \<open>provide\<close> change what root holds: whatever is said through either
  door, whatever the model answers and calls, and whatever the builds and trials that are polled report, every other
  command leaves the policy, the self-description, what either can be reverted to, and the catalog's verbs, recipes, provided
  requirements and disabled entries as they are.
\<close>

theorem authority_only_by_root:
  assumes "names_once b" and "\<not> decides argv"
  shows "authority (snd (snd (run_membrane A S argv (s, b)))) = authority b"
proof -
  have plain: "keeps (on_brain (held (authority b))) (root A S deadline x)" if "argv = ''root'' # x" for x deadline
    using that assms(2) by (intro root_holds.keeps_root root_holds.keeps_plain_command) (simp add: decides_def)
  have "on_brain (held (authority b)) (snd (run_membrane A S argv (s, b)))"
    by (rule root_holds.run_ends) (use assms(1) plain in \<open>simp_all add: held_def\<close>)
  then show ?thesis by (simp add: on_brain_def held_def split: prod.splits)
qed

theorem authority_only_by_root_witness:
  "\<forall>(A :: unit mapi) S p m. authority (snd (snd (run_membrane A S [''say'', m] ((), hatched p)))) = authority (hatched p)"
proof (intro allI)
  fix A :: "unit mapi" and S p m
  show "authority (snd (snd (run_membrane A S [''say'', m] ((), hatched p)))) = authority (hatched p)"
    by (rule authority_only_by_root) (simp_all add: names_once_def hatched_def decides_def)
qed

section \<open>What root read is what is approved\<close>

definition numbered :: "brain \<Rightarrow> bool" where
  "numbered b \<longleftrightarrow> (\<forall>i\<in>fst ` set (br_proposals b). i \<in> proposal_name ` {..<br_next_proposal b})"

definition contents :: "brain \<Rightarrow> string \<rightharpoonup> proposal" where
  "contents b i = map_option content (map_of (br_proposals b) i)"

definition read_as where
  "read_as c b \<longleftrightarrow> numbered b \<and> c \<subseteq>\<^sub>m contents b"

lemma proposal_name_inject [simp]: "proposal_name m = proposal_name n \<longleftrightarrow> m = n"
  by (simp add: proposal_name_def)

lemma fresh_proposal: "numbered b \<Longrightarrow> map_of (br_proposals b) (proposal_name (br_next_proposal b)) = None"
  by (auto simp: numbered_def map_of_eq_None_iff image_iff)

lemma born_id [simp]: "pp_id (born_pending p) = pp_id p"
  by (simp add: born_pending_def)

lemma numbered_add: "numbered b \<Longrightarrow> pp_id p = proposal_name (br_next_proposal b) \<Longrightarrow> numbered (add_proposal p b)"
  by (auto simp: numbered_def add_proposal_def keys_dict_set lessThan_Suc)

lemma numbered_set: "numbered b \<Longrightarrow> numbered (set_proposal i f b)"
proof -
  have "fst ` set (dict_change i f d) = fst ` set d" for d
    using keys_dict_change [of i f d] by (metis list.set_map)
  then show "numbered b \<Longrightarrow> numbered (set_proposal i f b)" by (simp add: numbered_def set_proposal_def)
qed

lemma undecided_fields:
  assumes "undecided b' = undecided b"
  shows "br_proposals b' = br_proposals b" "br_trials b' = br_trials b" "br_next_proposal b' = br_next_proposal b"
    "br_next_trial b' = br_next_trial b" "course b' = course b"
  using assms by (cases b; cases b'; simp add: undecided_def course_def)+

interpretation root_reads: record_writes "read_as c" True for c
proof (unfold_locales, goal_cases)
  case (4 b h i)
  have "contents (set_proposal i h b) = contents b"
    by (rule ext) (simp add: contents_def set_proposal_def option.map_comp comp_def 4(2))
  then show ?case using 4(1) by (simp add: read_as_def numbered_set)
next
  case (7 b d q)
  then have n: "numbered b" and q: "pp_id q = proposal_name (br_next_proposal b)" and c: "c \<subseteq>\<^sub>m contents b"
    by (auto simp: read_as_def dest: parse_proposal_ok(2))
  have "contents b \<subseteq>\<^sub>m contents (add_proposal (born_pending q) b)"
    using fresh_proposal [OF n] by (auto simp: map_le_def contents_def add_proposal_def q)
  then have "c \<subseteq>\<^sub>m contents (add_proposal (born_pending q) b)" by (rule map_le_trans [OF c])
  then show ?case using numbered_add [OF n, of "born_pending q"] q by (simp add: read_as_def)
next
  case (8 b' b)
  then show ?case by (simp add: read_as_def numbered_def contents_def map_le_def substance_fields [OF 8(1)])
next
  case (9 b' b)
  then show ?case by (simp add: read_as_def numbered_def contents_def map_le_def undecided_fields [OF 9(1)])
qed (simp_all add: read_as_def numbered_def contents_def set_entry_status_def put_trial_def set_pending_def map_le_def)



section \<open>Nothing is added without the grant\<close>

definition keyed :: "brain \<Rightarrow> bool" where
  "keyed b \<longleftrightarrow> (\<forall>(n, t)\<in>set (br_trials b). n = tr_id t)"

definition tools_reserved :: "brain \<Rightarrow> bool" where
  "tools_reserved b \<longleftrightarrow> fst ` set (br_catalog b) \<inter> set reserved_tool_names = {}"

definition grown :: "brain \<Rightarrow> string list \<times> nat \<times> string list \<times> nat" where
  "grown b = (map fst (br_proposals b), br_next_proposal b, map fst (br_trials b), br_next_trial b)"

definition as_grown where
  "as_grown g b \<longleftrightarrow> keyed b \<and> grown b = g"

lemma same_keys_dict_set: "k \<in> fst ` set d \<Longrightarrow> map fst (dict_set k v d) = map fst d"
  by (simp only: dict_set_def if_True fst_change)

lemma keyed_put: "keyed b \<Longrightarrow> keyed (put_trial t b)"
  by (fastforce simp: keyed_def put_trial_def dest: set_dict_set)

lemma keyed_new: "keyed (b\<lparr>br_next_trial := n\<rparr>) = keyed b"
  by (simp add: keyed_def)

interpretation no_grant: record_writes "as_grown g" False for g
proof (unfold_locales, goal_cases)
  case (5 b0 b t t')
  obtain n where n: "(n, t) \<in> set (br_trials b0)" using 5(3) by auto
  have "n = tr_id t" using 5(1) n by (auto simp: as_grown_def keyed_def)
  then have "tr_id t' \<in> fst ` set (br_trials b0)" using n 5(4) by (metis fst_conv image_eqI)
  moreover have "grown b0 = grown b" using 5(1,2) by (simp add: as_grown_def)
  then have "map fst (br_trials b0) = map fst (br_trials b)" by (simp add: grown_def)
  ultimately have "tr_id t' \<in> fst ` set (br_trials b)" by (metis list.set_map)
  then show ?case using 5(2) keyed_put [of b t'] by (simp add: as_grown_def grown_def put_trial_def same_keys_dict_set)
next
  case (1 b f)
  then show ?case by (simp add: as_grown_def keyed_def grown_def)
next
  case (2 b g)
  from 2(1) show ?case by (simp add: as_grown_def keyed_def grown_def set_pending_def)
next
  case (3 b0 b n e st)
  from 3(2) show ?case by (simp add: as_grown_def keyed_def grown_def set_entry_status_def)
next
  case (4 b h i)
  from 4(1) show ?case by (simp add: as_grown_def keyed_def grown_def set_proposal_def)
next
  case (8 b' b)
  then show ?case by (simp add: as_grown_def keyed_def grown_def substance_fields [OF 8(1)])
next
  case (9 b' b)
  then show ?case by (simp add: as_grown_def keyed_def grown_def undecided_fields [OF 9(1)])
qed simp_all

lemma put_verbs_cases:
  assumes "(x, t) \<in> set (fold put_verb es d)"
  shows "(x, t) \<in> set d \<or> (\<exists>e. tl_kind t = VerbTool e)"
  using assms
proof (induction es arbitrary: d)
  case (Cons ne es)
  have one: "(x, t) \<in> set d \<or> (\<exists>e. tl_kind t = VerbTool e)" if "(x, t) \<in> set (put_verb ne d)"
    using set_dict_set [OF that [unfolded put_verb_def]] by (auto simp: verb_tool_of_def)
  have "(x, t) \<in> set (put_verb ne d) \<or> (\<exists>e. tl_kind t = VerbTool e)" using Cons by simp
  then show ?case using one by blast
qed simp

lemma build_tools_cases:
  "t \<in> set (build_tools who b) \<Longrightarrow>
     (t \<in> set builtin_tools \<and> tl_name t \<in> set (offered_names who (br_policy b) (br_catalog b))) \<or> (\<exists>e. tl_kind t = VerbTool e)"
  by (auto simp: build_tools_def Let_def dest!: put_verbs_cases)

lemma adding_builtin: "t \<in> set builtin_tools \<Longrightarrow> adds (tl_kind t) \<Longrightarrow> tl_name t \<in> {''try'', ''propose''}"
  by (auto simp: builtin_tools_def adds_def)

lemma offered_adder:
  assumes "t \<in> set (build_tools who b)" and "adds (tl_kind t)" and "tools_reserved b"
  shows "may_propose who (br_policy b)"
proof -
  have "\<not> (\<exists>e. tl_kind t = VerbTool e)" using assms(2) by (auto simp: adds_def)
  then have t: "t \<in> set builtin_tools" and offered: "tl_name t \<in> set (offered_names who (br_policy b) (br_catalog b))"
    using build_tools_cases [OF assms(1)] by blast+
  have "tl_name t \<in> {''try'', ''propose''}" by (rule adding_builtin [OF t assms(2)])
  moreover from this have "tl_name t \<in> set reserved_tool_names" by (auto simp: reserved_tool_names_def)
  then have "tl_name t \<notin> fst ` set (br_catalog b)" using assms(3) unfolding tools_reserved_def by blast
  then have "tl_name t \<notin> set (offered_verbs who (br_policy b) (br_catalog b))" by (auto simp: offered_verbs_def)
  moreover note offered
  ultimately show ?thesis by (auto simp: offered_names_def split: if_splits)
qed

text \<open>C24: while the principal of the turn in flight may not propose, no command adds a proposal or a trial, whatever the
  model calls: the proposals and trials keep their ids and the numbers of the next ones stay.
\<close>

theorem no_proposal_without_grant:
  assumes "\<And>p. br_pending b = Some p \<Longrightarrow> \<not> may_propose (pn_principal p) (br_policy b)" and "keyed b" and "tools_reserved b"
  shows "grown (snd (snd (run_membrane A S argv (s, b)))) = grown b"
proof -
  have "\<not> tools_add b"
    using assms(1,3) by (auto simp: tools_add_def dest: offered_adder)
  then have "on_brain (as_grown (grown b)) (snd (run_membrane A S argv (s, b)))"
    by (intro no_grant.run_records) (simp_all add: as_grown_def assms(2))
  then show ?thesis by (simp add: on_brain_def as_grown_def split: prod.splits)
qed

theorem no_proposal_without_grant_witness:
  "\<forall>(A :: unit mapi) S p q argv. let b = (hatched p)\<lparr>br_pending := Some (q\<lparr>pn_principal := anonymous\<rparr>)\<rparr> in
     grown (snd (snd (run_membrane A S argv ((), b)))) = grown b"
proof (intro allI)
  fix A :: "unit mapi" and S p q argv
  show "let b = (hatched p)\<lparr>br_pending := Some (q\<lparr>pn_principal := anonymous\<rparr>)\<rparr> in
     grown (snd (snd (run_membrane A S argv ((), b)))) = grown b"
    unfolding Let_def
    by (rule no_proposal_without_grant)
       (auto simp: hatched_def keyed_def tools_reserved_def may_propose_def anonymous_def root_name_def)
qed

end
