(* ===== verification/Reachable.thy ===== *)
theory Reachable
  imports Authority
begin

text \<open>
  The states the embryo reaches from a hatched policy, one command after another, whatever the service answers
  between and within them, and the invariant they have: the verbs of the catalog, the policy in force and the one
  it can be reverted to, the proposals and the trials are all well formed and accepted by the rules of approval.
\<close>

section \<open>The invariant\<close>

definition accepted_verb :: "verb \<Rightarrow> bool" where
  "accepted_verb v \<longleftrightarrow> verb_ok v \<and> vb_effect v \<in> embryo_effects"

definition accepted_policy :: "policy \<Rightarrow> bool" where
  "accepted_policy p \<longleftrightarrow> policy_ok p \<and> (po_door p = Open \<longrightarrow> po_hooks p \<noteq> []) \<and> \<not> gr_propose (grant_of p anonymous)"

definition sound_entry :: "string \<times> catalog_entry \<Rightarrow> bool" where
  "sound_entry ne \<longleftrightarrow> vb_name (ce_verb (snd ne)) = fst ne \<and> accepted_verb (ce_verb (snd ne))"

definition sound_proposal :: "string \<times> proposal \<Rightarrow> bool" where
  "sound_proposal ip \<longleftrightarrow> pp_id (snd ip) = fst ip \<and> subject_ok (snd ip)"

definition sound :: "brain \<Rightarrow> bool" where
  "sound b \<longleftrightarrow>
     names_once b \<and> numbered b \<and> keyed b \<and> list_all sound_entry (br_catalog b) \<and> list_all sound_proposal (br_proposals b) \<and>
     accepted_policy (br_policy b) \<and> (case br_previous_policy b of None \<Rightarrow> True | Some p \<Rightarrow> accepted_policy p)"

lemma list_all_dict_set: "list_all P d \<Longrightarrow> P (k, v) \<Longrightarrow> list_all P (dict_set k v d)"
  by (auto simp: list_all_iff dest!: set_dict_set)

lemma list_all_dict_change: "list_all P d \<Longrightarrow> (\<And>k v. P (k, v) \<Longrightarrow> P (k, f v)) \<Longrightarrow> list_all P (dict_change i f d)"
  by (auto simp: list_all_iff dest!: set_dict_change)

lemma sound_content: "content p = content q \<Longrightarrow> sound_proposal (i, q) \<Longrightarrow> sound_proposal (i, p)"
  by (cases p; cases q) (simp add: content_def sound_proposal_def subject_ok_def)

lemma sound_set_proposal:
  assumes "sound b" and "\<And>p. content (f p) = content p"
  shows "sound (set_proposal i f b)"
proof -
  have "list_all sound_proposal (dict_change i f (br_proposals b))"
    by (rule list_all_dict_change) (use assms sound_content in \<open>auto simp: sound_def\<close>)
  then show ?thesis
    using assms(1) numbered_set [of b i f] by (simp add: sound_def set_proposal_def names_once_def keyed_def)
qed

lemma sound_status: "sound b \<Longrightarrow> sound (set_entry_status n st b)"
proof -
  assume b: "sound b"
  have "list_all sound_entry (dict_change n (ce_status_update (\<lambda>_. st)) (br_catalog b))"
    by (rule list_all_dict_change) (use b in \<open>auto simp: sound_def sound_entry_def\<close>)
  then show ?thesis
    using b by (simp add: sound_def set_entry_status_def names_once_def numbered_def keyed_def)
qed

lemma sound_add:
  assumes "sound b" and "parse_proposal d (proposal_name (br_next_proposal b)) = Inr q"
  shows "sound (add_proposal (born_pending q) b)"
proof -
  have q: "pp_id q = proposal_name (br_next_proposal b)" "subject_ok q"
    using parse_proposal_ok [OF assms(2)] by (simp_all add: proposal_ok_def)
  then have "list_all sound_proposal (dict_set (pp_id q) (born_pending q) (br_proposals b))"
    using assms(1) by (intro list_all_dict_set) (simp_all add: sound_def sound_proposal_def born_pending_def subject_ok_def)
  moreover have "numbered (add_proposal (born_pending q) b)"
    using numbered_add [of b "born_pending q"] q assms(1) by (simp add: sound_def)
  ultimately show ?thesis
    using assms(1) by (simp add: sound_def add_proposal_def names_once_def keyed_def)
qed

interpretation sound_turn: turn_writes sound True
proof (unfold_locales, goal_cases)
  case (5 b0 b t t')
  then show ?case using keyed_put [of b t'] by (simp add: sound_def put_trial_def names_once_def numbered_def)
next
  case (6 b t k)
  then show ?case
    using keyed_put [of "b\<lparr>br_next_trial := k\<rparr>" t] by (simp add: sound_def put_trial_def names_once_def numbered_def keyed_new)
next
  case (8 b' b)
  then show ?case
    by (simp add: sound_def names_once_def numbered_def keyed_def substance_fields [OF 8(1)])
next
  case (2 b g)
  from 2(1) show ?case by (simp add: sound_def names_once_def numbered_def keyed_def set_pending_def)
qed (simp_all add: sound_status sound_set_proposal sound_add, simp_all add: sound_def names_once_def numbered_def keyed_def)

section \<open>Root's commands keep it\<close>

lemma keeps_sound_set: "(\<And>p. content (f p) = content p) \<Longrightarrow> keeps sound (writes (set_proposal i f))"
  by (rule keeps_writes) (rule sound_set_proposal)

lemma sound_tell: "sound (tell t b) = sound b"
  by (simp add: sound_def tell_def names_once_def numbered_def keyed_def)

lemma keeps_sound_tell: "keeps sound (tell_the_model p kind t)"
  unfolding tell_the_model_def
  by (intro keeps_intros keeps_writes sound_set_proposal) (simp_all add: sound_tell content_def)

lemma keeps_sound_supersede: "keeps sound (writes (supersede p))"
  by (rule keeps_writes) (auto simp: supersede_def content_def intro: sound_set_proposal split: option.split)

lemma keeps_sound_applied: "keeps sound (applied p)"
  unfolding applied_def by (intro keeps_intros keeps_sound_set keeps_sound_supersede) (simp add: content_def)

lemma sound_put_entry:
  assumes "sound b" and "accepted_verb v" and "ce_verb e = v"
  shows "sound (put_entry v e b)"
proof -
  have "list_all sound_entry (dict_set (vb_name v) e (br_catalog b))"
    using assms by (intro list_all_dict_set) (simp_all add: sound_def sound_entry_def)
  then show ?thesis
    using assms(1) by (simp add: sound_def put_entry_def names_once_def numbered_def keyed_def distinct_dict_set)
qed

lemma keeps_sound_put: "accepted_verb v \<Longrightarrow> keeps sound (writes (put_entry v (new_entry v st r i)))"
  by (rule keeps_writes) (simp add: sound_put_entry new_entry_def)

lemma keeps_sound_refused: "accepted_verb v \<Longrightarrow> keeps sound (verb_refused p v detail)"
  unfolding verb_refused_def
  by (intro keeps_intros keeps_sound_set keeps_sound_tell keeps_writes) (auto simp: content_def sound_put_entry new_entry_def)

lemma keeps_sound_accepted: "accepted_verb v \<Longrightarrow> keeps sound (verb_accepted p v info)"
  unfolding verb_accepted_def Let_def
  by (intro keeps_intros keeps_sound_set keeps_sound_supersede keeps_sound_put) (auto simp: content_def)

lemma refuse_policy_None: "refuse_policy p b = None \<Longrightarrow> policy_ok p \<Longrightarrow> accepted_policy p"
  by (auto simp: refuse_policy_def accepted_policy_def split: if_splits option.splits)

lemma refuse_verb_None: "refuse_verb s v b = None \<Longrightarrow> verb_ok v \<Longrightarrow> accepted_verb v"
  by (auto simp: refuse_verb_def accepted_verb_def split: if_splits)

lemma sound_apply: "sound b \<Longrightarrow> accepted_policy new \<Longrightarrow> sound (apply_policy p new b)" "sound b \<Longrightarrow> sound (apply_prompt p t b)"
  by (simp_all add: sound_def apply_policy_def apply_prompt_def names_once_def numbered_def keyed_def)

lemma ends_get_proposal [simp]:
  "ends_in I (bindE (in_brain (get_proposal i)) f) b = (case map_of (br_proposals b) i of None \<Rightarrow> I b | Some p \<Rightarrow> ends_in I (f p) b)"
  by (auto simp: ends_in_def bindE_def in_brain_def get_proposal_def reads_def raise_def ret_def split: option.split)

lemma accepted_subject:
  assumes "sound b" and "map_of (br_proposals b) i = Some p"
  shows "subject_ok p"
  using assms by (auto simp: sound_def list_all_iff sound_proposal_def dest!: map_of_SomeD)

fun_cases fits_verb: "subject_fits VerbKind v q t"
  and fits_policy: "subject_fits PolicyKind v q t"
  and fits_prompt: "subject_fits PromptKind v q t"

lemma approve_ends:
  assumes "sound b"
  shows "ends_in sound (approve A i) b"
proof (cases "map_of (br_proposals b) i")
  case (Some p)
  have ok: "subject_ok p" by (rule accepted_subject [OF assms Some])
  let ?go = "case (pp_kind p, pp_verb p, pp_policy p, pp_prompt p) of
            (VerbKind, Some v, _, _) \<Rightarrow>
              bindE (lifted (ma_create_recipe A (vb_dockerfile v))) (\<lambda>r.
              case r of Inl e \<Rightarrow> in_brain (verb_refused p v (ae_detail e)) | Inr info \<Rightarrow> in_brain (verb_accepted p v info))
          | (PolicyKind, _, Some new, _) \<Rightarrow> seqE (assign (apply_policy p new)) (in_brain (applied p))
          | (PromptKind, _, _, Some new) \<Rightarrow> seqE (assign (apply_prompt p new)) (in_brain (applied p))
          | _ \<Rightarrow> raise assertion_error"
  have go: "ends_in sound ?go b" if none: "refuse_approval p b = None"
  proof (cases "pp_kind p")
    case VerbKind
    then obtain v where v: "pp_verb p = Some v" "verb_ok v" using ok by (auto simp: subject_ok_def elim: fits_verb)
    then have acc: "accepted_verb v" using none VerbKind by (auto simp: refuse_approval_def intro: refuse_verb_None)
    show ?thesis
      by (simp add: VerbKind v(1))
         (intro ends_keeps keeps_bindE keeps_on_lifted keeps_sum keeps_on_in_brain keeps_sound_refused keeps_sound_accepted acc assms)
  next
    case PolicyKind
    then obtain q where q: "pp_policy p = Some q" "policy_ok q"
      using ok by (auto simp: subject_ok_def elim: fits_policy)
    then have acc: "accepted_policy q" using none PolicyKind by (auto simp: refuse_approval_def intro: refuse_policy_None)
    show ?thesis
      using sound_apply(1) [OF assms acc]
      by (simp add: PolicyKind q(1)) (intro ends_keeps keeps_on_in_brain keeps_sound_applied)
  next
    case PromptKind
    then obtain t where t: "pp_prompt p = Some t"
      using ok by (auto simp: subject_ok_def elim: fits_prompt)
    show ?thesis
      using sound_apply(2) [OF assms]
      by (simp add: PromptKind t) (intro ends_keeps keeps_on_in_brain keeps_sound_applied)
  qed
  have tell: "ends_in sound (in_brain (tell_the_model p k t)) b" for k t
    by (intro ends_keeps keeps_on_in_brain keeps_sound_tell assms)
  show ?thesis
    unfolding approve_def using go by (simp add: Some assms tell split: option.split)
qed (simp add: approve_def assms)

lemma keeps_reads_of: "(\<And>b. I b \<Longrightarrow> keeps I (f (g b))) \<Longrightarrow> keeps I (bindE (reads g) f)"
  by (auto simp: keeps_def bindE_def reads_def)

lemma keeps_sound_reverted: "keeps sound (reverted p)"
  unfolding reverted_def by (intro keeps_intros keeps_sound_set) (simp add: content_def)

lemma keeps_sound_disable: "keeps sound (disable v)"
proof -
  have out: "sound (set_proposal i (pp_status_update (\<lambda>_. st)) (set_entry_status n VDisabled b))" if "sound b" for i st n b
    by (intro sound_set_proposal sound_status that) (simp add: content_def)
  show ?thesis
    unfolding disable_def by (auto intro!: keeps_intros keeps_writes out split: option.split)
qed

lemma keeps_sound_revert: "keeps sound (revert i)"
proof -
  have restored: "keeps sound (writes (\<lambda>b. b\<lparr>br_policy := old, br_applied_policy := None, br_previous_policy := None\<rparr>))"
    if "accepted_policy old" for old
    by (rule keeps_writes) (use that in \<open>simp add: sound_def names_once_def numbered_def keyed_def\<close>)
  have prompt: "keeps sound (writes (\<lambda>b. b\<lparr>br_self_description := old, br_applied_prompt := None, br_previous_prompt := None\<rparr>))"
    for old
    by (rule keeps_writes) (simp add: sound_def names_once_def numbered_def keyed_def)
  show ?thesis
    unfolding revert_def
    by (intro keeps_bindE keeps_reads_of)
       (auto intro!: keeps_intros keeps_sound_reverted restored prompt sound_turn.keeps_get_proposal
          simp: sound_def split: proposal_kind.split option.splits)
qed

lemma keeps_sound_provide: "keeps sound (provide v n)"
proof -
  have put: "sound (tell t (b\<lparr>br_catalog := dict_set v (e\<lparr>ce_provided := ps\<rparr>) (br_catalog b)\<rparr>))"
    if "sound b" "sound_entry (v, e)" for b e t ps
  proof -
    have "list_all sound_entry (dict_set v (e\<lparr>ce_provided := ps\<rparr>) (br_catalog b))"
      using that by (intro list_all_dict_set) (simp_all add: sound_def sound_entry_def)
    then show ?thesis
      using that(1) by (simp add: sound_def tell_def names_once_def numbered_def keyed_def distinct_dict_set)
  qed
  have found: "sound_entry (v, e)" if "sound b" "map_of (br_catalog b) v = Some e" for b e
    using that by (auto simp: sound_def list_all_iff dest!: map_of_SomeD)
  show ?thesis
    unfolding provide_def Let_def
    by (rule keeps_reads_of) (auto intro!: keeps_intros keeps_writes put dest: found split: option.split)
qed

lemma keeps_sound_root: "keeps (on_brain sound) (root A S deadline argv)"
proof (rule sound_turn.keeps_root)
  have "keeps (on_brain sound) (approve A i)" for i
    by (rule keeps_from) (rule approve_ends)
  then show "keeps (on_brain sound) (root_command A argv)"
    unfolding root_command_def
    by (intro keeps_list keeps_cond keeps_bindE keeps_from_result keeps_ret sound_turn.keeps_list_state keeps_answered keeps_on_in_brain
          sound_turn.keeps_reject keeps_sound_disable keeps_sound_revert keeps_sound_provide)
qed

section \<open>Reachable states\<close>

text \<open>Each command runs on the state the last one saved; the world is another each time.\<close>

inductive reachable_brain :: "'s mapi \<Rightarrow> settings \<Rightarrow> policy \<Rightarrow> brain \<Rightarrow> bool" for A S p where
  reach_hatched: "reachable_brain A S p (hatched p)"
| reach_command: "reachable_brain A S p b \<Longrightarrow> reachable_brain A S p (snd (snd (run_membrane A S argv (s, b))))"

text \<open>C25: from a hatched policy that the rules of approval accept, every state the embryo reaches is sound, whatever is said, called,
  approved, reverted and answered: each verb of the catalog is well formed, is registered under its name and only
  touches or reads what is local; the policy in force and the one a revert brings back open the door only with a hook and never let
  anonymous propose; proposals and trials are kept under their own ids, and every proposal is of its kind.
\<close>

theorem embryo_sound:
  assumes "reachable_brain A S p b" and "accepted_policy p"
  shows "sound b"
  using assms(1)
proof (induction rule: reachable_brain.induct)
  case reach_hatched
  then show ?case
    using assms(2) by (simp add: sound_def hatched_def names_once_def numbered_def keyed_def)
next
  case (reach_command b argv s)
  have "on_brain sound (snd (run_membrane A S argv (s, b)))"
    by (rule sound_turn.run_ends) (use reach_command keeps_sound_root in simp_all)
  then show ?case by (simp add: on_brain_def split: prod.splits)
qed

theorem embryo_sound_witness:
  "\<forall>(A :: unit mapi) S s argv. sound (snd (snd (run_membrane A S argv (s, hatched \<lparr>po_principals = [], po_hooks = [], po_door = Closed\<rparr>))))"
proof (intro allI)
  fix A :: "unit mapi" and S s argv
  let ?p = "\<lparr>po_principals = [], po_hooks = [], po_door = Closed\<rparr>"
  show "sound (snd (snd (run_membrane A S argv (s, hatched ?p))))"
    by (rule embryo_sound [of A S ?p]) (auto intro!: reach_command reach_hatched simp: accepted_policy_def policy_ok_def grant_of_def nothing_def)
qed

section \<open>Bounds\<close>

lemma tidy_course: "course b' = course b \<Longrightarrow> tidy b' = tidy b"
  by (cases "br_pending b"; cases "br_pending b'") (simp_all add: course_def tidy_def)

interpretation tidy_turn: record_writes tidy True
proof (unfold_locales, goal_cases)
  case (1 b f)
  then show ?case using tidy_course [of "br_inbox_update f b" b] by simp
next
  case (2 b g)
  then show ?case using tidy_course [of "set_pending g b" b] by simp
next
  case (3 b0 b n e st)
  then show ?case using tidy_course [of "set_entry_status n st b" b] by simp
next
  case (4 b h i)
  then show ?case using tidy_course [of "set_proposal i h b" b] by simp
next
  case (5 b0 b t t')
  then show ?case using tidy_course [of "put_trial t' b" b] by simp
next
  case (6 b t k)
  then show ?case using tidy_course [of "put_trial t (b\<lparr>br_next_trial := k\<rparr>)" b] by simp
next
  case (7 b d q)
  then show ?case using tidy_course [of "add_proposal (born_pending q) b" b] by simp
next
  case (8 b' b)
  then show ?case by simp
next
  case (9 b' b)
  then show ?case using tidy_course [OF undecided_fields(5) [OF 9(1)]] by simp
qed

lemma reachable_tidy:
  assumes "reachable_brain A S p b"
  shows "tidy b"
  using assms
proof (induction rule: reachable_brain.induct)
  case reach_hatched
  then show ?case by (simp add: tidy_def hatched_def)
next
  case (reach_command b argv s)
  have "on_brain tidy (snd (run_membrane A S argv (s, b)))"
    by (rule tidy_turn.run_records) (use reach_command in simp_all)
  then show ?case by (simp add: on_brain_def split: prod.splits)
qed

section \<open>No message is stranded\<close>

lemma set_pending_none [simp]: "br_pending (set_pending g b) = None \<longleftrightarrow> br_pending b = None"
  by (simp add: set_pending_def)

lemma untouched [simp]:
  "br_pending (set_entry_status n st b) = br_pending b" "br_pending (set_proposal i h b) = br_pending b"
  "br_pending (put_trial t b) = br_pending b" "br_pending (add_proposal q b) = br_pending b"
  "br_queue (set_entry_status n st b) = br_queue b" "br_queue (set_proposal i h b) = br_queue b"
  "br_queue (put_trial t b) = br_queue b" "br_queue (add_proposal q b) = br_queue b" "br_queue (set_pending g b) = br_queue b"
  by (simp_all add: set_entry_status_def set_proposal_def put_trial_def add_proposal_def set_pending_def)

lemma undecided_course: "undecided b' = undecided b \<Longrightarrow> br_pending b' = br_pending b \<and> br_queue b' = br_queue b"
  by (cases b; cases b'; simp add: undecided_def)

interpretation same_queue: root_writes "\<lambda>b. br_queue b = qs" True for qs
proof (unfold_locales, goal_cases)
  case (8 b' b)
  then show ?case using undecided_course [OF 8(1)] by simp
qed (simp_all (no_asm_simp))

text \<open>No turn in flight, no message waiting.\<close>

definition settled :: "brain \<Rightarrow> bool" where
  "settled b \<longleftrightarrow> (br_pending b = None \<longrightarrow> br_queue b = [])"

lemma settled_same: "br_pending b' = br_pending b \<Longrightarrow> br_queue b' = br_queue b \<Longrightarrow> settled b \<Longrightarrow> settled b'"
  by (simp add: settled_def)

interpretation settled: root_writes settled True
proof (unfold_locales, goal_cases)
  case (2 b g)
  from 2(1) show ?case by (simp add: settled_def)
next
  case (8 b' b)
  then show ?case using undecided_course [OF 8(1)] by (simp add: settled_def)
qed (simp_all add: settled_def)

lemma settled_open: "br_pending b \<noteq> None \<Longrightarrow> settled b"
  by (auto simp: settled_def)

text \<open>A claim about what an action leaves when it returns.\<close>

abbreviation leaves :: "('s, 'a) membrane \<Rightarrow> ('a \<Rightarrow> brain \<Rightarrow> bool) \<Rightarrow> 's \<times> brain \<Rightarrow> bool" where
  "leaves m P \<equiv> wp m (\<lambda>a (s, b). P a b) (\<lambda>_ _. True)"

lemma leaves_bind: "(\<And>a w. leaves (f a) P w) \<Longrightarrow> leaves (bindE m f) P w"
  unfolding wp_bindE by (rule wp_mono [OF wp_top]) simp_all

lemma leaves_seq: "(\<And>w. leaves n P w) \<Longrightarrow> leaves (seqE m n) P w"
  unfolding seqE_def by (rule leaves_bind)

lemma leaves_pending: "(\<And>p s b. br_pending b = Some p \<Longrightarrow> leaves (f p) P (s, b)) \<Longrightarrow> leaves (with_pending f) P w"
  by (cases w) (auto simp: with_pending_def wp_simps split: option.split)

lemma leaves_cond: "leaves m P w \<Longrightarrow> leaves n P w \<Longrightarrow> leaves (if c then m else n) P w"
  by simp

lemma leaves_option: "leaves m P w \<Longrightarrow> (\<And>x. leaves (f x) P w) \<Longrightarrow> leaves (case v of None \<Rightarrow> m | Some x \<Rightarrow> f x) P w"
  by (cases v) simp_all

lemma leaves_sum: "(\<And>x. leaves (f x) P w) \<Longrightarrow> (\<And>x. leaves (g x) P w) \<Longrightarrow> leaves (case v of Inl x \<Rightarrow> f x | Inr x \<Rightarrow> g x) P w"
  by (cases v) simp_all

lemma leaves_prod: "(\<And>x y. leaves (f x y) P w) \<Longrightarrow> leaves (case v of (x, y) \<Rightarrow> f x y) P w"
  by (cases v) simp

lemma leaves_list: "leaves m P w \<Longrightarrow> (\<And>x xs. leaves (f x xs) P w) \<Longrightarrow> leaves (case v of [] \<Rightarrow> m | x # xs \<Rightarrow> f x xs) P w"
  by (cases v) simp_all

lemma leaves_lifted: "(\<And>a s. leaves (f a) P (s, b)) \<Longrightarrow> leaves (bindE (lifted m) f) P (s, b)"
  by (auto simp: wp_simps intro!: wp_mono [OF wp_top])

lemma leaves_local: "leaves (f b) P (s, b) \<Longrightarrow> leaves (bindE local f) P (s, b)"
  by (simp add: wp_simps)

lemma leaves_keeps: "keeps (on_brain I) m \<Longrightarrow> I b \<Longrightarrow> leaves m (\<lambda>_. I) (s, b)"
  using keeps_wp [of "on_brain I" m "(s, b)"] by (auto simp: on_brain_def wp_def split: prod.splits sum.splits)

lemma leaves_after: "leaves m P w \<Longrightarrow> (\<And>a s b. P a b \<Longrightarrow> leaves (f a) Q (s, b)) \<Longrightarrow> leaves (bindE m f) Q w"
  unfolding wp_bindE by (erule wp_mono) auto

lemma close_pending_leaves: "leaves (close_pending A t stopped) (\<lambda>_ b. br_pending b = None) w"
  unfolding close_pending_def Let_def
  by (rule leaves_pending, rule leaves_seq, rule leaves_bind, rule leaves_bind, rule leaves_bind, rule leaves_seq) (auto simp: wp_simps)

lemma start_posted_leaves: "leaves (start_posted A S deadline q) (\<lambda>r b. \<forall>out. r = Inr out \<longrightarrow> br_pending b \<noteq> None) w"
  unfolding start_posted_def Let_def
  by (intro leaves_seq leaves_bind) (auto simp: with_pending_def wp_simps split: option.split)

lemma queue_close: "keeps (on_brain (\<lambda>b. br_queue b = qs)) (close_pending A t stopped)"
  unfolding close_pending_def Let_def
  by (auto intro!: keeps_intros brain_intros keeps_on_in_brain same_queue.keeps_get_proposal keeps_on_assign simp: give_back_def tell_def)

lemma queue_start: "keeps (on_brain (\<lambda>b. br_queue b = qs)) (start_posted A S deadline q)"
  unfolding start_posted_def Let_def
  by (auto intro!: keeps_intros brain_intros keeps_on_assign simp: open_turn_def split: option.split)

lemma next_turns_leaves: "br_pending b = None \<Longrightarrow> br_queue b = qs \<Longrightarrow> leaves (next_turns A S deadline qs) (\<lambda>_. settled) (s, b)"
proof (induction qs arbitrary: s b)
  case Nil
  then show ?case by (simp add: wp_simps settled_def)
next
  case (Cons q qs)
  have close: "leaves (close_pending A t ''error'') (\<lambda>_ b. br_pending b = None \<and> br_queue b = qs) (s, b)" if "br_queue b = qs" for s b t
    using wp_conj [OF close_pending_leaves leaves_keeps [OF queue_close that]] by (rule wp_mono) auto
  have start: "leaves (start_posted A S deadline q) (\<lambda>r b. (\<forall>out. r = Inr out \<longrightarrow> br_pending b \<noteq> None) \<and> br_queue b = qs) (s, b)"
    if "br_queue b = qs" for s b
    using wp_conj [OF start_posted_leaves leaves_keeps [OF queue_start that]] by (rule wp_mono) auto
  have rest: "leaves (bindE (next_turns A S deadline qs) (\<lambda>more. ret (out @ more))) (\<lambda>_. settled) (s, b)"
    if "br_pending b = None" "br_queue b = qs" for out s b
    by (rule leaves_after [OF Cons.IH [OF that]]) (simp add: wp_ret)
  have "leaves (bindE (start_posted A S deadline q) (\<lambda>r. case r of Inr out \<Rightarrow> ret out | Inl t \<Rightarrow>
      bindE (close_pending A t ''error'') (\<lambda>out. bindE (next_turns A S deadline qs) (\<lambda>more. ret (out @ more)))))
      (\<lambda>_. settled) (s, b\<lparr>br_queue := qs\<rparr>)"
  proof (rule leaves_after [OF start])
    fix r :: "string + string" and s and b :: brain
    assume r: "(\<forall>out. r = Inr out \<longrightarrow> br_pending b \<noteq> None) \<and> br_queue b = qs"
    show "leaves (case r of Inr out \<Rightarrow> ret out | Inl t \<Rightarrow>
      bindE (close_pending A t ''error'') (\<lambda>out. bindE (next_turns A S deadline qs) (\<lambda>more. ret (out @ more)))) (\<lambda>_. settled) (s, b)"
    proof (cases r)
      case (Inl t)
      have "br_queue b = qs" using r by simp
      then show ?thesis
        by (simp add: Inl) (rule leaves_after [OF close], simp, rule rest, simp_all)
    next
      case (Inr out)
      then show ?thesis using r by (simp add: wp_ret settled_open)
    qed
  qed simp
  then show ?case by (simp add: wp_seqE wp_assign)
qed

lemma close_turn_leaves: "leaves (close_turn A S deadline t stopped) (\<lambda>_. settled) w"
  unfolding close_turn_def
  by (rule leaves_after [OF close_pending_leaves])
     (auto intro!: next_turns_leaves simp: wp_bindE wp_local wp_ret)

lemma start_turn_leaves: "leaves (start_turn A S deadline q) (\<lambda>_. settled) w"
  unfolding start_turn_def
proof (rule leaves_after [OF start_posted_leaves])
  fix r :: "string + string" and s and b :: brain
  assume "\<forall>out. r = Inr out \<longrightarrow> br_pending b \<noteq> None"
  then show "leaves (case r of Inr out \<Rightarrow> ret out | Inl t \<Rightarrow> close_turn A S deadline t ''error'') (\<lambda>_. settled) (s, b)"
    by (cases r) (simp_all add: close_turn_leaves wp_ret settled_open)
qed

lemma say_as_leaves: "leaves (say_as A S deadline q) (\<lambda>_. settled) w"
proof -
  have "settled (enqueue q b)" if "br_pending b \<noteq> None" for b
    using that by (simp add: settled_def enqueue_def)
  then show ?thesis
    unfolding say_as_def by (cases w) (simp add: wp_simps start_turn_leaves)
qed

lemma say_leaves:
  assumes "settled b"
  shows "leaves (say A S deadline b64 door) (\<lambda>_. settled) (s, b)"
  unfolding say_def Let_def
  by (intro leaves_option leaves_prod leaves_cond say_as_leaves leaves_local leaves_lifted) (simp_all add: wp_ret assms)

lemma go_on_leaves: "leaves (go_on A S deadline c) (\<lambda>r b. \<forall>out. r = GoOn out \<longrightarrow> br_pending b \<noteq> None) w"
  unfolding go_on_def Let_def
  by (intro leaves_pending leaves_seq leaves_bind leaves_prod leaves_cond leaves_option) (simp_all add: wp_ret)

lemma read_message_leaves: "leaves (read_message A S deadline m) (\<lambda>r b. \<forall>out. r = GoOn out \<longrightarrow> br_pending b \<noteq> None) w"
  unfolding read_message_def
  by (intro leaves_bind leaves_seq leaves_pending leaves_cond go_on_leaves) (simp_all add: wp_ret)

lemma continue_leaves: "leaves (continue_turn A S deadline m) (\<lambda>_. settled) w"
  unfolding continue_turn_def
proof (rule leaves_after [OF read_message_leaves])
  fix r s and b :: brain
  assume "\<forall>out. r = GoOn out \<longrightarrow> br_pending b \<noteq> None"
  then show "leaves (take_step A S deadline r) (\<lambda>_. settled) (s, b)"
    by (cases r) (simp_all add: take_step_def close_turn_leaves wp_ret settled_open)
qed

lemma finish_leaves: "settled b \<Longrightarrow> leaves (finish A S deadline job) (\<lambda>_. settled) (s, b)"
  unfolding finish_def Let_def
  by (auto simp: wp_ret close_turn_leaves continue_leaves split: option.split json.split)

lemma settle_leaves:
  assumes "settled b"
  shows "leaves (settle A S deadline) (\<lambda>_. settled) (s, b)"
  unfolding settle_def job_gone_def
  by (intro leaves_local leaves_option leaves_lifted leaves_sum leaves_cond close_turn_leaves finish_leaves assms) (simp_all add: wp_ret assms)

lemma resume_leaves:
  assumes "settled b"
  shows "leaves (resume A S deadline job) (\<lambda>_. settled) (s, b)"
proof -
  have "leaves (bindE (finish A S deadline j) (\<lambda>out. ret (g out))) (\<lambda>_. settled) (s, b)" for j s g
    by (rule leaves_after [OF finish_leaves [OF assms]]) (simp add: wp_ret)
  then show ?thesis
    unfolding resume_def job_gone_def
    by (intro leaves_local leaves_option leaves_lifted leaves_sum leaves_cond close_turn_leaves) (simp_all add: wp_simps assms)
qed

lemma root_leaves:
  assumes "settled b"
  shows "leaves (root A S deadline argv) (\<lambda>_. settled) (s, b)"
proof -
  have other: "leaves (seqE (poll_all A deadline) (catchE (root_command A argv)
      (\<lambda>e. if exc_name e = ''KeyError'' then ret (''no proposal '' @ exc_str e @ newline, 1) else raise e))) (\<lambda>_. settled) (s, b)"
    by (rule leaves_keeps [where I = settled, OF _ assms])
       (intro keeps_seqE settled.keeps_poll_all keeps_catchE settled.keeps_root_command keeps_if keeps_ret keeps_raise)
  have said: "leaves (bindE (say A S deadline x ''api'') (\<lambda>out. ret (out, 0))) (\<lambda>_. settled) (s, b)" for x
    by (rule leaves_after [OF say_leaves [OF assms]]) (simp add: wp_ret)
  show ?thesis
    unfolding root_def by (intro leaves_list leaves_cond other said)
qed

lemma valid_commands:
  assumes "valid_argv argv"
  obtains d where "argv = [''say'', d]" | d where "argv = [''resume'', d]" | d rest where "argv = ''root'' # d # rest"
  using assms by (auto simp: valid_argv_def split: list.splits)

lemma command_leaves:
  assumes "settled b" and "valid_argv argv"
  shows "leaves (command A S argv) (\<lambda>_. settled) (s, b)"
proof -
  have out: "leaves (bindE m (\<lambda>out. ret (out, 0))) (\<lambda>_. settled) (s, b)" if "leaves m (\<lambda>_. settled) (s, b)"
    for m :: "('a, string) membrane" and s b
    by (rule leaves_after [OF that]) (simp add: wp_ret)
  have after: "leaves (seqE (settle A S d) n) (\<lambda>_. settled) (s, b)" if "\<And>s b. settled b \<Longrightarrow> leaves n (\<lambda>_. settled) (s, b)"
    for d s and n :: "('a, string \<times> int) membrane"
    unfolding seqE_def by (rule leaves_after [OF settle_leaves [OF assms(1)]]) (rule that)
  from assms(2) show ?thesis
  proof (cases rule: valid_commands)
    case (1 d)
    then show ?thesis unfolding command_def Let_def by (auto intro!: leaves_lifted after out say_leaves)
  next
    case (2 d)
    then show ?thesis unfolding command_def Let_def by (auto intro!: leaves_lifted out resume_leaves assms(1))
  next
    case (3 d rest)
    then show ?thesis unfolding command_def Let_def by (auto intro!: leaves_lifted after root_leaves split: list.split)
  qed
qed

lemma settled_command:
  assumes "settled b"
  shows "settled (snd (snd (run_membrane A S argv (s, b))))"
proof (cases "valid_argv argv")
  case True
  have "leaves (command A S argv) (\<lambda>_. settled) (s, b)" by (rule command_leaves [OF assms True])
  then show ?thesis
    using True assms by (auto simp: run_membrane_def saved_def wp_def split: prod.splits sum.splits)
qed (simp add: run_membrane_def ret_def assms)

lemma reachable_settled:
  assumes "reachable_brain A S p b"
  shows "settled b"
  using assms
proof (induction rule: reachable_brain.induct)
  case reach_hatched
  then show ?case by (simp add: settled_def hatched_def)
qed (rule settled_command)

text \<open>C26: in every state the embryo reaches no message is stranded (when no turn is in flight the queue is
  empty), the window holds at most the last ten exchanges, and the turn in flight has made at most twenty calls.
\<close>

theorem no_message_stranded:
  assumes "reachable_brain A S p b"
  shows "(br_pending b = None \<longrightarrow> br_queue b = []) \<and> length (br_window b) \<le> 10 \<and>
         (\<forall>q. br_pending b = Some q \<longrightarrow> length (pn_calls q) \<le> 20)"
  using reachable_settled [OF assms] reachable_tidy [OF assms] by (simp add: settled_def tidy_def window_size_def cap_def)

theorem no_message_stranded_witness:
  "\<forall>(A :: unit mapi) S s p argv. let b = snd (snd (run_membrane A S argv (s, hatched p))) in
     (br_pending b = None \<longrightarrow> br_queue b = []) \<and> length (br_window b) \<le> 10 \<and>
     (\<forall>q. br_pending b = Some q \<longrightarrow> length (pn_calls q) \<le> 20)"
  unfolding Let_def by (intro allI) (rule no_message_stranded [OF reach_command [OF reach_hatched]])

end
