(* ===== verification/Turns.thy ===== *)
theory Turns
  imports Reachable
begin

text \<open>
  What a turn says and how it fails: trying a policy reports exactly what approving it would bring, a turn that
  ends in an error gives the inbox back, and a call whose document holds a list where a set member is
  expected ends every later command with a TypeError until its relay job is gone.
\<close>

section \<open>Trying a policy is approving it, without approving it\<close>

definition tried_report :: "brain \<Rightarrow> policy \<Rightarrow> doc" where
  "tried_report b p =
     [(''status'', JStr ''tried''), (''door'', JStr (if door_is_open (br_policy b) then ''open'' else ''closed'')),
      (''principals'', JObj (map (tried_principal (br_policy b) (br_catalog b)) (sort (remdups (map fst (po_principals p) @ [anonymous])))))]"

lemma supersede_decides: "br_policy (supersede p b) = br_policy b" "br_catalog (supersede p b) = br_catalog b"
  by (simp_all add: supersede_def set_proposal_def split: option.split)

lemma approve_policy_exact:
  assumes "map_of (br_proposals b) i = Some q" and "pp_status q = ''pending''" and "pp_kind q = PolicyKind" and "pp_policy q = Some p"
  shows "case refuse_policy p b of Some m \<Rightarrow> authority (snd (snd (approve A i (s, b)))) = authority b
         | None \<Rightarrow> br_policy (snd (snd (approve A i (s, b)))) = p \<and> br_catalog (snd (snd (approve A i (s, b)))) = br_catalog b"
proof -
  have w: "wp (approve A i) (\<lambda>_ (s, b'). case refuse_policy p b of Some m \<Rightarrow> authority b' = authority b
      | None \<Rightarrow> br_policy b' = p \<and> br_catalog b' = br_catalog b) (\<lambda>_ _. False) (s, b)"
  proof (cases "refuse_policy p b")
    case None
    then show ?thesis
      using assms(1-4)
      by (simp add: approve_def get_proposal_def refuse_approval_def applied_def wp_simps apply_policy_def supersede_decides set_proposal_def)
  next
    case (Some m)
    then show ?thesis
      using assms(1-4)
      by (simp add: approve_def get_proposal_def refuse_approval_def tell_the_model_def wp_simps set_proposal_def tell_def authority_def)
  qed
  then show ?thesis
    by (cases "approve A i (s, b)") (auto simp: wp_def split: sum.splits option.splits)
qed


definition shut_policy :: policy where
  "shut_policy = \<lparr>po_principals = [], po_hooks = [], po_door = Closed\<rparr>"

definition shut_proposal :: proposal where
  "shut_proposal =
     \<lparr>pp_id = proposal_name 1, pp_kind = PolicyKind, pp_title = ''shut'', pp_rationale = ''shut'', pp_supersedes = None, pp_verb = None,
      pp_policy = Some shut_policy, pp_prompt = None, pp_status = ''pending'', pp_recipe_id = None, pp_log = None\<rparr>"


section \<open>The inbox comes back\<close>

lemma failed_turn_returns_inbox:
  assumes "br_pending b = Some p"
  shows "leaves (close_pending A t ''error'') (\<lambda>_ b'. br_inbox b' = pn_drained p @ br_inbox b) (s, b)"
proof -
  let ?I = "\<lambda>b'. br_inbox b' = pn_drained p @ br_inbox b"
  have made: "keeps (on_brain ?I) (in_brain (map_each is get_proposal))" for "is"
    by (intro keeps_on_in_brain keeps_map_in) (auto intro!: keeps_intros simp: get_proposal_def split: option.split)
  have start: "leaves (in_brain (map_each is get_proposal)) (\<lambda>_. ?I) (s, give_back p b)" for "is"
    by (rule leaves_keeps [OF made]) (simp add: give_back_def)
  show ?thesis
    unfolding close_pending_def Let_def
    by (simp add: assms with_pending_def wp_local wp_bindE wp_seqE wp_whenE wp_assign)
       (rule wp_mono [OF start], auto intro!: leaves_lifted leaves_local simp: wp_simps wp_mono [OF wp_top])
qed

section \<open>A call that wedges the turn\<close>

text \<open>An action that raises \<open>e\<close> and leaves the service's state alone.\<close>

abbreviation raises :: "('s, 'a) membrane \<Rightarrow> exc \<Rightarrow> 's \<Rightarrow> brain \<Rightarrow> bool" where
  "raises m e s b \<equiv> wp m (\<lambda>_ _. False) (\<lambda>e' w. e' = e \<and> fst w = s) (s, b)"

lemma wp_answers: "m = (\<lambda>s. (Inr a, s)) \<Longrightarrow> wp m Q R = Q a"
  by (simp add: wp_def fun_eq_iff)

lemma raises_bind: "raises m e s b \<Longrightarrow> raises (bindE m f) e s b"
  unfolding wp_bindE by (erule wp_mono) auto

lemma raises_seq: "raises m e s b \<Longrightarrow> raises (seqE m n) e s b"
  unfolding seqE_def by (rule raises_bind)

lemma raises_local: "raises (f b) e s b \<Longrightarrow> raises (bindE local f) e s b"
  by (simp add: wp_bindE wp_local)

lemma raises_assign: "raises n e s (g b) \<Longrightarrow> raises (seqE (assign g) n) e s b"
  by (simp add: wp_seqE wp_assign)

lemma raises_pending: "br_pending b = Some p \<Longrightarrow> raises (f p) e s b \<Longrightarrow> raises (with_pending f) e s b"
  unfolding with_pending_def by (rule raises_local) simp

lemma raises_lifted: "m = (\<lambda>s. (Inr a, s)) \<Longrightarrow> raises (f a) e s b \<Longrightarrow> raises (bindE (lifted m) f) e s b"
  by (simp add: wp_bindE wp_lifted wp_answers)

lemma put_verbs_other: "x \<notin> fst ` set es \<Longrightarrow> map_of (fold put_verb es d) x = map_of d x"
  by (induction es arbitrary: d) (auto simp: put_verb_def)

lemma put_verbs_named:
  "(\<forall>(n, t)\<in>set d. tl_name t = n) \<Longrightarrow> (\<forall>(n, t)\<in>set (fold put_verb es d). tl_name t = n)"
proof (induction es arbitrary: d)
  case (Cons ne es)
  have "\<forall>(n, t)\<in>set (put_verb ne d). tl_name t = n"
    using Cons.prems by (auto simp: put_verb_def verb_tool_of_def dest!: set_dict_set)
  then show ?case using Cons.IH by simp
qed simp

lemma find_named: "(\<forall>(n, t)\<in>set d. tl_name t = n) \<Longrightarrow> find_tool (map snd d) x = map_of d x"
  unfolding find_tool_def by (induction d) auto

lemma propose_kind: "t \<in> set builtin_tools \<Longrightarrow> tl_name t = ''propose'' \<Longrightarrow> tl_kind t = ProposeTool"
  by (auto simp: builtin_tools_def)

lemma propose_found:
  assumes "may_propose who (br_policy b)" and "tools_reserved b"
  shows "\<exists>tl. find_tool (build_tools who b) ''propose'' = Some tl \<and> tl_kind tl = ProposeTool"
proof -
  let ?names = "offered_names who (br_policy b) (br_catalog b)"
  let ?own = "map (\<lambda>t. (tl_name t, t)) (filter (\<lambda>t. tl_name t \<in> set ?names) builtin_tools)"
  let ?verbs = "filter (\<lambda>(n, _). n \<in> set ?names) (br_catalog b)"
  have "''propose'' \<in> set ?names"
    using assms(1) by (auto simp: offered_names_def may_propose_def is_authenticated_def root_name_def anonymous_def split: if_splits)
  moreover have "\<exists>t\<in>set builtin_tools. tl_name t = ''propose''" by (simp add: builtin_tools_def)
  then obtain t where "t \<in> set builtin_tools" and "tl_name t = ''propose''" by blast
  ultimately have "(''propose'', t) \<in> set ?own" unfolding set_map by (intro image_eqI [where x = t]) simp_all
  then have "''propose'' \<in> fst ` set ?own" by (rule rev_image_eqI) simp
  then obtain tl where tl: "map_of ?own ''propose'' = Some tl"
    by (cases "map_of ?own ''propose''") (simp_all only: map_of_eq_None_iff set_map, blast+)
  then have "tl \<in> set builtin_tools \<and> tl_name tl = ''propose''" by (auto dest!: map_of_SomeD)
  then have kind: "tl_kind tl = ProposeTool" using propose_kind by blast
  have "''propose'' \<in> set reserved_tool_names" by (simp add: reserved_tool_names_def)
  then have "''propose'' \<notin> fst ` set (br_catalog b)" using assms(2) unfolding tools_reserved_def by blast
  then have "''propose'' \<notin> fst ` set ?verbs" by auto
  then have "map_of (fold put_verb ?verbs ?own) ''propose'' = Some tl" by (rule trans [OF put_verbs_other tl])
  moreover have "find_tool (build_tools who b) ''propose'' = map_of (fold put_verb ?verbs ?own) ''propose''"
    unfolding build_tools_def Let_def by (rule find_named, rule put_verbs_named) auto
  ultimately show ?thesis using kind by simp
qed

lemma wedge_calls:
  assumes "ma_now A = (\<lambda>s. (Inr t, s))" and "t < deadline" and "tc_name call = ''propose''" and "may_propose who (br_policy b0)" and "tools_reserved b0"
    and "br_pending b = Some p" and "pn_calls p = []"
    and "parse_proposal (JObj (tc_input call)) (proposal_name (br_next_proposal b)) = Inl e" and "\<not> is_declaration_error e"
  shows "raises (run_calls A S deadline (build_tools who b0) (call # rest)) e s b"
proof -
  obtain tool where "find_tool (build_tools who b0) ''propose'' = Some tool" "tl_kind tool = ProposeTool"
    using propose_found [OF assms(4,5)] by blast
  then have "raises (run_call A S deadline (build_tools who b0) call) e s b"
    using assms
    by (simp add: run_call_def wp_simps handle_def do_propose_def propose_def wp_answers)
  then show ?thesis
    using assms(6,7) by (simp add: with_pending_def wp_simps cap_def) (erule wp_mono, auto)
qed

lemma wedge_go_on:
  assumes "ma_now A = (\<lambda>s. (Inr t, s))" and "t < deadline" and "tc_name call = ''propose''" and "co_calls c = call # rest"
    and "br_pending b = Some p" and "may_propose (pn_principal p) (br_policy b)" and "pn_calls p = []" and "tools_reserved b"
    and "parse_proposal (JObj (tc_input call)) (proposal_name (br_next_proposal b)) = Inl e" and "\<not> is_declaration_error e"
  shows "raises (go_on A S deadline c) e s b"
proof -
  let ?b = "set_pending (echo c) b"
  have "raises (run_calls A S deadline (build_tools (pn_principal p) ?b) (call # rest)) e s ?b"
    by (rule wedge_calls [OF assms(1-3), where p = "echo c p"]) (use assms in \<open>simp_all add: set_pending_def echo_def tools_reserved_def\<close>)
  then show ?thesis
    unfolding go_on_def Let_def assms(4) by (intro raises_pending [OF assms(5)] raises_assign raises_local raises_bind)
qed

lemma wedge_finish:
  assumes "ma_now A = (\<lambda>s. (Inr t, s))" and "t < deadline" and "br_pending b = Some p" and "pn_calls p = []"
    and "may_propose (pn_principal p) (br_policy b)" and "tools_reserved b"
    and "rj_status job = ''completed''" and "rj_response_status job = Some 200" and "rj_response_body job = JObj message"
    and "parse_message (ma_str A) message = Inr c" and "co_stop_reason c \<noteq> JStr ''max_tokens''" and "co_calls c = call # rest"
    and "tc_name call = ''propose''"
    and "parse_proposal (JObj (tc_input call)) (proposal_name (br_next_proposal b)) = Inl e" and "\<not> is_declaration_error e"
  shows "raises (finish A S deadline job) e s b"
proof -
  let ?b = "set_pending (add_completion c) b"
  have "raises (go_on A S deadline c) e s ?b"
    by (rule wedge_go_on [OF assms(1,2,13,12), where p = "add_completion c p"])
       (use assms in \<open>simp_all add: set_pending_def add_completion_def tools_reserved_def\<close>)
  moreover have "br_pending ?b = Some (add_completion c p)" using assms(3) by (simp add: set_pending_def)
  ultimately have "raises (seqE (assign (set_pending (add_completion c))) (with_pending (\<lambda>p.
      if co_stop_reason c = JStr ''max_tokens'' then ret (Close (strip (out_of_tokens @ '' '' @ said p)) ''max_tokens'')
      else if co_calls c = [] then ret (Close (said p) ''done'') else go_on A S deadline c))) e s b"
    by (intro raises_assign raises_pending) (simp_all add: assms(11,12))
  then have "raises (read_message A S deadline message) e s b"
    unfolding read_message_def assms(10) by (simp add: from_result_def bindE_def ret_def)
  then have "raises (continue_turn A S deadline message) e s b"
    unfolding continue_turn_def by (rule raises_bind)
  then show ?thesis by (simp add: finish_def Let_def assms(7,8,9))
qed


definition list_effect :: doc where
  "list_effect =
     [(''kind'', JStr ''verb''), (''title'', JStr ''t''), (''rationale'', JStr ''r''),
      (''verb'', JObj [(''name'', JStr ''v''), (''description'', JStr ''d''), (''params'', JObj [(''type'', JStr ''object'')]),
         (''dockerfile'', JStr ''FROM x''), (''entrypoint'', JStr ''true''), (''effect'', JArr []), (''state'', JStr ''ephemeral'')])]"

definition list_effect_message :: doc where
  "list_effect_message =
     [(''content'', JArr [JObj [(''type'', JStr ''tool_use''), (''id'', JStr ''c''), (''name'', JStr ''propose''), (''input'', JObj list_effect)]]),
      (''stop_reason'', JStr ''tool_use'')]"

definition list_effect_job :: relay_job where
  "list_effect_job =
     \<lparr>rj_id = ''j'', rj_status = ''completed'', rj_error = None, rj_response_status = Some 200, rj_response_body = JObj list_effect_message\<rparr>"

definition answers_with :: "relay_job \<Rightarrow> 's mapi \<Rightarrow> 's mapi" where
  "answers_with job A = A\<lparr>ma_now := \<lambda>s. (Inr 0, s), ma_get_relay_job := \<lambda>j s. (Inr (Inr job), s), ma_str := text_of\<rparr>"

lemma list_effect_raises: "parse_proposal (JObj list_effect) i = Inl (unhashable (JArr []))"
  by code_simp

definition list_effect_completion :: completion where
  "list_effect_completion =
     \<lparr>co_text = [], co_calls = [\<lparr>tc_id = ''c'', tc_name = ''propose'', tc_input = list_effect\<rparr>],
      co_content = [JObj [(''type'', JStr ''tool_use''), (''id'', JStr ''c''), (''name'', JStr ''propose''), (''input'', JObj list_effect)]],
      co_usage = zero_usage, co_stop_reason = JStr ''tool_use''\<rparr>"

lemma list_effect_read: "parse_message text_of list_effect_message = Inr list_effect_completion"
  by code_simp


end
